(* ===== verification/Prelude.thy ===== *)
theory Prelude
  imports Main "HOL-Library.AList" "HOL-Library.List_Lexorder" "HOL-Library.Char_ord"
begin

text \<open>
  Shared vocabulary of the development: identifiers and clock values, the HTTP errors a
  service throws, the outcome of an effectful handler, and the table operations that the
  services' database queries are written with.

  Tables (\<^verbatim>\<open>apps/api/src/db/schema.ts\<close>) are lists of rows in insertion order. A
  query \<^verbatim>\<open>select().from(t).where(p)\<close> is \<open>filter\<close>, its first row is \<open>find\<close>, an
  \<^verbatim>\<open>update .. set .. where\<close> is \<open>update_where\<close>, a \<^verbatim>\<open>delete .. where\<close> is
  \<open>delete_where\<close>, and an insert under a primary key with \<^verbatim>\<open>onConflictDoNothing\<close> is
  \<open>insert_new\<close>. \<^verbatim>\<open>orderBy\<close> is a stable \<open>sort_key\<close>, so rows that tie keep their
  insertion order. A JavaScript \<^verbatim>\<open>Map\<close> is an association list written with
  \<open>AList.update\<close>, which keeps a key's first position as \<^verbatim>\<open>Map.set\<close> does.
\<close>

section \<open>Identifiers, time, errors\<close>

type_synonym id = string

text \<open>Milliseconds since the epoch, the value of \<^verbatim>\<open>Date.getTime()\<close>.\<close>

type_synonym time = int

text \<open>
  The exceptions of \<^verbatim>\<open>@nestjs/common\<close> the services throw, with their error tag or message.
  \<open>Locked\<close> is the 429 of a locked second factor; \<open>DbError\<close> is an error of the database the
  service does not catch (a violated key), which answers 500.
\<close>

datatype http_error =
    BadRequest string
  | Unauthorized string
  | Forbidden string
  | NotFound string
  | Conflict string
  | Gone
  | Unprocessable string
  | Locked time
  | ServiceUnavailable string
  | DbError string

text \<open>
  What running a handler gives: the error it threw or the value it returned, and the state it
  left. A handler that throws keeps what it wrote before, unless the writes were in a
  transaction (\<open>transact\<close>).
\<close>

type_synonym ('e, 'a, 's) outcome = "('e + 'a) \<times> 's"

definition throw :: "'e \<Rightarrow> 's \<Rightarrow> ('e, 'a, 's) outcome" where
  "throw e s = (Inl e, s)"

definition ret :: "'a \<Rightarrow> 's \<Rightarrow> ('e, 'a, 's) outcome" where
  "ret x s = (Inr x, s)"

definition and_then :: "('e, 'a, 's) outcome \<Rightarrow> ('a \<Rightarrow> 's \<Rightarrow> ('e, 'b, 's) outcome) \<Rightarrow>
    ('e, 'b, 's) outcome" where
  "and_then m f = (case m of (Inl e, s) \<Rightarrow> (Inl e, s) | (Inr x, s) \<Rightarrow> f x s)"

text \<open>A database transaction that throws is rolled back.\<close>

definition transact :: "'s \<Rightarrow> ('e, 'a, 's) outcome \<Rightarrow> ('e, 'a, 's) outcome" where
  "transact s0 m = (case m of (Inl e, s) \<Rightarrow> (Inl e, s0) | (Inr x, s) \<Rightarrow> (Inr x, s))"

lemma fst_ret_throw [simp]: "fst (ret x s) = Inr x" "fst (throw e s) = Inl e"
  by (simp_all add: ret_def throw_def)

lemma snd_ret_throw [simp]: "snd (ret x s) = s" "snd (throw e s) = s"
  by (simp_all add: ret_def throw_def)

lemma ret_eq_iff [simp]:
  "ret x s = (Inr y, t) \<longleftrightarrow> x = y \<and> s = t"
  "ret x s \<noteq> (Inl e, t)"
  "throw e' s = (Inl e, t) \<longleftrightarrow> e' = e \<and> s = t"
  "throw e' s \<noteq> (Inr y, t)"
  by (auto simp: ret_def throw_def)

lemma and_then_simps [simp]:
  "and_then (ret x s) f = f x s"
  "and_then (throw e s) f = throw e s"
  "and_then (Inr x, s) f = f x s"
  "and_then (Inl e, s) f = (Inl e, s)"
  by (simp_all add: and_then_def ret_def throw_def)

lemma and_then_Inr_iff:
  "and_then m f = (Inr y, t) \<longleftrightarrow> (\<exists>x s. m = (Inr x, s) \<and> f x s = (Inr y, t))"
  by (cases m; cases "fst m") (auto simp: and_then_def)

lemma and_then_Inl_iff:
  "and_then m f = (Inl e, t) \<longleftrightarrow>
     m = (Inl e, t) \<or> (\<exists>x s. m = (Inr x, s) \<and> f x s = (Inl e, t))"
  by (cases m; cases "fst m") (auto simp: and_then_def)

lemma transact_simps [simp]:
  "transact s0 (ret x s) = ret x s"
  "transact s0 (throw e s) = throw e s0"
  by (simp_all add: transact_def ret_def throw_def)

lemma transact_Inr_iff: "transact s0 m = (Inr x, s) \<longleftrightarrow> m = (Inr x, s)"
  by (cases m; cases "fst m") (auto simp: transact_def)

lemma transact_Inl_iff: "transact s0 m = (Inl e, s) \<longleftrightarrow> s = s0 \<and> (\<exists>s'. m = (Inl e, s'))"
  by (cases m; cases "fst m") (auto simp: transact_def)

named_theorems outcome_iffs \<open>inversion of handler outcomes\<close>
lemmas [outcome_iffs] = and_then_Inr_iff and_then_Inl_iff transact_Inr_iff transact_Inl_iff

section \<open>Tables\<close>

definition update_where :: "('r \<Rightarrow> bool) \<Rightarrow> ('r \<Rightarrow> 'r) \<Rightarrow> 'r list \<Rightarrow> 'r list" where
  "update_where p f t = map (\<lambda>r. if p r then f r else r) t"

definition delete_where :: "('r \<Rightarrow> bool) \<Rightarrow> 'r list \<Rightarrow> 'r list" where
  "delete_where p t = filter (\<lambda>r. \<not> p r) t"

text \<open>
  \<^verbatim>\<open>insert .. onConflictDoNothing\<close> under the key \<open>k\<close>: the row is refused (\<open>None\<close>) when a
  row with its key is there.
\<close>

definition insert_new :: "('r \<Rightarrow> 'k) \<Rightarrow> 'r \<Rightarrow> 'r list \<Rightarrow> 'r list option" where
  "insert_new k r t = (if k r \<in> k ` set t then None else Some (t @ [r]))"

text \<open>\<^verbatim>\<open>insert .. onConflictDoUpdate\<close>: \<open>f\<close> is what the conflicting row becomes.\<close>

definition upsert :: "('r \<Rightarrow> 'k) \<Rightarrow> 'r \<Rightarrow> ('r \<Rightarrow> 'r) \<Rightarrow> 'r list \<Rightarrow> 'r list" where
  "upsert k r f t =
     (if k r \<in> k ` set t then update_where (\<lambda>x. k x = k r) f t else t @ [r])"

text \<open>Several rows with \<^verbatim>\<open>onConflictDoNothing\<close>: each goes in unless its key is taken.\<close>

fun insert_all_new :: "('r \<Rightarrow> 'k) \<Rightarrow> 'r list \<Rightarrow> 'r list \<Rightarrow> 'r list" where
  "insert_all_new k [] t = t"
| "insert_all_new k (r # rs) t =
     insert_all_new k rs (case insert_new k r t of None \<Rightarrow> t | Some t' \<Rightarrow> t')"

text \<open>A primary key: no two rows share it.\<close>

definition unique_by :: "('r \<Rightarrow> 'k) \<Rightarrow> 'r list \<Rightarrow> bool" where
  "unique_by k t \<longleftrightarrow> distinct (map k t)"

lemma set_update_where: "set (update_where p f t) = {if p r then f r else r |r. r \<in> set t}"
  by (auto simp: update_where_def)

lemma length_update_where [simp]: "length (update_where p f t) = length t"
  by (simp add: update_where_def)

lemma update_where_Nil [simp]: "update_where p f [] = []"
  by (simp add: update_where_def)

lemma update_where_Cons [simp]:
  "update_where p f (r # t) = (if p r then f r else r) # update_where p f t"
  by (simp add: update_where_def)

lemma update_where_id: "(\<And>r. r \<in> set t \<Longrightarrow> \<not> p r) \<Longrightarrow> update_where p f t = t"
  by (induction t) auto

lemma map_update_where:
  "(\<And>r. r \<in> set t \<Longrightarrow> p r \<Longrightarrow> k (f r) = k r) \<Longrightarrow> map k (update_where p f t) = map k t"
  by (induction t) auto

lemma unique_by_update_where:
  "unique_by k t \<Longrightarrow> (\<And>r. r \<in> set t \<Longrightarrow> p r \<Longrightarrow> k (f r) = k r) \<Longrightarrow>
     unique_by k (update_where p f t)"
  by (simp add: unique_by_def map_update_where)

lemma set_delete_where [simp]: "set (delete_where p t) = {r \<in> set t. \<not> p r}"
  by (auto simp: delete_where_def)

lemma delete_where_Nil [simp]: "delete_where p [] = []"
  by (simp add: delete_where_def)

lemma delete_where_Cons [simp]:
  "delete_where p (r # t) = (if p r then delete_where p t else r # delete_where p t)"
  by (simp add: delete_where_def)

lemma unique_by_delete_where: "unique_by k t \<Longrightarrow> unique_by k (delete_where p t)"
  by (induction t) (auto simp: unique_by_def)

lemma unique_by_Nil [simp]: "unique_by k []"
  by (simp add: unique_by_def)

lemma unique_by_snoc: "unique_by k (t @ [r]) \<longleftrightarrow> unique_by k t \<and> k r \<notin> k ` set t"
  by (auto simp: unique_by_def)

lemma unique_by_Cons: "unique_by k (r # t) \<longleftrightarrow> (\<forall>x \<in> set t. k x \<noteq> k r) \<and> unique_by k t"
  by (auto simp: unique_by_def image_iff)

lemma unique_byD:
  "unique_by k t \<Longrightarrow> r \<in> set t \<Longrightarrow> r' \<in> set t \<Longrightarrow> k r = k r' \<Longrightarrow> r = r'"
  by (auto simp: unique_by_def distinct_map inj_on_def)

lemma insert_new_Some:
  "insert_new k r t = Some t' \<longleftrightarrow> k r \<notin> k ` set t \<and> t' = t @ [r]"
  by (auto simp: insert_new_def)

lemma insert_new_None: "insert_new k r t = None \<longleftrightarrow> k r \<in> k ` set t"
  by (auto simp: insert_new_def)

lemma unique_by_insert_new: "insert_new k r t = Some t' \<Longrightarrow> unique_by k t \<Longrightarrow> unique_by k t'"
  by (auto simp: insert_new_Some unique_by_snoc)

lemma unique_by_upsert:
  "unique_by k t \<Longrightarrow> (\<And>x. k x = k r \<Longrightarrow> k (f x) = k r) \<Longrightarrow> unique_by k (upsert k r f t)"
proof (cases "k r \<in> k ` set t")
  case True
  assume "unique_by k t" and "\<And>x. k x = k r \<Longrightarrow> k (f x) = k r"
  then have "unique_by k (update_where (\<lambda>x. k x = k r) f t)"
    by (intro unique_by_update_where) auto
  with True show ?thesis by (simp add: upsert_def)
next
  case False
  assume "unique_by k t"
  with False show ?thesis by (simp add: upsert_def unique_by_snoc)
qed

lemma set_upsert_const: "set (upsert k r (\<lambda>_. r) t) = insert r {x \<in> set t. k x \<noteq> k r}"
proof (cases "k r \<in> k ` set t")
  case True
  then obtain y where "y \<in> set t" "k y = k r" by auto
  with True show ?thesis by (auto simp: upsert_def set_update_where)
next
  case False
  then have "\<forall>x \<in> set t. k x \<noteq> k r" by (metis imageI)
  with False show ?thesis by (auto simp: upsert_def)
qed

lemma unique_by_upsert_const: "unique_by k t \<Longrightarrow> unique_by k (upsert k r (\<lambda>_. r) t)"
  by (rule unique_by_upsert) simp_all

lemma unique_by_insert_all_new: "unique_by k t \<Longrightarrow> unique_by k (insert_all_new k rs t)"
  by (induction k rs t rule: insert_all_new.induct) (auto simp: insert_new_def unique_by_snoc)

lemma set_insert_all_new_subset: "set (insert_all_new k rs t) \<subseteq> set t \<union> set rs"
proof (induction k rs t rule: insert_all_new.induct)
  case (2 k r rs t)
  then show ?case by (auto simp: insert_new_def split: if_splits)
qed simp

lemma set_subset_insert_all_new: "set t \<subseteq> set (insert_all_new k rs t)"
proof (induction k rs t rule: insert_all_new.induct)
  case (2 k r rs t)
  then show ?case by (auto simp: insert_new_def split: if_splits)
qed simp

lemma keys_insert_all_new: "k ` set (insert_all_new k rs t) = k ` set t \<union> k ` set rs"
proof (induction k rs t rule: insert_all_new.induct)
  case (2 k r rs t)
  then show ?case by (auto simp: insert_new_def split: if_splits)
qed simp

lemma find_Some_iff_unique:
  assumes "unique_by k t"
  shows "find (\<lambda>r. k r = x) t = Some r \<longleftrightarrow> r \<in> set t \<and> k r = x"
  using assms by (induction t) (auto simp: unique_by_def)

lemma find_set: "find p t = Some r \<Longrightarrow> r \<in> set t \<and> p r"
  by (auto simp: find_Some_iff)

lemma find_None_ball: "find p t = None \<longleftrightarrow> (\<forall>r \<in> set t. \<not> p r)"
  by (auto simp: find_None_iff)

text \<open>A table keyed by numbers inside a window of \<open>m\<close> has at most \<open>m\<close> rows.\<close>

lemma length_le_window:
  assumes "distinct (map f t)" and "\<And>r. r \<in> set t \<Longrightarrow> f r \<le> n \<and> n < f r + m"
  shows "length t \<le> (m::nat)"
proof -
  have "f ` set t \<subseteq> {n + 1 - m ..< n + 1}" using assms(2) by force
  then have "card (f ` set t) \<le> card {n + 1 - m ..< n + 1}" by (intro card_mono) auto
  then have "card (set (map f t)) \<le> m" by simp
  then show ?thesis using distinct_card [OF assms(1)] by simp
qed

text \<open>\<^verbatim>\<open>where\<close> and \<^verbatim>\<open>orderBy\<close> commute.\<close>

lemma filter_sort_key: "filter P (sort_key f xs) = sort_key f (filter P xs)"
proof (induction xs)
  case (Cons x xs)
  then show ?case by (cases "P x") (simp_all add: filter_insort filter_insort_triv)
qed simp

lemma sorted_wrt_less_sort_key:
  assumes "\<And>x y. x \<in> set xs \<Longrightarrow> y \<in> set xs \<Longrightarrow> f x = f y \<Longrightarrow> x = y" and "distinct xs"
  shows "sorted_wrt (<) (map f (sort_key f xs))"
proof -
  have "distinct (map f (sort_key f xs))" using assms by (auto simp: distinct_map inj_on_def)
  then show ?thesis using sorted_sort_key [of f xs] by (simp add: strict_sorted_iff)
qed

lemma length_filter_mono: "(\<And>x. x \<in> set xs \<Longrightarrow> P x \<Longrightarrow> Q x) \<Longrightarrow> length (filter P xs) \<le> length (filter Q xs)"
  by (induction xs) (auto intro: le_SucI)

lemma length_filter_delete_where: "length (filter q (delete_where p t)) \<le> length (filter q t)"
  by (induction t) auto

text \<open>The first row of an \<^verbatim>\<open>orderBy\<close> is the one with the least key.\<close>

lemma hd_sort_key:
  assumes "x \<in> set xs" and "\<And>y. y \<in> set xs \<Longrightarrow> y \<noteq> x \<Longrightarrow> f x < f y"
  shows "\<exists>ys. sort_key f xs = x # ys"
proof (cases "sort_key f xs")
  case Nil
  then have "set (sort_key f xs) = {}" by simp
  with assms(1) show ?thesis by simp
next
  case (Cons z zs)
  have sorted: "sorted (map f (z # zs))" unfolding Cons [symmetric] by simp
  have members: "set (z # zs) = set xs" unfolding Cons [symmetric] by simp
  then have "x \<in> set (z # zs)" and z: "z \<in> set xs" using assms(1) by auto
  with sorted have "f z \<le> f x" by auto
  with assms(2) [OF z] have "z = x" by force
  with Cons show ?thesis by simp
qed

text \<open>An update under a key, looked up under a key it does not change.\<close>

lemma find_update_where_key:
  assumes "\<And>r. k (f r) = k r"
  shows "find (\<lambda>r. k r = x) (update_where (\<lambda>r. k r = y) f t) =
    (if x = y then map_option f (find (\<lambda>r. k r = x) t) else find (\<lambda>r. k r = x) t)"
  using assms by (induction t) auto

lemma filter_map_other:
  "(\<And>x. x \<in> set t \<Longrightarrow> Q (g x) \<longleftrightarrow> Q x) \<Longrightarrow> (\<And>x. x \<in> set t \<Longrightarrow> Q x \<Longrightarrow> g x = x) \<Longrightarrow>
     filter Q (map g t) = filter Q t"
  by (induction t) auto

lemma find_append: "find p (xs @ ys) = (case find p xs of None \<Rightarrow> find p ys | Some r \<Rightarrow> Some r)"
  by (induction xs) auto

lemma find_delete_where_key:
  "find (\<lambda>r. k r = x) (delete_where (\<lambda>r. k r = y) t) =
     (if x = y then None else find (\<lambda>r. k r = x) t)"
  by (induction t) auto

text \<open>A key and a condition hit at most one row of a keyed table; replacing that row.\<close>

lemma length_hits:
  assumes "unique_by k t"
  shows "length (filter (\<lambda>r. k r = x \<and> P r) t) = (if \<exists>r \<in> set t. k r = x \<and> P r then 1 else 0)"
  using assms
proof (induction t)
  case (Cons a t)
  then have "filter (\<lambda>r. k r = x \<and> P r) t = []" if "k a = x"
    using that by (auto simp: unique_by_Cons filter_empty_conv)
  with Cons show ?case by (auto simp: unique_by_Cons)
qed simp

lemma find_replaced:
  assumes "unique_by k t" and "\<exists>r \<in> set t. k r = k row \<and> P r"
  shows "find (\<lambda>r. k r = x) (update_where (\<lambda>r. k r = k row \<and> P r) (\<lambda>_. row) t) =
    (if x = k row then Some row else find (\<lambda>r. k r = x) t)"
  using assms
proof (induction t)
  case (Cons a t)
  show ?case
  proof (cases "k a = k row \<and> P a")
    case True
    then have "update_where (\<lambda>r. k r = k row \<and> P r) (\<lambda>_. row) t = t"
      using Cons.prems(1) by (intro update_where_id) (auto simp: unique_by_Cons)
    then show ?thesis using True by simp
  next
    case False
    then have "\<exists>r \<in> set t. k r = k row \<and> P r" using Cons.prems(2) by auto
    moreover from this have "k a \<noteq> k row" using Cons.prems(1) by (auto simp: unique_by_Cons)
    ultimately show ?thesis using Cons.IH Cons.prems(1) False by (auto simp: unique_by_Cons)
  qed
qed simp

section \<open>Strings\<close>

text \<open>
  \<^verbatim>\<open>String.trim\<close> and \<^verbatim>\<open>String.toLowerCase\<close> on the characters of code 0 to 255, which are the
  characters of HOL's strings.
\<close>

definition js_space :: "char \<Rightarrow> bool" where
  "js_space ch \<longleftrightarrow> (of_char ch :: nat) \<in> set [9, 10, 11, 12, 13, 32, 160]"

definition js_trim :: "string \<Rightarrow> string" where
  "js_trim s = rev (dropWhile js_space (rev (dropWhile js_space s)))"

definition js_lower_char :: "char \<Rightarrow> char" where
  "js_lower_char ch = (let n = (of_char ch :: nat) in
     if (65 \<le> n \<and> n \<le> 90) \<or> (192 \<le> n \<and> n \<le> 222 \<and> n \<noteq> 215) then char_of (n + 32) else ch)"

definition js_lower :: "string \<Rightarrow> string" where
  "js_lower s = map js_lower_char s"

lemma js_lower_char_idem [simp]: "js_lower_char (js_lower_char ch) = js_lower_char ch"
proof -
  have "of_char ch < (256::nat)" by (rule nat_of_char_less_256)
  then show ?thesis by (auto simp: js_lower_char_def Let_def of_char_of take_bit_eq_mod)
qed

lemma js_lower_idem [simp]: "js_lower (js_lower s) = js_lower s"
  by (simp add: js_lower_def)

text \<open>The members of a JavaScript \<^verbatim>\<open>Set\<close> in the order they were first added.\<close>

definition js_set :: "'a list \<Rightarrow> 'a list" where
  "js_set xs = rev (remdups (rev xs))"

lemma set_js_set [simp]: "set (js_set xs) = set xs"
  by (simp add: js_set_def)

lemma distinct_js_set [simp]: "distinct (js_set xs)"
  by (simp add: js_set_def)

text \<open>For concrete runs: a handler that did not throw returned something.\<close>

lemma outcome_InrE:
  assumes "\<not> isl (fst m)"
  obtains x s where "m = (Inr x, s)"
  using assms by (cases m; cases "fst m") auto

lemma outcome_InlE:
  assumes "isl (fst m)"
  obtains e s where "m = (Inl e, s)"
  using assms by (cases m; cases "fst m") auto

end
