(* ===== verification/AuthTokens.thy ===== *)
theory AuthTokens
  imports Prelude "HOL-Library.Word"
begin

text \<open>
  The keyed hash of \<^verbatim>\<open>apps/api/src/auth/tokens.ts\<close>: an HMAC-SHA256 over parts that each
  carry their length, so that different lists of parts are different messages. HMAC-SHA256
  itself is node's: a parameter \<open>mac\<close> from a key and a message to a digest. Bytes are
  characters, as node's \<^verbatim>\<open>latin1\<close> reads a \<^verbatim>\<open>Buffer\<close>.
\<close>

type_synonym mac = "string \<Rightarrow> string \<Rightarrow> string"

text \<open>\<^verbatim>\<open>Buffer.from(part, 'utf8')\<close> of code points up to 255.\<close>

definition utf8_char :: "char \<Rightarrow> string" where
  "utf8_char ch = (let n = (of_char ch :: nat) in
     if n < 128 then [ch] else [char_of (192 + n div 64), char_of (128 + n mod 64)])"

definition utf8 :: "string \<Rightarrow> string" where
  "utf8 s = concat (map utf8_char s)"

text \<open>\<^verbatim>\<open>writeUInt32BE\<close>; a length of 2^32 or more would throw, and no string is that long.\<close>

definition uint32_be :: "nat \<Rightarrow> string" where
  "uint32_be n = map (\<lambda>i. char_of (n div 256 ^ i mod 256)) [3, 2, 1, 0]"

definition framed :: "string \<Rightarrow> string" where
  "framed part = (let bytes = utf8 part in uint32_be (length bytes) @ bytes)"

definition hmac :: "mac \<Rightarrow> string \<Rightarrow> string list \<Rightarrow> string" where
  "hmac mac secret parts = mac secret (concat (map framed parts))"

definition minutesFromNow :: "int \<Rightarrow> time \<Rightarrow> time" where
  "minutesFromNow minutes now = now + minutes * 60000"

section \<open>Framing\<close>

lemma no_carry: "q < 64 \<Longrightarrow> (192 + q) mod 256 = 192 + (q::nat)" "q < 64 \<Longrightarrow> (128 + q) mod 256 = 128 + (q::nat)"
  by (simp_all add: mod_less)

lemma lead_byte:
  assumes "x < 256"
  shows "128 \<le> (192 + x div 64) mod (256::nat)"
proof -
  have "x div 64 < 64" using assms by simp
  then show ?thesis by (simp only: no_carry)
qed

lemma two_bytes:
  assumes "x < 256" "y < (256::nat)" and "(192 + x div 64) mod 256 = (192 + y div 64) mod 256"
    and "(128 + x mod 64) mod 256 = (128 + y mod 64) mod 256"
  shows "x = y"
proof -
  have "x div 64 < 64" "y div 64 < 64" using assms(1,2) by simp_all
  then have high: "x div 64 = y div 64" using assms(3) by (simp only: no_carry add_left_cancel)
  have "x mod 64 < 64" "y mod 64 < 64" by simp_all
  then have "x mod 64 = y mod 64" using assms(4) by (simp only: no_carry add_left_cancel)
  with high show ?thesis by (metis div_mult_mod_eq)
qed

lemma utf8_char_eqD:
  assumes "utf8_char a @ xs = utf8_char b @ ys"
  shows "a = b \<and> xs = ys"
proof -
  let ?n = "\<lambda>c. of_char c :: nat"
  have high: "char_of (192 + ?n c div 64) \<noteq> (d :: char)" if "?n d < 128" "\<not> ?n c < 128" for c d
  proof
    assume "char_of (192 + ?n c div 64) = d"
    then have "(192 + ?n c div 64) mod 256 = ?n d" by (metis of_char_of)
    with lead_byte [of "?n c"] that show False by simp
  qed
  have eq: "a = b" if "\<not> ?n a < 128" "\<not> ?n b < 128"
    "char_of (192 + ?n a div 64) = (char_of (192 + ?n b div 64) :: char)"
    "char_of (128 + ?n a mod 64) = (char_of (128 + ?n b mod 64) :: char)"
  proof -
    have "(192 + ?n a div 64) mod 256 = (192 + ?n b div 64) mod 256" using that(3) by (metis of_char_of)
    moreover have "(128 + ?n a mod 64) mod 256 = (128 + ?n b mod 64) mod 256"
      using that(4) by (metis of_char_of)
    ultimately have "?n a = ?n b" by (rule two_bytes [OF nat_of_char_less_256 nat_of_char_less_256])
    then show ?thesis by simp
  qed
  show ?thesis
  proof (cases "?n a < 128"; cases "?n b < 128")
    assume "?n a < 128" "?n b < 128"
    with assms show ?thesis by (simp add: utf8_char_def)
  next
    assume "?n a < 128" "\<not> ?n b < 128"
    with assms high [of a b] show ?thesis by (auto simp: utf8_char_def Let_def)
  next
    assume "\<not> ?n a < 128" "?n b < 128"
    with assms high [of b a] show ?thesis by (simp add: utf8_char_def Let_def)
  next
    assume big: "\<not> ?n a < 128" "\<not> ?n b < 128"
    with assms show ?thesis using eq [OF big] by (simp add: utf8_char_def Let_def)
  qed
qed

lemma utf8_char_neq_Nil [simp]: "utf8_char a \<noteq> []"
  by (simp add: utf8_char_def Let_def)

lemma utf8_Cons [simp]: "utf8 [] = []" "utf8 (a # s) = utf8_char a @ utf8 s"
  by (simp_all add: utf8_def)

lemma utf8_inject: "utf8 s = utf8 t \<Longrightarrow> s = t"
proof (induction s arbitrary: t)
  case Nil
  then show ?case by (cases t) simp_all
next
  case (Cons a s)
  then obtain b t' where t: "t = b # t'" by (cases t) auto
  with Cons.prems have "a = b \<and> utf8 s = utf8 t'" using utf8_char_eqD [of a "utf8 s" b "utf8 t'"] by simp
  with Cons.IH t show ?case by simp
qed

lemma uint32_be_inject:
  assumes "uint32_be m = uint32_be n" and "m < 2 ^ 32" and "n < 2 ^ 32"
  shows "m = n"
proof -
  have digit: "m div 256 ^ i mod 256 = n div 256 ^ i mod 256" if "i \<in> {0, 1, 2, 3}" for i
  proof -
    have "char_of (m div 256 ^ i mod 256) = (char_of (n div 256 ^ i mod 256) :: char)"
      using assms(1) that by (auto simp: uint32_be_def)
    then have "of_char (char_of (m div 256 ^ i mod 256) :: char) =
        (of_char (char_of (n div 256 ^ i mod 256) :: char) :: nat)" by simp
    then show ?thesis by simp
  qed

  have low: "m mod 256 = n mod 256" "m div 256 mod 256 = n div 256 mod 256"
    "m div 256 div 256 mod 256 = n div 256 div 256 mod 256"
    "m div 256 div 256 div 256 mod 256 = n div 256 div 256 div 256 mod 256"
    using digit [of 0] digit [of 1] digit [of 2] digit [of 3] by (simp_all flip: div_mult2_eq)
  have "m div 256 div 256 div 256 < 256" "n div 256 div 256 div 256 < 256"
    using assms(2,3) by (simp_all flip: div_mult2_eq add: div_less_iff_less_mult)
  with low(4) have "m div 256 div 256 div 256 = n div 256 div 256 div 256" by simp
  with low(3) have "m div 256 div 256 = n div 256 div 256" by (metis div_mult_mod_eq)
  with low(2) have "m div 256 = n div 256" by (metis div_mult_mod_eq)
  with low(1) show ?thesis by (metis div_mult_mod_eq)
qed

lemma framed_eqD:
  assumes "framed a @ xs = framed b @ ys" and "length (utf8 a) < 2 ^ 32" and "length (utf8 b) < 2 ^ 32"
  shows "a = b \<and> xs = ys"
proof -
  have "length (uint32_be n) = 4" for n by (simp add: uint32_be_def)
  then have eq: "uint32_be (length (utf8 a)) = uint32_be (length (utf8 b))"
    "utf8 a @ xs = utf8 b @ ys"
    using assms(1) by (auto simp: framed_def Let_def)
  then have "length (utf8 a) = length (utf8 b)" using uint32_be_inject assms(2,3) by blast
  then have "utf8 a = utf8 b" "xs = ys" using eq(2) by simp_all
  then show ?thesis using utf8_inject by blast
qed

lemma framed_neq_Nil [simp]: "framed a \<noteq> []"
  by (simp add: framed_def Let_def uint32_be_def)

text \<open>The framing loses nothing: as long as no part is 4 GiB long, two lists of parts give
  the same message to HMAC only when they are the same list, so a digest made for one purpose
  (its first part) can never be presented for another.\<close>

theorem framing_unambiguous:
  assumes "\<forall>p \<in> set ps \<union> set qs. length (utf8 p) < 2 ^ 32"
  shows "concat (map framed ps) = concat (map framed qs) \<longleftrightarrow> ps = qs"
  using assms
proof (induction ps arbitrary: qs)
  case Nil
  then show ?case by (cases qs) auto
next
  case (Cons p ps)
  show ?case
  proof (cases qs)
    case (Cons q qs')
    then show ?thesis
      using framed_eqD [of p "concat (map framed ps)" q "concat (map framed qs')"] Cons.IH [of qs'] Cons.prems
      by auto
  qed auto
qed

theorem framing_unambiguous_witness:
  "concat (map framed [''ab'', ''c'']) \<noteq> concat (map framed [''a'', ''bc''])"
  using framing_unambiguous [of "[''ab'', ''c'']" "[''a'', ''bc'']"]
  by (simp add: utf8_char_def)

end
