(* ===== verification/Schema.thy ===== *)
theory Schema
  imports Prelude
begin

text \<open>
  What several tables share: the AEAD envelope of \<^verbatim>\<open>packages/shared/src/crypto.ts\<close> and the
  change pages every sync endpoint answers with. The envelope's literal fields (\<^verbatim>\<open>v\<close>,
  \<^verbatim>\<open>alg\<close>) have one value each and are left out.
\<close>

record blob =
  bl_kid :: string
  bl_nonce :: string
  bl_ct :: string

text \<open>\<^verbatim>\<open>ACCOUNT_KID\<close>: the \<^verbatim>\<open>kid\<close> of keys wrapped with the account key.\<close>

definition ACCOUNT_KID :: string where
  "ACCOUNT_KID = ''account''"

text \<open>\<^verbatim>\<open>packages/shared/src/history.ts\<close>\<close>

definition TRASH_RETENTION_DAYS :: int where
  "TRASH_RETENTION_DAYS = 30"

definition MAX_VERSIONS_PER_RECORD :: nat where
  "MAX_VERSIONS_PER_RECORD = 20"

definition DAY_MS :: int where
  "DAY_MS = 24 * 60 * 60 * 1000"

definition trashCutoff :: "time \<Rightarrow> time" where
  "trashCutoff now = now - TRASH_RETENTION_DAYS * DAY_MS"

definition purgeAt :: "time \<Rightarrow> time" where
  "purgeAt deletedAt = deletedAt + TRASH_RETENTION_DAYS * DAY_MS"

section \<open>Change feeds\<close>

text \<open>
  The body of the three sync endpoints (vault items, project entries, token changes): the
  store was asked for one row more than the page holds, to learn whether another follows.
\<close>

record 'r sync_page =
  pg_items :: "'r list"
  pg_cursor :: nat
  pg_hasMore :: bool

definition sync_page_of :: "('r \<Rightarrow> nat) \<Rightarrow> nat \<Rightarrow> nat \<Rightarrow> 'r list \<Rightarrow> 'r sync_page" where
  "sync_page_of seq since limit changes =
     (let items = take limit changes
      in \<lparr>pg_items = items,
          pg_cursor = (if items = [] then since else seq (last items)),
          pg_hasMore = limit < length changes\<rparr>)"

text \<open>
  A change feed: a store whose rows carry a change number, and whose \<open>list_changes\<close> answers
  the first rows after a cursor in the order of that number.
\<close>

locale change_feed =
  fixes inv :: "'s \<Rightarrow> bool"
    and feed :: "'s \<Rightarrow> 'r list"
    and seq :: "'r \<Rightarrow> nat"
    and list_changes :: "'s \<Rightarrow> nat \<Rightarrow> nat \<Rightarrow> 'r list"
  assumes feed_sorted: "inv s \<Longrightarrow> sorted_wrt (<) (map seq (feed s))"
    and list_changes_eq: "inv s \<Longrightarrow>
      list_changes s since n = take n (filter (\<lambda>r. since < seq r) (feed s))"
begin

lemma filter_after_take:
  assumes "sorted_wrt (<) (map seq rs)" and "n < length rs" and "n > 0"
  shows "filter (\<lambda>r. seq (rs ! (n - 1)) < seq r) rs = drop n rs"
proof -
  let ?c = "seq (rs ! (n - 1))"
  have lt: "seq (rs ! i) < seq (rs ! j)" if "i < j" "j < length rs" for i j
    using sorted_wrt_nth_less [OF assms(1), of i j] that by simp
  have le: "r \<in> set (take n rs) \<Longrightarrow> \<not> ?c < seq r" for r
  proof -
    assume "r \<in> set (take n rs)"
    then obtain i where i: "i < n" "r = rs ! i"
      using assms(2) by (auto simp: in_set_conv_nth)
    show "\<not> ?c < seq r"
      using i lt [of i "n - 1"] assms(2) by (cases "i = n - 1") force+
  qed
  have gt: "r \<in> set (drop n rs) \<Longrightarrow> ?c < seq r" for r
  proof -
    assume "r \<in> set (drop n rs)"
    then obtain i where "i < length rs - n" "r = rs ! (n + i)"
      by (auto simp: in_set_conv_nth)
    then have i: "n + i < length rs" "r = rs ! (n + i)" by simp_all
    show "?c < seq r" using lt [of "n - 1" "n + i"] i assms(3) by simp
  qed
  have "filter (\<lambda>r. ?c < seq r) (take n rs) = []" "filter (\<lambda>r. ?c < seq r) (drop n rs) = drop n rs"
    using le gt by (simp_all only: filter_empty_conv filter_id_conv) auto
  then show ?thesis by (metis append_Nil append_take_drop_id filter_append)
qed

text \<open>A page is the next \<open>limit\<close> rows, and its cursor leaves exactly the rest to come.\<close>

lemma page_items:
  assumes "inv s"
  shows "pg_items (sync_page_of seq since limit (list_changes s since (limit + 1))) =
    take limit (filter (\<lambda>r. since < seq r) (feed s))"
  using assms by (simp add: sync_page_of_def Let_def list_changes_eq min_def)

lemma page_hasMore:
  assumes "inv s"
  shows "pg_hasMore (sync_page_of seq since limit (list_changes s since (limit + 1))) \<longleftrightarrow>
    limit < length (filter (\<lambda>r. since < seq r) (feed s))"
  using assms by (simp add: sync_page_of_def Let_def list_changes_eq)

lemma page_rest:
  fixes since limit :: nat and s :: 's
  assumes "inv s" and "0 < limit"
  defines "p \<equiv> sync_page_of seq since limit (list_changes s since (limit + 1))"
  shows "filter (\<lambda>r. pg_cursor p < seq r) (feed s) =
    drop limit (filter (\<lambda>r. since < seq r) (feed s))"
proof -
  let ?rs = "filter (\<lambda>r. since < seq r) (feed s)"
  have sorted: "sorted_wrt (<) (map seq ?rs)"
    using feed_sorted [OF assms(1)] by (simp add: sorted_wrt_map sorted_wrt_filter)
  have items: "pg_items p = take limit ?rs"
    unfolding p_def by (rule page_items [OF assms(1)])
  have cursor: "pg_cursor p = (if ?rs = [] then since else seq (last (take limit ?rs)))"
    using items assms(2) by (auto simp: p_def sync_page_of_def Let_def)
  show ?thesis
  proof (cases "?rs = []")
    case True
    then show ?thesis using cursor by simp
  next
    case False
    let ?n = "min limit (length ?rs)"
    have n: "0 < ?n" "?n \<le> length ?rs" using False assms(2) by auto
    have c: "pg_cursor p = seq (?rs ! (?n - 1))"
      using False cursor n assms(2) by (simp add: last_conv_nth min.commute)
    have mem: "?rs ! (?n - 1) \<in> set ?rs" using n by (intro nth_mem) linarith
    then have "since < pg_cursor p" unfolding c by simp
    then have "filter (\<lambda>r. pg_cursor p < seq r) (feed s) = filter (\<lambda>r. pg_cursor p < seq r) ?rs"
      by (auto intro: filter_cong)
    also have "\<dots> = drop limit ?rs"
    proof (cases "limit < length ?rs")
      case True
      then show ?thesis
        using filter_after_take [OF sorted, of limit] assms(2) c by (simp add: min_def)
    next
      case False
      let ?m = "length ?rs"
      have m: "pg_cursor p = seq (?rs ! (?m - 1))" using c False by (simp add: min_def)
      have "\<not> pg_cursor p < seq r" if "r \<in> set ?rs" for r
      proof -
        obtain i where "i < ?m" "r = ?rs ! i"
          using \<open>r \<in> set ?rs\<close> unfolding in_set_conv_nth by blast
        then show ?thesis
          using sorted_wrt_nth_less [OF sorted, of i "?m - 1"] m
          by (cases "i = ?m - 1") force+
      qed
      then show ?thesis using False by (simp add: filter_empty_conv)
    qed
    finally show ?thesis .
  qed
qed

end

end
