(* ===== verification/ShareLinks.thy ===== *)
theory ShareLinks
  imports AuthTokens Schema
begin

text \<open>
  Share links: \<^verbatim>\<open>ShareLinksService\<close> over the link half of \<^verbatim>\<open>PostgresShareStore\<close>
  (\<^verbatim>\<open>apps/api/src/sharing\<close>). The state holds the two tables, the accounts and the waitlist as
  far as the store reads them, and the mails handed to the mailer. The clock is an argument;
  a handler that reads it twice takes two.

  Digests are fixed-length strings, which \<^verbatim>\<open>timingSafeEqual\<close> compares. SHA-256 and the
  \<^verbatim>\<open>base64url\<close> codec of \<^verbatim>\<open>Buffer\<close> are fields of \<open>share_env\<close>, beside HMAC and the server secret.
\<close>

section \<open>State\<close>

record link_row =
  lk_id :: id
  lk_ownerId :: id
  lk_blob :: "blob option"
  lk_verifier :: string
  lk_allowedEmails :: "string list option"
  lk_createdAt :: time
  lk_expiresAt :: time
  lk_maxViews :: int
  lk_viewCount :: int
  lk_revokedAt :: "time option"

record code_row =
  lc_id :: id
  lc_linkId :: id
  lc_emailHash :: string
  lc_codeHash :: string
  lc_attempts :: int
  lc_expiresAt :: time
  lc_closedAt :: "time option"
  lc_createdAt :: time

record code_mail =
  cm_linkId :: id
  cm_to :: string
  cm_sender :: "string option"
  cm_code :: string
  cm_ttlMinutes :: int

record share_state =
  sh_links :: "link_row list"
  sh_codes :: "code_row list"
  sh_accounts :: "(id \<times> string) list"
  sh_verifiedJoiners :: "string list"
  sh_mails :: "code_mail list"

record share_env =
  sv_secret :: string
  sv_sandbox :: bool
  sv_mac :: mac
  sv_sha256 :: "string \<Rightarrow> string"
  sv_encode :: "string \<Rightarrow> string"
  sv_decode :: "string \<Rightarrow> string"

type_synonym 'a share_outcome = "(http_error, 'a, share_state) outcome"

definition maxActiveLinksPerUser :: nat where "maxActiveLinksPerUser = 200"
definition codeTtlMinutes :: int where "codeTtlMinutes = 10"
definition cooldownMs :: int where "cooldownMs = 30000"
definition perHour :: nat where "perHour = 5"
definition maxAttempts :: int where "maxAttempts = 5"

section \<open>The store\<close>

definition isLinkOpen :: "link_row \<Rightarrow> time \<Rightarrow> bool" where
  "isLinkOpen l now \<longleftrightarrow> lk_revokedAt l = None \<and> now < lk_expiresAt l \<and> lk_viewCount l < lk_maxViews l"

definition insertLink :: "link_row \<Rightarrow> share_state \<Rightarrow> bool \<times> share_state" where
  "insertLink l s = (case insert_new lk_id l (sh_links s) of
     None \<Rightarrow> (False, s) | Some t \<Rightarrow> (True, s\<lparr>sh_links := t\<rparr>))"

definition getOpenLink :: "id \<Rightarrow> time \<Rightarrow> share_state \<Rightarrow> link_row option" where
  "getOpenLink i now s = (case find (\<lambda>l. lk_id l = i) (sh_links s) of
     None \<Rightarrow> None | Some l \<Rightarrow> if isLinkOpen l now then Some l else None)"

definition listLinks :: "id \<Rightarrow> share_state \<Rightarrow> link_row list" where
  "listLinks u s = sort_key (\<lambda>l. - lk_createdAt l) (filter (\<lambda>l. lk_ownerId l = u) (sh_links s))"

definition countActiveLinks :: "id \<Rightarrow> time \<Rightarrow> share_state \<Rightarrow> nat" where
  "countActiveLinks u now s = length (filter (\<lambda>l. lk_ownerId l = u \<and> lk_revokedAt l = None \<and>
     now < lk_expiresAt l \<and> lk_viewCount l < lk_maxViews l) (sh_links s))"

datatype consume_result =
    ConsumeOk link_row
  | ConsumeNotFound
  | ConsumeEmailRequired
  | ConsumeInvalidCode

text \<open>The code of an email that a view may spend: unclosed, unexpired, the last one sent.\<close>

definition pending_code :: "id \<Rightarrow> string \<Rightarrow> time \<Rightarrow> share_state \<Rightarrow> code_row option" where
  "pending_code i emailHash now s =
     (case sort_key (\<lambda>c. - lc_createdAt c) (filter (\<lambda>c. lc_linkId c = i \<and> lc_emailHash c = emailHash \<and>
        lc_closedAt c = None \<and> now < lc_expiresAt c) (sh_codes s)) of
       [] \<Rightarrow> None | c # _ \<Rightarrow> Some c)"

text \<open>One guess at the pending code: it is closed when right, and after too many wrong ones.\<close>

definition guess_code :: "code_row \<Rightarrow> string \<Rightarrow> time \<Rightarrow> share_state \<Rightarrow> bool \<times> share_state" where
  "guess_code pending codeHash now s =
     (let matches = (lc_codeHash pending = codeHash);
          attempts = lc_attempts pending + (if matches then 0 else 1)
      in (matches, s\<lparr>sh_codes := update_where (\<lambda>c. lc_id c = lc_id pending)
            (\<lambda>c. c\<lparr>lc_attempts := attempts,
                   lc_closedAt := if matches \<or> maxAttempts \<le> attempts then Some now else None\<rparr>)
            (sh_codes s)\<rparr>))"

definition count_view :: "link_row \<Rightarrow> share_state \<Rightarrow> share_state" where
  "count_view row s = s\<lparr>sh_links := update_where (\<lambda>l. lk_id l = lk_id row)
     (\<lambda>l. l\<lparr>lk_viewCount := lk_viewCount row + 1,
            lk_blob := if lk_maxViews row \<le> lk_viewCount row + 1 then None else lk_blob row\<rparr>) (sh_links s)\<rparr>"

definition drop_blob :: "id \<Rightarrow> share_state \<Rightarrow> share_state" where
  "drop_blob i s = s\<lparr>sh_links := update_where (\<lambda>l. lk_id l = i) (\<lambda>l. l\<lparr>lk_blob := None\<rparr>) (sh_links s)\<rparr>"

definition consumeLinkView :: "id \<Rightarrow> time \<Rightarrow> (link_row \<Rightarrow> bool) \<Rightarrow> (string \<times> string) option \<Rightarrow>
    share_state \<Rightarrow> consume_result \<times> share_state" where
  "consumeLinkView i now check code s = (case find (\<lambda>l. lk_id l = i) (sh_links s) of
     None \<Rightarrow> (ConsumeNotFound, s)
   | Some link \<Rightarrow>
       if \<not> isLinkOpen link now
       then (ConsumeNotFound, if lk_blob link \<noteq> None then drop_blob i s else s)
       else if \<not> check link then (ConsumeNotFound, s)
       else (case lk_allowedEmails link of
           None \<Rightarrow> (ConsumeOk link, count_view link s)
         | Some _ \<Rightarrow>
             (case code of
                None \<Rightarrow> (ConsumeEmailRequired, s)
              | Some (emailHash, codeHash) \<Rightarrow>
                  (case pending_code i emailHash now s of
                     None \<Rightarrow> (ConsumeInvalidCode, s)
                   | Some pending \<Rightarrow>
                       (case guess_code pending codeHash now s of
                          (False, s') \<Rightarrow> (ConsumeInvalidCode, s')
                        | (True, s') \<Rightarrow> (ConsumeOk link, count_view link s'))))))"

definition revokeLink :: "id \<Rightarrow> id \<Rightarrow> time \<Rightarrow> share_state \<Rightarrow> bool \<times> share_state" where
  "revokeLink i u now s =
     (let hit = (\<lambda>l. lk_id l = i \<and> lk_ownerId l = u)
      in (list_ex hit (sh_links s),
          s\<lparr>sh_links := update_where hit
              (\<lambda>l. l\<lparr>lk_revokedAt := (case lk_revokedAt l of None \<Rightarrow> Some now | Some t \<Rightarrow> Some t),
                     lk_blob := None\<rparr>) (sh_links s)\<rparr>))"

text \<open>The codes of a link and email sent within the hour, last first.\<close>

definition recent_codes :: "id \<Rightarrow> string \<Rightarrow> time \<Rightarrow> share_state \<Rightarrow> time list" where
  "recent_codes i emailHash now s = map lc_createdAt (sort_key (\<lambda>c. - lc_createdAt c)
     (filter (\<lambda>c. lc_linkId c = i \<and> lc_emailHash c = emailHash \<and> now - 3600000 < lc_createdAt c) (sh_codes s)))"

text \<open>\<open>newId\<close> is the id the database gives the row. The row refers to its link.\<close>

definition issueLinkCode :: "id \<Rightarrow> string \<Rightarrow> string \<Rightarrow> time \<Rightarrow> time \<Rightarrow> id \<Rightarrow> share_state \<Rightarrow> bool share_outcome" where
  "issueLinkCode i emailHash codeHash now expiresAt newId s =
     (let recent = recent_codes i emailHash now s
      in if perHour \<le> length recent \<or> (recent \<noteq> [] \<and> now - hd recent < cooldownMs)
         then ret False s
         else if i \<notin> lk_id ` set (sh_links s) \<or> newId \<in> lc_id ` set (sh_codes s)
         then throw (DbError ''share_link_codes'') s
         else
           let closed = update_where (\<lambda>c. lc_linkId c = i \<and> lc_emailHash c = emailHash \<and> lc_closedAt c = None)
                 (\<lambda>c. c\<lparr>lc_closedAt := Some now\<rparr>) (sh_codes s)
           in ret True (s\<lparr>sh_codes := closed @ [\<lparr>lc_id = newId, lc_linkId = i, lc_emailHash = emailHash,
                lc_codeHash = codeHash, lc_attempts = 0, lc_expiresAt = expiresAt, lc_closedAt = None,
                lc_createdAt = now\<rparr>]\<rparr>))"

definition accountEmail :: "id \<Rightarrow> share_state \<Rightarrow> string option" where
  "accountEmail u s = map_option snd (find (\<lambda>a. fst a = u) (sh_accounts s))"

definition knownReachableEmails :: "string list \<Rightarrow> share_state \<Rightarrow> string list" where
  "knownReachableEmails emails s =
     (if emails = [] then []
      else filter (\<lambda>e. e \<in> set emails) (map snd (sh_accounts s)) @
           filter (\<lambda>e. e \<in> set emails) (sh_verifiedJoiners s))"

section \<open>The service\<close>

record create_link_req =
  cl_id :: id
  cl_blob :: blob
  cl_verifier :: string
  cl_expiresInSeconds :: int
  cl_maxViews :: int
  cl_allowedEmails :: "string list option"

datatype link_status = LinkActive | LinkExpired | LinkUsedUp | LinkRevoked

record link_summary =
  ls_id :: id
  ls_createdAt :: time
  ls_expiresAt :: time
  ls_maxViews :: int
  ls_viewCount :: int
  ls_allowedEmailCount :: nat
  ls_status :: link_status

record open_link_req =
  op_accessToken :: string
  op_email :: "string option"
  op_code :: "string option"

record opened_link =
  od_blob :: blob
  od_expiresAt :: time
  od_viewsRemaining :: int

definition emailHash :: "share_env \<Rightarrow> id \<Rightarrow> string \<Rightarrow> string" where
  "emailHash env i email = hmac (sv_mac env) (sv_secret env) [''share-recipient'', i, email]"

definition codeHash :: "share_env \<Rightarrow> id \<Rightarrow> string \<Rightarrow> string \<Rightarrow> string" where
  "codeHash env i email code = hmac (sv_mac env) (sv_secret env) [''share-code'', i, email, code]"

definition verifierOf :: "share_env \<Rightarrow> string \<Rightarrow> string" where
  "verifierOf env accessToken = sv_sha256 env (sv_decode env accessToken)"

definition summarize :: "link_row \<Rightarrow> time \<Rightarrow> link_summary" where
  "summarize l now = \<lparr>ls_id = lk_id l, ls_createdAt = lk_createdAt l, ls_expiresAt = lk_expiresAt l,
     ls_maxViews = lk_maxViews l, ls_viewCount = lk_viewCount l,
     ls_allowedEmailCount = (case lk_allowedEmails l of None \<Rightarrow> 0 | Some es \<Rightarrow> length es),
     ls_status = (if lk_revokedAt l \<noteq> None then LinkRevoked
       else if lk_maxViews l \<le> lk_viewCount l then LinkUsedUp
       else if lk_expiresAt l \<le> now then LinkExpired else LinkActive)\<rparr>"

definition unverified :: "share_env \<Rightarrow> string list option \<Rightarrow> share_state \<Rightarrow> string list" where
  "unverified env emails s = (case emails of
     None \<Rightarrow> []
   | Some es \<Rightarrow> if \<not> sv_sandbox env then []
       else filter (\<lambda>e. e \<notin> set (knownReachableEmails es s)) es)"

definition new_link :: "share_env \<Rightarrow> id \<Rightarrow> create_link_req \<Rightarrow> time \<Rightarrow> link_row" where
  "new_link env u req now = \<lparr>lk_id = cl_id req, lk_ownerId = u, lk_blob = Some (cl_blob req),
     lk_verifier = sv_decode env (cl_verifier req),
     lk_allowedEmails = map_option (map (\<lambda>e. sv_encode env (emailHash env (cl_id req) e))) (cl_allowedEmails req),
     lk_createdAt = now, lk_expiresAt = now + cl_expiresInSeconds req * 1000,
     lk_maxViews = cl_maxViews req, lk_viewCount = 0, lk_revokedAt = None\<rparr>"

definition link_create :: "share_env \<Rightarrow> id \<Rightarrow> create_link_req \<Rightarrow> time \<Rightarrow> share_state \<Rightarrow>
    (link_summary \<times> string list) share_outcome" where
  "link_create env u req now s =
     (if maxActiveLinksPerUser \<le> countActiveLinks u now s
      then throw (Unprocessable ''Too many active share links; revoke some first'') s
      else case insertLink (new_link env u req now) s of
          (False, s') \<Rightarrow> throw (Conflict ''Share id already in use'') s'
        | (True, s') \<Rightarrow> ret (summarize (new_link env u req now) now, unverified env (cl_allowedEmails req) s') s')"

definition link_list :: "id \<Rightarrow> time \<Rightarrow> share_state \<Rightarrow> link_summary list" where
  "link_list u now s = map (\<lambda>l. summarize l now) (listLinks u s)"

definition link_revoke :: "id \<Rightarrow> id \<Rightarrow> time \<Rightarrow> share_state \<Rightarrow> unit share_outcome" where
  "link_revoke u i now s = (case revokeLink i u now s of
     (False, s') \<Rightarrow> throw (NotFound '''') s' | (True, s') \<Rightarrow> ret () s')"

definition openLinkFor :: "share_env \<Rightarrow> id \<Rightarrow> string \<Rightarrow> time \<Rightarrow> share_state \<Rightarrow> link_row share_outcome" where
  "openLinkFor env i accessToken now s = (case getOpenLink i now s of
     None \<Rightarrow> throw (NotFound '''') s
   | Some link \<Rightarrow> if verifierOf env accessToken \<noteq> lk_verifier link then throw (NotFound '''') s else ret link s)"

definition link_check :: "share_env \<Rightarrow> id \<Rightarrow> string \<Rightarrow> time \<Rightarrow> share_state \<Rightarrow> bool share_outcome" where
  "link_check env i accessToken now s =
     and_then (openLinkFor env i accessToken now s) (\<lambda>link s. ret (lk_allowedEmails link \<noteq> None) s)"

text \<open>\<open>code\<close> is the random code. The mail is sent in the background; it is part of the step here.\<close>

definition requestCode :: "share_env \<Rightarrow> id \<Rightarrow> string \<Rightarrow> string \<Rightarrow> time \<Rightarrow> time \<Rightarrow> string \<Rightarrow> id \<Rightarrow> share_state \<Rightarrow>
    unit share_outcome" where
  "requestCode env i accessToken email now now' code newId s =
     and_then (openLinkFor env i accessToken now' s) (\<lambda>link s.
       if (case lk_allowedEmails link of None \<Rightarrow> True
           | Some es \<Rightarrow> sv_encode env (emailHash env i email) \<notin> set es)
       then ret () s
       else and_then (issueLinkCode i (emailHash env i email) (codeHash env i email code) now
              (now + codeTtlMinutes * 60000) newId s) (\<lambda>issued s.
         if \<not> issued then ret () s
         else ret () (s\<lparr>sh_mails := sh_mails s @ [\<lparr>cm_linkId = i, cm_to = email,
                cm_sender = accountEmail (lk_ownerId link) s, cm_code = code,
                cm_ttlMinutes = codeTtlMinutes\<rparr>]\<rparr>)))"

text \<open>An empty email or code is none (\<^verbatim>\<open>req.email && req.code\<close>).\<close>

definition presented_code :: "share_env \<Rightarrow> id \<Rightarrow> open_link_req \<Rightarrow> (string \<times> string) option" where
  "presented_code env i req = (case (op_email req, op_code req) of
     (Some email, Some code) \<Rightarrow>
       if email \<noteq> [] \<and> code \<noteq> [] then Some (emailHash env i email, codeHash env i email code) else None
   | _ \<Rightarrow> None)"

definition link_open :: "share_env \<Rightarrow> id \<Rightarrow> open_link_req \<Rightarrow> time \<Rightarrow> share_state \<Rightarrow> opened_link share_outcome" where
  "link_open env i req now s =
     (case consumeLinkView i now (\<lambda>l. verifierOf env (op_accessToken req) = lk_verifier l)
             (presented_code env i req) s of
        (ConsumeNotFound, s') \<Rightarrow> throw (NotFound '''') s'
      | (ConsumeEmailRequired, s') \<Rightarrow> throw (Forbidden ''email_required'') s'
      | (ConsumeInvalidCode, s') \<Rightarrow> throw (Forbidden ''invalid_code'') s'
      | (ConsumeOk link, s') \<Rightarrow>
          (case lk_blob link of
             None \<Rightarrow> throw (NotFound '''') s'
           | Some b \<Rightarrow> ret \<lparr>od_blob = b, od_expiresAt = lk_expiresAt link,
               od_viewsRemaining = lk_maxViews link - lk_viewCount link - 1\<rparr> s'))"

section \<open>Runs\<close>

datatype share_op =
    CreateLink id create_link_req time
  | RevokeLink id id time
  | RequestCode id string string time time string id
  | OpenLink id open_link_req time

fun share_step :: "share_env \<Rightarrow> share_op \<Rightarrow> share_state \<Rightarrow> share_state" where
  "share_step env (CreateLink u req now) s = snd (link_create env u req now s)"
| "share_step env (RevokeLink u i now) s = snd (link_revoke u i now s)"
| "share_step env (RequestCode i accessToken email now now' code newId) s =
     snd (requestCode env i accessToken email now now' code newId s)"
| "share_step env (OpenLink i req now) s = snd (link_open env i req now s)"

definition share_run :: "share_env \<Rightarrow> share_op list \<Rightarrow> share_state \<Rightarrow> share_state" where
  "share_run env ops s = fold (share_step env) ops s"

text \<open>The link whose item the request hands out, and how many requests of a run hand out that
  of link \<open>i\<close>.\<close>

definition opened_by :: "share_env \<Rightarrow> share_op \<Rightarrow> share_state \<Rightarrow> id option" where
  "opened_by env oper s = (case oper of
     OpenLink i req now \<Rightarrow> if isl (fst (link_open env i req now s)) then None else Some i
   | _ \<Rightarrow> None)"

fun times_opened :: "share_env \<Rightarrow> id \<Rightarrow> share_op list \<Rightarrow> share_state \<Rightarrow> nat" where
  "times_opened env i [] s = 0"
| "times_opened env i (oper # ops) s =
     (if opened_by env oper s = Some i then 1 else 0) + times_opened env i ops (share_step env oper s)"

definition mails_for :: "id \<Rightarrow> share_state \<Rightarrow> nat" where
  "mails_for i s = length (filter (\<lambda>m. cm_linkId m = i) (sh_mails s))"

section \<open>What a step does\<close>

text \<open>
  The writes the operations come down to, with the link whose item was handed out, if one was.
\<close>

abbreviation link_of :: "id \<Rightarrow> share_state \<Rightarrow> link_row option" where
  "link_of i s \<equiv> find (\<lambda>l. lk_id l = i) (sh_links s)"

inductive share_effect :: "share_env \<Rightarrow> id option \<Rightarrow> share_state \<Rightarrow> share_state \<Rightarrow> bool" for env where
  Unchanged: "share_effect env None s s"
| Created: "cl_id req \<notin> lk_id ` set (sh_links s) \<Longrightarrow>
    share_effect env None s (s\<lparr>sh_links := sh_links s @ [new_link env u req now]\<rparr>)"
| Revoked: "share_effect env None s (snd (revokeLink i u now s))"
| Dropped: "share_effect env None s (drop_blob i s)"
| Guessed: "pending_code i h now s = Some c \<Longrightarrow> lc_codeHash c \<noteq> g \<Longrightarrow>
    share_effect env None s (snd (guess_code c g now s))"
| Viewed: "link_of i s = Some l \<Longrightarrow> isLinkOpen l now \<Longrightarrow> lk_allowedEmails l = None \<Longrightarrow>
    x = None \<or> x = Some i \<Longrightarrow> share_effect env x s (count_view l s)"
| ViewedByCode: "link_of i s = Some l \<Longrightarrow> isLinkOpen l now \<Longrightarrow> pending_code i h now s = Some c \<Longrightarrow>
    x = None \<or> x = Some i \<Longrightarrow>
    share_effect env x s (count_view l (snd (guess_code c (lc_codeHash c) now s)))"
| Issued: "link_of i s = Some l \<Longrightarrow> lk_allowedEmails l = Some es \<Longrightarrow>
    sv_encode env (emailHash env i email) \<in> set es \<Longrightarrow>
    issueLinkCode i (emailHash env i email) (codeHash env i email code) now
      (now + codeTtlMinutes * 60000) newId s = (Inr True, s') \<Longrightarrow>
    cm_linkId m = i \<Longrightarrow> cm_to m = email \<Longrightarrow> cm_code m = code \<Longrightarrow>
    share_effect env None s (s'\<lparr>sh_mails := sh_mails s' @ [m]\<rparr>)"

lemma link_of_id: "link_of i s = Some l \<Longrightarrow> lk_id l = i \<and> l \<in> set (sh_links s)"
  by (drule find_set) simp

text \<open>Every outcome of a request to view a link.\<close>

lemma consumeLinkView_cases:
  obtains
    (closed) "consumeLinkView i now check code s = (ConsumeNotFound, s) \<or>
      consumeLinkView i now check code s = (ConsumeNotFound, drop_blob i s)"
  | (refused) r where "consumeLinkView i now check code s = (r, s)" "\<forall>l. r \<noteq> ConsumeOk l"
  | (guessed) h g c where "consumeLinkView i now check code s = (ConsumeInvalidCode, snd (guess_code c g now s))"
      "pending_code i h now s = Some c" "lc_codeHash c \<noteq> g"
  | (public) l where "consumeLinkView i now check code s = (ConsumeOk l, count_view l s)"
      "link_of i s = Some l" "isLinkOpen l now" "check l" "lk_allowedEmails l = None"
  | (restricted) l h c where
      "consumeLinkView i now check code s = (ConsumeOk l, count_view l (snd (guess_code c (lc_codeHash c) now s)))"
      "link_of i s = Some l" "isLinkOpen l now" "check l" "lk_allowedEmails l \<noteq> None"
      "code = Some (h, lc_codeHash c)" "pending_code i h now s = Some c"
proof (cases "link_of i s")
  case None
  then show ?thesis using that(1) by (simp add: consumeLinkView_def)
next
  case link: (Some l)
  show ?thesis
  proof (cases "isLinkOpen l now \<and> check l")
    case False
    with link that(1) show ?thesis by (simp add: consumeLinkView_def split: if_splits)
  next
    case True
    note open_link = link True
    show ?thesis
    proof (cases "lk_allowedEmails l")
      case None
      with open_link that(4) show ?thesis by (simp add: consumeLinkView_def)
    next
      case allowed: (Some es)
      show ?thesis
      proof (cases code)
        case None
        with open_link allowed that(2) [of ConsumeEmailRequired] show ?thesis by (simp add: consumeLinkView_def)
      next
        case code: (Some p)
        obtain h g where p: "p = (h, g)" by (cases p)
        show ?thesis
        proof (cases "pending_code i h now s")
          case None
          with open_link allowed code p that(2) [of ConsumeInvalidCode] show ?thesis
            by (simp add: consumeLinkView_def)
        next
          case pending: (Some c)
          show ?thesis
          proof (cases "lc_codeHash c = g")
            case True
            with open_link allowed code p pending that(5) [of l c h] show ?thesis
              by (simp add: consumeLinkView_def guess_code_def)
          next
            case False
            with open_link allowed code p pending that(3) [of c g h] show ?thesis
              by (simp add: consumeLinkView_def guess_code_def Let_def)
          qed
        qed
      qed
    qed
  qed
qed

lemma link_open_effect:
  "share_effect env (if isl (fst (link_open env i req now s)) then None else Some i) s
     (snd (link_open env i req now s))"
proof (cases rule: consumeLinkView_cases [of i now "\<lambda>l. verifierOf env (op_accessToken req) = lk_verifier l"
    "presented_code env i req" s])
  case closed
  then show ?thesis by (auto simp: link_open_def intro: Unchanged Dropped)
next
  case (refused r)
  then show ?thesis by (cases r) (auto simp: link_open_def intro: Unchanged)
next
  case (guessed h g c)
  then show ?thesis by (auto simp: link_open_def intro: Guessed)
next
  case (public l)
  then show ?thesis by (cases "lk_blob l") (auto simp: link_open_def intro: Viewed)
next
  case (restricted l h c)
  then show ?thesis by (cases "lk_blob l") (auto simp: link_open_def intro: ViewedByCode)
qed

lemma openLinkFor_Inr:
  "openLinkFor env i accessToken now s = (Inr l, s') \<longleftrightarrow> s' = s \<and> link_of i s = Some l \<and>
     isLinkOpen l now \<and> verifierOf env accessToken = lk_verifier l"
  by (auto simp: openLinkFor_def getOpenLink_def split: option.splits if_splits)

lemma openLinkFor_Inl: "openLinkFor env i accessToken now s = (Inl e, s') \<Longrightarrow> s' = s"
  by (auto simp: openLinkFor_def split: option.splits if_splits)

lemma issueLinkCode_other:
  "issueLinkCode i h g now exp newId s = (Inr False, s') \<Longrightarrow> s' = s"
  "issueLinkCode i h g now exp newId s = (Inl e, s') \<Longrightarrow> s' = s"
  by (auto simp: issueLinkCode_def Let_def split: if_splits)

lemma requestCode_effect:
  "share_effect env None s (snd (requestCode env i accessToken email now now' code newId s))"
proof (cases "openLinkFor env i accessToken now' s")
  case (Pair r s1)
  show ?thesis
  proof (cases r)
    case (Inl e)
    with Pair openLinkFor_Inl [of env i accessToken now' s e s1] show ?thesis
      by (simp add: requestCode_def Unchanged)
  next
    case (Inr l)
    with Pair have l: "s1 = s" "link_of i s = Some l" by (auto simp: openLinkFor_Inr)
    show ?thesis
    proof (cases "\<exists>es. lk_allowedEmails l = Some es \<and> sv_encode env (emailHash env i email) \<in> set es")
      case False
      then have "(case lk_allowedEmails l of None \<Rightarrow> True
          | Some es \<Rightarrow> sv_encode env (emailHash env i email) \<notin> set es)"
        by (cases "lk_allowedEmails l") auto
      with Pair Inr l show ?thesis by (simp add: requestCode_def Unchanged)
    next
      case True
      then obtain es where es: "lk_allowedEmails l = Some es"
        "sv_encode env (emailHash env i email) \<in> set es" by blast
      let ?issue = "issueLinkCode i (emailHash env i email) (codeHash env i email code) now
        (now + codeTtlMinutes * 60000) newId s"
      obtain q s2 where issue: "?issue = (q, s2)" by (cases ?issue)
      show ?thesis
      proof (cases q)
        case (Inl e)
        with issue have "?issue = (Inl e, s2)" by simp
        then have "s2 = s" by (rule issueLinkCode_other(2))
        with Pair Inr l es issue Inl show ?thesis by (simp add: requestCode_def Unchanged \<open>r = Inr l\<close>)
      next
        case answer: (Inr b)
        show ?thesis
        proof (cases b)
          case False
          with issue answer have "?issue = (Inr False, s2)" by simp
          then have "s2 = s" by (rule issueLinkCode_other(1))
          with Pair Inr l es issue answer False show ?thesis by (simp add: requestCode_def Unchanged)
        next
          case True
          with issue answer have issued: "?issue = (Inr True, s2)" by simp
          show ?thesis using Pair Inr l(1) es issue answer True
            by (simp add: requestCode_def) (rule Issued [OF l(2) es issued], simp_all)
        qed
      qed
    qed
  qed
qed

lemma share_step_effect: "share_effect env (opened_by env oper s) s (share_step env oper s)"
proof (cases oper)
  case (CreateLink u req now)
  have id: "lk_id (new_link env u req now) = cl_id req" by (simp add: new_link_def)
  show ?thesis using CreateLink
    by (auto simp: opened_by_def link_create_def insertLink_def insert_new_def id intro: Unchanged Created)
next
  case (RevokeLink u i now)
  have "snd (link_revoke u i now s) = snd (revokeLink i u now s)"
    by (simp add: link_revoke_def split: prod.split bool.split)
  then show ?thesis using RevokeLink Revoked by (simp add: opened_by_def)
next
  case (RequestCode i accessToken email now now' code newId)
  then show ?thesis using requestCode_effect by (simp add: opened_by_def)
next
  case (OpenLink i req now)
  then show ?thesis using link_open_effect [of env i req now s] by (simp add: opened_by_def)
qed

section \<open>Invariants of links\<close>

definition link_ok :: "link_row \<Rightarrow> bool" where
  "link_ok l \<longleftrightarrow> 0 \<le> lk_viewCount l \<and> lk_viewCount l \<le> max 0 (lk_maxViews l) \<and>
     (lk_revokedAt l \<noteq> None \<or> (0 < lk_viewCount l \<and> lk_maxViews l \<le> lk_viewCount l) \<longrightarrow> lk_blob l = None)"

definition links_ok :: "share_state \<Rightarrow> bool" where
  "links_ok s \<longleftrightarrow> unique_by lk_id (sh_links s) \<and> (\<forall>l \<in> set (sh_links s). link_ok l)"

text \<open>What a link keeps for ever.\<close>

definition same_link :: "link_row \<Rightarrow> link_row \<Rightarrow> bool" where
  "same_link l l' \<longleftrightarrow> lk_id l' = lk_id l \<and> lk_ownerId l' = lk_ownerId l \<and> lk_verifier l' = lk_verifier l \<and>
     lk_allowedEmails l' = lk_allowedEmails l \<and> lk_maxViews l' = lk_maxViews l \<and> lk_expiresAt l' = lk_expiresAt l"

text \<open>One write to the link \<open>i\<close>.\<close>

lemma links_ok_update:
  assumes "links_ok s" and "\<And>l. link_of i s = Some l \<Longrightarrow> lk_id (f l) = i \<and> link_ok (f l)"
  shows "links_ok (s\<lparr>sh_links := update_where (\<lambda>l. lk_id l = i) f (sh_links s)\<rparr>)"
proof -
  have found: "link_of i s = Some l" if "l \<in> set (sh_links s)" "lk_id l = i" for l
    using assms(1) that find_Some_iff_unique [of lk_id "sh_links s" i l] by (simp add: links_ok_def)
  have "unique_by lk_id (update_where (\<lambda>l. lk_id l = i) f (sh_links s))"
    using assms found by (intro unique_by_update_where) (auto simp: links_ok_def)
  then show ?thesis using assms found by (auto simp: links_ok_def set_update_where)
qed

lemma link_of_update:
  assumes "\<And>l. lk_id l = i \<Longrightarrow> lk_id (f l) = i"
  shows "find (\<lambda>l. lk_id l = j) (update_where (\<lambda>l. lk_id l = i) f t) =
    (if j = i then map_option f (find (\<lambda>l. lk_id l = j) t) else find (\<lambda>l. lk_id l = j) t)"
  using assms by (induction t) auto

lemma update_where_conj: "update_where (\<lambda>r. p r \<and> q r) f t = update_where p (\<lambda>r. if q r then f r else r) t"
  by (induction t) auto

lemma revokeLink_update:
  "snd (revokeLink i u now s) = s\<lparr>sh_links := update_where (\<lambda>l. lk_id l = i)
     (\<lambda>l. if lk_ownerId l = u then l\<lparr>lk_revokedAt := Some (case lk_revokedAt l of None \<Rightarrow> now | Some t \<Rightarrow> t),
        lk_blob := None\<rparr> else l) (sh_links s)\<rparr>"
  by (auto simp: revokeLink_def update_where_conj update_where_def split: option.split)

lemma sh_links_guess [simp]: "sh_links (snd (guess_code c g now s)) = sh_links s"
  by (simp add: guess_code_def Let_def)

lemma issueLinkCode_True:
  "issueLinkCode i h g now exp newId s = (Inr True, s') \<longleftrightarrow>
     (let recent = recent_codes i h now s in length recent < perHour \<and> (recent \<noteq> [] \<longrightarrow> cooldownMs \<le> now - hd recent)) \<and>
     i \<in> lk_id ` set (sh_links s) \<and> newId \<notin> lc_id ` set (sh_codes s) \<and>
     s' = s\<lparr>sh_codes := update_where (\<lambda>c. lc_linkId c = i \<and> lc_emailHash c = h \<and> lc_closedAt c = None)
             (\<lambda>c. c\<lparr>lc_closedAt := Some now\<rparr>) (sh_codes s) @
           [\<lparr>lc_id = newId, lc_linkId = i, lc_emailHash = h, lc_codeHash = g, lc_attempts = 0,
             lc_expiresAt = exp, lc_closedAt = None, lc_createdAt = now\<rparr>]\<rparr>"
  by (auto simp: issueLinkCode_def Let_def)

lemma link_ok_view:
  "link_ok l \<Longrightarrow> isLinkOpen l now \<Longrightarrow> link_ok (x\<lparr>lk_viewCount := lk_viewCount l + 1,
     lk_blob := if lk_maxViews l \<le> lk_viewCount l + 1 then None else b, lk_maxViews := lk_maxViews l,
     lk_revokedAt := lk_revokedAt l\<rparr>)"
  by (auto simp: link_ok_def isLinkOpen_def)

lemma links_ok_view:
  assumes "links_ok s" and "link_of i s = Some l" and "isLinkOpen l now"
  shows "links_ok (count_view l s)"
proof -
  have "link_ok l" "lk_id l = i" using assms(1,2) link_of_id [OF assms(2)] by (auto simp: links_ok_def)
  moreover from this have "link_ok (l\<lparr>lk_viewCount := lk_viewCount l + 1,
      lk_blob := if lk_maxViews l \<le> lk_viewCount l + 1 then None else lk_blob l\<rparr>)"
    using assms(3) by (auto simp: link_ok_def isLinkOpen_def)
  ultimately show ?thesis
    using assms(1,2) unfolding count_view_def by (intro links_ok_update) auto
qed

lemma links_ok_cong: "sh_links s' = sh_links s \<Longrightarrow> links_ok s' \<longleftrightarrow> links_ok s"
  by (simp add: links_ok_def)

lemma links_ok_effect:
  assumes "share_effect env x s s'" and "links_ok s"
  shows "links_ok s'"
  using assms
proof cases
  case (Created req u now)
  have "link_ok (new_link env u req now)" "lk_id (new_link env u req now) = cl_id req"
    by (simp_all add: link_ok_def new_link_def)
  with Created assms(2) show ?thesis by (auto simp: links_ok_def unique_by_snoc)
next
  case (Revoked i u now)
  have "links_ok (snd (revokeLink i u now s))" unfolding revokeLink_update
    using assms(2) by (intro links_ok_update) (auto dest!: link_of_id simp: links_ok_def link_ok_def)
  with Revoked show ?thesis by simp
next
  case (Dropped i)
  have "links_ok (drop_blob i s)" unfolding drop_blob_def
    using assms(2) by (intro links_ok_update) (auto dest!: link_of_id simp: links_ok_def link_ok_def)
  with Dropped show ?thesis by simp
next
  case (Guessed i h now c g)
  with assms(2) links_ok_cong [OF sh_links_guess] show ?thesis by simp
next
  case (Viewed i l now)
  with assms(2) links_ok_view show ?thesis by simp
next
  case (ViewedByCode i l now h c)
  have "links_ok (snd (guess_code c (lc_codeHash c) now s))"
    using assms(2) links_ok_cong [OF sh_links_guess] by blast
  with ViewedByCode links_ok_view [of "snd (guess_code c (lc_codeHash c) now s)" i l now]
  show ?thesis by simp
next
  case (Issued i l es email code now newId s2 m)
  then have "sh_links s' = sh_links s" by (simp add: issueLinkCode_True)
  with assms(2) links_ok_cong show ?thesis by blast
qed simp

text \<open>A link stays, and its view count goes up by one when its item is handed out.\<close>

lemma link_after_view:
  assumes "links_ok s" and "link_of i s = Some l"
  shows "link_of j (count_view l s) = (if j = i then Some (l\<lparr>lk_viewCount := lk_viewCount l + 1,
      lk_blob := if lk_maxViews l \<le> lk_viewCount l + 1 then None else lk_blob l\<rparr>) else link_of j s)"
  using assms link_of_id [OF assms(2)] by (auto simp: count_view_def link_of_update)

lemma link_effect:
  assumes "share_effect env x s s'" and "links_ok s" and "link_of i s = Some l"
  shows "\<exists>l'. link_of i s' = Some l' \<and> same_link l l' \<and>
    lk_viewCount l + (if x = Some i then 1 else 0) \<le> lk_viewCount l'"
  using assms(1)
proof cases
  case (Created req u now)
  then show ?thesis using assms(3) by (simp add: find_append same_link_def)
next
  case (Revoked j u now)
  then show ?thesis using assms(3)
    by (cases "lk_ownerId l = u") (auto simp: revokeLink_update link_of_update same_link_def)
next
  case (Dropped j)
  then show ?thesis using assms(3) by (auto simp: drop_blob_def link_of_update same_link_def)
next
  case (Guessed j h now c g)
  then show ?thesis using assms(3) by (simp add: same_link_def)
next
  case (Viewed j l2 now)
  then show ?thesis using assms(3) link_after_view [OF assms(2) Viewed(2), of i]
    by (auto simp: same_link_def)
next
  case (ViewedByCode j l2 now h c)
  let ?s = "snd (guess_code c (lc_codeHash c) now s)"
  have "links_ok ?s" using assms(2) links_ok_cong [OF sh_links_guess] by blast
  then show ?thesis using ViewedByCode assms(3) link_after_view [of ?s j l2 i]
    by (auto simp: same_link_def)
next
  case (Issued j l2 es email code now newId s2 m)
  then show ?thesis using assms(3) by (simp add: issueLinkCode_True same_link_def)
qed (use assms(3) in \<open>simp add: same_link_def\<close>)

lemma no_link_no_effect:
  "share_effect env x s s' \<Longrightarrow> link_of i s = None \<Longrightarrow> x \<noteq> Some i"
  by (cases rule: share_effect.cases) auto

lemma same_link_trans: "same_link a b \<Longrightarrow> same_link b c \<Longrightarrow> same_link a c"
  by (simp add: same_link_def)

lemma links_ok_run: "links_ok s \<Longrightarrow> links_ok (share_run env ops s)"
proof (induction ops arbitrary: s)
  case (Cons oper ops)
  then show ?case
    using links_ok_effect [OF share_step_effect] by (simp add: share_run_def)
qed (simp add: share_run_def)

lemma link_run:
  assumes "links_ok s" and "link_of i s = Some l"
  shows "\<exists>l'. link_of i (share_run env ops s) = Some l' \<and> same_link l l' \<and>
    lk_viewCount l + int (times_opened env i ops s) \<le> lk_viewCount l'"
  using assms
proof (induction ops arbitrary: s l)
  case Nil
  then show ?case by (simp add: share_run_def same_link_def)
next
  case (Cons oper ops)
  obtain l1 where l1: "link_of i (share_step env oper s) = Some l1" "same_link l l1"
    "lk_viewCount l + (if opened_by env oper s = Some i then 1 else 0) \<le> lk_viewCount l1"
    using link_effect [OF share_step_effect Cons.prems] by blast
  moreover obtain l2 where "link_of i (share_run env ops (share_step env oper s)) = Some l2"
    "same_link l1 l2" "lk_viewCount l1 + int (times_opened env i ops (share_step env oper s)) \<le> lk_viewCount l2"
    using Cons.IH [OF links_ok_effect [OF share_step_effect Cons.prems(1)] l1(1)] by blast
  ultimately show ?case
    using same_link_trans by (auto simp: share_run_def split: if_splits intro!: exI [of _ l2])
qed

lemma unmade_link_run:
  assumes "links_ok s" and "link_of i s = None" and "link_of i (share_run env ops s) = Some l"
  shows "int (times_opened env i ops s) \<le> lk_viewCount l"
  using assms
proof (induction ops arbitrary: s)
  case Nil
  then show ?case by (simp add: share_run_def)
next
  case (Cons oper ops)
  have ok: "links_ok (share_step env oper s)"
    using links_ok_effect [OF share_step_effect Cons.prems(1)] .
  have never: "opened_by env oper s \<noteq> Some i"
    using no_link_no_effect [OF share_step_effect Cons.prems(2)] .
  have run: "share_run env (oper # ops) s = share_run env ops (share_step env oper s)"
    by (simp add: share_run_def)
  show ?case
  proof (cases "link_of i (share_step env oper s)")
    case None
    then show ?thesis using Cons.IH [OF ok] Cons.prems(3) never run by simp
  next
    case (Some l1)
    then have "0 \<le> lk_viewCount l1" using ok link_of_id [OF Some] by (simp add: links_ok_def link_ok_def)
    with link_run [OF ok Some, of env ops] Cons.prems(3) never run show ?thesis by auto
  qed
qed

section \<open>Invariants of codes\<close>

text \<open>When codes were sent for a link and the hash of an email.\<close>

definition sent_at :: "id \<Rightarrow> string \<Rightarrow> share_state \<Rightarrow> time list" where
  "sent_at i h s = map lc_createdAt (filter (\<lambda>c. lc_linkId c = i \<and> lc_emailHash c = h) (sh_codes s))"

definition in_hour :: "time \<Rightarrow> time list \<Rightarrow> nat" where
  "in_hour t ts = length (filter (\<lambda>a. t - 3600000 < a \<and> a \<le> t) ts)"

definition rate_ok :: "share_state \<Rightarrow> bool" where
  "rate_ok s \<longleftrightarrow> (\<forall>i h. sorted_wrt (\<lambda>a b. a + cooldownMs \<le> b) (sent_at i h s) \<and>
     (\<forall>t. in_hour t (sent_at i h s) \<le> perHour))"

text \<open>A code row and the mail that carried it, to someone the link allows.\<close>

definition code_mailed :: "share_env \<Rightarrow> share_state \<Rightarrow> code_row \<Rightarrow> bool" where
  "code_mailed env s c \<longleftrightarrow> (\<exists>l es. link_of (lc_linkId c) s = Some l \<and> lk_allowedEmails l = Some es \<and>
     sv_encode env (lc_emailHash c) \<in> set es) \<and>
     (\<exists>m \<in> set (sh_mails s). cm_linkId m = lc_linkId c \<and>
        lc_emailHash c = emailHash env (lc_linkId c) (cm_to m) \<and>
        lc_codeHash c = codeHash env (lc_linkId c) (cm_to m) (cm_code m))"

definition attempts_ok :: "code_row \<Rightarrow> bool" where
  "attempts_ok c \<longleftrightarrow> 0 \<le> lc_attempts c \<and> lc_attempts c \<le> maxAttempts \<and>
     (lc_closedAt c = None \<longrightarrow> lc_attempts c < maxAttempts)"

definition one_open :: "code_row list \<Rightarrow> bool" where
  "one_open t \<longleftrightarrow> (\<forall>c \<in> set t. \<forall>d \<in> set t. lc_linkId c = lc_linkId d \<and> lc_emailHash c = lc_emailHash d \<and>
     lc_closedAt c = None \<and> lc_closedAt d = None \<longrightarrow> c = d)"

definition codes_ok :: "share_env \<Rightarrow> share_state \<Rightarrow> bool" where
  "codes_ok env s \<longleftrightarrow> unique_by lc_id (sh_codes s) \<and> one_open (sh_codes s) \<and>
     (\<forall>c \<in> set (sh_codes s). attempts_ok c \<and> code_mailed env s c)"

lemma sent_at_cong:
  assumes "map (\<lambda>c. (lc_linkId c, lc_emailHash c, lc_createdAt c)) (sh_codes s') =
    map (\<lambda>c. (lc_linkId c, lc_emailHash c, lc_createdAt c)) (sh_codes s)"
  shows "sent_at i h s' = sent_at i h s"
proof -
  have eq: "sent_at i h s = map (\<lambda>(a, b, c). c) (filter (\<lambda>(a, b, c). a = i \<and> b = h)
      (map (\<lambda>c. (lc_linkId c, lc_emailHash c, lc_createdAt c)) (sh_codes s)))" for s
    by (simp add: sent_at_def filter_map o_def)
  show ?thesis unfolding eq assms ..
qed

lemma sent_at_guess [simp]: "sent_at i h (snd (guess_code c g now s)) = sent_at i h s"
  by (rule sent_at_cong) (simp add: guess_code_def Let_def map_update_where)

lemma sent_at_links [simp]:
  "sent_at i h (s\<lparr>sh_links := t\<rparr>) = sent_at i h s" "sent_at i h (s\<lparr>sh_mails := ms\<rparr>) = sent_at i h s"
  by (simp_all add: sent_at_def)

lemma sent_at_count_view [simp]: "sent_at i h (count_view l s) = sent_at i h s"
  by (simp add: count_view_def)

lemma sent_at_issue:
  assumes "issueLinkCode i h g now exp newId s = (Inr True, s')"
  shows "sent_at j k s' = sent_at j k s @ (if j = i \<and> k = h then [now] else [])"
proof -
  let ?close = "update_where (\<lambda>c. lc_linkId c = i \<and> lc_emailHash c = h \<and> lc_closedAt c = None)
    (\<lambda>c. c\<lparr>lc_closedAt := Some now\<rparr>) (sh_codes s)"
  have "sent_at j k (s\<lparr>sh_codes := ?close\<rparr>) = sent_at j k s"
    by (rule sent_at_cong) (simp add: map_update_where)
  then show ?thesis using assms by (simp add: issueLinkCode_True sent_at_def)
qed

lemma recent_codes_sent:
  shows "length (recent_codes i h now s) = length (filter (\<lambda>a. now - 3600000 < a) (sent_at i h s))"
    and "a \<in> set (sent_at i h s) \<Longrightarrow> now - 3600000 < a \<Longrightarrow>
      recent_codes i h now s \<noteq> [] \<and> a \<le> hd (recent_codes i h now s)"
proof -
  let ?t = "filter (\<lambda>c. lc_linkId c = i \<and> lc_emailHash c = h \<and> now - 3600000 < lc_createdAt c) (sh_codes s)"
  have eq: "map lc_createdAt ?t = filter (\<lambda>a. now - 3600000 < a) (sent_at i h s)"
    by (simp add: sent_at_def filter_map o_def conj_ac)
  have "length (filter (\<lambda>a. now - 3600000 < a) (sent_at i h s)) = length ?t"
    unfolding eq [symmetric] by simp
  then show "length (recent_codes i h now s) = length (filter (\<lambda>a. now - 3600000 < a) (sent_at i h s))"
    by (simp add: recent_codes_def)
  assume a: "a \<in> set (sent_at i h s)" "now - 3600000 < a"
  then obtain c where c: "c \<in> set (sort_key (\<lambda>c. - lc_createdAt c) ?t)" "lc_createdAt c = a"
    by (auto simp: sent_at_def)
  then obtain d ds where d: "sort_key (\<lambda>c. - lc_createdAt c) ?t = d # ds"
    by (cases "sort_key (\<lambda>c. - lc_createdAt c) ?t") auto
  have "sorted (map (\<lambda>c. - lc_createdAt c) (d # ds))" unfolding d [symmetric] by simp
  with c d show "recent_codes i h now s \<noteq> [] \<and> a \<le> hd (recent_codes i h now s)"
    by (auto simp: recent_codes_def)
qed

lemma rate_ok_issue:
  assumes "issueLinkCode i h g now exp newId s = (Inr True, s')" and "rate_ok s"
  shows "rate_ok s'"
proof -
  let ?sent = "sent_at i h s"
  have few: "length (filter (\<lambda>a. now - 3600000 < a) ?sent) < perHour"
    using assms(1) recent_codes_sent(1) by (simp add: issueLinkCode_True Let_def)
  have gap: "a + cooldownMs \<le> now" if "a \<in> set ?sent" for a
  proof (cases "now - 3600000 < a")
    case True
    then show ?thesis
      using recent_codes_sent(2) [OF that True] assms(1) by (auto simp: issueLinkCode_True Let_def)
  qed (simp add: cooldownMs_def)
  have "in_hour t (?sent @ [now]) \<le> perHour" for t
  proof (cases "now \<le> t")
    case True
    have "length (filter (\<lambda>a. t - 3600000 < a \<and> a \<le> t) ?sent) \<le>
        length (filter (\<lambda>a. now - 3600000 < a) ?sent)"
      using True by (intro length_filter_mono) simp
    then show ?thesis using few by (simp add: in_hour_def)
  next
    case False
    with assms(2) show ?thesis by (simp add: in_hour_def rate_ok_def)
  qed
  then show ?thesis
    using assms(2) gap by (auto simp: rate_ok_def sent_at_issue [OF assms(1)] sorted_wrt_append)
qed

lemma rate_ok_cong: "(\<And>i h. sent_at i h s' = sent_at i h s) \<Longrightarrow> rate_ok s' \<longleftrightarrow> rate_ok s"
  by (simp add: rate_ok_def)

lemma rate_ok_effect:
  assumes "share_effect env x s s'" and "rate_ok s"
  shows "rate_ok s'"
  using assms(1)
proof cases
  case (Issued i l es email code now newId s2 m)
  then have "rate_ok s2" using rate_ok_issue assms(2) by blast
  with Issued show ?thesis using rate_ok_cong [of s' s2] by simp
qed (use assms(2) rate_ok_cong [of s' s] in \<open>simp_all add: revokeLink_update drop_blob_def\<close>)

lemma pending_code_mem:
  assumes "pending_code i h now s = Some c"
  shows "c \<in> set (sh_codes s) \<and> lc_linkId c = i \<and> lc_emailHash c = h \<and> lc_closedAt c = None \<and> now < lc_expiresAt c"
proof -
  let ?t = "filter (\<lambda>c. lc_linkId c = i \<and> lc_emailHash c = h \<and> lc_closedAt c = None \<and> now < lc_expiresAt c) (sh_codes s)"
  obtain cs where "sort_key (\<lambda>c. - lc_createdAt c) ?t = c # cs"
    using assms by (auto simp: pending_code_def split: list.splits)
  then have "c \<in> set (sort_key (\<lambda>c. - lc_createdAt c) ?t)" by simp
  then show ?thesis by simp
qed

text \<open>A code stays mailed to an allowed email whatever happens to the other rows.\<close>

lemma code_mailed_mono:
  assumes "code_mailed env s c" and "set (sh_mails s) \<subseteq> set (sh_mails s')"
    and "\<And>i l. link_of i s = Some l \<Longrightarrow> \<exists>l'. link_of i s' = Some l' \<and> same_link l l'"
    and "lc_linkId d = lc_linkId c" "lc_emailHash d = lc_emailHash c" "lc_codeHash d = lc_codeHash c"
  shows "code_mailed env s' d"
proof -
  obtain l es where l: "link_of (lc_linkId c) s = Some l" "lk_allowedEmails l = Some es"
    "sv_encode env (lc_emailHash c) \<in> set es" using assms(1) by (auto simp: code_mailed_def)
  obtain l' where "link_of (lc_linkId c) s' = Some l'" "same_link l l'" using assms(3) [OF l(1)] by blast
  with l have "\<exists>l es. link_of (lc_linkId d) s' = Some l \<and> lk_allowedEmails l = Some es \<and>
      sv_encode env (lc_emailHash d) \<in> set es" using assms(4,5) by (simp add: same_link_def)
  moreover have "\<exists>m \<in> set (sh_mails s'). cm_linkId m = lc_linkId d \<and>
      lc_emailHash d = emailHash env (lc_linkId d) (cm_to m) \<and>
      lc_codeHash d = codeHash env (lc_linkId d) (cm_to m) (cm_code m)"
    using assms(1,2,4-6) by (auto simp: code_mailed_def)
  ultimately show ?thesis by (simp add: code_mailed_def)
qed

lemma attempts_ok_guess:
  "attempts_ok c \<Longrightarrow> lc_closedAt c = None \<Longrightarrow> attempts_ok (d\<lparr>lc_attempts := lc_attempts c + (if m then 0 else 1),
     lc_closedAt := if m \<or> maxAttempts \<le> lc_attempts c + (if m then 0 else 1) then Some now else None\<rparr>)"
  by (auto simp: attempts_ok_def)


lemma in_update_where: "d \<in> set (update_where p f t) \<Longrightarrow> \<exists>c \<in> set t. d = (if p c then f c else c)"
  by (auto simp: set_update_where)

lemma codes_ok_guess:
  assumes "codes_ok env s" and "pending_code i h now s = Some c"
  shows "codes_ok env (snd (guess_code c g now s))"
proof -
  let ?m = "lc_codeHash c = g"
  let ?f = "\<lambda>d. d\<lparr>lc_attempts := lc_attempts c + (if ?m then 0 else 1),
    lc_closedAt := if ?m \<or> maxAttempts \<le> lc_attempts c + (if ?m then 0 else 1) then Some now else None\<rparr>"
  let ?t = "update_where (\<lambda>d. lc_id d = lc_id c) ?f (sh_codes s)"
  have s': "snd (guess_code c g now s) = s\<lparr>sh_codes := ?t\<rparr>" by (simp add: guess_code_def Let_def)
  note pending = pending_code_mem [OF assms(2)]
  have same: "d = c" if "d \<in> set (sh_codes s)" "lc_id d = lc_id c" for d
    using assms(1) that pending unique_byD [of lc_id "sh_codes s" d c] by (simp add: codes_ok_def)
  have c: "attempts_ok c" using assms(1) pending by (simp add: codes_ok_def)
  have "unique_by lc_id ?t"
    using assms(1) by (intro unique_by_update_where) (simp_all add: codes_ok_def)
  moreover have "one_open ?t" unfolding one_open_def
  proof (intro ballI impI)
    fix x y assume xy: "x \<in> set ?t" "y \<in> set ?t" "lc_linkId x = lc_linkId y \<and> lc_emailHash x = lc_emailHash y \<and>
      lc_closedAt x = None \<and> lc_closedAt y = None"
    obtain a where a: "a \<in> set (sh_codes s)" "x = (if lc_id a = lc_id c then ?f a else a)"
      using in_update_where [OF xy(1)] by blast
    obtain b where b: "b \<in> set (sh_codes s)" "y = (if lc_id b = lc_id c then ?f b else b)"
      using in_update_where [OF xy(2)] by blast
    have "lc_closedAt a = None" "lc_closedAt b = None" "lc_linkId a = lc_linkId b" "lc_emailHash a = lc_emailHash b"
      using a b xy(3) same pending by (auto split: if_splits)
    then have "a = b" using assms(1) a(1) b(1) by (simp add: codes_ok_def one_open_def)
    then show "x = y" using a(2) b(2) by simp
  qed
  moreover have "attempts_ok d \<and> code_mailed env (s\<lparr>sh_codes := ?t\<rparr>) d" if member: "d \<in> set ?t" for d
  proof -
    obtain a where a: "a \<in> set (sh_codes s)" "d = (if lc_id a = lc_id c then ?f a else a)"
      using in_update_where [OF member] by blast
    have "attempts_ok d" using a c assms(1) attempts_ok_guess [OF c, where d = a and m = ?m and now = now] pending
      by (simp add: codes_ok_def)
    moreover have "code_mailed env (s\<lparr>sh_codes := ?t\<rparr>) d"
    proof (rule code_mailed_mono [of env s a])
      show "code_mailed env s a" using assms(1) a(1) by (simp add: codes_ok_def)
      show "lc_linkId d = lc_linkId a" "lc_emailHash d = lc_emailHash a" "lc_codeHash d = lc_codeHash a"
        unfolding a(2) by simp_all
    qed (auto simp: same_link_def)
    ultimately show ?thesis by blast
  qed
  ultimately show ?thesis unfolding s' by (simp add: codes_ok_def)
qed

lemma codes_ok_keep:
  assumes "codes_ok env s" and "sh_codes s' = sh_codes s" and "set (sh_mails s) \<subseteq> set (sh_mails s')"
    and "\<And>i l. link_of i s = Some l \<Longrightarrow> \<exists>l'. link_of i s' = Some l' \<and> same_link l l'"
  shows "codes_ok env s'"
  using assms(1,2) code_mailed_mono [OF _ assms(3,4)] by (auto simp: codes_ok_def)

lemma codes_ok_issue:
  assumes "codes_ok env s" and "link_of i s = Some l" and "lk_allowedEmails l = Some es"
    and "sv_encode env (emailHash env i email) \<in> set es"
    and issue: "issueLinkCode i (emailHash env i email) (codeHash env i email code) now exp newId s = (Inr True, s')"
    and "cm_linkId m = i" "cm_to m = email" "cm_code m = code"
  shows "codes_ok env (s'\<lparr>sh_mails := sh_mails s' @ [m]\<rparr>)"
proof -
  let ?h = "emailHash env i email"
  let ?close = "\<lambda>c. lc_linkId c = i \<and> lc_emailHash c = ?h \<and> lc_closedAt c = None"
  let ?t = "update_where ?close (\<lambda>c. c\<lparr>lc_closedAt := Some now\<rparr>) (sh_codes s)"
  let ?new = "\<lparr>lc_id = newId, lc_linkId = i, lc_emailHash = ?h, lc_codeHash = codeHash env i email code,
    lc_attempts = 0, lc_expiresAt = exp, lc_closedAt = None, lc_createdAt = now\<rparr>"
  let ?s = "s'\<lparr>sh_mails := sh_mails s' @ [m]\<rparr>"
  have s': "s' = s\<lparr>sh_codes := ?t @ [?new]\<rparr>" "newId \<notin> lc_id ` set (sh_codes s)"
    using issue by (simp_all add: issueLinkCode_True)
  have "map lc_id ?t = map lc_id (sh_codes s)" by (simp add: map_update_where)
  then have ids: "lc_id ` set ?t = lc_id ` set (sh_codes s)" by (metis set_map)
  have closed: "\<not> ?close d" if "d \<in> set ?t" for d
    using in_update_where [OF that] by auto
  have "unique_by lc_id (?t @ [?new])"
    unfolding unique_by_snoc ids using assms(1) s'(2)
    by (intro conjI unique_by_update_where) (simp_all add: codes_ok_def)
  moreover have "one_open (?t @ [?new])"
  proof -
    have "x = y" if "x \<in> set ?t" "y \<in> set ?t" "lc_linkId x = lc_linkId y" "lc_emailHash x = lc_emailHash y"
      "lc_closedAt x = None" "lc_closedAt y = None" for x y
    proof -
      have "x \<in> set (sh_codes s)" "y \<in> set (sh_codes s)"
        using in_update_where [OF that(1)] in_update_where [OF that(2)] that(5,6) by (auto split: if_splits)
      then show ?thesis using assms(1) that by (simp add: codes_ok_def one_open_def)
    qed
    moreover have "x = ?new" if "x \<in> set ?t" "lc_linkId x = i" "lc_emailHash x = ?h" "lc_closedAt x = None" for x
      using closed [OF that(1)] that(2-4) by blast
    ultimately show ?thesis unfolding one_open_def by (auto simp del: set_update_where)
  qed
  moreover have old: "attempts_ok d \<and> code_mailed env ?s d" if member: "d \<in> set ?t" for d
  proof -
    obtain a where a: "a \<in> set (sh_codes s)" "d = (if ?close a then a\<lparr>lc_closedAt := Some now\<rparr> else a)"
      using in_update_where [OF member] by blast
    have "attempts_ok d" using a assms(1) by (auto simp: codes_ok_def attempts_ok_def)
    moreover have "code_mailed env ?s d"
    proof (rule code_mailed_mono [of env s a])
      show "code_mailed env s a" using assms(1) a(1) by (simp add: codes_ok_def)
      show "lc_linkId d = lc_linkId a" "lc_emailHash d = lc_emailHash a" "lc_codeHash d = lc_codeHash a"
        unfolding a(2) by simp_all
    qed (auto simp: s'(1) same_link_def)
    ultimately show ?thesis by blast
  qed
  moreover have "attempts_ok ?new \<and> code_mailed env ?s ?new"
    using assms(2-4,6-8) s'(1) by (simp add: attempts_ok_def maxAttempts_def code_mailed_def)
  ultimately show ?thesis using s'(1) by (auto simp: codes_ok_def)
qed

lemma codes_ok_effect:
  assumes effect: "share_effect env x s s'" and "codes_ok env s" and "links_ok s"
  shows "codes_ok env s'"
proof -
  have links: "\<exists>l'. link_of i s' = Some l' \<and> same_link l l'" if "link_of i s = Some l" for i l
    using link_effect [OF effect assms(3) that] by blast
  note keep = codes_ok_keep [OF assms(2) _ _ links]
  show ?thesis using effect
  proof cases
    case Guessed
    then show ?thesis using codes_ok_guess [OF assms(2)] by blast
  next
    case (ViewedByCode i l now h c)
    let ?s = "snd (guess_code c (lc_codeHash c) now s)"
    have "links_ok ?s" using assms(3) links_ok_cong [OF sh_links_guess] by blast
    then have views: "\<exists>l'. link_of j (count_view l ?s) = Some l' \<and> same_link l2 l'" if "link_of j ?s = Some l2" for j l2
      using that ViewedByCode link_after_view [of ?s i l j] by (auto simp: same_link_def split: if_splits)
    have "codes_ok env ?s" using codes_ok_guess [OF assms(2)] ViewedByCode by blast
    then have "codes_ok env (count_view l ?s)"
      by (rule codes_ok_keep [OF _ _ _ views]) (simp_all add: count_view_def)
    with ViewedByCode show ?thesis by simp
  next
    case Issued
    then show ?thesis using codes_ok_issue [OF assms(2)] by blast
  next
    case Unchanged
    with assms(2) show ?thesis by simp
  qed (rule keep; simp add: revokeLink_update drop_blob_def count_view_def)+
qed


section \<open>Reachable states\<close>

definition fresh_shares :: "(id \<times> string) list \<Rightarrow> string list \<Rightarrow> share_state" where
  "fresh_shares accounts joiners = \<lparr>sh_links = [], sh_codes = [], sh_accounts = accounts,
     sh_verifiedJoiners = joiners, sh_mails = []\<rparr>"

definition share_inv :: "share_env \<Rightarrow> share_state \<Rightarrow> bool" where
  "share_inv env s \<longleftrightarrow> links_ok s \<and> codes_ok env s \<and> rate_ok s"

lemma share_inv_fresh: "share_inv env (fresh_shares accounts joiners)"
  by (simp add: share_inv_def fresh_shares_def links_ok_def codes_ok_def one_open_def rate_ok_def sent_at_def
      in_hour_def)

lemma share_inv_step: "share_inv env s \<Longrightarrow> share_inv env (share_step env oper s)"
  using links_ok_effect [OF share_step_effect] codes_ok_effect [OF share_step_effect]
    rate_ok_effect [OF share_step_effect] by (simp add: share_inv_def)

lemma share_inv_run: "share_inv env s \<Longrightarrow> share_inv env (share_run env ops s)"
  by (induction ops arbitrary: s) (simp_all add: share_run_def share_inv_step)

text \<open>The codes of a link that can no longer be spent, and the mails that carried all of them.\<close>

definition closed_codes :: "id \<Rightarrow> share_state \<Rightarrow> nat" where
  "closed_codes i s = length (filter (\<lambda>c. lc_linkId c = i \<and> lc_closedAt c \<noteq> None) (sh_codes s))"

definition codes_for :: "id \<Rightarrow> share_state \<Rightarrow> nat" where
  "codes_for i s = length (filter (\<lambda>c. lc_linkId c = i) (sh_codes s))"

lemma closed_codes_le: "closed_codes i s \<le> codes_for i s"
  unfolding closed_codes_def codes_for_def by (rule length_filter_mono) simp

lemma length_filter_update:
  "(\<And>r. r \<in> set t \<Longrightarrow> q r \<Longrightarrow> P r \<Longrightarrow> P (f r)) \<Longrightarrow>
     length (filter P t) \<le> length (filter P (update_where q f t))"
  by (induction t) (auto intro: le_SucI)

lemma length_filter_update_less:
  assumes "\<And>r. r \<in> set t \<Longrightarrow> q r \<Longrightarrow> P r \<Longrightarrow> P (f r)" and "r \<in> set t" "q r" "\<not> P r" "P (f r)"
  shows "length (filter P t) < length (filter P (update_where q f t))"
  using assms
proof (induction t)
  case (Cons a t)
  have le: "length (filter P t) \<le> length (filter P (update_where q f t))"
    using Cons.prems(1) by (intro length_filter_update) simp
  show ?case
  proof (cases "a = r")
    case True
    with Cons.prems le show ?thesis by simp
  next
    case False
    with Cons have "length (filter P t) < length (filter P (update_where q f t))" by simp
    with Cons.prems(1) [of a] show ?thesis by (auto simp: less_SucI)
  qed
qed simp

lemma codes_for_update:
  "(\<And>c. lc_linkId (f c) = lc_linkId c) \<Longrightarrow>
     length (filter (\<lambda>c. lc_linkId c = i) (update_where q f t)) = length (filter (\<lambda>c. lc_linkId c = i) t)"
  by (induction t) simp_all

lemma mails_effect:
  assumes "share_effect env x s s'" and "mails_for i s = codes_for i s"
  shows "mails_for i s' = codes_for i s'"
  using assms(1)
proof cases
  case (Issued j l es email code now newId s2 m)
  then show ?thesis using assms(2)
    by (auto simp: issueLinkCode_True mails_for_def codes_for_def codes_for_update)
qed (use assms(2) in \<open>simp_all add: mails_for_def codes_for_def revokeLink_update drop_blob_def
    guess_code_def Let_def count_view_def codes_for_update\<close>)

text \<open>A view of a restricted link closes a code that was open.\<close>

lemma closed_codes_effect:
  assumes effect: "share_effect env x s s'" and "codes_ok env s"
    and restricted: "\<forall>l. link_of i s = Some l \<longrightarrow> lk_allowedEmails l \<noteq> None"
  shows "closed_codes i s + (if x = Some i then 1 else 0) \<le> closed_codes i s'"
proof -
  let ?P = "\<lambda>c. lc_linkId c = i \<and> lc_closedAt c \<noteq> None"
  have same: "d = c" if "d \<in> set (sh_codes s)" "lc_id d = lc_id c" "c \<in> set (sh_codes s)" for c d
    using assms(2) that unique_byD [of lc_id "sh_codes s" d c] by (simp add: codes_ok_def)
  have guess: "closed_codes i s \<le> closed_codes i (snd (guess_code c g now s))"
    if "pending_code j h now s = Some c" for j h now c g
  proof -
    have "\<not> ?P r" if "r \<in> set (sh_codes s)" "lc_id r = lc_id c" for r
      using same [of r c] that pending_code_mem [OF \<open>pending_code j h now s = Some c\<close>] by auto
    then show ?thesis
      by (auto simp: closed_codes_def guess_code_def Let_def simp del: not_None_eq intro!: length_filter_update)
  qed
  show ?thesis using effect
  proof cases
    case (Guessed j h now c g)
    then show ?thesis using guess by simp
  next
    case (Viewed j l now)
    then show ?thesis using restricted by (auto simp: closed_codes_def count_view_def)
  next
    case (ViewedByCode j l now h c)
    show ?thesis
    proof (cases "x = Some i")
      case True
      with ViewedByCode have "lc_linkId c = i" "lc_closedAt c = None" "c \<in> set (sh_codes s)"
        using pending_code_mem by auto
      moreover have "r = c" if "r \<in> set (sh_codes s)" "lc_id r = lc_id c" for r
        using same that calculation(3) by blast
      ultimately have "closed_codes i s < closed_codes i (snd (guess_code c (lc_codeHash c) now s))"
        unfolding closed_codes_def guess_code_def Let_def
        by (auto intro!: length_filter_update_less [where r = c])
      with ViewedByCode show ?thesis by (simp add: closed_codes_def count_view_def)
    next
      case False
      then show ?thesis using guess [OF ViewedByCode(4)] ViewedByCode(1)
        by (simp add: closed_codes_def count_view_def)
    qed
  next
    case (Issued j l es email code now newId s2 m)
    then have "s' = s2\<lparr>sh_mails := sh_mails s2 @ [m]\<rparr>" "x = None" by simp_all
    moreover have "closed_codes i s \<le> closed_codes i s2"
      using Issued by (auto simp: issueLinkCode_True closed_codes_def intro!: trans_le_add1 length_filter_update)
    ultimately show ?thesis by (simp add: closed_codes_def)
  qed (simp_all add: closed_codes_def revokeLink_update drop_blob_def)
qed

lemma restricted_run:
  assumes "share_inv env s"
    and "link_of i (share_run env ops s) = Some l" and "lk_allowedEmails l \<noteq> None"
  shows "closed_codes i s + times_opened env i ops s \<le> closed_codes i (share_run env ops s)"
  using assms
proof (induction ops arbitrary: s)
  case Nil
  then show ?case by (simp add: share_run_def)
next
  case (Cons oper ops)
  have links: "links_ok s" using Cons.prems(1) by (simp add: share_inv_def)
  have "\<forall>l0. link_of i s = Some l0 \<longrightarrow> lk_allowedEmails l0 \<noteq> None"
  proof (intro allI impI)
    fix l0 assume "link_of i s = Some l0"
    from link_run [OF links this, where env = env and ops = "oper # ops"] Cons.prems(2,3)
    show "lk_allowedEmails l0 \<noteq> None" by (simp add: same_link_def)
  qed
  then have "closed_codes i s + (if opened_by env oper s = Some i then 1 else 0) \<le> closed_codes i (share_step env oper s)"
    using closed_codes_effect [OF share_step_effect] Cons.prems(1) by (simp add: share_inv_def)
  moreover have "closed_codes i (share_step env oper s) + times_opened env i ops (share_step env oper s) \<le>
      closed_codes i (share_run env ops (share_step env oper s))"
    using Cons.IH [OF share_inv_step [OF Cons.prems(1)]] Cons.prems(2,3) by (simp add: share_run_def)
  ultimately show ?case by (simp add: share_run_def)
qed

lemma mails_run: "mails_for i s = codes_for i s \<Longrightarrow>
    mails_for i (share_run env ops s) = codes_for i (share_run env ops s)"
  by (induction ops arbitrary: s) (simp_all add: share_run_def mails_effect [OF share_step_effect])

section \<open>Properties\<close>

text \<open>C24. However requests interleave and whatever the clock does, a link hands out its item at
  most as often as it counts views, never more than its limit; once it is revoked or used up
  its ciphertext is gone from the database.\<close>

theorem share_link_views:
  assumes "link_of i (share_run env ops (fresh_shares accounts joiners)) = Some l"
  shows "int (times_opened env i ops (fresh_shares accounts joiners)) \<le> lk_viewCount l \<and>
    lk_viewCount l \<le> max 0 (lk_maxViews l) \<and>
    (lk_revokedAt l \<noteq> None \<or> (0 < lk_viewCount l \<and> lk_maxViews l \<le> lk_viewCount l) \<longrightarrow> lk_blob l = None)"
proof -
  let ?s = "fresh_shares accounts joiners"
  have fresh: "links_ok ?s" "link_of i ?s = None" using share_inv_fresh by (auto simp: share_inv_def fresh_shares_def)
  have "link_ok l" using links_ok_run [OF fresh(1), of env ops] link_of_id [OF assms] by (simp add: links_ok_def)
  with unmade_link_run [OF fresh assms] show ?thesis by (simp add: link_ok_def)
qed

text \<open>A link that names the people who may open it is opened at most once for every code
  that was mailed for it.\<close>

theorem restricted_views_need_codes:
  assumes "link_of i (share_run env ops (fresh_shares accounts joiners)) = Some l"
    and "lk_allowedEmails l \<noteq> None"
  shows "times_opened env i ops (fresh_shares accounts joiners) \<le>
    mails_for i (share_run env ops (fresh_shares accounts joiners))"
proof -
  let ?s = "fresh_shares accounts joiners"
  have "times_opened env i ops ?s \<le> closed_codes i (share_run env ops ?s)"
    using restricted_run [OF share_inv_fresh assms] by simp
  also have "\<dots> \<le> codes_for i (share_run env ops ?s)" by (rule closed_codes_le)
  also have "\<dots> = mails_for i (share_run env ops ?s)"
    by (subst mails_run) (simp_all add: fresh_shares_def mails_for_def codes_for_def)
  finally show ?thesis .
qed

text \<open>C31. Such a link opens only for someone who holds its key, while it is live, with an email
  on its list and the code of a mail that was sent for it and has not been used or replaced:
  the keyed hashes of the email and code presented are those of the mail.\<close>

theorem restricted_open_confirmed:
  assumes "s = share_run env ops (fresh_shares accounts joiners)"
    and "link_open env i req now s = (Inr r, s')" and "link_of i s = Some l" and "lk_allowedEmails l = Some es"
  shows "isLinkOpen l now \<and> verifierOf env (op_accessToken req) = lk_verifier l \<and> lk_blob l = Some (od_blob r) \<and>
    (\<exists>email code m. op_email req = Some email \<and> op_code req = Some code \<and>
       sv_encode env (emailHash env i email) \<in> set es \<and>
       m \<in> set (sh_mails s) \<and> cm_linkId m = i \<and> emailHash env i (cm_to m) = emailHash env i email \<and>
       codeHash env i (cm_to m) (cm_code m) = codeHash env i email code)"
proof (cases rule: consumeLinkView_cases [of i now "\<lambda>l. verifierOf env (op_accessToken req) = lk_verifier l"
    "presented_code env i req" s])
  case (restricted l2 h c)
  have "l2 = l" using restricted(2) assms(3) by simp
  obtain email code where presented: "op_email req = Some email" "op_code req = Some code"
    "h = emailHash env i email" "lc_codeHash c = codeHash env i email code"
    using restricted(6) by (auto simp: presented_code_def split: option.splits if_splits)
  have "codes_ok env s" using share_inv_run [OF share_inv_fresh] assms(1) by (simp add: share_inv_def)
  then have "code_mailed env s c" "lc_linkId c = i" "lc_emailHash c = h"
    using pending_code_mem [OF restricted(7)] by (simp_all add: codes_ok_def)
  then have "\<exists>m. m \<in> set (sh_mails s) \<and> cm_linkId m = i \<and> emailHash env i (cm_to m) = emailHash env i email \<and>
      codeHash env i (cm_to m) (cm_code m) = codeHash env i email code"
    and "sv_encode env (emailHash env i email) \<in> set es"
    using assms(3,4) presented by (auto simp: code_mailed_def)
  moreover have "lk_blob l = Some (od_blob r)"
    using assms(2) restricted(1) \<open>l2 = l\<close> by (auto simp: link_open_def split: option.splits)
  ultimately show ?thesis using restricted(3,4) presented(1,2) \<open>l2 = l\<close> by blast
qed (use assms(2-4) in \<open>auto simp: link_open_def split: consume_result.splits\<close>)

text \<open>Limits on codes: codes for one link and email are sent at least half a minute apart and
  at most five in any hour; a code takes at most five wrong guesses and is closed then; at most
  one code of a link and email is open.\<close>

theorem share_code_limits:
  assumes "s = share_run env ops (fresh_shares accounts joiners)"
  shows "sorted_wrt (\<lambda>a b. a + 30000 \<le> b) (sent_at i h s) \<and>
    length (filter (\<lambda>a. t - 3600000 < a \<and> a \<le> t) (sent_at i h s)) \<le> 5 \<and>
    (\<forall>c \<in> set (sh_codes s). lc_attempts c \<le> 5 \<and> (lc_attempts c = 5 \<longrightarrow> lc_closedAt c \<noteq> None)) \<and>
    length (filter (\<lambda>c. lc_linkId c = i \<and> lc_emailHash c = h \<and> lc_closedAt c = None) (sh_codes s)) \<le> 1"
proof -
  have inv: "codes_ok env s" "rate_ok s" using share_inv_run [OF share_inv_fresh] assms by (simp_all add: share_inv_def)
  let ?open = "\<lambda>c. lc_linkId c = i \<and> lc_emailHash c = h \<and> lc_closedAt c = None"
  have distinct: "distinct (filter ?open (sh_codes s))"
    using inv(1) by (auto simp: codes_ok_def unique_by_def distinct_map)
  have "c = d" if "c \<in> set (filter ?open (sh_codes s))" "d \<in> set (filter ?open (sh_codes s))" for c d
    using inv(1) that by (simp add: codes_ok_def one_open_def)
  then have "\<forall>c \<in> set (filter ?open (sh_codes s)). \<forall>d \<in> set (filter ?open (sh_codes s)). c = d" by blast
  then have "card (set (filter ?open (sh_codes s))) \<le> 1" by (simp only: One_nat_def card_le_Suc0_iff_eq finite_set)
  then have "length (filter ?open (sh_codes s)) \<le> 1" using distinct_card [OF distinct] by simp
  moreover have "\<forall>c \<in> set (sh_codes s). lc_attempts c \<le> 5 \<and> (lc_attempts c = 5 \<longrightarrow> lc_closedAt c \<noteq> None)"
    using inv(1) by (auto simp: codes_ok_def attempts_ok_def maxAttempts_def)
  moreover have "in_hour t (sent_at i h s) \<le> perHour" "sorted_wrt (\<lambda>a b. a + cooldownMs \<le> b) (sent_at i h s)"
    using inv(2) by (simp_all add: rate_ok_def)
  ultimately show ?thesis by (simp add: cooldownMs_def perHour_def in_hour_def)
qed


section \<open>A concrete run\<close>

text \<open>Alice shares with bob@x; he asks for a code and opens the link with it.\<close>

definition demo_env :: share_env where
  "demo_env = \<lparr>sv_secret = ''k'', sv_sandbox = False, sv_mac = (\<lambda>k m. ''h''), sv_sha256 = (\<lambda>x. x),
     sv_encode = (\<lambda>x. x), sv_decode = (\<lambda>x. x)\<rparr>"

definition demo_blob :: blob where
  "demo_blob = \<lparr>bl_kid = ''share-link'', bl_nonce = ''n'', bl_ct = ''c''\<rparr>"

definition demo_open :: "string \<Rightarrow> open_link_req" where
  "demo_open code = \<lparr>op_accessToken = ''t'', op_email = Some ''bob@x'', op_code = Some code\<rparr>"

definition demo_before :: "share_op list" where
  "demo_before = [CreateLink ''alice'' \<lparr>cl_id = ''L'', cl_blob = demo_blob, cl_verifier = ''t'',
       cl_expiresInSeconds = 3600, cl_maxViews = 1, cl_allowedEmails = Some [''bob@x'']\<rparr> 0,
     RequestCode ''L'' ''t'' ''bob@x'' 1000 1000 ''123456'' ''c1'']"

definition demo_ops :: "share_op list" where
  "demo_ops = demo_before @ [OpenLink ''L'' (demo_open ''123456'') 3000]"

definition demo_start :: share_state where
  "demo_start = fresh_shares [(''alice'', ''alice@x'')] []"

lemma demo_hashes: "emailHash demo_env i e = ''h''" "codeHash demo_env i e c = ''h''"
  "verifierOf demo_env t = t" "sv_encode demo_env x = x" "sv_decode demo_env x = x" "sv_sandbox demo_env = False"
  by (simp_all add: emailHash_def codeHash_def verifierOf_def hmac_def demo_env_def)

lemmas demo_eval = demo_hashes demo_start_def fresh_shares_def demo_before_def demo_ops_def share_run_def
  link_create_def countActiveLinks_def maxActiveLinksPerUser_def insertLink_def insert_new_def new_link_def
  requestCode_def openLinkFor_def getOpenLink_def isLinkOpen_def issueLinkCode_def recent_codes_def Let_def
  perHour_def cooldownMs_def codeTtlMinutes_def link_open_def consumeLinkView_def presented_code_def demo_open_def
  pending_code_def guess_code_def maxAttempts_def count_view_def opened_by_def

definition demo_mid :: share_state where
  "demo_mid = \<lparr>sh_links = [\<lparr>lk_id = ''L'', lk_ownerId = ''alice'', lk_blob = Some demo_blob, lk_verifier = ''t'',
       lk_allowedEmails = Some [''h''], lk_createdAt = 0, lk_expiresAt = 3600000, lk_maxViews = 1, lk_viewCount = 0,
       lk_revokedAt = None\<rparr>],
     sh_codes = [\<lparr>lc_id = ''c1'', lc_linkId = ''L'', lc_emailHash = ''h'', lc_codeHash = ''h'', lc_attempts = 0,
       lc_expiresAt = 601000, lc_closedAt = None, lc_createdAt = 1000\<rparr>],
     sh_accounts = [(''alice'', ''alice@x'')], sh_verifiedJoiners = [],
     sh_mails = [\<lparr>cm_linkId = ''L'', cm_to = ''bob@x'', cm_sender = Some ''alice@x'', cm_code = ''123456'', cm_ttlMinutes = 10\<rparr>]\<rparr>"

lemma demo_mid: "share_run demo_env demo_before demo_start = demo_mid"
  by (simp add: demo_eval demo_mid_def accountEmail_def)

lemma demo_run: "share_run demo_env demo_ops demo_start = share_step demo_env (OpenLink ''L'' (demo_open ''123456'') 3000) demo_mid"
  unfolding demo_mid [symmetric] by (simp add: demo_ops_def share_run_def)

lemma demo_link:
  "map_option (\<lambda>l. (lk_viewCount l, lk_maxViews l, lk_blob l, lk_allowedEmails l \<noteq> None))
     (link_of ''L'' (share_run demo_env demo_ops demo_start)) = Some (1, 1, None, True)"
  unfolding demo_run by (simp add: demo_eval demo_mid_def)

lemma demo_opened: "times_opened demo_env ''L'' demo_ops demo_start = 1"
  by (simp add: demo_eval accountEmail_def demo_blob_def)

theorem share_link_views_witness:
  "\<exists>l. link_of ''L'' (share_run demo_env demo_ops demo_start) = Some l \<and>
     times_opened demo_env ''L'' demo_ops demo_start = 1 \<and> lk_viewCount l = 1 \<and> lk_blob l = None"
proof -
  obtain l where l: "link_of ''L'' (share_run demo_env demo_ops demo_start) = Some l" "lk_viewCount l = 1" "lk_maxViews l = 1"
    using demo_link by (auto simp: map_option_eq_Some)
  then have "lk_blob l = None"
    using share_link_views [of "''L''" demo_env demo_ops, folded demo_start_def] unfolding demo_start_def by auto
  with l demo_opened show ?thesis by blast
qed

theorem restricted_views_need_codes_witness:
  "1 \<le> mails_for ''L'' (share_run demo_env demo_ops demo_start)"
proof -
  obtain l where l: "link_of ''L'' (share_run demo_env demo_ops demo_start) = Some l" "lk_allowedEmails l \<noteq> None"
    using demo_link by (auto simp: map_option_eq_Some)
  from restricted_views_need_codes [OF l [unfolded demo_start_def]] demo_opened
  show ?thesis by (simp add: demo_start_def)
qed

lemma demo_reply:
  "(case link_open demo_env ''L'' (demo_open ''123456'') 3000 (share_run demo_env demo_before demo_start) of
     (Inr r, s) \<Rightarrow> True | _ \<Rightarrow> False)"
  unfolding demo_mid by (simp add: demo_eval demo_mid_def ret_def)

lemma demo_restricted:
  "map_option (\<lambda>l. lk_allowedEmails l \<noteq> None)
     (link_of ''L'' (share_run demo_env demo_before demo_start)) = Some True"
  unfolding demo_mid by (simp add: demo_mid_def)

theorem restricted_open_confirmed_witness:
  "\<exists>m \<in> set (sh_mails (share_run demo_env demo_before demo_start)). cm_linkId m = ''L''"
proof -
  obtain r s' where r: "link_open demo_env ''L'' (demo_open ''123456'') 3000 (share_run demo_env demo_before demo_start) = (Inr r, s')"
    using demo_reply by (auto split: sum.splits prod.splits)
  obtain l es where l: "link_of ''L'' (share_run demo_env demo_before demo_start) = Some l" "lk_allowedEmails l = Some es"
    using demo_restricted by (auto simp: map_option_eq_Some)
  from restricted_open_confirmed [OF refl r [unfolded demo_start_def] l [unfolded demo_start_def]]
  show ?thesis by (auto simp: demo_start_def)
qed

theorem share_code_limits_witness:
  "length (filter (\<lambda>a. 2000 - 3600000 < a \<and> a \<le> 2000) (sent_at ''L'' ''h'' (share_run demo_env demo_ops demo_start))) \<le> 5 \<and>
   length (filter (\<lambda>c. lc_linkId c = ''L'' \<and> lc_emailHash c = ''h'' \<and> lc_closedAt c = None)
     (sh_codes (share_run demo_env demo_ops demo_start))) \<le> 1"
  using share_code_limits [OF refl, where env = demo_env and ops = demo_ops and i = "''L''" and h = "''h''" and t = 2000]
  by (simp add: demo_start_def)

end
