(* ===== verification/UserShares.thy ===== *)
theory UserShares
  imports Schema
begin

text \<open>
  Sharing between accounts: \<^verbatim>\<open>UserSharesService\<close> over the published keys and the shares of
  \<^verbatim>\<open>PostgresShareStore\<close> (\<^verbatim>\<open>apps/api/src/sharing\<close>). The notifier's mails are kept in the state.
\<close>

section \<open>State\<close>

record sharing_user =
  us_id :: id
  us_email :: string

record sharing_key =
  sk_userId :: id
  sk_email :: string
  sk_publicKey :: string
  sk_updatedAt :: time

record user_share =
  sh_id :: id
  sh_senderId :: id
  sh_senderEmail :: string
  sh_senderPublicKey :: string
  sh_recipientId :: id
  sh_recipientEmail :: string
  sh_ephemeralPublicKey :: string
  sh_blob :: blob
  sh_createdAt :: time
  sh_expiresAt :: "time option"

record user_shares_state =
  uss_keys :: "sharing_key list"
  uss_shares :: "user_share list"
  uss_notified :: "(id \<times> string \<times> string) list"

type_synonym 'a user_shares_outcome = "(http_error, 'a, user_shares_state) outcome"

section \<open>The store\<close>

definition putSharingKey :: "sharing_key \<Rightarrow> user_shares_state \<Rightarrow> user_shares_state" where
  "putSharingKey key s = (let row = key\<lparr>sk_email := js_lower (sk_email key)\<rparr>
     in s\<lparr>uss_keys := upsert sk_userId row (\<lambda>_. row) (uss_keys s)\<rparr>)"

definition getSharingKeyByUser :: "id \<Rightarrow> user_shares_state \<Rightarrow> sharing_key option" where
  "getSharingKeyByUser u s = find (\<lambda>k. sk_userId k = u) (uss_keys s)"

definition getSharingKeyByEmail :: "string \<Rightarrow> user_shares_state \<Rightarrow> sharing_key option" where
  "getSharingKeyByEmail email s = find (\<lambda>k. sk_email k = js_lower email) (uss_keys s)"

definition insertUserShare :: "user_share \<Rightarrow> user_shares_state \<Rightarrow> bool \<times> user_shares_state" where
  "insertUserShare share s = (case insert_new sh_id share (uss_shares s) of
     None \<Rightarrow> (False, s) | Some t \<Rightarrow> (True, s\<lparr>uss_shares := t\<rparr>))"

definition liveAt :: "time \<Rightarrow> user_share \<Rightarrow> bool" where
  "liveAt now x \<longleftrightarrow> (case sh_expiresAt x of None \<Rightarrow> True | Some t \<Rightarrow> now < t)"

definition listIncoming :: "id \<Rightarrow> time \<Rightarrow> user_shares_state \<Rightarrow> user_share list" where
  "listIncoming u now s = sort_key (\<lambda>x. - sh_createdAt x)
     (filter (\<lambda>x. sh_recipientId x = u \<and> liveAt now x) (uss_shares s))"

definition listOutgoing :: "id \<Rightarrow> time \<Rightarrow> user_shares_state \<Rightarrow> user_share list" where
  "listOutgoing u now s = sort_key (\<lambda>x. - sh_createdAt x)
     (filter (\<lambda>x. sh_senderId x = u \<and> liveAt now x) (uss_shares s))"

definition deleteUserShare :: "id \<Rightarrow> id \<Rightarrow> user_shares_state \<Rightarrow> bool \<times> user_shares_state" where
  "deleteUserShare i u s = (let hit = (\<lambda>x. sh_id x = i \<and> (sh_senderId x = u \<or> sh_recipientId x = u))
     in (list_ex hit (uss_shares s), s\<lparr>uss_shares := delete_where hit (uss_shares s)\<rparr>))"

section \<open>The service\<close>

record key_response =
  kr_userId :: id
  kr_email :: string
  kr_publicKey :: string

definition toKeyResponse :: "sharing_key \<Rightarrow> key_response" where
  "toKeyResponse k = \<lparr>kr_userId = sk_userId k, kr_email = sk_email k, kr_publicKey = sk_publicKey k\<rparr>"

record create_user_share_req =
  cu_id :: id
  cu_recipientEmail :: string
  cu_recipientPublicKey :: string
  cu_senderPublicKey :: string
  cu_ephemeralPublicKey :: string
  cu_blob :: blob
  cu_expiresInSeconds :: "int option"

record outgoing_share =
  og_id :: id
  og_recipientId :: id
  og_recipientEmail :: string
  og_createdAt :: time
  og_expiresAt :: "time option"

record incoming_share =
  ic_id :: id
  ic_senderId :: id
  ic_senderEmail :: string
  ic_senderPublicKey :: string
  ic_ephemeralPublicKey :: string
  ic_blob :: blob
  ic_createdAt :: time
  ic_expiresAt :: "time option"

definition publishKey :: "sharing_user \<Rightarrow> string \<Rightarrow> time \<Rightarrow> user_shares_state \<Rightarrow> key_response user_shares_outcome" where
  "publishKey user publicKey now s =
     (let row = \<lparr>sk_userId = us_id user, sk_email = us_email user, sk_publicKey = publicKey, sk_updatedAt = now\<rparr>
      in ret (toKeyResponse row) (putSharingKey row s))"

definition myKey :: "sharing_user \<Rightarrow> user_shares_state \<Rightarrow> key_response user_shares_outcome" where
  "myKey user s = (case getSharingKeyByUser (us_id user) s of
     None \<Rightarrow> throw (NotFound ''No sharing key published yet'') s | Some k \<Rightarrow> ret (toKeyResponse k) s)"

definition lookupKey :: "string \<Rightarrow> user_shares_state \<Rightarrow> key_response user_shares_outcome" where
  "lookupKey email s = (case getSharingKeyByEmail email s of
     None \<Rightarrow> throw (NotFound ''No Zvault user can receive shares at that email'') s
   | Some k \<Rightarrow> ret (toKeyResponse k) s)"

text \<open>An \<^verbatim>\<open>expiresInSeconds\<close> of 0 counts as none.\<close>

definition new_share :: "sharing_user \<Rightarrow> create_user_share_req \<Rightarrow> sharing_key \<Rightarrow> sharing_key \<Rightarrow> time \<Rightarrow> user_share" where
  "new_share sender req senderKey recipient now = \<lparr>sh_id = cu_id req, sh_senderId = us_id sender,
     sh_senderEmail = js_lower (us_email sender), sh_senderPublicKey = sk_publicKey senderKey,
     sh_recipientId = sk_userId recipient, sh_recipientEmail = sk_email recipient,
     sh_ephemeralPublicKey = cu_ephemeralPublicKey req, sh_blob = cu_blob req, sh_createdAt = now,
     sh_expiresAt = (case cu_expiresInSeconds req of None \<Rightarrow> None
       | Some n \<Rightarrow> if n = 0 then None else Some (now + n * 1000))\<rparr>"

definition user_share_create :: "sharing_user \<Rightarrow> create_user_share_req \<Rightarrow> time \<Rightarrow> user_shares_state \<Rightarrow>
    outgoing_share user_shares_outcome" where
  "user_share_create sender req now s = (case getSharingKeyByUser (us_id sender) s of
     None \<Rightarrow> throw (Conflict ''Your sharing key does not match the one on file'') s
   | Some senderKey \<Rightarrow>
       if sk_publicKey senderKey \<noteq> cu_senderPublicKey req
       then throw (Conflict ''Your sharing key does not match the one on file'') s
       else (case getSharingKeyByEmail (cu_recipientEmail req) s of
           None \<Rightarrow> throw (NotFound ''No Zvault user can receive shares at that email'') s
         | Some recipient \<Rightarrow>
             if sk_userId recipient = us_id sender
             then throw (Unprocessable ''You cannot share an item with yourself'') s
             else if sk_publicKey recipient \<noteq> cu_recipientPublicKey req
             then throw (Conflict (''The recipient'' @ [CHR 0x27] @ ''s sharing key changed; fetch it again'')) s
             else
               let row = new_share sender req senderKey recipient now
               in case insertUserShare row s of
                    (False, s') \<Rightarrow> throw (Conflict ''Share id already in use'') s'
                  | (True, s') \<Rightarrow>
                      ret \<lparr>og_id = sh_id row, og_recipientId = sh_recipientId row,
                           og_recipientEmail = sh_recipientEmail row, og_createdAt = now,
                           og_expiresAt = sh_expiresAt row\<rparr>
                        (s'\<lparr>uss_notified := uss_notified s' @
                             [(sh_id row, sh_senderEmail row, sh_recipientEmail row)]\<rparr>)))"

definition user_shares_incoming :: "sharing_user \<Rightarrow> time \<Rightarrow> user_shares_state \<Rightarrow> incoming_share list" where
  "user_shares_incoming user now s = map (\<lambda>x. \<lparr>ic_id = sh_id x, ic_senderId = sh_senderId x,
     ic_senderEmail = sh_senderEmail x, ic_senderPublicKey = sh_senderPublicKey x,
     ic_ephemeralPublicKey = sh_ephemeralPublicKey x, ic_blob = sh_blob x, ic_createdAt = sh_createdAt x,
     ic_expiresAt = sh_expiresAt x\<rparr>) (listIncoming (us_id user) now s)"

definition user_shares_outgoing :: "sharing_user \<Rightarrow> time \<Rightarrow> user_shares_state \<Rightarrow> outgoing_share list" where
  "user_shares_outgoing user now s = map (\<lambda>x. \<lparr>og_id = sh_id x, og_recipientId = sh_recipientId x,
     og_recipientEmail = sh_recipientEmail x, og_createdAt = sh_createdAt x, og_expiresAt = sh_expiresAt x\<rparr>)
     (listOutgoing (us_id user) now s)"

definition user_share_remove :: "sharing_user \<Rightarrow> id \<Rightarrow> user_shares_state \<Rightarrow> unit user_shares_outcome" where
  "user_share_remove user i s = (case deleteUserShare i (us_id user) s of
     (False, s') \<Rightarrow> throw (NotFound '''') s' | (True, s') \<Rightarrow> ret () s')"

section \<open>Runs\<close>

datatype user_share_op =
    PublishKey sharing_user string time
  | CreateShare sharing_user create_user_share_req time
  | RemoveShare sharing_user id

fun user_shares_step :: "user_share_op \<Rightarrow> user_shares_state \<Rightarrow> user_shares_state" where
  "user_shares_step (PublishKey user key now) s = snd (publishKey user key now s)"
| "user_shares_step (CreateShare user req now) s = snd (user_share_create user req now s)"
| "user_shares_step (RemoveShare user i) s = snd (user_share_remove user i s)"

definition user_shares_run :: "user_share_op list \<Rightarrow> user_shares_state \<Rightarrow> user_shares_state" where
  "user_shares_run ops s = fold user_shares_step ops s"

section \<open>Properties\<close>

lemma createUserShare_Inr:
  "user_share_create sender req now s = (Inr r, s') \<longleftrightarrow>
     (\<exists>mine theirs. getSharingKeyByUser (us_id sender) s = Some mine \<and> sk_publicKey mine = cu_senderPublicKey req \<and>
        getSharingKeyByEmail (cu_recipientEmail req) s = Some theirs \<and> sk_userId theirs \<noteq> us_id sender \<and>
        sk_publicKey theirs = cu_recipientPublicKey req \<and> cu_id req \<notin> sh_id ` set (uss_shares s) \<and>
        (let row = new_share sender req mine theirs now
         in r = \<lparr>og_id = sh_id row, og_recipientId = sh_recipientId row, og_recipientEmail = sh_recipientEmail row,
               og_createdAt = now, og_expiresAt = sh_expiresAt row\<rparr> \<and>
            s' = s\<lparr>uss_shares := uss_shares s @ [row],
                   uss_notified := uss_notified s @ [(sh_id row, sh_senderEmail row, sh_recipientEmail row)]\<rparr>))"
  by (auto simp: user_share_create_def insertUserShare_def insert_new_def Let_def new_share_def
      split: option.splits if_splits)

lemma createUserShare_Inl: "user_share_create sender req now s = (Inl e, s') \<Longrightarrow> s' = s"
  by (auto simp: user_share_create_def insertUserShare_def insert_new_def Let_def split: option.splits if_splits)

text \<open>A share is accepted exactly when both sides' keys on file are the ones it was sealed
  with, it is not to oneself and its id is new; it is then stored for the account that has the
  recipient's email, under the keys on file, and shows up for both.\<close>

theorem user_share_accepted:
  assumes "user_share_create sender req now s = (Inr r, s')"
  shows "\<exists>mine theirs row. getSharingKeyByUser (us_id sender) s = Some mine \<and>
    getSharingKeyByEmail (cu_recipientEmail req) s = Some theirs \<and> sk_userId theirs \<noteq> us_id sender \<and>
    uss_shares s' = uss_shares s @ [row] \<and> sh_id row \<notin> sh_id ` set (uss_shares s) \<and>
    sh_senderPublicKey row = sk_publicKey mine \<and> cu_senderPublicKey req = sk_publicKey mine \<and>
    cu_recipientPublicKey req = sk_publicKey theirs \<and> sh_blob row = cu_blob req \<and>
    sh_senderId row = us_id sender \<and> sh_recipientId row = sk_userId theirs \<and>
    (liveAt t row \<longrightarrow> row \<in> set (listIncoming (sk_userId theirs) t s') \<and> row \<in> set (listOutgoing (us_id sender) t s'))"
proof -
  obtain mine theirs where k: "getSharingKeyByUser (us_id sender) s = Some mine" "sk_publicKey mine = cu_senderPublicKey req"
    "getSharingKeyByEmail (cu_recipientEmail req) s = Some theirs" "sk_userId theirs \<noteq> us_id sender"
    "sk_publicKey theirs = cu_recipientPublicKey req" "cu_id req \<notin> sh_id ` set (uss_shares s)"
    "uss_shares s' = uss_shares s @ [new_share sender req mine theirs now]"
    using assms by (auto simp: createUserShare_Inr Let_def)
  then show ?thesis
    by (intro exI [of _ mine] exI [of _ theirs] exI [of _ "new_share sender req mine theirs now"])
      (simp add: new_share_def listIncoming_def listOutgoing_def)
qed

text \<open>Only its sender or its recipient can make a share go away, and only by removing it; what
  was stored of it never changes, whichever keys are published later.\<close>

theorem user_share_removed_by_party:
  assumes "x \<in> set (uss_shares s)"
  shows "x \<in> set (uss_shares (user_shares_run ops s)) \<or>
    (\<exists>user. RemoveShare user (sh_id x) \<in> set ops \<and> (us_id user = sh_senderId x \<or> us_id user = sh_recipientId x))"
  using assms
proof (induction ops arbitrary: s)
  case Nil
  then show ?case by (simp add: user_shares_run_def)
next
  case (Cons oper ops)
  have "x \<in> set (uss_shares (user_shares_step oper s)) \<or>
    (\<exists>user. oper = RemoveShare user (sh_id x) \<and> (us_id user = sh_senderId x \<or> us_id user = sh_recipientId x))"
  proof (cases oper)
    case (PublishKey user key now)
    then show ?thesis using Cons.prems by (simp add: publishKey_def putSharingKey_def Let_def)
  next
    case (CreateShare user req now)
    obtain a s1 where step: "user_share_create user req now s = (a, s1)" by (cases "user_share_create user req now s")
    have "set (uss_shares s) \<subseteq> set (uss_shares s1)"
    proof (cases a)
      case (Inl e)
      then show ?thesis using createUserShare_Inl step by blast
    next
      case (Inr b)
      then show ?thesis using step by (auto simp: createUserShare_Inr Let_def)
    qed
    then show ?thesis using Cons.prems CreateShare step by auto
  next
    case (RemoveShare user i)
    then have "user_shares_step oper s = snd (deleteUserShare i (us_id user) s)"
      by (simp add: user_share_remove_def split: prod.split bool.split)
    then show ?thesis using Cons.prems RemoveShare by (auto simp: deleteUserShare_def Let_def)
  qed
  then show ?case
    using Cons.IH [of "user_shares_step oper s"] by (auto simp: user_shares_run_def)
qed

definition demo_key :: "string \<Rightarrow> string \<Rightarrow> string \<Rightarrow> sharing_key" where
  "demo_key u e k = \<lparr>sk_userId = u, sk_email = e, sk_publicKey = k, sk_updatedAt = 0\<rparr>"

definition demo_shares :: user_shares_state where
  "demo_shares = \<lparr>uss_keys = [demo_key ''a'' ''a@x'' ''KA'', demo_key ''b'' ''b@x'' ''KB''], uss_shares = [], uss_notified = []\<rparr>"

definition demo_req :: create_user_share_req where
  "demo_req = \<lparr>cu_id = ''S'', cu_recipientEmail = ''B@x'', cu_recipientPublicKey = ''KB'', cu_senderPublicKey = ''KA'',
     cu_ephemeralPublicKey = ''E'', cu_blob = \<lparr>bl_kid = ''share-box'', bl_nonce = ''n'', bl_ct = ''c''\<rparr>,
     cu_expiresInSeconds = None\<rparr>"

definition demo_shared :: user_shares_state where
  "demo_shared = snd (user_share_create \<lparr>us_id = ''a'', us_email = ''a@x''\<rparr> demo_req 0 demo_shares)"

lemma demo_shared: "\<exists>r. user_share_create \<lparr>us_id = ''a'', us_email = ''a@x''\<rparr> demo_req 0 demo_shares = (Inr r, demo_shared)"
proof -
  have "\<not> isl (fst (user_share_create \<lparr>us_id = ''a'', us_email = ''a@x''\<rparr> demo_req 0 demo_shares))"
    by code_simp
  then show ?thesis by (auto simp: demo_shared_def elim!: outcome_InrE)
qed

theorem user_share_accepted_witness:
  "\<exists>row. uss_shares demo_shared = [row] \<and> sh_recipientId row = ''b''"
proof -
  obtain r where r: "user_share_create \<lparr>us_id = ''a'', us_email = ''a@x''\<rparr> demo_req 0 demo_shares = (Inr r, demo_shared)"
    using demo_shared by blast
  have key: "map_option sk_userId (getSharingKeyByEmail (cu_recipientEmail demo_req) demo_shares) = Some ''b''"
    by code_simp
  from user_share_accepted [OF r, of 0] key show ?thesis by (auto simp: demo_shares_def)
qed

theorem user_share_removed_by_party_witness:
  "\<exists>x \<in> set (uss_shares demo_shared). x \<in> set (uss_shares (user_shares_run [RemoveShare \<lparr>us_id = ''eve'', us_email = ''e@x''\<rparr> ''S''] demo_shared))"
proof -
  have "map (\<lambda>x. (sh_senderId x, sh_recipientId x)) (uss_shares demo_shared) = [(''a'', ''b'')]" by code_simp
  then obtain x where x: "x \<in> set (uss_shares demo_shared)" "sh_senderId x = ''a''" "sh_recipientId x = ''b''"
    by (auto simp: map_eq_Cons_conv)
  from user_share_removed_by_party [OF x(1), of "[RemoveShare \<lparr>us_id = ''eve'', us_email = ''e@x''\<rparr> ''S'']"] x
  show ?thesis by auto
qed

end
