(* ===== verification/Vault.thy ===== *)
theory Vault
  imports Schema
begin

text \<open>
  Vaults of items (\<^verbatim>\<open>apps/api/src/vault\<close>): the tables \<^verbatim>\<open>vaults\<close>, \<^verbatim>\<open>vault_items\<close> and
  \<^verbatim>\<open>vault_item_versions\<close>, the Postgres store over them (\<^verbatim>\<open>drizzle-vault.store.ts\<close>) and the
  handlers of \<^verbatim>\<open>vault.service.ts\<close>. Every write of an item is a compare-and-set on its
  revision that takes the vault's next change number and keeps the replaced content.
\<close>

section \<open>Tables\<close>

record vault_row =
  vt_id :: id
  vt_ownerId :: id
  vt_encryptedKey :: blob
  vt_encryptedMeta :: blob
  vt_seq :: nat
  vt_createdAt :: time

record vault_item_row =
  vi_vaultId :: id
  vi_id :: id
  vi_revision :: nat
  vi_seq :: nat
  vi_deleted :: bool
  vi_encryptedKey :: "blob option"
  vi_encryptedData :: "blob option"
  vi_updatedAt :: time

record vault_version_row =
  vv_vaultId :: id
  vv_itemId :: id
  vv_revision :: nat
  vv_encryptedKey :: blob
  vv_encryptedData :: blob
  vv_savedAt :: time

record vault_db =
  vaults :: "vault_row list"
  vault_items :: "vault_item_row list"
  vault_item_versions :: "vault_version_row list"

definition vi_key :: "vault_item_row \<Rightarrow> id \<times> id" where
  "vi_key r = (vi_vaultId r, vi_id r)"

definition vv_key :: "vault_version_row \<Rightarrow> id \<times> id \<times> nat" where
  "vv_key r = (vv_vaultId r, vv_itemId r, vv_revision r)"

section \<open>Wire records\<close>

record item_base =
  ib_id :: id
  ib_vaultId :: id
  ib_revision :: nat
  ib_seq :: nat
  ib_updatedAt :: time

datatype item_record =
    LiveItem (rec_base: item_base) (rec_encryptedKey: blob) (rec_encryptedData: blob)
  | DeletedItem (rec_base: item_base)

record item_version =
  iv_revision :: nat
  iv_savedAt :: time
  iv_encryptedKey :: blob
  iv_encryptedData :: blob

record trashed_item =
  ti_id :: id
  ti_revision :: nat
  ti_deletedAt :: time
  ti_lastVersion :: item_version

record item_write =
  iw_vaultId :: id
  iw_itemId :: id
  iw_baseRevision :: nat
  iw_blobs :: "(blob \<times> blob) option"
  iw_now :: time

datatype item_write_result = Written item_record | Rejected "item_record option"

definition toVersion :: "vault_version_row \<Rightarrow> item_version" where
  "toVersion r = \<lparr>iv_revision = vv_revision r, iv_savedAt = vv_savedAt r,
     iv_encryptedKey = vv_encryptedKey r, iv_encryptedData = vv_encryptedData r\<rparr>"

definition toItem :: "vault_item_row \<Rightarrow> item_record" where
  "toItem r =
     (let base = \<lparr>ib_id = vi_id r, ib_vaultId = vi_vaultId r, ib_revision = vi_revision r,
                  ib_seq = vi_seq r, ib_updatedAt = vi_updatedAt r\<rparr>
      in if vi_deleted r then DeletedItem base
         else case (vi_encryptedKey r, vi_encryptedData r) of
             (Some k, Some d) \<Rightarrow> LiveItem base k d
           | _ \<Rightarrow> DeletedItem base)"

definition rec_seq :: "item_record \<Rightarrow> nat" where
  "rec_seq r = ib_seq (rec_base r)"

section \<open>The store\<close>

definition insertVault :: "vault_row \<Rightarrow> vault_db \<Rightarrow> bool \<times> vault_db" where
  "insertVault v db = (case insert_new vt_id v (vaults db) of
     None \<Rightarrow> (False, db)
   | Some t \<Rightarrow> (True, db\<lparr>vaults := t\<rparr>))"

definition getVault :: "id \<Rightarrow> vault_db \<Rightarrow> vault_row option" where
  "getVault v db = find (\<lambda>r. vt_id r = v) (vaults db)"

definition listVaults :: "id \<Rightarrow> vault_db \<Rightarrow> vault_row list" where
  "listVaults owner db = sort_key vt_createdAt (filter (\<lambda>r. vt_ownerId r = owner) (vaults db))"

definition countItems :: "id \<Rightarrow> vault_db \<Rightarrow> nat" where
  "countItems v db = length (filter (\<lambda>r. vi_vaultId r = v) (vault_items db))"

definition find_item :: "id \<Rightarrow> id \<Rightarrow> vault_db \<Rightarrow> vault_item_row option" where
  "find_item v i db = find (\<lambda>r. vi_key r = (v, i)) (vault_items db)"

text \<open>
  The replaced content of a live item goes to the versions, and versions
  \<^verbatim>\<open>MAX_VERSIONS_PER_RECORD\<close> or more behind it go.
\<close>

definition keep_item_version :: "vault_item_row \<Rightarrow> blob \<Rightarrow> blob \<Rightarrow> vault_version_row list \<Rightarrow>
    vault_version_row list option" where
  "keep_item_version c k d t =
     map_option
       (delete_where (\<lambda>r. vv_vaultId r = vi_vaultId c \<and> vv_itemId r = vi_id c \<and>
          vv_revision r + MAX_VERSIONS_PER_RECORD \<le> vi_revision c))
       (insert_new vv_key
          \<lparr>vv_vaultId = vi_vaultId c, vv_itemId = vi_id c, vv_revision = vi_revision c,
           vv_encryptedKey = k, vv_encryptedData = d, vv_savedAt = vi_updatedAt c\<rparr> t)"

definition next_versions :: "vault_item_row option \<Rightarrow> vault_version_row list \<Rightarrow>
    vault_version_row list option" where
  "next_versions current t = (case current of
     None \<Rightarrow> Some t
   | Some c \<Rightarrow>
       (case (vi_deleted c, vi_encryptedKey c, vi_encryptedData c) of
          (False, Some k, Some d) \<Rightarrow> keep_item_version c k d t
        | _ \<Rightarrow> Some t))"

definition written_item :: "item_write \<Rightarrow> nat \<Rightarrow> vault_item_row" where
  "written_item w seq =
     \<lparr>vi_vaultId = iw_vaultId w, vi_id = iw_itemId w, vi_revision = iw_baseRevision w + 1,
      vi_seq = seq, vi_deleted = (iw_blobs w = None),
      vi_encryptedKey = map_option fst (iw_blobs w),
      vi_encryptedData = map_option snd (iw_blobs w), vi_updatedAt = iw_now w\<rparr>"

text \<open>
  One transaction. The vault row is locked, so writes of one vault run one after another; the
  plain insert of a version is under a primary key, so a second row for the same revision
  would abort the transaction.
\<close>

definition putItem :: "item_write \<Rightarrow> vault_db \<Rightarrow>
    (http_error, item_write_result, vault_db) outcome" where
  "putItem w db = transact db
     (case getVault (iw_vaultId w) db of
        None \<Rightarrow> ret (Rejected None) db
      | Some vault \<Rightarrow>
        (let current = find_item (iw_vaultId w) (iw_itemId w) db in
         if (case current of None \<Rightarrow> 0 | Some c \<Rightarrow> vi_revision c) \<noteq> iw_baseRevision w
         then ret (Rejected (map_option toItem current)) db
         else
           let seq = vt_seq vault + 1;
               vaults' = update_where (\<lambda>v. vt_id v = iw_vaultId w) (\<lambda>v. v\<lparr>vt_seq := seq\<rparr>) (vaults db);
               row = written_item w seq
           in case next_versions current (vault_item_versions db) of
                None \<Rightarrow> throw (DbError ''vault_item_versions'') db
              | Some vs \<Rightarrow>
                  ret (Written (toItem row))
                    (db\<lparr>vaults := vaults', vault_item_versions := vs,
                        vault_items := upsert vi_key row (\<lambda>_. row) (vault_items db)\<rparr>)))"

definition listChanges :: "id \<Rightarrow> vault_db \<Rightarrow> nat \<Rightarrow> nat \<Rightarrow> item_record list" where
  "listChanges v db since n =
     map toItem (take n (sort_key vi_seq
       (filter (\<lambda>r. vi_vaultId r = v \<and> since < vi_seq r) (vault_items db))))"

definition listVersions :: "id \<Rightarrow> id \<Rightarrow> vault_db \<Rightarrow> item_version list" where
  "listVersions v i db = map toVersion
     (sort_key (\<lambda>r. - int (vv_revision r))
       (filter (\<lambda>r. vv_vaultId r = v \<and> vv_itemId r = i) (vault_item_versions db)))"

text \<open>
  \<^verbatim>\<open>listTrash\<close>: \<^verbatim>\<open>selectDistinctOn\<close> by item id over the join with its versions, ordered by
  revision descending, keeps each item's newest version; then newest deletion first.
\<close>

definition last_version :: "id \<Rightarrow> id \<Rightarrow> vault_db \<Rightarrow> item_version option" where
  "last_version v i db = (case listVersions v i db of [] \<Rightarrow> None | x # _ \<Rightarrow> Some x)"

definition listTrash :: "id \<Rightarrow> time \<Rightarrow> vault_db \<Rightarrow> trashed_item list" where
  "listTrash v since db =
     sort_key (\<lambda>t. - ti_deletedAt t)
       (List.map_filter (\<lambda>r. map_option
            (\<lambda>x. \<lparr>ti_id = vi_id r, ti_revision = vi_revision r, ti_deletedAt = vi_updatedAt r,
                  ti_lastVersion = x\<rparr>)
            (last_version v (vi_id r) db))
          (sort_key vi_id
             (filter (\<lambda>r. vi_vaultId r = v \<and> vi_deleted r \<and> since \<le> vi_updatedAt r)
               (vault_items db))))"

definition purged_items :: "id \<Rightarrow> id option \<Rightarrow> time \<Rightarrow> vault_db \<Rightarrow> id list" where
  "purged_items v item before db =
     map vi_id (filter (\<lambda>r. vi_vaultId r = v \<and> vi_deleted r \<and>
       (case item of None \<Rightarrow> vi_updatedAt r < before | Some i \<Rightarrow> vi_id r = i)) (vault_items db))"

definition purgeTrash :: "id \<Rightarrow> id option \<Rightarrow> time \<Rightarrow> vault_db \<Rightarrow> nat \<times> vault_db" where
  "purgeTrash v item before db =
     (let deleted = purged_items v item before db;
          goes = (\<lambda>r. vv_vaultId r = v \<and> vv_itemId r \<in> set deleted)
      in if deleted = [] then (0, db)
         else (length (remdups (map vv_itemId (filter goes (vault_item_versions db)))),
               db\<lparr>vault_item_versions := delete_where goes (vault_item_versions db)\<rparr>))"

definition purgeExpired :: "time \<Rightarrow> vault_db \<Rightarrow> vault_db" where
  "purgeExpired before db =
     db\<lparr>vault_item_versions := delete_where
       (\<lambda>r. \<exists>i \<in> set (vault_items db). vi_vaultId i = vv_vaultId r \<and> vi_id i = vv_itemId r \<and>
          vi_deleted i \<and> vi_updatedAt i < before)
       (vault_item_versions db)\<rparr>"

section \<open>The service\<close>

definition MAX_ITEMS_PER_VAULT :: nat where
  "MAX_ITEMS_PER_VAULT = 10000"

datatype vault_error = VHttp http_error | VConflict item_record

record create_vault_request =
  cv_id :: id
  cv_encryptedKey :: blob
  cv_encryptedMeta :: blob

record put_item_request =
  pi_baseRevision :: nat
  pi_encryptedKey :: blob
  pi_encryptedData :: blob

definition createVault :: "id \<Rightarrow> create_vault_request \<Rightarrow> time \<Rightarrow> vault_db \<Rightarrow>
    (vault_error, vault_row, vault_db) outcome" where
  "createVault user req now db =
     (if bl_kid (cv_encryptedKey req) \<noteq> ACCOUNT_KID \<or> bl_kid (cv_encryptedMeta req) \<noteq> cv_id req
      then throw (VHttp (BadRequest ''key_mismatch'')) db
      else
        let vault = \<lparr>vt_id = cv_id req, vt_ownerId = user, vt_encryptedKey = cv_encryptedKey req,
                     vt_encryptedMeta = cv_encryptedMeta req, vt_seq = 0, vt_createdAt = now\<rparr>
        in case insertVault vault db of
             (False, db') \<Rightarrow> throw (VHttp (Conflict ''vault_exists'')) db'
           | (True, db') \<Rightarrow> ret vault db')"

text \<open>Other accounts' vaults answer 404, so ids cannot be probed.\<close>

definition assertAccess :: "id \<Rightarrow> id \<Rightarrow> vault_db \<Rightarrow> (vault_error, unit, vault_db) outcome" where
  "assertAccess user v db =
     (if map_option vt_ownerId (getVault v db) \<noteq> Some user then throw (VHttp (NotFound '''')) db
      else ret () db)"

definition vault_write :: "item_write \<Rightarrow> vault_db \<Rightarrow> (vault_error, item_record, vault_db) outcome" where
  "vault_write w db = (case putItem w db of
     (Inl e, db') \<Rightarrow> throw (VHttp e) db'
   | (Inr (Written item), db') \<Rightarrow> ret item db'
   | (Inr (Rejected None), db') \<Rightarrow> throw (VHttp (NotFound '''')) db'
   | (Inr (Rejected (Some current)), db') \<Rightarrow> throw (VConflict current) db')"

definition service_putItem :: "id \<Rightarrow> id \<Rightarrow> id \<Rightarrow> put_item_request \<Rightarrow> time \<Rightarrow> vault_db \<Rightarrow>
    (vault_error, item_record, vault_db) outcome" where
  "service_putItem user v i req now db =
     and_then (assertAccess user v db) (\<lambda>_ db.
       if bl_kid (pi_encryptedKey req) \<noteq> v \<or> bl_kid (pi_encryptedData req) \<noteq> i
       then throw (VHttp (BadRequest ''key_mismatch'')) db
       else if pi_baseRevision req = 0 \<and> MAX_ITEMS_PER_VAULT \<le> countItems v db
       then throw (VHttp (BadRequest ''vault_full'')) db
       else vault_write \<lparr>iw_vaultId = v, iw_itemId = i, iw_baseRevision = pi_baseRevision req,
              iw_blobs = Some (pi_encryptedKey req, pi_encryptedData req), iw_now = now\<rparr> db)"

definition service_deleteItem :: "id \<Rightarrow> id \<Rightarrow> id \<Rightarrow> nat \<Rightarrow> time \<Rightarrow> vault_db \<Rightarrow>
    (vault_error, item_record, vault_db) outcome" where
  "service_deleteItem user v i baseRevision now db =
     and_then (assertAccess user v db) (\<lambda>_ db.
       vault_write \<lparr>iw_vaultId = v, iw_itemId = i, iw_baseRevision = baseRevision,
              iw_blobs = None, iw_now = now\<rparr> db)"

definition service_sync :: "id \<Rightarrow> id \<Rightarrow> nat \<Rightarrow> nat \<Rightarrow> vault_db \<Rightarrow>
    (vault_error, item_record sync_page, vault_db) outcome" where
  "service_sync user v since limit db =
     and_then (assertAccess user v db) (\<lambda>_ db.
       ret (sync_page_of rec_seq since limit (listChanges v db since (limit + 1))) db)"

definition service_history :: "id \<Rightarrow> id \<Rightarrow> id \<Rightarrow> vault_db \<Rightarrow>
    (vault_error, item_version list, vault_db) outcome" where
  "service_history user v i db =
     and_then (assertAccess user v db) (\<lambda>_ db. ret (listVersions v i db) db)"

text \<open>Each trashed item with the time it is purged.\<close>

definition service_trash :: "id \<Rightarrow> id \<Rightarrow> time \<Rightarrow> vault_db \<Rightarrow>
    (vault_error, (trashed_item \<times> time) list, vault_db) outcome" where
  "service_trash user v now db =
     and_then (assertAccess user v db) (\<lambda>_ db.
       ret (map (\<lambda>t. (t, purgeAt (ti_deletedAt t))) (listTrash v (trashCutoff now) db)) db)"

definition service_purge :: "id \<Rightarrow> id \<Rightarrow> id option \<Rightarrow> time \<Rightarrow> vault_db \<Rightarrow>
    (vault_error, unit, vault_db) outcome" where
  "service_purge user v item now db =
     and_then (assertAccess user v db) (\<lambda>_ db.
       case purgeTrash v item now db of (purged, db') \<Rightarrow>
         if item \<noteq> None \<and> purged = 0 then throw (VHttp (NotFound '''')) db' else ret () db')"

section \<open>Well-formed tables\<close>

definition versions_of :: "id \<times> id \<Rightarrow> vault_db \<Rightarrow> vault_version_row list" where
  "versions_of k db = filter (\<lambda>x. (vv_vaultId x, vv_itemId x) = k) (vault_item_versions db)"

definition vault_keys_ok :: "vault_db \<Rightarrow> bool" where
  "vault_keys_ok db \<longleftrightarrow> unique_by vt_id (vaults db) \<and> unique_by vi_key (vault_items db) \<and>
     unique_by vv_key (vault_item_versions db)"

text \<open>
  A row is a live item with both blobs or a tombstone with none; its change number is one its
  vault has handed out; no two items of a vault share one.
\<close>

definition item_ok :: "vault_db \<Rightarrow> vault_item_row \<Rightarrow> bool" where
  "item_ok db r \<longleftrightarrow> 1 \<le> vi_revision r \<and> 1 \<le> vi_seq r \<and>
     (\<exists>v \<in> set (vaults db). vt_id v = vi_vaultId r \<and> vi_seq r \<le> vt_seq v) \<and>
     (if vi_deleted r then vi_encryptedKey r = None \<and> vi_encryptedData r = None
      else vi_encryptedKey r \<noteq> None \<and> vi_encryptedData r \<noteq> None) \<and>
     (\<forall>r' \<in> set (vault_items db). vi_vaultId r' = vi_vaultId r \<and> vi_seq r' = vi_seq r \<longrightarrow> r' = r)"

definition version_ok :: "vault_db \<Rightarrow> vault_version_row \<Rightarrow> bool" where
  "version_ok db x \<longleftrightarrow> length (versions_of (vv_vaultId x, vv_itemId x) db) \<le> MAX_VERSIONS_PER_RECORD \<and>
     (\<exists>r \<in> set (vault_items db). vi_key r = (vv_vaultId x, vv_itemId x) \<and> vv_revision x < vi_revision r)"

definition vault_wf :: "vault_db \<Rightarrow> bool" where
  "vault_wf db \<longleftrightarrow> vault_keys_ok db \<and> (\<forall>r \<in> set (vault_items db). item_ok db r) \<and>
     (\<forall>x \<in> set (vault_item_versions db). version_ok db x)"

lemma vault_wfD:
  assumes "vault_wf db"
  shows "unique_by vt_id (vaults db)" "unique_by vi_key (vault_items db)"
    "unique_by vv_key (vault_item_versions db)"
    "r \<in> set (vault_items db) \<Longrightarrow> item_ok db r"
    "x \<in> set (vault_item_versions db) \<Longrightarrow> version_ok db x"
  using assms by (auto simp: vault_wf_def vault_keys_ok_def)

lemma find_item_Some:
  "vault_wf db \<Longrightarrow> find_item v i db = Some r \<longleftrightarrow> r \<in> set (vault_items db) \<and> vi_key r = (v, i)"
  using find_Some_iff_unique [of vi_key "vault_items db" "(v, i)" r]
  by (simp add: find_item_def vault_wf_def vault_keys_ok_def)

lemma getVault_Some:
  "vault_wf db \<Longrightarrow> getVault v db = Some r \<longleftrightarrow> r \<in> set (vaults db) \<and> vt_id r = v"
  using find_Some_iff_unique [of vt_id "vaults db" v r]
  by (simp add: getVault_def vault_wf_def vault_keys_ok_def)

lemma no_version_of_current:
  assumes "vault_wf db" and "find_item v i db = Some c"
  shows "(v, i, vi_revision c) \<notin> vv_key ` set (vault_item_versions db)"
proof
  assume "(v, i, vi_revision c) \<in> vv_key ` set (vault_item_versions db)"
  then obtain x where x: "x \<in> set (vault_item_versions db)" "vv_vaultId x = v" "vv_itemId x = i"
      "vv_revision x = vi_revision c"
    by (auto simp: vv_key_def)
  from vault_wfD(5) [OF assms(1) x(1)] x obtain r where
      r: "r \<in> set (vault_items db)" "vi_key r = (v, i)" "vi_revision c < vi_revision r"
    by (auto simp: version_ok_def)
  have "c = r"
    using assms r(1,2) by (auto simp: find_item_Some intro: unique_byD [OF vault_wfD(2)])
  with r(3) show False by simp
qed

text \<open>The version a write keeps: none, or the live content it replaces.\<close>

definition kept_version :: "vault_item_row \<Rightarrow> vault_version_row \<Rightarrow> bool" where
  "kept_version c x \<longleftrightarrow> \<not> vi_deleted c \<and> vv_vaultId x = vi_vaultId c \<and> vv_itemId x = vi_id c \<and>
     vv_revision x = vi_revision c \<and> Some (vv_encryptedKey x) = vi_encryptedKey c \<and>
     Some (vv_encryptedData x) = vi_encryptedData c \<and> vv_savedAt x = vi_updatedAt c"

lemma next_versions_cases:
  assumes "vault_wf db" and "find_item v i db = current"
  obtains (same) "next_versions current (vault_item_versions db) = Some (vault_item_versions db)"
      "\<And>c. current = Some c \<Longrightarrow> vi_deleted c"
    | (keep) c x where "current = Some c" "kept_version c x" "\<not> vi_deleted c"
      "vv_key x \<notin> vv_key ` set (vault_item_versions db)"
      "next_versions current (vault_item_versions db) = Some (delete_where
         (\<lambda>r. vv_vaultId r = v \<and> vv_itemId r = i \<and>
            vv_revision r + MAX_VERSIONS_PER_RECORD \<le> vi_revision c)
         (vault_item_versions db @ [x]))"
proof (cases current)
  case None
  then show ?thesis using same by (simp add: next_versions_def)
next
  case (Some c)
  with assms have c: "c \<in> set (vault_items db)" "vi_vaultId c = v" "vi_id c = i"
    by (auto simp: find_item_Some vi_key_def)
  show ?thesis
  proof (cases "vi_deleted c")
    case True
    then show ?thesis using same Some by (simp add: next_versions_def)
  next
    case False
    then obtain k d where kd: "vi_encryptedKey c = Some k" "vi_encryptedData c = Some d"
      using vault_wfD(4) [OF assms(1) c(1)] by (auto simp: item_ok_def)
    let ?x = "\<lparr>vv_vaultId = v, vv_itemId = i, vv_revision = vi_revision c,
      vv_encryptedKey = k, vv_encryptedData = d, vv_savedAt = vi_updatedAt c\<rparr>"
    have new: "vv_key ?x \<notin> vv_key ` set (vault_item_versions db)"
      using no_version_of_current [OF assms(1)] assms(2) Some by (simp add: vv_key_def)
    show ?thesis
      by (rule keep [of c ?x])
        (use Some False kd c new in
          \<open>simp_all add: kept_version_def next_versions_def keep_item_version_def insert_new_def\<close>)
  qed
qed

lemma next_versions_total:
  assumes "vault_wf db"
  shows "\<exists>vs. next_versions (find_item v i db) (vault_item_versions db) = Some vs"
  by (rule next_versions_cases [OF assms refl, of v i]) auto

text \<open>A write either changes nothing or is the whole update.\<close>

lemma putItem_cases:
  assumes "vault_wf db"
  obtains (rejected) r where "putItem w db = (Inr (Rejected r), db)"
      "r = (if getVault (iw_vaultId w) db = None then None
            else map_option toItem (find_item (iw_vaultId w) (iw_itemId w) db))"
      "getVault (iw_vaultId w) db \<noteq> None \<Longrightarrow>
         (case find_item (iw_vaultId w) (iw_itemId w) db of None \<Rightarrow> 0 | Some c \<Rightarrow> vi_revision c)
           \<noteq> iw_baseRevision w"
    | (written) vault vs where "getVault (iw_vaultId w) db = Some vault"
      "(case find_item (iw_vaultId w) (iw_itemId w) db of None \<Rightarrow> 0 | Some c \<Rightarrow> vi_revision c)
         = iw_baseRevision w"
      "next_versions (find_item (iw_vaultId w) (iw_itemId w) db) (vault_item_versions db) = Some vs"
      "putItem w db = (Inr (Written (toItem (written_item w (vt_seq vault + 1)))),
         db\<lparr>vaults := update_where (\<lambda>v. vt_id v = iw_vaultId w)
                (\<lambda>v. v\<lparr>vt_seq := vt_seq vault + 1\<rparr>) (vaults db),
            vault_item_versions := vs,
            vault_items := upsert vi_key (written_item w (vt_seq vault + 1))
              (\<lambda>_. written_item w (vt_seq vault + 1)) (vault_items db)\<rparr>)"
proof (cases "getVault (iw_vaultId w) db")
  case None
  then show ?thesis using rejected [of None] by (simp add: putItem_def ret_def transact_def)
next
  case (Some vault)
  let ?c = "find_item (iw_vaultId w) (iw_itemId w) db"
  obtain vs where vs: "next_versions ?c (vault_item_versions db) = Some vs"
    using next_versions_total [OF assms] by blast
  show ?thesis
  proof (cases "(case ?c of None \<Rightarrow> 0 | Some c \<Rightarrow> vi_revision c) = iw_baseRevision w")
    case True
    then show ?thesis
      by (intro written [OF Some True vs])
        (use Some vs in \<open>simp add: putItem_def ret_def transact_def Let_def\<close>)
  next
    case False
    then show ?thesis
      using Some rejected [of "map_option toItem ?c"]
      by (simp add: putItem_def ret_def transact_def Let_def)
  qed
qed

lemma next_versions_unique:
  assumes "vault_wf db" and "next_versions (find_item v i db) (vault_item_versions db) = Some vs"
  shows "unique_by vv_key vs"
  by (rule next_versions_cases [OF assms(1) refl, of v i])
    (use assms(2) vault_wfD(3) [OF assms(1)] in \<open>auto simp: unique_by_delete_where unique_by_snoc\<close>)

lemma next_versions_sources:
  assumes "vault_wf db" and "next_versions (find_item v i db) (vault_item_versions db) = Some vs"
    and "x \<in> set vs"
  shows "x \<in> set (vault_item_versions db) \<or> (\<exists>c. find_item v i db = Some c \<and> kept_version c x)"
  by (rule next_versions_cases [OF assms(1) refl, of v i]) (use assms(2,3) in auto)

lemma kept_version_key:
  "vault_wf db \<Longrightarrow> find_item v i db = Some c \<Longrightarrow> kept_version c x \<Longrightarrow>
     (vv_vaultId x, vv_itemId x) = (v, i)"
  by (auto simp: find_item_Some kept_version_def vi_key_def)

lemma next_versions_other:
  assumes "vault_wf db" and "next_versions (find_item v i db) (vault_item_versions db) = Some vs"
    and "k \<noteq> (v, i)"
  shows "filter (\<lambda>x. (vv_vaultId x, vv_itemId x) = k) vs = versions_of k db"
proof (rule next_versions_cases [OF assms(1) refl, of v i])
  assume "next_versions (find_item v i db) (vault_item_versions db) = Some (vault_item_versions db)"
  then show ?thesis using assms(2) by (simp add: versions_of_def)
next
  fix c :: vault_item_row and x
  let ?t = "delete_where (\<lambda>r. vv_vaultId r = v \<and> vv_itemId r = i \<and>
     vv_revision r + MAX_VERSIONS_PER_RECORD \<le> vi_revision c) (vault_item_versions db @ [x])"
  assume c: "find_item v i db = Some c" and x: "kept_version c x"
    and "next_versions (find_item v i db) (vault_item_versions db) = Some ?t"
  then have "vs = ?t" using assms(2) by simp
  moreover have "(vv_vaultId x, vv_itemId x) = (v, i)" using assms(1) c x by (rule kept_version_key)
  ultimately show ?thesis
    using assms(3) by (auto simp: delete_where_def versions_of_def intro: filter_cong)
qed

text \<open>Versions of an item are older than its row.\<close>

lemma version_older:
  assumes "vault_wf db" and "find_item v i db = Some c"
    and "y \<in> set (vault_item_versions db)" and "(vv_vaultId y, vv_itemId y) = (v, i)"
  shows "vv_revision y < vi_revision c"
proof -
  from vault_wfD(5) [OF assms(1,3)] assms(4) obtain r where
      r: "r \<in> set (vault_items db)" "vi_key r = (v, i)" "vv_revision y < vi_revision r"
    by (auto simp: version_ok_def)
  moreover have "r = c"
    using assms(1,2) r(1,2) by (intro unique_byD [OF vault_wfD(2)]) (auto simp: find_item_Some)
  ultimately show ?thesis by simp
qed

lemma versions_bound:
  "vault_wf db \<Longrightarrow> length (versions_of k db) \<le> MAX_VERSIONS_PER_RECORD"
proof (cases "versions_of k db")
  case (Cons x xs)
  assume wf: "vault_wf db"
  from Cons have "x \<in> set (versions_of k db)" by simp
  then have "x \<in> set (vault_item_versions db)" "(vv_vaultId x, vv_itemId x) = k"
    by (auto simp: versions_of_def)
  with vault_wfD(5) [OF wf] show ?thesis by (auto simp: version_ok_def)
qed simp

lemma next_versions_bound:
  assumes wf: "vault_wf db"
    and nv: "next_versions (find_item v i db) (vault_item_versions db) = Some vs"
  shows "length (filter (\<lambda>x. (vv_vaultId x, vv_itemId x) = (v, i)) vs) \<le> MAX_VERSIONS_PER_RECORD"
proof (rule next_versions_cases [OF wf refl, of v i])
  assume "next_versions (find_item v i db) (vault_item_versions db) = Some (vault_item_versions db)"
  then show ?thesis using nv versions_bound [OF wf, of "(v, i)"] by (simp add: versions_of_def)
next
  fix c :: vault_item_row and x
  let ?t = "delete_where (\<lambda>r. vv_vaultId r = v \<and> vv_itemId r = i \<and>
     vv_revision r + MAX_VERSIONS_PER_RECORD \<le> vi_revision c) (vault_item_versions db @ [x])"
  assume c: "find_item v i db = Some c" and x: "kept_version c x"
    and "next_versions (find_item v i db) (vault_item_versions db) = Some ?t"
  then have vs: "vs = ?t" using nv by simp
  let ?f = "filter (\<lambda>y. (vv_vaultId y, vv_itemId y) = (v, i)) vs"
  have u: "unique_by vv_key vs" using wf nv by (rule next_versions_unique)
  have "inj_on vv_revision (set ?f)"
    by (auto simp: inj_on_def vv_key_def intro!: unique_byD [OF u])
  moreover have "distinct ?f" using u by (simp add: unique_by_def distinct_map)
  ultimately have "distinct (map vv_revision ?f)" by (simp add: distinct_map)
  moreover have "vv_revision y \<le> vi_revision c \<and> vi_revision c < vv_revision y + MAX_VERSIONS_PER_RECORD"
    if "y \<in> set ?f" for y
  proof -
    from that vs have "y \<in> set (vault_item_versions db) \<or> y = x"
      and "(vv_vaultId y, vv_itemId y) = (v, i)"
      and "\<not> vv_revision y + MAX_VERSIONS_PER_RECORD \<le> vi_revision c" by auto
    then show ?thesis
      using version_older [OF wf c, of y] x by (auto simp: kept_version_def)
  qed
  ultimately show ?thesis by (rule length_le_window)
qed

section \<open>Writes keep the tables well-formed\<close>

lemma written_item_simps [simp]:
  "vi_key (written_item w n) = (iw_vaultId w, iw_itemId w)"
  "vi_vaultId (written_item w n) = iw_vaultId w" "vi_id (written_item w n) = iw_itemId w"
  "vi_seq (written_item w n) = n" "vi_revision (written_item w n) = iw_baseRevision w + 1"
  "vi_deleted (written_item w n) \<longleftrightarrow> iw_blobs w = None"
  "vi_encryptedKey (written_item w n) = map_option fst (iw_blobs w)"
  "vi_encryptedData (written_item w n) = map_option snd (iw_blobs w)"
  "vi_updatedAt (written_item w n) = iw_now w"
  by (simp_all add: written_item_def vi_key_def)

definition after_write :: "item_write \<Rightarrow> nat \<Rightarrow> vault_version_row list \<Rightarrow> vault_db \<Rightarrow> vault_db" where
  "after_write w n vs db = db\<lparr>vaults := update_where (\<lambda>v. vt_id v = iw_vaultId w)
      (\<lambda>v. v\<lparr>vt_seq := n\<rparr>) (vaults db), vault_item_versions := vs,
      vault_items := upsert vi_key (written_item w n) (\<lambda>_. written_item w n) (vault_items db)\<rparr>"

lemma after_write_items:
  "set (vault_items (after_write w n vs db)) =
     insert (written_item w n) {r \<in> set (vault_items db). vi_key r \<noteq> (iw_vaultId w, iw_itemId w)}"
  by (simp add: after_write_def set_upsert_const)

lemma item_ok_after_write:
  assumes wf: "vault_wf db" and v: "getVault (iw_vaultId w) db = Some vault"
    and r: "r \<in> set (vault_items (after_write w (vt_seq vault + 1) vs db))"
  shows "item_ok (after_write w (vt_seq vault + 1) vs db) r"
proof -
  let ?n = "vt_seq vault + 1"
  let ?db = "after_write w ?n vs db"
  have vin: "vault \<in> set (vaults db)" "vt_id vault = iw_vaultId w"
    using v wf by (simp_all add: getVault_Some)
  have vaults: "set (vaults ?db) =
      {if vt_id x = iw_vaultId w then x\<lparr>vt_seq := ?n\<rparr> else x |x. x \<in> set (vaults db)}"
    by (simp add: after_write_def set_update_where)
  have new_vault: "vault\<lparr>vt_seq := ?n\<rparr> \<in> set (vaults ?db)"
    using vin unfolding vaults by force
  have old: "vi_seq x < ?n" if "x \<in> set (vault_items db)" "vi_vaultId x = iw_vaultId w" for x
  proof -
    from vault_wfD(4) [OF wf that(1)] that(2) obtain y where
        y: "y \<in> set (vaults db)" "vt_id y = iw_vaultId w" "vi_seq x \<le> vt_seq y"
      by (auto simp: item_ok_def)
    have "y = vault" using y vin by (intro unique_byD [OF vault_wfD(1) [OF wf]]) auto
    with y(3) show ?thesis by simp
  qed
  show ?thesis
  proof (cases "r = written_item w ?n")
    case True
    have "\<exists>x \<in> set (vaults ?db). vt_id x = iw_vaultId w \<and> ?n \<le> vt_seq x"
      using new_vault vin(2) by (intro bexI [of _ "vault\<lparr>vt_seq := ?n\<rparr>"]) auto
    with True old show ?thesis by (fastforce simp: item_ok_def after_write_items)
  next
    case False
    with r have rin: "r \<in> set (vault_items db)" by (simp add: after_write_items)
    from vault_wfD(4) [OF wf rin] obtain y where
        y: "y \<in> set (vaults db)" "vt_id y = vi_vaultId r" "vi_seq r \<le> vt_seq y"
      by (auto simp: item_ok_def)
    have "\<exists>x \<in> set (vaults ?db). vt_id x = vi_vaultId r \<and> vi_seq r \<le> vt_seq x"
    proof (cases "vi_vaultId r = iw_vaultId w")
      case True
      with old [OF rin] new_vault vin(2) show ?thesis
        by (intro bexI [of _ "vault\<lparr>vt_seq := ?n\<rparr>"]) auto
    next
      case False
      then have "y \<in> set (vaults ?db)" using y unfolding vaults by (intro CollectI exI [of _ y]) auto
      with y show ?thesis by blast
    qed
    with vault_wfD(4) [OF wf rin] old [OF rin] show ?thesis
      by (auto simp: item_ok_def after_write_items)
  qed
qed

lemma version_ok_after_write:
  assumes wf: "vault_wf db"
    and rev: "(case find_item (iw_vaultId w) (iw_itemId w) db of None \<Rightarrow> 0 | Some c \<Rightarrow> vi_revision c)
      = iw_baseRevision w"
    and nv: "next_versions (find_item (iw_vaultId w) (iw_itemId w) db) (vault_item_versions db) = Some vs"
    and x: "x \<in> set vs"
  shows "version_ok (after_write w n vs db) x"
proof -
  let ?k = "(iw_vaultId w, iw_itemId w)"
  have "length (filter (\<lambda>y. (vv_vaultId y, vv_itemId y) = (vv_vaultId x, vv_itemId x)) vs)
      \<le> MAX_VERSIONS_PER_RECORD"
    using next_versions_bound [OF wf nv] next_versions_other [OF wf nv] versions_bound [OF wf]
    by (cases "(vv_vaultId x, vv_itemId x) = ?k") auto
  moreover have "\<exists>r \<in> set (vault_items (after_write w n vs db)).
      vi_key r = (vv_vaultId x, vv_itemId x) \<and> vv_revision x < vi_revision r"
  proof (cases "(vv_vaultId x, vv_itemId x) = ?k")
    case True
    have "vv_revision x \<le> iw_baseRevision w"
      using next_versions_sources [OF wf nv x]
    proof
      assume xin: "x \<in> set (vault_item_versions db)"
      from vault_wfD(5) [OF wf xin] True obtain r where
          "r \<in> set (vault_items db)" "vi_key r = ?k" "vv_revision x < vi_revision r"
        by (auto simp: version_ok_def)
      then have "find_item (iw_vaultId w) (iw_itemId w) db = Some r"
        using wf by (simp add: find_item_Some)
      with rev \<open>vv_revision x < vi_revision r\<close> show ?thesis by simp
    qed (use rev in \<open>auto simp: kept_version_def\<close>)
    with True show ?thesis by (auto simp: after_write_items)
  next
    case False
    then have xin: "x \<in> set (vault_item_versions db)"
      using next_versions_sources [OF wf nv x] kept_version_key [OF wf] by blast
    from vault_wfD(5) [OF wf xin] False show ?thesis
      by (auto simp: version_ok_def after_write_items)
  qed
  ultimately show ?thesis by (simp add: version_ok_def versions_of_def after_write_def)
qed

lemma vault_wf_after_write:
  assumes wf: "vault_wf db" and v: "getVault (iw_vaultId w) db = Some vault"
    and rev: "(case find_item (iw_vaultId w) (iw_itemId w) db of None \<Rightarrow> 0 | Some c \<Rightarrow> vi_revision c)
      = iw_baseRevision w"
    and nv: "next_versions (find_item (iw_vaultId w) (iw_itemId w) db) (vault_item_versions db) = Some vs"
  shows "vault_wf (after_write w (vt_seq vault + 1) vs db)"
proof -
  have "vault_keys_ok (after_write w (vt_seq vault + 1) vs db)"
    using vault_wfD(1,2) [OF wf] next_versions_unique [OF wf nv]
    by (simp add: vault_keys_ok_def after_write_def unique_by_upsert_const unique_by_update_where)
  moreover have "version_ok (after_write w (vt_seq vault + 1) vs db) x"
    if "x \<in> set (vault_item_versions (after_write w (vt_seq vault + 1) vs db))" for x
    using version_ok_after_write [OF wf rev nv] that by (simp add: after_write_def)
  ultimately show ?thesis
    using item_ok_after_write [OF wf v] by (simp add: vault_wf_def)
qed

lemma putItem_wf:
  assumes "vault_wf db"
  shows "vault_wf (snd (putItem w db))"
proof (rule putItem_cases [OF assms, of w])
  fix vault vs
  assume v: "getVault (iw_vaultId w) db = Some vault"
    and rev: "(case find_item (iw_vaultId w) (iw_itemId w) db of None \<Rightarrow> 0 | Some c \<Rightarrow> vi_revision c)
      = iw_baseRevision w"
    and nv: "next_versions (find_item (iw_vaultId w) (iw_itemId w) db) (vault_item_versions db) = Some vs"
    and eq: "putItem w db = (Inr (Written (toItem (written_item w (vt_seq vault + 1)))),
         db\<lparr>vaults := update_where (\<lambda>v. vt_id v = iw_vaultId w)
                (\<lambda>v. v\<lparr>vt_seq := vt_seq vault + 1\<rparr>) (vaults db),
            vault_item_versions := vs,
            vault_items := upsert vi_key (written_item w (vt_seq vault + 1))
              (\<lambda>_. written_item w (vt_seq vault + 1)) (vault_items db)\<rparr>)"
  show ?thesis
    using vault_wf_after_write [OF assms v rev nv] unfolding eq by (simp add: after_write_def)
qed (use assms in simp)

lemma putItem_no_db_error:
  assumes "vault_wf db"
  shows "fst (putItem w db) \<noteq> Inl e"
  by (rule putItem_cases [OF assms, of w]) auto

section \<open>The handlers as a machine\<close>

text \<open>Every request that can change the tables, with the caller and the time it runs at.\<close>

datatype vault_op =
    CreateVault id create_vault_request time
  | PutItem id id id put_item_request time
  | DeleteItem id id id nat time
  | Purge id id "id option" time
  | Sweep time

definition empty_vault_db :: vault_db where
  "empty_vault_db = \<lparr>vaults = [], vault_items = [], vault_item_versions = []\<rparr>"

fun vault_step :: "vault_op \<Rightarrow> vault_db \<Rightarrow> vault_db" where
  "vault_step (CreateVault u req now) db = snd (createVault u req now db)"
| "vault_step (PutItem u v i req now) db = snd (service_putItem u v i req now db)"
| "vault_step (DeleteItem u v i base now) db = snd (service_deleteItem u v i base now db)"
| "vault_step (Purge u v item now) db = snd (service_purge u v item now db)"
| "vault_step (Sweep now) db = purgeExpired (trashCutoff now) db"

definition vault_run :: "vault_op list \<Rightarrow> vault_db \<Rightarrow> vault_db" where
  "vault_run ops db = fold vault_step ops db"

lemma vault_wf_empty: "vault_wf empty_vault_db"
  by (simp add: vault_wf_def vault_keys_ok_def empty_vault_db_def)

lemma vault_wf_insert:
  assumes "vault_wf db" and "insert_new vt_id v (vaults db) = Some t"
  shows "vault_wf (db\<lparr>vaults := t\<rparr>)"
proof -
  have t: "set t = insert v (set (vaults db))" using assms(2) by (auto simp: insert_new_Some)
  have "item_ok (db\<lparr>vaults := t\<rparr>) r" if "item_ok db r" for r
    using that t by (auto simp: item_ok_def)
  moreover have "version_ok (db\<lparr>vaults := t\<rparr>) x = version_ok db x" for x
    by (simp add: version_ok_def versions_of_def)
  ultimately show ?thesis
    using assms by (auto simp: vault_wf_def vault_keys_ok_def intro: unique_by_insert_new)
qed

lemma vault_wf_drop_versions:
  assumes "vault_wf db"
  shows "vault_wf (db\<lparr>vault_item_versions := delete_where p (vault_item_versions db)\<rparr>)"
proof -
  let ?db = "db\<lparr>vault_item_versions := delete_where p (vault_item_versions db)\<rparr>"
  have len: "length (versions_of k ?db) \<le> length (versions_of k db)" for k
    by (simp add: versions_of_def length_filter_delete_where)
  have "item_ok ?db r = item_ok db r" for r by (simp add: item_ok_def)
  moreover have "version_ok ?db x" if "version_ok db x" for x
    using that len [of "(vv_vaultId x, vv_itemId x)"] by (auto simp: version_ok_def)
  ultimately show ?thesis
    using assms by (auto simp: vault_wf_def vault_keys_ok_def unique_by_delete_where)
qed

lemma snd_vault_write: "snd (vault_write w db) = snd (putItem w db)"
  by (auto simp: vault_write_def split: prod.splits sum.splits item_write_result.splits option.splits)

lemma assertAccess_cases:
  "assertAccess user v db = (if map_option vt_ownerId (getVault v db) = Some user then ret () db
     else throw (VHttp (NotFound '''')) db)"
  by (auto simp: assertAccess_def)

lemma vault_step_wf: "vault_wf db \<Longrightarrow> vault_wf (vault_step op db)"
proof (cases op)
  case (CreateVault u req now)
  assume "vault_wf db"
  then show ?thesis
    unfolding CreateVault
    by (auto simp: createVault_def insertVault_def Let_def vault_wf_insert split: option.splits)
next
  case (PutItem u v i req now)
  assume "vault_wf db"
  then show ?thesis
    unfolding PutItem by (simp add: service_putItem_def assertAccess_cases snd_vault_write putItem_wf)
next
  case (DeleteItem u v i base now)
  assume "vault_wf db"
  then show ?thesis
    unfolding DeleteItem by (simp add: service_deleteItem_def assertAccess_cases snd_vault_write putItem_wf)
next
  case (Purge u v item now)
  assume "vault_wf db"
  then show ?thesis
    unfolding Purge
    by (simp add: service_purge_def assertAccess_cases purgeTrash_def Let_def vault_wf_drop_versions)
next
  case (Sweep now)
  assume "vault_wf db"
  then show ?thesis unfolding Sweep by (simp add: purgeExpired_def vault_wf_drop_versions)
qed

lemma vault_run_wf: "vault_wf db \<Longrightarrow> vault_wf (vault_run ops db)"
  unfolding vault_run_def by (induction ops arbitrary: db) (simp_all add: vault_step_wf)

section \<open>The change feed\<close>

definition vault_feed :: "id \<Rightarrow> vault_db \<Rightarrow> item_record list" where
  "vault_feed v db = map toItem (sort_key vi_seq (filter (\<lambda>r. vi_vaultId r = v) (vault_items db)))"

lemma toItem_simps [simp]:
  "rec_seq (toItem r) = vi_seq r" "ib_id (rec_base (toItem r)) = vi_id r"
  "ib_revision (rec_base (toItem r)) = vi_revision r" "ib_vaultId (rec_base (toItem r)) = vi_vaultId r"
  by (auto simp: toItem_def rec_seq_def Let_def split: option.splits)

lemma vault_rows_feed: "rec_seq \<circ> toItem = vi_seq"
  by (auto simp: fun_eq_iff)

interpretation vault_feed: change_feed vault_wf "vault_feed v" rec_seq "listChanges v" for v
proof unfold_locales
  fix db :: vault_db
  assume wf: "vault_wf db"
  let ?rs = "filter (\<lambda>r. vi_vaultId r = v) (vault_items db)"
  have "distinct ?rs" using vault_wfD(2) [OF wf] by (simp add: unique_by_def distinct_map)
  moreover have "x = y" if "x \<in> set ?rs" "y \<in> set ?rs" "vi_seq x = vi_seq y" for x y
    using vault_wfD(4) [OF wf, of y] that by (auto simp: item_ok_def)
  ultimately have "sorted_wrt (<) (map vi_seq (sort_key vi_seq ?rs))"
    by (intro sorted_wrt_less_sort_key)
  then show "sorted_wrt (<) (map rec_seq (vault_feed v db))"
    by (simp add: vault_feed_def vault_rows_feed)
  fix since n
  show "listChanges v db since n = take n (filter (\<lambda>r. since < rec_seq r) (vault_feed v db))"
    by (simp add: listChanges_def vault_feed_def filter_map filter_sort_key comp_def take_map conj_commute)
qed

section \<open>What the service promises\<close>

text \<open>Which account a request comes from; the sweep comes from none.\<close>

fun vault_op_caller :: "vault_op \<Rightarrow> id option" where
  "vault_op_caller (CreateVault u req now) = Some u"
| "vault_op_caller (PutItem u v i req now) = Some u"
| "vault_op_caller (DeleteItem u v i base now) = Some u"
| "vault_op_caller (Purge u v item now) = Some u"
| "vault_op_caller (Sweep now) = None"

text \<open>Everything stored of one vault.\<close>

definition vault_contents :: "id \<Rightarrow> vault_db \<Rightarrow>
    vault_row option \<times> vault_item_row list \<times> vault_version_row list" where
  "vault_contents v db = (getVault v db, filter (\<lambda>r. vi_vaultId r = v) (vault_items db),
     filter (\<lambda>r. vv_vaultId r = v) (vault_item_versions db))"

definition item_revision :: "id \<Rightarrow> id \<Rightarrow> vault_db \<Rightarrow> nat" where
  "item_revision v i db = (case find_item v i db of None \<Rightarrow> 0 | Some c \<Rightarrow> vi_revision c)"

lemma putItem_Written:
  assumes "vault_wf db" and "putItem w db = (Inr (Written item), db')"
  obtains vault vs where "getVault (iw_vaultId w) db = Some vault"
    "item_revision (iw_vaultId w) (iw_itemId w) db = iw_baseRevision w"
    "next_versions (find_item (iw_vaultId w) (iw_itemId w) db) (vault_item_versions db) = Some vs"
    "item = toItem (written_item w (vt_seq vault + 1))"
    "db' = after_write w (vt_seq vault + 1) vs db"
  by (rule putItem_cases [OF assms(1), of w])
    (use assms(2) in \<open>auto simp: item_revision_def after_write_def\<close>)

lemma putItem_Rejected:
  assumes "vault_wf db" and "putItem w db = (Inr (Rejected r), db')"
  shows "db' = db" and "\<And>cur. r = Some cur \<Longrightarrow>
    \<exists>c. find_item (iw_vaultId w) (iw_itemId w) db = Some c \<and> cur = toItem c \<and>
        vi_revision c \<noteq> iw_baseRevision w"
proof -
  show "db' = db" by (rule putItem_cases [OF assms(1), of w]) (use assms(2) in auto)
  fix cur assume r: "r = Some cur"
  show "\<exists>c. find_item (iw_vaultId w) (iw_itemId w) db = Some c \<and> cur = toItem c \<and>
        vi_revision c \<noteq> iw_baseRevision w"
  proof (rule putItem_cases [OF assms(1), of w])
    fix r'
    assume "putItem w db = (Inr (Rejected r'), db)"
      and "r' = (if getVault (iw_vaultId w) db = None then None
         else map_option toItem (find_item (iw_vaultId w) (iw_itemId w) db))"
      and "getVault (iw_vaultId w) db \<noteq> None \<Longrightarrow>
         (case find_item (iw_vaultId w) (iw_itemId w) db of None \<Rightarrow> 0 | Some c \<Rightarrow> vi_revision c)
           \<noteq> iw_baseRevision w"
    then show ?thesis using assms(2) r by (auto split: if_splits option.splits)
  qed (use assms(2) in auto)
qed

lemma vault_write_Inr:
  "vault_write w db = (Inr item, db') \<longleftrightarrow> putItem w db = (Inr (Written item), db')"
  by (auto simp: vault_write_def split: prod.splits sum.splits item_write_result.splits option.splits)

lemma vault_write_VConflict:
  "vault_write w db = (Inl (VConflict cur), db') \<longleftrightarrow> putItem w db = (Inr (Rejected (Some cur)), db')"
  by (auto simp: vault_write_def split: prod.splits sum.splits item_write_result.splits option.splits)

lemma assertAccess_Inr:
  "assertAccess user v db = (Inr u, db') \<longleftrightarrow>
     db' = db \<and> (\<exists>vault. getVault v db = Some vault \<and> vt_ownerId vault = user)"
  by (auto simp: assertAccess_cases)

lemma find_item_after_write:
  assumes "vault_wf db" and "vault_wf (after_write w n vs db)"
  shows "find_item v i (after_write w n vs db) =
    (if (v, i) = (iw_vaultId w, iw_itemId w) then Some (written_item w n) else find_item v i db)"
proof (cases "(v, i) = (iw_vaultId w, iw_itemId w)")
  case True
  then show ?thesis using assms(2) by (auto simp: find_item_Some after_write_items)
next
  case False
  have "find_item v i (after_write w n vs db) = Some r \<longleftrightarrow> find_item v i db = Some r" for r
    using assms False by (auto simp: find_item_Some after_write_items)
  then show ?thesis using False by (metis not_None_eq)
qed

lemma getVault_after_write:
  assumes "vault_wf db" and "getVault (iw_vaultId w) db = Some vault"
  shows "getVault v (after_write w n vs db) =
    (if v = iw_vaultId w then Some (vault\<lparr>vt_seq := n\<rparr>) else getVault v db)"
  using assms(2) by (simp add: getVault_def after_write_def find_update_where_key)

text \<open>The replaced live content becomes the newest version.\<close>

lemma history_after_write:
  assumes wf: "vault_wf db"
    and c: "find_item v i db = Some c" "toItem c = LiveItem b k d"
    and nv: "next_versions (find_item v i db) (vault_item_versions db) = Some vs"
    and db': "vault_item_versions db' = vs"
  shows "\<exists>rest. listVersions v i db' = \<lparr>iv_revision = vi_revision c, iv_savedAt = vi_updatedAt c,
     iv_encryptedKey = k, iv_encryptedData = d\<rparr> # rest"
proof -
  have live: "\<not> vi_deleted c" "vi_encryptedKey c = Some k" "vi_encryptedData c = Some d"
    using c(2) by (auto simp: toItem_def Let_def split: if_splits option.splits)
  obtain x where x: "kept_version c x" and vs: "vs = delete_where
      (\<lambda>r. vv_vaultId r = v \<and> vv_itemId r = i \<and> vv_revision r + MAX_VERSIONS_PER_RECORD \<le> vi_revision c)
      (vault_item_versions db @ [x])"
    by (rule next_versions_cases [OF wf refl, of v i]) (use c(1) live(1) nv in auto)
  let ?rows = "filter (\<lambda>r. vv_vaultId r = v \<and> vv_itemId r = i) vs"
  have xk: "vv_vaultId x = v" "vv_itemId x = i" "vv_revision x = vi_revision c"
    using kept_version_key [OF wf c(1) x] x by (auto simp: kept_version_def)
  have "x \<in> set ?rows" using xk by (simp add: vs MAX_VERSIONS_PER_RECORD_def)
  moreover have "- int (vv_revision x) < - int (vv_revision y)" if "y \<in> set ?rows" "y \<noteq> x" for y
  proof -
    from that have "y \<in> set (vault_item_versions db)" "(vv_vaultId y, vv_itemId y) = (v, i)"
      by (auto simp: vs)
    from version_older [OF wf c(1) this] xk show ?thesis by simp
  qed
  ultimately obtain ys where "sort_key (\<lambda>r. - int (vv_revision r)) ?rows = x # ys"
    using hd_sort_key [of x ?rows "\<lambda>r. - int (vv_revision r)"] by blast
  then show ?thesis
    using x live xk by (auto simp: listVersions_def db' toVersion_def kept_version_def)
qed

text \<open>C22. Whatever requests and sweeps run, in any order and from any callers, the vault tables
  stay well-formed (unique keys; every item is a live item with both blobs or a bare tombstone
  under a change number its vault handed out, no two alike; at most 20 versions per item, each
  older than the item), and a write never aborts on a duplicate version key.\<close>

theorem vault_run_invariant:
  "vault_wf (vault_run ops empty_vault_db) \<and>
   fst (putItem w (vault_run ops empty_vault_db)) \<noteq> Inl (DbError e)"
  using vault_run_wf [OF vault_wf_empty] putItem_no_db_error by blast

text \<open>C23. An accepted write of an item was based on its current revision; it makes the request's
  blobs the item's content at the next revision under the vault's next change number, leaves every
  other item as it was, and puts the live content it replaced first in the item's history.\<close>

theorem item_write_accepted:
  assumes "vault_wf db" and "service_putItem user v i req now db = (Inr item, db')"
  shows "\<exists>vault. getVault v db = Some vault \<and> vt_ownerId vault = user \<and>
     item_revision v i db = pi_baseRevision req \<and>
     getVault v db' = Some (vault\<lparr>vt_seq := vt_seq vault + 1\<rparr>) \<and>
     item = LiveItem \<lparr>ib_id = i, ib_vaultId = v, ib_revision = pi_baseRevision req + 1,
       ib_seq = vt_seq vault + 1, ib_updatedAt = now\<rparr> (pi_encryptedKey req) (pi_encryptedData req) \<and>
     map_option toItem (find_item v i db') = Some item \<and>
     (\<forall>u j. (u, j) \<noteq> (v, i) \<longrightarrow> find_item u j db' = find_item u j db) \<and>
     (\<forall>c b k d. find_item v i db = Some c \<and> toItem c = LiveItem b k d \<longrightarrow>
       (\<exists>rest. listVersions v i db' = \<lparr>iv_revision = vi_revision c, iv_savedAt = vi_updatedAt c,
          iv_encryptedKey = k, iv_encryptedData = d\<rparr> # rest))"
proof -
  let ?w = "\<lparr>iw_vaultId = v, iw_itemId = i, iw_baseRevision = pi_baseRevision req,
     iw_blobs = Some (pi_encryptedKey req, pi_encryptedData req), iw_now = now\<rparr>"
  have own: "\<exists>vault. getVault v db = Some vault \<and> vt_ownerId vault = user"
    and put: "putItem ?w db = (Inr (Written item), db')"
    using assms(2)
    by (auto simp: service_putItem_def and_then_Inr_iff assertAccess_Inr vault_write_Inr split: if_splits)
  obtain vault vs where w: "getVault v db = Some vault" "item_revision v i db = pi_baseRevision req"
      "next_versions (find_item v i db) (vault_item_versions db) = Some vs"
      "item = toItem (written_item ?w (vt_seq vault + 1))" "db' = after_write ?w (vt_seq vault + 1) vs db"
    by (rule putItem_Written [OF assms(1) put]) simp
  have wf': "vault_wf db'" using putItem_wf [OF assms(1), of ?w] put by simp
  have "find_item u j db' = (if (u, j) = (v, i) then Some (written_item ?w (vt_seq vault + 1))
      else find_item u j db)" for u j
    using find_item_after_write [OF assms(1) wf' [unfolded w(5)], of u j] w(5) by simp
  moreover have "getVault v db' = Some (vault\<lparr>vt_seq := vt_seq vault + 1\<rparr>)"
    using getVault_after_write [OF assms(1), of ?w] w by simp
  moreover have "\<exists>rest. listVersions v i db' = \<lparr>iv_revision = vi_revision c, iv_savedAt = vi_updatedAt c,
      iv_encryptedKey = k, iv_encryptedData = d\<rparr> # rest"
    if "find_item v i db = Some c" "toItem c = LiveItem b k d" for c b k d
    by (rule history_after_write [OF assms(1) that w(3)]) (simp add: w(5) after_write_def)
  ultimately show ?thesis
    using own w(1,2,4) by (auto simp: toItem_def written_item_def)
qed

text \<open>A write that lost a race is refused with the current record, at a revision other than
  the one it was based on, and changes nothing.\<close>

theorem item_write_conflict:
  assumes "vault_wf db" and "service_putItem user v i req now db = (Inl (VConflict cur), db')"
  shows "db' = db \<and> (\<exists>c. find_item v i db = Some c \<and> cur = toItem c \<and>
    vi_revision c \<noteq> pi_baseRevision req)"
proof -
  let ?w = "\<lparr>iw_vaultId = v, iw_itemId = i, iw_baseRevision = pi_baseRevision req,
     iw_blobs = Some (pi_encryptedKey req, pi_encryptedData req), iw_now = now\<rparr>"
  have "putItem ?w db = (Inr (Rejected (Some cur)), db')"
    using assms(2)
    by (auto simp: service_putItem_def and_then_Inl_iff assertAccess_cases vault_write_VConflict
        split: if_splits)
  from putItem_Rejected [OF assms(1) this] show ?thesis by auto
qed

lemma vault_contents_other_write:
  assumes "vault_wf db" and "v \<noteq> iw_vaultId w"
  shows "vault_contents v (snd (putItem w db)) = vault_contents v db"
proof (cases "putItem w db")
  case (Pair r db')
  show ?thesis
  proof (rule putItem_cases [OF assms(1), of w])
    fix vault vs
    assume vt: "getVault (iw_vaultId w) db = Some vault"
      and nv: "next_versions (find_item (iw_vaultId w) (iw_itemId w) db) (vault_item_versions db) = Some vs"
      and eq: "putItem w db = (Inr (Written (toItem (written_item w (vt_seq vault + 1)))),
         db\<lparr>vaults := update_where (\<lambda>v. vt_id v = iw_vaultId w)
                (\<lambda>v. v\<lparr>vt_seq := vt_seq vault + 1\<rparr>) (vaults db),
            vault_item_versions := vs,
            vault_items := upsert vi_key (written_item w (vt_seq vault + 1))
              (\<lambda>_. written_item w (vt_seq vault + 1)) (vault_items db)\<rparr>)"
    have items: "filter (\<lambda>r. vi_vaultId r = v) (upsert vi_key (written_item w n) (\<lambda>_. written_item w n) t)
        = filter (\<lambda>r. vi_vaultId r = v) t" for n t
      using assms(2) by (auto simp: upsert_def vi_key_def update_where_def filter_map_other)
    have "filter (\<lambda>r. vv_vaultId r = v) vs = filter (\<lambda>r. vv_vaultId r = v) (vault_item_versions db)"
    proof (rule next_versions_cases [OF assms(1) refl, of "iw_vaultId w" "iw_itemId w"])
      fix c :: vault_item_row and x
      assume "find_item (iw_vaultId w) (iw_itemId w) db = Some c" "kept_version c x"
      then have "(vv_vaultId x, vv_itemId x) = (iw_vaultId w, iw_itemId w)"
        by (rule kept_version_key [OF assms(1)])
      moreover assume "next_versions (find_item (iw_vaultId w) (iw_itemId w) db) (vault_item_versions db) =
        Some (delete_where (\<lambda>r. vv_vaultId r = iw_vaultId w \<and> vv_itemId r = iw_itemId w \<and>
          vv_revision r + MAX_VERSIONS_PER_RECORD \<le> vi_revision c) (vault_item_versions db @ [x]))"
      ultimately show ?thesis using nv assms(2) by (auto simp: delete_where_def intro: filter_cong)
    qed (use nv in simp)
    then show ?thesis
      using items getVault_after_write [OF assms(1) vt, of v "vt_seq vault + 1" vs] assms(2)
      unfolding eq vault_contents_def by (simp add: after_write_def)
  qed simp
qed

text \<open>C30. Requests of one account never change anything stored of another account's vault.\<close>

theorem vault_isolation:
  assumes "vault_wf db" and "getVault v db = Some vault"
    and "vault_op_caller op = Some user" and "user \<noteq> vt_ownerId vault"
  shows "vault_contents v (vault_step op db) = vault_contents v db"
proof (cases op)
  case (CreateVault u req now)
  have "getVault v (db\<lparr>vaults := vaults db @ [x]\<rparr>) = getVault v db" for x
    using assms(2) by (simp add: getVault_def find_append)
  then show ?thesis
    unfolding CreateVault
    by (auto simp: createVault_def insertVault_def insert_new_def vault_contents_def Let_def)
next
  case (PutItem u x i req now)
  show ?thesis
  proof (cases "x = v")
    case True
    with PutItem assms show ?thesis by (simp add: service_putItem_def assertAccess_cases)
  next
    case False
    then show ?thesis
      unfolding PutItem
      by (simp add: service_putItem_def assertAccess_cases snd_vault_write vault_contents_other_write assms(1))
  qed
next
  case (DeleteItem u x i base now)
  show ?thesis
  proof (cases "x = v")
    case True
    with DeleteItem assms show ?thesis by (simp add: service_deleteItem_def assertAccess_cases)
  next
    case False
    then show ?thesis
      unfolding DeleteItem
      by (simp add: service_deleteItem_def assertAccess_cases snd_vault_write vault_contents_other_write assms(1))
  qed
next
  case (Purge u x item now)
  show ?thesis
  proof (cases "x = v")
    case True
    with Purge assms show ?thesis by (simp add: service_purge_def assertAccess_cases)
  next
    case False
    then show ?thesis
      unfolding Purge
      by (auto simp: service_purge_def assertAccess_cases purgeTrash_def Let_def vault_contents_def
          getVault_def delete_where_def intro: filter_cong)
  qed
qed (use assms(3) in simp)

text \<open>Within the retention period a deleted item is in the trash under its last content.\<close>

lemma listTrash_member:
  assumes "r \<in> set (vault_items db)" "vi_vaultId r = v" "vi_deleted r" "since \<le> vi_updatedAt r"
    and "listVersions v (vi_id r) db = x # rest"
  shows "\<lparr>ti_id = vi_id r, ti_revision = vi_revision r, ti_deletedAt = vi_updatedAt r,
     ti_lastVersion = x\<rparr> \<in> set (listTrash v since db)"
proof -
  have "last_version v (vi_id r) db = Some x" using assms(5) by (simp add: last_version_def)
  then show ?thesis
    using assms(1-4) unfolding listTrash_def by (force simp: map_filter_def)
qed

text \<open>Deleting an item and restoring it from the trash is a round trip: the trash of that moment
  shows the tombstone with the deleted content as its last version, and writing that content back
  on the tombstone's revision makes it the item's live content again.\<close>

theorem delete_restore_roundtrip:
  assumes wf: "vault_wf db" and c: "find_item v i db = Some c" "toItem c = LiveItem b k d"
    and kids: "bl_kid k = v" "bl_kid d = i"
    and del: "service_deleteItem user v i base now db = (Inr tomb, db')"
  shows "\<exists>x \<in> set (listTrash v (trashCutoff now) db'). ti_id x = i \<and> ti_deletedAt x = now \<and>
     iv_encryptedKey (ti_lastVersion x) = k \<and> iv_encryptedData (ti_lastVersion x) = d \<and>
     (\<exists>b' db''. service_putItem user v i \<lparr>pi_baseRevision = ti_revision x,
         pi_encryptedKey = iv_encryptedKey (ti_lastVersion x),
         pi_encryptedData = iv_encryptedData (ti_lastVersion x)\<rparr> later db' = (Inr (LiveItem b' k d), db''))"
proof -
  let ?w = "\<lparr>iw_vaultId = v, iw_itemId = i, iw_baseRevision = base, iw_blobs = None, iw_now = now\<rparr>"
  have own: "\<exists>vault. getVault v db = Some vault \<and> vt_ownerId vault = user"
    and put: "putItem ?w db = (Inr (Written tomb), db')"
    using del by (auto simp: service_deleteItem_def and_then_Inr_iff assertAccess_Inr vault_write_Inr)
  obtain vault vs where w: "getVault v db = Some vault" "item_revision v i db = base"
      "next_versions (find_item v i db) (vault_item_versions db) = Some vs"
      "db' = after_write ?w (vt_seq vault + 1) vs db"
    by (rule putItem_Written [OF wf put]) simp
  let ?row = "written_item ?w (vt_seq vault + 1)"
  have wf': "vault_wf db'" using putItem_wf [OF wf, of ?w] put by simp
  have row: "find_item v i db' = Some ?row"
    using find_item_after_write [OF wf wf' [unfolded w(4)], of v i] w(4) by simp
  have v': "getVault v db' = Some (vault\<lparr>vt_seq := vt_seq vault + 1\<rparr>)"
    using getVault_after_write [OF wf, of ?w] w by simp
  obtain rest where h: "listVersions v i db' = \<lparr>iv_revision = vi_revision c, iv_savedAt = vi_updatedAt c,
      iv_encryptedKey = k, iv_encryptedData = d\<rparr> # rest"
    using history_after_write [OF wf c w(3), of db'] w(4) by (auto simp: after_write_def)
  have since: "trashCutoff now \<le> now" by (simp add: trashCutoff_def TRASH_RETENTION_DAYS_def DAY_MS_def)
  let ?x = "\<lparr>ti_id = i, ti_revision = base + 1, ti_deletedAt = now, ti_lastVersion =
     \<lparr>iv_revision = vi_revision c, iv_savedAt = vi_updatedAt c, iv_encryptedKey = k, iv_encryptedData = d\<rparr>\<rparr>"
  have "?x \<in> set (listTrash v (trashCutoff now) db')"
    using listTrash_member [of ?row db' v "trashCutoff now"] row wf' h since by (simp add: find_item_Some)
  moreover have "\<exists>b' db''. service_putItem user v i \<lparr>pi_baseRevision = base + 1, pi_encryptedKey = k,
      pi_encryptedData = d\<rparr> later db' = (Inr (LiveItem b' k d), db'')"
  proof -
    let ?u = "\<lparr>iw_vaultId = v, iw_itemId = i, iw_baseRevision = base + 1, iw_blobs = Some (k, d),
      iw_now = later\<rparr>"
    have "\<exists>b' db''. putItem ?u db' = (Inr (Written (LiveItem b' k d)), db'')"
      by (rule putItem_cases [OF wf', of ?u]) (use row v' in \<open>simp_all add: toItem_def written_item_def\<close>)
    then show ?thesis
      using own w(1) v' kids by (auto simp: service_putItem_def assertAccess_cases vault_write_def ret_def)
  qed
  ultimately show ?thesis by force
qed

section \<open>Concrete runs\<close>

definition demo_blob :: "string \<Rightarrow> blob" where
  "demo_blob kid = \<lparr>bl_kid = kid, bl_nonce = ''n'', bl_ct = ''c''\<rparr>"

definition demo_put :: put_item_request where
  "demo_put = \<lparr>pi_baseRevision = 0, pi_encryptedKey = demo_blob ''v'', pi_encryptedData = demo_blob ''i''\<rparr>"

definition demo_vault_db :: vault_db where
  "demo_vault_db = vault_run
     [CreateVault ''u'' \<lparr>cv_id = ''v'', cv_encryptedKey = demo_blob ''account'',
        cv_encryptedMeta = demo_blob ''v''\<rparr> 1,
      PutItem ''u'' ''v'' ''i'' demo_put 2] empty_vault_db"

lemma demo_vault_wf: "vault_wf demo_vault_db"
  unfolding demo_vault_db_def by (rule vault_run_wf [OF vault_wf_empty])

theorem item_write_accepted_witness:
  "\<exists>item db'. service_putItem ''u'' ''v'' ''i'' (demo_put\<lparr>pi_baseRevision := 1\<rparr>) 3 demo_vault_db = (Inr item, db') \<and>
     item_revision ''v'' ''i'' demo_vault_db = 1 \<and> map_option toItem (find_item ''v'' ''i'' db') = Some item"
proof -
  have "\<not> isl (fst (service_putItem ''u'' ''v'' ''i'' (demo_put\<lparr>pi_baseRevision := 1\<rparr>) 3 demo_vault_db))"
    by code_simp
  then obtain item db' where
    r: "service_putItem ''u'' ''v'' ''i'' (demo_put\<lparr>pi_baseRevision := 1\<rparr>) 3 demo_vault_db = (Inr item, db')"
    by (rule outcome_InrE)
  show ?thesis using item_write_accepted [OF demo_vault_wf r] r by (auto simp: demo_put_def)
qed

theorem item_write_conflict_witness:
  "\<exists>cur. service_putItem ''u'' ''v'' ''i'' demo_put 3 demo_vault_db = (Inl (VConflict cur), demo_vault_db) \<and>
     map_option toItem (find_item ''v'' ''i'' demo_vault_db) = Some cur"
proof -
  have "case fst (service_putItem ''u'' ''v'' ''i'' demo_put 3 demo_vault_db) of
      Inl (VConflict cur) \<Rightarrow> True | _ \<Rightarrow> False"
    by code_simp
  then obtain cur db' where
    r: "service_putItem ''u'' ''v'' ''i'' demo_put 3 demo_vault_db = (Inl (VConflict cur), db')"
    by (cases "service_putItem ''u'' ''v'' ''i'' demo_put 3 demo_vault_db")
      (auto split: sum.splits vault_error.splits)
  from item_write_conflict [OF demo_vault_wf r] r show ?thesis by auto
qed

theorem vault_isolation_witness:
  "vault_contents ''v'' (vault_step (DeleteItem ''mallory'' ''v'' ''i'' 1 9) demo_vault_db) =
     vault_contents ''v'' demo_vault_db \<and> fst (vault_contents ''v'' demo_vault_db) \<noteq> None"
proof -
  have "map_option vt_ownerId (getVault ''v'' demo_vault_db) = Some ''u''" by code_simp
  then obtain vault where v: "getVault ''v'' demo_vault_db = Some vault" "vt_ownerId vault = ''u''" by auto
  have "vault_contents ''v'' (vault_step (DeleteItem ''mallory'' ''v'' ''i'' 1 9) demo_vault_db) =
      vault_contents ''v'' demo_vault_db"
    by (rule vault_isolation [OF demo_vault_wf v(1), of _ "''mallory''"]) (simp_all add: v(2))
  with v(1) show ?thesis by (simp add: vault_contents_def)
qed

theorem delete_restore_roundtrip_witness:
  "\<exists>tomb db'. service_deleteItem ''u'' ''v'' ''i'' 1 5 demo_vault_db = (Inr tomb, db') \<and>
     listTrash ''v'' (trashCutoff 5) db' \<noteq> []"
proof -
  let ?row = "\<lparr>vi_vaultId = ''v'', vi_id = ''i'', vi_revision = 1, vi_seq = 1, vi_deleted = False,
     vi_encryptedKey = Some (demo_blob ''v''), vi_encryptedData = Some (demo_blob ''i''), vi_updatedAt = 2\<rparr>"
  have c: "find_item ''v'' ''i'' demo_vault_db = Some ?row" by code_simp
  have live: "toItem ?row = LiveItem \<lparr>ib_id = ''i'', ib_vaultId = ''v'', ib_revision = 1, ib_seq = 1,
     ib_updatedAt = 2\<rparr> (demo_blob ''v'') (demo_blob ''i'')" by code_simp
  have kids: "bl_kid (demo_blob ''v'') = ''v''" "bl_kid (demo_blob ''i'') = ''i''"
    by (simp_all add: demo_blob_def)
  have "\<not> isl (fst (service_deleteItem ''u'' ''v'' ''i'' 1 5 demo_vault_db))" by code_simp
  then obtain tomb db' where
    r: "service_deleteItem ''u'' ''v'' ''i'' 1 5 demo_vault_db = (Inr tomb, db')" by (rule outcome_InrE)
  from delete_restore_roundtrip [OF demo_vault_wf c live kids r, of 6] r show ?thesis by auto
qed

end
