(* ===== verification/VaultSync.thy ===== *)
theory VaultSync
  imports Vault
begin

text \<open>
  The desktop's local copy of one vault (\<^verbatim>\<open>apps/desktop/src/vault/sync.ts\<close>, class
  \<^verbatim>\<open>VaultSync\<close>), run against the server of \<^verbatim>\<open>Vault\<close>: a request of
  \<^verbatim>\<open>apps/desktop/src/vault/api.ts\<close> is the server's handler on the shared tables.

  The Rust core that decrypts (\<^verbatim>\<open>apps/desktop/src/vault/core.ts\<close>) is a parameter: a
  record of functions that answer \<open>None\<close> where the call throws, together with the title of a
  summary and the collation key behind \<^verbatim>\<open>localeCompare\<close>. Characters are code points below
  256, so \<open>trim\<close> and \<open>toLowerCase\<close> are those of Latin-1. The callbacks of subscribers are
  not part of the state.
\<close>

section \<open>State\<close>

record item_cipher =
  ic_id :: id
  ic_encryptedKey :: blob
  ic_encryptedData :: blob

record live_item =
  lv_base :: item_base
  lv_encryptedKey :: blob
  lv_encryptedData :: blob

record ('f, 's) vault_core =
  core_sealItem :: "id \<Rightarrow> item_cipher option \<Rightarrow> 'f \<Rightarrow> item_cipher option"
  core_openItem :: "id \<Rightarrow> item_cipher \<Rightarrow> 'f option"
  core_summarizeItem :: "id \<Rightarrow> item_cipher \<Rightarrow> 's option"
  core_title :: "'s \<Rightarrow> string"
  core_collate :: "string \<Rightarrow> string"

record 's listed_item =
  li_id :: id
  li_revision :: nat
  li_summary :: 's

record 's vault_sync =
  vs_records :: "(id \<times> live_item) list"
  vs_summaries :: "(id \<times> 's) list"
  vs_cursor :: nat
  vs_snapshot :: "'s listed_item list"
  vs_unreadable :: nat

record 'f item_version_view =
  ivv_revision :: nat
  ivv_savedAt :: time
  ivv_fields :: 'f
  ivv_cipher :: item_version

record 's trashed_item_view =
  tv_id :: id
  tv_deletedAt :: time
  tv_purgeAt :: time
  tv_summary :: 's
  tv_trashed :: trashed_item

definition new_vault_sync :: "'s vault_sync" where
  "new_vault_sync = \<lparr>vs_records = [], vs_summaries = [], vs_cursor = 0, vs_snapshot = [],
     vs_unreadable = 0\<rparr>"

text \<open>
  What a call can throw: the item is not there, the write lost a race (\<^verbatim>\<open>ConflictError\<close>), the
  server answered another error (\<^verbatim>\<open>ApiError\<close>), the core failed, or no single item is named so.
\<close>

datatype sync_error =
    NoSuchItem
  | ConflictError item_record
  | ApiError http_error
  | CoreError
  | NoneCalled string
  | SeveralCalled nat string

type_synonym ('a, 's) sync_outcome = "(sync_error, 'a, 's vault_sync \<times> vault_db) outcome"

fun sync_error_of :: "vault_error \<Rightarrow> sync_error" where
  "sync_error_of (VConflict current) = ConflictError current"
| "sync_error_of (VHttp e) = ApiError e"

definition MAX_SYNC_PAGE :: nat where
  "MAX_SYNC_PAGE = 500"

section \<open>Applying records\<close>

definition cipherOf :: "live_item \<Rightarrow> item_cipher" where
  "cipherOf r = \<lparr>ic_id = ib_id (lv_base r), ic_encryptedKey = lv_encryptedKey r,
     ic_encryptedData = lv_encryptedData r\<rparr>"

definition versionCipher :: "id \<Rightarrow> item_version \<Rightarrow> item_cipher" where
  "versionCipher i x = \<lparr>ic_id = i, ic_encryptedKey = iv_encryptedKey x,
     ic_encryptedData = iv_encryptedData x\<rparr>"

definition known_record :: "id \<Rightarrow> 's vault_sync \<Rightarrow> live_item option" where
  "known_record i c = map_of (vs_records c) i"

definition store_record :: "('f, 's) vault_core \<Rightarrow> id \<Rightarrow> item_record \<Rightarrow> 's vault_sync \<Rightarrow>
    's vault_sync" where
  "store_record core v record c = (case record of
     DeletedItem b \<Rightarrow>
       c\<lparr>vs_records := AList.delete (ib_id b) (vs_records c),
         vs_summaries := AList.delete (ib_id b) (vs_summaries c)\<rparr>
   | LiveItem b k d \<Rightarrow>
       (let live = \<lparr>lv_base = b, lv_encryptedKey = k, lv_encryptedData = d\<rparr>
        in case core_summarizeItem core v (cipherOf live) of
             None \<Rightarrow> c\<lparr>vs_unreadable := vs_unreadable c + 1\<rparr>
           | Some s \<Rightarrow>
               c\<lparr>vs_records := AList.update (ib_id b) live (vs_records c),
                 vs_summaries := AList.update (ib_id b) s (vs_summaries c)\<rparr>))"

definition apply_record :: "('f, 's) vault_core \<Rightarrow> id \<Rightarrow> item_record \<Rightarrow> 's vault_sync \<Rightarrow>
    's vault_sync" where
  "apply_record core v record c = (case known_record (ib_id (rec_base record)) c of
     Some known \<Rightarrow>
       if ib_revision (rec_base record) \<le> ib_revision (lv_base known) then c
       else store_record core v record c
   | None \<Rightarrow> store_record core v record c)"

text \<open>The snapshot: a summary is there for every record (\<^verbatim>\<open>!\<close> in the source).\<close>

definition emit :: "('f, 's) vault_core \<Rightarrow> 's vault_sync \<Rightarrow> 's vault_sync" where
  "emit core c = c\<lparr>vs_snapshot :=
     sort_key (\<lambda>i. core_collate core (core_title core (li_summary i)))
       (map (\<lambda>r. \<lparr>li_id = ib_id (lv_base r), li_revision = ib_revision (lv_base r),
                  li_summary = the (map_of (vs_summaries c) (ib_id (lv_base r)))\<rparr>)
         (map snd (vs_records c)))\<rparr>"

section \<open>Pulling\<close>

definition apply_page :: "('f, 's) vault_core \<Rightarrow> id \<Rightarrow> item_record sync_page \<Rightarrow> 's vault_sync \<Rightarrow>
    's vault_sync" where
  "apply_page core v page c =
     (fold (apply_record core v) (pg_items page) c)\<lparr>vs_cursor := pg_cursor page\<rparr>"

text \<open>
  One turn of \<^verbatim>\<open>pull\<close>'s loop and the loop. The server does not change while it runs here;
  writes between the pages are steps of the system below.
\<close>

lemma service_sync_db: "snd (service_sync user v since limit db) = db"
  by (simp add: service_sync_def assertAccess_cases)

definition pull_page :: "('f, 's) vault_core \<Rightarrow> id \<Rightarrow> id \<Rightarrow> 's vault_sync \<Rightarrow> vault_db \<Rightarrow>
    sync_error + (bool \<times> 's vault_sync)" where
  "pull_page core user v c db = (case fst (service_sync user v (vs_cursor c) MAX_SYNC_PAGE db) of
     Inl e \<Rightarrow> Inl (sync_error_of e)
   | Inr page \<Rightarrow> Inr (pg_hasMore page, apply_page core v page c))"

function pull :: "('f, 's) vault_core \<Rightarrow> id \<Rightarrow> id \<Rightarrow> 's vault_sync \<Rightarrow> vault_db \<Rightarrow>
    (unit, 's) sync_outcome" where
  "pull core user v c db = (case pull_page core user v c db of
     Inl e \<Rightarrow> throw e (c, db)
   | Inr (hasMore, c') \<Rightarrow>
       if hasMore then pull core user v c' db else ret () (emit core c', db))"
  by pat_completeness auto

text \<open>Rows of any vault still behind the cursor; a page that has more leaves fewer.\<close>

lemma vs_cursor_apply [simp]: "vs_cursor (apply_record core v r c) = vs_cursor c"
  by (simp add: apply_record_def store_record_def Let_def split: option.splits item_record.splits)

lemma pull_page_decreases:
  assumes "pull_page core user v c db = Inr (True, c')"
  shows "length (filter (\<lambda>r. vs_cursor c' < vi_seq r) (vault_items db)) <
    length (filter (\<lambda>r. vs_cursor c < vi_seq r) (vault_items db))"
proof -
  let ?ch = "listChanges v db (vs_cursor c) (MAX_SYNC_PAGE + 1)"
  have more: "MAX_SYNC_PAGE < length ?ch"
    and cur: "vs_cursor c' = rec_seq (last (take MAX_SYNC_PAGE ?ch))"
    using assms by (auto simp: pull_page_def service_sync_def assertAccess_cases sync_page_of_def
        Let_def apply_page_def MAX_SYNC_PAGE_def split: if_splits)
  have "take MAX_SYNC_PAGE ?ch \<noteq> []" using more by (auto simp: MAX_SYNC_PAGE_def)
  then have "last (take MAX_SYNC_PAGE ?ch) \<in> set ?ch" by (meson in_set_takeD last_in_set)
  then obtain r where r: "r \<in> set (vault_items db)" "vs_cursor c < vi_seq r"
      "last (take MAX_SYNC_PAGE ?ch) = toItem r"
    unfolding listChanges_def by (auto dest!: in_set_takeD)
  then have c': "vs_cursor c' = vi_seq r" using cur by simp
  have "filter (\<lambda>x. vs_cursor c' < vi_seq x) (vault_items db) =
      filter (\<lambda>x. vs_cursor c' < vi_seq x) (filter (\<lambda>x. vs_cursor c < vi_seq x) (vault_items db))"
    using r(2) c' by (auto intro: filter_cong)
  moreover have "r \<in> set (filter (\<lambda>x. vs_cursor c < vi_seq x) (vault_items db))"
    using r by simp
  then have "length (filter (\<lambda>x. vs_cursor c' < vi_seq x)
      (filter (\<lambda>x. vs_cursor c < vi_seq x) (vault_items db))) <
    length (filter (\<lambda>x. vs_cursor c < vi_seq x) (vault_items db))"
    by (rule length_filter_less) (simp add: c')
  ultimately show ?thesis by (simp only:)
qed

termination pull
  by (relation "measure (\<lambda>(core, user, v, c, db).
      length (filter (\<lambda>r. vs_cursor c < vi_seq r) (vault_items db)))")
    (auto intro: pull_page_decreases)


declare pull.simps [simp del]

section \<open>Reading and writing\<close>

definition the_record :: "id \<Rightarrow> 's vault_sync \<times> vault_db \<Rightarrow> (live_item, 's) sync_outcome" where
  "the_record i s = (case known_record i (fst s) of
     None \<Rightarrow> throw NoSuchItem s
   | Some r \<Rightarrow> ret r s)"

text \<open>
  \<^verbatim>\<open>write\<close>: a confirmed record is applied, and so is the winner of a lost race; the snapshot is
  rebuilt however the request ends.
\<close>

definition sync_write :: "('f, 's) vault_core \<Rightarrow> id \<Rightarrow>
    (vault_db \<Rightarrow> (vault_error, item_record, vault_db) outcome) \<Rightarrow>
    's vault_sync \<times> vault_db \<Rightarrow> (item_record, 's) sync_outcome" where
  "sync_write core v send s = (case s of (c, db) \<Rightarrow>
     (case send db of
        (Inr record, db') \<Rightarrow> ret record (emit core (apply_record core v record c), db')
      | (Inl (VConflict current), db') \<Rightarrow>
          throw (ConflictError current) (emit core (apply_record core v current c), db')
      | (Inl (VHttp e), db') \<Rightarrow> throw (ApiError e) (emit core c, db')))"

definition sync_open :: "('f, 's) vault_core \<Rightarrow> id \<Rightarrow> id \<Rightarrow> 's vault_sync \<times> vault_db \<Rightarrow>
    ('f, 's) sync_outcome" where
  "sync_open core v i s = and_then (the_record i s) (\<lambda>r s.
     case core_openItem core v (cipherOf r) of
       None \<Rightarrow> throw CoreError s
     | Some flds \<Rightarrow> ret flds s)"

definition sync_cipher :: "id \<Rightarrow> 's vault_sync \<times> vault_db \<Rightarrow> (item_cipher, 's) sync_outcome" where
  "sync_cipher i s = and_then (the_record i s) (\<lambda>r s. ret (cipherOf r) s)"

definition sealed_request :: "live_item option \<Rightarrow> item_cipher \<Rightarrow> put_item_request" where
  "sealed_request existing sealed =
     \<lparr>pi_baseRevision = (case existing of None \<Rightarrow> 0 | Some r \<Rightarrow> ib_revision (lv_base r)),
      pi_encryptedKey = ic_encryptedKey sealed, pi_encryptedData = ic_encryptedData sealed\<rparr>"

definition sync_save_existing :: "('f, 's) vault_core \<Rightarrow> id \<Rightarrow> id \<Rightarrow> live_item option \<Rightarrow> 'f \<Rightarrow> time \<Rightarrow>
    's vault_sync \<times> vault_db \<Rightarrow> (id, 's) sync_outcome" where
  "sync_save_existing core user v existing flds now s =
     (case core_sealItem core v (map_option cipherOf existing) flds of
        None \<Rightarrow> throw CoreError s
      | Some sealed \<Rightarrow>
          and_then
            (sync_write core v
              (service_putItem user v (ic_id sealed) (sealed_request existing sealed) now) s)
            (\<lambda>saved s. ret (ib_id (rec_base saved)) s))"

definition sync_save :: "('f, 's) vault_core \<Rightarrow> id \<Rightarrow> id \<Rightarrow> id option \<Rightarrow> 'f \<Rightarrow> time \<Rightarrow>
    's vault_sync \<times> vault_db \<Rightarrow> (id, 's) sync_outcome" where
  "sync_save core user v item flds now s = (case item of
     None \<Rightarrow> sync_save_existing core user v None flds now s
   | Some i \<Rightarrow> and_then (the_record i s) (\<lambda>r. sync_save_existing core user v (Some r) flds now))"

definition sync_putSealed :: "('f, 's) vault_core \<Rightarrow> id \<Rightarrow> id \<Rightarrow> item_cipher \<Rightarrow> time \<Rightarrow>
    's vault_sync \<times> vault_db \<Rightarrow> (unit, 's) sync_outcome" where
  "sync_putSealed core user v sealed now s =
     and_then
       (sync_write core v (service_putItem user v (ic_id sealed)
          (sealed_request (known_record (ic_id sealed) (fst s)) sealed) now) s)
       (\<lambda>_ s. ret () s)"

definition sync_remove :: "('f, 's) vault_core \<Rightarrow> id \<Rightarrow> id \<Rightarrow> id \<Rightarrow> time \<Rightarrow>
    's vault_sync \<times> vault_db \<Rightarrow> (unit, 's) sync_outcome" where
  "sync_remove core user v i now s = and_then (the_record i s) (\<lambda>r s.
     and_then
       (sync_write core v (service_deleteItem user v i (ib_revision (lv_base r)) now) s)
       (\<lambda>_ s. ret () s))"

definition version_request :: "nat \<Rightarrow> item_version \<Rightarrow> put_item_request" where
  "version_request base x = \<lparr>pi_baseRevision = base, pi_encryptedKey = iv_encryptedKey x,
     pi_encryptedData = iv_encryptedData x\<rparr>"

definition sync_restoreVersion :: "('f, 's) vault_core \<Rightarrow> id \<Rightarrow> id \<Rightarrow> id \<Rightarrow> item_version \<Rightarrow> time \<Rightarrow>
    's vault_sync \<times> vault_db \<Rightarrow> (unit, 's) sync_outcome" where
  "sync_restoreVersion core user v i x now s = and_then (the_record i s) (\<lambda>r s.
     and_then
       (sync_write core v (service_putItem user v i (version_request (ib_revision (lv_base r)) x) now) s)
       (\<lambda>_ s. ret () s))"

definition sync_restoreFromTrash :: "('f, 's) vault_core \<Rightarrow> id \<Rightarrow> id \<Rightarrow> trashed_item \<Rightarrow> time \<Rightarrow>
    's vault_sync \<times> vault_db \<Rightarrow> (unit, 's) sync_outcome" where
  "sync_restoreFromTrash core user v t now s =
     and_then
       (sync_write core v
         (service_putItem user v (ti_id t) (version_request (ti_revision t) (ti_lastVersion t)) now) s)
       (\<lambda>_ s. ret () s)"

definition sync_purge :: "id \<Rightarrow> id \<Rightarrow> id option \<Rightarrow> time \<Rightarrow> 's vault_sync \<times> vault_db \<Rightarrow>
    (unit, 's) sync_outcome" where
  "sync_purge user v item now s = (case s of (c, db) \<Rightarrow>
     (case service_purge user v item now db of
        (Inl e, db') \<Rightarrow> throw (sync_error_of e) (c, db')
      | (Inr u, db') \<Rightarrow> ret () (c, db')))"

text \<open>Versions the core cannot open are left out; trashed items it cannot read are counted.\<close>

definition history_views :: "('f, 's) vault_core \<Rightarrow> id \<Rightarrow> id \<Rightarrow> item_version list \<Rightarrow>
    'f item_version_view list" where
  "history_views core v i xs = List.map_filter (\<lambda>x. map_option
     (\<lambda>flds. \<lparr>ivv_revision = iv_revision x, ivv_savedAt = iv_savedAt x, ivv_fields = flds,
        ivv_cipher = x\<rparr>)
     (core_openItem core v (versionCipher i x))) xs"

definition sync_history :: "('f, 's) vault_core \<Rightarrow> id \<Rightarrow> id \<Rightarrow> id \<Rightarrow> 's vault_sync \<times> vault_db \<Rightarrow>
    ('f item_version_view list, 's) sync_outcome" where
  "sync_history core user v i s = (case fst (service_history user v i (snd s)) of
     Inl e \<Rightarrow> throw (sync_error_of e) s
   | Inr xs \<Rightarrow> ret (history_views core v i xs) s)"

fun trash_views :: "('f, 's) vault_core \<Rightarrow> id \<Rightarrow> (trashed_item \<times> time) list \<Rightarrow> nat \<Rightarrow>
    's trashed_item_view list \<times> nat" where
  "trash_views core v [] n = ([], n)"
| "trash_views core v ((t, purge) # ts) n =
     (case core_summarizeItem core v (versionCipher (ti_id t) (ti_lastVersion t)) of
        None \<Rightarrow> trash_views core v ts (n + 1)
      | Some s \<Rightarrow>
          (case trash_views core v ts n of (views, n') \<Rightarrow>
             (\<lparr>tv_id = ti_id t, tv_deletedAt = ti_deletedAt t, tv_purgeAt = purge, tv_summary = s,
               tv_trashed = t\<rparr> # views, n')))"

definition sync_trash :: "('f, 's) vault_core \<Rightarrow> id \<Rightarrow> id \<Rightarrow> time \<Rightarrow> 's vault_sync \<times> vault_db \<Rightarrow>
    ('s trashed_item_view list, 's) sync_outcome" where
  "sync_trash core user v now s = (case s of (c, db) \<Rightarrow>
     (case fst (service_trash user v now db) of
        Inl e \<Rightarrow> throw (sync_error_of e) (c, db)
      | Inr ts \<Rightarrow>
          (case trash_views core v ts (vs_unreadable c) of (views, n) \<Rightarrow>
             ret views (c\<lparr>vs_unreadable := n\<rparr>, db))))"

section \<open>Finding an item by name\<close>

definition title_key :: "string \<Rightarrow> string" where
  "title_key s = map js_lower_char (js_trim s)"

definition sync_find :: "('f, 's) vault_core \<Rightarrow> string \<Rightarrow> 's vault_sync \<Rightarrow>
    sync_error + 's listed_item" where
  "sync_find core query c = (case find (\<lambda>i. li_id i = query) (vs_snapshot c) of
     Some i \<Rightarrow> Inr i
   | None \<Rightarrow>
      (case filter (\<lambda>i. title_key (core_title core (li_summary i)) = title_key query) (vs_snapshot c) of
         [i] \<Rightarrow> Inr i
       | [] \<Rightarrow> Inl (NoneCalled query)
       | ms \<Rightarrow> Inl (SeveralCalled (length ms) query)))"

section \<open>The client among others\<close>

text \<open>
  A run of the system: requests of any account from anywhere and the sweep, and the steps of
  this client, which fetches a page, writes, or reads. Each step is one request and what the
  client does with its answer.
\<close>

datatype 'f sync_event =
    Elsewhere vault_op
  | FetchPage
  | Save "id option" 'f time
  | PutSealed item_cipher time
  | Remove id time
  | RestoreVersion id item_version time
  | RestoreFromTrash trashed_item time
  | PurgeTrash "id option" time
  | ShowTrash time

fun sync_step :: "('f, 's) vault_core \<Rightarrow> id \<Rightarrow> id \<Rightarrow> 'f sync_event \<Rightarrow> 's vault_sync \<times> vault_db \<Rightarrow>
    's vault_sync \<times> vault_db" where
  "sync_step core user v (Elsewhere op) s = (fst s, vault_step op (snd s))"
| "sync_step core user v FetchPage s = (case pull_page core user v (fst s) (snd s) of
     Inl e \<Rightarrow> s | Inr (hasMore, c') \<Rightarrow> (c', snd s))"
| "sync_step core user v (Save item flds now) s = snd (sync_save core user v item flds now s)"
| "sync_step core user v (PutSealed sealed now) s = snd (sync_putSealed core user v sealed now s)"
| "sync_step core user v (Remove i now) s = snd (sync_remove core user v i now s)"
| "sync_step core user v (RestoreVersion i x now) s = snd (sync_restoreVersion core user v i x now s)"
| "sync_step core user v (RestoreFromTrash t now) s = snd (sync_restoreFromTrash core user v t now s)"
| "sync_step core user v (PurgeTrash item now) s = snd (sync_purge user v item now s)"
| "sync_step core user v (ShowTrash now) s = snd (sync_trash core user v now s)"

definition sync_run :: "('f, 's) vault_core \<Rightarrow> id \<Rightarrow> id \<Rightarrow> 'f sync_event list \<Rightarrow> 's vault_sync \<times> vault_db \<Rightarrow>
    's vault_sync \<times> vault_db" where
  "sync_run core user v steps s = fold (sync_step core user v) steps s"


section \<open>Server writes, as a client sees them\<close>

definition vault_seq :: "id \<Rightarrow> vault_db \<Rightarrow> nat" where
  "vault_seq v db = (case getVault v db of None \<Rightarrow> 0 | Some vault \<Rightarrow> vt_seq vault)"

text \<open>Rows of the vault stay or are replaced by later ones with change numbers not handed out before.\<close>

definition advances :: "id \<Rightarrow> vault_db \<Rightarrow> vault_db \<Rightarrow> bool" where
  "advances v db db' \<longleftrightarrow> vault_wf db' \<and> vault_seq v db \<le> vault_seq v db' \<and>
     (\<forall>i r. find_item v i db' = Some r \<longrightarrow> find_item v i db = Some r \<or>
        (vault_seq v db < vi_seq r \<and> item_revision v i db < vi_revision r)) \<and>
     (\<forall>i. find_item v i db \<noteq> None \<longrightarrow> find_item v i db' \<noteq> None)"

lemma advances_same:
  assumes "vault_wf db'" "vaults db' = vaults db" "vault_items db' = vault_items db"
  shows "advances v db db'"
  using assms by (simp add: advances_def vault_seq_def getVault_def find_item_def)

lemma putItem_advances:
  assumes wf: "vault_wf db"
  shows "advances v db (snd (putItem w db))"
proof (rule putItem_cases [OF wf, of w])
  fix r assume "putItem w db = (Inr (Rejected r), db)"
  then show ?thesis using wf by (simp add: advances_same)
next
  fix vault vs
  assume v: "getVault (iw_vaultId w) db = Some vault"
    and base: "(case find_item (iw_vaultId w) (iw_itemId w) db of None \<Rightarrow> 0 | Some c \<Rightarrow> vi_revision c)
         = iw_baseRevision w"
    and eq: "putItem w db = (Inr (Written (toItem (written_item w (vt_seq vault + 1)))),
         db\<lparr>vaults := update_where (\<lambda>v. vt_id v = iw_vaultId w)
                (\<lambda>v. v\<lparr>vt_seq := vt_seq vault + 1\<rparr>) (vaults db),
            vault_item_versions := vs,
            vault_items := upsert vi_key (written_item w (vt_seq vault + 1))
              (\<lambda>_. written_item w (vt_seq vault + 1)) (vault_items db)\<rparr>)"
  let ?db' = "after_write w (vt_seq vault + 1) vs db"
  have db': "snd (putItem w db) = ?db'" using eq by (simp add: after_write_def)
  have wf': "vault_wf ?db'" using putItem_wf [OF wf, of w] db' by simp
  have item: "find_item v i ?db' = (if (v, i) = (iw_vaultId w, iw_itemId w)
      then Some (written_item w (vt_seq vault + 1)) else find_item v i db)" for i
    by (rule find_item_after_write [OF wf wf'])
  have seq: "vault_seq v ?db' = (if v = iw_vaultId w then vt_seq vault + 1 else vault_seq v db)"
    using getVault_after_write [OF wf v] by (simp add: vault_seq_def)
  show ?thesis
    unfolding db' advances_def
  proof (intro conjI allI impI)
    show "vault_seq v db \<le> vault_seq v ?db'" using seq v by (simp add: vault_seq_def)
    fix i r assume "find_item v i ?db' = Some r"
    then show "find_item v i db = Some r \<or>
        (vault_seq v db < vi_seq r \<and> item_revision v i db < vi_revision r)"
      using item [of i] v base by (auto simp: vault_seq_def item_revision_def split: if_splits)
  qed (use wf' item in auto)
qed

lemma vault_step_advances:
  assumes wf: "vault_wf db"
  shows "advances v db (vault_step op db)"
proof (cases op)
  case (CreateVault u req now)
  have append: "getVault v (db\<lparr>vaults := vaults db @ [x]\<rparr>) =
      (case getVault v db of None \<Rightarrow> if vt_id x = v then Some x else None | Some y \<Rightarrow> Some y)" for x
    by (simp add: getVault_def find_append split: option.split)
  show ?thesis
    using vault_step_wf [OF wf, of op] wf unfolding CreateVault
    by (auto simp: createVault_def insertVault_def insert_new_def Let_def advances_def vault_seq_def
        append find_item_def split: option.split)
next
  case (PutItem u x i req now)
  then show ?thesis
    using putItem_advances [OF wf] wf
    by (simp add: service_putItem_def assertAccess_cases snd_vault_write advances_same)
next
  case (DeleteItem u x i base now)
  then show ?thesis
    using putItem_advances [OF wf] wf
    by (simp add: service_deleteItem_def assertAccess_cases snd_vault_write advances_same)
next
  case (Purge u x item now)
  then show ?thesis
    using vault_step_wf [OF wf, of op] wf
    by (auto simp: service_purge_def assertAccess_cases purgeTrash_def Let_def
        intro!: advances_same split: if_splits)
next
  case (Sweep now)
  then show ?thesis
    using vault_step_wf [OF wf, of op] by (auto simp: purgeExpired_def intro!: advances_same)
qed

section \<open>The client's invariant\<close>

definition current_record :: "item_record \<Rightarrow> live_item option" where
  "current_record r = (case r of
     DeletedItem b \<Rightarrow> None
   | LiveItem b k d \<Rightarrow> Some \<lparr>lv_base = b, lv_encryptedKey = k, lv_encryptedData = d\<rparr>)"

definition readable :: "('f, 's) vault_core \<Rightarrow> id \<Rightarrow> item_record \<Rightarrow> bool" where
  "readable core v r \<longleftrightarrow> (case current_record r of
     None \<Rightarrow> True
   | Some l \<Rightarrow> core_summarizeItem core v (cipherOf l) \<noteq> None)"

text \<open>Records are under their ids, and each has the summary of its own ciphertext.\<close>

definition client_ok :: "('f, 's) vault_core \<Rightarrow> id \<Rightarrow> 's vault_sync \<Rightarrow> bool" where
  "client_ok core v c \<longleftrightarrow> distinct (map fst (vs_records c)) \<and>
     (\<forall>i l. known_record i c = Some l \<longrightarrow> ib_id (lv_base l) = i \<and>
        map_of (vs_summaries c) i = core_summarizeItem core v (cipherOf l) \<and>
        core_summarizeItem core v (cipherOf l) \<noteq> None)"

text \<open>
  What the client holds of an item is the server's record or an older one, and it is the
  server's record for every item up to the cursor that the core can read.
\<close>

definition never_ahead :: "id \<Rightarrow> 's vault_sync \<Rightarrow> vault_db \<Rightarrow> bool" where
  "never_ahead v c db \<longleftrightarrow> (\<forall>i l. known_record i c = Some l \<longrightarrow>
     (\<exists>r. find_item v i db = Some r \<and>
        (current_record (toItem r) = Some l \<or> ib_revision (lv_base l) < vi_revision r)))"

definition up_to_cursor :: "('f, 's) vault_core \<Rightarrow> id \<Rightarrow> 's vault_sync \<Rightarrow> vault_db \<Rightarrow> bool" where
  "up_to_cursor core v c db \<longleftrightarrow> (\<forall>i r. find_item v i db = Some r \<longrightarrow> vi_seq r \<le> vs_cursor c \<longrightarrow>
     readable core v (toItem r) \<longrightarrow> known_record i c = current_record (toItem r))"

definition sync_inv :: "('f, 's) vault_core \<Rightarrow> id \<Rightarrow> 's vault_sync \<times> vault_db \<Rightarrow> bool" where
  "sync_inv core v s \<longleftrightarrow> (case s of (c, db) \<Rightarrow> vault_wf db \<and> client_ok core v c \<and>
     never_ahead v c db \<and> up_to_cursor core v c db \<and> vs_cursor c \<le> vault_seq v db)"

lemma current_record_revision:
  "current_record r = Some l \<Longrightarrow> lv_base l = rec_base r"
  by (auto simp: current_record_def split: item_record.splits)

lemma never_aheadD:
  "never_ahead v c db \<Longrightarrow> known_record i c = Some l \<Longrightarrow> \<exists>r. find_item v i db = Some r \<and>
     (current_record (toItem r) = Some l \<or> ib_revision (lv_base l) < vi_revision r)"
  by (simp add: never_ahead_def)

lemma sync_inv_advances:
  assumes inv: "sync_inv core v (c, db)" and adv: "advances v db db'"
  shows "sync_inv core v (c, db')"
proof -
  have "\<exists>r. find_item v i db' = Some r \<and>
      (current_record (toItem r) = Some l \<or> ib_revision (lv_base l) < vi_revision r)"
    if "known_record i c = Some l" for i l
  proof -
    obtain r where r: "find_item v i db = Some r"
        "current_record (toItem r) = Some l \<or> ib_revision (lv_base l) < vi_revision r"
      using inv \<open>known_record i c = Some l\<close> by (auto simp: sync_inv_def never_ahead_def)
    then have le: "ib_revision (lv_base l) \<le> vi_revision r"
      using current_record_revision [of "toItem r" l] by auto
    obtain r' where r': "find_item v i db' = Some r'" using adv r(1) by (auto simp: advances_def)
    then have "find_item v i db = Some r' \<or> item_revision v i db < vi_revision r'"
      using adv by (auto simp: advances_def)
    then have "r' = r \<or> vi_revision r < vi_revision r'" using r(1) by (auto simp: item_revision_def)
    then show ?thesis using r' r(2) le by auto
  qed
  moreover have "known_record i c = current_record (toItem r)"
    if "find_item v i db' = Some r" "vi_seq r \<le> vs_cursor c" "readable core v (toItem r)" for i r
  proof -
    have "vs_cursor c \<le> vault_seq v db" using inv by (simp add: sync_inv_def)
    with that adv have "find_item v i db = Some r" by (fastforce simp: advances_def)
    with inv that show ?thesis by (auto simp: sync_inv_def up_to_cursor_def)
  qed
  ultimately show ?thesis
    using inv adv by (auto simp: sync_inv_def never_ahead_def up_to_cursor_def advances_def)
qed


section \<open>Applying a record of the server\<close>

lemma known_record_apply:
  "known_record j (apply_record core v r c) =
    (if j = ib_id (rec_base r) \<and> readable core v r \<and>
        (\<forall>l. known_record j c = Some l \<longrightarrow> ib_revision (lv_base l) < ib_revision (rec_base r))
     then current_record r else known_record j c)"
  by (cases r) (auto simp: apply_record_def store_record_def known_record_def current_record_def
      readable_def Let_def update_conv' delete_conv' split: option.splits)

lemma client_ok_apply:
  assumes "client_ok core v c"
  shows "client_ok core v (apply_record core v r c)"
  using assms
  by (cases r) (auto simp: apply_record_def store_record_def known_record_def client_ok_def Let_def
      update_conv' delete_conv' distinct_update distinct_delete split: option.splits
      simp del: map_of_eq_Some_iff)

lemma sync_inv_apply:
  assumes inv: "sync_inv core v (c, db)" and r: "find_item v i db = Some r"
  shows "sync_inv core v (apply_record core v (toItem r) c, db)"
    and "readable core v (toItem r) \<Longrightarrow>
      known_record i (apply_record core v (toItem r) c) = current_record (toItem r)"
proof -
  have wf: "vault_wf db" and ok: "client_ok core v c" and ahead: "never_ahead v c db"
    and upto: "up_to_cursor core v c db" and cur: "vs_cursor c \<le> vault_seq v db"
    using inv by (simp_all add: sync_inv_def)
  have i: "ib_id (rec_base (toItem r)) = i" using r wf by (auto simp: find_item_Some vi_key_def)
  have stale: "current_record (toItem r) = Some l"
    if "known_record i c = Some l" "vi_revision r \<le> ib_revision (lv_base l)" for l
  proof -
    obtain r' where "find_item v i db = Some r'"
        "current_record (toItem r') = Some l \<or> ib_revision (lv_base l) < vi_revision r'"
      using ahead \<open>known_record i c = Some l\<close> by (auto simp: never_ahead_def)
    with that(2) r show ?thesis by simp
  qed
  show current: "known_record i (apply_record core v (toItem r) c) = current_record (toItem r)"
    if "readable core v (toItem r)"
  proof (cases "\<exists>l. known_record i c = Some l \<and> vi_revision r \<le> ib_revision (lv_base l)")
    case True
    then show ?thesis using stale i by (auto simp: known_record_apply)
  next
    case False
    then show ?thesis using that i by (auto simp: known_record_apply not_le)
  qed
  have other: "known_record j (apply_record core v (toItem r) c) = known_record j c" if "j \<noteq> i" for j
    using that i by (simp add: known_record_apply)
  have unread: "known_record i (apply_record core v (toItem r) c) = known_record i c"
    if "\<not> readable core v (toItem r)"
    using that by (simp add: known_record_apply)
  have "never_ahead v (apply_record core v (toItem r) c) db"
    unfolding never_ahead_def
  proof (intro allI impI)
    fix j l assume l: "known_record j (apply_record core v (toItem r) c) = Some l"
    show "\<exists>r. find_item v j db = Some r \<and>
        (current_record (toItem r) = Some l \<or> ib_revision (lv_base l) < vi_revision r)"
    proof (cases "j = i \<and> readable core v (toItem r)")
      case True
      with l current r show ?thesis by auto
    next
      case False
      with l other unread have "known_record j c = Some l" by (cases "j = i") auto
      then show ?thesis using ahead by (simp add: never_ahead_def)
    qed
  qed
  moreover have "up_to_cursor core v (apply_record core v (toItem r) c) db"
    unfolding up_to_cursor_def
  proof (intro allI impI)
    fix j r'
    assume r': "find_item v j db = Some r'" "vi_seq r' \<le> vs_cursor (apply_record core v (toItem r) c)"
      "readable core v (toItem r')"
    show "known_record j (apply_record core v (toItem r) c) = current_record (toItem r')"
    proof (cases "j = i")
      case True
      with r' r current show ?thesis by simp
    next
      case False
      with r' other upto show ?thesis by (simp add: up_to_cursor_def)
    qed
  qed
  ultimately show "sync_inv core v (apply_record core v (toItem r) c, db)"
    using wf cur client_ok_apply [OF ok] by (simp add: sync_inv_def)
qed

text \<open>A page of current records brings each of them up to date.\<close>

lemma sync_inv_apply_all:
  assumes "sync_inv core v (c, db)"
    and "\<And>r. r \<in> set rs \<Longrightarrow> find_item v (vi_id r) db = Some r"
  shows "sync_inv core v (fold (apply_record core v) (map toItem rs) c, db) \<and>
    (\<forall>r \<in> set rs. readable core v (toItem r) \<longrightarrow>
       known_record (vi_id r) (fold (apply_record core v) (map toItem rs) c) = current_record (toItem r))"
  using assms
proof (induction rs rule: rev_induct)
  case Nil
  then show ?case by simp
next
  case (snoc r rs)
  let ?c = "fold (apply_record core v) (map toItem rs) c"
  have inv: "sync_inv core v (?c, db)" using snoc by simp
  have r: "find_item v (vi_id r) db = Some r" using snoc.prems(2) by simp
  have "known_record (vi_id x) (apply_record core v (toItem r) ?c) = current_record (toItem x)"
    if "x \<in> set rs" "readable core v (toItem x)" for x
  proof (cases "vi_id x = vi_id r")
    case True
    have "find_item v (vi_id x) db = Some x" by (rule snoc.prems(2)) (simp add: \<open>x \<in> set rs\<close>)
    then have "Some r = Some x" unfolding True r by simp
    then have "x = r" by simp
    with that sync_inv_apply(2) [OF inv r] show ?thesis by simp
  next
    case False
    then have "known_record (vi_id x) (apply_record core v (toItem r) ?c) = known_record (vi_id x) ?c"
      by (simp add: known_record_apply)
    moreover have "known_record (vi_id x) ?c = current_record (toItem x)"
      using snoc.IH [OF snoc.prems(1) snoc.prems(2)] that by simp
    ultimately show ?thesis by simp
  qed
  then show ?case using sync_inv_apply [OF inv r] by simp
qed


section \<open>Pages\<close>

definition changed_rows :: "id \<Rightarrow> nat \<Rightarrow> vault_db \<Rightarrow> vault_item_row list" where
  "changed_rows v since db = filter (\<lambda>r. since < vi_seq r)
     (sort_key vi_seq (filter (\<lambda>r. vi_vaultId r = v) (vault_items db)))"

lemma changed_feed:
  "filter (\<lambda>r. since < rec_seq r) (vault_feed v db) = map toItem (changed_rows v since db)"
  by (simp add: vault_feed_def changed_rows_def filter_map comp_def)

lemma changed_rows_find:
  assumes "vault_wf db"
  shows "r \<in> set (changed_rows v since db) \<longleftrightarrow> find_item v (vi_id r) db = Some r \<and> since < vi_seq r"
  using assms by (auto simp: changed_rows_def find_item_Some vi_key_def)

lemma row_seq_le:
  assumes "vault_wf db" and "find_item v i db = Some r"
  shows "vi_seq r \<le> vault_seq v db"
proof -
  have r: "r \<in> set (vault_items db)" "vi_vaultId r = v"
    using assms by (auto simp: find_item_Some vi_key_def)
  with vault_wfD(4) [OF assms(1)] obtain x where "x \<in> set (vaults db)" "vt_id x = v" "vi_seq r \<le> vt_seq x"
    by (auto simp: item_ok_def)
  moreover from this have "getVault v db = Some x"
    using assms(1) by (auto simp: getVault_Some)
  ultimately show ?thesis by (simp add: vault_seq_def)
qed

lemma service_sync_Inr:
  assumes "fst (service_sync user v since limit db) = Inr page"
  shows "page = sync_page_of rec_seq since limit (listChanges v db since (limit + 1))"
  using assms by (auto simp: service_sync_def assertAccess_cases split: if_splits)

lemma page_facts:
  assumes wf: "vault_wf db" and limit: "0 < limit"
    and page: "fst (service_sync user v since limit db) = Inr page"
  shows "pg_items page = map toItem (take limit (changed_rows v since db))"
    and "map toItem (changed_rows v (pg_cursor page) db) = map toItem (drop limit (changed_rows v since db))"
    and "pg_hasMore page \<longleftrightarrow> limit < length (changed_rows v since db)"
    and "pg_cursor page \<le> max since (vault_seq v db)"
proof -
  note p = service_sync_Inr [OF page]
  show items: "pg_items page = map toItem (take limit (changed_rows v since db))"
    using vault_feed.page_items [OF wf, where v = v and since = since and limit = limit] by (simp add: p changed_feed take_map)
  show "map toItem (changed_rows v (pg_cursor page) db) = map toItem (drop limit (changed_rows v since db))"
    using vault_feed.page_rest [OF wf limit, where v = v and since = since] by (simp add: p changed_feed drop_map)
  show "pg_hasMore page \<longleftrightarrow> limit < length (changed_rows v since db)"
    using vault_feed.page_hasMore [OF wf, where v = v and since = since and limit = limit] by (simp add: p changed_feed)
  show "pg_cursor page \<le> max since (vault_seq v db)"
  proof (cases "pg_items page = []")
    case True
    then show ?thesis by (simp add: p sync_page_of_def Let_def)
  next
    case False
    then have "pg_cursor page = rec_seq (last (pg_items page))"
      by (simp add: p sync_page_of_def Let_def)
    moreover obtain r where "r \<in> set (changed_rows v since db)" "last (pg_items page) = toItem r"
      using last_in_set [OF False] items by (auto dest!: in_set_takeD)
    ultimately show ?thesis using row_seq_le [OF wf] by (auto simp: changed_rows_find [OF wf] le_max_iff_disj)
  qed
qed

lemma sync_inv_page:
  assumes inv: "sync_inv core v (c, db)" and page: "pull_page core user v c db = Inr (hm, c')"
  shows "sync_inv core v (c', db)"
    and "\<not> hm \<Longrightarrow> find_item v i db = Some r \<Longrightarrow> vi_seq r \<le> vs_cursor c'"
proof -
  have wf: "vault_wf db" using inv by (simp add: sync_inv_def)
  obtain p where p: "fst (service_sync user v (vs_cursor c) MAX_SYNC_PAGE db) = Inr p"
    and c': "c' = apply_page core v p c" and hm: "hm = pg_hasMore p"
    using page by (auto simp: pull_page_def split: sum.splits)
  have limit: "0 < MAX_SYNC_PAGE" by (simp add: MAX_SYNC_PAGE_def)
  note facts = page_facts [OF wf limit p]
  let ?rs = "take MAX_SYNC_PAGE (changed_rows v (vs_cursor c) db)"
  let ?c = "fold (apply_record core v) (map toItem ?rs) c"
  have "find_item v (vi_id r) db = Some r" if "r \<in> set ?rs" for r
    using in_set_takeD [OF that] changed_rows_find [OF wf] by simp
  then have inv': "sync_inv core v (?c, db)" and cur: "\<And>r. r \<in> set ?rs \<Longrightarrow> readable core v (toItem r) \<Longrightarrow>
      known_record (vi_id r) ?c = current_record (toItem r)"
    using sync_inv_apply_all [OF inv] by blast+
  have c: "c' = ?c\<lparr>vs_cursor := pg_cursor p\<rparr>" using facts(1) by (simp add: c' apply_page_def)
  have cursor: "vs_cursor (fold (apply_record core v) xs c) = vs_cursor c" for xs
    by (induction xs rule: rev_induct) simp_all
  have cover: "r \<in> set ?rs" if "find_item v i db = Some r" "vs_cursor c < vi_seq r" "vi_seq r \<le> pg_cursor p"
    for r i
  proof -
    have id: "vi_id r = i" using that wf by (auto simp: find_item_Some vi_key_def)
    then have "r \<in> set (changed_rows v (vs_cursor c) db)" using that changed_rows_find [OF wf] by simp
    moreover have "r \<notin> set (drop MAX_SYNC_PAGE (changed_rows v (vs_cursor c) db))"
    proof
      assume "r \<in> set (drop MAX_SYNC_PAGE (changed_rows v (vs_cursor c) db))"
      then have "toItem r \<in> set (map toItem (changed_rows v (pg_cursor p) db))"
        unfolding facts(2) by simp
      then obtain r' where r': "r' \<in> set (changed_rows v (pg_cursor p) db)" "toItem r = toItem r'" by auto
      then have "pg_cursor p < rec_seq (toItem r')" using changed_rows_find [OF wf] by simp
      with r'(2) [symmetric] that(3) show False by simp
    qed
    ultimately show ?thesis by (metis Un_iff append_take_drop_id set_append)
  qed
  have "up_to_cursor core v c' db"
    unfolding up_to_cursor_def
  proof (intro allI impI)
    fix i r assume r: "find_item v i db = Some r" "vi_seq r \<le> vs_cursor c'" "readable core v (toItem r)"
    have id: "vi_id r = i" using r wf by (auto simp: find_item_Some vi_key_def)
    show "known_record i c' = current_record (toItem r)"
    proof (cases "vi_seq r \<le> vs_cursor c")
      case True
      then show ?thesis using inv' r cursor by (simp add: sync_inv_def up_to_cursor_def c known_record_def)
    next
      case False
      then have "r \<in> set ?rs" using cover r by (simp add: c)
      from cur [OF this r(3)] show ?thesis by (simp add: c known_record_def id)
    qed
  qed
  moreover have "vs_cursor c' \<le> vault_seq v db"
    using facts(4) inv by (simp add: c sync_inv_def)
  ultimately show "sync_inv core v (c', db)"
    using inv' by (simp add: sync_inv_def c client_ok_def never_ahead_def known_record_def)
  show "vi_seq r \<le> vs_cursor c'" if "\<not> hm" "find_item v i db = Some r"
  proof (rule ccontr)
    assume "\<not> vi_seq r \<le> vs_cursor c'"
    then have "toItem r \<in> set (map toItem (changed_rows v (pg_cursor p) db))"
      using that(2) wf by (auto simp: c changed_rows_def find_item_Some vi_key_def)
    with facts(2,3) that(1) hm show False by simp
  qed
qed


section \<open>Every step keeps the invariant\<close>

lemma sync_inv_emit [simp]:
  "sync_inv core v (emit core c, db) = sync_inv core v (c, db)"
  "sync_inv core v (c\<lparr>vs_unreadable := n\<rparr>, db) = sync_inv core v (c, db)"
  by (simp_all add: emit_def sync_inv_def client_ok_def never_ahead_def up_to_cursor_def known_record_def)

text \<open>A write answers with the item's record as the tables now have it.\<close>

definition answers_current :: "id \<Rightarrow> (vault_db \<Rightarrow> (vault_error, item_record, vault_db) outcome) \<Rightarrow>
    vault_db \<Rightarrow> bool" where
  "answers_current v send db \<longleftrightarrow> advances v db (snd (send db)) \<and>
     (\<forall>rec. fst (send db) = Inr rec \<or> fst (send db) = Inl (VConflict rec) \<longrightarrow>
        (\<exists>i r. rec = toItem r \<and> find_item v i (snd (send db)) = Some r))"

lemma answers_current_write:
  assumes wf: "vault_wf db"
  shows "answers_current (iw_vaultId w) (vault_write w) db"
proof (rule putItem_cases [OF wf, of w])
  fix r
  assume eq: "putItem w db = (Inr (Rejected r), db)"
    and r: "r = (if getVault (iw_vaultId w) db = None then None
            else map_option toItem (find_item (iw_vaultId w) (iw_itemId w) db))"
  show ?thesis
    using wf r unfolding answers_current_def
    by (auto simp: vault_write_def eq advances_same split: option.splits if_splits)
next
  fix vault vs
  assume "putItem w db = (Inr (Written (toItem (written_item w (vt_seq vault + 1)))),
         db\<lparr>vaults := update_where (\<lambda>v. vt_id v = iw_vaultId w)
                (\<lambda>v. v\<lparr>vt_seq := vt_seq vault + 1\<rparr>) (vaults db),
            vault_item_versions := vs,
            vault_items := upsert vi_key (written_item w (vt_seq vault + 1))
              (\<lambda>_. written_item w (vt_seq vault + 1)) (vault_items db)\<rparr>)"
  then have eq: "putItem w db = (Inr (Written (toItem (written_item w (vt_seq vault + 1)))),
      after_write w (vt_seq vault + 1) vs db)"
    by (simp add: after_write_def)
  have "vault_wf (after_write w (vt_seq vault + 1) vs db)" using putItem_wf [OF wf, of w] eq by simp
  from find_item_after_write [OF wf this, of "iw_vaultId w" "iw_itemId w"]
  show ?thesis
    using putItem_advances [OF wf, of "iw_vaultId w" w] unfolding answers_current_def
    by (auto simp: vault_write_def eq)
qed

lemma answers_current_service:
  assumes wf: "vault_wf db"
  shows "answers_current v (service_putItem user v i req now) db"
    and "answers_current v (service_deleteItem user v i base now) db"
proof -
  have w: "answers_current v (vault_write \<lparr>iw_vaultId = v, iw_itemId = i, iw_baseRevision = n,
      iw_blobs = b, iw_now = now\<rparr>) db" for n b
    using answers_current_write [OF wf, of "\<lparr>iw_vaultId = v, iw_itemId = i, iw_baseRevision = n,
      iw_blobs = b, iw_now = now\<rparr>"] by simp
  have t: "answers_current v (throw (VHttp e)) db" for e
    using wf by (simp add: answers_current_def advances_same)
  show "answers_current v (service_putItem user v i req now) db"
    using w t by (simp add: answers_current_def service_putItem_def assertAccess_cases)
  show "answers_current v (service_deleteItem user v i base now) db"
    using w t by (simp add: answers_current_def service_deleteItem_def assertAccess_cases)
qed

lemma sync_inv_write:
  assumes inv: "sync_inv core v s" and send: "answers_current v send (snd s)"
  shows "sync_inv core v (snd (sync_write core v send s))"
proof -
  obtain c db where s: "s = (c, db)" by (cases s)
  obtain x db' where x: "send db = (x, db')" by (cases "send db")
  have inv': "sync_inv core v (c, db')"
    using sync_inv_advances [OF inv [unfolded s], of db'] send by (simp add: s x answers_current_def)
  show ?thesis
  proof (cases x)
    case (Inr rd)
    then obtain i r where "rd = toItem r" "find_item v i db' = Some r"
      using send by (auto simp: s x answers_current_def)
    then show ?thesis using sync_inv_apply(1) [OF inv'] by (simp add: sync_write_def s x Inr)
  next
    case (Inl e)
    show ?thesis
    proof (cases e)
      case (VHttp h)
      then show ?thesis using inv' by (simp add: sync_write_def s x Inl)
    next
      case (VConflict rd)
      then obtain i r where "rd = toItem r" "find_item v i db' = Some r"
        using send by (auto simp: s x Inl answers_current_def)
      then show ?thesis using sync_inv_apply(1) [OF inv'] by (simp add: sync_write_def s x Inl VConflict)
    qed
  qed
qed

text \<open>What a handler leaves when the rest of it only returns.\<close>

lemma snd_and_then_ret [simp]: "snd (and_then m (\<lambda>x s. ret (f x) s)) = snd m"
  by (cases m; cases "fst m") (auto simp: and_then_def)

lemma sync_inv_the_record:
  "sync_inv core v s \<Longrightarrow> (\<And>r. sync_inv core v (snd (f r s))) \<Longrightarrow>
     sync_inv core v (snd (and_then (the_record i s) f))"
  by (simp add: the_record_def split: option.split)

lemma sync_inv_put:
  assumes "sync_inv core v s"
  shows "sync_inv core v (snd (sync_write core v (service_putItem user v i req now) s))"
    and "sync_inv core v (snd (sync_write core v (service_deleteItem user v i base now) s))"
proof -
  have "vault_wf (snd s)" using assms by (auto simp: sync_inv_def)
  note answers = answers_current_service [OF this]
  show "sync_inv core v (snd (sync_write core v (service_putItem user v i req now) s))"
    by (rule sync_inv_write [OF assms answers(1)])
  show "sync_inv core v (snd (sync_write core v (service_deleteItem user v i base now) s))"
    by (rule sync_inv_write [OF assms answers(2)])
qed

lemma sync_inv_save:
  assumes "sync_inv core v s"
  shows "sync_inv core v (snd (sync_save_existing core user v existing flds now s))"
  using assms by (simp add: sync_save_existing_def sync_inv_put split: option.split)

lemma sync_step_inv:
  assumes inv: "sync_inv core v s"
  shows "sync_inv core v (sync_step core user v e s)"
proof (cases e)
  case (Elsewhere op)
  obtain c db where s: "s = (c, db)" by (cases s)
  have "advances v db (vault_step op db)"
    using inv by (intro vault_step_advances) (simp add: s sync_inv_def)
  with inv show ?thesis by (simp add: Elsewhere s sync_inv_advances)
next
  case FetchPage
  show ?thesis
    using inv sync_inv_page(1) [of core v "fst s" "snd s" user]
    by (auto simp: FetchPage split: sum.split)
next
  case (Save item flds now)
  show ?thesis
    using inv by (auto simp: Save sync_save_def sync_inv_save split: option.split
        intro!: sync_inv_the_record)
next
  case (PutSealed sealed now)
  show ?thesis using inv by (simp add: PutSealed sync_putSealed_def sync_inv_put)
next
  case (Remove i now)
  show ?thesis
    using inv by (auto simp: Remove sync_remove_def sync_inv_put intro!: sync_inv_the_record)
next
  case (RestoreVersion i x now)
  show ?thesis
    using inv by (auto simp: RestoreVersion sync_restoreVersion_def sync_inv_put
        intro!: sync_inv_the_record)
next
  case (RestoreFromTrash t now)
  show ?thesis using inv by (simp add: RestoreFromTrash sync_restoreFromTrash_def sync_inv_put)
next
  case (PurgeTrash item now)
  obtain c db where s: "s = (c, db)" by (cases s)
  have "advances v db (vault_step (Purge user v item now) db)"
    using inv by (intro vault_step_advances) (simp add: s sync_inv_def)
  then show ?thesis
    using inv by (auto simp: PurgeTrash s sync_purge_def sync_inv_advances split: prod.split sum.split)
next
  case (ShowTrash now)
  obtain c db where s: "s = (c, db)" by (cases s)
  show ?thesis using inv by (simp add: ShowTrash s sync_trash_def split: sum.split prod.split)
qed

lemma sync_run_inv: "sync_inv core v s \<Longrightarrow> sync_inv core v (sync_run core user v es s)"
  unfolding sync_run_def by (induction es arbitrary: s) (simp_all add: sync_step_inv)

lemma sync_inv_new: "vault_wf db \<Longrightarrow> sync_inv core v (new_vault_sync, db)"
proof -
  assume wf: "vault_wf db"
  have "1 \<le> vi_seq r" if "find_item v i db = Some r" for i r
    using vault_wfD(4) [OF wf, of r] that wf by (auto simp: find_item_Some item_ok_def)
  then show ?thesis
    using wf by (fastforce simp: sync_inv_def client_ok_def never_ahead_def up_to_cursor_def
        new_vault_sync_def known_record_def)
qed


section \<open>Convergence\<close>

lemma pull_inv:
  assumes "sync_inv core v (c, db)" and own: "map_option vt_ownerId (getVault v db) = Some user"
  shows "\<exists>c'. pull core user v c db = (Inr (), (emit core c', db)) \<and> sync_inv core v (c', db) \<and>
    (\<forall>i r. find_item v i db = Some r \<longrightarrow> vi_seq r \<le> vs_cursor c')"
  using assms
proof (induction core user v c db rule: pull.induct)
  case (1 core user v c db)
  have "\<not> isl (fst (service_sync user v (vs_cursor c) MAX_SYNC_PAGE db))"
    using 1(3) by (auto simp: service_sync_def assertAccess_cases)
  then obtain hm c' where page: "pull_page core user v c db = Inr (hm, c')"
    by (cases "fst (service_sync user v (vs_cursor c) MAX_SYNC_PAGE db)") (auto simp: pull_page_def)
  note inv = sync_inv_page [OF 1(2) page]
  show ?case
  proof (cases hm)
    case True
    have "pull core user v c db = pull core user v c' db"
      by (subst pull.simps) (simp add: page True)
    then show ?thesis using 1(1) [OF page refl True inv(1) 1(3)] by simp
  next
    case False
    then have "pull core user v c db = (Inr (), (emit core c', db))"
      by (subst pull.simps) (simp add: page ret_def)
    then show ?thesis using inv False by blast
  qed
qed

lemma known_record_emit [simp]: "known_record i (emit core c) = known_record i c"
  by (simp add: emit_def known_record_def)

lemma snapshot_emit:
  assumes "client_ok core v c"
  shows "x \<in> set (vs_snapshot (emit core c)) \<longleftrightarrow>
    (\<exists>l. known_record (li_id x) c = Some l \<and> li_revision x = ib_revision (lv_base l) \<and>
       core_summarizeItem core v (cipherOf l) = Some (li_summary x))"
proof -
  have d: "distinct (map fst (vs_records c))" using assms by (simp add: client_ok_def)
  have l: "ib_id (lv_base l) = i" "map_of (vs_summaries c) i = core_summarizeItem core v (cipherOf l)"
      "core_summarizeItem core v (cipherOf l) \<noteq> None" if "(i, l) \<in> set (vs_records c)" for i l
    using assms that by (auto simp: client_ok_def known_record_def d)
  have "x \<in> set (vs_snapshot (emit core c)) \<longleftrightarrow> (\<exists>i l. (i, l) \<in> set (vs_records c) \<and>
      x = \<lparr>li_id = ib_id (lv_base l), li_revision = ib_revision (lv_base l),
           li_summary = the (map_of (vs_summaries c) (ib_id (lv_base l)))\<rparr>)"
    by (force simp: emit_def)
  also have "\<dots> \<longleftrightarrow> (\<exists>i l. (i, l) \<in> set (vs_records c) \<and> li_id x = i \<and>
      li_revision x = ib_revision (lv_base l) \<and> core_summarizeItem core v (cipherOf l) = Some (li_summary x))"
    by (cases x) (use l in fastforce)
  finally show ?thesis by (simp add: known_record_def d)
qed



text \<open>The item a query finds is one of the list: the one under that id, or else the only one
  so titled up to case and outer blanks.\<close>

theorem sync_find_unique:
  assumes "sync_find core query c = Inr i"
  shows "i \<in> set (vs_snapshot c) \<and> (li_id i = query \<or>
    ((\<forall>x \<in> set (vs_snapshot c). li_id x \<noteq> query) \<and>
     filter (\<lambda>x. title_key (core_title core (li_summary x)) = title_key query) (vs_snapshot c) = [i]))"
proof (cases "find (\<lambda>i. li_id i = query) (vs_snapshot c)")
  case (Some x)
  then show ?thesis using assms by (auto simp: sync_find_def dest: find_set)
next
  case None
  then have one: "filter (\<lambda>x. title_key (core_title core (li_summary x)) = title_key query)
      (vs_snapshot c) = [i]"
    using assms by (auto simp: sync_find_def split: list.splits)
  have "i \<in> set (vs_snapshot c)" using arg_cong [OF one, of set] by auto
  with one None show ?thesis by (auto simp: find_None_iff)
qed

section \<open>Concrete runs\<close>

definition demo_core :: "(string, string) vault_core" where
  "demo_core = \<lparr>core_sealItem = (\<lambda>v old f. Some \<lparr>ic_id = ''j'', ic_encryptedKey = demo_blob v,
       ic_encryptedData = (demo_blob ''j'')\<lparr>bl_ct := f\<rparr>\<rparr>),
     core_openItem = (\<lambda>v x. Some (bl_ct (ic_encryptedData x))),
     core_summarizeItem = (\<lambda>v x. Some (bl_ct (ic_encryptedData x))),
     core_title = (\<lambda>s. s), core_collate = (\<lambda>s. s)\<rparr>"

lemma demo_readable: "readable demo_core v r"
  by (simp add: readable_def demo_core_def split: option.split)

definition demo_deletion :: "string vault_sync \<times> vault_db" where
  "demo_deletion = sync_run demo_core ''u'' ''v''
     [FetchPage, Elsewhere (DeleteItem ''u'' ''v'' ''i'' 1 9), Save None ''Title'' 10]
     (new_vault_sync, demo_vault_db)"


theorem sync_find_unique_witness:
  "\<exists>i. sync_find demo_core '' tITLE '' (fst demo_deletion) = Inr i \<and> li_id i = ''j''"
proof -
  have "\<not> isl (sync_find demo_core '' tITLE '' (fst demo_deletion))" by code_simp
  then obtain i where i: "sync_find demo_core '' tITLE '' (fst demo_deletion) = Inr i"
    by (cases "sync_find demo_core '' tITLE '' (fst demo_deletion)") auto
  have "\<forall>x \<in> set (vs_snapshot (fst demo_deletion)). li_id x = ''j'' \<or> li_id x = ''i''" by code_simp
  moreover have "\<forall>x \<in> set (vs_snapshot (fst demo_deletion)). li_id x \<noteq> '' tITLE ''" by code_simp
  moreover have "map li_id (filter (\<lambda>x. title_key (core_title demo_core (li_summary x)) = title_key '' tITLE '')
      (vs_snapshot (fst demo_deletion))) = [''j'']"
    by code_simp
  ultimately show ?thesis using sync_find_unique [OF i] i by auto
qed

text \<open>
  A client forgets the revision of an item whose deletion it has applied. The answer to an older
  write of that item that arrives after it is then taken for news: the deleted item is back in
  the list, and stays there through every later pull, whose cursor is past the deletion.
\<close>

definition demo_late_answer :: item_record where
  "demo_late_answer = (case find_item ''v'' ''i'' demo_vault_db of Some r \<Rightarrow> toItem r)"

definition demo_resurrected :: "string vault_sync" where
  "demo_resurrected =
     (let db = snd demo_deletion;
          c = fst (snd (pull demo_core ''u'' ''v'' (fst demo_deletion) db));
          late = apply_record demo_core ''v'' demo_late_answer c
      in fst (snd (pull demo_core ''u'' ''v'' late db)))"

theorem late_answer_resurrects:
  "map_option vi_deleted (find_item ''v'' ''i'' (snd demo_deletion)) = Some True"
  "''i'' \<in> set (map li_id (vs_snapshot demo_resurrected))"
  by code_simp+

end
