(* ===== verification/Totp.thy ===== *)
theory Totp
  imports Prelude "HOL-Library.Word"
begin

unbundle bit_operations_syntax

text \<open>
  One-time passwords of \<^verbatim>\<open>apps/api/src/two-factor/totp.ts\<close>: base32, the HOTP value of a counter
  and the check of a TOTP code. Bytes are \<open>8 word\<close>; the accumulators of the base32 loops are
  JavaScript numbers that go through 32-bit shifts, so they are \<open>32 word\<close> and wrap as they do
  there. HMAC-SHA1 of \<^verbatim>\<open>node:crypto\<close> is a parameter, whose documented digest is 20 bytes.
\<close>

section \<open>Base32\<close>

definition BASE32_ALPHABET :: string where
  "BASE32_ALPHABET = ''ABCDEFGHIJKLMNOPQRSTUVWXYZ234567''"

text \<open>The inner \<^verbatim>\<open>while (bits >= 5)\<close>: the digits out, the bits that stay.\<close>

fun emit_digits :: "nat \<Rightarrow> 32 word \<Rightarrow> string \<times> nat" where
  "emit_digits bits value =
     (if 5 \<le> bits
      then (case emit_digits (bits - 5) value of
              (out, rest) \<Rightarrow> (BASE32_ALPHABET ! unat (drop_bit (bits - 5) value AND 31) # out, rest))
      else ('''', bits))"

declare emit_digits.simps [simp del]

fun base32_loop :: "8 word list \<Rightarrow> nat \<Rightarrow> 32 word \<Rightarrow> string" where
  "base32_loop [] bits value =
     (if 0 < bits then [BASE32_ALPHABET ! unat (push_bit (5 - bits) value AND 31)] else '''')"
| "base32_loop (byte # bytes) bits value =
     (let value' = push_bit 8 value OR ucast byte
      in case emit_digits (bits + 8) value' of
           (out, rest) \<Rightarrow> out @ base32_loop bytes rest value')"

definition base32Encode :: "8 word list \<Rightarrow> string" where
  "base32Encode bytes = base32_loop bytes 0 0"

definition js_index :: "string \<Rightarrow> char \<Rightarrow> nat option" where
  "js_index s ch = find (\<lambda>i. s ! i = ch) [0..<length s]"

definition ascii_upper :: "char \<Rightarrow> char" where
  "ascii_upper ch = (let n = (of_char ch :: nat) in
     if 97 \<le> n \<and> n \<le> 122 then char_of (n - 32) else ch)"

text \<open>\<open>None\<close>: \<^verbatim>\<open>invalid base32\<close>.\<close>

fun base32_read :: "string \<Rightarrow> nat \<Rightarrow> 32 word \<Rightarrow> 8 word list option" where
  "base32_read [] bits value = Some []"
| "base32_read (ch # cs) bits value =
     (case js_index BASE32_ALPHABET ch of
        None \<Rightarrow> None
      | Some index \<Rightarrow>
         (let value' = push_bit 5 value OR of_nat index
          in if 8 \<le> bits + 5
             then map_option ((#) (ucast (drop_bit (bits + 5 - 8) value' AND 255)))
                    (base32_read cs (bits + 5 - 8) value')
             else base32_read cs (bits + 5) value'))"

definition base32Decode :: "string \<Rightarrow> 8 word list option" where
  "base32Decode s =
     base32_read (map ascii_upper (rev (dropWhile (\<lambda>ch. ch = CHR ''='') (rev s)))) 0 0"

section \<open>HOTP and TOTP\<close>

definition TOTP_DRIFT_STEPS :: int where
  "TOTP_DRIFT_STEPS = 1"

definition TOTP_DIGITS :: nat where
  "TOTP_DIGITS = 6"

definition TOTP_PERIOD_SECONDS :: int where
  "TOTP_PERIOD_SECONDS = 30"

text \<open>\<^verbatim>\<open>Math.floor(nowMs / 1000 / 30)\<close>; the clock counts whole milliseconds.\<close>

definition timeStep :: "time \<Rightarrow> int" where
  "timeStep nowMs = nowMs div (1000 * TOTP_PERIOD_SECONDS)"

definition uint64_be :: "64 word \<Rightarrow> 8 word list" where
  "uint64_be w = map (\<lambda>i. ucast (drop_bit (8 * (7 - i)) w)) [0..<8]"

text \<open>\<^verbatim>\<open>writeBigUInt64BE\<close> throws a \<^verbatim>\<open>RangeError\<close> outside of the unsigned 64-bit range.\<close>

definition counter_bytes :: "int \<Rightarrow> 8 word list option" where
  "counter_bytes n = (if 0 \<le> n \<and> n < 2 ^ 64 then Some (uint64_be (word_of_int n)) else None)"

text \<open>\<^verbatim>\<open>readUInt32BE\<close> throws past the end.\<close>

definition readUInt32BE :: "8 word list \<Rightarrow> nat \<Rightarrow> 32 word option" where
  "readUInt32BE bs i =
     (if i + 4 \<le> length bs
      then Some (push_bit 24 (ucast (bs ! i)) OR push_bit 16 (ucast (bs ! (i + 1))) OR
                 push_bit 8 (ucast (bs ! (i + 2))) OR ucast (bs ! (i + 3)))
      else None)"

fun decimal :: "nat \<Rightarrow> string" where
  "decimal n = (if n < 10 then [char_of (48 + n)]
     else decimal (n div 10) @ [char_of (48 + n mod 10)])"

declare decimal.simps [simp del]

definition padStart :: "nat \<Rightarrow> char \<Rightarrow> string \<Rightarrow> string" where
  "padStart n ch s = replicate (n - length s) ch @ s"

type_synonym hmac_sha1 = "8 word list \<Rightarrow> 8 word list \<Rightarrow> 8 word list"

text \<open>\<open>None\<close> is a thrown \<^verbatim>\<open>RangeError\<close>.\<close>

definition hotp :: "hmac_sha1 \<Rightarrow> 8 word list \<Rightarrow> int \<Rightarrow> string option" where
  "hotp hmac secret counter =
     Option.bind (counter_bytes counter) (\<lambda>msg.
       let mac = hmac secret msg;
           offset = unat (last mac AND 15)
       in map_option
            (\<lambda>w. padStart TOTP_DIGITS (CHR ''0'') (decimal (unat (w AND 0x7fffffff) mod 10 ^ TOTP_DIGITS)))
            (readUInt32BE mac offset))"

text \<open>
  The loop over the window. The first matching step that is newer than the last one used is
  kept (\<^verbatim>\<open>matched ??= step\<close>).
\<close>

fun match_steps :: "hmac_sha1 \<Rightarrow> 8 word list \<Rightarrow> string \<Rightarrow> int option \<Rightarrow> int list \<Rightarrow> int option \<Rightarrow>
    int option option" where
  "match_steps hmac secret code lastUsed [] matched = Some matched"
| "match_steps hmac secret code lastUsed (step # steps) matched =
     Option.bind (hotp hmac secret step) (\<lambda>expected.
       match_steps hmac secret code lastUsed steps
         (if expected = code \<and> (case lastUsed of None \<Rightarrow> True | Some l \<Rightarrow> l < step)
          then (case matched of None \<Rightarrow> Some step | Some m \<Rightarrow> Some m) else matched))"

definition verifyTotp :: "hmac_sha1 \<Rightarrow> 8 word list \<Rightarrow> string \<Rightarrow> time \<Rightarrow> int option \<Rightarrow>
    int option option" where
  "verifyTotp hmac secret code nowMs lastUsed =
     match_steps hmac secret code lastUsed
       [timeStep nowMs - TOTP_DRIFT_STEPS .. timeStep nowMs + TOTP_DRIFT_STEPS] None"

section \<open>Bit strings\<close>

text \<open>The low \<open>n\<close> bits of a word, the highest first.\<close>

definition bits_of :: "nat \<Rightarrow> 'a::len word \<Rightarrow> bool list" where
  "bits_of n w = map (bit w) (rev [0..<n])"

lemma length_bits_of [simp]: "length (bits_of n w) = n"
  by (simp add: bits_of_def)

lemma bits_of_0 [simp]: "bits_of 0 w = []"
  by (simp add: bits_of_def)

lemma bits_of_split: "bits_of (n + k) w = bits_of n (drop_bit k w) @ bits_of k w"
proof -
  have "[0..<n + k] = [0..<k] @ map (\<lambda>i. i + k) [0..<n]"
    by (simp add: map_add_upt upt_add_eq_append [of 0 k n] add.commute)
  then show ?thesis by (simp add: bits_of_def rev_map bit_drop_bit_eq comp_def add.commute)
qed

lemma bits_of_cong: "(\<And>i. i < n \<Longrightarrow> bit v i = bit w i) \<Longrightarrow> bits_of n v = bits_of n w"
  by (simp add: bits_of_def)


lemma bits_of_push:
  fixes v x :: "32 word"
  assumes "b + n \<le> 32" and "\<And>i. n \<le> i \<Longrightarrow> \<not> bit x i"
  shows "bits_of (b + n) (push_bit n v OR x) = bits_of b v @ bits_of n x"
proof -
  have "bits_of b (drop_bit n (push_bit n v OR x)) = bits_of b v"
    using assms by (intro bits_of_cong) (auto simp: bit_drop_bit_eq bit_or_iff bit_push_bit_iff)
  moreover have "bits_of n (push_bit n v OR x) = bits_of n x"
    using assms by (intro bits_of_cong) (auto simp: bit_or_iff bit_push_bit_iff)
  ultimately show ?thesis by (simp add: bits_of_split)
qed

lemma bits_of_inj:
  fixes x y :: "8 word"
  assumes "bits_of 8 x = bits_of 8 y"
  shows "x = y"
proof (rule bit_word_eqI)
  fix n assume "n < LENGTH(8)"
  then show "bit x n = bit y n" using assms by (auto simp: bits_of_def)
qed

lemma bytes_eqI:
  assumes "concat (map (bits_of 8) xs) = concat (map (bits_of 8) ys)" and "length xs = length ys"
  shows "xs = (ys :: 8 word list)"
  using assms(2,1) by (induction xs ys rule: list_induct2) (auto dest: bits_of_inj)

lemma length_bits_concat [simp]: "length (concat (map (bits_of 8) xs)) = 8 * length xs"
  by (induction xs) simp_all

section \<open>Base32 is a round trip\<close>

lemma js_index_alphabet: "i < 32 \<Longrightarrow> js_index BASE32_ALPHABET (BASE32_ALPHABET ! i) = Some i"
proof -
  have "\<forall>i \<in> set [0..<32]. js_index BASE32_ALPHABET (BASE32_ALPHABET ! i) = Some i" by code_simp
  then show "i < 32 \<Longrightarrow> ?thesis" by simp
qed

definition is_digit :: "char \<Rightarrow> bool" where
  "is_digit ch \<longleftrightarrow> ch \<in> set BASE32_ALPHABET"

definition digit_bits :: "char \<Rightarrow> bool list" where
  "digit_bits ch = bits_of 5 (of_nat (the (js_index BASE32_ALPHABET ch)) :: 32 word)"

lemma low_bits_less: "unat (w AND 31 :: 32 word) < 32"
proof -
  have "w AND 31 = take_bit 5 w" by (simp add: take_bit_eq_mask mask_eq_exp_minus_1)
  then show ?thesis using take_bit_nat_less_exp [of 5 "unat w"] by (simp add: unsigned_take_bit_eq)
qed

lemma digit_of_word:
  fixes w :: "32 word"
  shows "is_digit (BASE32_ALPHABET ! unat (w AND 31))"
    and "digit_bits (BASE32_ALPHABET ! unat (w AND 31)) = bits_of 5 w"
proof -
  have len: "length BASE32_ALPHABET = 32" by (simp add: BASE32_ALPHABET_def)
  show "is_digit (BASE32_ALPHABET ! unat (w AND 31))"
    using low_bits_less [of w] by (simp add: is_digit_def len)
  have "w AND 31 = take_bit 5 w" by (simp add: take_bit_eq_mask mask_eq_exp_minus_1)
  then have "bits_of 5 (w AND 31) = bits_of 5 w"
    by (intro bits_of_cong) (simp add: bit_take_bit_iff)
  then show "digit_bits (BASE32_ALPHABET ! unat (w AND 31)) = bits_of 5 w"
    using js_index_alphabet [OF low_bits_less] by (simp add: digit_bits_def)
qed

lemma emit_digits_bits:
  assumes "emit_digits b v = (out, rest)"
  shows "concat (map digit_bits out) @ bits_of rest v = bits_of b v \<and> rest < 5 \<and>
    (\<forall>ch \<in> set out. is_digit ch)"
  using assms
proof (induction b v arbitrary: out rest rule: emit_digits.induct)
  case (1 b v)
  show ?case
  proof (cases "5 \<le> b")
    case True
    obtain out' where out: "out = BASE32_ALPHABET ! unat (drop_bit (b - 5) v AND 31) # out'"
        "emit_digits (b - 5) v = (out', rest)"
      using 1(2) True by (auto simp: emit_digits.simps [of b] split: prod.splits)
    have "bits_of b v = bits_of 5 (drop_bit (b - 5) v) @ bits_of (b - 5) v"
      using bits_of_split [of 5 "b - 5" v] True by simp
    then show ?thesis using 1(1) [OF True out(2)] digit_of_word by (auto simp: out(1))
  next
    case False
    then show ?thesis using 1(2) by (simp add: emit_digits.simps [of b])
  qed
qed

lemma base32_loop_bits:
  assumes "b < 5"
  shows "\<exists>pad. concat (map digit_bits (base32_loop bytes b v)) =
      bits_of b v @ concat (map (bits_of 8) bytes) @ pad \<and> length pad < 5 \<and>
    (\<forall>ch \<in> set (base32_loop bytes b v). is_digit ch)"
  using assms
proof (induction bytes b v rule: base32_loop.induct)
  case (1 b v)
  have "bits_of 5 (push_bit (5 - b) v OR 0) = bits_of b v @ bits_of (5 - b) (0 :: 32 word)"
    using bits_of_push [of b "5 - b" 0 v] 1 by simp
  then show ?case
    using 1 digit_of_word [of "push_bit (5 - b) v"] by (cases "b = 0") auto
next
  case (2 byte bytes b v)
  let ?v = "push_bit 8 v OR ucast byte"
  obtain out rest where e: "emit_digits (b + 8) ?v = (out, rest)" by fastforce
  note e' = emit_digits_bits [OF e]
  have "bits_of (b + 8) ?v = bits_of b v @ bits_of 8 (ucast byte :: 32 word)"
    using 2(2) by (intro bits_of_push) (auto simp: bit_simps dest: bit_imp_le_length)
  moreover have "bits_of 8 (ucast byte :: 32 word) = bits_of 8 byte"
    by (simp add: bits_of_def bit_simps)
  ultimately have v': "concat (map digit_bits out) @ bits_of rest ?v = bits_of b v @ bits_of 8 byte"
    using e' by simp
  obtain pad where "concat (map digit_bits (base32_loop bytes rest ?v)) =
      bits_of rest ?v @ concat (map (bits_of 8) bytes) @ pad" "length pad < 5"
      "\<forall>ch \<in> set (base32_loop bytes rest ?v). is_digit ch"
    using 2(1) [OF refl e [symmetric]] e' by auto
  moreover from this v' have "concat (map digit_bits (out @ base32_loop bytes rest ?v)) =
      bits_of b v @ concat (map (bits_of 8) (byte # bytes)) @ pad"
    using v' by (simp add: append_assoc [symmetric] del: append_assoc)
  ultimately show ?case using e e' by (intro exI [of _ pad]) (auto simp: Let_def)
qed

lemma digit_index:
  assumes "is_digit ch"
  obtains i where "js_index BASE32_ALPHABET ch = Some i" "i < 32"
proof -
  obtain i where "i < length BASE32_ALPHABET" "ch = BASE32_ALPHABET ! i"
    using assms by (auto simp: is_digit_def in_set_conv_nth)
  with js_index_alphabet [of i] that show thesis by (simp add: BASE32_ALPHABET_def)
qed

lemma base32_read_bits:
  assumes "\<forall>ch \<in> set cs. is_digit ch" and "b < 8"
  shows "\<exists>bs. base32_read cs b v = Some bs \<and> length bs = (b + 5 * length cs) div 8 \<and>
    concat (map (bits_of 8) bs) =
      take (8 * length bs) (bits_of b v @ concat (map digit_bits cs))"
  using assms
proof (induction cs arbitrary: b v)
  case (Cons ch cs)
  obtain i where i: "js_index BASE32_ALPHABET ch = Some i" "i < 32"
    using Cons.prems(1) digit_index by auto
  let ?v = "push_bit 5 v OR of_nat i"
  have "\<not> bit (of_nat i :: 32 word) j" if "5 \<le> j" for j
  proof -
    have "(2::nat) ^ 5 \<le> 2 ^ j" using \<open>5 \<le> j\<close> by (intro power_increasing) auto
    then have "i div 2 ^ j = 0" using i(2) by simp
    then have "\<not> bit i j" by (simp add: bit_iff_odd)
    then show ?thesis by (simp add: bit_simps)
  qed
  then have bits: "bits_of (b + 5) ?v = bits_of b v @ digit_bits ch"
    using bits_of_push [of b 5 "of_nat i" v] Cons.prems(2) i by (simp add: digit_bits_def)
  show ?case
  proof (cases "8 \<le> b + 5")
    case True
    let ?k = "b + 5 - 8"
    obtain bs where bs: "base32_read cs ?k ?v = Some bs" "length bs = (?k + 5 * length cs) div 8"
        "concat (map (bits_of 8) bs) = take (8 * length bs) (bits_of ?k ?v @ concat (map digit_bits cs))"
    proof -
      have "?k < 8" using Cons.prems(2) by linarith
      from Cons.IH [OF _ this, of ?v] Cons.prems(1) that show thesis by auto
    qed
    let ?w = "drop_bit ?k ?v"
    have "bits_of 8 (ucast (?w AND 255) :: 8 word) = bits_of 8 ?w"
    proof -
      have "?w AND 255 = take_bit 8 ?w" by (simp add: take_bit_eq_mask mask_eq_exp_minus_1)
      then show ?thesis by (simp add: bits_of_def bit_simps)
    qed
    moreover have "bits_of b v @ digit_bits ch = bits_of 8 ?w @ bits_of ?k ?v"
    proof -
      have "8 + ?k = b + 5" using True by simp
      then show ?thesis using bits_of_split [of 8 ?k ?v] bits by (simp only:)
    qed
    ultimately have "concat (map (bits_of 8) (ucast (?w AND 255) # bs)) =
        take (8 * Suc (length bs)) (bits_of b v @ concat (map digit_bits (ch # cs)))"
      using bs(3) by (simp flip: append_assoc)
    moreover have "Suc (length bs) = (b + 5 * Suc (length cs)) div 8" using bs(2) True by simp
    ultimately show ?thesis using bs(1) i True by (auto simp: Let_def)
  next
    case False
    obtain bs where "base32_read cs (b + 5) ?v = Some bs" "length bs = (b + 5 + 5 * length cs) div 8"
        "concat (map (bits_of 8) bs) = take (8 * length bs) (bits_of (b + 5) ?v @ concat (map digit_bits cs))"
      using Cons.IH [of "b + 5" ?v] Cons.prems False by auto
    then show ?thesis using bits i False by (auto simp: Let_def add.assoc)
  qed
qed simp

text \<open>Decoding what \<^verbatim>\<open>base32Encode\<close> wrote gives the bytes back, for byte strings of any
  length: the 32-bit accumulators never lose a bit, and the padding bits add no byte.\<close>

theorem base32_roundtrip: "base32Decode (base32Encode bytes) = Some bytes"
proof -
  let ?s = "base32Encode bytes"
  obtain pad where pad: "concat (map digit_bits ?s) = concat (map (bits_of 8) bytes) @ pad"
      "length pad < 5" "\<forall>ch \<in> set ?s. is_digit ch"
    using base32_loop_bits [of 0 bytes 0] by (auto simp: base32Encode_def)
  have "\<forall>ch \<in> set BASE32_ALPHABET. ascii_upper ch = ch \<and> ch \<noteq> CHR ''=''" by code_simp
  then have plain: "ascii_upper ch = ch \<and> ch \<noteq> CHR ''=''" if "ch \<in> set ?s" for ch
    using pad(3) that by (simp add: is_digit_def)
  then have "dropWhile (\<lambda>ch. ch = CHR ''='') (rev ?s) = rev ?s"
    by (cases "rev ?s") (auto simp: rev_swap)
  then have read: "base32Decode ?s = base32_read ?s 0 0"
    using plain by (simp add: base32Decode_def map_idI)
  have "length (concat (map digit_bits cs)) = 5 * length cs" for cs
    by (induction cs) (simp_all add: digit_bits_def)
  from this [of ?s] have len: "5 * length ?s = 8 * length bytes + length pad" by (simp add: pad(1))
  obtain bs where bs: "base32_read ?s 0 0 = Some bs" "length bs = 5 * length ?s div 8"
      "concat (map (bits_of 8) bs) = take (8 * length bs) (concat (map digit_bits ?s))"
    using base32_read_bits [OF pad(3), of 0 0] by auto
  have "length bs = length bytes" using bs(2) len pad(2) by simp
  then have "bs = bytes" using bs(3) by (intro bytes_eqI) (simp_all add: pad(1))
  with bs(1) read show ?thesis by simp
qed


section \<open>HOTP values\<close>

lemma decimal_digits: "\<forall>ch \<in> set (decimal n). 48 \<le> (of_char ch :: nat) \<and> (of_char ch :: nat) \<le> 57"
proof (induction n rule: decimal.induct)
  case (1 n)
  then show ?case by (cases "n < 10") (simp_all add: decimal.simps [of n])
qed

lemma length_decimal: "n < 10 ^ k \<Longrightarrow> 0 < k \<Longrightarrow> length (decimal n) \<le> k"
proof (induction k arbitrary: n)
  case (Suc k)
  show ?case
  proof (cases "n < 10")
    case False
    then have "n div 10 < 10 ^ k" "0 < k" using Suc.prems(1) by (auto intro: Nat.gr0I)
    then show ?thesis using Suc.IH [of "n div 10"] False by (simp add: decimal.simps [of n])
  qed (simp add: decimal.simps [of n])
qed simp

lemma unat_and_15: "unat (w AND 15 :: 8 word) < 16"
proof -
  have "w AND 15 = take_bit 4 w" by (simp add: take_bit_eq_mask mask_eq_exp_minus_1)
  then show ?thesis using take_bit_nat_less_exp [of 4 "unat w"] by (simp add: unsigned_take_bit_eq)
qed

text \<open>With a 20-byte HMAC the value of every unsigned 64-bit counter exists and is six decimal
  digits: the dynamic offset never reads past the digest, and padding restores leading zeros.\<close>

theorem hotp_six_digits:
  assumes "\<forall>msg. length (hmac secret msg) = 20" and "0 \<le> counter" "counter < 2 ^ 64"
  shows "\<exists>code. hotp hmac secret counter = Some code \<and> length code = 6 \<and>
    (\<forall>ch \<in> set code. 48 \<le> (of_char ch :: nat) \<and> (of_char ch :: nat) \<le> 57)"
proof -
  let ?mac = "hmac secret (uint64_be (word_of_int counter))"
  let ?n = "\<lambda>w :: 32 word. unat (w AND 0x7fffffff) mod 10 ^ TOTP_DIGITS"
  have "unat (last ?mac AND 15) + 4 \<le> length ?mac" using unat_and_15 [of "last ?mac"] assms(1) by simp
  then obtain w where "readUInt32BE ?mac (unat (last ?mac AND 15)) = Some w" by (simp add: readUInt32BE_def)
  then have "hotp hmac secret counter = Some (padStart TOTP_DIGITS (CHR ''0'') (decimal (?n w)))"
    using assms(2,3) by (simp add: hotp_def counter_bytes_def Let_def)
  moreover have "length (decimal (?n w)) \<le> 6" by (rule length_decimal) (simp_all add: TOTP_DIGITS_def)
  ultimately show ?thesis
    using decimal_digits [of "?n w"] by (auto simp: padStart_def TOTP_DIGITS_def)
qed

section \<open>Codes\<close>

lemma match_steps_iff:
  assumes "\<And>step. step \<in> set steps \<Longrightarrow> hotp hmac secret step = Some (value_of step)"
  shows "match_steps hmac secret code lastUsed steps m = Some
    (case m of Some x \<Rightarrow> Some x
     | None \<Rightarrow> find (\<lambda>step. value_of step = code \<and> (case lastUsed of None \<Rightarrow> True | Some l \<Rightarrow> l < step)) steps)"
  using assms by (induction steps arbitrary: m) (auto split: option.split)

lemma window: "[t - TOTP_DRIFT_STEPS .. t + TOTP_DRIFT_STEPS] = [t - 1, t, t + 1]"
  by (simp add: TOTP_DRIFT_STEPS_def upto.simps)

lemma find_first3:
  "find P [t - 1, t, t + 1] = Some s \<longleftrightarrow>
     (t - 1 \<le> s \<and> s \<le> t + 1 \<and> P s \<and> (\<forall>s'. t - 1 \<le> s' \<and> s' < s \<longrightarrow> \<not> P (s' :: int)))"
proof -
  have "s' = t - 1 \<or> s' = t \<or> s' = t + 1" if "t - 1 \<le> s'" "s' \<le> t + 1" for s' using that by linarith
  then show ?thesis by (auto split: if_splits) (smt (verit))+
qed

text \<open>The code is the value of that step, and the step is newer than the last one used.\<close>

definition step_matches :: "hmac_sha1 \<Rightarrow> 8 word list \<Rightarrow> string \<Rightarrow> int option \<Rightarrow> int \<Rightarrow> bool" where
  "step_matches hmac secret code lastUsed s \<longleftrightarrow>
     hotp hmac secret s = Some code \<and> (\<forall>l \<in> set_option lastUsed. l < s)"

text \<open>C36. \<^verbatim>\<open>verifyTotp\<close> accepts a code for a step exactly if the step is within one of the current
  one, is newer than the last step used, has that code as its HOTP value, and is the first such
  step; so an accepted step is never accepted again once it is stored as the last one used.\<close>

theorem verifyTotp_iff:
  assumes "\<forall>msg. length (hmac secret msg) = 20"
    and "1 \<le> timeStep now" "timeStep now + 1 < 2 ^ 64"
  shows "\<exists>r. verifyTotp hmac secret code now lastUsed = Some r \<and> (\<forall>step. r = Some step \<longleftrightarrow>
      \<bar>step - timeStep now\<bar> \<le> 1 \<and> step_matches hmac secret code lastUsed step \<and>
      (\<forall>s. timeStep now - 1 \<le> s \<and> s < step \<longrightarrow> \<not> step_matches hmac secret code lastUsed s))"
proof -
  let ?t = "timeStep now"
  let ?good = "step_matches hmac secret code lastUsed"
  have some: "hotp hmac secret s = Some (the (hotp hmac secret s))" if "s \<in> set [?t - 1, ?t, ?t + 1]" for s
    using hotp_six_digits [of hmac secret s] assms(1-3) that by auto
  let ?P = "\<lambda>step. the (hotp hmac secret step) = code \<and>
     (case lastUsed of None \<Rightarrow> True | Some l \<Rightarrow> l < step)"
  have eq: "verifyTotp hmac secret code now lastUsed = Some (find ?P [?t - 1, ?t, ?t + 1])"
    unfolding verifyTotp_def window
    by (subst match_steps_iff [where value_of = "\<lambda>s. the (hotp hmac secret s)"]) (use some in auto)
  have good: "?P s \<longleftrightarrow> ?good s" if "?t - 1 \<le> s" "s \<le> ?t + 1" for s
  proof -
    have "s \<in> set [?t - 1, ?t, ?t + 1]" using that by auto
    from some [OF this] show ?thesis
      unfolding step_matches_def by (cases lastUsed) (simp; metis option.sel)+
  qed
  have "(?t - 1 \<le> step \<and> step \<le> ?t + 1 \<and> ?P step \<and> (\<forall>s. ?t - 1 \<le> s \<and> s < step \<longrightarrow> \<not> ?P s)) \<longleftrightarrow>
      (\<bar>step - ?t\<bar> \<le> 1 \<and> ?good step \<and> (\<forall>s. ?t - 1 \<le> s \<and> s < step \<longrightarrow> \<not> ?good s))" for step
  proof (cases "?t - 1 \<le> step \<and> step \<le> ?t + 1")
    case True
    then have "(\<forall>s. ?t - 1 \<le> s \<and> s < step \<longrightarrow> \<not> ?P s) \<longleftrightarrow> (\<forall>s. ?t - 1 \<le> s \<and> s < step \<longrightarrow> \<not> ?good s)"
      using good by auto
    moreover have "\<bar>step - ?t\<bar> \<le> 1" using True by auto
    ultimately show ?thesis using good [of step] True by simp
  qed auto
  then show ?thesis
    unfolding eq option.inject by (intro exI [of _ "find ?P [?t - 1, ?t, ?t + 1]"]) (simp only: find_first3 simp_thms)
qed

section \<open>Concrete values\<close>

definition demo_hmac :: hmac_sha1 where
  "demo_hmac secret msg = take 20 (secret @ msg @ replicate 20 7)"

lemma length_demo_hmac: "\<forall>msg. length (demo_hmac secret msg) = 20"
  by (auto simp: demo_hmac_def min_def)

theorem hotp_six_digits_witness:
  "\<exists>code. hotp demo_hmac [1, 2] 5 = Some code \<and> length code = 6"
  using hotp_six_digits [of demo_hmac "[1, 2]", OF length_demo_hmac, of 5] by auto

text \<open>At 90 seconds the code of step 3 is accepted after step 2 was used, and not after step 3 was.\<close>

definition demo_code :: string where
  "demo_code = the (hotp demo_hmac [] 3)"

theorem verifyTotp_iff_witness:
  "verifyTotp demo_hmac [] demo_code 90000 (Some 2) = Some (Some 3) \<and>
   verifyTotp demo_hmac [] demo_code 90000 (Some 3) \<noteq> Some (Some 3)"
proof (intro conjI)
  have time: "1 \<le> timeStep 90000" "timeStep 90000 + 1 < 2 ^ 64"
    by (simp_all add: timeStep_def TOTP_PERIOD_SECONDS_def)
  have code: "hotp demo_hmac [] 3 = Some demo_code"
    using hotp_six_digits [of demo_hmac "[]", OF length_demo_hmac, of 3] by (auto simp: demo_code_def)
  have t: "timeStep 90000 = 3" by (simp add: timeStep_def TOTP_PERIOD_SECONDS_def)
  obtain r where r: "verifyTotp demo_hmac [] demo_code 90000 (Some 2) = Some r"
      "\<And>step. r = Some step \<longleftrightarrow> \<bar>step - timeStep 90000\<bar> \<le> 1 \<and>
        step_matches demo_hmac [] demo_code (Some 2) step \<and>
        (\<forall>s. timeStep 90000 - 1 \<le> s \<and> s < step \<longrightarrow> \<not> step_matches demo_hmac [] demo_code (Some 2) s)"
    using verifyTotp_iff [of demo_hmac "[]", OF length_demo_hmac time, of demo_code "Some 2"] by blast
  have "r = Some 3" unfolding r(2) t by (auto simp: step_matches_def code)
  with r(1) show "verifyTotp demo_hmac [] demo_code 90000 (Some 2) = Some (Some 3)" by simp
  obtain r where r: "verifyTotp demo_hmac [] demo_code 90000 (Some 3) = Some r"
      "\<And>step. r = Some step \<longleftrightarrow> \<bar>step - timeStep 90000\<bar> \<le> 1 \<and>
        step_matches demo_hmac [] demo_code (Some 3) step \<and>
        (\<forall>s. timeStep 90000 - 1 \<le> s \<and> s < step \<longrightarrow> \<not> step_matches demo_hmac [] demo_code (Some 3) s)"
    using verifyTotp_iff [of demo_hmac "[]", OF length_demo_hmac time, of demo_code "Some 3"] by blast
  have "r \<noteq> Some 3" unfolding r(2) by (auto simp: step_matches_def)
  with r(1) show "verifyTotp demo_hmac [] demo_code 90000 (Some 3) \<noteq> Some (Some 3)" by simp
qed

end
