(* ===== verification/TwoFactor.thy ===== *)
theory TwoFactor
  imports Totp
begin

text \<open>
  The second factor: \<^verbatim>\<open>apps/api/src/two-factor\<close> (\<^verbatim>\<open>TwoFactorService\<close>,
  \<^verbatim>\<open>TwoFactorCrypto\<close> and the two implementations of the \<^verbatim>\<open>TwoFactorRepository\<close> port).

  AES-256-GCM, HMAC and base64url of \<^verbatim>\<open>node:crypto\<close> and \<^verbatim>\<open>Buffer\<close> under the server's derived
  keys are parameters (\<open>tf_crypto\<close>); random bytes and digits are arguments. The clock is read
  once per change, although the source asks it again within one.

  The repository is a record of operations with the laws of a compare-and-set as the locale
  \<open>two_factor_repository\<close>; the in-memory and the Postgres store both satisfy it. Concurrent
  requests are the step relation \<open>tf_step\<close>, whose steps are one read or one write of a request.
\<close>

section \<open>Records\<close>

record tf_record =
  tf_userId :: id
  tf_totpSecret :: "string option"
  tf_enabledAt :: "time option"
  tf_lastUsedStep :: "int option"
  tf_pendingSecret :: "string option"
  tf_pendingExpiresAt :: "time option"
  tf_recoveryCodeHashes :: "string list"
  tf_failedAttempts :: nat
  tf_lockedUntil :: "time option"
  tf_version :: nat

definition emptyRecord :: "id \<Rightarrow> tf_record" where
  "emptyRecord u = \<lparr>tf_userId = u, tf_totpSecret = None, tf_enabledAt = None, tf_lastUsedStep = None,
     tf_pendingSecret = None, tf_pendingExpiresAt = None, tf_recoveryCodeHashes = [],
     tf_failedAttempts = 0, tf_lockedUntil = None, tf_version = 0\<rparr>"

text \<open>A nullable string in a condition: \<^verbatim>\<open>null\<close> and the empty string are false.\<close>

definition truthy :: "string option \<Rightarrow> bool" where
  "truthy s \<longleftrightarrow> s \<noteq> None \<and> s \<noteq> Some ''''"

datatype tf_proof = TotpProof string | RecoveryProof string

section \<open>Crypto\<close>

record tf_crypto =
  tc_hmac_sha1 :: hmac_sha1
  tc_encrypt :: "8 word list \<Rightarrow> string \<Rightarrow> 8 word list \<Rightarrow> 8 word list \<times> 8 word list"
  tc_decrypt :: "8 word list \<Rightarrow> string \<Rightarrow> 8 word list \<Rightarrow> 8 word list \<Rightarrow> 8 word list option"
  tc_base64url :: "8 word list \<Rightarrow> string"
  tc_unbase64url :: "string \<Rightarrow> 8 word list"
  tc_keyed_hash :: "string \<Rightarrow> string"

definition SEALED_VERSION :: string where
  "SEALED_VERSION = ''v1''"

definition CROCKFORD :: string where
  "CROCKFORD = ''0123456789ABCDEFGHJKMNPQRSTVWXYZ''"

definition aad :: "id \<Rightarrow> string" where
  "aad u = ''zvault/2fa/totp-secret/v1'' @ [CHR 0x0A] @ u"

text \<open>\<^verbatim>\<open>s.split('.')\<close>\<close>

fun js_split :: "char \<Rightarrow> string \<Rightarrow> string list" where
  "js_split d [] = [[]]"
| "js_split d (ch # cs) =
     (if ch = d then [] # js_split d cs
      else case js_split d cs of p # ps \<Rightarrow> (ch # p) # ps | [] \<Rightarrow> [[ch]])"

definition seal :: "tf_crypto \<Rightarrow> 8 word list \<Rightarrow> id \<Rightarrow> 8 word list \<Rightarrow> string" where
  "seal cr iv u secret = (case tc_encrypt cr iv (aad u) secret of (ct, tag) \<Rightarrow>
     SEALED_VERSION @ ''.'' @ tc_base64url cr iv @ ''.'' @ tc_base64url cr ct @ ''.'' @
     tc_base64url cr tag)"

text \<open>\<open>None\<close>: the sealed secret is malformed or was not sealed for this user.\<close>

definition open_sealed :: "tf_crypto \<Rightarrow> id \<Rightarrow> string \<Rightarrow> 8 word list option" where
  "open_sealed cr u sealed = (case js_split (CHR ''.'') sealed of
     version # iv # ct # tag # _ \<Rightarrow>
       if version \<noteq> SEALED_VERSION \<or> iv = '''' \<or> ct = '''' \<or> tag = '''' then None
       else tc_decrypt cr (tc_unbase64url cr iv) (aad u) (tc_unbase64url cr ct) (tc_unbase64url cr tag)
   | _ \<Rightarrow> None)"

definition recovery_code :: "nat list \<Rightarrow> string" where
  "recovery_code digits = (let raw = map (\<lambda>d. CROCKFORD ! d) digits in take 5 raw @ ''-'' @ drop 5 raw)"

definition hashRecoveryCode :: "tf_crypto \<Rightarrow> id \<Rightarrow> string \<Rightarrow> string" where
  "hashRecoveryCode cr u code = tc_keyed_hash cr (u @ [CHR 0x0A] @ code)"

text \<open>The random digits of ten codes are the argument.\<close>

definition generateRecoveryCodes :: "tf_crypto \<Rightarrow> id \<Rightarrow> nat list list \<Rightarrow> string list \<times> string list" where
  "generateRecoveryCodes cr u rnd =
     (let codes = map recovery_code rnd in (codes, map (hashRecoveryCode cr u) codes))"

definition findRecoveryCode :: "tf_crypto \<Rightarrow> id \<Rightarrow> string \<Rightarrow> string list \<Rightarrow> nat option" where
  "findRecoveryCode cr u code hashes =
     find (\<lambda>i. hashes ! i = hashRecoveryCode cr u code) [0..<length hashes]"

text \<open>\<^verbatim>\<open>normalizeRecoveryCode\<close> of \<^verbatim>\<open>packages/shared/src/two-factor.ts\<close>\<close>

definition normalizeRecoveryCode :: "string \<Rightarrow> string" where
  "normalizeRecoveryCode input =
     (let raw = map (\<lambda>ch. if ch = CHR ''I'' \<or> ch = CHR ''L'' then CHR ''1'' else ch)
        (map (\<lambda>ch. if ch = CHR ''O'' then CHR ''0'' else ch)
          (filter (\<lambda>ch. ch \<noteq> CHR ''-'' \<and> (of_char ch :: nat) \<notin> set [9, 10, 11, 12, 13, 32, 160])
            (map ascii_upper input)))
      in if length raw = 10 then take 5 raw @ ''-'' @ drop 5 raw else raw)"

section \<open>Changes of a record\<close>

definition SETUP_TTL_MS :: int where "SETUP_TTL_MS = 10 * 60000"
definition MAX_FAILED_ATTEMPTS :: nat where "MAX_FAILED_ATTEMPTS = 5"
definition LOCKOUT_MS :: int where "LOCKOUT_MS = 15 * 60000"
definition MAX_WRITE_ATTEMPTS :: nat where "MAX_WRITE_ATTEMPTS = 3"

type_synonym tf_change = "tf_record \<Rightarrow> http_error + tf_record"

definition recordFailure :: "time \<Rightarrow> tf_record \<Rightarrow> tf_record" where
  "recordFailure now r =
     (let lockExpired = (case tf_lockedUntil r of None \<Rightarrow> False | Some t \<Rightarrow> t \<le> now);
          failed = (if lockExpired then 0 else tf_failedAttempts r) + 1
      in r\<lparr>tf_failedAttempts := failed,
           tf_lockedUntil := if MAX_FAILED_ATTEMPTS \<le> failed then Some (now + LOCKOUT_MS) else None\<rparr>)"

definition locked_at :: "time \<Rightarrow> tf_record \<Rightarrow> time option" where
  "locked_at now r = (case tf_lockedUntil r of None \<Rightarrow> None | Some t \<Rightarrow> if now < t then Some t else None)"

definition beginSetup_change :: "tf_crypto \<Rightarrow> time \<Rightarrow> 8 word list \<Rightarrow> 8 word list \<Rightarrow> id \<Rightarrow> tf_change" where
  "beginSetup_change cr now iv secret u r =
     (if truthy (tf_totpSecret r) then Inl (Conflict ''two_factor_already_enabled'')
      else Inr (r\<lparr>tf_pendingSecret := Some (seal cr iv u secret),
                 tf_pendingExpiresAt := Some (now + SETUP_TTL_MS)\<rparr>))"

text \<open>An error of the crypto layer is not caught and answers 500.\<close>

definition confirmSetup_change :: "tf_crypto \<Rightarrow> time \<Rightarrow> string list \<Rightarrow> string \<Rightarrow> id \<Rightarrow> tf_change" where
  "confirmSetup_change cr now hashes code u r =
     (if truthy (tf_totpSecret r) then Inl (Conflict ''two_factor_already_enabled'')
      else if \<not> truthy (tf_pendingSecret r) \<or> (case tf_pendingExpiresAt r of None \<Rightarrow> True | Some t \<Rightarrow> t \<le> now)
      then Inl (NotFound ''two_factor_setup_not_started'')
      else case locked_at now r of
        Some t \<Rightarrow> Inl (Locked t)
      | None \<Rightarrow>
         (case Option.bind (open_sealed cr u (the (tf_pendingSecret r)))
                 (\<lambda>secret. verifyTotp (tc_hmac_sha1 cr) secret code now None) of
            None \<Rightarrow> Inl (DbError ''two_factor_crypto'')
          | Some None \<Rightarrow> Inr (recordFailure now r)
          | Some (Some step) \<Rightarrow>
              Inr (r\<lparr>tf_totpSecret := tf_pendingSecret r, tf_enabledAt := Some now,
                 tf_lastUsedStep := Some step, tf_pendingSecret := None, tf_pendingExpiresAt := None,
                 tf_recoveryCodeHashes := hashes, tf_failedAttempts := 0, tf_lockedUntil := None\<rparr>)))"

definition drop_index :: "nat \<Rightarrow> 'a list \<Rightarrow> 'a list" where
  "drop_index i xs = take i xs @ drop (i + 1) xs"

definition consumeProof :: "tf_crypto \<Rightarrow> time \<Rightarrow> id \<Rightarrow> tf_proof \<Rightarrow> tf_change" where
  "consumeProof cr now u p r =
     (if \<not> truthy (tf_totpSecret r) then Inl (NotFound ''two_factor_not_enabled'')
      else case locked_at now r of
        Some t \<Rightarrow> Inl (Locked t)
      | None \<Rightarrow>
         (let ok = r\<lparr>tf_failedAttempts := 0, tf_lockedUntil := None\<rparr>
          in case p of
            TotpProof code \<Rightarrow>
             (case Option.bind (open_sealed cr u (the (tf_totpSecret r)))
                     (\<lambda>secret. verifyTotp (tc_hmac_sha1 cr) secret code now (tf_lastUsedStep r)) of
                None \<Rightarrow> Inl (DbError ''two_factor_crypto'')
              | Some None \<Rightarrow> Inr (recordFailure now r)
              | Some (Some step) \<Rightarrow> Inr (ok\<lparr>tf_lastUsedStep := Some step\<rparr>))
          | RecoveryProof code \<Rightarrow>
             (case findRecoveryCode cr u code (tf_recoveryCodeHashes r) of
                None \<Rightarrow> Inr (recordFailure now r)
              | Some i \<Rightarrow>
                  Inr (ok\<lparr>tf_recoveryCodeHashes := drop_index i (tf_recoveryCodeHashes r)\<rparr>))))"

definition regenerate_change :: "tf_crypto \<Rightarrow> time \<Rightarrow> string list \<Rightarrow> id \<Rightarrow> tf_proof \<Rightarrow> tf_change" where
  "regenerate_change cr now hashes u p r =
     map_sum (\<lambda>e. e) (\<lambda>n. if 0 < tf_failedAttempts n then n else n\<lparr>tf_recoveryCodeHashes := hashes\<rparr>)
       (consumeProof cr now u p r)"

definition disable_change :: "tf_crypto \<Rightarrow> time \<Rightarrow> id \<Rightarrow> tf_proof \<Rightarrow> tf_change" where
  "disable_change cr now u p r =
     map_sum (\<lambda>e. e) (\<lambda>n. if 0 < tf_failedAttempts n then n
         else n\<lparr>tf_totpSecret := None, tf_enabledAt := None, tf_lastUsedStep := None,
               tf_pendingSecret := None, tf_pendingExpiresAt := None, tf_recoveryCodeHashes := []\<rparr>)
       (consumeProof cr now u p r)"

section \<open>The repository port and its implementations\<close>

record 's tf_repository =
  repo_find :: "id \<Rightarrow> 's \<Rightarrow> tf_record option"
  repo_update :: "tf_record \<Rightarrow> nat \<Rightarrow> 's \<Rightarrow> bool \<times> 's"
  repo_delete :: "id \<Rightarrow> 's \<Rightarrow> 's"

definition memory_find :: "id \<Rightarrow> (id \<times> tf_record) list \<Rightarrow> tf_record option" where
  "memory_find u s = map_of s u"

definition memory_update :: "tf_record \<Rightarrow> nat \<Rightarrow> (id \<times> tf_record) list \<Rightarrow>
    bool \<times> (id \<times> tf_record) list" where
  "memory_update r expected s =
     (if (case map_of s (tf_userId r) of None \<Rightarrow> 0 | Some c \<Rightarrow> tf_version c) \<noteq> expected then (False, s)
      else (True, AList.update (tf_userId r) (r\<lparr>tf_version := expected + 1\<rparr>) s))"

definition memory_delete :: "id \<Rightarrow> (id \<times> tf_record) list \<Rightarrow> (id \<times> tf_record) list" where
  "memory_delete u s = AList.delete u s"

definition memory_repository :: "(id \<times> tf_record) list tf_repository" where
  "memory_repository = \<lparr>repo_find = memory_find, repo_update = memory_update, repo_delete = memory_delete\<rparr>"

text \<open>A row of \<^verbatim>\<open>two_factor\<close>: the record, its \<^verbatim>\<open>userId\<close> being the account, and a write time.\<close>

record tf_row =
  tfr_accountId :: id
  tfr_totpSecret :: "string option"
  tfr_enabledAt :: "time option"
  tfr_lastUsedStep :: "int option"
  tfr_pendingSecret :: "string option"
  tfr_pendingExpiresAt :: "time option"
  tfr_recoveryCodeHashes :: "string list"
  tfr_failedAttempts :: nat
  tfr_lockedUntil :: "time option"
  tfr_version :: nat
  tfr_updatedAt :: time

definition toRecord :: "tf_row \<Rightarrow> tf_record" where
  "toRecord r = \<lparr>tf_userId = tfr_accountId r, tf_totpSecret = tfr_totpSecret r,
     tf_enabledAt = tfr_enabledAt r, tf_lastUsedStep = tfr_lastUsedStep r,
     tf_pendingSecret = tfr_pendingSecret r, tf_pendingExpiresAt = tfr_pendingExpiresAt r,
     tf_recoveryCodeHashes = tfr_recoveryCodeHashes r, tf_failedAttempts = tfr_failedAttempts r,
     tf_lockedUntil = tfr_lockedUntil r, tf_version = tfr_version r\<rparr>"

definition drizzle_find :: "id \<Rightarrow> tf_row list \<Rightarrow> tf_record option" where
  "drizzle_find u t = map_option toRecord (find (\<lambda>r. tfr_accountId r = u) t)"

definition row_values :: "tf_record \<Rightarrow> nat \<Rightarrow> time \<Rightarrow> tf_row" where
  "row_values n expected now = \<lparr>tfr_accountId = tf_userId n, tfr_totpSecret = tf_totpSecret n,
     tfr_enabledAt = tf_enabledAt n, tfr_lastUsedStep = tf_lastUsedStep n,
     tfr_pendingSecret = tf_pendingSecret n, tfr_pendingExpiresAt = tf_pendingExpiresAt n,
     tfr_recoveryCodeHashes = tf_recoveryCodeHashes n, tfr_failedAttempts = tf_failedAttempts n,
     tfr_lockedUntil = tf_lockedUntil n, tfr_version = expected + 1, tfr_updatedAt = now\<rparr>"

definition drizzle_update :: "time \<Rightarrow> tf_record \<Rightarrow> nat \<Rightarrow> tf_row list \<Rightarrow> bool \<times> tf_row list" where
  "drizzle_update now n expected t =
     (let row = row_values n expected now in
      if expected = 0
      then (case insert_new tfr_accountId row t of None \<Rightarrow> (False, t) | Some t' \<Rightarrow> (True, t'))
      else let hit = (\<lambda>r. tfr_accountId r = tf_userId n \<and> tfr_version r = expected)
           in (length (filter hit t) = 1, update_where hit (\<lambda>_. row) t))"

definition drizzle_delete :: "id \<Rightarrow> tf_row list \<Rightarrow> tf_row list" where
  "drizzle_delete u t = delete_where (\<lambda>r. tfr_accountId r = u) t"

definition drizzle_repository :: "time \<Rightarrow> tf_row list tf_repository" where
  "drizzle_repository now = \<lparr>repo_find = drizzle_find, repo_update = drizzle_update now,
     repo_delete = drizzle_delete\<rparr>"

section \<open>The service\<close>

text \<open>
  \<^verbatim>\<open>mutate\<close>: read, change, compare-and-set, up to three times. A written record whose failure
  count went up is a rejected proof.
\<close>

definition mutate_report :: "tf_record \<Rightarrow> tf_record \<Rightarrow> http_error + unit" where
  "mutate_report current n =
     (if 0 < tf_failedAttempts n \<and> tf_failedAttempts n \<noteq> tf_failedAttempts current
      then Inl (case tf_lockedUntil n of Some t \<Rightarrow> Locked t | None \<Rightarrow> Forbidden ''invalid_two_factor_code'')
      else Inr ())"

definition current_tf :: "'s tf_repository \<Rightarrow> id \<Rightarrow> 's \<Rightarrow> tf_record" where
  "current_tf repo u s = (case repo_find repo u s of None \<Rightarrow> emptyRecord u | Some r \<Rightarrow> r)"

fun mutate_tries :: "'s tf_repository \<Rightarrow> nat \<Rightarrow> id \<Rightarrow> tf_change \<Rightarrow> 's \<Rightarrow> (http_error, unit, 's) outcome" where
  "mutate_tries repo 0 u change s = throw (Conflict ''two_factor_busy'') s"
| "mutate_tries repo (Suc n) u change s =
     (let current = current_tf repo u s
      in case change current of
           Inl e \<Rightarrow> throw e s
         | Inr r \<Rightarrow>
            (case repo_update repo r (tf_version current) s of
               (False, s') \<Rightarrow> mutate_tries repo n u change s'
             | (True, s') \<Rightarrow> (mutate_report current r, s')))"

definition mutate :: "'s tf_repository \<Rightarrow> id \<Rightarrow> tf_change \<Rightarrow> 's \<Rightarrow> (http_error, unit, 's) outcome" where
  "mutate repo u change s = mutate_tries repo MAX_WRITE_ATTEMPTS u change s"

definition tf_isEnabled :: "'s tf_repository \<Rightarrow> id \<Rightarrow> 's \<Rightarrow> bool" where
  "tf_isEnabled repo u s = (Option.bind (repo_find repo u s) tf_totpSecret \<noteq> None)"

record tf_status_response =
  ts_totpEnabled :: bool
  ts_recoveryCodesRemaining :: nat
  ts_enabledAt :: "time option"

definition tf_status :: "'s tf_repository \<Rightarrow> id \<Rightarrow> 's \<Rightarrow> tf_status_response" where
  "tf_status repo u s =
     (case repo_find repo u s of
        None \<Rightarrow> \<lparr>ts_totpEnabled = False, ts_recoveryCodesRemaining = 0, ts_enabledAt = None\<rparr>
      | Some r \<Rightarrow>
         (let enabled = (tf_totpSecret r \<noteq> None)
          in \<lparr>ts_totpEnabled = enabled,
              ts_recoveryCodesRemaining = (if enabled then length (tf_recoveryCodeHashes r) else 0),
              ts_enabledAt = (if enabled then tf_enabledAt r else None)\<rparr>))"

text \<open>Answers the base32 secret and when the setup expires; the URI is built from the same.\<close>

definition tf_beginSetup :: "'s tf_repository \<Rightarrow> tf_crypto \<Rightarrow> id \<Rightarrow> time \<Rightarrow> 8 word list \<Rightarrow> 8 word list \<Rightarrow>
    's \<Rightarrow> (http_error, string \<times> time, 's) outcome" where
  "tf_beginSetup repo cr u now iv secret s =
     and_then (mutate repo u (beginSetup_change cr now iv secret u) s)
       (\<lambda>_. ret (base32Encode secret, now + SETUP_TTL_MS))"

definition tf_confirmSetup :: "'s tf_repository \<Rightarrow> tf_crypto \<Rightarrow> id \<Rightarrow> time \<Rightarrow> nat list list \<Rightarrow> string \<Rightarrow>
    's \<Rightarrow> (http_error, string list, 's) outcome" where
  "tf_confirmSetup repo cr u now rnd code s =
     (case generateRecoveryCodes cr u rnd of (codes, hashes) \<Rightarrow>
        and_then (mutate repo u (confirmSetup_change cr now hashes code u) s) (\<lambda>_. ret codes))"

definition tf_verify :: "'s tf_repository \<Rightarrow> tf_crypto \<Rightarrow> id \<Rightarrow> time \<Rightarrow> tf_proof \<Rightarrow> 's \<Rightarrow>
    (http_error, unit, 's) outcome" where
  "tf_verify repo cr u now p s = mutate repo u (consumeProof cr now u p) s"

definition tf_regenerate :: "'s tf_repository \<Rightarrow> tf_crypto \<Rightarrow> id \<Rightarrow> time \<Rightarrow> nat list list \<Rightarrow> tf_proof \<Rightarrow>
    's \<Rightarrow> (http_error, string list, 's) outcome" where
  "tf_regenerate repo cr u now rnd p s =
     (case generateRecoveryCodes cr u rnd of (codes, hashes) \<Rightarrow>
        and_then (mutate repo u (regenerate_change cr now hashes u p) s) (\<lambda>_. ret codes))"

definition tf_disable :: "'s tf_repository \<Rightarrow> tf_crypto \<Rightarrow> id \<Rightarrow> time \<Rightarrow> tf_proof \<Rightarrow> 's \<Rightarrow>
    (http_error, unit, 's) outcome" where
  "tf_disable repo cr u now p s = mutate repo u (disable_change cr now u p) s"


section \<open>Concurrent requests\<close>

text \<open>
  A request to verify a proof, between its reads and writes: it has tries left, or holds the
  record it read and the one it will write, or is done, with the record it wrote.
\<close>

datatype tf_thread =
    Trying nat
  | Holding nat tf_record tf_record
  | Finished "http_error + unit" "tf_record option"

inductive tf_step :: "(time \<Rightarrow> 's tf_repository) \<Rightarrow> tf_crypto \<Rightarrow> id \<Rightarrow> (nat \<Rightarrow> tf_proof) \<Rightarrow>
    's \<times> (nat \<Rightarrow> tf_thread) \<Rightarrow> 's \<times> (nat \<Rightarrow> tf_thread) \<Rightarrow> bool"
  for repo cr u reqs where
  refuse: "th i = Trying (Suc n) \<Longrightarrow>
    consumeProof cr now u (reqs i) (current_tf (repo now) u s) = Inl e \<Longrightarrow>
    tf_step repo cr u reqs (s, th) (s, th(i := Finished (Inl e) None))"
| fetched: "th i = Trying (Suc n) \<Longrightarrow>
    consumeProof cr now u (reqs i) (current_tf (repo now) u s) = Inr r \<Longrightarrow>
    tf_step repo cr u reqs (s, th) (s, th(i := Holding n (current_tf (repo now) u s) r))"
| stored: "th i = Holding n c r \<Longrightarrow> repo_update (repo now) r (tf_version c) s = (True, s') \<Longrightarrow>
    tf_step repo cr u reqs (s, th) (s', th(i := Finished (mutate_report c r) (Some r)))"
| lost: "th i = Holding n c r \<Longrightarrow> repo_update (repo now) r (tf_version c) s = (False, s') \<Longrightarrow>
    tf_step repo cr u reqs (s, th) (s', th(i := Trying n))"
| busy: "th i = Trying 0 \<Longrightarrow>
    tf_step repo cr u reqs (s, th) (s, th(i := Finished (Inl (Conflict ''two_factor_busy'')) None))"


section \<open>What a change does\<close>

text \<open>A lock goes with a full count of failures.\<close>

definition lock_ok :: "tf_record \<Rightarrow> bool" where
  "lock_ok r \<longleftrightarrow> (tf_lockedUntil r \<noteq> None \<longrightarrow> MAX_FAILED_ATTEMPTS \<le> tf_failedAttempts r)"

lemma match_steps_newer:
  assumes "match_steps hmac secret code lastUsed steps m = Some (Some step)"
    and "\<And>x. m = Some x \<Longrightarrow> \<forall>l \<in> set_option lastUsed. l < x"
  shows "\<forall>l \<in> set_option lastUsed. l < step"
  using assms
  by (induction steps arbitrary: m) (fastforce simp: bind_eq_Some_conv split: if_splits option.splits)+

lemma verifyTotp_newer:
  "verifyTotp hmac secret code now lastUsed = Some (Some step) \<Longrightarrow> lastUsed = Some l \<Longrightarrow> l < step"
  using match_steps_newer [where m = None] by (fastforce simp: verifyTotp_def)

lemma findRecoveryCode_Some:
  assumes "findRecoveryCode cr u code hashes = Some i"
  shows "i < length hashes" "hashes ! i = hashRecoveryCode cr u code"
  using assms by (auto simp: findRecoveryCode_def find_Some_iff)

lemma drop_index_distinct:
  assumes "distinct xs" "i < length xs"
  shows "distinct (drop_index i xs)" "set (drop_index i xs) = set xs - {xs ! i}"
proof -
  have xs: "xs = take i xs @ xs ! i # drop (Suc i) xs" by (rule id_take_nth_drop [OF assms(2)])
  have "distinct (take i xs @ xs ! i # drop (Suc i) xs)" using assms(1) xs by simp
  then show "distinct (drop_index i xs)" by (auto simp: drop_index_def)
  have "set xs = set (take i xs @ xs ! i # drop (Suc i) xs)" using xs by simp
  with \<open>distinct (take i xs @ xs ! i # drop (Suc i) xs)\<close>
  show "set (drop_index i xs) = set xs - {xs ! i}" by (auto simp: drop_index_def)
qed

text \<open>A change by a proof records a failure, takes a newer step, or takes a code off the list.\<close>

lemma consumeProof_cases:
  assumes "consumeProof cr now u p r = Inr n"
  obtains (failure) "n = recordFailure now r"
  | (totp) code step where "p = TotpProof code"
      "n = r\<lparr>tf_failedAttempts := 0, tf_lockedUntil := None, tf_lastUsedStep := Some step\<rparr>"
      "\<And>l. tf_lastUsedStep r = Some l \<Longrightarrow> l < step"
  | (recovery) code i where "p = RecoveryProof code" "i < length (tf_recoveryCodeHashes r)"
      "tf_recoveryCodeHashes r ! i = hashRecoveryCode cr u code"
      "n = r\<lparr>tf_failedAttempts := 0, tf_lockedUntil := None,
             tf_recoveryCodeHashes := drop_index i (tf_recoveryCodeHashes r)\<rparr>"
proof (cases p)
  case (TotpProof code)
  let ?v = "Option.bind (open_sealed cr u (the (tf_totpSecret r)))
      (\<lambda>secret. verifyTotp (tc_hmac_sha1 cr) secret code now (tf_lastUsedStep r))"
  show thesis
  proof (cases "\<exists>step. ?v = Some (Some step)")
    case True
    then obtain step where v: "?v = Some (Some step)" by blast
    then have "l < step" if "tf_lastUsedStep r = Some l" for l
      using verifyTotp_newer that by (auto simp: bind_eq_Some_conv)
    moreover have "n = r\<lparr>tf_failedAttempts := 0, tf_lockedUntil := None, tf_lastUsedStep := Some step\<rparr>"
      using assms v by (auto simp: consumeProof_def TotpProof Let_def split: if_splits option.splits)
    ultimately show thesis using totp TotpProof by blast
  next
    case False
    then have "n = recordFailure now r"
      using assms by (auto simp: consumeProof_def TotpProof Let_def split: if_splits option.splits)
    then show thesis by (rule failure)
  qed
next
  case (RecoveryProof code)
  show thesis
  proof (cases "findRecoveryCode cr u code (tf_recoveryCodeHashes r)")
    case None
    then have "n = recordFailure now r"
      using assms by (auto simp: consumeProof_def RecoveryProof Let_def split: if_splits option.splits)
    then show thesis by (rule failure)
  next
    case (Some i)
    note i = findRecoveryCode_Some [OF Some]
    have "n = r\<lparr>tf_failedAttempts := 0, tf_lockedUntil := None,
        tf_recoveryCodeHashes := drop_index i (tf_recoveryCodeHashes r)\<rparr>"
      using assms Some by (auto simp: consumeProof_def RecoveryProof Let_def split: if_splits option.splits)
    from recovery [OF RecoveryProof i this] show thesis .
  qed
qed

lemma recordFailure_reports:
  assumes "lock_ok r"
  shows "mutate_report r (recordFailure now r) \<noteq> Inr ()" "lock_ok (recordFailure now r)"
  using assms
  by (auto simp: mutate_report_def recordFailure_def lock_ok_def Let_def MAX_FAILED_ATTEMPTS_def
      split: option.splits if_splits)

lemma recordFailure_keeps [simp]:
  "tf_lastUsedStep (recordFailure now r) = tf_lastUsedStep r"
  "tf_recoveryCodeHashes (recordFailure now r) = tf_recoveryCodeHashes r"
  "tf_userId (recordFailure now r) = tf_userId r" "tf_version (recordFailure now r) = tf_version r"
  "tf_totpSecret (recordFailure now r) = tf_totpSecret r"
  by (simp_all add: recordFailure_def Let_def)

lemma consumeProof_userId: "consumeProof cr now u p r = Inr n \<Longrightarrow> tf_userId n = tf_userId r"
  by (erule consumeProof_cases) simp_all

lemma consumeProof_lock_ok: "consumeProof cr now u p r = Inr n \<Longrightarrow> lock_ok r \<Longrightarrow> lock_ok n"
  by (erule consumeProof_cases) (simp_all add: recordFailure_reports, simp_all add: lock_ok_def)

text \<open>Proofs tried one after another.\<close>

fun verify_all :: "(time \<Rightarrow> 's tf_repository) \<Rightarrow> tf_crypto \<Rightarrow> id \<Rightarrow> (time \<times> tf_proof) list \<Rightarrow> 's \<Rightarrow>
    (http_error + unit) list \<times> 's" where
  "verify_all repo cr u [] s = ([], s)"
| "verify_all repo cr u ((now, p) # ps) s =
     (case tf_verify (repo now) cr u now p s of (x, s') \<Rightarrow>
        (case verify_all repo cr u ps s' of (xs, s'') \<Rightarrow> (x # xs, s'')))"

lemma verify_all_append:
  "verify_all repo cr u (ps @ qs) s =
    (case verify_all repo cr u ps s of (xs, s') \<Rightarrow>
       (case verify_all repo cr u qs s' of (ys, s'') \<Rightarrow> (xs @ ys, s'')))"
  by (induction ps arbitrary: s) (auto split: prod.splits)

text \<open>The proof is wrong for this record: no step of the window, or no unused code, matches.\<close>

definition wrong_proof :: "tf_crypto \<Rightarrow> time \<Rightarrow> id \<Rightarrow> tf_proof \<Rightarrow> tf_record \<Rightarrow> bool" where
  "wrong_proof cr now u p r \<longleftrightarrow> truthy (tf_totpSecret r) \<and> (case p of
     TotpProof code \<Rightarrow> Option.bind (open_sealed cr u (the (tf_totpSecret r)))
       (\<lambda>secret. verifyTotp (tc_hmac_sha1 cr) secret code now (tf_lastUsedStep r)) = Some None
   | RecoveryProof code \<Rightarrow> findRecoveryCode cr u code (tf_recoveryCodeHashes r) = None)"

lemma wrong_proof_fails:
  "wrong_proof cr now u p r \<Longrightarrow> locked_at now r = None \<Longrightarrow>
     consumeProof cr now u p r = Inr (recordFailure now r)"
  by (auto simp: wrong_proof_def consumeProof_def Let_def split: tf_proof.splits)

text \<open>What a proof is checked against; failures leave it.\<close>

definition tf_secrets :: "tf_record \<Rightarrow> string option \<times> int option \<times> string list" where
  "tf_secrets r = (tf_totpSecret r, tf_lastUsedStep r, tf_recoveryCodeHashes r)"

lemma wrong_proof_cong:
  "tf_secrets r = tf_secrets r' \<Longrightarrow> wrong_proof cr now u p r = wrong_proof cr now u p r'"
  by (cases p) (simp_all add: wrong_proof_def tf_secrets_def)

lemma tf_secrets_version [simp]: "tf_secrets (r\<lparr>tf_version := n\<rparr>) = tf_secrets r"
  by (simp add: tf_secrets_def)

section \<open>Any compare-and-set repository\<close>

definition stored_version :: "'s tf_repository \<Rightarrow> id \<Rightarrow> 's \<Rightarrow> nat" where
  "stored_version repo u s = tf_version (current_tf repo u s)"

locale two_factor_repository =
  fixes repo :: "time \<Rightarrow> 's tf_repository" and inv :: "'s \<Rightarrow> bool"
  assumes find_user: "inv s \<Longrightarrow> repo_find (repo now) u s = Some r \<Longrightarrow> tf_userId r = u"
    and find_now: "repo_find (repo now) u s = repo_find (repo now') u s"
    and update_won: "inv s \<Longrightarrow> repo_update (repo now) r n s = (True, s') \<Longrightarrow>
      inv s' \<and> stored_version (repo now) (tf_userId r) s = n \<and>
      (\<forall>u. repo_find (repo now) u s' =
         (if u = tf_userId r then Some (r\<lparr>tf_version := n + 1\<rparr>) else repo_find (repo now) u s))"
    and update_lost: "inv s \<Longrightarrow> repo_update (repo now) r n s = (False, s') \<Longrightarrow>
      s' = s \<and> stored_version (repo now) (tf_userId r) s \<noteq> n"
    and delete_gone: "inv s \<Longrightarrow> inv (repo_delete (repo now) u s) \<and>
      (\<forall>u'. repo_find (repo now) u' (repo_delete (repo now) u s) =
         (if u' = u then None else repo_find (repo now) u' s))"
begin

definition cur :: "id \<Rightarrow> 's \<Rightarrow> tf_record" where
  "cur u s = current_tf (repo 0) u s"

lemma cur_now: "current_tf (repo now) u s = cur u s"
  using find_now [of now u s 0] by (simp add: cur_def current_tf_def)

lemma cur_user: "inv s \<Longrightarrow> tf_userId (cur u s) = u"
  using find_user by (auto simp: cur_def current_tf_def emptyRecord_def split: option.split)

lemma update_wonD:
  assumes "inv s" "repo_update (repo now) r n s = (True, s')" "tf_userId r = u"
  shows "inv s'" "tf_version (cur u s) = n" "cur u s' = r\<lparr>tf_version := n + 1\<rparr>"
    "u' \<noteq> u \<Longrightarrow> cur u' s' = cur u' s"
  using update_won [OF assms(1,2)] assms(3) find_now [of 0 _ _ now]
  by (simp_all add: cur_now [symmetric] current_tf_def stored_version_def cur_def)

lemma update_lostD:
  assumes "inv s" "repo_update (repo now) r n s = (False, s')" "tf_userId r = u"
  shows "s' = s" "tf_version (cur u s) \<noteq> n"
  using update_lost [OF assms(1,2)] assms(3) by (simp_all add: stored_version_def cur_now)

text \<open>Alone, a request's first try goes through.\<close>

lemma mutate_alone:
  assumes inv: "inv s" and change: "\<And>r n. change r = Inr n \<Longrightarrow> tf_userId n = tf_userId r"
  shows "(case change (cur u s) of
      Inl e \<Rightarrow> mutate (repo now) u change s = (Inl e, s)
    | Inr r \<Rightarrow> \<exists>s'. mutate (repo now) u change s = (mutate_report (cur u s) r, s') \<and> inv s' \<and>
        cur u s' = r\<lparr>tf_version := tf_version (cur u s) + 1\<rparr> \<and> (\<forall>u'. u' \<noteq> u \<longrightarrow> cur u' s' = cur u' s))"
proof (cases "change (cur u s)")
  case (Inl e)
  then show ?thesis by (simp add: mutate_def MAX_WRITE_ATTEMPTS_def numeral_3_eq_3 cur_now throw_def)
next
  case (Inr r)
  have user: "tf_userId r = u" using change [OF Inr] cur_user [OF inv] by simp
  obtain b s' where b: "repo_update (repo now) r (tf_version (cur u s)) s = (b, s')"
    by (cases "repo_update (repo now) r (tf_version (cur u s)) s")
  have "b" using update_lostD(2) [OF inv _ user] b by (cases b) auto
  then have won: "repo_update (repo now) r (tf_version (cur u s)) s = (True, s')" using b by simp
  from update_wonD [OF inv won user] show ?thesis
    using won by (auto simp: Inr mutate_def MAX_WRITE_ATTEMPTS_def numeral_3_eq_3 cur_now)
qed

text \<open>The invariant of a system of requests that verify proofs of one user.\<close>

definition spent :: "tf_crypto \<Rightarrow> id \<Rightarrow> tf_proof \<Rightarrow> tf_record \<Rightarrow> tf_record \<Rightarrow> bool" where
  "spent cr u p r c = (case p of
     TotpProof code \<Rightarrow> (\<exists>st l. tf_lastUsedStep r = Some st \<and> tf_lastUsedStep c = Some l \<and> st \<le> l)
   | RecoveryProof code \<Rightarrow> hashRecoveryCode cr u code \<notin> set (tf_recoveryCodeHashes c))"

definition apart :: "tf_crypto \<Rightarrow> id \<Rightarrow> tf_proof \<Rightarrow> tf_record \<Rightarrow> tf_proof \<Rightarrow> tf_record \<Rightarrow> bool" where
  "apart cr u p r p' r' = (case (p, p') of
     (TotpProof c, TotpProof c') \<Rightarrow> tf_lastUsedStep r \<noteq> tf_lastUsedStep r'
   | (RecoveryProof c, RecoveryProof c') \<Rightarrow> hashRecoveryCode cr u c \<noteq> hashRecoveryCode cr u c'
   | _ \<Rightarrow> True)"

definition tf_inv :: "tf_crypto \<Rightarrow> id \<Rightarrow> (nat \<Rightarrow> tf_proof) \<Rightarrow> 's \<times> (nat \<Rightarrow> tf_thread) \<Rightarrow> bool" where
  "tf_inv cr u reqs x \<longleftrightarrow> (case x of (s, th) \<Rightarrow>
     inv s \<and> lock_ok (cur u s) \<and> distinct (tf_recoveryCodeHashes (cur u s)) \<and>
     (\<forall>i n c r. th i = Holding n c r \<longrightarrow> (\<exists>now. consumeProof cr now u (reqs i) c = Inr r) \<and>
        tf_userId c = u \<and> tf_version c \<le> tf_version (cur u s) \<and>
        (tf_version c = tf_version (cur u s) \<longrightarrow> c = cur u s)) \<and>
     (\<forall>i r. th i = Finished (Inr ()) (Some r) \<longrightarrow> spent cr u (reqs i) r (cur u s)) \<and>
     (\<forall>i j r r'. th i = Finished (Inr ()) (Some r) \<longrightarrow> th j = Finished (Inr ()) (Some r') \<longrightarrow>
        i \<noteq> j \<longrightarrow> apart cr u (reqs i) r (reqs j) r'))"

text \<open>A written change keeps what was spent spent, and spends its own proof or reports an error.\<close>

lemma change_spends:
  assumes change: "consumeProof cr now u p c = Inr r" and ok: "lock_ok c"
    and dist: "distinct (tf_recoveryCodeHashes c)"
  shows "distinct (tf_recoveryCodeHashes r)"
    and "spent cr u q x c \<Longrightarrow> spent cr u q x (r\<lparr>tf_version := v\<rparr>)"
    and "mutate_report c r = Inr () \<Longrightarrow> spent cr u p r (r\<lparr>tf_version := v\<rparr>)"
    and "mutate_report c r = Inr () \<Longrightarrow> spent cr u q x c \<Longrightarrow> apart cr u q x p r \<and> apart cr u p r q x"
proof -
  show "distinct (tf_recoveryCodeHashes r)" "spent cr u q x c \<Longrightarrow> spent cr u q x (r\<lparr>tf_version := v\<rparr>)"
    "mutate_report c r = Inr () \<Longrightarrow> spent cr u p r (r\<lparr>tf_version := v\<rparr>)"
    using change
    by (cases rule: consumeProof_cases;
      (use dist recordFailure_reports [OF ok] in \<open>fastforce simp: drop_index_distinct spent_def
        split: tf_proof.splits\<close>))+
  assume report: "mutate_report c r = Inr ()" and q: "spent cr u q x c"
  show "apart cr u q x p r \<and> apart cr u p r q x"
    using change
  proof (cases rule: consumeProof_cases)
    case failure
    then show ?thesis using report recordFailure_reports(1) [OF ok] by simp
  next
    case (totp code step)
    then show ?thesis using q by (cases q) (fastforce simp: spent_def apart_def)+
  next
    case (recovery code i)
    then have "hashRecoveryCode cr u code \<in> set (tf_recoveryCodeHashes c)" by (metis nth_mem)
    then show ?thesis using q recovery(1) by (cases q) (auto simp: spent_def apart_def)
  qed
qed

lemma tf_invD:
  assumes "tf_inv cr u reqs (s, th)"
  shows "inv s" "lock_ok (cur u s)" "distinct (tf_recoveryCodeHashes (cur u s))"
    "th i = Holding n c r \<Longrightarrow> \<exists>now. consumeProof cr now u (reqs i) c = Inr r"
    "th i = Holding n c r \<Longrightarrow> tf_userId c = u"
    "th i = Holding n c r \<Longrightarrow> tf_version c \<le> tf_version (cur u s)"
    "th i = Holding n c r \<Longrightarrow> tf_version c = tf_version (cur u s) \<Longrightarrow> c = cur u s"
    "th i = Finished (Inr ()) (Some r) \<Longrightarrow> spent cr u (reqs i) r (cur u s)"
    "th i = Finished (Inr ()) (Some r) \<Longrightarrow> th j = Finished (Inr ()) (Some r') \<Longrightarrow> i \<noteq> j \<Longrightarrow>
       apart cr u (reqs i) r (reqs j) r'"
  using assms unfolding tf_inv_def prod.case by blast+

lemma tf_inv_stored:
  assumes tfi: "tf_inv cr u reqs (s, th)" and held: "th i = Holding n c r"
    and upd: "repo_update (repo now) r (tf_version c) s = (True, s')"
  shows "tf_inv cr u reqs (s', th(i := Finished (mutate_report c r) (Some r)))"
proof -
  note I = tf_invD [OF tfi]
  obtain now' where change: "consumeProof cr now' u (reqs i) c = Inr r" using I(4) [OF held] by blast
  have user: "tf_userId r = u" using consumeProof_userId [OF change] I(5) [OF held] by simp
  note won = update_wonD [OF I(1) upd user]
  have c: "c = cur u s" using I(7) [OF held] won(2) by simp
  have ok: "lock_ok c" and dist: "distinct (tf_recoveryCodeHashes c)" using I(2,3) c by simp_all
  note spends = change_spends [OF change ok dist]
  let ?th = "th(i := Finished (mutate_report c r) (Some r))"
  have done_: "spent cr u (reqs j) x c" if "?th j = Finished (Inr ()) (Some x)" "j \<noteq> i" for j x
    using that I(8) c by simp
  show ?thesis
    unfolding tf_inv_def prod.case
  proof (intro conjI allI impI)
    show "inv s'" by (rule won(1))
    show "lock_ok (cur u s')"
      using consumeProof_lock_ok [OF change ok] by (simp add: won(3) lock_ok_def)
    show "distinct (tf_recoveryCodeHashes (cur u s'))" using spends(1) by (simp add: won(3))
  next
    fix j n' c' r' assume "?th j = Holding n' c' r'"
    then have th: "th j = Holding n' c' r'" by (simp split: if_splits)
    show "\<exists>now. consumeProof cr now u (reqs j) c' = Inr r'" by (rule I(4) [OF th])
    show "tf_userId c' = u" by (rule I(5) [OF th])
    show "tf_version c' \<le> tf_version (cur u s')" using I(6) [OF th] won(2) by (simp add: won(3))
    assume "tf_version c' = tf_version (cur u s')"
    then show "c' = cur u s'" using I(6) [OF th] won(2) by (simp add: won(3))
  next
    fix j x assume x: "?th j = Finished (Inr ()) (Some x)"
    show "spent cr u (reqs j) x (cur u s')"
    proof (cases "j = i")
      case True
      then have "mutate_report c r = Inr ()" "x = r" using x by auto
      then show ?thesis using spends(3) [of "tf_version c + 1"] True by (simp add: won(3))
    next
      case False
      then show ?thesis using spends(2) [OF done_ [OF x]] by (simp add: won(3))
    qed
  next
    fix j k x y
    assume x: "?th j = Finished (Inr ()) (Some x)" and y: "?th k = Finished (Inr ()) (Some y)" and "j \<noteq> k"
    consider "j = i" | "k = i" | "j \<noteq> i" "k \<noteq> i" by blast
    then show "apart cr u (reqs j) x (reqs k) y"
    proof cases
      case 1
      then have "mutate_report c r = Inr ()" "x = r" using x by auto
      then show ?thesis using spends(4) [OF _ done_ [OF y]] \<open>j \<noteq> k\<close> 1 by simp
    next
      case 2
      then have "mutate_report c r = Inr ()" "y = r" using y by auto
      then show ?thesis using spends(4) [OF _ done_ [OF x]] \<open>j \<noteq> k\<close> 2 by simp
    next
      case 3
      then show ?thesis using x y I(9) \<open>j \<noteq> k\<close> by simp
    qed
  qed
qed

text \<open>A step that writes nothing and finishes nothing well.\<close>

lemma tf_inv_other:
  assumes tfi: "tf_inv cr u reqs (s, th)" and t: "\<And>r. t \<noteq> Finished (Inr ()) (Some r)"
    and held: "\<And>n c r. t = Holding n c r \<Longrightarrow>
      (\<exists>now. consumeProof cr now u (reqs i) c = Inr r) \<and> c = cur u s"
  shows "tf_inv cr u reqs (s, th(i := t))"
proof -
  note I = tf_invD [OF tfi]
  have user: "tf_userId (cur u s) = u" by (rule cur_user [OF I(1)])
  show ?thesis
    unfolding tf_inv_def prod.case
  proof (intro conjI allI impI)
    fix j n c r assume h: "(th(i := t)) j = Holding n c r"
    show "\<exists>now. consumeProof cr now u (reqs j) c = Inr r"
      using h held I(4) [of j n c r] by (cases "j = i") auto
    show "tf_userId c = u" using h held user I(5) [of j n c r] by (cases "j = i") auto
    show "tf_version c \<le> tf_version (cur u s)"
      using h held I(6) [of j n c r] by (cases "j = i") auto
    assume "tf_version c = tf_version (cur u s)"
    then show "c = cur u s" using h held I(7) [of j n c r] by (cases "j = i") auto
  next
    fix j x assume "(th(i := t)) j = Finished (Inr ()) (Some x)"
    then have "th j = Finished (Inr ()) (Some x)" using t [of x] by (simp split: if_splits)
    then show "spent cr u (reqs j) x (cur u s)" by (rule I(8))
  next
    fix j k x y
    assume "(th(i := t)) j = Finished (Inr ()) (Some x)" "(th(i := t)) k = Finished (Inr ()) (Some y)"
      and "j \<noteq> k"
    then show "apart cr u (reqs j) x (reqs k) y"
      using t [of x] t [of y] I(9) [of j x k y] by (simp split: if_splits)
  qed (rule I(1-3))+
qed

lemma tf_inv_step:
  assumes step: "tf_step repo cr u reqs (s, th) (s', th')" and tfi: "tf_inv cr u reqs (s, th)"
  shows "tf_inv cr u reqs (s', th')"
  using step
proof (cases rule: tf_step.cases)
  case (refuse i n now e)
  then show ?thesis using tf_inv_other [OF tfi, of "Finished (Inl e) None"] by simp
next
  case (fetched i n now r)
  then show ?thesis
    using tf_inv_other [OF tfi, of "Holding n (cur u s) r" i] by (auto simp: cur_now)
next
  case (stored i n c r now)
  then show ?thesis using tf_inv_stored [OF tfi] by simp
next
  case (lost i n c r now)
  note I = tf_invD [OF tfi]
  obtain now' where "consumeProof cr now' u (reqs i) c = Inr r" using I(4) [OF lost(2)] by blast
  then have "tf_userId r = u" using consumeProof_userId I(5) [OF lost(2)] by simp
  from update_lostD(1) [OF I(1) lost(3) this] show ?thesis
    using tf_inv_other [OF tfi, of "Trying n"] lost by simp
next
  case (busy i)
  then show ?thesis
    using tf_inv_other [OF tfi, of "Finished (Inl (Conflict ''two_factor_busy'')) None"] by simp
qed

lemma tf_inv_reachable:
  assumes "(tf_step repo cr u reqs)\<^sup>*\<^sup>* (s, \<lambda>_. Trying MAX_WRITE_ATTEMPTS) x"
    and "inv s" "lock_ok (cur u s)" "distinct (tf_recoveryCodeHashes (cur u s))"
  shows "tf_inv cr u reqs x"
  using assms(1)
proof (induction rule: rtranclp_induct)
  case base
  then show ?case using assms(2-4) by (simp add: tf_inv_def)
next
  case (step y z)
  then show ?case using tf_inv_step by (cases y; cases z) blast
qed

text \<open>Two requests never both spend the same step or the same recovery code.\<close>

lemma spent_once:
  assumes run: "(tf_step repo cr u reqs)\<^sup>*\<^sup>* (s, \<lambda>_. Trying MAX_WRITE_ATTEMPTS) (s', th)"
    and start: "inv s" "lock_ok (cur u s)" "distinct (tf_recoveryCodeHashes (cur u s))"
    and won: "th i = Finished (Inr ()) (Some r)" "th j = Finished (Inr ()) (Some r')" "i \<noteq> j"
  shows "reqs i = TotpProof c \<Longrightarrow> reqs j = TotpProof c' \<Longrightarrow> tf_lastUsedStep r \<noteq> tf_lastUsedStep r'"
    and "reqs i = RecoveryProof c \<Longrightarrow> reqs j = RecoveryProof c' \<Longrightarrow> c \<noteq> c'"
  using tf_invD(9) [OF tf_inv_reachable [OF run start] won] by (auto simp: apart_def)

lemma verify_alone:
  assumes "inv s"
  shows "(case consumeProof cr now u p (cur u s) of
      Inl e \<Rightarrow> tf_verify (repo now) cr u now p s = (Inl e, s)
    | Inr r \<Rightarrow> \<exists>s'. tf_verify (repo now) cr u now p s = (mutate_report (cur u s) r, s') \<and> inv s' \<and>
        cur u s' = r\<lparr>tf_version := tf_version (cur u s) + 1\<rparr> \<and> (\<forall>u'. u' \<noteq> u \<longrightarrow> cur u' s' = cur u' s))"
  unfolding tf_verify_def by (rule mutate_alone [OF assms]) (rule consumeProof_userId)

lemma verify_wrong:
  assumes inv: "inv s" and wrong: "wrong_proof cr now u p (cur u s)"
    and unlocked: "tf_lockedUntil (cur u s) = None"
  shows "\<exists>s'. tf_verify (repo now) cr u now p s = (mutate_report (cur u s) (recordFailure now (cur u s)), s') \<and>
    inv s' \<and> tf_secrets (cur u s') = tf_secrets (cur u s) \<and>
    tf_failedAttempts (cur u s') = tf_failedAttempts (cur u s) + 1 \<and>
    tf_lockedUntil (cur u s') = (if MAX_FAILED_ATTEMPTS \<le> tf_failedAttempts (cur u s) + 1
       then Some (now + LOCKOUT_MS) else None)"
proof -
  have "consumeProof cr now u p (cur u s) = Inr (recordFailure now (cur u s))"
    using wrong unlocked by (intro wrong_proof_fails) (simp_all add: locked_at_def)
  then obtain s' where
    "tf_verify (repo now) cr u now p s =
       (mutate_report (cur u s) (recordFailure now (cur u s)), s')" "inv s'"
    "cur u s' = (recordFailure now (cur u s))\<lparr>tf_version := tf_version (cur u s) + 1\<rparr>"
    using verify_alone [OF inv, where cr = cr and now = now and u = u and p = p] by auto
  then show ?thesis using unlocked by (simp add: recordFailure_def Let_def tf_secrets_def)
qed

lemma verify_wrong_run:
  assumes "inv s" and "tf_lockedUntil (cur u s) = None"
    and "tf_failedAttempts (cur u s) + length ps < MAX_FAILED_ATTEMPTS"
    and "\<And>now p. (now, p) \<in> set ps \<Longrightarrow> wrong_proof cr now u p (cur u s)"
  shows "\<exists>s'. verify_all repo cr u ps s = (replicate (length ps) (Inl (Forbidden ''invalid_two_factor_code'')), s') \<and>
    inv s' \<and> tf_secrets (cur u s') = tf_secrets (cur u s) \<and> tf_lockedUntil (cur u s') = None \<and>
    tf_failedAttempts (cur u s') = tf_failedAttempts (cur u s) + length ps"
  using assms
proof (induction ps arbitrary: s)
  case (Cons a ps)
  obtain now p where a: "a = (now, p)" by (cases a)
  obtain s' where s': "tf_verify (repo now) cr u now p s =
      (mutate_report (cur u s) (recordFailure now (cur u s)), s')" "inv s'"
      "tf_secrets (cur u s') = tf_secrets (cur u s)"
      "tf_failedAttempts (cur u s') = tf_failedAttempts (cur u s) + 1" "tf_lockedUntil (cur u s') = None"
    using verify_wrong [OF Cons.prems(1) _ Cons.prems(2), of cr now p] Cons.prems(3,4) a by auto
  have "wrong_proof cr now u p (cur u s')" if "(now, p) \<in> set ps" for now p
    using Cons.prems(4) [of now p] that wrong_proof_cong [OF s'(3)] by simp
  then obtain s'' where "verify_all repo cr u ps s' =
      (replicate (length ps) (Inl (Forbidden ''invalid_two_factor_code'')), s'')" "inv s''"
      "tf_secrets (cur u s'') = tf_secrets (cur u s')" "tf_lockedUntil (cur u s'') = None"
      "tf_failedAttempts (cur u s'') = tf_failedAttempts (cur u s') + length ps"
    using Cons.IH [OF s'(2,5)] Cons.prems(3) s'(4) by auto
  moreover have "mutate_report (cur u s) (recordFailure now (cur u s)) =
      Inl (Forbidden ''invalid_two_factor_code'')"
    using Cons.prems(2,3) by (simp add: mutate_report_def recordFailure_def Let_def)
  ultimately show ?case using s' by (simp add: a)
qed simp

text \<open>The fifth wrong proof in a row locks the factor, for right proofs too.\<close>

lemma lockout:
  assumes inv: "inv s" and fresh: "tf_failedAttempts (cur u s) = 0" "tf_lockedUntil (cur u s) = None"
    and five: "length ps = 4"
    and wrong: "\<And>now p. (now, p) \<in> set (ps @ [(t, q)]) \<Longrightarrow> wrong_proof cr now u p (cur u s)"
  shows "\<exists>s'. verify_all repo cr u (ps @ [(t, q)]) s =
      (replicate 4 (Inl (Forbidden ''invalid_two_factor_code'')) @ [Inl (Locked (t + LOCKOUT_MS))], s') \<and>
    (\<forall>now p. now < t + LOCKOUT_MS \<longrightarrow>
       tf_verify (repo now) cr u now p s' = (Inl (Locked (t + LOCKOUT_MS)), s'))"
proof -
  obtain s1 where s1: "verify_all repo cr u ps s =
      (replicate (length ps) (Inl (Forbidden ''invalid_two_factor_code'')), s1)" "inv s1"
      "tf_secrets (cur u s1) = tf_secrets (cur u s)" "tf_lockedUntil (cur u s1) = None"
      "tf_failedAttempts (cur u s1) = 4"
    using verify_wrong_run [OF inv fresh(2), of ps cr] fresh(1) five wrong by (auto simp: MAX_FAILED_ATTEMPTS_def)
  have w: "wrong_proof cr t u q (cur u s1)"
    using wrong [of t q] wrong_proof_cong [OF s1(3)] by simp
  obtain s2 where s2: "tf_verify (repo t) cr u t q s1 =
      (mutate_report (cur u s1) (recordFailure t (cur u s1)), s2)" "inv s2"
      "tf_secrets (cur u s2) = tf_secrets (cur u s)" "tf_lockedUntil (cur u s2) = Some (t + LOCKOUT_MS)"
    using verify_wrong [OF s1(2) w s1(4)] s1(3,5) by (auto simp: MAX_FAILED_ATTEMPTS_def)
  have report: "mutate_report (cur u s1) (recordFailure t (cur u s1)) = Inl (Locked (t + LOCKOUT_MS))"
    using s1(4,5) by (simp add: mutate_report_def recordFailure_def Let_def MAX_FAILED_ATTEMPTS_def)
  have "truthy (tf_totpSecret (cur u s2))"
    using w s2(3) s1(3) by (simp add: wrong_proof_def tf_secrets_def)
  then have refused: "tf_verify (repo now) cr u now p s2 = (Inl (Locked (t + LOCKOUT_MS)), s2)"
    if "now < t + LOCKOUT_MS" for now p
    using that s2(4) verify_alone [OF s2(2), where cr = cr and now = now and u = u and p = p]
    by (simp add: consumeProof_def locked_at_def)
  show ?thesis
    using s1(1) s2(1) report refused by (simp add: verify_all_append five)
qed

end

section \<open>Both stores are such repositories\<close>

definition memory_ok :: "(id \<times> tf_record) list \<Rightarrow> bool" where
  "memory_ok s \<longleftrightarrow> (\<forall>u r. map_of s u = Some r \<longrightarrow> tf_userId r = u)"

interpretation memory: two_factor_repository "\<lambda>_. memory_repository" memory_ok
  by unfold_locales
    (auto simp: memory_repository_def memory_ok_def memory_find_def memory_update_def memory_delete_def
      stored_version_def current_tf_def emptyRecord_def update_conv' delete_conv'
      split: if_splits option.splits)

definition drizzle_ok :: "tf_row list \<Rightarrow> bool" where
  "drizzle_ok t \<longleftrightarrow> unique_by tfr_accountId t \<and> (\<forall>r \<in> set t. 1 \<le> tfr_version r)"

lemma toRecord_row_values [simp]: "toRecord (row_values n k now) = n\<lparr>tf_version := k + 1\<rparr>"
  by (simp add: toRecord_def row_values_def)

lemma row_values_simps [simp]:
  "tfr_accountId (row_values n k now) = tf_userId n" "tfr_version (row_values n k now) = k + 1"
  by (simp_all add: row_values_def)

lemma toRecord_simps [simp]:
  "tf_userId (toRecord r) = tfr_accountId r" "tf_version (toRecord r) = tfr_version r"
  by (simp_all add: toRecord_def)


lemma drizzle_stored_version:
  "stored_version (drizzle_repository now) u t =
     (case find (\<lambda>r. tfr_accountId r = u) t of None \<Rightarrow> 0 | Some r \<Rightarrow> tfr_version r)"
  by (simp add: stored_version_def current_tf_def drizzle_repository_def drizzle_find_def emptyRecord_def
      split: option.split)

lemma drizzle_update_first:
  assumes "drizzle_ok t"
  shows "drizzle_update now n 0 t = (if find (\<lambda>r. tfr_accountId r = tf_userId n) t = None
    then (True, t @ [row_values n 0 now]) else (False, t))"
  by (auto simp: drizzle_update_def insert_new_def find_None_iff Let_def image_iff)

lemma drizzle_update_later:
  assumes "drizzle_ok t" and "0 < k"
  shows "drizzle_update now n k t =
    (if \<exists>r \<in> set t. tfr_accountId r = tf_userId n \<and> tfr_version r = k
     then (True, update_where (\<lambda>r. tfr_accountId r = tfr_accountId (row_values n k now) \<and> tfr_version r = k)
            (\<lambda>_. row_values n k now) t)
     else (False, t))"
  using assms length_hits [of tfr_accountId t "tf_userId n" "\<lambda>r. tfr_version r = k"]
  by (auto simp: drizzle_update_def drizzle_ok_def Let_def intro!: update_where_id)

lemma drizzle_version_iff:
  assumes "drizzle_ok t" and "0 < k"
  shows "stored_version (drizzle_repository now) u t = k \<longleftrightarrow>
    (\<exists>r \<in> set t. tfr_accountId r = u \<and> tfr_version r = k)"
proof -
  have u: "unique_by tfr_accountId t" using assms(1) by (simp add: drizzle_ok_def)
  show ?thesis
  proof (cases "find (\<lambda>r. tfr_accountId r = u) t")
    case None
    then have "stored_version (drizzle_repository now) u t = 0" by (simp add: drizzle_stored_version)
    moreover have "\<forall>r \<in> set t. tfr_accountId r \<noteq> u" using None by (auto simp: find_None_iff)
    ultimately show ?thesis using assms(2) by auto
  next
    case (Some y)
    then have "y \<in> set t" "tfr_accountId y = u" by (auto dest: find_set)
    then have "r = y" if "r \<in> set t" "tfr_accountId r = u" for r
      using unique_byD [OF u, of r y] that by simp
    then have "(\<exists>r \<in> set t. tfr_accountId r = u \<and> tfr_version r = k) \<longleftrightarrow> tfr_version y = k"
      using \<open>y \<in> set t\<close> \<open>tfr_accountId y = u\<close> by blast
    with Some show ?thesis by (simp add: drizzle_stored_version)
  qed
qed

lemma drizzle_ok_update:
  assumes "drizzle_ok t" and "drizzle_update now n k t = (b, t')"
  shows "drizzle_ok t'"
proof (cases "k = 0")
  case True
  show ?thesis
  proof (cases "find (\<lambda>r. tfr_accountId r = tf_userId n) t")
    case None
    then have "t' = t @ [row_values n 0 now]" using assms True by (simp add: drizzle_update_first)
    moreover have "tf_userId n \<notin> tfr_accountId ` set t" using None by (auto simp: find_None_iff)
    ultimately show ?thesis using assms(1) by (auto simp: drizzle_ok_def unique_by_snoc)
  next
    case (Some y)
    then show ?thesis using assms True by (simp add: drizzle_update_first)
  qed
next
  case False
  then have "unique_by tfr_accountId t'"
    using assms by (auto simp: drizzle_update_later drizzle_ok_def split: if_splits
        intro!: unique_by_update_where)
  moreover have "\<forall>r \<in> set t'. 1 \<le> tfr_version r"
    using assms False by (auto simp: drizzle_update_later drizzle_ok_def set_update_where split: if_splits)
  ultimately show ?thesis by (simp add: drizzle_ok_def)
qed

interpretation drizzle: two_factor_repository drizzle_repository drizzle_ok
proof unfold_locales
  fix t now u r assume "drizzle_ok t" "repo_find (drizzle_repository now) u t = Some r"
  then show "tf_userId r = u"
    by (auto simp: drizzle_repository_def drizzle_find_def find_Some_iff)
next
  fix now u t now'
  show "repo_find (drizzle_repository now) u t = repo_find (drizzle_repository now') u t"
    by (simp add: drizzle_repository_def)
next
  fix t now r k t'
  assume ok: "drizzle_ok t" and upd: "repo_update (drizzle_repository now) r k t = (True, t')"
  then have upd': "drizzle_update now r k t = (True, t')" by (simp add: drizzle_repository_def)
  show "drizzle_ok t' \<and> stored_version (drizzle_repository now) (tf_userId r) t = k \<and>
      (\<forall>u. repo_find (drizzle_repository now) u t' = (if u = tf_userId r then Some (r\<lparr>tf_version := k + 1\<rparr>)
         else repo_find (drizzle_repository now) u t))"
  proof (cases "k = 0")
    case True
    then have "find (\<lambda>x. tfr_accountId x = tf_userId r) t = None" "t' = t @ [row_values r 0 now]"
      using upd' ok by (auto simp: drizzle_update_first split: if_splits)
    then show ?thesis
      using True drizzle_ok_update [OF ok upd'] drizzle_stored_version [of now "tf_userId r" t]
      by (auto simp: drizzle_repository_def drizzle_find_def find_append split: option.splits)
  next
    case False
    then have hit: "\<exists>x \<in> set t. tfr_accountId x = tf_userId r \<and> tfr_version x = k"
      and t': "t' = update_where (\<lambda>x. tfr_accountId x = tfr_accountId (row_values r k now) \<and> tfr_version x = k)
            (\<lambda>_. row_values r k now) t"
      using upd' ok by (auto simp: drizzle_update_later split: if_splits)
    have "unique_by tfr_accountId t" using ok by (simp add: drizzle_ok_def)
    from find_replaced [OF this, of "row_values r k now" "\<lambda>x. tfr_version x = k"] show ?thesis
      using hit False drizzle_ok_update [OF ok upd'] drizzle_version_iff [OF ok]
      by (simp add: drizzle_repository_def drizzle_find_def t')
  qed
next
  fix t now r k t'
  assume ok: "drizzle_ok t" and upd: "repo_update (drizzle_repository now) r k t = (False, t')"
  then have upd': "drizzle_update now r k t = (False, t')" by (simp add: drizzle_repository_def)
  show "t' = t \<and> stored_version (drizzle_repository now) (tf_userId r) t \<noteq> k"
  proof (cases "k = 0")
    case True
    have "find (\<lambda>x. tfr_accountId x = tf_userId r) t \<noteq> None" and t': "t' = t"
      using upd' [unfolded True drizzle_update_first [OF ok]] by (simp_all split: if_splits)
    then obtain y where y: "find (\<lambda>x. tfr_accountId x = tf_userId r) t = Some y" by blast
    then have "1 \<le> tfr_version y" using ok find_set [OF y] by (simp add: drizzle_ok_def)
    with y t' True show ?thesis by (simp add: drizzle_stored_version)
  next
    case False
    then show ?thesis
      using upd' ok drizzle_version_iff [OF ok] by (auto simp: drizzle_update_later split: if_splits)
  qed
next
  fix t now u assume "drizzle_ok t"
  then show "drizzle_ok (repo_delete (drizzle_repository now) u t) \<and>
      (\<forall>u'. repo_find (drizzle_repository now) u' (repo_delete (drizzle_repository now) u t) =
         (if u' = u then None else repo_find (drizzle_repository now) u' t))"
    by (auto simp: drizzle_repository_def drizzle_delete_def drizzle_ok_def unique_by_delete_where
        drizzle_find_def find_delete_where_key)
qed


section \<open>Codes and seals\<close>

lemma js_split_part:
  "d \<notin> set p \<Longrightarrow> js_split d (p @ d # s) = p # js_split d s"
  by (induction p) auto

lemma js_split_last: "d \<notin> set p \<Longrightarrow> js_split d p = [p]"
  by (induction p) auto

text \<open>What is sealed for a user opens for that user.\<close>

lemma open_seal:
  assumes b64: "\<And>b. CHR ''.'' \<notin> set (tc_base64url cr b)" "\<And>b. tc_unbase64url cr (tc_base64url cr b) = b"
    and parts: "tc_encrypt cr iv (aad u) secret = (ct, tag)" "tc_base64url cr iv \<noteq> ''''"
      "tc_base64url cr ct \<noteq> ''''" "tc_base64url cr tag \<noteq> ''''"
    and dec: "tc_decrypt cr iv (aad u) ct tag = Some secret"
  shows "open_sealed cr u (seal cr iv u secret) = Some secret"
proof -
  have "CHR ''.'' \<notin> set SEALED_VERSION" by (simp add: SEALED_VERSION_def)
  then have "js_split (CHR ''.'') (seal cr iv u secret) =
      [SEALED_VERSION, tc_base64url cr iv, tc_base64url cr ct, tc_base64url cr tag]"
    using b64(1) by (simp add: seal_def parts(1) js_split_part js_split_last)
  then show ?thesis using parts dec by (simp add: open_sealed_def b64(2))
qed

text \<open>A code as it was shown is its own normal form.\<close>

definition plain_char :: "char \<Rightarrow> bool" where
  "plain_char ch \<longleftrightarrow> ascii_upper ch = ch \<and> ch \<noteq> CHR ''-'' \<and> ch \<noteq> CHR ''O'' \<and> ch \<noteq> CHR ''I'' \<and>
      ch \<noteq> CHR ''L'' \<and> (of_char ch :: nat) \<notin> set [9, 10, 11, 12, 13, 32, 160]"

lemma normalize_plain:
  assumes "\<forall>ch \<in> set (xs @ ys). plain_char ch" and "length (xs @ ys) = 10"
  shows "normalizeRecoveryCode (xs @ ''-'' @ ys) = take 5 (xs @ ys) @ ''-'' @ drop 5 (xs @ ys)"
proof -
  let ?Q = "\<lambda>ch. ch \<noteq> CHR ''-'' \<and> (of_char ch :: nat) \<notin> set [9, 10, 11, 12, 13, 32, 160]"
  have Q: "?Q ch" if "ch \<in> set (xs @ ys)" for ch
    using assms(1) that unfolding plain_char_def by blast
  have "ascii_upper (CHR ''-'') = CHR ''-''" by code_simp
  then have upper: "map ascii_upper (xs @ ''-'' @ ys) = xs @ ''-'' @ ys"
    using assms(1) by (simp add: map_idI plain_char_def)
  have "filter ?Q xs = xs" "filter ?Q ys = ys" "\<not> ?Q (CHR ''-'')"
    using Q by (simp_all only: filter_id_conv) auto
  then have kept: "filter ?Q (xs @ ''-'' @ ys) = xs @ ys" by (simp only: filter_append filter.simps if_False append_Nil)
  have "map (\<lambda>ch. if ch = CHR ''I'' \<or> ch = CHR ''L'' then CHR ''1'' else ch)
      (map (\<lambda>ch. if ch = CHR ''O'' then CHR ''0'' else ch) (xs @ ys)) = xs @ ys"
    unfolding map_map by (rule map_idI) (use assms(1) in \<open>auto simp: plain_char_def\<close>)
  then show ?thesis
    using assms(2) unfolding normalizeRecoveryCode_def upper kept by (simp only: Let_def if_True simp_thms)
qed

lemma normalize_shown_code:
  assumes "length ds = 10" and "\<forall>d \<in> set ds. d < 32"
  shows "normalizeRecoveryCode (recovery_code ds) = recovery_code ds"
proof -
  let ?raw = "map (\<lambda>d. CROCKFORD ! d) ds"
  have "\<forall>ch \<in> set CROCKFORD. plain_char ch" by code_simp
  moreover have "length CROCKFORD = 32" by code_simp
  ultimately have "\<forall>ch \<in> set ?raw. plain_char ch" using assms(2) by auto
  then have "\<forall>ch \<in> set (take 5 ?raw @ drop 5 ?raw). plain_char ch"
    unfolding append_take_drop_id .
  from normalize_plain [OF this] show ?thesis
    using assms(1) by (simp add: recovery_code_def Let_def)
qed


section \<open>What the service promises\<close>

text \<open>C16. Requests that verify proofs of one account run against the Postgres store with their reads
  and writes interleaved in any order: no two of them succeed on the same TOTP step, and no two
  succeed with the same recovery code.\<close>

theorem second_factor_spent_once:
  assumes "drizzle_ok t" and "lock_ok (current_tf (drizzle_repository 0) u t)"
    and "distinct (tf_recoveryCodeHashes (current_tf (drizzle_repository 0) u t))"
    and "(tf_step drizzle_repository cr u reqs)\<^sup>*\<^sup>* (t, \<lambda>_. Trying MAX_WRITE_ATTEMPTS) (t', th)"
    and "th i = Finished (Inr ()) (Some r)" "th j = Finished (Inr ()) (Some r')" "i \<noteq> j"
  shows "(\<forall>c c'. reqs i = TotpProof c \<and> reqs j = TotpProof c' \<longrightarrow> tf_lastUsedStep r \<noteq> tf_lastUsedStep r') \<and>
    (\<forall>c c'. reqs i = RecoveryProof c \<and> reqs j = RecoveryProof c' \<longrightarrow> c \<noteq> c')"
  using drizzle.spent_once [OF assms(4) assms(1) _ _ assms(5-7)] assms(2,3) by (auto simp: drizzle.cur_def)

text \<open>Five wrong proofs in a row lock the second factor: four answer that the code is wrong, the
  fifth answers the lock, and until fifteen minutes after it every proof is refused, the right one
  too, and nothing is written.\<close>

theorem second_factor_lockout:
  assumes "drizzle_ok t" and "tf_failedAttempts (current_tf (drizzle_repository 0) u t) = 0"
    and "tf_lockedUntil (current_tf (drizzle_repository 0) u t) = None"
    and "length ps = 4"
    and "\<forall>x \<in> set (ps @ [(now, q)]). wrong_proof cr (fst x) u (snd x) (current_tf (drizzle_repository 0) u t)"
  shows "\<exists>t'. verify_all drizzle_repository cr u (ps @ [(now, q)]) t =
      (replicate 4 (Inl (Forbidden ''invalid_two_factor_code'')) @ [Inl (Locked (now + LOCKOUT_MS))], t') \<and>
    (\<forall>later p. later < now + LOCKOUT_MS \<longrightarrow>
       tf_verify (drizzle_repository later) cr u later p t' = (Inl (Locked (now + LOCKOUT_MS)), t'))"
proof (rule drizzle.lockout [OF assms(1) _ _ assms(4)])
  show "tf_failedAttempts (drizzle.cur u t) = 0" "tf_lockedUntil (drizzle.cur u t) = None"
    using assms(2,3) by (simp_all add: drizzle.cur_def)
  show "wrong_proof cr n u p (drizzle.cur u t)" if "(n, p) \<in> set (ps @ [(now, q)])" for n p
    using bspec [OF assms(5) that] by (simp add: drizzle.cur_def)
qed

lemma findRecoveryCode_shown:
  assumes "hashRecoveryCode cr u code \<in> set hashes"
  obtains i where "findRecoveryCode cr u code hashes = Some i"
proof (cases "findRecoveryCode cr u code hashes")
  case None
  then show thesis using assms by (auto simp: findRecoveryCode_def find_None_iff in_set_conv_nth)
qed

lemma confirmSetup_Inr:
  assumes "drizzle_ok t" and "lock_ok (drizzle.cur u t)"
    and "tf_confirmSetup (drizzle_repository now) cr u now rnd code t = (Inr codes, t')"
  shows "codes = map recovery_code rnd" "drizzle_ok t'" "truthy (tf_totpSecret (drizzle.cur u t'))"
    "tf_recoveryCodeHashes (drizzle.cur u t') = map (hashRecoveryCode cr u) codes"
    "tf_lockedUntil (drizzle.cur u t') = None"
proof -
  let ?c = "drizzle.cur u t" and ?hs = "map (hashRecoveryCode cr u) (map recovery_code rnd)"
  let ?change = "confirmSetup_change cr now ?hs code u"
  have user: "tf_userId n = tf_userId r" if "?change r = Inr n" for r n
    using that by (auto simp: confirmSetup_change_def split: if_splits option.splits)
  note alone = drizzle.mutate_alone [where change = ?change and u = u and now = now, OF assms(1) user]
  have m: "mutate (drizzle_repository now) u ?change t = (Inr (), t')"
    and codes: "codes = map recovery_code rnd"
    using assms(3) by (auto simp: tf_confirmSetup_def generateRecoveryCodes_def Let_def and_then_Inr_iff)
  then obtain r where r: "?change ?c = Inr r"
    using alone by (cases "?change ?c") auto
  then obtain s' where s': "mutate (drizzle_repository now) u ?change t = (mutate_report ?c r, s')"
      "drizzle_ok s'" "drizzle.cur u s' = r\<lparr>tf_version := tf_version ?c + 1\<rparr>"
    using alone by auto
  then have "mutate_report ?c r = Inr ()" and t': "t' = s'" using m by auto
  then have "r \<noteq> recordFailure now ?c" using recordFailure_reports(1) [OF assms(2)] by auto
  then have new: "truthy (tf_totpSecret r)" "tf_recoveryCodeHashes r = ?hs" "tf_lockedUntil r = None"
    using r by (auto simp: confirmSetup_change_def split: if_splits option.splits)
  show "codes = map recovery_code rnd" by (rule codes)
  show "drizzle_ok t'" "truthy (tf_totpSecret (drizzle.cur u t'))"
    "tf_recoveryCodeHashes (drizzle.cur u t') = map (hashRecoveryCode cr u) codes"
    "tf_lockedUntil (drizzle.cur u t') = None"
    using s'(2,3) new by (simp_all add: t' codes)
qed

text \<open>Each recovery code that turning the second factor on has shown verifies, once normalised
  from what the user types back, and is taken off the list by it.\<close>

theorem shown_code_verifies:
  assumes "drizzle_ok t" and "lock_ok (current_tf (drizzle_repository 0) u t)"
    and "\<forall>ds \<in> set rnd. length ds = 10 \<and> (\<forall>d \<in> set ds. d < 32)"
    and "tf_confirmSetup (drizzle_repository now) cr u now rnd code t = (Inr codes, t')"
    and "shown \<in> set codes"
  shows "\<exists>t''. tf_verify (drizzle_repository later) cr u later
        (RecoveryProof (normalizeRecoveryCode shown)) t' = (Inr (), t'') \<and>
    ts_recoveryCodesRemaining (tf_status (drizzle_repository later) u t'') + 1 =
      ts_recoveryCodesRemaining (tf_status (drizzle_repository later) u t')"
proof -
  have "lock_ok (drizzle.cur u t)" using assms(2) by (simp add: drizzle.cur_def)
  note on = confirmSetup_Inr [OF assms(1) this assms(4)]
  let ?c = "drizzle.cur u t'" and ?hs = "tf_recoveryCodeHashes (drizzle.cur u t')"
  have normal: "normalizeRecoveryCode shown = shown"
    using assms(3,5) normalize_shown_code by (auto simp: on(1))
  obtain i where i: "findRecoveryCode cr u shown ?hs = Some i"
    using findRecoveryCode_shown [of cr u shown ?hs] assms(5) on(4) by auto
  let ?n = "?c\<lparr>tf_failedAttempts := 0, tf_lockedUntil := None, tf_recoveryCodeHashes := drop_index i ?hs\<rparr>"
  have "consumeProof cr later u (RecoveryProof shown) ?c = Inr ?n"
    using on(3,5) i by (simp add: consumeProof_def locked_at_def Let_def)
  then obtain t'' where t'': "tf_verify (drizzle_repository later) cr u later (RecoveryProof shown) t' =
      (mutate_report ?c ?n, t'')" "drizzle.cur u t'' = ?n\<lparr>tf_version := tf_version ?c + 1\<rparr>"
    using drizzle.verify_alone [OF on(2), where cr = cr and now = later and u = u and p = "RecoveryProof shown"] by auto
  have "length (drop_index i ?hs) + 1 = length ?hs"
    using findRecoveryCode_Some(1) [OF i] by (simp add: drop_index_def)
  moreover have status: "ts_recoveryCodesRemaining (tf_status (drizzle_repository later) u x) =
      (if tf_totpSecret (drizzle.cur u x) \<noteq> None then length (tf_recoveryCodeHashes (drizzle.cur u x)) else 0)" for x
    by (simp add: tf_status_def drizzle.cur_now [of later, symmetric] current_tf_def emptyRecord_def Let_def
        split: option.split)
  moreover have "tf_totpSecret ?c \<noteq> None" using on(3) by (auto simp: truthy_def)
  ultimately show ?thesis using t'' by (simp add: normal mutate_report_def)
qed


section \<open>Concrete runs\<close>

definition zero_hmac :: hmac_sha1 where
  "zero_hmac secret msg = replicate 20 0"

lemma hotp_zero: "0 \<le> n \<Longrightarrow> n < 2 ^ 64 \<Longrightarrow> hotp zero_hmac secret n = Some ''000000''"
proof -
  have "readUInt32BE (replicate 20 0) 0 = Some 0" by (simp add: readUInt32BE_def)
  moreover have "padStart TOTP_DIGITS (CHR ''0'') (decimal 0) = ''000000''" by code_simp
  ultimately show "0 \<le> n \<Longrightarrow> n < 2 ^ 64 \<Longrightarrow> ?thesis"
    by (simp add: hotp_def counter_bytes_def Let_def zero_hmac_def)
qed

definition demo_tf_crypto :: tf_crypto where
  "demo_tf_crypto = \<lparr>tc_hmac_sha1 = zero_hmac, tc_encrypt = (\<lambda>iv a s. (s, [1])),
     tc_decrypt = (\<lambda>iv a ct tag. Some ct),
     tc_base64url = map (\<lambda>b. char_of (64 + unat b)),
     tc_unbase64url = map (\<lambda>ch. word_of_nat (of_char ch - 64)), tc_keyed_hash = (\<lambda>s. s)\<rparr>"

definition demo_rnd :: "nat list list" where
  "demo_rnd = [replicate 10 1, replicate 10 2]"

text \<open>An account that has started a setup, and one that is through with it.\<close>

definition demo_setup :: "tf_row list" where
  "demo_setup = [row_values (emptyRecord ''u''\<lparr>tf_pendingSecret := Some ''v1.C.AB.A'',
     tf_pendingExpiresAt := Some 600000\<rparr>) 0 0]"

definition demo_tf :: "tf_row list" where
  "demo_tf = [row_values (emptyRecord ''u''\<lparr>tf_totpSecret := Some ''v1.C.AB.A'',
     tf_enabledAt := Some 90000, tf_lastUsedStep := Some 2,
     tf_recoveryCodeHashes := map (hashRecoveryCode demo_tf_crypto ''u'') (map recovery_code demo_rnd)\<rparr>) 1 90000]"

lemma demo_setup_facts:
  "drizzle_ok demo_setup" "lock_ok (current_tf (drizzle_repository 0) ''u'' demo_setup)"
  "open_sealed demo_tf_crypto ''u'' ''v1.C.AB.A'' = Some [1, 2]"
  by code_simp+

lemma demo_tf_facts:
  "drizzle_ok demo_tf" "lock_ok (current_tf (drizzle_repository 0) ''u'' demo_tf)"
  "distinct (tf_recoveryCodeHashes (current_tf (drizzle_repository 0) ''u'' demo_tf))"
  "tf_failedAttempts (current_tf (drizzle_repository 0) ''u'' demo_tf) = 0"
  "tf_lockedUntil (current_tf (drizzle_repository 0) ''u'' demo_tf) = None"
  by code_simp+

lemma demo_confirm:
  "\<exists>t'. tf_confirmSetup (drizzle_repository 90000) demo_tf_crypto ''u'' 90000 demo_rnd ''000000'' demo_setup =
     (Inr (map recovery_code demo_rnd), t')"
proof -
  have "timeStep 90000 = 3" by (simp add: timeStep_def TOTP_PERIOD_SECONDS_def)
  then have "verifyTotp zero_hmac secret ''000000'' 90000 None = Some (Some 2)" for secret
    by (simp add: verifyTotp_def window hotp_zero)
  then show ?thesis
    using demo_setup_facts(3)
    by (simp add: tf_confirmSetup_def generateRecoveryCodes_def Let_def mutate_def MAX_WRITE_ATTEMPTS_def
        numeral_3_eq_3 current_tf_def drizzle_repository_def drizzle_find_def demo_setup_def
        confirmSetup_change_def emptyRecord_def truthy_def locked_at_def demo_tf_crypto_def
        drizzle_update_def mutate_report_def ret_def)
qed

theorem shown_code_verifies_witness:
  "\<exists>t' t''. tf_verify (drizzle_repository 99000) demo_tf_crypto ''u'' 99000
     (RecoveryProof (normalizeRecoveryCode (recovery_code (replicate 10 1)))) t' = (Inr (), t'')"
proof -
  obtain t' where d: "tf_confirmSetup (drizzle_repository 90000) demo_tf_crypto ''u'' 90000 demo_rnd
      ''000000'' demo_setup = (Inr (map recovery_code demo_rnd), t')"
    using demo_confirm by blast
  have "recovery_code (replicate 10 1) \<in> set (map recovery_code demo_rnd)"
    "\<forall>ds \<in> set demo_rnd. length ds = 10 \<and> (\<forall>d \<in> set ds. d < 32)"
    by (simp_all add: demo_rnd_def)
  with shown_code_verifies [OF demo_setup_facts(1,2) _ d, of _ 99000] show ?thesis by blast
qed

theorem second_factor_lockout_witness:
  "\<exists>t'. tf_verify (drizzle_repository 100000) demo_tf_crypto ''u'' 100000
     (RecoveryProof ''11111-11111'') t' = (Inl (Locked (99999 + LOCKOUT_MS)), t')"
proof -
  let ?wrong = "RecoveryProof ''00000-00000''"
  have "\<forall>x \<in> set (replicate 4 (99000, ?wrong) @ [(99999, ?wrong)]).
      wrong_proof demo_tf_crypto (fst x) ''u'' (snd x) (current_tf (drizzle_repository 0) ''u'' demo_tf)"
    by code_simp
  from second_factor_lockout [OF demo_tf_facts(1,4,5) _ this] obtain t' where
    "\<forall>later p. later < 99999 + LOCKOUT_MS \<longrightarrow> tf_verify (drizzle_repository later) demo_tf_crypto ''u'' later p t' =
       (Inl (Locked (99999 + LOCKOUT_MS)), t')"
    by auto
  then show ?thesis by (intro exI [of _ t']) (simp add: LOCKOUT_MS_def)
qed

text \<open>Two requests that read the same record: the first writes, the second loses and tries again.\<close>

definition demo_reqs :: "nat \<Rightarrow> tf_proof" where
  "demo_reqs i = RecoveryProof (recovery_code (demo_rnd ! (if i = 0 then 0 else 1)))"

definition demo_change :: "nat \<Rightarrow> tf_row list \<Rightarrow> tf_record" where
  "demo_change i t = projr (consumeProof demo_tf_crypto 99000 ''u'' (demo_reqs i)
     (current_tf (drizzle_repository 99000) ''u'' t))"

definition demo_rows1 :: "tf_row list" where
  "demo_rows1 = snd (drizzle_update 99000 (demo_change 0 demo_tf)
     (tf_version (current_tf (drizzle_repository 99000) ''u'' demo_tf)) demo_tf)"

definition demo_rows2 :: "tf_row list" where
  "demo_rows2 = snd (drizzle_update 99000 (demo_change 1 demo_rows1)
     (tf_version (current_tf (drizzle_repository 99000) ''u'' demo_rows1)) demo_rows1)"

lemma demo_race_facts:
  "consumeProof demo_tf_crypto 99000 ''u'' (demo_reqs 0) (current_tf (drizzle_repository 99000) ''u'' demo_tf) =
     Inr (demo_change 0 demo_tf)"
  "consumeProof demo_tf_crypto 99000 ''u'' (demo_reqs 1) (current_tf (drizzle_repository 99000) ''u'' demo_tf) =
     Inr (demo_change 1 demo_tf)"
  "consumeProof demo_tf_crypto 99000 ''u'' (demo_reqs 1) (current_tf (drizzle_repository 99000) ''u'' demo_rows1) =
     Inr (demo_change 1 demo_rows1)"
  "repo_update (drizzle_repository 99000) (demo_change 0 demo_tf)
     (tf_version (current_tf (drizzle_repository 99000) ''u'' demo_tf)) demo_tf = (True, demo_rows1)"
  "repo_update (drizzle_repository 99000) (demo_change 1 demo_tf)
     (tf_version (current_tf (drizzle_repository 99000) ''u'' demo_tf)) demo_rows1 = (False, demo_rows1)"
  "repo_update (drizzle_repository 99000) (demo_change 1 demo_rows1)
     (tf_version (current_tf (drizzle_repository 99000) ''u'' demo_rows1)) demo_rows1 = (True, demo_rows2)"
  "mutate_report (current_tf (drizzle_repository 99000) ''u'' demo_tf) (demo_change 0 demo_tf) = Inr ()"
  "mutate_report (current_tf (drizzle_repository 99000) ''u'' demo_rows1) (demo_change 1 demo_rows1) = Inr ()"
  by code_simp+

lemma demo_race:
  "\<exists>th. (tf_step drizzle_repository demo_tf_crypto ''u'' demo_reqs)\<^sup>*\<^sup>*
      (demo_tf, \<lambda>_. Trying MAX_WRITE_ATTEMPTS) (demo_rows2, th) \<and>
    th 0 = Finished (Inr ()) (Some (demo_change 0 demo_tf)) \<and>
    th 1 = Finished (Inr ()) (Some (demo_change 1 demo_rows1))"
proof -
  let ?step = "tf_step drizzle_repository demo_tf_crypto ''u'' demo_reqs"
  let ?c = "current_tf (drizzle_repository 99000) ''u''"
  let ?t0 = "\<lambda>_ :: nat. Trying MAX_WRITE_ATTEMPTS"
  let ?t1 = "?t0(0 := Holding 2 (?c demo_tf) (demo_change 0 demo_tf))"
  let ?t2 = "?t1(1 := Holding 2 (?c demo_tf) (demo_change 1 demo_tf))"
  let ?t3 = "?t2(0 := Finished (mutate_report (?c demo_tf) (demo_change 0 demo_tf))
      (Some (demo_change 0 demo_tf)))"
  let ?t4 = "?t3(1 := Trying 2)"
  let ?t5 = "?t4(1 := Holding 1 (?c demo_rows1) (demo_change 1 demo_rows1))"
  let ?t6 = "?t5(1 := Finished (mutate_report (?c demo_rows1) (demo_change 1 demo_rows1))
      (Some (demo_change 1 demo_rows1)))"
  have s1: "?step (demo_tf, ?t0) (demo_tf, ?t1)"
    by (rule tf_step.fetched [where repo = drizzle_repository and reqs = demo_reqs and i = 0, OF _ demo_race_facts(1)]) (simp add: MAX_WRITE_ATTEMPTS_def)
  have s2: "?step (demo_tf, ?t1) (demo_tf, ?t2)"
    by (rule tf_step.fetched [where repo = drizzle_repository and reqs = demo_reqs and i = 1, OF _ demo_race_facts(2)]) (simp add: MAX_WRITE_ATTEMPTS_def)
  have s3: "?step (demo_tf, ?t2) (demo_rows1, ?t3)"
    by (rule tf_step.stored [where repo = drizzle_repository and reqs = demo_reqs and i = 0, OF _ demo_race_facts(4)]) simp
  have s4: "?step (demo_rows1, ?t3) (demo_rows1, ?t4)"
    by (rule tf_step.lost [where repo = drizzle_repository and reqs = demo_reqs and i = 1, OF _ demo_race_facts(5)]) simp
  have s5: "?step (demo_rows1, ?t4) (demo_rows1, ?t5)"
    by (rule tf_step.fetched [where repo = drizzle_repository and reqs = demo_reqs and i = 1, OF _ demo_race_facts(3)]) simp
  have s6: "?step (demo_rows1, ?t5) (demo_rows2, ?t6)"
    by (rule tf_step.stored [where repo = drizzle_repository and reqs = demo_reqs and i = 1, OF _ demo_race_facts(6)]) simp
  have "?step\<^sup>*\<^sup>* (demo_tf, ?t0) (demo_rows2, ?t6)"
    using s1 s2 s3 s4 s5 s6 by (meson rtranclp.rtrancl_into_rtrancl rtranclp.rtrancl_refl)
  then show ?thesis using demo_race_facts(7,8) by (intro exI [of _ ?t6]) simp
qed

theorem second_factor_spent_once_witness:
  "\<exists>c c'. demo_reqs 0 = RecoveryProof c \<and> demo_reqs 1 = RecoveryProof c' \<and> c \<noteq> c'"
proof -
  obtain th where run: "(tf_step drizzle_repository demo_tf_crypto ''u'' demo_reqs)\<^sup>*\<^sup>*
      (demo_tf, \<lambda>_. Trying MAX_WRITE_ATTEMPTS) (demo_rows2, th)"
    and won: "th 0 = Finished (Inr ()) (Some (demo_change 0 demo_tf))"
      "th 1 = Finished (Inr ()) (Some (demo_change 1 demo_rows1))"
    using demo_race by blast
  from second_factor_spent_once [OF demo_tf_facts(1,2,3) run won] show ?thesis
    by (simp add: demo_reqs_def)
qed

end
