(* ===== verification/Sessions.thy ===== *)
theory Sessions
  imports Prelude
begin

text \<open>
  Signed-in sessions: the contract \<^verbatim>\<open>SessionStore\<close> of \<^verbatim>\<open>apps/api/src/devices\<close> and its two
  implementations, the in-memory store (two maps) and the Postgres store (one table, revoked
  rows kept). The hash of a bearer token is a parameter \<open>sha\<close>; the random token and id of an
  issued session are arguments.

  \<open>session_store\<close> states what both promise: answers and effects are those of a plain map from
  token hashes to sessions, up to sessions that have run out.
\<close>

section \<open>Sessions\<close>

record device_info =
  dv_name :: string
  dv_platform :: string
  dv_appVersion :: string

record session =
  se_id :: id
  se_userId :: id
  se_device :: device_info
  se_tokenHash :: string
  se_createdAt :: time
  se_lastSeenAt :: time
  se_expiresAt :: time

definition SESSION_ABSOLUTE_TTL_MS :: int where
  "SESSION_ABSOLUTE_TTL_MS = 90 * 24 * 60 * 60 * 1000"
definition SESSION_IDLE_TTL_MS :: int where
  "SESSION_IDLE_TTL_MS = 30 * 24 * 60 * 60 * 1000"
definition TOUCH_GRANULARITY_MS :: int where
  "TOUCH_GRANULARITY_MS = 60 * 1000"

definition isLive :: "session \<Rightarrow> time \<Rightarrow> bool" where
  "isLive s t \<longleftrightarrow> t < se_expiresAt s \<and> t - se_lastSeenAt s < SESSION_IDLE_TTL_MS"

definition new_session :: "(string \<Rightarrow> string) \<Rightarrow> id \<Rightarrow> device_info \<Rightarrow> time \<Rightarrow> id \<Rightarrow> string \<Rightarrow> session" where
  "new_session sha u d now sid token = \<lparr>se_id = sid, se_userId = u, se_device = d,
     se_tokenHash = sha token, se_createdAt = now, se_lastSeenAt = now,
     se_expiresAt = now + SESSION_ABSOLUTE_TTL_MS\<rparr>"

definition touch :: "time \<Rightarrow> session \<Rightarrow> session" where
  "touch now s = (if TOUCH_GRANULARITY_MS \<le> now - se_lastSeenAt s then s\<lparr>se_lastSeenAt := now\<rparr> else s)"

section \<open>The in-memory store\<close>

record memory_sessions =
  ms_byId :: "(id \<times> session) list"
  ms_idByTokenHash :: "(string \<times> id) list"

definition ms_delete :: "session \<Rightarrow> memory_sessions \<Rightarrow> memory_sessions" where
  "ms_delete x s = s\<lparr>ms_byId := AList.delete (se_id x) (ms_byId s),
     ms_idByTokenHash := AList.delete (se_tokenHash x) (ms_idByTokenHash s)\<rparr>"

definition ms_issue :: "(string \<Rightarrow> string) \<Rightarrow> id \<Rightarrow> device_info \<Rightarrow> time \<Rightarrow> id \<Rightarrow> string \<Rightarrow>
    memory_sessions \<Rightarrow> session \<times> memory_sessions" where
  "ms_issue sha u d now sid token s =
     (let x = new_session sha u d now sid token
      in (x, s\<lparr>ms_byId := AList.update sid x (ms_byId s),
               ms_idByTokenHash := AList.update (se_tokenHash x) sid (ms_idByTokenHash s)\<rparr>))"

definition ms_authenticate :: "(string \<Rightarrow> string) \<Rightarrow> string \<Rightarrow> time \<Rightarrow> memory_sessions \<Rightarrow>
    session option \<times> memory_sessions" where
  "ms_authenticate sha token now s =
     (case Option.bind (map_of (ms_idByTokenHash s) (sha token)) (map_of (ms_byId s)) of
        None \<Rightarrow> (None, s)
      | Some x \<Rightarrow>
          if \<not> isLive x now then (None, ms_delete x s)
          else let x' = touch now x
               in (Some x', s\<lparr>ms_byId := AList.update (se_id x) x' (ms_byId s)\<rparr>))"

fun ms_list_loop :: "id \<Rightarrow> time \<Rightarrow> session list \<Rightarrow> memory_sessions \<Rightarrow> session list \<times> memory_sessions" where
  "ms_list_loop u now [] s = ([], s)"
| "ms_list_loop u now (x # xs) s =
     (if se_userId x \<noteq> u then ms_list_loop u now xs s
      else if isLive x now then (case ms_list_loop u now xs s of (out, s') \<Rightarrow> (x # out, s'))
      else ms_list_loop u now xs (ms_delete x s))"

definition ms_listForUser :: "id \<Rightarrow> time \<Rightarrow> memory_sessions \<Rightarrow> session list \<times> memory_sessions" where
  "ms_listForUser u now s = ms_list_loop u now (map snd (ms_byId s)) s"

definition ms_revoke :: "id \<Rightarrow> id \<Rightarrow> memory_sessions \<Rightarrow> bool \<times> memory_sessions" where
  "ms_revoke u sid s = (case map_of (ms_byId s) sid of
     None \<Rightarrow> (False, s)
   | Some x \<Rightarrow> if se_userId x \<noteq> u then (False, s) else (True, ms_delete x s))"

definition ms_revokeAllExcept :: "id \<Rightarrow> id \<Rightarrow> memory_sessions \<Rightarrow> nat \<times> memory_sessions" where
  "ms_revokeAllExcept u keep s =
     (let gone = filter (\<lambda>x. se_userId x = u \<and> se_id x \<noteq> keep) (map snd (ms_byId s))
      in (length gone, fold ms_delete gone s))"

section \<open>The Postgres store\<close>

record session_row =
  sr_id :: id
  sr_accountId :: id
  sr_tokenHash :: string
  sr_device :: device_info
  sr_expiresAt :: time
  sr_revokedAt :: "time option"
  sr_lastSeenAt :: time
  sr_createdAt :: time

definition toSession :: "session_row \<Rightarrow> session" where
  "toSession r = \<lparr>se_id = sr_id r, se_userId = sr_accountId r, se_device = sr_device r,
     se_tokenHash = sr_tokenHash r, se_createdAt = sr_createdAt r, se_lastSeenAt = sr_lastSeenAt r,
     se_expiresAt = sr_expiresAt r\<rparr>"

definition live_row :: "time \<Rightarrow> session_row \<Rightarrow> bool" where
  "live_row now r \<longleftrightarrow> sr_revokedAt r = None \<and> now < sr_expiresAt r \<and>
     now - SESSION_IDLE_TTL_MS < sr_lastSeenAt r"

text \<open>\<open>None\<close>: the id or the token hash is taken (both are unique columns).\<close>

definition ds_issue :: "(string \<Rightarrow> string) \<Rightarrow> id \<Rightarrow> device_info \<Rightarrow> time \<Rightarrow> id \<Rightarrow> string \<Rightarrow>
    session_row list \<Rightarrow> session option \<times> session_row list" where
  "ds_issue sha u d now sid token t =
     (let r = \<lparr>sr_id = sid, sr_accountId = u, sr_tokenHash = sha token, sr_device = d,
               sr_expiresAt = now + SESSION_ABSOLUTE_TTL_MS, sr_revokedAt = None,
               sr_lastSeenAt = now, sr_createdAt = now\<rparr>
      in if sid \<in> sr_id ` set t \<or> sha token \<in> sr_tokenHash ` set t then (None, t)
         else (Some (toSession r), t @ [r]))"

definition ds_authenticate :: "(string \<Rightarrow> string) \<Rightarrow> string \<Rightarrow> time \<Rightarrow> session_row list \<Rightarrow>
    session option \<times> session_row list" where
  "ds_authenticate sha token now t =
     (case find (\<lambda>r. sr_tokenHash r = sha token \<and> live_row now r) t of
        None \<Rightarrow> (None, t)
      | Some r \<Rightarrow>
          if TOUCH_GRANULARITY_MS \<le> now - sr_lastSeenAt r
          then (Some (toSession (r\<lparr>sr_lastSeenAt := now\<rparr>)),
                update_where (\<lambda>x. sr_id x = sr_id r) (\<lambda>x. x\<lparr>sr_lastSeenAt := now\<rparr>) t)
          else (Some (toSession r), t))"

definition ds_listForUser :: "id \<Rightarrow> time \<Rightarrow> session_row list \<Rightarrow> session list" where
  "ds_listForUser u now t = map toSession (filter (\<lambda>r. sr_accountId r = u \<and> live_row now r) t)"

definition ds_revoke :: "id \<Rightarrow> id \<Rightarrow> time \<Rightarrow> session_row list \<Rightarrow> bool \<times> session_row list" where
  "ds_revoke u sid now t =
     (let hit = (\<lambda>r. sr_id r = sid \<and> sr_accountId r = u \<and> sr_revokedAt r = None)
      in (filter hit t \<noteq> [], update_where hit (\<lambda>r. r\<lparr>sr_revokedAt := Some now\<rparr>) t))"

definition ds_revokeAllExcept :: "id \<Rightarrow> id \<Rightarrow> time \<Rightarrow> session_row list \<Rightarrow> nat \<times> session_row list" where
  "ds_revokeAllExcept u keep now t =
     (let hit = (\<lambda>r. sr_accountId r = u \<and> sr_id r \<noteq> keep \<and> sr_revokedAt r = None)
      in (length (filter hit t), update_where hit (\<lambda>r. r\<lparr>sr_revokedAt := Some now\<rparr>) t))"

section \<open>The contract\<close>

datatype session_op =
    Issue id device_info time id string
  | Authenticate string time
  | ListForUser id time
  | Revoke id id time
  | RevokeAllExcept id id time

datatype session_answer =
    Issued "session option"
  | Authenticated "session option"
  | Listed "session list"
  | Revoked bool
  | RevokedCount nat

fun op_time :: "session_op \<Rightarrow> time" where
  "op_time (Issue u d now sid token) = now"
| "op_time (Authenticate token now) = now"
| "op_time (ListForUser u now) = now"
| "op_time (Revoke u sid now) = now"
| "op_time (RevokeAllExcept u keep now) = now"

fun ms_step :: "(string \<Rightarrow> string) \<Rightarrow> session_op \<Rightarrow> memory_sessions \<Rightarrow> session_answer \<times> memory_sessions" where
  "ms_step sha (Issue u d now sid token) s = map_prod (Issued \<circ> Some) id (ms_issue sha u d now sid token s)"
| "ms_step sha (Authenticate token now) s = map_prod Authenticated id (ms_authenticate sha token now s)"
| "ms_step sha (ListForUser u now) s = map_prod Listed id (ms_listForUser u now s)"
| "ms_step sha (Revoke u sid now) s = map_prod Revoked id (ms_revoke u sid s)"
| "ms_step sha (RevokeAllExcept u keep now) s = map_prod RevokedCount id (ms_revokeAllExcept u keep s)"

fun ds_step :: "(string \<Rightarrow> string) \<Rightarrow> session_op \<Rightarrow> session_row list \<Rightarrow> session_answer \<times> session_row list" where
  "ds_step sha (Issue u d now sid token) t = map_prod Issued id (ds_issue sha u d now sid token t)"
| "ds_step sha (Authenticate token now) t = map_prod Authenticated id (ds_authenticate sha token now t)"
| "ds_step sha (ListForUser u now) t = (Listed (ds_listForUser u now t), t)"
| "ds_step sha (Revoke u sid now) t = map_prod Revoked id (ds_revoke u sid now t)"
| "ds_step sha (RevokeAllExcept u keep now) t = map_prod RevokedCount id (ds_revokeAllExcept u keep now t)"

text \<open>The plain map and its steps.\<close>

type_synonym session_map = "string \<Rightarrow> session option"

fun spec_step :: "(string \<Rightarrow> string) \<Rightarrow> session_op \<Rightarrow> session_map \<Rightarrow> session_map" where
  "spec_step sha (Issue u d now sid token) m = m(sha token \<mapsto> new_session sha u d now sid token)"
| "spec_step sha (Authenticate token now) m = (case m (sha token) of
     Some x \<Rightarrow> if isLive x now then m(sha token \<mapsto> touch now x) else m
   | None \<Rightarrow> m)"
| "spec_step sha (ListForUser u now) m = m"
| "spec_step sha (Revoke u sid now) m =
     (\<lambda>h. case m h of Some x \<Rightarrow> if se_id x = sid \<and> se_userId x = u then None else Some x | None \<Rightarrow> None)"
| "spec_step sha (RevokeAllExcept u keep now) m =
     (\<lambda>h. case m h of Some x \<Rightarrow> if se_userId x = u \<and> se_id x \<noteq> keep then None else Some x | None \<Rightarrow> None)"

text \<open>What of a map counts at a time.\<close>

definition alive :: "time \<Rightarrow> session_map \<Rightarrow> session_map" where
  "alive t m h = (case m h of Some x \<Rightarrow> if isLive x t then Some x else None | None \<Rightarrow> None)"

text \<open>The answers that tell whether someone is signed in.\<close>

fun spec_answer :: "(string \<Rightarrow> string) \<Rightarrow> session_op \<Rightarrow> session_map \<Rightarrow> session_answer \<Rightarrow> bool" where
  "spec_answer sha (Issue u d now sid token) m a \<longleftrightarrow> a = Issued (Some (new_session sha u d now sid token))"
| "spec_answer sha (Authenticate token now) m a \<longleftrightarrow>
     a = Authenticated (map_option (touch now) (alive now m (sha token)))"
| "spec_answer sha (ListForUser u now) m a \<longleftrightarrow>
     (\<exists>xs. a = Listed xs \<and> set xs = {x \<in> ran (alive now m). se_userId x = u})"
| "spec_answer sha (Revoke u sid now) m a \<longleftrightarrow> (case a of Revoked b \<Rightarrow> True | _ \<Rightarrow> False)"
| "spec_answer sha (RevokeAllExcept u keep now) m a \<longleftrightarrow> (case a of RevokedCount n \<Rightarrow> True | _ \<Rightarrow> False)"

text \<open>An issued id and token are new: neither is known to the store, revoked or not.\<close>

fun op_new :: "(string \<Rightarrow> string) \<Rightarrow> session_op \<Rightarrow> id set \<times> string set \<Rightarrow> bool" where
  "op_new sha (Issue u d now sid token) used \<longleftrightarrow> sid \<notin> fst used \<and> sha token \<notin> snd used"
| "op_new sha op used \<longleftrightarrow> True"

fun op_used :: "(string \<Rightarrow> string) \<Rightarrow> session_op \<Rightarrow> id set \<times> string set \<Rightarrow> id set \<times> string set" where
  "op_used sha (Issue u d now sid token) used = (insert sid (fst used), insert (sha token) (snd used))"
| "op_used sha op used = used"

text \<open>Runs of operations, and the runs a server makes: times never go back, issued ids and tokens are new.\<close>

fun run_ops :: "(session_op \<Rightarrow> 's \<Rightarrow> session_answer \<times> 's) \<Rightarrow> session_op list \<Rightarrow> 's \<Rightarrow>
    session_answer list \<times> 's" where
  "run_ops step [] s = ([], s)"
| "run_ops step (op # ops) s =
     (case step op s of (a, s') \<Rightarrow> (case run_ops step ops s' of (as, s'') \<Rightarrow> (a # as, s'')))"

fun ops_ok :: "(string \<Rightarrow> string) \<Rightarrow> id set \<times> string set \<Rightarrow> time \<Rightarrow> session_op list \<Rightarrow> bool" where
  "ops_ok sha used now [] \<longleftrightarrow> True"
| "ops_ok sha used now (op # ops) \<longleftrightarrow>
     op_new sha op used \<and> now \<le> op_time op \<and> ops_ok sha (op_used sha op used) (op_time op) ops"

fun spec_answers :: "(string \<Rightarrow> string) \<Rightarrow> session_op list \<Rightarrow> session_map \<Rightarrow> session_answer list \<Rightarrow> bool" where
  "spec_answers sha [] m as \<longleftrightarrow> as = []"
| "spec_answers sha (op # ops) m [] \<longleftrightarrow> False"
| "spec_answers sha (op # ops) m (a # as) \<longleftrightarrow>
     spec_answer sha op m a \<and> spec_answers sha ops (spec_step sha op m) as"

lemma alive_Some: "alive t m h = Some x \<longleftrightarrow> m h = Some x \<and> isLive x t"
  by (auto simp: alive_def split: option.splits)

lemma alive_None: "alive t m h = None \<longleftrightarrow> (\<forall>x. m h = Some x \<longrightarrow> \<not> isLive x t)"
  by (auto simp: alive_def split: option.splits)

lemma option_eqI: "(\<And>x. a = Some x \<longleftrightarrow> b = Some x) \<Longrightarrow> a = b"
  by (cases a; cases b) auto

lemma alive_eqI:
  "(\<And>h x. isLive x t \<Longrightarrow> m h = Some x \<longleftrightarrow> m' h = Some x) \<Longrightarrow> alive t m = alive t m'"
  by (intro ext option_eqI) (auto simp: alive_Some)

lemma alive_eqD: "alive t m = alive t m' \<Longrightarrow> isLive x t \<Longrightarrow> m h = Some x \<longleftrightarrow> m' h = Some x"
  by (metis alive_Some)

lemma spec_revoke_Some:
  "spec_step sha (Revoke u sid now) m h = Some x \<longleftrightarrow> m h = Some x \<and> \<not> (se_id x = sid \<and> se_userId x = u)"
  "spec_step sha (RevokeAllExcept u keep now) m h = Some x \<longleftrightarrow>
     m h = Some x \<and> \<not> (se_userId x = u \<and> se_id x \<noteq> keep)"
  by (auto split: option.splits)

lemma spec_step_cong:
  assumes same: "\<And>t. op_time op \<le> t \<Longrightarrow> alive t m = alive t m'" and t: "op_time op \<le> t"
  shows "alive t (spec_step sha op m) = alive t (spec_step sha op m')"
proof (cases op)
  case (Authenticate token now)
  have now: "alive now m = alive now m'" using same [of now] Authenticate by simp
  show ?thesis
  proof (cases "alive now m (sha token)")
    case None
    then have "\<forall>x. m (sha token) = Some x \<longrightarrow> \<not> isLive x now" "\<forall>x. m' (sha token) = Some x \<longrightarrow> \<not> isLive x now"
      using now by (simp_all add: alive_None [symmetric])
    then have "spec_step sha op m = m" "spec_step sha op m' = m'"
      by (auto simp: Authenticate split: option.splits)
    then show ?thesis using same [OF t] by simp
  next
    case (Some x)
    moreover from this have "alive now m' (sha token) = Some x" using now by simp
    ultimately have "spec_step sha op m = m(sha token \<mapsto> touch now x)"
        "spec_step sha op m' = m'(sha token \<mapsto> touch now x)"
      by (auto simp: Authenticate alive_Some)
    then show ?thesis using alive_eqD [OF same [OF t]] by (intro alive_eqI) auto
  qed
qed (use alive_eqD [OF same [OF t]] in \<open>auto intro!: alive_eqI simp: spec_revoke_Some simp del: spec_step.simps(4,5)\<close>)

lemma spec_answer_cong:
  assumes "alive (op_time op) m = alive (op_time op) m'"
  shows "spec_answer sha op m a = spec_answer sha op m' a"
  using assms by (cases op) auto

locale session_store =
  fixes sha :: "string \<Rightarrow> string"
    and step :: "session_op \<Rightarrow> 's \<Rightarrow> session_answer \<times> 's"
    and view :: "'s \<Rightarrow> session_map"
    and inv :: "id set \<times> string set \<Rightarrow> 's \<Rightarrow> bool"
  assumes step_inv: "inv used s \<Longrightarrow> op_new sha op used \<Longrightarrow> inv (op_used sha op used) (snd (step op s))"
    and step_view: "inv used s \<Longrightarrow> op_new sha op used \<Longrightarrow> op_time op \<le> t \<Longrightarrow>
      alive t (view (snd (step op s))) = alive t (spec_step sha op (view s))"
    and step_answer: "inv used s \<Longrightarrow> op_new sha op used \<Longrightarrow> spec_answer sha op (view s) (fst (step op s))"

begin

lemma run_spec:
  assumes "inv used s" and "ops_ok sha used now ops"
    and "\<And>t. now \<le> t \<Longrightarrow> alive t (view s) = alive t m"
  shows "spec_answers sha ops m (fst (run_ops step ops s))"
  using assms
proof (induction ops arbitrary: used now s m)
  case (Cons op ops)
  obtain a s' where step: "step op s = (a, s')" by (cases "step op s")
  have op: "op_new sha op used" "now \<le> op_time op" "ops_ok sha (op_used sha op used) (op_time op) ops"
    using Cons.prems(2) by simp_all
  have "alive t (view s') = alive t (spec_step sha op m)" if t: "op_time op \<le> t" for t
    using step_view [OF Cons.prems(1) op(1) t] spec_step_cong [of op "view s" m t sha] Cons.prems(3) op(2) t
    by (simp add: step)
  moreover have "inv (op_used sha op used) s'" using step_inv [OF Cons.prems(1) op(1)] by (simp add: step)
  ultimately have "spec_answers sha ops (spec_step sha op m) (fst (run_ops step ops s'))"
    using Cons.IH op(3) by blast
  moreover have "spec_answer sha op m a"
    using step_answer [OF Cons.prems(1) op(1)] spec_answer_cong [of op "view s" m] Cons.prems(3) op(2)
    by (simp add: step)
  ultimately show ?case by (cases "run_ops step ops s'") (simp add: step)
qed simp

end

section \<open>The in-memory store keeps it\<close>

definition ms_view :: "memory_sessions \<Rightarrow> session_map" where
  "ms_view s h = Option.bind (map_of (ms_idByTokenHash s) h) (map_of (ms_byId s))"

definition ms_inv :: "id set \<times> string set \<Rightarrow> memory_sessions \<Rightarrow> bool" where
  "ms_inv used s \<longleftrightarrow> distinct (map fst (ms_byId s)) \<and>
     (\<forall>i x. map_of (ms_byId s) i = Some x \<longrightarrow> se_id x = i \<and> i \<in> fst used \<and> se_tokenHash x \<in> snd used \<and>
        map_of (ms_idByTokenHash s) (se_tokenHash x) = Some i) \<and>
     (\<forall>h i. map_of (ms_idByTokenHash s) h = Some i \<longrightarrow>
        (\<exists>x. map_of (ms_byId s) i = Some x \<and> se_tokenHash x = h))"

lemma ms_invD:
  assumes "ms_inv used s"
  shows "distinct (map fst (ms_byId s))"
    "map_of (ms_byId s) i = Some x \<Longrightarrow> se_id x = i"
    "map_of (ms_byId s) i = Some x \<Longrightarrow> i \<in> fst used"
    "map_of (ms_byId s) i = Some x \<Longrightarrow> se_tokenHash x \<in> snd used"
    "map_of (ms_byId s) i = Some x \<Longrightarrow> map_of (ms_idByTokenHash s) (se_tokenHash x) = Some i"
    "map_of (ms_idByTokenHash s) h = Some i \<Longrightarrow> \<exists>x. map_of (ms_byId s) i = Some x \<and> se_tokenHash x = h"
  using assms unfolding ms_inv_def by blast+

lemma ms_view_Some:
  assumes "ms_inv used s"
  shows "ms_view s h = Some x \<longleftrightarrow> map_of (ms_byId s) (se_id x) = Some x \<and> se_tokenHash x = h"
proof
  assume "ms_view s h = Some x"
  then obtain i where i: "map_of (ms_idByTokenHash s) h = Some i" "map_of (ms_byId s) i = Some x"
    by (auto simp: ms_view_def bind_eq_Some_conv)
  then show "map_of (ms_byId s) (se_id x) = Some x \<and> se_tokenHash x = h"
    using ms_invD(2) [OF assms i(2)] ms_invD(6) [OF assms i(1)] by auto
next
  assume "map_of (ms_byId s) (se_id x) = Some x \<and> se_tokenHash x = h"
  then show "ms_view s h = Some x" using ms_invD(5) [OF assms] by (auto simp: ms_view_def)
qed

lemma ms_maps_delete:
  "map_of (ms_byId (ms_delete x s)) = (map_of (ms_byId s))(se_id x := None)"
  "map_of (ms_idByTokenHash (ms_delete x s)) = (map_of (ms_idByTokenHash s))(se_tokenHash x := None)"
  by (simp_all add: ms_delete_def delete_conv')

lemma ms_id_unique:
  assumes "map_of (ms_byId s) (se_id x) = Some x" "map_of (ms_byId s) (se_id y) = Some y" "se_id x = se_id y"
  shows "x = y"
proof -
  have "Some x = Some y"
    unfolding assms(1) [symmetric] assms(2) [symmetric] assms(3) ..
  then show ?thesis by (rule option.inject [THEN iffD1])
qed

lemma ms_hash_unique:
  assumes "ms_inv used s" "map_of (ms_byId s) (se_id x) = Some x" "map_of (ms_byId s) (se_id y) = Some y"
    "se_tokenHash x = se_tokenHash y"
  shows "x = y"
proof (rule ms_id_unique [OF assms(2,3)])
  have "Some (se_id x) = Some (se_id y)"
    using ms_invD(5) [OF assms(1,2)] ms_invD(5) [OF assms(1,3)] assms(4) by (simp only:)
  then show "se_id x = se_id y" by simp
qed

lemma ms_view_at:
  "ms_inv used s \<Longrightarrow> map_of (ms_byId s) (se_id x) = Some x \<Longrightarrow> ms_view s (se_tokenHash x) = Some x"
  using ms_view_Some by blast

lemma ms_delete:
  assumes inv: "ms_inv used s" and x: "map_of (ms_byId s) (se_id x) = Some x"
  shows "ms_inv used (ms_delete x s)" "ms_view (ms_delete x s) = (ms_view s)(se_tokenHash x := None)"
proof -
  note I = ms_invD [OF inv]
  have hash: "i = se_id x" if "map_of (ms_byId s) i = Some y" "se_tokenHash y = se_tokenHash x" for i y
    using I(5) [OF that(1)] I(5) [OF x] that(2) by simp
  show "ms_inv used (ms_delete x s)"
    unfolding ms_inv_def ms_maps_delete
  proof (intro conjI allI impI)
    show "distinct (map fst (ms_byId (ms_delete x s)))"
      using I(1) by (simp add: ms_delete_def distinct_delete)
    fix i y assume "((map_of (ms_byId s))(se_id x := None)) i = Some y"
    then have y: "map_of (ms_byId s) i = Some y" "i \<noteq> se_id x" by (simp_all split: if_splits)
    show "se_id y = i" "i \<in> fst used" "se_tokenHash y \<in> snd used" using I(2-4) [OF y(1)] .
    show "((map_of (ms_idByTokenHash s))(se_tokenHash x := None)) (se_tokenHash y) = Some i"
      using I(5) [OF y(1)] hash [OF y(1)] y(2) by auto
  next
    fix h i assume "((map_of (ms_idByTokenHash s))(se_tokenHash x := None)) h = Some i"
    then have h: "map_of (ms_idByTokenHash s) h = Some i" "h \<noteq> se_tokenHash x" by (simp_all split: if_splits)
    then obtain y where "map_of (ms_byId s) i = Some y" "se_tokenHash y = h" using I(6) by blast
    moreover from this have "i \<noteq> se_id x" using h(2) x by auto
    ultimately show "\<exists>y. ((map_of (ms_byId s))(se_id x := None)) i = Some y \<and> se_tokenHash y = h" by auto
  qed
  note inv' = this
  show "ms_view (ms_delete x s) = (ms_view s)(se_tokenHash x := None)"
  proof (intro ext option_eqI)
    fix h z
    have same: "se_id z = se_id x \<longleftrightarrow> se_tokenHash z = se_tokenHash x" if "map_of (ms_byId s) (se_id z) = Some z"
    proof
      assume "se_id z = se_id x"
      from ms_id_unique [OF that x this] show "se_tokenHash z = se_tokenHash x" by simp
    next
      assume "se_tokenHash z = se_tokenHash x"
      then show "se_id z = se_id x" by (rule hash [OF that])
    qed
    have "ms_view (ms_delete x s) h = Some z \<longleftrightarrow>
        se_id z \<noteq> se_id x \<and> map_of (ms_byId s) (se_id z) = Some z \<and> se_tokenHash z = h"
      unfolding ms_view_Some [OF inv'] ms_maps_delete by simp
    also have "\<dots> \<longleftrightarrow> h \<noteq> se_tokenHash x \<and> ms_view s h = Some z"
      unfolding ms_view_Some [OF inv] using same by blast
    finally show "ms_view (ms_delete x s) h = Some z \<longleftrightarrow> ((ms_view s)(se_tokenHash x := None)) h = Some z"
      by simp
  qed
qed


lemma ms_others:
  assumes "\<forall>y \<in> set (x # xs). map_of (ms_byId s) (se_id y) = Some y" and "distinct (map se_id (x # xs))"
  shows "\<forall>y \<in> set xs. map_of (ms_byId (ms_delete x s)) (se_id y) = Some y"
proof
  fix y assume y: "y \<in> set xs"
  then have "se_id y \<in> se_id ` set xs" by (rule imageI)
  with assms(2) have "se_id y \<noteq> se_id x" by auto
  then show "map_of (ms_byId (ms_delete x s)) (se_id y) = Some y"
    unfolding ms_maps_delete using assms(1) y by simp
qed

lemma ms_list_loop:
  assumes "ms_inv used s" and "\<forall>x \<in> set xs. map_of (ms_byId s) (se_id x) = Some x" and "distinct (map se_id xs)"
  shows "fst (ms_list_loop u now xs s) = filter (\<lambda>x. se_userId x = u \<and> isLive x now) xs \<and>
    ms_inv used (snd (ms_list_loop u now xs s)) \<and>
    (\<forall>t\<ge>now. alive t (ms_view (snd (ms_list_loop u now xs s))) = alive t (ms_view s))"
  using assms
proof (induction u now xs s rule: ms_list_loop.induct)
  case (2 u now x xs s)
  consider "se_userId x \<noteq> u" | "se_userId x = u" "isLive x now" | "se_userId x = u" "\<not> isLive x now" by blast
  then show ?case
  proof cases
    case 1
    then show ?thesis using 2 by simp
  next
    case 2
    then show ?thesis using "2.IH"(2) "2.prems" by (cases "ms_list_loop u now xs s") simp
  next
    case 3
    have x: "map_of (ms_byId s) (se_id x) = Some x" using "2.prems"(2) by simp
    note del = ms_delete [OF "2.prems"(1) x]
    have "\<forall>y \<in> set xs. map_of (ms_byId (ms_delete x s)) (se_id y) = Some y"
      by (rule ms_others [OF "2.prems"(2,3)])
    then have IH: "fst (ms_list_loop u now xs (ms_delete x s)) = filter (\<lambda>x. se_userId x = u \<and> isLive x now) xs"
        "ms_inv used (snd (ms_list_loop u now xs (ms_delete x s)))"
        "\<And>t. now \<le> t \<Longrightarrow> alive t (ms_view (snd (ms_list_loop u now xs (ms_delete x s)))) =
           alive t (ms_view (ms_delete x s))"
      using "2.IH"(3) [OF _ 3(2) del(1)] 3 "2.prems"(3) by auto
    have "\<not> isLive x t" if "now \<le> t" for t using 3(2) that by (auto simp: isLive_def)
    then have "alive t (ms_view (ms_delete x s)) = alive t (ms_view s)" if "now \<le> t" for t
      using that ms_view_at [OF "2.prems"(1) x] by (intro alive_eqI) (auto simp: del(2))
    then show ?thesis using IH 3 by simp
  qed
qed simp

lemma ms_values:
  assumes "ms_inv used s"
  shows "x \<in> set (map snd (ms_byId s)) \<longleftrightarrow> map_of (ms_byId s) (se_id x) = Some x"
    and "distinct (map se_id (map snd (ms_byId s)))"
proof -
  note I = ms_invD [OF assms]
  have fst_id: "se_id y = i" if "(i, y) \<in> set (ms_byId s)" for i y
    using I(2) map_of_is_SomeI [OF I(1) that] by blast
  show "x \<in> set (map snd (ms_byId s)) \<longleftrightarrow> map_of (ms_byId s) (se_id x) = Some x"
  proof
    assume "x \<in> set (map snd (ms_byId s))"
    then obtain i where "(i, x) \<in> set (ms_byId s)" by auto
    then show "map_of (ms_byId s) (se_id x) = Some x"
      using map_of_is_SomeI [OF I(1)] fst_id by blast
  next
    assume "map_of (ms_byId s) (se_id x) = Some x"
    then have "(se_id x, x) \<in> set (ms_byId s)" by (rule map_of_SomeD)
    then show "x \<in> set (map snd (ms_byId s))" by force
  qed
  have "map se_id (map snd (ms_byId s)) = map fst (ms_byId s)" using fst_id by (auto simp: map_eq_conv)
  then show "distinct (map se_id (map snd (ms_byId s)))" using I(1) by (simp only:)
qed

lemma ms_fold_delete:
  assumes "ms_inv used s" and "\<forall>x \<in> set xs. map_of (ms_byId s) (se_id x) = Some x" and "distinct (map se_id xs)"
  shows "ms_inv used (fold ms_delete xs s) \<and>
    (\<forall>h x. ms_view (fold ms_delete xs s) h = Some x \<longleftrightarrow> ms_view s h = Some x \<and> x \<notin> set xs)"
  using assms
proof (induction xs arbitrary: s)
  case (Cons a xs)
  have a: "map_of (ms_byId s) (se_id a) = Some a" using Cons.prems(2) by simp
  note del = ms_delete [OF Cons.prems(1) a]
  have "\<forall>y \<in> set xs. map_of (ms_byId (ms_delete a s)) (se_id y) = Some y"
    by (rule ms_others [OF Cons.prems(2,3)])
  then have IH: "ms_inv used (fold ms_delete xs (ms_delete a s))"
      "\<And>h x. ms_view (fold ms_delete xs (ms_delete a s)) h = Some x \<longleftrightarrow>
         ms_view (ms_delete a s) h = Some x \<and> x \<notin> set xs"
    using Cons.IH [OF del(1)] Cons.prems(3) by simp_all
  have "ms_view (ms_delete a s) h = Some x \<longleftrightarrow> ms_view s h = Some x \<and> x \<noteq> a" for h x
  proof -
    have "se_tokenHash x = h" if "ms_view s h = Some x"
      using that ms_view_Some [OF Cons.prems(1)] by simp
    then show ?thesis using ms_view_at [OF Cons.prems(1) a] by (auto simp: del(2))
  qed
  with IH show ?case by auto
qed simp

lemma ms_update_inv:
  assumes inv: "ms_inv used s" and x: "map_of (ms_byId s) (se_id x) = Some y"
    and same: "se_tokenHash x = se_tokenHash y"
  defines "s' \<equiv> s\<lparr>ms_byId := AList.update (se_id x) x (ms_byId s)\<rparr>"
  shows "ms_inv used s'" "ms_view s' = (ms_view s)(se_tokenHash x \<mapsto> x)"
proof -
  note I = ms_invD [OF inv]
  have m: "map_of (ms_byId s') = (map_of (ms_byId s))(se_id x \<mapsto> x)"
      "map_of (ms_idByTokenHash s') = map_of (ms_idByTokenHash s)"
    by (simp_all add: s'_def update_conv')
  show inv': "ms_inv used s'"
    unfolding ms_inv_def m
  proof (intro conjI allI impI)
    show "distinct (map fst (ms_byId s'))" using I(1) by (simp add: s'_def distinct_update)
    fix i z assume z: "((map_of (ms_byId s))(se_id x \<mapsto> x)) i = Some z"
    show "se_id z = i" "i \<in> fst used" "se_tokenHash z \<in> snd used"
      "map_of (ms_idByTokenHash s) (se_tokenHash z) = Some i"
      using z I(2-5) [of i z] I(2-5) [OF x] same by (auto split: if_splits)
  next
    fix h i assume "map_of (ms_idByTokenHash s) h = Some i"
    then show "\<exists>z. ((map_of (ms_byId s))(se_id x \<mapsto> x)) i = Some z \<and> se_tokenHash z = h"
      using I(6) x same by fastforce
  qed
  show "ms_view s' = (ms_view s)(se_tokenHash x \<mapsto> x)"
  proof (intro ext option_eqI)
    fix h z
    have "se_tokenHash z = se_tokenHash x \<longrightarrow> map_of (ms_byId s) (se_id z) = Some z \<longrightarrow> se_id z = se_id x"
      using I(5) x same by (metis option.inject)
    then show "ms_view s' h = Some z \<longleftrightarrow> ((ms_view s)(se_tokenHash x \<mapsto> x)) h = Some z"
      using ms_view_Some [OF inv'] ms_view_Some [OF inv] x same by (auto simp: m)
  qed
qed


lemma new_session_simps [simp]:
  "se_id (new_session sha u d now sid token) = sid" "se_userId (new_session sha u d now sid token) = u"
  "se_tokenHash (new_session sha u d now sid token) = sha token"
  "se_expiresAt (new_session sha u d now sid token) = now + SESSION_ABSOLUTE_TTL_MS"
  by (simp_all add: new_session_def)

lemma touch_simps [simp]:
  "se_id (touch now x) = se_id x" "se_userId (touch now x) = se_userId x"
  "se_tokenHash (touch now x) = se_tokenHash x" "se_expiresAt (touch now x) = se_expiresAt x"
  by (simp_all add: touch_def)

lemma ms_issue_inv:
  fixes u :: id and d :: device_info and now :: time
  assumes inv: "ms_inv used s" and new: "sid \<notin> fst used" "sha token \<notin> snd used"
  defines "x \<equiv> new_session sha u d now sid token"
  defines "s' \<equiv> s\<lparr>ms_byId := AList.update sid x (ms_byId s),
     ms_idByTokenHash := AList.update (sha token) sid (ms_idByTokenHash s)\<rparr>"
  shows "ms_inv (insert sid (fst used), insert (sha token) (snd used)) s'"
    "ms_view s' = (ms_view s)(sha token \<mapsto> x)"
proof -
  note I = ms_invD [OF inv]
  have m: "map_of (ms_byId s') = (map_of (ms_byId s))(sid \<mapsto> x)"
      "map_of (ms_idByTokenHash s') = (map_of (ms_idByTokenHash s))(sha token \<mapsto> sid)"
    by (simp_all add: s'_def update_conv')
  have x: "se_id x = sid" "se_tokenHash x = sha token" by (simp_all add: x_def)
  have no_id: "map_of (ms_byId s) sid = None" using I(3) new(1) by (cases "map_of (ms_byId s) sid") auto
  have no_hash: "se_tokenHash y \<noteq> sha token" if "map_of (ms_byId s) i = Some y" for i y
    using I(4) [OF that] new(2) by auto
  have old: "i \<noteq> sid" if "map_of (ms_byId s) i = Some y" for i y using that no_id by auto
  show inv': "ms_inv (insert sid (fst used), insert (sha token) (snd used)) s'"
    unfolding ms_inv_def m
  proof (intro conjI allI impI)
    show "distinct (map fst (ms_byId s'))" using I(1) by (simp add: s'_def distinct_update)
    fix i z assume z: "((map_of (ms_byId s))(sid \<mapsto> x)) i = Some z"
    show "se_id z = i" "i \<in> fst (insert sid (fst used), insert (sha token) (snd used))"
      "se_tokenHash z \<in> snd (insert sid (fst used), insert (sha token) (snd used))"
      "((map_of (ms_idByTokenHash s))(sha token \<mapsto> sid)) (se_tokenHash z) = Some i"
      using z x I(2-5) [of i z] no_hash [of i z] by (auto split: if_splits)
  next
    fix h i assume h: "((map_of (ms_idByTokenHash s))(sha token \<mapsto> sid)) h = Some i"
    show "\<exists>z. ((map_of (ms_byId s))(sid \<mapsto> x)) i = Some z \<and> se_tokenHash z = h"
    proof (cases "h = sha token")
      case True
      then show ?thesis using h x by auto
    next
      case False
      then obtain z where z: "map_of (ms_byId s) i = Some z" "se_tokenHash z = h" using h I(6) by auto
      with old [OF z(1)] show ?thesis by auto
    qed
  qed
  show "ms_view s' = (ms_view s)(sha token \<mapsto> x)"
  proof (intro ext option_eqI)
    fix h z
    show "ms_view s' h = Some z \<longleftrightarrow> ((ms_view s)(sha token \<mapsto> x)) h = Some z"
      unfolding ms_view_Some [OF inv'] m
      using x old [of "se_id z" z] no_hash [of "se_id z" z]
      by (cases "h = sha token"; cases "se_id z = sid") (auto simp: ms_view_Some [OF inv])
  qed
qed

lemma ms_step_contract:
  assumes inv: "ms_inv used s" and new: "op_new sha op used"
  shows "ms_inv (op_used sha op used) (snd (ms_step sha op s)) \<and>
    (\<forall>t \<ge> op_time op. alive t (ms_view (snd (ms_step sha op s))) = alive t (spec_step sha op (ms_view s))) \<and>
    spec_answer sha op (ms_view s) (fst (ms_step sha op s))"
proof (cases op)
  case (Issue u d now sid token)
  with ms_issue_inv [OF inv, of sid sha token u d now] new show ?thesis
    by (simp add: ms_issue_def Let_def)
next
  case (Authenticate token now)
  show ?thesis
  proof (cases "ms_view s (sha token)")
    case None
    then show ?thesis
      using inv by (simp add: Authenticate ms_authenticate_def ms_view_def alive_def)
  next
    case (Some x)
    then have x: "map_of (ms_byId s) (se_id x) = Some x" "se_tokenHash x = sha token"
      using ms_view_Some [OF inv] by simp_all
    have auth: "ms_authenticate sha token now s =
        (if \<not> isLive x now then (None, ms_delete x s)
         else (Some (touch now x), s\<lparr>ms_byId := AList.update (se_id x) (touch now x) (ms_byId s)\<rparr>))"
      using Some unfolding ms_authenticate_def ms_view_def by (simp add: Let_def)
    show ?thesis
    proof (cases "isLive x now")
      case True
      have "map_of (ms_byId s) (se_id (touch now x)) = Some x" using x(1) by simp
      from ms_update_inv [OF inv this] True Some x(2) show ?thesis
        by (simp add: Authenticate auth alive_def)
    next
      case False
      then have "\<not> isLive x t" if "now \<le> t" for t using that by (auto simp: isLive_def)
      then have "alive t (ms_view (ms_delete x s)) = alive t (ms_view s)" if "now \<le> t" for t
        using that Some x(2) by (intro alive_eqI) (auto simp: ms_delete(2) [OF inv x(1)])
      then show ?thesis
        using False Some ms_delete(1) [OF inv x(1)] by (simp add: Authenticate auth alive_def)
    qed
  qed
next
  case (ListForUser u now)
  let ?xs = "map snd (ms_byId s)"
  have xs: "\<forall>x \<in> set ?xs. map_of (ms_byId s) (se_id x) = Some x"
    using ms_values(1) [OF inv] by blast
  note loop = ms_list_loop [OF inv xs ms_values(2) [OF inv], of u now]
  have "set (filter (\<lambda>x. se_userId x = u \<and> isLive x now) ?xs) = {x \<in> ran (alive now (ms_view s)). se_userId x = u}"
  proof (intro set_eqI)
    fix x
    have "x \<in> set ?xs \<longleftrightarrow> (\<exists>h. ms_view s h = Some x)"
      unfolding ms_values(1) [OF inv] ms_view_Some [OF inv] by blast
    then show "x \<in> set (filter (\<lambda>x. se_userId x = u \<and> isLive x now) ?xs) \<longleftrightarrow>
        x \<in> {x \<in> ran (alive now (ms_view s)). se_userId x = u}"
      by (auto simp: ran_def alive_Some simp del: set_map)
  qed
  then show ?thesis using loop by (simp add: ListForUser ms_listForUser_def del: set_map set_filter)
next
  case (Revoke u sid now)
  show ?thesis
  proof (cases "\<exists>x. map_of (ms_byId s) sid = Some x \<and> se_userId x = u")
    case True
    then obtain x where x: "map_of (ms_byId s) sid = Some x" "se_userId x = u" by blast
    have id: "se_id x = sid" by (rule ms_invD(2) [OF inv x(1)])
    have x': "map_of (ms_byId s) (se_id x) = Some x" using x(1) id by simp
    have only: "y = x" if "ms_view s h = Some y" "se_id y = sid" for h y
    proof (rule ms_id_unique)
      show "map_of (ms_byId s) (se_id y) = Some y" using that ms_view_Some [OF inv] by simp
    qed (use that id x' in simp_all)
    have "ms_view (ms_delete x s) = spec_step sha op (ms_view s)"
    proof (intro ext option_eqI)
      fix h y
      have "ms_view s h = Some y \<and> h \<noteq> se_tokenHash x \<longleftrightarrow> ms_view s h = Some y \<and> y \<noteq> x"
      proof -
        have "se_tokenHash y = h" if "ms_view s h = Some y" using that ms_view_Some [OF inv] by simp
        then show ?thesis using ms_view_at [OF inv x'] by auto
      qed
      then show "ms_view (ms_delete x s) h = Some y \<longleftrightarrow> spec_step sha op (ms_view s) h = Some y"
        unfolding Revoke spec_revoke_Some ms_delete(2) [OF inv x'] using only id x(2) by auto
    qed
    then show ?thesis
      using x ms_delete(1) [OF inv x'] by (simp add: Revoke ms_revoke_def)
  next
    case False
    then have "ms_step sha op s = (Revoked False, s)"
      by (auto simp: Revoke ms_revoke_def split: option.splits)
    moreover have "spec_step sha op (ms_view s) = ms_view s"
    proof (intro ext option_eqI)
      fix h y
      show "spec_step sha op (ms_view s) h = Some y \<longleftrightarrow> ms_view s h = Some y"
        unfolding Revoke spec_revoke_Some ms_view_Some [OF inv] using False by blast
    qed
    ultimately show ?thesis using inv by (simp add: Revoke)
  qed
next
  case (RevokeAllExcept u keep now)
  let ?xs = "filter (\<lambda>x. se_userId x = u \<and> se_id x \<noteq> keep) (map snd (ms_byId s))"
  have xs: "\<forall>x \<in> set ?xs. map_of (ms_byId s) (se_id x) = Some x"
    using ms_values(1) [OF inv] by simp
  have "distinct (map se_id ?xs)" using ms_values(2) [OF inv] by (rule distinct_map_filter)
  note fold = ms_fold_delete [OF inv xs this]
  have "ms_view (fold ms_delete ?xs s) = spec_step sha op (ms_view s)"
  proof (intro ext option_eqI)
    fix h x
    have "x \<in> set (map snd (ms_byId s))" if "ms_view s h = Some x"
      using that unfolding ms_values(1) [OF inv] ms_view_Some [OF inv] by blast
    then show "ms_view (fold ms_delete ?xs s) h = Some x \<longleftrightarrow> spec_step sha op (ms_view s) h = Some x"
      unfolding RevokeAllExcept spec_revoke_Some using fold by (auto simp del: set_map)
  qed
  then show ?thesis using fold by (simp add: RevokeAllExcept ms_revokeAllExcept_def Let_def)
qed

interpretation memory_store: session_store sha "ms_step sha" ms_view ms_inv for sha
  by unfold_locales (use ms_step_contract in blast)+


section \<open>The Postgres store keeps it\<close>

definition ds_view :: "session_row list \<Rightarrow> session_map" where
  "ds_view t h = map_option toSession (find (\<lambda>r. sr_tokenHash r = h \<and> sr_revokedAt r = None) t)"

definition ds_inv :: "id set \<times> string set \<Rightarrow> session_row list \<Rightarrow> bool" where
  "ds_inv used t \<longleftrightarrow> unique_by sr_id t \<and> unique_by sr_tokenHash t \<and>
     sr_id ` set t \<subseteq> fst used \<and> sr_tokenHash ` set t \<subseteq> snd used"

lemma toSession_simps [simp]:
  "se_id (toSession r) = sr_id r" "se_userId (toSession r) = sr_accountId r"
  "se_tokenHash (toSession r) = sr_tokenHash r" "se_lastSeenAt (toSession r) = sr_lastSeenAt r"
  "se_expiresAt (toSession r) = sr_expiresAt r"
  by (simp_all add: toSession_def)

lemma live_row: "live_row now r \<longleftrightarrow> sr_revokedAt r = None \<and> isLive (toSession r) now"
  by (auto simp: live_row_def isLive_def)

lemma ds_view_Some:
  assumes "ds_inv used t"
  shows "ds_view t h = Some x \<longleftrightarrow>
    (\<exists>r \<in> set t. sr_tokenHash r = h \<and> sr_revokedAt r = None \<and> x = toSession r)"
proof -
  have u: "unique_by sr_tokenHash t" using assms by (simp add: ds_inv_def)
  have "find (\<lambda>r. sr_tokenHash r = h \<and> sr_revokedAt r = None) t = Some r \<longleftrightarrow>
      r \<in> set t \<and> sr_tokenHash r = h \<and> sr_revokedAt r = None" for r
    using u by (induction t) (auto simp: unique_by_Cons)
  then show ?thesis by (auto simp: ds_view_def)
qed

lemma ds_find_live:
  assumes "ds_inv used t"
  shows "map_option toSession (find (\<lambda>r. sr_tokenHash r = h \<and> live_row now r) t) = alive now (ds_view t) h"
proof (rule option_eqI)
  fix x
  have u: "unique_by sr_tokenHash t" using assms by (simp add: ds_inv_def)
  have "find (\<lambda>r. sr_tokenHash r = h \<and> live_row now r) t = Some r \<longleftrightarrow>
      r \<in> set t \<and> sr_tokenHash r = h \<and> live_row now r" for r
    using u by (induction t) (auto simp: unique_by_Cons)
  then show "map_option toSession (find (\<lambda>r. sr_tokenHash r = h \<and> live_row now r) t) = Some x \<longleftrightarrow>
      alive now (ds_view t) h = Some x"
    unfolding alive_Some ds_view_Some [OF assms] by (auto simp: live_row)
qed

lemma ds_inv_update:
  assumes "ds_inv used t" and "\<And>r. sr_id (f r) = sr_id r" "\<And>r. sr_tokenHash (f r) = sr_tokenHash r"
  shows "ds_inv used (update_where p f t)"
proof -
  have "map sr_id (update_where p f t) = map sr_id t" "map sr_tokenHash (update_where p f t) = map sr_tokenHash t"
    by (rule map_update_where; simp add: assms)+
  then have "sr_id ` set (update_where p f t) = sr_id ` set t"
      "sr_tokenHash ` set (update_where p f t) = sr_tokenHash ` set t"
    by (metis set_map)+
  then show ?thesis using assms by (simp add: ds_inv_def unique_by_update_where)
qed

text \<open>Revoking hides exactly the sessions it hits.\<close>

lemma ds_view_revoke:
  assumes inv: "ds_inv used t"
  shows "ds_view (update_where (\<lambda>r. P (toSession r) \<and> sr_revokedAt r = None)
      (\<lambda>r. r\<lparr>sr_revokedAt := Some now\<rparr>) t) h = Some x \<longleftrightarrow> ds_view t h = Some x \<and> \<not> P x"
proof -
  let ?t = "update_where (\<lambda>r. P (toSession r) \<and> sr_revokedAt r = None) (\<lambda>r. r\<lparr>sr_revokedAt := Some now\<rparr>) t"
  have inv': "ds_inv used ?t" using inv by (rule ds_inv_update) simp_all
  have "y \<in> set ?t \<and> sr_revokedAt y = None \<longleftrightarrow> y \<in> set t \<and> sr_revokedAt y = None \<and> \<not> P (toSession y)" for y
  proof
    assume y: "y \<in> set ?t \<and> sr_revokedAt y = None"
    then obtain r where r: "r \<in> set t" "y = (if P (toSession r) \<and> sr_revokedAt r = None
        then r\<lparr>sr_revokedAt := Some now\<rparr> else r)"
      by (auto simp: set_update_where)
    with y show "y \<in> set t \<and> sr_revokedAt y = None \<and> \<not> P (toSession y)"
      by (cases "P (toSession r) \<and> sr_revokedAt r = None") auto
  next
    assume "y \<in> set t \<and> sr_revokedAt y = None \<and> \<not> P (toSession y)"
    then show "y \<in> set ?t \<and> sr_revokedAt y = None" by (auto simp: set_update_where intro!: exI [of _ y])
  qed
  then show ?thesis unfolding ds_view_Some [OF inv'] ds_view_Some [OF inv] by blast
qed

lemma ds_step_contract:
  assumes inv: "ds_inv used t" and new: "op_new sha op used"
  shows "ds_inv (op_used sha op used) (snd (ds_step sha op t)) \<and>
    (\<forall>later \<ge> op_time op. alive later (ds_view (snd (ds_step sha op t))) =
       alive later (spec_step sha op (ds_view t))) \<and>
    spec_answer sha op (ds_view t) (fst (ds_step sha op t))"
proof (cases op)
  case (Issue u d now sid token)
  let ?r = "\<lparr>sr_id = sid, sr_accountId = u, sr_tokenHash = sha token, sr_device = d,
     sr_expiresAt = now + SESSION_ABSOLUTE_TTL_MS, sr_revokedAt = None, sr_lastSeenAt = now, sr_createdAt = now\<rparr>"
  have fresh: "sid \<notin> sr_id ` set t" "sha token \<notin> sr_tokenHash ` set t"
    using inv new by (auto simp: ds_inv_def Issue)
  have r: "toSession ?r = new_session sha u d now sid token" by (simp add: toSession_def new_session_def)
  have step: "ds_step sha op t = (Issued (Some (new_session sha u d now sid token)), t @ [?r])"
    using fresh by (simp add: Issue ds_issue_def Let_def r)
  have inv': "ds_inv (op_used sha op used) (t @ [?r])"
    using inv fresh by (auto simp: ds_inv_def Issue unique_by_snoc)
  have "ds_view (t @ [?r]) = spec_step sha op (ds_view t)"
  proof (intro ext option_eqI)
    fix h x
    have "sr_tokenHash r \<noteq> sha token" if "r \<in> set t" for r using fresh(2) that by (metis imageI)
    then show "ds_view (t @ [?r]) h = Some x \<longleftrightarrow> spec_step sha op (ds_view t) h = Some x"
      unfolding ds_view_Some [OF inv']
      by (cases "h = sha token") (auto simp: Issue ds_view_Some [OF inv] r)
  qed
  then show ?thesis using inv' by (simp add: step) (simp add: Issue)
next
  case (Authenticate token now)
  note found = ds_find_live [OF inv, of "sha token" now]
  show ?thesis
  proof (cases "find (\<lambda>r. sr_tokenHash r = sha token \<and> live_row now r) t")
    case None
    then have dead: "alive now (ds_view t) (sha token) = None" using found by simp
    then have "spec_step sha op (ds_view t) = ds_view t"
      by (auto simp: Authenticate alive_None split: option.splits)
    then show ?thesis using None dead inv by (simp add: Authenticate ds_authenticate_def)
  next
    case (Some r)
    then have live: "alive now (ds_view t) (sha token) = Some (toSession r)" using found by simp
    have r: "r \<in> set t" "sr_tokenHash r = sha token" "sr_revokedAt r = None"
      using find_set [OF Some] by (simp_all add: live_row)
    have spec: "spec_step sha op (ds_view t) = (ds_view t)(sha token \<mapsto> touch now (toSession r))"
      using live by (auto simp: Authenticate alive_Some)
    show ?thesis
    proof (cases "TOUCH_GRANULARITY_MS \<le> now - sr_lastSeenAt r")
      case True
      let ?t = "update_where (\<lambda>x. sr_id x = sr_id r) (\<lambda>x. x\<lparr>sr_lastSeenAt := now\<rparr>) t"
      have touched: "toSession (r\<lparr>sr_lastSeenAt := now\<rparr>) = touch now (toSession r)"
        using True by (simp add: touch_def toSession_def)
      have inv': "ds_inv used ?t" by (rule ds_inv_update [OF inv]) simp_all
      have u: "unique_by sr_id t" "unique_by sr_tokenHash t" using inv by (simp_all add: ds_inv_def)
      have only: "x = r" if "x \<in> set t" "sr_id x = sr_id r \<or> sr_tokenHash x = sha token" for x
        using that(2) unique_byD [OF u(1) that(1) r(1)] unique_byD [OF u(2) that(1) r(1)] r(2) by metis
      have members: "set ?t = insert (r\<lparr>sr_lastSeenAt := now\<rparr>) (set t - {r})"
      proof -
        have "(if sr_id x = sr_id r then x\<lparr>sr_lastSeenAt := now\<rparr> else x) =
            (if x = r then r\<lparr>sr_lastSeenAt := now\<rparr> else x)" if "x \<in> set t" for x
          using only [OF that] by (cases "sr_id x = sr_id r") auto
        then have "set ?t = (\<lambda>x. if x = r then r\<lparr>sr_lastSeenAt := now\<rparr> else x) ` set t"
          unfolding update_where_def set_map by (rule image_cong [OF refl])
        then show ?thesis using r(1) by auto
      qed
      have "ds_view ?t = (ds_view t)(sha token \<mapsto> touch now (toSession r))"
      proof (intro ext option_eqI)
        fix h x
        show "ds_view ?t h = Some x \<longleftrightarrow> ((ds_view t)(sha token \<mapsto> touch now (toSession r))) h = Some x"
          unfolding ds_view_Some [OF inv'] members
          using only r by (cases "h = sha token") (auto simp: ds_view_Some [OF inv] touched)
      qed
      then show ?thesis
        using Some True live spec inv' by (simp add: Authenticate ds_authenticate_def touched)
    next
      case False
      then have "touch now (toSession r) = toSession r" by (simp add: touch_def)
      moreover from this have "spec_step sha op (ds_view t) = ds_view t"
        using spec live by (auto simp: alive_Some)
      ultimately show ?thesis
        using Some False live inv by (simp add: Authenticate ds_authenticate_def)
    qed
  qed
next
  case (ListForUser u now)
  have "set (ds_listForUser u now t) = {x \<in> ran (alive now (ds_view t)). se_userId x = u}"
    using ds_view_Some [OF inv] by (auto simp: ds_listForUser_def ran_def alive_Some live_row)
  then show ?thesis using inv by (simp add: ListForUser)
next
  case (Revoke u sid now)
  have step: "snd (ds_step sha op t) = update_where (\<lambda>r. (se_id (toSession r) = sid \<and> se_userId (toSession r) = u) \<and>
      sr_revokedAt r = None) (\<lambda>r. r\<lparr>sr_revokedAt := Some now\<rparr>) t"
    by (simp add: Revoke ds_revoke_def Let_def conj_assoc)
  have "ds_view (snd (ds_step sha op t)) = spec_step sha op (ds_view t)"
    unfolding step by (intro ext option_eqI) 
      (simp only: Revoke spec_revoke_Some ds_view_revoke [OF inv, where P = "\<lambda>x. se_id x = sid \<and> se_userId x = u"])
  moreover have "ds_inv used (snd (ds_step sha op t))"
    unfolding step by (rule ds_inv_update [OF inv]) simp_all
  ultimately show ?thesis by (simp add: Revoke)
next
  case (RevokeAllExcept u keep now)
  have step: "snd (ds_step sha op t) = update_where (\<lambda>r. (se_userId (toSession r) = u \<and> se_id (toSession r) \<noteq> keep) \<and>
      sr_revokedAt r = None) (\<lambda>r. r\<lparr>sr_revokedAt := Some now\<rparr>) t"
    by (simp add: RevokeAllExcept ds_revokeAllExcept_def Let_def conj_assoc)
  have "ds_view (snd (ds_step sha op t)) = spec_step sha op (ds_view t)"
    unfolding step by (intro ext option_eqI) 
      (simp only: RevokeAllExcept spec_revoke_Some
        ds_view_revoke [OF inv, where P = "\<lambda>x. se_userId x = u \<and> se_id x \<noteq> keep"])
  moreover have "ds_inv used (snd (ds_step sha op t))"
    unfolding step by (rule ds_inv_update [OF inv]) simp_all
  ultimately show ?thesis by (simp add: RevokeAllExcept)
qed

interpretation drizzle_store: session_store sha "ds_step sha" ds_view ds_inv for sha
  by unfold_locales (use ds_step_contract in blast)+


section \<open>What the stores promise\<close>

text \<open>The answers that tell whether someone is signed in; how many sessions a revocation counts
  differs, since the Postgres store keeps sessions that have run out.\<close>

fun answers_agree :: "session_answer \<Rightarrow> session_answer \<Rightarrow> bool" where
  "answers_agree (Issued x) (Issued y) \<longleftrightarrow> x = y"
| "answers_agree (Authenticated x) (Authenticated y) \<longleftrightarrow> x = y"
| "answers_agree (Listed xs) (Listed ys) \<longleftrightarrow> set xs = set ys"
| "answers_agree (Revoked b) (Revoked c) \<longleftrightarrow> True"
| "answers_agree (RevokedCount m) (RevokedCount n) \<longleftrightarrow> True"
| "answers_agree _ _ \<longleftrightarrow> False"

lemma spec_answer_agree: "spec_answer sha op m a \<Longrightarrow> spec_answer sha op m b \<Longrightarrow> answers_agree a b"
  by (cases op; cases a; cases b) auto

lemma spec_answers_agree:
  "spec_answers sha ops m as \<Longrightarrow> spec_answers sha ops m bs \<Longrightarrow> list_all2 answers_agree as bs"
proof (induction ops arbitrary: m as bs)
  case (Cons op ops)
  then show ?case by (cases as; cases bs) (auto intro: spec_answer_agree)
qed simp

definition empty_memory_sessions :: memory_sessions where
  "empty_memory_sessions = \<lparr>ms_byId = [], ms_idByTokenHash = []\<rparr>"

lemma stores_start:
  "ms_inv ({}, {}) empty_memory_sessions" "ms_view empty_memory_sessions = (\<lambda>_. None)"
  "ds_inv ({}, {}) []" "ds_view [] = (\<lambda>_. None)"
  by (auto simp: ms_inv_def ms_view_def empty_memory_sessions_def ds_inv_def ds_view_def)

text \<open>C27. Run on the same requests from empty, with times that never go back and fresh ids and tokens,
  the in-memory and the Postgres session store answer alike: the same sessions are issued, the
  same tokens authenticate, with the same last use, and the same sessions are listed.\<close>

theorem session_stores_agree:
  assumes "ops_ok sha ({}, {}) start ops"
  shows "list_all2 answers_agree (fst (run_ops (ms_step sha) ops empty_memory_sessions))
    (fst (run_ops (ds_step sha) ops []))"
proof (rule spec_answers_agree)
  show "spec_answers sha ops (\<lambda>_. None) (fst (run_ops (ms_step sha) ops empty_memory_sessions))"
    by (rule memory_store.run_spec [OF stores_start(1) assms]) (simp add: stores_start(2))
  show "spec_answers sha ops (\<lambda>_. None) (fst (run_ops (ds_step sha) ops []))"
    by (rule drizzle_store.run_spec [OF stores_start(3) assms]) (simp add: stores_start(4))
qed

lemma spec_answers_snoc:
  assumes "spec_answers sha (ops @ [op]) m as"
  shows "spec_answer sha op (fold (spec_step sha) ops m) (last as)"
  using assms
proof (induction ops arbitrary: m as)
  case Nil
  then show ?case by (cases as) auto
next
  case (Cons o' ops)
  then obtain a as' where "as = a # as'" "spec_answers sha (ops @ [op]) (spec_step sha o' m) as'"
    by (cases as) auto
  moreover from this have "as' \<noteq> []" by (cases ops; cases as') auto
  ultimately show ?case using Cons.IH by simp
qed

text \<open>The session of a token, as long as no other session is issued under it.\<close>

definition tracks :: "string \<Rightarrow> id \<Rightarrow> id \<Rightarrow> time \<Rightarrow> session_map \<Rightarrow> bool" where
  "tracks h sid u e m \<longleftrightarrow> (\<forall>x. m h = Some x \<longrightarrow> se_id x = sid \<and> se_userId x = u \<and> se_expiresAt x = e)"

definition other_token :: "(string \<Rightarrow> string) \<Rightarrow> string \<Rightarrow> session_op \<Rightarrow> bool" where
  "other_token sha h op \<longleftrightarrow> (case op of Issue u d now sid token \<Rightarrow> sha token \<noteq> h | _ \<Rightarrow> True)"

fun ends_session :: "id \<Rightarrow> id \<Rightarrow> session_op \<Rightarrow> bool" where
  "ends_session u sid (Revoke u' sid' now) \<longleftrightarrow> u' = u \<and> sid' = sid"
| "ends_session u sid (RevokeAllExcept u' keep now) \<longleftrightarrow> u' = u \<and> keep \<noteq> sid"
| "ends_session u sid _ \<longleftrightarrow> False"

lemma spec_step_tracks:
  assumes "other_token sha h op"
  shows "tracks h sid u e m \<Longrightarrow> tracks h sid u e (spec_step sha op m)"
    and "m h = None \<Longrightarrow> spec_step sha op m h = None"
    and "tracks h sid u e m \<Longrightarrow> ends_session u sid op \<Longrightarrow> spec_step sha op m h = None"
  using assms by (cases op; force simp: tracks_def other_token_def split: option.splits)+

lemma spec_run_tracks:
  assumes "\<forall>op \<in> set ops. other_token sha h op"
  shows "tracks h sid u e m \<Longrightarrow> tracks h sid u e (fold (spec_step sha) ops m)"
    and "m h = None \<Longrightarrow> fold (spec_step sha) ops m h = None"
    and "tracks h sid u e m \<Longrightarrow> \<exists>op \<in> set ops. ends_session u sid op \<Longrightarrow> fold (spec_step sha) ops m h = None"
proof -
  have none: "m h = None \<Longrightarrow> fold (spec_step sha) ops m h = None"
    if "\<forall>op \<in> set ops. other_token sha h op" for ops m
    using that by (induction ops arbitrary: m) (simp_all add: spec_step_tracks)
  show "m h = None \<Longrightarrow> fold (spec_step sha) ops m h = None" by (rule none [OF assms])
  show "tracks h sid u e m \<Longrightarrow> tracks h sid u e (fold (spec_step sha) ops m)"
    using assms by (induction ops arbitrary: m) (simp_all add: spec_step_tracks)
  show "tracks h sid u e m \<Longrightarrow> \<exists>op \<in> set ops. ends_session u sid op \<Longrightarrow> fold (spec_step sha) ops m h = None"
    using assms
  proof (induction ops arbitrary: m)
    case (Cons op ops)
    show ?case
    proof (cases "ends_session u sid op")
      case True
      then show ?thesis using none [of ops] spec_step_tracks(3) [of sha h op] Cons.prems by simp
    next
      case False
      then show ?thesis using Cons spec_step_tracks(1) [of sha h op] by simp
    qed
  qed simp
qed

lemma ops_ok_tail: "ops_ok sha used now (pre @ ops) \<Longrightarrow> \<exists>used' now'. ops_ok sha used' now' ops"
proof (induction pre arbitrary: used now)
  case (Cons a pre)
  from Cons.prems have "ops_ok sha (op_used sha a used) (op_time a) (pre @ ops)" by simp
  then show ?case by (rule Cons.IH)
next
  case Nil
  then have "ops_ok sha used now ops" by simp
  then show ?case by blast
qed

lemma ops_ok_other_token:
  "ops_ok sha used now ops \<Longrightarrow> h \<in> snd used \<Longrightarrow> op \<in> set ops \<Longrightarrow> other_token sha h op"
proof (induction ops arbitrary: used now)
  case (Cons o' ops)
  have "h \<in> snd (op_used sha o' used)" using Cons.prems(2) by (cases o') auto
  then have "op \<in> set ops \<Longrightarrow> ?case" using Cons.IH [of "op_used sha o' used" "op_time o'"] Cons.prems(1) by simp
  moreover have "other_token sha h o'"
    using Cons.prems(1,2) by (cases o') (simp_all add: other_token_def, metis)
  ultimately show ?case using Cons.prems(3) by (simp, metis)
qed simp

text \<open>C28. Signing out is final: once a session was revoked, alone or by signing out everywhere else,
  or is 90 days old, its token is never authenticated again by the Postgres store, whatever
  requests run before, between and after.\<close>

theorem signed_out_for_good:
  assumes ok: "ops_ok sha ({}, {}) start (pre @ Issue u d t0 sid token # post @ [Authenticate token later])"
    and over: "(\<exists>op \<in> set post. ends_session u sid op) \<or> t0 + SESSION_ABSOLUTE_TTL_MS \<le> later"
  shows "last (fst (run_ops (ds_step sha) (pre @ Issue u d t0 sid token # post @ [Authenticate token later]) []))
    = Authenticated None"
proof -
  let ?ops = "pre @ Issue u d t0 sid token # post" and ?h = "sha token"
  let ?m0 = "fold (spec_step sha) pre (\<lambda>_. None)"
  let ?m1 = "?m0(?h \<mapsto> new_session sha u d t0 sid token)"
  let ?m = "fold (spec_step sha) post ?m1"
  have "spec_answers sha (?ops @ [Authenticate token later]) (\<lambda>_. None)
      (fst (run_ops (ds_step sha) (?ops @ [Authenticate token later]) []))"
    using ok by (intro drizzle_store.run_spec [OF stores_start(3)]) (simp_all add: stores_start(4))
  from spec_answers_snoc [OF this] have answer:
    "last (fst (run_ops (ds_step sha) (?ops @ [Authenticate token later]) [])) =
       Authenticated (map_option (touch later) (alive later ?m ?h))"
    by simp
  obtain used now where "ops_ok sha used now (Issue u d t0 sid token # post @ [Authenticate token later])"
    using ops_ok_tail ok by blast
  then have "ops_ok sha (insert sid (fst used), insert ?h (snd used)) t0 (post @ [Authenticate token later])"
    by simp
  then have others: "\<forall>op \<in> set post. other_token sha ?h op"
    using ops_ok_other_token [where h = ?h] by fastforce
  have start: "tracks ?h sid u (t0 + SESSION_ABSOLUTE_TTL_MS) ?m1" by (simp add: tracks_def)
  have "alive later ?m ?h = None"
    using over
  proof
    assume "\<exists>op \<in> set post. ends_session u sid op"
    then have "?m ?h = None" by (rule spec_run_tracks(3) [OF others start])
    then show ?thesis by (simp add: alive_def)
  next
    assume "t0 + SESSION_ABSOLUTE_TTL_MS \<le> later"
    then show ?thesis
      using spec_run_tracks(1) [OF others start] by (auto simp: alive_None tracks_def isLive_def)
  qed
  with answer show ?thesis by simp
qed

section \<open>Concrete runs\<close>

definition demo_device :: device_info where
  "demo_device = \<lparr>dv_name = ''Laptop'', dv_platform = ''linux'', dv_appVersion = ''1.0''\<rparr>"

definition demo_session_ops :: "session_op list" where
  "demo_session_ops = [Issue ''u'' demo_device 0 ''s1'' ''t1'', Issue ''u'' demo_device 5 ''s2'' ''t2'',
     Authenticate ''t1'' 100000, ListForUser ''u'' 100001, RevokeAllExcept ''u'' ''s2'' 100002,
     Authenticate ''t2'' 100003]"

theorem session_stores_agree_witness:
  "list_all2 answers_agree (fst (run_ops (ms_step (\<lambda>t. t)) demo_session_ops empty_memory_sessions))
    (fst (run_ops (ds_step (\<lambda>t. t)) demo_session_ops []))"
  by (rule session_stores_agree [of _ 0]) (simp add: demo_session_ops_def)

theorem signed_out_for_good_witness:
  "last (fst (run_ops (ds_step (\<lambda>t. t)) ([] @ Issue ''u'' demo_device 0 ''s1'' ''t1'' #
     [Issue ''u'' demo_device 5 ''s2'' ''t2'', RevokeAllExcept ''u'' ''s2'' 10] @ [Authenticate ''t1'' 20]) []))
   = Authenticated None"
  by (rule signed_out_for_good [of _ 0]) simp_all

end
