(* ===== verification/Pairing.thy ===== *)
theory Pairing
  imports Sessions
begin

text \<open>
  Adding a phone by QR code: \<^verbatim>\<open>apps/api/src/pairing\<close> (\<^verbatim>\<open>PairingService\<close> over the in-memory
  \<^verbatim>\<open>PairingStore\<close>), with the sessions of \<open>Sessions\<close>.

  \<^verbatim>\<open>approve\<close> waits for the database between its check and its writes, and other requests run
  meanwhile. It is two steps here: \<open>approve_begin\<close> checks and issues the phone's session, and
  \<open>approve_end\<close> writes the record, which may have left the map by then. A record is mutated in
  place in the source; here the map is updated under its id.
\<close>

section \<open>State\<close>

datatype pairing_status = Waiting | Claimed | Approved | Denied

record pairing_grant =
  pg_ephemeralPublicKey :: string
  pg_nonce :: string
  pg_ct :: string

record pairing_record =
  pr_id :: id
  pr_userId :: id
  pr_claimHash :: string
  pr_status :: pairing_status
  pr_expiresAt :: time
  pr_device :: "device_info option"
  pr_publicKey :: "string option"
  pr_grant :: "pairing_grant option"
  pr_sessionToken :: "string option"
  pr_sessionExpiresAt :: "time option"

text \<open>An approval under way: the pairing, the grant, and the session it has been given.\<close>

record approval =
  ap_id :: id
  ap_grant :: pairing_grant
  ap_token :: string
  ap_expiresAt :: time

record pairing_state =
  ps_byId :: "(id \<times> pairing_record) list"
  ps_sessions :: "session_row list"
  ps_approvals :: "approval list"

definition ttlSeconds :: int where "ttlSeconds = 3 * 60"
definition MAX_LIVE_PAIRINGS_PER_USER :: nat where "MAX_LIVE_PAIRINGS_PER_USER = 5"

type_synonym 'a pairing_outcome = "(http_error, 'a, pairing_state) outcome"

section \<open>The store\<close>

definition ps_insert :: "pairing_record \<Rightarrow> pairing_state \<Rightarrow> pairing_state" where
  "ps_insert r s = s\<lparr>ps_byId := AList.update (pr_id r) r (ps_byId s)\<rparr>"

definition ps_delete :: "id \<Rightarrow> pairing_state \<Rightarrow> pairing_state" where
  "ps_delete i s = s\<lparr>ps_byId := AList.delete i (ps_byId s)\<rparr>"

definition ps_get :: "id \<Rightarrow> time \<Rightarrow> pairing_state \<Rightarrow> pairing_record option \<times> pairing_state" where
  "ps_get i now s = (case map_of (ps_byId s) i of
     None \<Rightarrow> (None, s)
   | Some r \<Rightarrow> if pr_expiresAt r \<le> now then (None, ps_delete i s) else (Some r, s))"

definition ps_countLive :: "id \<Rightarrow> time \<Rightarrow> pairing_state \<Rightarrow> nat \<times> pairing_state" where
  "ps_countLive u now s =
     (let live = filter (\<lambda>e. now < pr_expiresAt (snd e)) (ps_byId s)
      in (length (filter (\<lambda>e. pr_userId (snd e) = u) live), s\<lparr>ps_byId := live\<rparr>))"

section \<open>The service\<close>

definition ps_owned :: "id \<Rightarrow> id \<Rightarrow> time \<Rightarrow> pairing_state \<Rightarrow> pairing_record pairing_outcome" where
  "ps_owned u i now s = (case ps_get i now s of
     (None, s') \<Rightarrow> throw (NotFound '''') s'
   | (Some r, s') \<Rightarrow> if pr_userId r \<noteq> u then throw (NotFound '''') s' else ret r s')"

definition ps_withToken :: "(string \<Rightarrow> string) \<Rightarrow> id \<Rightarrow> string \<Rightarrow> time \<Rightarrow> pairing_state \<Rightarrow>
    pairing_record pairing_outcome" where
  "ps_withToken sha i claimToken now s = (case ps_get i now s of
     (None, s') \<Rightarrow> throw (NotFound ''This QR code has expired. Show a new one.'') s'
   | (Some r, s') \<Rightarrow>
       if sha claimToken \<noteq> pr_claimHash r
       then throw (NotFound ''This QR code has expired. Show a new one.'') s' else ret r s')"

definition pairing_create :: "(string \<Rightarrow> string) \<Rightarrow> id \<Rightarrow> string \<Rightarrow> time \<Rightarrow> id \<Rightarrow> pairing_state \<Rightarrow>
    (id \<times> time) pairing_outcome" where
  "pairing_create sha u claimToken now newId s = (case ps_countLive u now s of (n, s') \<Rightarrow>
     if MAX_LIVE_PAIRINGS_PER_USER \<le> n
     then throw (Unprocessable ''Too many phones waiting to be added. Try again soon.'') s'
     else
       let r = \<lparr>pr_id = newId, pr_userId = u, pr_claimHash = sha claimToken, pr_status = Waiting,
                pr_expiresAt = now + ttlSeconds * 1000, pr_device = None, pr_publicKey = None,
                pr_grant = None, pr_sessionToken = None, pr_sessionExpiresAt = None\<rparr>
       in ret (newId, pr_expiresAt r) (ps_insert r s'))"

definition pairing_claim :: "(string \<Rightarrow> string) \<Rightarrow> id \<Rightarrow> string \<Rightarrow> device_info \<Rightarrow> string \<Rightarrow> time \<Rightarrow>
    pairing_state \<Rightarrow> unit pairing_outcome" where
  "pairing_claim sha i claimToken device publicKey now s =
     and_then (ps_withToken sha i claimToken now s) (\<lambda>r s.
       if pr_status r \<noteq> Waiting
       then throw (Conflict ''This QR code has already been used. Show a new one.'') s
       else ret () (ps_insert (r\<lparr>pr_status := Claimed, pr_device := Some device,
              pr_publicKey := Some publicKey\<rparr>) s))"

record pairing_view =
  pv_id :: id
  pv_status :: pairing_status
  pv_expiresAt :: time
  pv_device :: "device_info option"
  pv_publicKey :: "string option"

definition pairing_view_of :: "id \<Rightarrow> id \<Rightarrow> time \<Rightarrow> pairing_state \<Rightarrow> pairing_view pairing_outcome" where
  "pairing_view_of u i now s = and_then (ps_owned u i now s) (\<lambda>r s.
     ret \<lparr>pv_id = pr_id r, pv_status = pr_status r, pv_expiresAt = pr_expiresAt r,
          pv_device = pr_device r, pv_publicKey = pr_publicKey r\<rparr> s)"

definition approve_begin :: "(string \<Rightarrow> string) \<Rightarrow> id \<Rightarrow> id \<Rightarrow> pairing_grant \<Rightarrow> time \<Rightarrow> id \<Rightarrow> string \<Rightarrow>
    pairing_state \<Rightarrow> unit pairing_outcome" where
  "approve_begin sha u i grant now sid token s = and_then (ps_owned u i now s) (\<lambda>r s.
     case (pr_status r, pr_device r) of
       (Claimed, Some device) \<Rightarrow>
         (case ds_issue sha u device now sid token (ps_sessions s) of
            (None, t) \<Rightarrow> throw (DbError ''sessions'') s
          | (Some session, t) \<Rightarrow>
              ret () (s\<lparr>ps_sessions := t, ps_approvals := ps_approvals s @
                [\<lparr>ap_id = i, ap_grant = grant, ap_token = token, ap_expiresAt = se_expiresAt session\<rparr>]\<rparr>))
     | _ \<Rightarrow> throw (Conflict ''No phone is waiting on this QR code.'') s)"

text \<open>The first approval under way goes on.\<close>

definition approve_end :: "pairing_state \<Rightarrow> unit pairing_outcome" where
  "approve_end s = (case ps_approvals s of
     [] \<Rightarrow> ret () s
   | a # as \<Rightarrow>
      (let s' = s\<lparr>ps_approvals := as\<rparr>
       in case map_of (ps_byId s) (ap_id a) of
            None \<Rightarrow> ret () s'
          | Some r \<Rightarrow> ret () (ps_insert (r\<lparr>pr_status := Approved, pr_grant := Some (ap_grant a),
                pr_sessionToken := Some (ap_token a), pr_sessionExpiresAt := Some (ap_expiresAt a)\<rparr>) s')))"

definition pairing_deny :: "id \<Rightarrow> id \<Rightarrow> time \<Rightarrow> pairing_state \<Rightarrow> unit pairing_outcome" where
  "pairing_deny u i now s = and_then (ps_owned u i now s) (\<lambda>r s.
     if pr_status r = Approved
     then throw (Conflict ''This phone was already added. Remove it from Devices instead.'') s
     else ret () (ps_insert (r\<lparr>pr_status := Denied, pr_grant := None\<rparr>) s))"

datatype pairing_result = StillWaiting | WasDenied | Collected string time pairing_grant

definition pairing_result_of :: "(string \<Rightarrow> string) \<Rightarrow> id \<Rightarrow> string \<Rightarrow> time \<Rightarrow> pairing_state \<Rightarrow>
    pairing_result pairing_outcome" where
  "pairing_result_of sha i claimToken now s =
     and_then (ps_withToken sha i claimToken now s) (\<lambda>r s.
       case pr_status r of
         Waiting \<Rightarrow> ret StillWaiting s
       | Claimed \<Rightarrow> ret StillWaiting s
       | Denied \<Rightarrow> ret WasDenied (ps_delete i s)
       | Approved \<Rightarrow>
          (case (pr_grant r, pr_sessionToken r, pr_sessionExpiresAt r) of
             (Some grant, Some token, Some expires) \<Rightarrow> ret (Collected token expires grant) (ps_delete i s)
           | _ \<Rightarrow> throw Gone (ps_delete i s)))"

section \<open>Runs\<close>

datatype pairing_op =
    Create id string time id
  | Claim id string device_info string time
  | View id id time
  | ApproveBegin id id pairing_grant time id string
  | ApproveEnd
  | Deny id id time
  | Result id string time

fun pairing_step :: "(string \<Rightarrow> string) \<Rightarrow> pairing_op \<Rightarrow> pairing_state \<Rightarrow> pairing_state" where
  "pairing_step sha (Create u claimToken now newId) s = snd (pairing_create sha u claimToken now newId s)"
| "pairing_step sha (Claim i claimToken device key now) s = snd (pairing_claim sha i claimToken device key now s)"
| "pairing_step sha (View u i now) s = snd (pairing_view_of u i now s)"
| "pairing_step sha (ApproveBegin u i grant now sid token) s =
     snd (approve_begin sha u i grant now sid token s)"
| "pairing_step sha ApproveEnd s = snd (approve_end s)"
| "pairing_step sha (Deny u i now) s = snd (pairing_deny u i now s)"
| "pairing_step sha (Result i claimToken now) s = snd (pairing_result_of sha i claimToken now s)"

definition pairing_run :: "(string \<Rightarrow> string) \<Rightarrow> pairing_op list \<Rightarrow> pairing_state \<Rightarrow> pairing_state" where
  "pairing_run sha ops s = fold (pairing_step sha) ops s"

definition empty_pairing_state :: pairing_state where
  "empty_pairing_state = \<lparr>ps_byId = [], ps_sessions = [], ps_approvals = []\<rparr>"

text \<open>The ids of created pairings are fresh.\<close>

fun created_ids :: "pairing_op list \<Rightarrow> id list" where
  "created_ids [] = []"
| "created_ids (Create u claimToken now newId # ops) = newId # created_ids ops"
| "created_ids (_ # ops) = created_ids ops"

section \<open>The invariant\<close>

definition lookup_pairing :: "id \<Rightarrow> pairing_state \<Rightarrow> pairing_record option" where
  "lookup_pairing i s = map_of (ps_byId s) i"

text \<open>The session of an approval is the one issued to the claimed device for the owner.\<close>

definition session_for :: "(string \<Rightarrow> string) \<Rightarrow> pairing_record \<Rightarrow> string \<Rightarrow> session_row list \<Rightarrow> bool" where
  "session_for sha r token t \<longleftrightarrow> (\<exists>x \<in> set t. sr_tokenHash x = sha token \<and> sr_accountId x = pr_userId r \<and>
     pr_device r = Some (sr_device x))"

definition pairing_ok :: "(string \<Rightarrow> string) \<Rightarrow> session_row list \<Rightarrow> pairing_record \<Rightarrow> bool" where
  "pairing_ok sha t r \<longleftrightarrow> (pr_status r = Claimed \<longrightarrow> pr_device r \<noteq> None) \<and>
     (pr_status r = Approved \<longrightarrow> pr_grant r \<noteq> None \<and> pr_sessionExpiresAt r \<noteq> None \<and>
        (\<exists>token. pr_sessionToken r = Some token \<and> session_for sha r token t))"

definition pairing_inv :: "(string \<Rightarrow> string) \<Rightarrow> id set \<Rightarrow> pairing_state \<Rightarrow> bool" where
  "pairing_inv sha used s \<longleftrightarrow> distinct (map fst (ps_byId s)) \<and>
     (\<forall>i r. lookup_pairing i s = Some r \<longrightarrow> pr_id r = i \<and> i \<in> used \<and> pairing_ok sha (ps_sessions s) r) \<and>
     (\<forall>a \<in> set (ps_approvals s). ap_id a \<in> used \<and> (\<forall>r. lookup_pairing (ap_id a) s = Some r \<longrightarrow>
        pr_status r \<noteq> Waiting \<and> session_for sha r (ap_token a) (ps_sessions s)))"


lemma pairing_invD:
  assumes "pairing_inv sha used s"
  shows "distinct (map fst (ps_byId s))"
    "lookup_pairing i s = Some r \<Longrightarrow> pr_id r = i \<and> i \<in> used \<and> pairing_ok sha (ps_sessions s) r"
    "a \<in> set (ps_approvals s) \<Longrightarrow> ap_id a \<in> used"
    "a \<in> set (ps_approvals s) \<Longrightarrow> lookup_pairing (ap_id a) s = Some r \<Longrightarrow>
       pr_status r \<noteq> Waiting \<and> session_for sha r (ap_token a) (ps_sessions s)"
  using assms unfolding pairing_inv_def by blast+

lemma lookup_simps [simp]:
  "lookup_pairing i (ps_insert r s) = (if i = pr_id r then Some r else lookup_pairing i s)"
  "lookup_pairing i (ps_delete j s) = (if i = j then None else lookup_pairing i s)"
  by (auto simp: lookup_pairing_def ps_insert_def ps_delete_def update_conv' delete_conv')

lemma ps_fields [simp]:
  "ps_sessions (ps_insert r s) = ps_sessions s" "ps_approvals (ps_insert r s) = ps_approvals s"
  "ps_sessions (ps_delete i s) = ps_sessions s" "ps_approvals (ps_delete i s) = ps_approvals s"
  by (simp_all add: ps_insert_def ps_delete_def)

lemma ps_distinct:
  "distinct (map fst (ps_byId s)) \<Longrightarrow> distinct (map fst (ps_byId (ps_insert r s)))"
  "distinct (map fst (ps_byId s)) \<Longrightarrow> distinct (map fst (ps_byId (ps_delete i s)))"
  by (simp_all add: ps_insert_def ps_delete_def distinct_update distinct_delete)

lemma inv_delete: "pairing_inv sha used s \<Longrightarrow> pairing_inv sha used (ps_delete i s)"
  by (auto simp: pairing_inv_def ps_distinct split: if_splits)

text \<open>A record is replaced by one of the same account, keeping its device once claimed.\<close>

lemma inv_replace:
  assumes inv: "pairing_inv sha used s" and r: "lookup_pairing i s = Some r"
    and new: "pr_id r' = i" "pr_userId r' = pr_userId r" "pairing_ok sha (ps_sessions s) r'"
    and kept: "pr_status r \<noteq> Waiting \<Longrightarrow> pr_status r' \<noteq> Waiting \<and> pr_device r' = pr_device r"
  shows "pairing_inv sha used (ps_insert r' s)"
proof -
  note I = pairing_invD [OF inv]
  have "i \<in> used" using I(2) [OF r] by simp
  moreover have "pr_status r' \<noteq> Waiting \<and> session_for sha r' (ap_token a) (ps_sessions s)"
    if "a \<in> set (ps_approvals s)" "ap_id a = i" for a
    using I(4) [OF that(1), of r] that(2) r kept new(2) by (auto simp: session_for_def)
  ultimately show ?thesis
    using I new(1,3) unfolding pairing_inv_def by (auto simp: ps_distinct)
qed

lemma inv_create:
  assumes inv: "pairing_inv sha used s" and new: "pr_id r \<notin> used" "pairing_ok sha (ps_sessions s) r"
  shows "pairing_inv sha (insert (pr_id r) used) (ps_insert r s)"
proof -
  note I = pairing_invD [OF inv]
  have "ap_id a \<noteq> pr_id r" if "a \<in> set (ps_approvals s)" for a using I(3) [OF that] new(1) by auto
  then show ?thesis using I new(2) unfolding pairing_inv_def by (auto simp: ps_distinct)
qed

lemma ps_get_cases:
  assumes "pairing_inv sha used s"
  obtains (gone) s' where "ps_get i now s = (None, s')" "s' = s \<or> s' = ps_delete i s" "pairing_inv sha used s'"
  | (there) r where "ps_get i now s = (Some r, s)" "lookup_pairing i s = Some r" "now < pr_expiresAt r"
proof (cases "lookup_pairing i s")
  case None
  then show thesis using gone assms by (simp add: ps_get_def lookup_pairing_def)
next
  case (Some r)
  then show thesis
    using gone there inv_delete [OF assms] by (cases "pr_expiresAt r \<le> now") (auto simp: ps_get_def lookup_pairing_def)
qed

lemma ps_owned_cases:
  assumes "pairing_inv sha used s"
  obtains (refused) e s' where "ps_owned u i now s = (Inl e, s')" "s' = s \<or> s' = ps_delete i s"
      "pairing_inv sha used s'"
  | (owned) r where "ps_owned u i now s = (Inr r, s)" "lookup_pairing i s = Some r" "pr_userId r = u"
      "now < pr_expiresAt r"
proof (rule ps_get_cases [OF assms, of i now])
  fix s' assume "ps_get i now s = (None, s')" "s' = s \<or> s' = ps_delete i s" "pairing_inv sha used s'"
  then show thesis using refused by (simp add: ps_owned_def throw_def)
next
  fix r assume "ps_get i now s = (Some r, s)" "lookup_pairing i s = Some r" "now < pr_expiresAt r"
  then show thesis
    using refused owned assms by (cases "pr_userId r = u") (auto simp: ps_owned_def throw_def ret_def)
qed

lemma ps_withToken_cases:
  assumes "pairing_inv sha used s"
  obtains (refused) e s' where "ps_withToken sha i claimToken now s = (Inl e, s')"
      "s' = s \<or> s' = ps_delete i s" "pairing_inv sha used s'"
  | (token) r where "ps_withToken sha i claimToken now s = (Inr r, s)" "lookup_pairing i s = Some r"
      "sha claimToken = pr_claimHash r" "now < pr_expiresAt r"
proof (rule ps_get_cases [OF assms, of i now])
  fix s' assume "ps_get i now s = (None, s')" "s' = s \<or> s' = ps_delete i s" "pairing_inv sha used s'"
  then show thesis using refused by (simp add: ps_withToken_def throw_def)
next
  fix r assume "ps_get i now s = (Some r, s)" "lookup_pairing i s = Some r" "now < pr_expiresAt r"
  then show thesis
    using refused token assms
    by (cases "sha claimToken = pr_claimHash r") (auto simp: ps_withToken_def throw_def ret_def)
qed

lemma session_for_mono: "session_for sha r token t \<Longrightarrow> set t \<subseteq> set t' \<Longrightarrow> session_for sha r token t'"
  by (auto simp: session_for_def)

lemma pairing_ok_mono: "pairing_ok sha t r \<Longrightarrow> set t \<subseteq> set t' \<Longrightarrow> pairing_ok sha t' r"
  using session_for_mono by (fastforce simp: pairing_ok_def)

definition op_creates :: "pairing_op \<Rightarrow> id set" where
  "op_creates op = set (created_ids [op])"

lemma pairing_step_inv:
  assumes inv: "pairing_inv sha used s" and new: "op_creates op \<inter> used = {}"
  shows "pairing_inv sha (op_creates op \<union> used) (pairing_step sha op s)"
proof (cases op)
  case (Create u claimToken now newId)
  let ?live = "filter (\<lambda>e. now < pr_expiresAt (snd e)) (ps_byId s)"
  note I = pairing_invD [OF inv]
  have "lookup_pairing i (s\<lparr>ps_byId := ?live\<rparr>) = Some r \<Longrightarrow> lookup_pairing i s = Some r" for i r
    using I(1) by (auto simp: lookup_pairing_def dest!: map_of_SomeD intro!: map_of_is_SomeI)
  then have live: "pairing_inv sha used (s\<lparr>ps_byId := ?live\<rparr>)"
    using I by (fastforce simp: pairing_inv_def distinct_map_filter lookup_pairing_def)
  have "newId \<notin> used" using new by (simp add: op_creates_def Create)
  from inv_create [OF live, of "\<lparr>pr_id = newId, pr_userId = u, pr_claimHash = sha claimToken, pr_status = Waiting,
                pr_expiresAt = now + ttlSeconds * 1000, pr_device = None, pr_publicKey = None,
                pr_grant = None, pr_sessionToken = None, pr_sessionExpiresAt = None\<rparr>"] this
  have "pairing_inv sha (insert newId used) (ps_insert \<lparr>pr_id = newId, pr_userId = u,
      pr_claimHash = sha claimToken, pr_status = Waiting, pr_expiresAt = now + ttlSeconds * 1000,
      pr_device = None, pr_publicKey = None, pr_grant = None, pr_sessionToken = None,
      pr_sessionExpiresAt = None\<rparr> (s\<lparr>ps_byId := ?live\<rparr>))"
    by (simp add: pairing_ok_def)
  moreover have "pairing_inv sha (insert newId used) (s\<lparr>ps_byId := ?live\<rparr>)"
    using live by (auto simp: pairing_inv_def)
  ultimately show ?thesis
    by (simp add: Create op_creates_def pairing_create_def ps_countLive_def Let_def)
next
  case (Claim i claimToken device key now)
  show ?thesis
  proof (rule ps_withToken_cases [OF inv, of i claimToken now])
    fix r
    assume t: "ps_withToken sha i claimToken now s = (Inr r, s)" and r: "lookup_pairing i s = Some r"
    have "pairing_inv sha used (ps_insert (r\<lparr>pr_status := Claimed, pr_device := Some device,
        pr_publicKey := Some key\<rparr>) s)" if "pr_status r = Waiting"
      using pairing_invD(2) [OF inv r] that by (intro inv_replace [OF inv r]) (auto simp: pairing_ok_def)
    then show ?thesis using inv t by (simp add: Claim op_creates_def pairing_claim_def)
  qed (simp add: Claim op_creates_def pairing_claim_def)
next
  case (View u i now)
  show ?thesis
    by (rule ps_owned_cases [OF inv, of u i now])
      (use inv in \<open>simp_all add: View op_creates_def pairing_view_of_def\<close>)
next
  case (ApproveBegin u i grant now sid token)
  show ?thesis
  proof (rule ps_owned_cases [OF inv, of u i now])
    fix r
    assume o: "ps_owned u i now s = (Inr r, s)" and r: "lookup_pairing i s = Some r" "pr_userId r = u"
    note I = pairing_invD [OF inv]
    show ?thesis
    proof (cases "\<exists>device. pr_status r = Claimed \<and> pr_device r = Some device \<and>
        \<not> (sid \<in> sr_id ` set (ps_sessions s) \<or> sha token \<in> sr_tokenHash ` set (ps_sessions s))")
      case True
      then obtain device where d: "pr_status r = Claimed" "pr_device r = Some device"
          "\<not> (sid \<in> sr_id ` set (ps_sessions s) \<or> sha token \<in> sr_tokenHash ` set (ps_sessions s))" by blast
      obtain row where row: "ds_issue sha u device now sid token (ps_sessions s) =
          (Some (toSession row), ps_sessions s @ [row])" "sr_tokenHash row = sha token"
          "sr_accountId row = u" "sr_device row = device"
        using d(3) by (simp add: ds_issue_def Let_def)
      let ?t = "ps_sessions s @ [row]"
      have "session_for sha r token ?t" using row(2-4) r(2) d(2) by (auto simp: session_for_def)
      moreover have "pairing_ok sha ?t r'" if "lookup_pairing j s = Some r'" for j r'
        using I(2) [OF that] pairing_ok_mono [of sha "ps_sessions s" r' ?t] by auto
      moreover have "session_for sha r' (ap_token a) ?t"
        if "a \<in> set (ps_approvals s)" "lookup_pairing (ap_id a) s = Some r'" for a r'
        using I(4) [OF that] session_for_mono [of sha r' "ap_token a" "ps_sessions s" ?t] by auto
      moreover let ?s = "s\<lparr>ps_sessions := ?t, ps_approvals := ps_approvals s @ [\<lparr>ap_id = i, ap_grant = grant,
          ap_token = token, ap_expiresAt = se_expiresAt (toSession row)\<rparr>]\<rparr>"
      have look: "lookup_pairing j ?s = lookup_pairing j s" for j by (simp add: lookup_pairing_def)
      ultimately have "pairing_inv sha used ?s"
        using I r d(1) unfolding pairing_inv_def look by auto
      then show ?thesis
        using d(1,2) o row(1) by (simp add: ApproveBegin op_creates_def approve_begin_def)
    next
      case False
      then have "snd (approve_begin sha u i grant now sid token s) = s"
        using o by (auto simp: approve_begin_def ds_issue_def Let_def split: pairing_status.split option.split)
      then show ?thesis using inv by (simp add: ApproveBegin op_creates_def)
    qed
  qed (simp add: ApproveBegin op_creates_def approve_begin_def)
next
  case ApproveEnd
  show ?thesis
  proof (cases "ps_approvals s")
    case Nil
    then show ?thesis using inv by (simp add: ApproveEnd op_creates_def approve_end_def)
  next
    case (Cons a as)
    let ?s = "s\<lparr>ps_approvals := as\<rparr>"
    have look: "lookup_pairing j ?s = lookup_pairing j s" for j by (simp add: lookup_pairing_def)
    have inv': "pairing_inv sha used ?s" using inv Cons by (auto simp: pairing_inv_def look)
    show ?thesis
    proof (cases "lookup_pairing (ap_id a) s")
      case None
      then show ?thesis
        using inv' Cons by (simp add: ApproveEnd op_creates_def approve_end_def Let_def lookup_pairing_def)
    next
      case (Some r)
      then have r: "lookup_pairing (ap_id a) ?s = Some r" by (simp add: look)
      have a: "pr_status r \<noteq> Waiting" "session_for sha r (ap_token a) (ps_sessions s)"
        using pairing_invD(4) [OF inv _ Some] Cons by simp_all
      have "pairing_inv sha used (ps_insert (r\<lparr>pr_status := Approved, pr_grant := Some (ap_grant a),
          pr_sessionToken := Some (ap_token a), pr_sessionExpiresAt := Some (ap_expiresAt a)\<rparr>) ?s)"
        using a pairing_invD(2) [OF inv Some]
        by (intro inv_replace [OF inv' r]) (auto simp: pairing_ok_def session_for_def)
      then show ?thesis
        using Some Cons by (simp add: ApproveEnd op_creates_def approve_end_def Let_def lookup_pairing_def)
    qed
  qed
next
  case (Deny u i now)
  show ?thesis
  proof (rule ps_owned_cases [OF inv, of u i now])
    fix r
    assume o: "ps_owned u i now s = (Inr r, s)" and r: "lookup_pairing i s = Some r"
    have "pairing_inv sha used (ps_insert (r\<lparr>pr_status := Denied, pr_grant := None\<rparr>) s)"
      using pairing_invD(2) [OF inv r] by (intro inv_replace [OF inv r]) (auto simp: pairing_ok_def)
    then show ?thesis using inv o by (simp add: Deny op_creates_def pairing_deny_def)
  qed (simp add: Deny op_creates_def pairing_deny_def)
next
  case (Result i claimToken now)
  show ?thesis
  proof (rule ps_withToken_cases [OF inv, of i claimToken now])
    fix r assume "ps_withToken sha i claimToken now s = (Inr r, s)"
    then show ?thesis
      using inv inv_delete [OF inv]
      by (simp add: Result op_creates_def pairing_result_of_def split: pairing_status.split option.split)
  qed (simp add: Result op_creates_def pairing_result_of_def)
qed


lemma created_ids_Cons: "created_ids (op # ops) = created_ids [op] @ created_ids ops"
  by (cases op) simp_all

lemma created_ids_append: "created_ids (xs @ ys) = created_ids xs @ created_ids ys"
proof (induction xs)
  case (Cons x xs)
  then show ?case using created_ids_Cons [of x "xs @ ys"] created_ids_Cons [of x xs] by simp
qed simp

lemma pairing_run_inv:
  assumes "pairing_inv sha used s" and "distinct (created_ids ops)" and "set (created_ids ops) \<inter> used = {}"
  shows "pairing_inv sha (set (created_ids ops) \<union> used) (pairing_run sha ops s)"
  using assms
proof (induction ops arbitrary: used s)
  case (Cons op ops)
  have ids: "created_ids (op # ops) = created_ids [op] @ created_ids ops" by (rule created_ids_Cons)
  have "pairing_inv sha (op_creates op \<union> used) (pairing_step sha op s)"
    using Cons.prems ids by (intro pairing_step_inv) (auto simp: op_creates_def)
  then have "pairing_inv sha (set (created_ids ops) \<union> (op_creates op \<union> used))
      (pairing_run sha ops (pairing_step sha op s))"
    using Cons.prems ids by (intro Cons.IH) (auto simp: op_creates_def)
  then show ?case by (simp add: pairing_run_def ids op_creates_def Un_ac)
qed (simp add: pairing_run_def)

lemma pairing_inv_empty: "pairing_inv sha {} empty_pairing_state"
  by (simp add: pairing_inv_def empty_pairing_state_def lookup_pairing_def)

text \<open>A pairing that is gone stays gone.\<close>

lemma pairing_step_gone:
  assumes inv: "pairing_inv sha used s" and gone: "lookup_pairing i s = None" and new: "i \<notin> op_creates op"
  shows "lookup_pairing i (pairing_step sha op s) = None"
proof -
  note I = pairing_invD [OF inv]
  have other: "j \<noteq> i \<and> pr_id r = j" if "lookup_pairing j s = Some r" for j r
    using I(2) [OF that] that gone by auto
  show ?thesis
  proof (cases op)
    case (Create u claimToken now newId)
    then have "i \<noteq> newId" using new by (simp add: op_creates_def)
    moreover have "map_of (filter (\<lambda>e. now < pr_expiresAt (snd e)) (ps_byId s)) i = None"
      using gone by (auto simp: lookup_pairing_def map_of_eq_None_iff)
    ultimately show ?thesis
      using gone by (simp add: Create pairing_create_def ps_countLive_def Let_def lookup_pairing_def
          ps_insert_def update_conv')
  next
    case (Claim j claimToken device key now)
    show ?thesis
      by (rule ps_withToken_cases [OF inv, of j claimToken now])
        (use gone other in \<open>auto simp: Claim pairing_claim_def\<close>)
  next
    case (View u j now)
    show ?thesis
      by (rule ps_owned_cases [OF inv, of u j now]) (use gone in \<open>auto simp: View pairing_view_of_def\<close>)
  next
    case (ApproveBegin u j grant now sid token)
    have "lookup_pairing i (s\<lparr>ps_sessions := t, ps_approvals := as\<rparr>) = None" for t as
      using gone by (simp add: lookup_pairing_def)
    note kept = this
    show ?thesis
    proof (rule ps_owned_cases [OF inv, of u j now])
      fix r assume "ps_owned u j now s = (Inr r, s)"
      then show ?thesis
        using gone kept
        by (simp add: ApproveBegin approve_begin_def split: pairing_status.split option.split prod.split)
    next
      fix e s' assume "ps_owned u j now s = (Inl e, s')" "s' = s \<or> s' = ps_delete j s"
      then show ?thesis using gone by (auto simp: ApproveBegin approve_begin_def)
    qed
  next
    case ApproveEnd
    have look: "lookup_pairing j (s\<lparr>ps_approvals := as\<rparr>) = lookup_pairing j s" for j as
      by (simp add: lookup_pairing_def)
    show ?thesis
    proof (cases "ps_approvals s")
      case (Cons a as)
      show ?thesis
      proof (cases "lookup_pairing (ap_id a) s")
        case None
        then show ?thesis
          using gone look Cons by (simp add: ApproveEnd approve_end_def Let_def lookup_pairing_def)
      next
        case (Some r)
        then have "map_of (ps_byId s) (ap_id a) = Some r" "i \<noteq> pr_id r"
          using other by (auto simp: lookup_pairing_def)
        then show ?thesis
          using gone look Cons by (simp add: ApproveEnd approve_end_def Let_def)
      qed
    qed (use gone in \<open>simp add: ApproveEnd approve_end_def\<close>)
  next
    case (Deny u j now)
    show ?thesis
      by (rule ps_owned_cases [OF inv, of u j now]) (use gone other in \<open>auto simp: Deny pairing_deny_def\<close>)
  next
    case (Result j claimToken now)
    show ?thesis
      by (rule ps_withToken_cases [OF inv, of j claimToken now])
        (use gone in \<open>auto simp: Result pairing_result_of_def split: pairing_status.split option.split\<close>)
  qed
qed

lemma pairing_run_gone:
  assumes "pairing_inv sha used s" and "lookup_pairing i s = None" and "i \<notin> set (created_ids ops)"
    and "distinct (created_ids ops)" and "set (created_ids ops) \<inter> used = {}"
  shows "lookup_pairing i (pairing_run sha ops s) = None"
  using assms
proof (induction ops arbitrary: used s)
  case (Cons op ops)
  have ids: "created_ids (op # ops) = created_ids [op] @ created_ids ops" by (rule created_ids_Cons)
  have "pairing_inv sha (op_creates op \<union> used) (pairing_step sha op s)"
    using Cons.prems ids by (intro pairing_step_inv) (auto simp: op_creates_def)
  moreover have "lookup_pairing i (pairing_step sha op s) = None"
    using Cons.prems ids by (intro pairing_step_gone) (auto simp: op_creates_def)
  ultimately have "lookup_pairing i (pairing_run sha ops (pairing_step sha op s)) = None"
    using Cons.prems ids by (intro Cons.IH [of "op_creates op \<union> used"]) (auto simp: op_creates_def)
  then show ?case by (simp add: pairing_run_def)
qed (simp add: pairing_run_def)

lemma result_not_found:
  "lookup_pairing i s = None \<Longrightarrow> fst (pairing_result_of sha i claimToken now s) =
     Inl (NotFound ''This QR code has expired. Show a new one.'')"
  by (simp add: pairing_result_of_def ps_withToken_def ps_get_def lookup_pairing_def)

text \<open>C29. The keys and the session of a pairing are collected once, by who holds its claim token,
  before it expires; the session collected is one issued to the claimed device for the account
  that showed the QR code; and every later attempt, with any token, is told the code has expired.\<close>

theorem pairing_collected_once:
  assumes "distinct (created_ids (pre @ post))"
    and "pairing_result_of sha i claimToken now (pairing_run sha pre empty_pairing_state) =
      (Inr (Collected token expires grant), s')"
  shows "(\<exists>r. lookup_pairing i (pairing_run sha pre empty_pairing_state) = Some r \<and>
      sha claimToken = pr_claimHash r \<and> now < pr_expiresAt r \<and> session_for sha r token (ps_sessions s')) \<and>
    fst (pairing_result_of sha i again later (pairing_run sha post s')) =
      Inl (NotFound ''This QR code has expired. Show a new one.'')"
proof -
  let ?s = "pairing_run sha pre empty_pairing_state" and ?used = "set (created_ids pre)"
  have ids: "distinct (created_ids pre)" "distinct (created_ids post)"
      "set (created_ids pre) \<inter> set (created_ids post) = {}"
    using assms(1) by (auto simp: created_ids_append)
  have inv: "pairing_inv sha ?used ?s"
    using pairing_run_inv [OF pairing_inv_empty ids(1), of sha] by simp
  show ?thesis
  proof (rule ps_withToken_cases [OF inv, of i claimToken now])
    fix e s assume "ps_withToken sha i claimToken now ?s = (Inl e, s)"
    then show ?thesis using assms(2) by (simp add: pairing_result_of_def)
  next
    fix r assume r: "ps_withToken sha i claimToken now ?s = (Inr r, ?s)" "lookup_pairing i ?s = Some r"
      "sha claimToken = pr_claimHash r" "now < pr_expiresAt r"
    then have c: "pr_status r = Approved" "pr_sessionToken r = Some token" "s' = ps_delete i ?s"
      using assms(2) by (auto simp: pairing_result_of_def split: pairing_status.splits option.splits)
    have "i \<in> ?used" "session_for sha r token (ps_sessions ?s)"
      using pairing_invD(2) [OF inv r(2)] c(1,2) by (auto simp: pairing_ok_def)
    moreover have "lookup_pairing i (pairing_run sha post s') = None"
      using inv_delete [OF inv] ids \<open>i \<in> ?used\<close> c(3)
      by (intro pairing_run_gone [of sha ?used]) auto
    ultimately show ?thesis using r(2-4) c(3) result_not_found by simp
  qed
qed

section \<open>Concrete runs\<close>

definition demo_grant :: pairing_grant where
  "demo_grant = \<lparr>pg_ephemeralPublicKey = ''k'', pg_nonce = ''n'', pg_ct = ''c''\<rparr>"

definition demo_pairing :: "pairing_op list" where
  "demo_pairing = [Create ''u'' ''claim'' 0 ''p'', Claim ''p'' ''claim'' demo_device ''key'' 1,
     ApproveBegin ''u'' ''p'' demo_grant 2 ''s1'' ''t1'', ApproveEnd]"

theorem pairing_collected_once_witness:
  "\<exists>s'. pairing_result_of (\<lambda>t. t) ''p'' ''claim'' 3 (pairing_run (\<lambda>t. t) demo_pairing empty_pairing_state) =
      (Inr (Collected ''t1'' (2 + SESSION_ABSOLUTE_TTL_MS) demo_grant), s') \<and>
    fst (pairing_result_of (\<lambda>t. t) ''p'' ''claim'' 4 (pairing_run (\<lambda>t. t) [] s')) =
      Inl (NotFound ''This QR code has expired. Show a new one.'')"
proof -
  have "fst (pairing_result_of (\<lambda>t. t) ''p'' ''claim'' 3 (pairing_run (\<lambda>t. t) demo_pairing empty_pairing_state)) =
      Inr (Collected ''t1'' (2 + SESSION_ABSOLUTE_TTL_MS) demo_grant)"
    by code_simp
  then obtain s' where s': "pairing_result_of (\<lambda>t. t) ''p'' ''claim'' 3
      (pairing_run (\<lambda>t. t) demo_pairing empty_pairing_state) =
      (Inr (Collected ''t1'' (2 + SESSION_ABSOLUTE_TTL_MS) demo_grant), s')"
    by (metis prod.collapse)
  have "distinct (created_ids (demo_pairing @ []))" by (simp add: demo_pairing_def)
  from pairing_collected_once [OF this s', of "''claim''" 4] s' show ?thesis by blast
qed

text \<open>
  A refusal that arrives while an approval waits for the database is answered well and then
  overwritten: the phone still collects the keys and a session.
\<close>

definition demo_overtaken :: pairing_state where
  "demo_overtaken = pairing_run (\<lambda>t. t)
     [Create ''u'' ''claim'' 0 ''p'', Claim ''p'' ''claim'' demo_device ''key'' 1,
      ApproveBegin ''u'' ''p'' demo_grant 2 ''s1'' ''t1''] empty_pairing_state"

theorem refusal_overwritten:
  "fst (pairing_deny ''u'' ''p'' 3 demo_overtaken) = Inr ()"
  "fst (pairing_result_of (\<lambda>t. t) ''p'' ''claim'' 4
     (pairing_run (\<lambda>t. t) [Deny ''u'' ''p'' 3, ApproveEnd] demo_overtaken)) =
   Inr (Collected ''t1'' (2 + SESSION_ABSOLUTE_TTL_MS) demo_grant)"
  by code_simp+

end
