(* ===== verification/TeamDb.thy ===== *)
theory TeamDb
  imports Schema "HOL-Library.Product_Lexorder"
begin

text \<open>
  The tables behind projects and team access (\<^verbatim>\<open>apps/api/src/db/schema.ts\<close>): projects, their
  entries, values and key grants, organizations with their members, groups and agents, the access
  rows of environments, the activity log and access tokens. The state of every theory about
  teams is one \<open>team_db\<close>. Foreign keys that cascade are the \<open>delete\<close> functions below; keys the
  code has read in the same step are not checked again.
\<close>

section \<open>Levels and principals\<close>

datatype principal_type = AccountP | GroupP | AgentP

datatype access_level = Manage | Edit | Use | NeedsApproval | NoAccess

datatype org_role = OwnerR | AdminR | MemberR

text \<open>\<^verbatim>\<open>RANK\<close> of \<^verbatim>\<open>packages/shared/src/access.ts\<close>\<close>

fun level_rank :: "access_level \<Rightarrow> nat" where
  "level_rank NoAccess = 0"
| "level_rank NeedsApproval = 1"
| "level_rank Use = 2"
| "level_rank Edit = 3"
| "level_rank Manage = 4"

lemma level_rank_inject [simp]: "level_rank a = level_rank b \<longleftrightarrow> a = b"
  by (cases a; cases b) simp_all

instantiation access_level :: linorder
begin

definition less_eq_access_level :: "access_level \<Rightarrow> access_level \<Rightarrow> bool" where
  "a \<le> b \<longleftrightarrow> level_rank a \<le> level_rank b"

definition less_access_level :: "access_level \<Rightarrow> access_level \<Rightarrow> bool" where
  "a < b \<longleftrightarrow> level_rank a < level_rank b"

instance
  by standard (auto simp: less_eq_access_level_def less_access_level_def)

end

definition levelAtLeast :: "access_level \<Rightarrow> access_level \<Rightarrow> bool" where
  "levelAtLeast level required \<longleftrightarrow> level_rank required \<le> level_rank level"

definition strongerLevel :: "access_level \<Rightarrow> access_level \<Rightarrow> access_level" where
  "strongerLevel a b = (if level_rank b \<le> level_rank a then a else b)"

definition holdsKey :: "access_level \<Rightarrow> bool" where
  "holdsKey level \<longleftrightarrow> levelAtLeast level Use"

lemma levelAtLeast_le: "levelAtLeast level required \<longleftrightarrow> required \<le> level"
  by (simp add: levelAtLeast_def less_eq_access_level_def)

lemma strongerLevel_max: "strongerLevel a b = max a b"
  by (auto simp: strongerLevel_def max_def less_eq_access_level_def)

lemma NoAccess_le [simp]: "NoAccess \<le> level"
  by (simp add: less_eq_access_level_def)

lemma levelAtLeast_simps [simp]:
  "levelAtLeast level NoAccess" "levelAtLeast Manage level"
  "levelAtLeast level Manage \<longleftrightarrow> level = Manage"
  by (cases level; simp add: levelAtLeast_def)+

lemma holdsKey_simps [simp]:
  "holdsKey Manage" "holdsKey Edit" "holdsKey Use" "\<not> holdsKey NeedsApproval" "\<not> holdsKey NoAccess"
  by (simp_all add: holdsKey_def levelAtLeast_def)

section \<open>Rows\<close>

record account_row =
  ac_id :: id
  ac_email :: string

record project_row =
  pj_id :: id
  pj_ownerId :: id
  pj_encryptedMeta :: blob
  pj_revision :: nat
  pj_seq :: nat
  pj_createdAt :: time
  pj_updatedAt :: time

text \<open>\<^verbatim>\<open>MemberWrapBox\<close>\<close>

record wrap_box =
  bx_recipientPublicKey :: string
  bx_wrapperPublicKey :: string
  bx_ephemeralPublicKey :: string
  bx_keyVersion :: "nat option"
  bx_wrappedBy :: id

record key_grant =
  kg_projectId :: id
  kg_resourceId :: id
  kg_accountId :: id
  kg_wrappedKey :: blob
  kg_box :: "wrap_box option"

datatype entry_type = EnvironmentE | FolderE | SecretE

record entry_row =
  pe_projectId :: id
  pe_id :: id
  pe_type :: entry_type
  pe_revision :: nat
  pe_seq :: nat
  pe_deleted :: bool
  pe_encryptedMeta :: "blob option"
  pe_updatedAt :: time

record value_row =
  vl_projectId :: id
  vl_secretId :: id
  vl_environmentId :: id
  vl_encryptedValue :: blob
  vl_updatedAt :: time

record secret_version_row =
  ve_projectId :: id
  ve_secretId :: id
  ve_revision :: nat
  ve_encryptedMeta :: blob
  ve_values :: "(id \<times> blob) list"
  ve_savedAt :: time

record org_row =
  or_id :: id
  or_name :: string
  or_createdBy :: id

record member_row =
  om_orgId :: id
  om_accountId :: id
  om_role :: org_role
  om_publicKey :: "string option"

record group_row =
  gp_id :: id
  gp_orgId :: id
  gp_name :: string

record group_member_row =
  gm_groupId :: id
  gm_accountId :: id

record agent_row =
  ag_id :: id
  ag_orgId :: id
  ag_ownerId :: id
  ag_name :: string
  ag_publicKey :: string
  ag_createdAt :: time

record project_org_row =
  po_projectId :: id
  po_orgId :: id
  po_linkedBy :: id

record env_access_row =
  ea_environmentId :: id
  ea_projectId :: id
  ea_orgId :: id
  ea_keyVersion :: nat
  ea_rotationRequiredAt :: "time option"
  ea_createdAt :: time

text \<open>\<^verbatim>\<open>GrantFacts\<close>, and the row of \<^verbatim>\<open>environment_grants\<close> that has its fields and more.\<close>

record grant_facts =
  gf_principalType :: principal_type
  gf_principalId :: id
  gf_level :: access_level
  gf_expiresAt :: "time option"

record env_grant = grant_facts +
  eg_environmentId :: id
  eg_grantedBy :: id
  eg_createdAt :: time

datatype request_status = Pending | ApprovedRequest | DeniedRequest

record stored_release =
  rl_approverPublicKey :: string
  rl_ephemeralPublicKey :: string
  rl_blob :: blob

record request_row =
  rq_id :: id
  rq_environmentId :: id
  rq_requesterType :: principal_type
  rq_requesterId :: id
  rq_requesterPublicKey :: string
  rq_items :: "id list"
  rq_reason :: string
  rq_status :: request_status
  rq_expiresAt :: time
  rq_decidedBy :: "id option"
  rq_decidedAt :: "time option"
  rq_release :: "stored_release option"
  rq_releaseExpiresAt :: "time option"
  rq_createdAt :: time

text \<open>What an event says beside its ids (\<^verbatim>\<open>ActivityDetail\<close>).\<close>

datatype activity_detail =
    NoDetail
  | PrincipalDetail principal_type id "string option" "access_level option" "nat option"
  | ItemsDetail nat
  | RotationDetail nat nat
  | TokenDetail string "string option"

record activity_row =
  ae_seq :: nat
  ae_projectId :: id
  ae_at :: time
  ae_action :: string
  ae_actorType :: principal_type
  ae_actorId :: id
  ae_environmentId :: "id option"
  ae_targetId :: "id option"
  ae_detail :: activity_detail

record token_environment =
  te_environmentId :: id
  te_keyVersion :: nat
  te_encryptedKey :: blob

record token_row =
  tk_id :: id
  tk_projectId :: id
  tk_createdBy :: id
  tk_name :: string
  tk_verifier :: string
  tk_encryptedProjectKey :: blob
  tk_environments :: "token_environment list"
  tk_expiresAt :: time
  tk_lastUsedAt :: "time option"
  tk_createdAt :: time

section \<open>The database\<close>

record team_db =
  tb_accounts :: "account_row list"
  tb_projects :: "project_row list"
  tb_keyGrants :: "key_grant list"
  tb_entries :: "entry_row list"
  tb_values :: "value_row list"
  tb_versions :: "secret_version_row list"
  tb_orgs :: "org_row list"
  tb_members :: "member_row list"
  tb_groups :: "group_row list"
  tb_groupMembers :: "group_member_row list"
  tb_agents :: "agent_row list"
  tb_projectOrgs :: "project_org_row list"
  tb_envAccess :: "env_access_row list"
  tb_envGrants :: "env_grant list"
  tb_requests :: "request_row list"
  tb_activity :: "activity_row list"
  tb_nextSeq :: nat
  tb_tokens :: "token_row list"
  tb_invites :: "(string \<times> string \<times> string) list"

type_synonym 'a team_outcome = "(http_error, 'a, team_db) outcome"

text \<open>Primary keys.\<close>

definition kg_key :: "key_grant \<Rightarrow> id \<times> id \<times> id" where
  "kg_key g = (kg_projectId g, kg_resourceId g, kg_accountId g)"

definition pe_key :: "entry_row \<Rightarrow> id \<times> id" where
  "pe_key e = (pe_projectId e, pe_id e)"

definition vl_key :: "value_row \<Rightarrow> id \<times> id \<times> id" where
  "vl_key v = (vl_projectId v, vl_secretId v, vl_environmentId v)"

definition eg_key :: "env_grant \<Rightarrow> id \<times> principal_type \<times> id" where
  "eg_key g = (eg_environmentId g, gf_principalType g, gf_principalId g)"

definition om_key :: "member_row \<Rightarrow> id \<times> id" where
  "om_key m = (om_orgId m, om_accountId m)"

definition gm_key :: "group_member_row \<Rightarrow> id \<times> id" where
  "gm_key m = (gm_groupId m, gm_accountId m)"

definition ve_key :: "secret_version_row \<Rightarrow> id \<times> id \<times> nat" where
  "ve_key v = (ve_projectId v, ve_secretId v, ve_revision v)"

text \<open>Deleting an access row takes its grants and requests along; a group, its memberships; a
  project, everything of it.\<close>

definition delete_env_access :: "(env_access_row \<Rightarrow> bool) \<Rightarrow> team_db \<Rightarrow> team_db" where
  "delete_env_access p db =
     (let gone = map ea_environmentId (filter p (tb_envAccess db))
      in db\<lparr>tb_envAccess := delete_where p (tb_envAccess db),
            tb_envGrants := delete_where (\<lambda>g. eg_environmentId g \<in> set gone) (tb_envGrants db),
            tb_requests := delete_where (\<lambda>r. rq_environmentId r \<in> set gone) (tb_requests db)\<rparr>)"

definition delete_group :: "id \<Rightarrow> team_db \<Rightarrow> team_db" where
  "delete_group i db = db\<lparr>tb_groups := delete_where (\<lambda>g. gp_id g = i) (tb_groups db),
     tb_groupMembers := delete_where (\<lambda>m. gm_groupId m = i) (tb_groupMembers db)\<rparr>"

definition delete_project :: "id \<Rightarrow> team_db \<Rightarrow> team_db" where
  "delete_project i db = (let db = delete_env_access (\<lambda>e. ea_projectId e = i) db
     in db\<lparr>tb_projects := delete_where (\<lambda>p. pj_id p = i) (tb_projects db),
           tb_keyGrants := delete_where (\<lambda>g. kg_projectId g = i) (tb_keyGrants db),
           tb_entries := delete_where (\<lambda>e. pe_projectId e = i) (tb_entries db),
           tb_values := delete_where (\<lambda>v. vl_projectId v = i) (tb_values db),
           tb_versions := delete_where (\<lambda>v. ve_projectId v = i) (tb_versions db),
           tb_projectOrgs := delete_where (\<lambda>l. po_projectId l = i) (tb_projectOrgs db),
           tb_activity := delete_where (\<lambda>a. ae_projectId a = i) (tb_activity db),
           tb_tokens := delete_where (\<lambda>t. tk_projectId t = i) (tb_tokens db)\<rparr>)"


definition empty_db :: team_db where
  "empty_db = \<lparr>tb_accounts = [], tb_projects = [], tb_keyGrants = [], tb_entries = [], tb_values = [], tb_versions = [],
     tb_orgs = [], tb_members = [], tb_groups = [], tb_groupMembers = [], tb_agents = [], tb_projectOrgs = [],
     tb_envAccess = [], tb_envGrants = [], tb_requests = [], tb_activity = [], tb_nextSeq = 1, tb_tokens = [],
     tb_invites = []\<rparr>"

end
