(* ===== verification/Levels.thy ===== *)
theory Levels
  imports TeamDb
begin

text \<open>
  Who may do what in one environment: \<^verbatim>\<open>apps/api/src/access/levels.ts\<close>. Sets are lists
  in the order JavaScript iterates them; the map of levels is an association list from
  \<^verbatim>\<open>holderKey\<close>s.
\<close>

record org_facts =
  of_projectOwnerId :: "id option"
  of_activeMembers :: "id list"
  of_groupsOf :: "(id \<times> id list) list"
  of_agents :: "id list"

record key_holder =
  kh_type :: principal_type
  kh_id :: id

fun type_name :: "principal_type \<Rightarrow> string" where
  "type_name AccountP = ''account''"
| "type_name GroupP = ''group''"
| "type_name AgentP = ''agent''"

definition holderKey :: "principal_type \<Rightarrow> id \<Rightarrow> string" where
  "holderKey t i = type_name t @ '':'' @ i"

lemma holderKey_inject [simp]: "holderKey t i = holderKey u j \<longleftrightarrow> t = u \<and> i = j"
  by (cases t; cases u) (auto simp: holderKey_def)

definition live_grant :: "time \<Rightarrow> 'a grant_facts_scheme \<Rightarrow> bool" where
  "live_grant now g \<longleftrightarrow> (case gf_expiresAt g of None \<Rightarrow> True | Some t \<Rightarrow> now < t)"

definition groups_of :: "org_facts \<Rightarrow> id \<Rightarrow> id list" where
  "groups_of org i = (case map_of (of_groupsOf org) i of None \<Rightarrow> [] | Some gs \<Rightarrow> gs)"

definition effectiveLevel :: "key_holder \<Rightarrow> 'a grant_facts_scheme list \<Rightarrow> org_facts \<Rightarrow> time \<Rightarrow> access_level" where
  "effectiveLevel h grants org now =
     (if kh_type h = AccountP \<and> Some (kh_id h) = of_projectOwnerId org then Manage
      else if kh_type h = AccountP \<and> kh_id h \<notin> set (of_activeMembers org) then NoAccess
      else if kh_type h = AgentP \<and> kh_id h \<notin> set (of_agents org) then NoAccess
      else
        let active = filter (live_grant now) grants;
            direct = find (\<lambda>g. gf_principalType g = kh_type h \<and> gf_principalId g = kh_id h) active
        in if kh_type h = AgentP
           then (case direct of
               None \<Rightarrow> NoAccess
             | Some g \<Rightarrow> if gf_level g \<noteq> NoAccess then NeedsApproval else NoAccess)
           else (case direct of
               Some g \<Rightarrow> gf_level g
             | None \<Rightarrow> fold (\<lambda>g best. strongerLevel best (gf_level g))
                 (filter (\<lambda>g. gf_principalType g = GroupP \<and> gf_principalId g \<in> set (groups_of org (kh_id h))) active)
                 NoAccess))"

text \<open>\<open>new Set(members)\<close>, with the owner added last unless he is in it.\<close>

definition level_accounts :: "org_facts \<Rightarrow> id list" where
  "level_accounts org = (case of_projectOwnerId org of
     None \<Rightarrow> of_activeMembers org
   | Some i \<Rightarrow> if i \<in> set (of_activeMembers org) then of_activeMembers org else of_activeMembers org @ [i])"

definition allLevels :: "'a grant_facts_scheme list \<Rightarrow> org_facts \<Rightarrow> time \<Rightarrow> (string \<times> access_level) list" where
  "allLevels grants org now =
     fold (\<lambda>i. AList.update (holderKey AgentP i) (effectiveLevel \<lparr>kh_type = AgentP, kh_id = i\<rparr> grants org now))
       (of_agents org)
       (fold (\<lambda>i. AList.update (holderKey AccountP i) (effectiveLevel \<lparr>kh_type = AccountP, kh_id = i\<rparr> grants org now))
         (level_accounts org) [])"

definition level_in :: "(string \<times> access_level) list \<Rightarrow> string \<Rightarrow> access_level" where
  "level_in levels key = (case map_of levels key of None \<Rightarrow> NoAccess | Some l \<Rightarrow> l)"

section \<open>What a level is\<close>

lemma fold_stronger:
  "fold (\<lambda>g best. strongerLevel best (gf_level g)) gs l = Max (insert l (gf_level ` set gs))"
proof (induction gs arbitrary: l)
  case (Cons g gs)
  have "Max (insert (max l (gf_level g)) (gf_level ` set gs)) = Max (insert l (insert (gf_level g) (gf_level ` set gs)))"
    by (cases "gs = []") (simp_all add: max.assoc)
  with Cons show ?case by (simp add: strongerLevel_max)
qed simp

lemma map_of_fold_update:
  "inj f \<Longrightarrow> map_of (fold (\<lambda>i. AList.update (f i) (v i)) is m) k =
     (if k \<in> f ` set is then Some (v (inv f k)) else map_of m k)"
proof (induction "is" arbitrary: m)
  case (Cons i "is")
  then show ?case by (auto simp: update_conv' inv_f_f)
qed simp

lemma inj_holderKey: "inj (holderKey t)"
  by (rule injI) simp

lemma map_of_allLevels:
  "map_of (allLevels grants org now) (holderKey AccountP i) =
     (if i \<in> set (level_accounts org)
      then Some (effectiveLevel \<lparr>kh_type = AccountP, kh_id = i\<rparr> grants org now) else None)"
  "map_of (allLevels grants org now) (holderKey AgentP i) =
     (if i \<in> set (of_agents org)
      then Some (effectiveLevel \<lparr>kh_type = AgentP, kh_id = i\<rparr> grants org now) else None)"
proof -
  have other: "holderKey AccountP i \<notin> holderKey AgentP ` A" "holderKey AgentP i \<notin> holderKey AccountP ` A"
    "holderKey t i \<in> holderKey t ` A \<longleftrightarrow> i \<in> A" "inv (holderKey t) (holderKey t i) = i" for A t
    using inv_f_f [OF inj_holderKey] by auto
  show "map_of (allLevels grants org now) (holderKey AccountP i) =
     (if i \<in> set (level_accounts org)
      then Some (effectiveLevel \<lparr>kh_type = AccountP, kh_id = i\<rparr> grants org now) else None)"
    "map_of (allLevels grants org now) (holderKey AgentP i) =
     (if i \<in> set (of_agents org)
      then Some (effectiveLevel \<lparr>kh_type = AgentP, kh_id = i\<rparr> grants org now) else None)"
    by (simp_all add: allLevels_def map_of_fold_update [OF inj_holderKey] other)
qed

lemma level_accounts_set: "set (level_accounts org) = set (of_activeMembers org) \<union> set_option (of_projectOwnerId org)"
  by (auto simp: level_accounts_def split: option.splits)

lemma effectiveLevel_outsider:
  "i \<notin> set (level_accounts org) \<Longrightarrow> effectiveLevel \<lparr>kh_type = AccountP, kh_id = i\<rparr> grants org now = NoAccess"
  by (auto simp: effectiveLevel_def level_accounts_set)

text \<open>The matrix and the single lookup agree.\<close>

lemma level_in_allLevels [simp]:
  "level_in (allLevels grants org now) (holderKey AccountP i) = effectiveLevel \<lparr>kh_type = AccountP, kh_id = i\<rparr> grants org now"
  by (simp add: level_in_def map_of_allLevels effectiveLevel_outsider)

lemma distinct_fold_update:
  "distinct (map fst m) \<Longrightarrow> distinct (map fst (fold (\<lambda>i. AList.update (f i) (v i)) is m))"
  by (induction "is" arbitrary: m) (simp_all add: distinct_update)

lemma distinct_allLevels: "distinct (map fst (allLevels grants org now))"
  unfolding allLevels_def by (intro distinct_fold_update) simp

lemma agent_level: "effectiveLevel \<lparr>kh_type = AgentP, kh_id = i\<rparr> grants org now \<le> NeedsApproval"
  by (auto simp: effectiveLevel_def Let_def less_eq_access_level_def split: option.splits)

section \<open>Entries of the matrix\<close>

lemma keys_fold_update:
  "fst ` set (fold (\<lambda>i. AList.update (f i) (v i)) is m) = fst ` set m \<union> f ` set is"
  by (induction "is" arbitrary: m) (auto simp: dom_update)

lemma keys_allLevels:
  "fst ` set (allLevels grants org now) = holderKey AccountP ` set (level_accounts org) \<union> holderKey AgentP ` set (of_agents org)"
  by (simp add: allLevels_def keys_fold_update)

lemma allLevels_mem:
  "(key, level) \<in> set (allLevels grants org now) \<longleftrightarrow> map_of (allLevels grants org now) key = Some level"
  using map_of_eq_Some_iff [OF distinct_allLevels, of grants org now key level] by simp

text \<open>\<^verbatim>\<open>key.startsWith('account:')\<close> and \<^verbatim>\<open>key.slice('account:'.length)\<close>\<close>

definition is_account_key :: "string \<Rightarrow> bool" where
  "is_account_key key \<longleftrightarrow> take 8 key = ''account:''"

definition account_of_key :: "string \<Rightarrow> id" where
  "account_of_key key = drop 8 key"

lemma account_key_simps [simp]:
  "is_account_key (holderKey AccountP i)" "\<not> is_account_key (holderKey AgentP i)"
  "account_of_key (holderKey AccountP i) = i"
  by (simp_all add: is_account_key_def account_of_key_def holderKey_def take_Cons')

lemma account_entries:
  assumes "\<not> Q NoAccess"
  shows "account_of_key ` fst ` set (filter (\<lambda>(key, level). is_account_key key \<and> Q level) (allLevels grants org now)) =
    {i. Q (effectiveLevel \<lparr>kh_type = AccountP, kh_id = i\<rparr> grants org now)}"
proof -
  let ?level = "\<lambda>i. effectiveLevel \<lparr>kh_type = AccountP, kh_id = i\<rparr> grants org now"
  have "i \<in> account_of_key ` fst ` set (filter (\<lambda>(key, level). is_account_key key \<and> Q level) (allLevels grants org now)) \<longleftrightarrow>
      Q (?level i)" for i
  proof
    assume "i \<in> account_of_key ` fst ` set (filter (\<lambda>(key, level). is_account_key key \<and> Q level) (allLevels grants org now))"
    then obtain key level where e: "(key, level) \<in> set (allLevels grants org now)" "is_account_key key" "Q level"
      "i = account_of_key key" by auto
    then have "key \<in> fst ` set (allLevels grants org now)" by force
    with e(2) obtain j where j: "key = holderKey AccountP j" unfolding keys_allLevels by auto
    with e(1) have "level = ?level j" by (auto simp: allLevels_mem map_of_allLevels split: if_splits)
    with e(3,4) j show "Q (?level i)" by simp
  next
    assume q: "Q (?level i)"
    with assms have "?level i \<noteq> NoAccess" by metis
    then have "i \<in> set (level_accounts org)" using effectiveLevel_outsider by blast
    then have "(holderKey AccountP i, ?level i) \<in> set (allLevels grants org now)"
      by (simp add: allLevels_mem map_of_allLevels)
    with q have "(holderKey AccountP i, ?level i) \<in> set (filter (\<lambda>(key, level). is_account_key key \<and> Q level) (allLevels grants org now))"
      by simp
    then show "i \<in> account_of_key ` fst ` set (filter (\<lambda>(key, level). is_account_key key \<and> Q level) (allLevels grants org now))"
      by (metis (no_types, lifting) account_key_simps(3) fst_conv image_eqI)
  qed
  then show ?thesis by blast
qed

section \<open>Properties\<close>

text \<open>An agent's level is never more than Needs approval, whatever it is granted, so an agent
  never has standing access to a key.\<close>

theorem agents_hold_no_keys:
  "effectiveLevel \<lparr>kh_type = AgentP, kh_id = i\<rparr> grants org now \<in> {NoAccess, NeedsApproval} \<and>
     \<not> holdsKey (effectiveLevel \<lparr>kh_type = AgentP, kh_id = i\<rparr> grants org now)"
  by (auto simp: effectiveLevel_def Let_def split: option.splits)

text \<open>A member who does not own the project has the level of an unexpired grant of their own
  when there is one, even when it is weaker than what their groups give; otherwise the
  strongest level among the unexpired grants of their groups, and none without any.\<close>

theorem member_level:
  assumes "of_projectOwnerId org \<noteq> Some i" and "i \<in> set (of_activeMembers org)"
  shows "effectiveLevel \<lparr>kh_type = AccountP, kh_id = i\<rparr> grants org now =
    (case find (\<lambda>g. live_grant now g \<and> gf_principalType g = AccountP \<and> gf_principalId g = i) grants of
       Some g \<Rightarrow> gf_level g
     | None \<Rightarrow> Max (insert NoAccess {gf_level g |g. g \<in> set grants \<and> live_grant now g \<and>
         gf_principalType g = GroupP \<and> gf_principalId g \<in> set (groups_of org i)}))"
proof -
  let ?mine = "\<lambda>g. gf_principalType g = AccountP \<and> gf_principalId g = i"
  let ?theirs = "\<lambda>g. gf_principalType g = GroupP \<and> gf_principalId g \<in> set (groups_of org i)"
  have "find ?mine (filter (live_grant now) grants) = find (\<lambda>g. live_grant now g \<and> ?mine g) grants"
    by (induction grants) auto
  moreover have "gf_level ` set (filter ?theirs (filter (live_grant now) grants)) =
      {gf_level g |g. g \<in> set grants \<and> live_grant now g \<and> gf_principalType g = GroupP \<and>
        gf_principalId g \<in> set (groups_of org i)}" by auto
  ultimately show ?thesis
    using assms unfolding effectiveLevel_def Let_def fold_stronger by (auto split: option.split)
qed

definition demo_grant :: "principal_type \<Rightarrow> id \<Rightarrow> access_level \<Rightarrow> time option \<Rightarrow> grant_facts" where
  "demo_grant t i l e = \<lparr>gf_principalType = t, gf_principalId = i, gf_level = l, gf_expiresAt = e\<rparr>"

definition demo_org :: org_facts where
  "demo_org = \<lparr>of_projectOwnerId = Some ''olga'', of_activeMembers = [''ann'', ''bob''],
     of_groupsOf = [(''ann'', [''g1'', ''g2'']), (''bob'', [''g1''])], of_agents = []\<rparr>"

definition demo_grants :: "grant_facts list" where
  "demo_grants = [demo_grant GroupP ''g1'' Use None, demo_grant GroupP ''g2'' Edit None,
     demo_grant AccountP ''bob'' NoAccess None, demo_grant AccountP ''ann'' NoAccess (Some 5)]"

theorem member_level_witness:
  "effectiveLevel \<lparr>kh_type = AccountP, kh_id = ''bob''\<rparr> demo_grants demo_org 7 = NoAccess \<and>
   effectiveLevel \<lparr>kh_type = AccountP, kh_id = ''ann''\<rparr> demo_grants demo_org 7 = Edit"
proof
  have bob: "of_projectOwnerId demo_org \<noteq> Some ''bob''" "''bob'' \<in> set (of_activeMembers demo_org)"
    by (simp_all add: demo_org_def)
  show "effectiveLevel \<lparr>kh_type = AccountP, kh_id = ''bob''\<rparr> demo_grants demo_org 7 = NoAccess"
    unfolding member_level [OF bob] by (simp add: demo_grants_def demo_grant_def live_grant_def)
  have ann: "of_projectOwnerId demo_org \<noteq> Some ''ann''" "''ann'' \<in> set (of_activeMembers demo_org)"
    by (simp_all add: demo_org_def)
  have "{gf_level g |g. g \<in> set demo_grants \<and> live_grant 7 g \<and> gf_principalType g = GroupP \<and>
      gf_principalId g \<in> set (groups_of demo_org ''ann'')} =
      gf_level ` set (filter (\<lambda>g. live_grant 7 g \<and> gf_principalType g = GroupP \<and>
        gf_principalId g \<in> set (groups_of demo_org ''ann'')) demo_grants)"
    by auto
  also have "\<dots> = {Use, Edit}"
    by (simp add: demo_grants_def demo_grant_def live_grant_def demo_org_def groups_of_def)
  finally show "effectiveLevel \<lparr>kh_type = AccountP, kh_id = ''ann''\<rparr> demo_grants demo_org 7 = Edit"
    unfolding member_level [OF ann] by (simp add: demo_grants_def demo_grant_def live_grant_def max_def less_eq_access_level_def)
qed

end
