(* ===== verification/Activity.thy ===== *)
theory Activity
  imports TeamDb "HOL-Library.Multiset"
begin

text \<open>
  The team activity log: \<^verbatim>\<open>apps/api/src/activity/activity.log.ts\<close>. \<^verbatim>\<open>bigserial\<close> numbers come
  from \<open>tb_nextSeq\<close>.
\<close>

record activity_record =
  ar_projectId :: id
  ar_action :: string
  ar_actorType :: principal_type
  ar_actorId :: id
  ar_environmentId :: "id option"
  ar_targetId :: "id option"
  ar_detail :: activity_detail

definition ACTIVITY_RETENTION_DAYS :: int where "ACTIVITY_RETENTION_DAYS = 365"

definition activityCutoff :: "time \<Rightarrow> time" where
  "activityCutoff now = now - ACTIVITY_RETENTION_DAYS * DAY_MS"

definition activity_row_of :: "time \<Rightarrow> nat \<Rightarrow> activity_record \<Rightarrow> activity_row" where
  "activity_row_of now n e = \<lparr>ae_seq = n, ae_projectId = ar_projectId e, ae_at = now, ae_action = ar_action e,
     ae_actorType = ar_actorType e, ae_actorId = ar_actorId e, ae_environmentId = ar_environmentId e,
     ae_targetId = ar_targetId e, ae_detail = ar_detail e\<rparr>"

text \<open>One insert of all events; when a project is gone the insert fails and only a warning is logged.\<close>

definition record_activity :: "time \<Rightarrow> activity_record list \<Rightarrow> team_db \<Rightarrow> team_db" where
  "record_activity now events db =
     (if \<forall>e \<in> set events. ar_projectId e \<in> pj_id ` set (tb_projects db)
      then db\<lparr>tb_activity := tb_activity db @ map (\<lambda>(n, e). activity_row_of now (tb_nextSeq db + n) e) (enumerate 0 events),
              tb_nextSeq := tb_nextSeq db + length events\<rparr>
      else db)"

record activity_event =
  av_seq :: nat
  av_at :: time
  av_action :: string
  av_actorType :: principal_type
  av_actorId :: id
  av_actorName :: "string option"
  av_environmentId :: "id option"
  av_targetId :: "id option"
  av_detail :: activity_detail

definition actor_name :: "team_db \<Rightarrow> principal_type \<Rightarrow> id \<Rightarrow> string option" where
  "actor_name db t i = (case t of
     AccountP \<Rightarrow> map_option ac_email (find (\<lambda>a. ac_id a = i) (tb_accounts db))
   | AgentP \<Rightarrow> map_option ag_name (find (\<lambda>a. ag_id a = i) (tb_agents db))
   | GroupP \<Rightarrow> None)"

definition to_event :: "team_db \<Rightarrow> activity_row \<Rightarrow> activity_event" where
  "to_event db r = \<lparr>av_seq = ae_seq r, av_at = ae_at r, av_action = ae_action r, av_actorType = ae_actorType r,
     av_actorId = ae_actorId r, av_actorName = actor_name db (ae_actorType r) (ae_actorId r),
     av_environmentId = ae_environmentId r, av_targetId = ae_targetId r, av_detail = ae_detail r\<rparr>"

definition activity_rows :: "id \<Rightarrow> nat option \<Rightarrow> id option \<Rightarrow> team_db \<Rightarrow> activity_row list" where
  "activity_rows p before target db = sort_key (\<lambda>r. - int (ae_seq r)) (filter (\<lambda>r. ae_projectId r = p \<and>
     (case before of None \<Rightarrow> True | Some n \<Rightarrow> ae_seq r < n) \<and>
     (case target of None \<Rightarrow> True | Some i \<Rightarrow> ae_targetId r = Some i)) (tb_activity db))"

definition activity_page :: "id \<Rightarrow> nat option \<Rightarrow> id option \<Rightarrow> nat \<Rightarrow> team_db \<Rightarrow> activity_event list \<times> bool" where
  "activity_page p before target limit db =
     (let rows = take (limit + 1) (activity_rows p before target db)
      in (map (to_event db) (take limit rows), limit < length rows))"

definition activity_sweep :: "time \<Rightarrow> team_db \<Rightarrow> team_db" where
  "activity_sweep now db = db\<lparr>tb_activity := delete_where (\<lambda>r. ae_at r < activityCutoff now) (tb_activity db)\<rparr>"

section \<open>The log's numbers\<close>

definition activity_ok :: "team_db \<Rightarrow> bool" where
  "activity_ok db \<longleftrightarrow> sorted_wrt (<) (map ae_seq (tb_activity db)) \<and> (\<forall>r \<in> set (tb_activity db). ae_seq r < tb_nextSeq db)"

lemma seq_of_enumerate: "map ae_seq (map (\<lambda>(n, e). activity_row_of now (k + n) e) (enumerate m es)) = map ((+) k) [m..<m + length es]"
proof -
  have "map ae_seq (map (\<lambda>(n, e). activity_row_of now (k + n) e) (enumerate m es)) = map (\<lambda>x. k + fst x) (enumerate m es)"
    by (simp add: activity_row_of_def split_def o_def)
  also have "\<dots> = map ((+) k) (map fst (enumerate m es))" by (simp only: map_map o_def)
  finally show ?thesis by (simp only: map_fst_enumerate)
qed

lemma activity_ok_record:
  assumes "activity_ok db"
  shows "activity_ok (record_activity now events db)"
proof -
  let ?new = "map (\<lambda>(n, e). activity_row_of now (tb_nextSeq db + n) e) (enumerate 0 events)"
  have seqs: "map ae_seq ?new = map ((+) (tb_nextSeq db)) [0..<length events]"
    using seq_of_enumerate [of now "tb_nextSeq db" 0 events] by simp
  have "sorted_wrt (<) (map ae_seq ?new)"
    unfolding seqs by (simp add: sorted_wrt_map)
  moreover have bound: "tb_nextSeq db \<le> ae_seq r \<and> ae_seq r < tb_nextSeq db + length events" if "r \<in> set ?new" for r
  proof -
    have "ae_seq r \<in> set (map ae_seq ?new)" using that by (metis image_eqI set_map)
    then show ?thesis unfolding seqs by auto
  qed
  ultimately show ?thesis
    using assms by (fastforce simp: activity_ok_def record_activity_def sorted_wrt_append)
qed

lemma activity_ok_sweep: "activity_ok db \<Longrightarrow> activity_ok (activity_sweep now db)"
  by (auto simp: activity_ok_def activity_sweep_def delete_where_def sorted_wrt_map sorted_wrt_filter)

text \<open>Rows newest first are the rows in reverse.\<close>

lemma sort_key_rev_sorted:
  assumes "sorted_wrt (<) (map f xs)"
  shows "sort_key (\<lambda>x. - int (f x)) xs = rev xs"
proof -
  have "sorted (map (\<lambda>x. - int (f x)) (rev xs))"
    using assms by (induction xs) (auto simp: sorted_append rev_map less_imp_le)
  moreover have "distinct (map (\<lambda>x. - int (f x)) xs)"
    using assms by (induction xs) (auto simp: image_iff)
  ultimately show ?thesis
    by (intro sort_key_inj_key_eq) (simp_all add: distinct_map)
qed


lemma filter_below_nth:
  assumes "sorted_wrt (<) (map f xs)" and "m < length xs"
  shows "filter (\<lambda>x. f x < (f (xs ! m) :: nat)) xs = take m xs"
proof -
  have lt: "f (xs ! i) < f (xs ! j)" if "i < j" "j < length xs" for i j
    using sorted_wrt_nth_less [OF assms(1), of i j] that by simp
  have below: "f x < f (xs ! m)" if "x \<in> set (take m xs)" for x
    using that lt assms(2) by (auto simp: in_set_conv_nth)
  have above: "\<not> f x < f (xs ! m)" if member: "x \<in> set (drop m xs)" for x
  proof -
    obtain i where i: "i < length xs - m" "x = xs ! (m + i)" using member by (auto simp: in_set_conv_nth)
    then show ?thesis using lt [of m "m + i"] by (cases "i = 0") (simp_all add: less_imp_le not_less)
  qed
  have "filter (\<lambda>x. f x < f (xs ! m)) (take m xs @ drop m xs) = take m xs @ []"
    unfolding filter_append using below above by (intro arg_cong2 [where f = "(@)"]) (auto simp: filter_empty_conv filter_id_conv)
  then show ?thesis by simp
qed

lemma activity_rows_rev:
  assumes "activity_ok db"
  shows "activity_rows p before target db = rev (filter (\<lambda>r. ae_projectId r = p \<and>
     (case before of None \<Rightarrow> True | Some n \<Rightarrow> ae_seq r < n) \<and>
     (case target of None \<Rightarrow> True | Some i \<Rightarrow> ae_targetId r = Some i)) (tb_activity db))"
  unfolding activity_rows_def
  by (rule sort_key_rev_sorted) (use assms in \<open>simp add: activity_ok_def sorted_wrt_map sorted_wrt_filter\<close>)

lemma activity_rows_after:
  assumes "activity_ok db" and "k < length (activity_rows p before target db)"
  shows "activity_rows p (Some (ae_seq (activity_rows p before target db ! k))) target db =
    drop (Suc k) (activity_rows p before target db)"
proof -
  let ?in = "\<lambda>r. ae_projectId r = p \<and> (case before of None \<Rightarrow> True | Some n \<Rightarrow> ae_seq r < n) \<and>
    (case target of None \<Rightarrow> True | Some i \<Rightarrow> ae_targetId r = Some i)"
  let ?rs = "filter ?in (tb_activity db)"
  let ?m = "length ?rs - Suc k"
  have rows: "activity_rows p before target db = rev ?rs" by (rule activity_rows_rev [OF assms(1)])
  have k: "k < length ?rs" using assms(2) rows by simp
  have c: "ae_seq (activity_rows p before target db ! k) = ae_seq (?rs ! ?m)" using k rows by (simp add: rev_nth)
  have sorted: "sorted_wrt (<) (map ae_seq ?rs)"
    using assms(1) by (simp add: activity_ok_def sorted_wrt_map sorted_wrt_filter)
  have bound: "ae_seq (?rs ! ?m) < n" if "before = Some n" for n
    using nth_mem [of ?m ?rs] k that by auto
  have "filter (\<lambda>r. ae_projectId r = p \<and> ae_seq r < ae_seq (?rs ! ?m) \<and>
      (case target of None \<Rightarrow> True | Some i \<Rightarrow> ae_targetId r = Some i)) (tb_activity db) =
      filter (\<lambda>r. ae_seq r < ae_seq (?rs ! ?m)) ?rs"
  proof -
    define n where "n = ae_seq (?rs ! ?m)"
    have "before = Some b \<Longrightarrow> n < b" for b using bound unfolding n_def by blast
    then have "(ae_projectId r = p \<and> ae_seq r < n \<and> (case target of None \<Rightarrow> True | Some i \<Rightarrow> ae_targetId r = Some i)) \<longleftrightarrow>
        ?in r \<and> ae_seq r < n" for r by (cases before) auto
    then show ?thesis unfolding n_def [symmetric] filter_filter by (intro filter_cong refl) simp
  qed
  also have "\<dots> = take ?m ?rs" by (rule filter_below_nth [OF sorted]) (use k in simp)
  finally have "activity_rows p (Some (ae_seq (activity_rows p before target db ! k))) target db = rev (take ?m ?rs)"
    unfolding activity_rows_rev [OF assms(1)] by (simp add: rev_nth k)
  also have "\<dots> = drop (Suc k) (rev ?rs)" using k by (simp add: rev_take)
  finally show ?thesis using rows by simp
qed

text \<open>A page of the log is the next events newest first, it says more follow exactly when
  they do, and asking for what is before its last event gives what the page left.\<close>

theorem activity_pages:
  assumes "activity_ok db" and "0 < limit"
    and "activity_page p before target limit db = (events, hasMore)"
  shows "events = map (to_event db) (take limit (activity_rows p before target db)) \<and>
    hasMore = (limit < length (activity_rows p before target db)) \<and>
    (hasMore \<longrightarrow> activity_rows p (Some (av_seq (last events))) target db =
       drop limit (activity_rows p before target db))"
proof -
  let ?rows = "activity_rows p before target db"
  have page: "events = map (to_event db) (take limit ?rows)" "hasMore = (limit < length ?rows)"
    using assms(3) by (auto simp: activity_page_def Let_def min_def split: if_splits)
  moreover have "activity_rows p (Some (av_seq (last events))) target db = drop limit ?rows" if hasMore
  proof -
    have "limit < length ?rows" using that page(2) by simp
    then have ne: "take limit ?rows \<noteq> []" using assms(2) by auto
    with \<open>limit < length ?rows\<close> have "last (take limit ?rows) = ?rows ! (limit - 1)"
      using assms(2) by (simp add: last_conv_nth [OF ne] min_def)
    with ne have "av_seq (last events) = ae_seq (?rows ! (limit - 1))"
      unfolding page(1) by (simp add: last_map to_event_def)
    then show ?thesis
      using activity_rows_after [OF assms(1), of "limit - 1" p before target] \<open>limit < length ?rows\<close> assms(2) by simp
  qed
  ultimately show ?thesis by blast
qed

definition demo_log :: team_db where
  "demo_log = empty_db\<lparr>tb_accounts := [\<lparr>ac_id = ''a'', ac_email = ''a@x''\<rparr>],
     tb_activity := map (\<lambda>n. activity_row_of 0 n \<lparr>ar_projectId = ''p'', ar_action = ''secret.updated'', ar_actorType = AccountP,
       ar_actorId = ''a'', ar_environmentId = None, ar_targetId = None, ar_detail = NoDetail\<rparr>) [1, 2, 3],
     tb_nextSeq := 4\<rparr>"

theorem activity_pages_witness:
  "\<exists>e1 e2. activity_page ''p'' None None 2 demo_log = ([e1, e2], True) \<and> av_seq e1 = 3 \<and> av_seq e2 = 2"
proof -
  have ok: "activity_ok demo_log" by (simp add: activity_ok_def demo_log_def activity_row_of_def)
  have rows: "map ae_seq (activity_rows ''p'' None None demo_log) = [3, 2, 1]"
    unfolding activity_rows_rev [OF ok] by (simp add: demo_log_def activity_row_of_def)
  then obtain r1 r2 r3 where r: "activity_rows ''p'' None None demo_log = [r1, r2, r3]" "ae_seq r1 = 3" "ae_seq r2 = 2"
    by (auto simp: map_eq_Cons_conv)
  show ?thesis
    using activity_pages [OF ok, of 2 "''p''" None None] r
    by (cases "activity_page ''p'' None None 2 demo_log") (auto simp: to_event_def)
qed

end
