(* ===== verification/Facts.thy ===== *)
theory Facts
  imports Levels
begin

text \<open>
  \<^verbatim>\<open>AccessFacts\<close> (\<^verbatim>\<open>apps/api/src/access/access.facts.ts\<close>): who is in an organization and
  what they may reach, and the reconciliation that takes key grants away from everyone whose
  level no longer holds the key. Reading a project's environments registers those that access
  looks at for the first time, so most reads change the state too. A handler reads the clock once.
\<close>

section \<open>Queries\<close>

record linked_project =
  lp_projectId :: id
  lp_orgId :: id
  lp_ownerId :: id

text \<open>\<^verbatim>\<open>EnvironmentRow & { ownerId }\<close>\<close>

type_synonym env = "env_access_row \<times> id"

definition ADMIN_ROLES :: "org_role list" where "ADMIN_ROLES = [OwnerR, AdminR]"

definition find_member :: "id \<Rightarrow> id \<Rightarrow> team_db \<Rightarrow> member_row option" where
  "find_member orgId accountId db = find (\<lambda>m. om_orgId m = orgId \<and> om_accountId m = accountId) (tb_members db)"

definition org_member :: "id \<Rightarrow> id \<Rightarrow> bool \<Rightarrow> team_db \<Rightarrow> member_row team_outcome" where
  "org_member orgId accountId active db = (case find_member orgId accountId db of
     None \<Rightarrow> throw (NotFound '''') db
   | Some m \<Rightarrow> if active \<and> om_publicKey m = None then throw (NotFound '''') db else ret m db)"

definition linkedProject :: "id \<Rightarrow> team_db \<Rightarrow> linked_project option" where
  "linkedProject p db = (case find (\<lambda>l. po_projectId l = p) (tb_projectOrgs db) of
     None \<Rightarrow> None
   | Some l \<Rightarrow> (case find (\<lambda>x. pj_id x = p) (tb_projects db) of
        None \<Rightarrow> None
      | Some x \<Rightarrow> Some \<lparr>lp_projectId = p, lp_orgId = po_orgId l, lp_ownerId = pj_ownerId x\<rparr>))"

definition environmentIds :: "id \<Rightarrow> team_db \<Rightarrow> id list" where
  "environmentIds p db = map pe_id (filter (\<lambda>e. pe_projectId e = p \<and> pe_type e = EnvironmentE \<and> \<not> pe_deleted e)
     (tb_entries db))"

definition new_access :: "linked_project \<Rightarrow> time \<Rightarrow> id \<Rightarrow> env_access_row" where
  "new_access project now i = \<lparr>ea_environmentId = i, ea_projectId = lp_projectId project, ea_orgId = lp_orgId project,
     ea_keyVersion = 1, ea_rotationRequiredAt = None, ea_createdAt = now\<rparr>"

definition manager_grant :: "time \<Rightarrow> key_grant \<Rightarrow> env_grant" where
  "manager_grant now h = \<lparr>gf_principalType = AccountP, gf_principalId = kg_accountId h, gf_level = Manage,
     gf_expiresAt = None, eg_environmentId = kg_resourceId h, eg_grantedBy = kg_accountId h, eg_createdAt = now\<rparr>"

definition access_rows :: "id list \<Rightarrow> team_db \<Rightarrow> env_access_row list" where
  "access_rows ids db = sort_key (\<lambda>e. (ea_createdAt e, ea_environmentId e))
     (filter (\<lambda>e. ea_environmentId e \<in> set ids) (tb_envAccess db))"

definition register :: "linked_project \<Rightarrow> time \<Rightarrow> team_db \<Rightarrow> env_access_row list \<times> team_db" where
  "register project now db =
     (let ids = environmentIds (lp_projectId project) db;
          missing = filter (\<lambda>i. i \<notin> ea_environmentId ` set (tb_envAccess db)) ids;
          holders = filter (\<lambda>g. kg_projectId g = lp_projectId project \<and> kg_resourceId g \<in> set missing) (tb_keyGrants db);
          db' = (if ids = [] \<or> missing = [] then db
                 else db\<lparr>tb_envAccess := insert_all_new ea_environmentId (map (new_access project now) missing) (tb_envAccess db),
                         tb_envGrants := insert_all_new eg_key (map (manager_grant now) holders) (tb_envGrants db)\<rparr>)
      in (if ids = [] then [] else access_rows ids db', db'))"

definition environment :: "id \<Rightarrow> time \<Rightarrow> team_db \<Rightarrow> env team_outcome" where
  "environment i now db =
     (case find (\<lambda>e. pe_id e = i \<and> pe_type e = EnvironmentE \<and> \<not> pe_deleted e) (tb_entries db) of
        None \<Rightarrow> throw (NotFound '''') db
      | Some entry \<Rightarrow> (case linkedProject (pe_projectId entry) db of
           None \<Rightarrow> throw (NotFound '''') db
         | Some project \<Rightarrow> (case register project now db of (envs, db') \<Rightarrow>
             (case find (\<lambda>e. ea_environmentId e = i) envs of
                None \<Rightarrow> throw (NotFound '''') db'
              | Some env \<Rightarrow> ret (env, lp_ownerId project) db'))))"

definition org_memberships :: "id \<Rightarrow> team_db \<Rightarrow> group_member_row list" where
  "org_memberships orgId db = filter (\<lambda>m. \<exists>g \<in> set (tb_groups db). gp_id g = gm_groupId m \<and> gp_orgId g = orgId)
     (tb_groupMembers db)"

definition add_group :: "group_member_row \<Rightarrow> (id \<times> id list) list \<Rightarrow> (id \<times> id list) list" where
  "add_group m groupsOf = AList.update (gm_accountId m)
     ((case map_of groupsOf (gm_accountId m) of None \<Rightarrow> [] | Some gs \<Rightarrow> gs) @ [gm_groupId m]) groupsOf"

definition active_members :: "id \<Rightarrow> team_db \<Rightarrow> member_row list" where
  "active_members orgId db = filter (\<lambda>m. om_orgId m = orgId \<and> om_publicKey m \<noteq> None) (tb_members db)"

definition org_agents :: "id \<Rightarrow> team_db \<Rightarrow> agent_row list" where
  "org_agents orgId db = filter (\<lambda>a. ag_orgId a = orgId) (tb_agents db)"

definition org_of :: "id \<Rightarrow> id option \<Rightarrow> team_db \<Rightarrow> org_facts" where
  "org_of orgId owner db = \<lparr>of_projectOwnerId = owner,
     of_activeMembers = map om_accountId (active_members orgId db),
     of_groupsOf = fold add_group (org_memberships orgId db) [],
     of_agents = map ag_id (org_agents orgId db)\<rparr>"

text \<open>\<^verbatim>\<open>keys\<close>: the public key of each member and agent, under its \<^verbatim>\<open>holderKey\<close>.\<close>

definition org_keys :: "id \<Rightarrow> team_db \<Rightarrow> (string \<times> string) list" where
  "org_keys orgId db =
     fold (\<lambda>a. AList.update (holderKey AgentP (ag_id a)) (ag_publicKey a)) (org_agents orgId db)
       (fold (\<lambda>m. AList.update (holderKey AccountP (om_accountId m)) (the (om_publicKey m))) (active_members orgId db) [])"

definition grants_of :: "id \<Rightarrow> team_db \<Rightarrow> env_grant list" where
  "grants_of i db = filter (\<lambda>g. eg_environmentId g = i) (tb_envGrants db)"

definition levelOf :: "env \<Rightarrow> key_holder \<Rightarrow> time \<Rightarrow> team_db \<Rightarrow> access_level" where
  "levelOf env holder now db = effectiveLevel holder (grants_of (ea_environmentId (fst env)) db)
     (org_of (ea_orgId (fst env)) (Some (snd env)) db) now"

definition isAdmin :: "id \<Rightarrow> id \<Rightarrow> team_db \<Rightarrow> bool" where
  "isAdmin orgId accountId db \<longleftrightarrow> (\<exists>m \<in> set (tb_members db). om_orgId m = orgId \<and> om_accountId m = accountId \<and>
     om_publicKey m \<noteq> None \<and> om_role m \<noteq> MemberR)"

section \<open>Levels of a project\<close>

type_synonym env_level_map = "(id \<times> (string \<times> access_level) list) list"

definition levels_by_env :: "linked_project \<Rightarrow> env_access_row list \<Rightarrow> time \<Rightarrow> team_db \<Rightarrow> env_level_map" where
  "levels_by_env project envs now db =
     (let org = org_of (lp_orgId project) (Some (lp_ownerId project)) db
      in map (\<lambda>e. (ea_environmentId e, allLevels (grants_of (ea_environmentId e) db) org now)) envs)"

definition projectLevels :: "linked_project \<Rightarrow> time \<Rightarrow> team_db \<Rightarrow> (env_access_row list \<times> env_level_map) \<times> team_db" where
  "projectLevels project now db = (case register project now db of (envs, db') \<Rightarrow>
     ((envs, levels_by_env project envs now db'), db'))"

definition org_admins :: "id \<Rightarrow> team_db \<Rightarrow> id list" where
  "org_admins orgId db = map om_accountId (filter (\<lambda>m. om_orgId m = orgId \<and> om_publicKey m \<noteq> None \<and>
     om_role m \<in> set ADMIN_ROLES) (tb_members db))"

definition projectKeyHolders :: "linked_project \<Rightarrow> time \<Rightarrow> team_db \<Rightarrow> id list \<times> team_db" where
  "projectKeyHolders project now db = (case projectLevels project now db of ((envs, byEnv), db') \<Rightarrow>
     (js_set (lp_ownerId project # org_admins (lp_orgId project) db' @
        concat (map (\<lambda>(e, levels). map (\<lambda>(key, level). account_of_key key)
          (filter (\<lambda>(key, level). is_account_key key \<and> levelAtLeast level NeedsApproval) levels)) byEnv)), db'))"

section \<open>Reconciliation\<close>

definition level_of_grant :: "env_level_map \<Rightarrow> key_grant \<Rightarrow> access_level option" where
  "level_of_grant byEnv g = map_option (\<lambda>levels. level_in levels (holderKey AccountP (kg_accountId g)))
     (map_of byEnv (kg_resourceId g))"

definition lapsed :: "id \<Rightarrow> id list \<Rightarrow> env_level_map \<Rightarrow> key_grant \<Rightarrow> bool" where
  "lapsed p keepProject byEnv g \<longleftrightarrow>
     (if kg_resourceId g = p then kg_accountId g \<notin> set keepProject
      else case level_of_grant byEnv g of None \<Rightarrow> False | Some level \<Rightarrow> \<not> holdsKey level)"

definition reconcileProject :: "id \<Rightarrow> time \<Rightarrow> team_db \<Rightarrow> team_db" where
  "reconcileProject p now db = (case linkedProject p db of
     None \<Rightarrow> db
   | Some project \<Rightarrow> (case projectLevels project now db of ((envs, byEnv), db1) \<Rightarrow>
       (case projectKeyHolders project now db1 of (keepProject, db2) \<Rightarrow>
         (let held = filter (\<lambda>g. kg_projectId g = p) (tb_keyGrants db2);
              drops = filter (lapsed p keepProject byEnv) held;
              flagged = map kg_resourceId (filter (\<lambda>g. kg_resourceId g \<noteq> p) drops);
              ids = filter (\<lambda>i. i \<in> set flagged) (map ea_environmentId envs)
          in if drops = [] then db2
             else db2\<lparr>tb_keyGrants := delete_where (\<lambda>g. kg_key g \<in> kg_key ` set drops) (tb_keyGrants db2),
                      tb_envAccess := update_where
                        (\<lambda>e. ea_environmentId e \<in> set ids \<and> ea_rotationRequiredAt e = None)
                        (\<lambda>e. e\<lparr>ea_rotationRequiredAt := Some now\<rparr>) (tb_envAccess db2)\<rparr>))))"

definition reconcileOrg :: "id \<Rightarrow> time \<Rightarrow> team_db \<Rightarrow> team_db" where
  "reconcileOrg orgId now db = fold (\<lambda>l. reconcileProject (po_projectId l) now)
     (filter (\<lambda>l. po_orgId l = orgId) (tb_projectOrgs db)) db"

definition dropGrantsTo :: "principal_type \<Rightarrow> id list \<Rightarrow> id \<Rightarrow> team_db \<Rightarrow> team_db" where
  "dropGrantsTo t ids orgId db =
     (if ids = [] then db
      else db\<lparr>tb_envGrants := delete_where (\<lambda>g. gf_principalType g = t \<and> gf_principalId g \<in> set ids \<and>
              eg_environmentId g \<in> ea_environmentId ` set (filter (\<lambda>e. ea_orgId e = orgId) (tb_envAccess db)))
            (tb_envGrants db)\<rparr>)"


section \<open>What registering changes\<close>

lemma register_frame [simp]:
  "tb_accounts (snd (register project now db)) = tb_accounts db"
  "tb_projects (snd (register project now db)) = tb_projects db"
  "tb_keyGrants (snd (register project now db)) = tb_keyGrants db"
  "tb_entries (snd (register project now db)) = tb_entries db"
  "tb_values (snd (register project now db)) = tb_values db"
  "tb_versions (snd (register project now db)) = tb_versions db"
  "tb_members (snd (register project now db)) = tb_members db"
  "tb_groups (snd (register project now db)) = tb_groups db"
  "tb_groupMembers (snd (register project now db)) = tb_groupMembers db"
  "tb_agents (snd (register project now db)) = tb_agents db"
  "tb_projectOrgs (snd (register project now db)) = tb_projectOrgs db"
  "tb_requests (snd (register project now db)) = tb_requests db"
  "tb_activity (snd (register project now db)) = tb_activity db"
  "tb_tokens (snd (register project now db)) = tb_tokens db"
  "tb_orgs (snd (register project now db)) = tb_orgs db"
  "tb_nextSeq (snd (register project now db)) = tb_nextSeq db"
  "tb_invites (snd (register project now db)) = tb_invites db"
  by (simp_all add: register_def Let_def)

text \<open>Everything an organization or a project is known by, registered or not.\<close>

lemma linkedProject_cong:
  "tb_projectOrgs db' = tb_projectOrgs db \<Longrightarrow> tb_projects db' = tb_projects db \<Longrightarrow> linkedProject p db' = linkedProject p db"
  by (simp add: linkedProject_def split: option.split)

lemma environmentIds_cong: "tb_entries db' = tb_entries db \<Longrightarrow> environmentIds p db' = environmentIds p db"
  by (simp add: environmentIds_def)

lemma org_of_cong:
  "tb_members db' = tb_members db \<Longrightarrow> tb_groups db' = tb_groups db \<Longrightarrow> tb_groupMembers db' = tb_groupMembers db \<Longrightarrow>
     tb_agents db' = tb_agents db \<Longrightarrow> org_of orgId owner db' = org_of orgId owner db"
  by (simp add: org_of_def active_members_def org_memberships_def org_agents_def)

lemma org_keys_cong:
  "tb_members db' = tb_members db \<Longrightarrow> tb_agents db' = tb_agents db \<Longrightarrow> org_keys orgId db' = org_keys orgId db"
  by (simp add: org_keys_def active_members_def org_agents_def)

lemma find_member_cong: "tb_members db' = tb_members db \<Longrightarrow> find_member o' a db' = find_member o' a db"
  by (simp add: find_member_def)

lemma grants_of_cong: "tb_envGrants db' = tb_envGrants db \<Longrightarrow> grants_of i db' = grants_of i db"
  by (simp add: grants_of_def)

lemma linkedProject_ids: "linkedProject p db = Some project \<Longrightarrow> lp_projectId project = p"
  by (auto simp: linkedProject_def split: option.splits)

lemma fst_register:
  "fst (register project now db) = (if environmentIds (lp_projectId project) db = [] then []
     else access_rows (environmentIds (lp_projectId project) db) (snd (register project now db)))"
  by (simp add: register_def Let_def)

lemma registered:
  "set (environmentIds (lp_projectId project) db) \<subseteq> ea_environmentId ` set (tb_envAccess (snd (register project now db)))"
proof -
  let ?ids = "environmentIds (lp_projectId project) db"
  let ?missing = "filter (\<lambda>i. i \<notin> ea_environmentId ` set (tb_envAccess db)) ?ids"
  have "ea_environmentId ` set (map (new_access project now) ?missing) = set ?missing"
    by (force simp: new_access_def image_iff)
  then have "ea_environmentId ` set (insert_all_new ea_environmentId (map (new_access project now) ?missing) (tb_envAccess db)) =
      ea_environmentId ` set (tb_envAccess db) \<union> set ?missing"
    by (simp only: keys_insert_all_new)
  then show ?thesis by (auto simp: register_def Let_def filter_empty_conv)
qed

lemma register_again: "register project now' (snd (register project now db)) = register project now db"
proof -
  let ?db = "snd (register project now db)"
  have ids: "environmentIds (lp_projectId project) ?db = environmentIds (lp_projectId project) db"
    by (rule environmentIds_cong) simp
  have "filter (\<lambda>i. i \<notin> ea_environmentId ` set (tb_envAccess ?db)) (environmentIds (lp_projectId project) db) = []"
    using registered [of project db now] by (auto simp: filter_empty_conv)
  then have "snd (register project now' ?db) = ?db"
    unfolding register_def [of project now' ?db] Let_def ids by simp
  then show ?thesis
    by (intro prod_eqI) (simp_all add: fst_register ids)
qed

lemma env_ids_register:
  "ea_environmentId ` set (fst (register project now db)) = set (environmentIds (lp_projectId project) db)"
proof -
  have "set (environmentIds (lp_projectId project) db) \<subseteq> ea_environmentId ` set (tb_envAccess (snd (register project now db)))"
    by (rule registered)
  then show ?thesis by (force simp: fst_register access_rows_def)
qed

section \<open>Levels of accounts\<close>

text \<open>The level of an account in an environment of a linked project.\<close>

definition env_level :: "linked_project \<Rightarrow> id \<Rightarrow> id \<Rightarrow> time \<Rightarrow> team_db \<Rightarrow> access_level" where
  "env_level project i accountId now db = effectiveLevel \<lparr>kh_type = AccountP, kh_id = accountId\<rparr> (grants_of i db)
     (org_of (lp_orgId project) (Some (lp_ownerId project)) db) now"

lemma env_level_cong:
  "tb_members db' = tb_members db \<Longrightarrow> tb_groups db' = tb_groups db \<Longrightarrow> tb_groupMembers db' = tb_groupMembers db \<Longrightarrow>
     tb_agents db' = tb_agents db \<Longrightarrow> tb_envGrants db' = tb_envGrants db \<Longrightarrow>
     env_level project i a now db' = env_level project i a now db"
  by (simp add: env_level_def org_of_cong [of db' db] grants_of_cong [of db' db])

lemma env_level_owner [simp]: "env_level project i (lp_ownerId project) now db = Manage"
  by (simp add: env_level_def effectiveLevel_def org_of_def)

lemma map_of_levels_by_env:
  "map_of (levels_by_env project envs now db) i =
     (if i \<in> ea_environmentId ` set envs
      then Some (allLevels (grants_of i db) (org_of (lp_orgId project) (Some (lp_ownerId project)) db) now) else None)"
  by (induction envs) (auto simp: levels_by_env_def Let_def)

lemma level_of_grant_eq:
  "level_of_grant (levels_by_env project envs now db) g =
     (if kg_resourceId g \<in> ea_environmentId ` set envs
      then Some (env_level project (kg_resourceId g) (kg_accountId g) now db) else None)"
  by (simp add: level_of_grant_def map_of_levels_by_env env_level_def)

lemma levels_by_env_cong:
  "tb_members db' = tb_members db \<Longrightarrow> tb_groups db' = tb_groups db \<Longrightarrow> tb_groupMembers db' = tb_groupMembers db \<Longrightarrow>
     tb_agents db' = tb_agents db \<Longrightarrow> tb_envGrants db' = tb_envGrants db \<Longrightarrow>
     map ea_environmentId envs' = map ea_environmentId envs \<Longrightarrow>
     levels_by_env project envs' now db' = levels_by_env project envs now db"
proof -
  have ids: "levels_by_env project envs now db = map (\<lambda>i. (i, allLevels (grants_of i db)
      (org_of (lp_orgId project) (Some (lp_ownerId project)) db) now)) (map ea_environmentId envs)" for envs db
    by (simp add: levels_by_env_def Let_def)
  assume "tb_members db' = tb_members db" "tb_groups db' = tb_groups db" "tb_groupMembers db' = tb_groupMembers db"
    "tb_agents db' = tb_agents db" "tb_envGrants db' = tb_envGrants db"
    "map ea_environmentId envs' = map ea_environmentId envs"
  then show ?thesis
    unfolding ids by (simp only: org_of_cong [of db' db] grants_of_cong [of db' db])
qed

lemma fst_projectLevels: "fst (projectLevels project now db) =
    (fst (register project now db), levels_by_env project (fst (register project now db)) now (snd (register project now db)))"
  by (simp add: projectLevels_def split_def)

lemma snd_projectLevels [simp]: "snd (projectLevels project now db) = snd (register project now db)"
  by (simp add: projectLevels_def split_def)

lemma snd_projectKeyHolders [simp]: "snd (projectKeyHolders project now db) = snd (register project now db)"
  by (simp add: projectKeyHolders_def projectLevels_def split_def)

section \<open>What reconciling does\<close>

text \<open>Whether a key grant of a linked project stands.\<close>

definition grant_stands :: "linked_project \<Rightarrow> time \<Rightarrow> team_db \<Rightarrow> key_grant \<Rightarrow> bool" where
  "grant_stands project now db g \<longleftrightarrow>
     (if kg_resourceId g = lp_projectId project then kg_accountId g \<in> set (fst (projectKeyHolders project now db))
      else kg_resourceId g \<in> set (environmentIds (lp_projectId project) db) \<longrightarrow>
        holdsKey (env_level project (kg_resourceId g) (kg_accountId g) now db))"

text \<open>\<^verbatim>\<open>reconcileProject\<close> in one piece: over the registered database, drop what does not stand.\<close>

lemma grant_stands_cong: "kg_key g = kg_key g' \<Longrightarrow> grant_stands project now db g = grant_stands project now db g'"
  by (simp add: grant_stands_def kg_key_def)

lemma reconcileProject_eq:
  fixes now :: time
  assumes "linkedProject p db = Some project"
  defines "db1 \<equiv> snd (register project now db)"
  defines "drops \<equiv> filter (\<lambda>g. kg_projectId g = p \<and> \<not> grant_stands project now db1 g) (tb_keyGrants db1)"
  shows "reconcileProject p now db = db1\<lparr>
      tb_keyGrants := filter (\<lambda>g. kg_projectId g = p \<longrightarrow> grant_stands project now db1 g) (tb_keyGrants db1),
      tb_envAccess := update_where (\<lambda>e. ea_environmentId e \<in> set (environmentIds p db) \<and>
          ea_environmentId e \<in> kg_resourceId ` {g \<in> set drops. kg_resourceId g \<noteq> p} \<and> ea_rotationRequiredAt e = None)
        (\<lambda>e. e\<lparr>ea_rotationRequiredAt := Some now\<rparr>) (tb_envAccess db1)\<rparr>"
proof -
  note p = linkedProject_ids [OF assms(1)]
  let ?envs = "fst (register project now db)"
  let ?byEnv = "levels_by_env project ?envs now db1"
  let ?keep = "fst (projectKeyHolders project now db1)"
  have again: "snd (register project now db1) = db1" unfolding db1_def by (simp add: register_again)
  have ids: "ea_environmentId ` set ?envs = set (environmentIds p db)" using env_ids_register [of project now db] p by simp
  have ids1: "environmentIds p db1 = environmentIds p db" unfolding db1_def by (rule environmentIds_cong) simp
  have "lapsed p ?keep ?byEnv g \<longleftrightarrow> \<not> grant_stands project now db1 g" for g
    by (simp add: lapsed_def grant_stands_def level_of_grant_eq ids ids1 p)
  then have "lapsed p ?keep ?byEnv = (\<lambda>g. \<not> grant_stands project now db1 g)" by blast
  then have drops: "filter (lapsed p ?keep ?byEnv) (filter (\<lambda>g. kg_projectId g = p) (tb_keyGrants db1)) = drops"
    by (simp add: drops_def conj_commute)
  have eq: "reconcileProject p now db = (if drops = [] then db1 else
      db1\<lparr>tb_keyGrants := delete_where (\<lambda>g. kg_key g \<in> kg_key ` set drops) (tb_keyGrants db1),
          tb_envAccess := update_where
            (\<lambda>e. ea_environmentId e \<in> set (filter (\<lambda>i. i \<in> set (map kg_resourceId (filter (\<lambda>g. kg_resourceId g \<noteq> p) drops)))
               (map ea_environmentId ?envs)) \<and> ea_rotationRequiredAt e = None)
            (\<lambda>e. e\<lparr>ea_rotationRequiredAt := Some now\<rparr>) (tb_envAccess db1)\<rparr>)"
    unfolding reconcileProject_def assms(1) using drops again
    by (simp add: Let_def split_def fst_projectLevels db1_def [symmetric])
  have dropped: "kg_key g \<in> kg_key ` set drops \<longleftrightarrow> \<not> (kg_projectId g = p \<longrightarrow> grant_stands project now db1 g)"
    if "g \<in> set (tb_keyGrants db1)" for g
  proof
    assume "kg_key g \<in> kg_key ` set drops"
    then obtain g' where g': "kg_key g = kg_key g'" "kg_projectId g' = p" "\<not> grant_stands project now db1 g'"
      by (auto simp: drops_def)
    then show "\<not> (kg_projectId g = p \<longrightarrow> grant_stands project now db1 g)"
      using grant_stands_cong [OF g'(1)] by (simp add: kg_key_def)
  qed (use that in \<open>auto simp: drops_def\<close>)
  have grants: "delete_where (\<lambda>g. kg_key g \<in> kg_key ` set drops) (tb_keyGrants db1) =
      filter (\<lambda>g. kg_projectId g = p \<longrightarrow> grant_stands project now db1 g) (tb_keyGrants db1)"
    unfolding delete_where_def by (rule filter_cong) (use dropped in auto)
  have flags: "(ea_environmentId e \<in> set (filter (\<lambda>i. i \<in> set (map kg_resourceId (filter (\<lambda>g. kg_resourceId g \<noteq> p) drops)))
        (map ea_environmentId ?envs)) \<and> ea_rotationRequiredAt e = None) \<longleftrightarrow>
      (ea_environmentId e \<in> set (environmentIds p db) \<and>
          ea_environmentId e \<in> kg_resourceId ` {g \<in> set drops. kg_resourceId g \<noteq> p} \<and> ea_rotationRequiredAt e = None)" for e
    using ids by auto
  show ?thesis
  proof (cases "drops = []")
    case True
    have "filter (\<lambda>g. kg_projectId g = p \<longrightarrow> grant_stands project now db1 g) (tb_keyGrants db1) = tb_keyGrants db1"
      using grants True by (simp add: delete_where_def)
    moreover have "update_where (\<lambda>e. ea_environmentId e \<in> set (environmentIds p db) \<and>
          ea_environmentId e \<in> kg_resourceId ` {g \<in> set drops. kg_resourceId g \<noteq> p} \<and> ea_rotationRequiredAt e = None)
        (\<lambda>e. e\<lparr>ea_rotationRequiredAt := Some now\<rparr>) (tb_envAccess db1) = tb_envAccess db1"
      using True by (intro update_where_id) simp
    ultimately show ?thesis using eq True by simp
  next
    case False
    then show ?thesis unfolding eq flags grants by simp
  qed
qed


section \<open>Who holds the project key\<close>

lemma set_projectKeyHolders:
  "set (fst (projectKeyHolders project now db)) =
     insert (lp_ownerId project) (set (org_admins (lp_orgId project) db)) \<union>
     {a. \<exists>i \<in> set (environmentIds (lp_projectId project) db).
        levelAtLeast (env_level project i a now (snd (register project now db))) NeedsApproval}"
proof -
  let ?db = "snd (register project now db)"
  let ?envs = "fst (register project now db)"
  let ?levels = "\<lambda>i. allLevels (grants_of i ?db) (org_of (lp_orgId project) (Some (lp_ownerId project)) ?db) now"
  let ?pick = "filter (\<lambda>(key, level). is_account_key key \<and> levelAtLeast level NeedsApproval)"
  have names: "set (map (\<lambda>(key, level). account_of_key key) (?pick (?levels i))) =
      {a. levelAtLeast (env_level project i a now ?db) NeedsApproval}" for i
    using account_entries [of "\<lambda>level. levelAtLeast level NeedsApproval" "grants_of i ?db"
        "org_of (lp_orgId project) (Some (lp_ownerId project)) ?db" now]
    by (simp add: env_level_def image_image split_def levelAtLeast_def)
  have "set (concat (map (\<lambda>(e, levels). map (\<lambda>(key, level). account_of_key key) (?pick levels))
      (levels_by_env project ?envs now ?db))) =
      (\<Union>i \<in> ea_environmentId ` set ?envs. set (map (\<lambda>(key, level). account_of_key key) (?pick (?levels i))))"
    by (simp add: levels_by_env_def Let_def)
  also have "\<dots> = {a. \<exists>i \<in> set (environmentIds (lp_projectId project) db).
        levelAtLeast (env_level project i a now ?db) NeedsApproval}"
    unfolding names env_ids_register by blast
  finally show ?thesis
    by (simp add: projectKeyHolders_def projectLevels_def split_def org_admins_def insert_is_Un [symmetric] Un_assoc)
qed

section \<open>After reconciling\<close>

lemma reconcile_frame [simp]:
  "tb_accounts (reconcileProject p now db) = tb_accounts db"
  "tb_projects (reconcileProject p now db) = tb_projects db"
  "tb_entries (reconcileProject p now db) = tb_entries db"
  "tb_values (reconcileProject p now db) = tb_values db"
  "tb_versions (reconcileProject p now db) = tb_versions db"
  "tb_members (reconcileProject p now db) = tb_members db"
  "tb_groups (reconcileProject p now db) = tb_groups db"
  "tb_groupMembers (reconcileProject p now db) = tb_groupMembers db"
  "tb_agents (reconcileProject p now db) = tb_agents db"
  "tb_projectOrgs (reconcileProject p now db) = tb_projectOrgs db"
  "tb_requests (reconcileProject p now db) = tb_requests db"
  "tb_activity (reconcileProject p now db) = tb_activity db"
  "tb_tokens (reconcileProject p now db) = tb_tokens db"
  "tb_orgs (reconcileProject p now db) = tb_orgs db"
  "tb_nextSeq (reconcileProject p now db) = tb_nextSeq db"
  "tb_invites (reconcileProject p now db) = tb_invites db"
proof -
  have "\<exists>db1 kg ea. reconcileProject p now db = db1\<lparr>tb_keyGrants := kg, tb_envAccess := ea\<rparr> \<and>
      (db1 = db \<or> (\<exists>project. db1 = snd (register project now db)))"
  proof (cases "linkedProject p db")
    case None
    then have "reconcileProject p now db = db\<lparr>tb_keyGrants := tb_keyGrants db, tb_envAccess := tb_envAccess db\<rparr>"
      by (simp add: reconcileProject_def)
    then show ?thesis by blast
  next
    case (Some project)
    then show ?thesis unfolding reconcileProject_eq [OF Some] by blast
  qed
  then obtain db1 kg ea where eq: "reconcileProject p now db = db1\<lparr>tb_keyGrants := kg, tb_envAccess := ea\<rparr>"
    and db1: "db1 = db \<or> (\<exists>project. db1 = snd (register project now db))" by blast
  from db1 show "tb_accounts (reconcileProject p now db) = tb_accounts db"
  "tb_projects (reconcileProject p now db) = tb_projects db"
  "tb_entries (reconcileProject p now db) = tb_entries db"
  "tb_values (reconcileProject p now db) = tb_values db"
  "tb_versions (reconcileProject p now db) = tb_versions db"
  "tb_members (reconcileProject p now db) = tb_members db"
  "tb_groups (reconcileProject p now db) = tb_groups db"
  "tb_groupMembers (reconcileProject p now db) = tb_groupMembers db"
  "tb_agents (reconcileProject p now db) = tb_agents db"
  "tb_projectOrgs (reconcileProject p now db) = tb_projectOrgs db"
  "tb_requests (reconcileProject p now db) = tb_requests db"
  "tb_activity (reconcileProject p now db) = tb_activity db"
  "tb_tokens (reconcileProject p now db) = tb_tokens db"
  "tb_orgs (reconcileProject p now db) = tb_orgs db"
  "tb_nextSeq (reconcileProject p now db) = tb_nextSeq db"
  "tb_invites (reconcileProject p now db) = tb_invites db"
    unfolding eq by auto
qed

lemma reconcile_envGrants:
  "linkedProject p db = Some project \<Longrightarrow>
     tb_envGrants (reconcileProject p now db) = tb_envGrants (snd (register project now db))"
  by (simp add: reconcileProject_eq)

lemma reconcile_registered:
  assumes "linkedProject p db = Some project"
  shows "snd (register project now' (reconcileProject p now db)) = reconcileProject p now db"
proof -
  let ?db1 = "snd (register project now db)"
  let ?db2 = "reconcileProject p now db"
  note p = linkedProject_ids [OF assms]
  have "map ea_environmentId (tb_envAccess ?db2) = map ea_environmentId (tb_envAccess ?db1)"
    by (simp add: reconcileProject_eq [OF assms] map_update_where)
  then have "ea_environmentId ` set (tb_envAccess ?db2) = ea_environmentId ` set (tb_envAccess ?db1)" by (metis set_map)
  moreover have "environmentIds p ?db2 = environmentIds p db" by (rule environmentIds_cong) simp
  ultimately have "filter (\<lambda>i. i \<notin> ea_environmentId ` set (tb_envAccess ?db2)) (environmentIds p ?db2) = []"
    using registered [of project db now] p by (auto simp: filter_empty_conv)
  then show ?thesis unfolding register_def [of project now' ?db2] Let_def p by simp
qed

text \<open>Whether a grant stands is the same before and after.\<close>

lemma grant_stands_reconciled:
  assumes "linkedProject p db = Some project"
  shows "grant_stands project now (reconcileProject p now db) g = grant_stands project now (snd (register project now db)) g"
proof -
  let ?db1 = "snd (register project now db)"
  let ?db2 = "reconcileProject p now db"
  have level: "env_level project i a now ?db2 = env_level project i a now ?db1" for i a
    by (rule env_level_cong) (simp_all add: reconcile_envGrants [OF assms])
  have ids: "environmentIds q ?db2 = environmentIds q db" "environmentIds q ?db1 = environmentIds q db" for q
    by (rule environmentIds_cong; simp)+
  have admins: "org_admins o' ?db2 = org_admins o' db" "org_admins o' ?db1 = org_admins o' db" for o'
    by (simp_all add: org_admins_def)
  show ?thesis
    by (simp add: grant_stands_def set_projectKeyHolders ids admins level reconcile_registered [OF assms] register_again)
qed

lemma reconcile_keyGrants:
  assumes "linkedProject p db = Some project"
  shows "tb_keyGrants (reconcileProject p now db) =
    filter (\<lambda>g. kg_projectId g = p \<longrightarrow> grant_stands project now (reconcileProject p now db) g) (tb_keyGrants db)"
proof -
  have "tb_keyGrants (reconcileProject p now db) =
      filter (\<lambda>g. kg_projectId g = p \<longrightarrow> grant_stands project now (snd (register project now db)) g) (tb_keyGrants db)"
    by (simp add: reconcileProject_eq [OF assms])
  then show ?thesis by (simp only: grant_stands_reconciled [OF assms])
qed

lemma reconcile_linkedProject [simp]: "linkedProject q (reconcileProject p now db) = linkedProject q db"
  by (rule linkedProject_cong) simp_all

lemma reconcile_environmentIds [simp]: "environmentIds q (reconcileProject p now db) = environmentIds q db"
  by (rule environmentIds_cong) simp

lemma reconcile_again: "reconcileProject p now (reconcileProject p now db) = reconcileProject p now db"
proof (cases "linkedProject p db")
  case None
  then show ?thesis by (simp add: reconcileProject_def)
next
  case (Some project)
  let ?db2 = "reconcileProject p now db"
  have linked: "linkedProject p ?db2 = Some project" using Some by simp
  have stands: "\<forall>g \<in> set (tb_keyGrants ?db2). kg_projectId g = p \<longrightarrow> grant_stands project now ?db2 g"
    by (auto simp: reconcile_keyGrants [OF Some])
  have none: "{g \<in> set (filter (\<lambda>g. kg_projectId g = p \<and> \<not> grant_stands project now ?db2 g) (tb_keyGrants ?db2)).
      kg_resourceId g \<noteq> p} = {}" using stands by auto
  show ?thesis
    unfolding reconcileProject_eq [OF linked] reconcile_registered [OF Some] none
    using stands by (simp add: update_where_id filter_id_conv)
qed


section \<open>Properties\<close>

text \<open>C25. Reconciling a shared project leaves exactly the key grants that still stand: an
  environment's key stays with those whose level there holds the key, the project key with its
  owner, the organization's active owners and admins and anyone with Needs approval or more in
  some live environment. Grants of other projects are untouched, and doing it again at the
  same time changes nothing.\<close>

theorem reconciled_grants:
  assumes "linkedProject p db = Some project" and "db' = reconcileProject p now db"
  shows "set (tb_keyGrants db') = {g \<in> set (tb_keyGrants db). kg_projectId g = p \<longrightarrow>
      (if kg_resourceId g = p
       then kg_accountId g = lp_ownerId project \<or> kg_accountId g \<in> set (org_admins (lp_orgId project) db') \<or>
         (\<exists>i \<in> set (environmentIds p db'). NeedsApproval \<le> env_level project i (kg_accountId g) now db')
       else kg_resourceId g \<in> set (environmentIds p db') \<longrightarrow>
         holdsKey (env_level project (kg_resourceId g) (kg_accountId g) now db'))} \<and>
    reconcileProject p now db' = db'"
proof -
  have "set (tb_keyGrants db') = {g \<in> set (tb_keyGrants db). kg_projectId g = p \<longrightarrow> grant_stands project now db' g}"
    unfolding assms(2) by (auto simp: reconcile_keyGrants [OF assms(1)])
  then show ?thesis
    using reconcile_again [of p now db] linkedProject_ids [OF assms(1)] unfolding assms(2)
    by (simp add: grant_stands_def set_projectKeyHolders reconcile_registered [OF assms(1)] levelAtLeast_le)
qed

text \<open>When somebody loses the key of an environment, that environment is flagged for
  rotation; nobody else's grants or environments are touched by it.\<close>

theorem lost_key_flags_rotation:
  assumes "linkedProject p db = Some project" and "g \<in> set (tb_keyGrants db)"
    and "g \<notin> set (tb_keyGrants (reconcileProject p now db))"
  shows "kg_projectId g = p \<and> (kg_resourceId g \<noteq> p \<longrightarrow>
    (\<exists>e \<in> set (tb_envAccess (reconcileProject p now db)). ea_environmentId e = kg_resourceId g \<and> ea_rotationRequiredAt e \<noteq> None))"
proof -
  let ?db1 = "snd (register project now db)"
  have lost: "kg_projectId g = p" "\<not> grant_stands project now ?db1 g"
    using assms(2,3) by (auto simp: reconcile_keyGrants [OF assms(1)] grant_stands_reconciled [OF assms(1)])
  have "\<exists>e \<in> set (tb_envAccess (reconcileProject p now db)). ea_environmentId e = kg_resourceId g \<and> ea_rotationRequiredAt e \<noteq> None"
    if other: "kg_resourceId g \<noteq> p"
  proof -
    have live: "kg_resourceId g \<in> set (environmentIds p db)"
      using lost(2) other linkedProject_ids [OF assms(1)] environmentIds_cong [of ?db1 db p]
      by (auto simp: grant_stands_def split: if_splits)
    then obtain e where e: "e \<in> set (tb_envAccess ?db1)" "ea_environmentId e = kg_resourceId g"
      using registered [of project db now] linkedProject_ids [OF assms(1)] by auto
    have hit: "kg_resourceId g \<in> kg_resourceId ` {g \<in> set (filter (\<lambda>g. kg_projectId g = p \<and> \<not> grant_stands project now ?db1 g)
        (tb_keyGrants ?db1)). kg_resourceId g \<noteq> p}"
      using assms(2) lost other by auto
    let ?e = "if ea_rotationRequiredAt e = None then e\<lparr>ea_rotationRequiredAt := Some now\<rparr> else e"
    have "?e \<in> set (tb_envAccess (reconcileProject p now db))"
      unfolding reconcileProject_eq [OF assms(1)] using e live hit by (auto simp: set_update_where intro!: exI [of _ e])
    moreover have "ea_environmentId ?e = kg_resourceId g" "ea_rotationRequiredAt ?e \<noteq> None" using e by simp_all
    ultimately show ?thesis by blast
  qed
  with lost(1) show ?thesis by blast
qed

text \<open>Olga's project, shared with an organization in which Bob's Edit grant has run out.\<close>

definition demo_key :: blob where "demo_key = \<lparr>bl_kid = ''account'', bl_nonce = ''n'', bl_ct = ''k''\<rparr>"

definition demo_holder :: "id \<Rightarrow> id \<Rightarrow> key_grant" where
  "demo_holder i a = \<lparr>kg_projectId = ''p'', kg_resourceId = i, kg_accountId = a, kg_wrappedKey = demo_key, kg_box = None\<rparr>"

definition demo_team :: team_db where
  "demo_team = empty_db\<lparr>
     tb_projects := [\<lparr>pj_id = ''p'', pj_ownerId = ''olga'', pj_encryptedMeta = demo_key, pj_revision = 1, pj_seq = 1,
       pj_createdAt = 0, pj_updatedAt = 0\<rparr>],
     tb_entries := [\<lparr>pe_projectId = ''p'', pe_id = ''e'', pe_type = EnvironmentE, pe_revision = 1, pe_seq = 1,
       pe_deleted = False, pe_encryptedMeta = Some demo_key, pe_updatedAt = 0\<rparr>],
     tb_keyGrants := [demo_holder ''p'' ''olga'', demo_holder ''e'' ''olga'', demo_holder ''p'' ''bob'', demo_holder ''e'' ''bob''],
     tb_members := [\<lparr>om_orgId = ''o'', om_accountId = ''olga'', om_role = OwnerR, om_publicKey = Some ''KO''\<rparr>,
       \<lparr>om_orgId = ''o'', om_accountId = ''bob'', om_role = MemberR, om_publicKey = Some ''KB''\<rparr>],
     tb_projectOrgs := [\<lparr>po_projectId = ''p'', po_orgId = ''o'', po_linkedBy = ''olga''\<rparr>],
     tb_envAccess := [\<lparr>ea_environmentId = ''e'', ea_projectId = ''p'', ea_orgId = ''o'', ea_keyVersion = 1,
       ea_rotationRequiredAt = None, ea_createdAt = 0\<rparr>],
     tb_envGrants := [\<lparr>gf_principalType = AccountP, gf_principalId = ''bob'', gf_level = Edit, gf_expiresAt = Some 5,
       eg_environmentId = ''e'', eg_grantedBy = ''olga'', eg_createdAt = 0\<rparr>]\<rparr>"

definition demo_project :: linked_project where
  "demo_project = \<lparr>lp_projectId = ''p'', lp_orgId = ''o'', lp_ownerId = ''olga''\<rparr>"

lemma demo_linked: "linkedProject ''p'' demo_team = Some demo_project"
  by (simp add: demo_team_def empty_db_def linkedProject_def demo_project_def)

lemma demo_register: "snd (register demo_project now demo_team) = demo_team"
  by (simp add: register_def Let_def demo_team_def empty_db_def environmentIds_def demo_project_def)

lemma demo_level: "env_level demo_project ''e'' ''bob'' 9 demo_team = NoAccess"
  by (simp add: env_level_def effectiveLevel_def demo_project_def demo_team_def empty_db_def grants_of_def org_of_def
      live_grant_def active_members_def org_memberships_def groups_of_def)

lemma demo_ids: "environmentIds ''p'' demo_team = [''e'']"
  by (simp add: environmentIds_def demo_team_def empty_db_def)

lemma demo_lost: "demo_holder ''e'' ''bob'' \<in> set (tb_keyGrants demo_team)"
    "demo_holder ''e'' ''bob'' \<notin> set (tb_keyGrants (reconcileProject ''p'' 9 demo_team))"
proof -
  show "demo_holder ''e'' ''bob'' \<in> set (tb_keyGrants demo_team)" by (simp add: demo_team_def)
  have "\<not> grant_stands demo_project 9 demo_team (demo_holder ''e'' ''bob'')"
    using demo_level demo_ids by (simp add: grant_stands_def demo_holder_def) (simp add: demo_project_def)
  then show "demo_holder ''e'' ''bob'' \<notin> set (tb_keyGrants (reconcileProject ''p'' 9 demo_team))"
    by (simp add: reconcileProject_eq [OF demo_linked] demo_register demo_holder_def)
qed

theorem reconciled_grants_witness:
  "demo_holder ''e'' ''olga'' \<in> set (tb_keyGrants (reconcileProject ''p'' 9 demo_team))"
proof -
  have "env_level demo_project ''e'' ''olga'' 9 (reconcileProject ''p'' 9 demo_team) = Manage"
    using env_level_owner [of demo_project] by (simp add: demo_project_def)
  then show ?thesis
    using reconciled_grants [OF demo_linked refl, of 9] by (auto simp: demo_holder_def demo_team_def)
qed

theorem lost_key_flags_rotation_witness:
  "\<exists>e \<in> set (tb_envAccess (reconcileProject ''p'' 9 demo_team)). ea_environmentId e = ''e'' \<and> ea_rotationRequiredAt e \<noteq> None"
  using lost_key_flags_rotation [OF demo_linked demo_lost] by (auto simp: demo_holder_def)

end
