(* ===== verification/Environments.thy ===== *)
theory Environments
  imports Facts Activity
begin

text \<open>
  \<^verbatim>\<open>EnvironmentsService\<close> (\<^verbatim>\<open>apps/api/src/access/environments.service.ts\<close>): sharing a
  project with an organization, the grants of its environments, member wraps of their keys, key
  rotation, and requests that wait for a manager. Every handler first reconciles the project.

  \<open>collate\<close> is the sort key of \<^verbatim>\<open>localeCompare\<close>. Ids the database draws are arguments. Error
  messages are kept without typographic quotes; the ids in them are left out.
\<close>

section \<open>Views\<close>

record grant_view =
  gw_type :: principal_type
  gw_id :: id
  gw_level :: access_level
  gw_expiresAt :: "time option"
  gw_grantedBy :: id
  gw_createdAt :: time

definition toGrant :: "env_grant \<Rightarrow> grant_view" where
  "toGrant g = \<lparr>gw_type = gf_principalType g, gw_id = gf_principalId g, gw_level = gf_level g,
     gw_expiresAt = gf_expiresAt g, gw_grantedBy = eg_grantedBy g, gw_createdAt = eg_createdAt g\<rparr>"

record pending_wrap =
  pw_accountId :: id
  pw_publicKey :: string

record environment_detail =
  ed_environmentId :: id
  ed_projectId :: id
  ed_orgId :: id
  ed_keyVersion :: nat
  ed_rotationRequired :: bool
  ed_myLevel :: access_level
  ed_grants :: "grant_view list"
  ed_pendingWraps :: "pending_wrap list"

record access_cell =
  cell_environmentId :: id
  cell_level :: access_level
  cell_expiresAt :: "time option"

record access_row =
  row_type :: principal_type
  row_id :: id
  row_name :: string
  row_cells :: "access_cell list"

record project_access =
  pa_projectId :: id
  pa_orgId :: id
  pa_environments :: "(id \<times> nat \<times> bool) list"
  pa_rows :: "access_row list"
  pa_pendingProjectWraps :: "pending_wrap list"

text \<open>\<^verbatim>\<open>names\<close>: emails of accounts, names of groups and agents.\<close>

definition name_of :: "team_db \<Rightarrow> principal_type \<Rightarrow> id \<Rightarrow> string option" where
  "name_of db t i = (case t of
     AccountP \<Rightarrow> map_option ac_email (find (\<lambda>a. ac_id a = i) (tb_accounts db))
   | GroupP \<Rightarrow> map_option gp_name (find (\<lambda>g. gp_id g = i) (tb_groups db))
   | AgentP \<Rightarrow> map_option ag_name (find (\<lambda>a. ag_id a = i) (tb_agents db)))"

definition shown_name :: "team_db \<Rightarrow> principal_type \<Rightarrow> id \<Rightarrow> string" where
  "shown_name db t i = (case name_of db t i of None \<Rightarrow> ''Removed'' | Some n \<Rightarrow> n)"

section \<open>Projects\<close>

definition visibleProject :: "id \<Rightarrow> id \<Rightarrow> time \<Rightarrow> team_db \<Rightarrow> (linked_project \<times> member_row) team_outcome" where
  "visibleProject accountId p now db = (case linkedProject p db of
     None \<Rightarrow> throw (NotFound '''') db
   | Some project \<Rightarrow> and_then (org_member (lp_orgId project) accountId True db)
       (\<lambda>me db. ret (project, me) (reconcileProject p now db)))"

definition holders_of :: "id \<Rightarrow> id \<Rightarrow> team_db \<Rightarrow> id list" where
  "holders_of p resourceId db = map kg_accountId
     (filter (\<lambda>g. kg_projectId g = p \<and> kg_resourceId g = resourceId) (tb_keyGrants db))"

definition canWrapProjectKey :: "linked_project \<Rightarrow> id \<Rightarrow> org_role \<Rightarrow> time \<Rightarrow> team_db \<Rightarrow> bool \<times> team_db" where
  "canWrapProjectKey project accountId role now db =
     (if accountId \<notin> set (holders_of (lp_projectId project) (lp_projectId project) db) then (False, db)
      else if lp_ownerId project = accountId \<or> role \<in> set ADMIN_ROLES then (True, db)
      else case projectLevels project now db of ((envs, byEnv), db') \<Rightarrow>
        (list_ex (\<lambda>(i, levels). level_in levels (holderKey AccountP accountId) = Manage) byEnv, db'))"

definition principal_order :: "principal_type \<Rightarrow> nat" where
  "principal_order t = (case t of GroupP \<Rightarrow> 0 | AccountP \<Rightarrow> 1 | AgentP \<Rightarrow> 2)"

definition access_cell_of :: "env_grant list \<Rightarrow> time \<Rightarrow> principal_type \<times> id \<Rightarrow> env_access_row \<Rightarrow> access_cell" where
  "access_cell_of grants now pr e =
     (case find (\<lambda>g. eg_environmentId g = ea_environmentId e \<and> (gf_principalType g, gf_principalId g) = pr) grants of
        Some g \<Rightarrow> if live_grant now g
          then \<lparr>cell_environmentId = ea_environmentId e, cell_level = gf_level g, cell_expiresAt = gf_expiresAt g\<rparr>
          else \<lparr>cell_environmentId = ea_environmentId e, cell_level = NoAccess, cell_expiresAt = None\<rparr>
      | None \<Rightarrow> \<lparr>cell_environmentId = ea_environmentId e, cell_level = NoAccess, cell_expiresAt = None\<rparr>)"

definition access_rows_of :: "(string \<Rightarrow> string) \<Rightarrow> env_access_row list \<Rightarrow> time \<Rightarrow> team_db \<Rightarrow> access_row list" where
  "access_rows_of collate envs now db =
     (let grants = filter (\<lambda>g. eg_environmentId g \<in> ea_environmentId ` set envs) (tb_envGrants db);
          principals = js_set (map (\<lambda>g. (gf_principalType g, gf_principalId g)) grants)
      in sort_key (\<lambda>r. (principal_order (row_type r), collate (row_name r)))
           (map (\<lambda>pr. \<lparr>row_type = fst pr, row_id = snd pr, row_name = shown_name db (fst pr) (snd pr),
              row_cells = map (access_cell_of grants now pr) envs\<rparr>) principals))"

definition pending_project_wraps :: "linked_project \<Rightarrow> id list \<Rightarrow> team_db \<Rightarrow> pending_wrap list" where
  "pending_project_wraps project holders db =
     (let held = holders_of (lp_projectId project) (lp_projectId project) db;
          keys = org_keys (lp_orgId project) db
      in concat (map (\<lambda>i. case map_of keys (holderKey AccountP i) of
             Some k \<Rightarrow> if i \<in> set held then [] else [\<lparr>pw_accountId = i, pw_publicKey = k\<rparr>]
           | None \<Rightarrow> []) holders))"

definition access_project :: "(string \<Rightarrow> string) \<Rightarrow> id \<Rightarrow> id \<Rightarrow> time \<Rightarrow> team_db \<Rightarrow> project_access team_outcome" where
  "access_project collate accountId p now db = and_then (visibleProject accountId p now db) (\<lambda>(project, me) db.
     case register project now db of (envs, db) \<Rightarrow>
     (case canWrapProjectKey project accountId (om_role me) now db of (can, db) \<Rightarrow>
     (case (if can then projectKeyHolders project now db else ([], db)) of (holders, db') \<Rightarrow>
       ret \<lparr>pa_projectId = p, pa_orgId = lp_orgId project,
            pa_environments = map (\<lambda>e. (ea_environmentId e, ea_keyVersion e, ea_rotationRequiredAt e \<noteq> None)) envs,
            pa_rows = access_rows_of collate envs now db,
            pa_pendingProjectWraps = (if can then pending_project_wraps project holders db' else [])\<rparr> db')))"

text \<open>The insert fails when the project is linked already.\<close>

definition linkProject :: "(string \<Rightarrow> string) \<Rightarrow> id \<Rightarrow> id \<Rightarrow> id \<Rightarrow> time \<Rightarrow> team_db \<Rightarrow> project_access team_outcome" where
  "linkProject collate accountId p orgId now db = (case find (\<lambda>x. pj_id x = p) (tb_projects db) of
     None \<Rightarrow> throw (NotFound '''') db
   | Some x \<Rightarrow> if pj_ownerId x \<noteq> accountId then throw (NotFound '''') db
     else and_then (org_member orgId accountId True db) (\<lambda>_ db.
       case insert_new po_projectId \<lparr>po_projectId = p, po_orgId = orgId, po_linkedBy = accountId\<rparr> (tb_projectOrgs db) of
         None \<Rightarrow> throw (Conflict ''Already shared with an organization'') db
       | Some t \<Rightarrow> access_project collate accountId p now (record_activity now
           [\<lparr>ar_projectId = p, ar_action = ''project.linked'', ar_actorType = AccountP, ar_actorId = accountId,
             ar_environmentId = None, ar_targetId = None, ar_detail = NoDetail\<rparr>] (db\<lparr>tb_projectOrgs := t\<rparr>))))"

section \<open>Environments\<close>

definition env_visible :: "id \<Rightarrow> id \<Rightarrow> time \<Rightarrow> team_db \<Rightarrow> (env \<times> member_row) team_outcome" where
  "env_visible accountId i now db = and_then (environment i now db) (\<lambda>env0 db.
     and_then (org_member (ea_orgId (fst env0)) accountId True db) (\<lambda>me db.
     and_then (environment i now (reconcileProject (ea_projectId (fst env0)) now db)) (\<lambda>env db.
       ret (env, me) db)))"

definition pending_wraps :: "env \<Rightarrow> time \<Rightarrow> team_db \<Rightarrow> pending_wrap list" where
  "pending_wraps env now db =
     (let org = org_of (ea_orgId (fst env)) (Some (snd env)) db;
          keys = org_keys (ea_orgId (fst env)) db;
          held = holders_of (ea_projectId (fst env)) (ea_environmentId (fst env)) db
      in concat (map (\<lambda>(key, level).
           if \<not> is_account_key key \<or> \<not> holdsKey level then []
           else case map_of keys key of
               None \<Rightarrow> []
             | Some k \<Rightarrow> if account_of_key key \<in> set held then []
                 else [\<lparr>pw_accountId = account_of_key key, pw_publicKey = k\<rparr>])
         (allLevels (grants_of (ea_environmentId (fst env)) db) org now)))"

definition env_detail_of :: "id \<Rightarrow> env \<Rightarrow> time \<Rightarrow> team_db \<Rightarrow> environment_detail" where
  "env_detail_of accountId env now db =
     (let e = fst env; level = levelOf env \<lparr>kh_type = AccountP, kh_id = accountId\<rparr> now db
      in \<lparr>ed_environmentId = ea_environmentId e, ed_projectId = ea_projectId e, ed_orgId = ea_orgId e,
          ed_keyVersion = ea_keyVersion e, ed_rotationRequired = (ea_rotationRequiredAt e \<noteq> None), ed_myLevel = level,
          ed_grants = map toGrant (grants_of (ea_environmentId e) db),
          ed_pendingWraps = (if levelAtLeast level Manage then pending_wraps env now db else [])\<rparr>)"

definition env_detail :: "id \<Rightarrow> id \<Rightarrow> time \<Rightarrow> team_db \<Rightarrow> environment_detail team_outcome" where
  "env_detail accountId i now db = and_then (env_visible accountId i now db) (\<lambda>(env, me) db.
     ret (env_detail_of accountId env now db) db)"

section \<open>Grants\<close>

record put_grant_req =
  gq_type :: principal_type
  gq_id :: id
  gq_level :: access_level
  gq_expiresAt :: "time option"

definition requireGrantManager :: "id \<Rightarrow> id \<Rightarrow> time \<Rightarrow> team_db \<Rightarrow> env team_outcome" where
  "requireGrantManager accountId i now db = and_then (env_visible accountId i now db) (\<lambda>(env, me) db.
     if om_role me \<notin> set ADMIN_ROLES \<and>
        \<not> levelAtLeast (levelOf env \<lparr>kh_type = AccountP, kh_id = accountId\<rparr> now db) Manage
     then throw (Forbidden ''You cannot manage access here'') db else ret env db)"

definition principalInOrg :: "id \<Rightarrow> principal_type \<Rightarrow> id \<Rightarrow> team_db \<Rightarrow> bool" where
  "principalInOrg orgId t i db = (case t of
     GroupP \<Rightarrow> (\<exists>g \<in> set (tb_groups db). gp_id g = i \<and> gp_orgId g = orgId)
   | AgentP \<Rightarrow> (\<exists>a \<in> set (tb_agents db). ag_id a = i \<and> ag_orgId a = orgId)
   | AccountP \<Rightarrow> (\<exists>m \<in> set (tb_members db). om_accountId m = i \<and> om_orgId m = orgId))"

definition recordGrant :: "id \<Rightarrow> id \<Rightarrow> id \<Rightarrow> principal_type \<Rightarrow> id \<Rightarrow> access_level option \<Rightarrow> time \<Rightarrow> team_db \<Rightarrow> team_db" where
  "recordGrant accountId p i t pid level now db = record_activity now
     [\<lparr>ar_projectId = p, ar_action = (if level \<noteq> None then ''grant.changed'' else ''grant.removed''),
       ar_actorType = AccountP, ar_actorId = accountId, ar_environmentId = Some i, ar_targetId = Some pid,
       ar_detail = PrincipalDetail t pid (name_of db t pid) level None\<rparr>] db"

definition new_grant :: "id \<Rightarrow> id \<Rightarrow> put_grant_req \<Rightarrow> time \<Rightarrow> env_grant" where
  "new_grant accountId i req now = \<lparr>gf_principalType = gq_type req, gf_principalId = gq_id req, gf_level = gq_level req,
     gf_expiresAt = gq_expiresAt req, eg_environmentId = i, eg_grantedBy = accountId, eg_createdAt = now\<rparr>"

definition putGrant :: "id \<Rightarrow> id \<Rightarrow> put_grant_req \<Rightarrow> time \<Rightarrow> team_db \<Rightarrow> grant_view team_outcome" where
  "putGrant accountId i req now db = and_then (requireGrantManager accountId i now db) (\<lambda>env db.
     if \<not> principalInOrg (ea_orgId (fst env)) (gq_type req) (gq_id req) db
     then throw (NotFound (''No such '' @ type_name (gq_type req) @ '' in this organization'')) db
     else if gq_type req = GroupP \<and> gq_level req = NoAccess
     then throw (Unprocessable ''Remove the group grant instead'') db
     else if gq_type req = AgentP \<and> holdsKey (gq_level req)
     then throw (Unprocessable ''Agents ask each time: give them Needs approval or No access'') db
     else if (case gq_expiresAt req of None \<Rightarrow> False | Some t \<Rightarrow> t \<le> now)
     then throw (Unprocessable ''The end date must be in the future'') db
     else
       let row = new_grant accountId i req now;
           db1 = db\<lparr>tb_envGrants := upsert eg_key row (\<lambda>_. row) (tb_envGrants db)\<rparr>;
           db2 = reconcileProject (ea_projectId (fst env)) now db1
       in ret (toGrant row) (recordGrant accountId (ea_projectId (fst env)) i (gq_type req) (gq_id req)
            (Some (gq_level req)) now db2))"

definition deleteGrant :: "id \<Rightarrow> id \<Rightarrow> principal_type \<Rightarrow> id \<Rightarrow> time \<Rightarrow> team_db \<Rightarrow> unit team_outcome" where
  "deleteGrant accountId i t pid now db = and_then (requireGrantManager accountId i now db) (\<lambda>env db.
     let hit = (\<lambda>g. eg_key g = (i, t, pid))
     in if \<not> list_ex hit (tb_envGrants db) then throw (NotFound '''') db
        else
          let db1 = db\<lparr>tb_envGrants := delete_where hit (tb_envGrants db)\<rparr>;
              db2 = reconcileProject (ea_projectId (fst env)) now db1
          in ret () (recordGrant accountId (ea_projectId (fst env)) i t pid None now db2))"

end
