(* ===== verification/ProjectsStore.thy ===== *)
theory ProjectsStore
  imports TeamDb
begin

text \<open>
  \<^verbatim>\<open>ProjectsStore\<close> (\<^verbatim>\<open>apps/api/src/projects/projects.store.ts\<close>): projects, their entries, the
  sealed values of secrets and their earlier versions. A JavaScript object of values is an
  association list. Reads of the clock and the accounts' wrapped keys are arguments.
\<close>

record stored_project =
  sp_row :: project_row
  sp_wrappedKey :: blob

record project_access_info =
  px_ownerId :: id
  px_member :: bool
  px_environments :: "id list"

record new_environment =
  ne_id :: id
  ne_encryptedMeta :: blob
  ne_encryptedKey :: blob

record new_project =
  np_id :: id
  np_ownerId :: id
  np_encryptedMeta :: blob
  np_encryptedKey :: blob
  np_environments :: "new_environment list"
  np_now :: time

record entry_write =
  ew_projectId :: id
  ew_id :: id
  ew_type :: entry_type
  ew_baseRevision :: nat
  ew_encryptedMeta :: "blob option"
  ew_values :: "(id \<times> blob option) list"
  ew_keyGrant :: "(id \<times> blob) option"
  ew_limit :: nat
  ew_viewer :: id
  ew_now :: time

record value_record =
  vr_environmentId :: id
  vr_encryptedValue :: blob
  vr_updatedAt :: time

datatype entry_body =
    Tombstone entry_type
  | EnvironmentBody blob "blob option"
  | FolderBody blob
  | SecretBody blob "value_record list"

record project_entry =
  en_id :: id
  en_projectId :: id
  en_revision :: nat
  en_seq :: nat
  en_updatedAt :: time
  en_body :: entry_body

record secret_version =
  sn_revision :: nat
  sn_savedAt :: time
  sn_encryptedMeta :: blob
  sn_values :: "(id \<times> blob) list"

record trashed_secret =
  ts_id :: id
  ts_revision :: nat
  ts_deletedAt :: time
  ts_lastVersion :: secret_version

datatype entry_write_result =
    WriteOk project_entry
  | WriteConflict project_entry
  | WriteNotFound
  | WriteTypeMismatch
  | WriteLimit
  | WriteUnknownEnvironment

section \<open>Projects\<close>

definition countOwned :: "id \<Rightarrow> team_db \<Rightarrow> nat" where
  "countOwned u db = length (filter (\<lambda>x. pj_ownerId x = u) (tb_projects db))"

definition own_grant :: "id \<Rightarrow> id \<Rightarrow> id \<Rightarrow> blob \<Rightarrow> key_grant" where
  "own_grant p resourceId accountId wrappedKey = \<lparr>kg_projectId = p, kg_resourceId = resourceId, kg_accountId = accountId,
     kg_wrappedKey = wrappedKey, kg_box = None\<rparr>"

definition first_environment :: "new_project \<Rightarrow> nat \<times> new_environment \<Rightarrow> entry_row" where
  "first_environment p ne = \<lparr>pe_projectId = np_id p, pe_id = ne_id (snd ne), pe_type = EnvironmentE, pe_revision = 1,
     pe_seq = fst ne, pe_deleted = False, pe_encryptedMeta = Some (ne_encryptedMeta (snd ne)), pe_updatedAt = np_now p\<rparr>"

definition createProject :: "new_project \<Rightarrow> team_db \<Rightarrow> bool \<times> team_db" where
  "createProject p db =
     (case insert_new pj_id \<lparr>pj_id = np_id p, pj_ownerId = np_ownerId p, pj_encryptedMeta = np_encryptedMeta p,
          pj_revision = 1, pj_seq = length (np_environments p), pj_createdAt = np_now p, pj_updatedAt = np_now p\<rparr>
          (tb_projects db) of
        None \<Rightarrow> (False, db)
      | Some t \<Rightarrow> (True, db\<lparr>tb_projects := t,
          tb_keyGrants := tb_keyGrants db @ own_grant (np_id p) (np_id p) (np_ownerId p) (np_encryptedKey p) #
            map (\<lambda>e. own_grant (np_id p) (ne_id e) (np_ownerId p) (ne_encryptedKey e)) (np_environments p),
          tb_entries := tb_entries db @ map (first_environment p) (enumerate 1 (np_environments p))\<rparr>))"

text \<open>The join is on the resource of the grant alone.\<close>

definition listProjects :: "id \<Rightarrow> team_db \<Rightarrow> stored_project list" where
  "listProjects u db = sort_key (\<lambda>x. pj_createdAt (sp_row x))
     (concat (map (\<lambda>g. map (\<lambda>x. \<lparr>sp_row = x, sp_wrappedKey = kg_wrappedKey g\<rparr>)
         (filter (\<lambda>x. pj_id x = kg_resourceId g) (tb_projects db)))
       (filter (\<lambda>g. kg_accountId g = u) (tb_keyGrants db))))"

definition getProject :: "id \<Rightarrow> id \<Rightarrow> team_db \<Rightarrow> stored_project option" where
  "getProject p u db = (case find (\<lambda>x. pj_id x = p) (tb_projects db) of
     None \<Rightarrow> None
   | Some x \<Rightarrow> map_option (\<lambda>g. \<lparr>sp_row = x, sp_wrappedKey = kg_wrappedKey g\<rparr>)
       (find (\<lambda>g. kg_resourceId g = p \<and> kg_accountId g = u) (tb_keyGrants db)))"

definition grants_held :: "id \<Rightarrow> id \<Rightarrow> team_db \<Rightarrow> key_grant list" where
  "grants_held p u db = filter (\<lambda>g. kg_projectId g = p \<and> kg_accountId g = u) (tb_keyGrants db)"

definition getAccess :: "id \<Rightarrow> id \<Rightarrow> team_db \<Rightarrow> project_access_info option" where
  "getAccess p u db = map_option (\<lambda>x.
     let ids = js_set (map kg_resourceId (grants_held p u db))
     in \<lparr>px_ownerId = pj_ownerId x, px_member = (p \<in> set ids), px_environments = filter (\<lambda>i. i \<noteq> p) ids\<rparr>)
     (find (\<lambda>x. pj_id x = p) (tb_projects db))"

definition updateProject :: "id \<Rightarrow> nat \<Rightarrow> blob \<Rightarrow> time \<Rightarrow> team_db \<Rightarrow> bool \<times> team_db" where
  "updateProject p baseRevision encryptedMeta now db =
     (let hit = (\<lambda>x. pj_id x = p \<and> pj_revision x = baseRevision)
      in (list_ex hit (tb_projects db), db\<lparr>tb_projects := update_where hit
           (\<lambda>x. x\<lparr>pj_encryptedMeta := encryptedMeta, pj_revision := baseRevision + 1, pj_updatedAt := now\<rparr>) (tb_projects db)\<rparr>))"

section \<open>What a viewer sees\<close>

definition values_seen :: "team_db \<Rightarrow> id \<Rightarrow> id list \<Rightarrow> id \<Rightarrow> value_record list" where
  "values_seen db p envIds secretId = map (\<lambda>v. \<lparr>vr_environmentId = vl_environmentId v,
      vr_encryptedValue = vl_encryptedValue v, vr_updatedAt = vl_updatedAt v\<rparr>)
     (sort_key vl_environmentId (filter (\<lambda>v. vl_projectId v = p \<and> vl_secretId v = secretId \<and>
        vl_environmentId v \<in> set envIds) (tb_values db)))"

definition hydrateWith :: "team_db \<Rightarrow> id \<Rightarrow> (id \<times> blob) list \<Rightarrow> id list \<Rightarrow> entry_row list \<Rightarrow> project_entry list" where
  "hydrateWith db p keyOf envIds rows = map (\<lambda>r.
     \<lparr>en_id = pe_id r, en_projectId = pe_projectId r, en_revision = pe_revision r, en_seq = pe_seq r,
      en_updatedAt = pe_updatedAt r,
      en_body = (if pe_deleted r then Tombstone (pe_type r) else (case pe_encryptedMeta r of
          None \<Rightarrow> Tombstone (pe_type r)
        | Some meta \<Rightarrow> (case pe_type r of
             EnvironmentE \<Rightarrow> EnvironmentBody meta (map_of keyOf (pe_id r))
           | FolderE \<Rightarrow> FolderBody meta
           | SecretE \<Rightarrow> SecretBody meta (values_seen db p envIds (pe_id r)))))\<rparr>) rows"

definition hydrate :: "team_db \<Rightarrow> id \<Rightarrow> id \<Rightarrow> entry_row list \<Rightarrow> project_entry list" where
  "hydrate db p viewer rows =
     (let keyOf = map (\<lambda>g. (kg_resourceId g, kg_wrappedKey g)) (grants_held p viewer db)
      in hydrateWith db p keyOf (filter (\<lambda>i. i \<noteq> p) (map fst keyOf)) rows)"

definition viewerEnvironments :: "team_db \<Rightarrow> id \<Rightarrow> id \<Rightarrow> id list" where
  "viewerEnvironments db p viewer = filter (\<lambda>i. i \<noteq> p) (js_set (map kg_resourceId (grants_held p viewer db)))"

text \<open>\<open>collate\<close> is the sort key of \<^verbatim>\<open>localeCompare\<close>.\<close>

definition toSecretVersion :: "(id \<Rightarrow> string) \<Rightarrow> id list \<Rightarrow> secret_version_row \<Rightarrow> secret_version" where
  "toSecretVersion collate environments r = \<lparr>sn_revision = ve_revision r, sn_savedAt = ve_savedAt r,
     sn_encryptedMeta = ve_encryptedMeta r,
     sn_values = sort_key (\<lambda>x. collate (fst x)) (filter (\<lambda>x. fst x \<in> set environments) (ve_values r))\<rparr>"

section \<open>Writing an entry\<close>

definition find_entry :: "id \<Rightarrow> id \<Rightarrow> team_db \<Rightarrow> entry_row option" where
  "find_entry p i db = find (\<lambda>e. pe_projectId e = p \<and> pe_id e = i) (tb_entries db)"

definition keepSecretVersion :: "entry_row \<Rightarrow> blob \<Rightarrow> team_db \<Rightarrow> team_db" where
  "keepSecretVersion current encryptedMeta db =
     (let vs = filter (\<lambda>v. vl_projectId v = pe_projectId current \<and> vl_secretId v = pe_id current) (tb_values db);
          row = \<lparr>ve_projectId = pe_projectId current, ve_secretId = pe_id current, ve_revision = pe_revision current,
            ve_encryptedMeta = encryptedMeta, ve_values = map (\<lambda>v. (vl_environmentId v, vl_encryptedValue v)) vs,
            ve_savedAt = pe_updatedAt current\<rparr>
      in db\<lparr>tb_versions := delete_where (\<lambda>v. ve_projectId v = pe_projectId current \<and> ve_secretId v = pe_id current \<and>
              int (ve_revision v) \<le> int (pe_revision current) - int MAX_VERSIONS_PER_RECORD) (tb_versions db @ [row])\<rparr>)"

text \<open>Forgets an environment's values in old versions.\<close>

definition dropVersionValues :: "id \<Rightarrow> id \<Rightarrow> team_db \<Rightarrow> team_db" where
  "dropVersionValues p i db = db\<lparr>tb_versions := update_where (\<lambda>v. ve_projectId v = p)
     (\<lambda>v. v\<lparr>ve_values := filter (\<lambda>x. fst x \<noteq> i) (ve_values v)\<rparr>) (tb_versions db)\<rparr>"

definition written_entry :: "entry_write \<Rightarrow> nat \<Rightarrow> entry_row" where
  "written_entry w seq = \<lparr>pe_projectId = ew_projectId w, pe_id = ew_id w, pe_type = ew_type w,
     pe_revision = ew_baseRevision w + 1, pe_seq = seq, pe_deleted = (ew_encryptedMeta w = None),
     pe_encryptedMeta = ew_encryptedMeta w, pe_updatedAt = ew_now w\<rparr>"

definition write_environment :: "entry_write \<Rightarrow> team_db \<Rightarrow> team_db" where
  "write_environment w db =
     (let p = ew_projectId w; i = ew_id w
      in if ew_encryptedMeta w = None
         then delete_env_access (\<lambda>e. ea_projectId e = p \<and> ea_environmentId e = i) (dropVersionValues p i
           (db\<lparr>tb_values := delete_where (\<lambda>v. vl_projectId v = p \<and> vl_environmentId v = i) (tb_values db),
               tb_keyGrants := delete_where (\<lambda>g. kg_projectId g = p \<and> kg_resourceId g = i) (tb_keyGrants db)\<rparr>))
         else (case ew_keyGrant w of
             None \<Rightarrow> db
           | Some (a, k) \<Rightarrow> db\<lparr>tb_keyGrants := upsert kg_key (own_grant p i a k) (\<lambda>g. g\<lparr>kg_wrappedKey := k\<rparr>) (tb_keyGrants db)\<rparr>))"

definition write_value :: "entry_write \<Rightarrow> id \<times> blob option \<Rightarrow> value_row list \<Rightarrow> value_row list" where
  "write_value w ev t = (case snd ev of
     None \<Rightarrow> delete_where (\<lambda>v. vl_key v = (ew_projectId w, ew_id w, fst ev)) t
   | Some x \<Rightarrow>
       (let row = \<lparr>vl_projectId = ew_projectId w, vl_secretId = ew_id w, vl_environmentId = fst ev,
                   vl_encryptedValue = x, vl_updatedAt = ew_now w\<rparr>
        in upsert vl_key row (\<lambda>_. row) t))"

definition write_secret :: "entry_write \<Rightarrow> team_db \<Rightarrow> team_db" where
  "write_secret w db =
     (if ew_encryptedMeta w = None
      then db\<lparr>tb_values := delete_where (\<lambda>v. vl_projectId v = ew_projectId w \<and> vl_secretId v = ew_id w) (tb_values db)\<rparr>
      else db\<lparr>tb_values := fold (write_value w) (ew_values w) (tb_values db)\<rparr>)"

text \<open>Everything the transaction writes once its checks have passed.\<close>

definition apply_write :: "entry_write \<Rightarrow> project_row \<Rightarrow> entry_row option \<Rightarrow> team_db \<Rightarrow> team_db" where
  "apply_write w project current db =
     (let seq = pj_seq project + 1;
          db1 = db\<lparr>tb_projects := update_where (\<lambda>x. pj_id x = ew_projectId w) (\<lambda>x. x\<lparr>pj_seq := seq\<rparr>) (tb_projects db)\<rparr>;
          db2 = (case current of
              None \<Rightarrow> db1
            | Some c \<Rightarrow> (case pe_encryptedMeta c of
                None \<Rightarrow> db1
              | Some meta \<Rightarrow> if ew_type w = SecretE \<and> \<not> pe_deleted c then keepSecretVersion c meta db1 else db1));
          row = written_entry w seq;
          db3 = db2\<lparr>tb_entries := upsert pe_key row (\<lambda>_. row) (tb_entries db2)\<rparr>
      in (case ew_type w of EnvironmentE \<Rightarrow> write_environment w db3 | FolderE \<Rightarrow> db3 | SecretE \<Rightarrow> write_secret w db3))"

definition live_count :: "id \<Rightarrow> entry_type \<Rightarrow> team_db \<Rightarrow> nat" where
  "live_count p t db = length (filter (\<lambda>e. pe_projectId e = p \<and> pe_type e = t \<and> \<not> pe_deleted e) (tb_entries db))"

definition writeEntry :: "entry_write \<Rightarrow> team_db \<Rightarrow> entry_write_result \<times> team_db" where
  "writeEntry w db =
     (let p = ew_projectId w; current = find_entry p (ew_id w) db in
      case find (\<lambda>x. pj_id x = p) (tb_projects db) of
        None \<Rightarrow> (WriteNotFound, db)
      | Some project \<Rightarrow>
          if (case current of None \<Rightarrow> False | Some c \<Rightarrow> pe_type c \<noteq> ew_type w) then (WriteTypeMismatch, db)
          else if (case current of None \<Rightarrow> 0 | Some c \<Rightarrow> pe_revision c) \<noteq> ew_baseRevision w
          then (case current of
              None \<Rightarrow> (WriteNotFound, db)
            | Some c \<Rightarrow> (WriteConflict (hd (hydrate db p (ew_viewer w) [c])), db))
          else if ew_encryptedMeta w = None \<and> (case current of None \<Rightarrow> False | Some c \<Rightarrow> pe_deleted c)
          then (WriteNotFound, db)
          else if ew_encryptedMeta w \<noteq> None \<and> (case current of None \<Rightarrow> True | Some c \<Rightarrow> pe_deleted c) \<and>
             ew_limit w \<le> live_count p (ew_type w) db
          then (WriteLimit, db)
          else if ew_values w \<noteq> [] \<and>
             length (filter (\<lambda>e. pe_projectId e = p \<and> pe_type e = EnvironmentE \<and> \<not> pe_deleted e \<and>
               pe_id e \<in> fst ` set (ew_values w)) (tb_entries db)) \<noteq> length (ew_values w)
          then (WriteUnknownEnvironment, db)
          else
            let db' = apply_write w project current db
            in (WriteOk (hd (hydrate db' p (ew_viewer w) [written_entry w (pj_seq project + 1)])), db'))"

section \<open>History, trash and feeds\<close>

definition listSecretVersions :: "(id \<Rightarrow> string) \<Rightarrow> id \<Rightarrow> id \<Rightarrow> id \<Rightarrow> team_db \<Rightarrow> secret_version list" where
  "listSecretVersions collate p secretId viewer db = map (toSecretVersion collate (viewerEnvironments db p viewer))
     (sort_key (\<lambda>v. - int (ve_revision v)) (filter (\<lambda>v. ve_projectId v = p \<and> ve_secretId v = secretId) (tb_versions db)))"

text \<open>\<^verbatim>\<open>selectDistinctOn\<close> keeps the first row of each entry: its newest version.\<close>

definition projects_listTrash :: "(id \<Rightarrow> string) \<Rightarrow> id \<Rightarrow> time \<Rightarrow> id \<Rightarrow> team_db \<Rightarrow> trashed_secret list" where
  "projects_listTrash collate p since viewer db =
     (let environments = viewerEnvironments db p viewer;
          entries = sort_key pe_id (filter (\<lambda>e. pe_projectId e = p \<and> pe_type e = SecretE \<and> pe_deleted e \<and>
            since \<le> pe_updatedAt e) (tb_entries db))
      in sort_key (\<lambda>t. - ts_deletedAt t) (concat (map (\<lambda>e.
           case sort_key (\<lambda>v. - int (ve_revision v))
               (filter (\<lambda>v. ve_projectId v = p \<and> ve_secretId v = pe_id e) (tb_versions db)) of
             [] \<Rightarrow> []
           | v # _ \<Rightarrow> [\<lparr>ts_id = pe_id e, ts_revision = pe_revision e, ts_deletedAt = pe_updatedAt e,
               ts_lastVersion = toSecretVersion collate environments v\<rparr>]) entries)))"

definition projects_purgeTrash :: "id \<Rightarrow> id option \<Rightarrow> time \<Rightarrow> team_db \<Rightarrow> nat \<times> team_db" where
  "projects_purgeTrash p secretId before db =
     (let deleted = map pe_id (filter (\<lambda>e. pe_projectId e = p \<and> pe_type e = SecretE \<and> pe_deleted e \<and>
            (case secretId of None \<Rightarrow> pe_updatedAt e < before | Some i \<Rightarrow> pe_id e = i)) (tb_entries db));
          hit = (\<lambda>v. ve_projectId v = p \<and> ve_secretId v \<in> set deleted)
      in if deleted = [] then (0, db)
         else (length (js_set (map ve_secretId (filter hit (tb_versions db)))),
               db\<lparr>tb_versions := delete_where hit (tb_versions db)\<rparr>))"

definition projects_purgeExpired :: "time \<Rightarrow> team_db \<Rightarrow> team_db" where
  "projects_purgeExpired before db = db\<lparr>tb_versions := delete_where (\<lambda>v. \<exists>e \<in> set (tb_entries db).
     pe_projectId e = ve_projectId v \<and> pe_id e = ve_secretId v \<and> pe_deleted e \<and> pe_updatedAt e < before) (tb_versions db)\<rparr>"

definition changed_entries :: "id \<Rightarrow> nat \<Rightarrow> nat \<Rightarrow> team_db \<Rightarrow> entry_row list" where
  "changed_entries p since limit db = take limit (sort_key pe_seq
     (filter (\<lambda>e. pe_projectId e = p \<and> since < pe_seq e) (tb_entries db)))"

definition entry_changes :: "id \<Rightarrow> id \<Rightarrow> nat \<Rightarrow> nat \<Rightarrow> team_db \<Rightarrow> project_entry list" where
  "entry_changes p viewer since limit db = hydrate db p viewer (changed_entries p since limit db)"

definition listChangesForToken :: "id \<Rightarrow> id list \<Rightarrow> nat \<Rightarrow> nat \<Rightarrow> team_db \<Rightarrow> project_entry list" where
  "listChangesForToken p environmentIds since limit db = hydrateWith db p [] environmentIds (changed_entries p since limit db)"

end
