(* ===== verification/EnvKeys.thy ===== *)
theory EnvKeys
  imports Environments ProjectsStore
begin

text \<open>
  Handing out and rotating the keys of environments: the key half of \<^verbatim>\<open>EnvironmentsService\<close>.
\<close>

record member_wrap =
  mw_recipientId :: id
  mw_recipientPublicKey :: string
  mw_wrapperPublicKey :: string
  mw_ephemeralPublicKey :: string
  mw_blob :: blob

record stored_wrap =
  sw_recipientId :: id
  sw_blob :: blob
  sw_box :: wrap_box

record my_environment_key =
  mk_environmentId :: id
  mk_keyVersion :: nat
  mk_level :: access_level
  mk_wrap :: "stored_wrap option"

definition toStored :: "id \<Rightarrow> blob \<Rightarrow> wrap_box \<Rightarrow> stored_wrap" where
  "toStored accountId wrappedKey box = \<lparr>sw_recipientId = accountId, sw_blob = wrappedKey, sw_box = box\<rparr>"

definition myKeys :: "id \<Rightarrow> id \<Rightarrow> time \<Rightarrow> team_db \<Rightarrow>
    (stored_wrap option \<times> my_environment_key list) team_outcome" where
  "myKeys accountId p now db = and_then (visibleProject accountId p now db) (\<lambda>(project, me) db.
     case projectLevels project now db of ((envs, byEnv), db) \<Rightarrow>
       (let held = filter (\<lambda>g. kg_projectId g = p \<and> kg_accountId g = accountId) (tb_keyGrants db);
            wrapOf = (\<lambda>i. case find (\<lambda>g. kg_resourceId g = i) held of
                None \<Rightarrow> None
              | Some g \<Rightarrow> map_option (toStored accountId (kg_wrappedKey g)) (kg_box g))
        in ret (wrapOf p, map (\<lambda>e. \<lparr>mk_environmentId = ea_environmentId e, mk_keyVersion = ea_keyVersion e,
              mk_level = (case map_of byEnv (ea_environmentId e) of
                  None \<Rightarrow> NoAccess | Some levels \<Rightarrow> level_in levels (holderKey AccountP accountId)),
              mk_wrap = wrapOf (ea_environmentId e)\<rparr>) envs) db))"

fun checkWraps :: "member_wrap list \<Rightarrow> string option \<Rightarrow> (string \<times> string) list \<Rightarrow> (id \<Rightarrow> bool) \<Rightarrow> id list \<Rightarrow>
    http_error option" where
  "checkWraps [] wrapperKey keys allowed seen = None"
| "checkWraps (w # ws) wrapperKey keys allowed seen =
     (if mw_recipientId w \<in> set seen then Some (Unprocessable ''Duplicate recipient'')
      else if \<not> allowed (mw_recipientId w) then Some (Unprocessable ''has no access to this key'')
      else if map_of keys (holderKey AccountP (mw_recipientId w)) \<noteq> Some (mw_recipientPublicKey w)
      then Some (Conflict ''The key on file changed; fetch it again'')
      else if Some (mw_wrapperPublicKey w) \<noteq> wrapperKey
      then Some (Conflict ''Your sharing key does not match the one on file'')
      else checkWraps ws wrapperKey keys allowed (mw_recipientId w # seen))"

definition wrap_grant :: "id \<Rightarrow> id \<Rightarrow> nat option \<Rightarrow> id \<Rightarrow> member_wrap \<Rightarrow> key_grant" where
  "wrap_grant p resourceId keyVersion wrappedBy w = \<lparr>kg_projectId = p, kg_resourceId = resourceId,
     kg_accountId = mw_recipientId w, kg_wrappedKey = mw_blob w,
     kg_box = Some \<lparr>bx_recipientPublicKey = mw_recipientPublicKey w, bx_wrapperPublicKey = mw_wrapperPublicKey w,
       bx_ephemeralPublicKey = mw_ephemeralPublicKey w, bx_keyVersion = keyVersion, bx_wrappedBy = wrappedBy\<rparr>\<rparr>"

definition account_level :: "env \<Rightarrow> id \<Rightarrow> time \<Rightarrow> team_db \<Rightarrow> access_level" where
  "account_level env a now db = levelOf env \<lparr>kh_type = AccountP, kh_id = a\<rparr> now db"

text \<open>The matrix of one environment.\<close>

definition env_levels :: "env \<Rightarrow> time \<Rightarrow> team_db \<Rightarrow> (string \<times> access_level) list" where
  "env_levels env now db = allLevels (grants_of (ea_environmentId (fst env)) db)
     (org_of (ea_orgId (fst env)) (Some (snd env)) db) now"

text \<open>Requests carry at least one wrap.\<close>

definition addEnvironmentWraps :: "id \<Rightarrow> id \<Rightarrow> nat \<Rightarrow> member_wrap list \<Rightarrow> time \<Rightarrow> team_db \<Rightarrow> unit team_outcome" where
  "addEnvironmentWraps accountId i keyVersion wraps now db = and_then (env_visible accountId i now db) (\<lambda>(env, me) db.
     if \<not> levelAtLeast (account_level env accountId now db) Manage
     then throw (Forbidden ''Only managers can hand out the key'') db
     else if keyVersion \<noteq> ea_keyVersion (fst env)
     then throw (Conflict ''The environment key was rotated; wrap the current version'') db
     else case checkWraps wraps (om_publicKey me) (org_keys (ea_orgId (fst env)) db)
            (\<lambda>a. holdsKey (level_in (env_levels env now db) (holderKey AccountP a))) [] of
          Some e \<Rightarrow> throw e db
        | None \<Rightarrow> ret () (db\<lparr>tb_keyGrants := insert_all_new kg_key
            (map (wrap_grant (ea_projectId (fst env)) i (Some (ea_keyVersion (fst env))) accountId) wraps)
            (tb_keyGrants db)\<rparr>))"

definition addProjectWraps :: "id \<Rightarrow> id \<Rightarrow> member_wrap list \<Rightarrow> time \<Rightarrow> team_db \<Rightarrow> unit team_outcome" where
  "addProjectWraps accountId p wraps now db = and_then (visibleProject accountId p now db) (\<lambda>(project, me) db.
     case canWrapProjectKey project accountId (om_role me) now db of (can, db) \<Rightarrow>
       if \<not> can then throw (Forbidden ''You cannot hand out this project key'') db
       else case projectKeyHolders project now db of (holders, db) \<Rightarrow>
         (case checkWraps wraps (om_publicKey me) (org_keys (lp_orgId project) db) (\<lambda>a. a \<in> set holders) [] of
            Some e \<Rightarrow> throw e db
          | None \<Rightarrow> ret () (db\<lparr>tb_keyGrants := insert_all_new kg_key (map (wrap_grant p p None accountId) wraps)
              (tb_keyGrants db)\<rparr>)))"

section \<open>Rotation\<close>

definition key_holders :: "env \<Rightarrow> time \<Rightarrow> team_db \<Rightarrow> id list" where
  "key_holders env now db = map (\<lambda>(key, level). account_of_key key)
     (filter (\<lambda>(key, level). is_account_key key \<and> holdsKey level \<and>
        map_of (org_keys (ea_orgId (fst env)) db) key \<noteq> None) (env_levels env now db))"

definition reseal :: "id \<Rightarrow> id \<Rightarrow> time \<Rightarrow> id \<times> blob \<Rightarrow> value_row list \<Rightarrow> value_row list" where
  "reseal p i now v = update_where (\<lambda>x. vl_projectId x = p \<and> vl_secretId x = fst v \<and> vl_environmentId x = i)
     (\<lambda>x. x\<lparr>vl_encryptedValue := snd v, vl_updatedAt := now\<rparr>)"

definition touch_entry :: "id \<Rightarrow> time \<Rightarrow> nat \<times> id \<Rightarrow> entry_row list \<Rightarrow> entry_row list" where
  "touch_entry p now t = update_where (\<lambda>e. pe_projectId e = p \<and> pe_id e = snd t)
     (\<lambda>e. e\<lparr>pe_seq := fst t, pe_updatedAt := now\<rparr>)"

text \<open>The writes of the transaction.\<close>

definition rotate_writes :: "env \<Rightarrow> id \<Rightarrow> member_wrap list \<Rightarrow> (id \<times> blob) list \<Rightarrow> time \<Rightarrow> team_db \<Rightarrow> team_db" where
  "rotate_writes env accountId wraps values now db =
     (let p = ea_projectId (fst env); i = ea_environmentId (fst env); next = ea_keyVersion (fst env) + 1;
          seq = (case find (\<lambda>x. pj_id x = p) (tb_projects db) of None \<Rightarrow> 0 | Some x \<Rightarrow> pj_seq x);
          touched = i # map fst values;
          db1 = dropVersionValues p i (db\<lparr>
            tb_envAccess := update_where (\<lambda>e. ea_environmentId e = i \<and> ea_keyVersion e = ea_keyVersion (fst env))
              (\<lambda>e. e\<lparr>ea_keyVersion := next, ea_rotationRequiredAt := None\<rparr>) (tb_envAccess db),
            tb_keyGrants := delete_where (\<lambda>g. kg_projectId g = p \<and> kg_resourceId g = i) (tb_keyGrants db) @
              map (wrap_grant p i (Some next) accountId) wraps\<rparr>)
      in db1\<lparr>tb_values := fold (reseal p i now) values (tb_values db1),
             tb_entries := fold (touch_entry p now) (enumerate (seq + 1) touched) (tb_entries db1),
             tb_projects := update_where (\<lambda>x. pj_id x = p) (\<lambda>x. x\<lparr>pj_seq := seq + length touched\<rparr>) (tb_projects db1)\<rparr>)"

definition rotateKey :: "id \<Rightarrow> id \<Rightarrow> nat \<Rightarrow> member_wrap list \<Rightarrow> (id \<times> blob) list \<Rightarrow> time \<Rightarrow> team_db \<Rightarrow> env team_outcome" where
  "rotateKey accountId i fromVersion wraps values now db = and_then (env_visible accountId i now db) (\<lambda>(env, me) db.
     let p = ea_projectId (fst env); holders = key_holders env now db in
     if \<not> levelAtLeast (account_level env accountId now db) Manage
     then throw (Forbidden ''Only managers can rotate the key'') db
     else if fromVersion \<noteq> ea_keyVersion (fst env)
     then throw (Conflict ''Someone else rotated this environment first'') db
     else case checkWraps wraps (om_publicKey me) (org_keys (ea_orgId (fst env)) db) (\<lambda>a. a \<in> set holders) [] of
       Some e \<Rightarrow> throw e db
     | None \<Rightarrow>
        if \<exists>a \<in> set holders. a \<notin> mw_recipientId ` set wraps
        then throw (Unprocessable ''Wrap the new key for everyone with access'') db
        else if \<exists>v \<in> set values. bl_kid (snd v) \<noteq> i
        then throw (Unprocessable ''Values must be sealed with the key of this environment'') db
        else
          let want = js_set (map vl_secretId (filter (\<lambda>v. vl_projectId v = p \<and> vl_environmentId v = i) (tb_values db)));
              got = js_set (map fst values)
          in if length want \<noteq> length got \<or> (\<exists>s \<in> set want. s \<notin> set got) \<or> length got \<noteq> length values
             then throw (Conflict ''Re-seal exactly the current values of the environment; sync and retry'') db
             else if \<not> list_ex (\<lambda>e. ea_environmentId e = i \<and> ea_keyVersion e = ea_keyVersion (fst env)) (tb_envAccess db)
             then throw (Conflict ''Someone else rotated this environment first'') db
             else ret env (rotate_writes env accountId wraps values now db))"

definition rotate_env :: "id \<Rightarrow> id \<Rightarrow> nat \<Rightarrow> member_wrap list \<Rightarrow> (id \<times> blob) list \<Rightarrow> time \<Rightarrow> team_db \<Rightarrow>
    environment_detail team_outcome" where
  "rotate_env accountId i fromVersion wraps values now db =
     and_then (rotateKey accountId i fromVersion wraps values now db) (\<lambda>env db.
       env_detail accountId i now (record_activity now [\<lparr>ar_projectId = ea_projectId (fst env), ar_action = ''key.rotated'',
         ar_actorType = AccountP, ar_actorId = accountId, ar_environmentId = Some i, ar_targetId = Some i,
         ar_detail = RotationDetail (ea_keyVersion (fst env) + 1) (length values)\<rparr>] db))"

end
