(* ===== verification/Approvals.thy ===== *)
theory Approvals
  imports Environments
begin

text \<open>
  Requests of members and agents who need approval for each use: the approval half of
  \<^verbatim>\<open>EnvironmentsService\<close>, and the check other modules make (\<^verbatim>\<open>require\<close>).
\<close>

definition requestTtlSeconds :: int where "requestTtlSeconds = 60 * 60"
definition releaseTtlSeconds :: int where "releaseTtlSeconds = 15 * 60"

datatype request_shown = ShownPending | ShownApproved | ShownDenied | ShownExpired

record access_request_view =
  rv_id :: id
  rv_environmentId :: id
  rv_requesterType :: principal_type
  rv_requesterId :: id
  rv_requesterName :: string
  rv_requesterPublicKey :: string
  rv_items :: "id list"
  rv_reason :: string
  rv_status :: request_shown
  rv_createdAt :: time
  rv_expiresAt :: time
  rv_decidedBy :: "id option"
  rv_release :: "stored_release option"

definition shown_status :: "request_row \<Rightarrow> time \<Rightarrow> request_shown" where
  "shown_status r now = (case rq_status r of
     Pending \<Rightarrow> if rq_expiresAt r \<le> now then ShownExpired else ShownPending
   | ApprovedRequest \<Rightarrow> ShownApproved
   | DeniedRequest \<Rightarrow> ShownDenied)"

definition release_live :: "request_row \<Rightarrow> time \<Rightarrow> bool" where
  "release_live r now \<longleftrightarrow> rq_status r = ApprovedRequest \<and> rq_release r \<noteq> None \<and>
     (case rq_releaseExpiresAt r of None \<Rightarrow> False | Some t \<Rightarrow> now < t)"

definition request_view :: "request_row \<Rightarrow> string \<Rightarrow> bool \<Rightarrow> time \<Rightarrow> access_request_view" where
  "request_view r name forRequester now = \<lparr>rv_id = rq_id r, rv_environmentId = rq_environmentId r,
     rv_requesterType = rq_requesterType r, rv_requesterId = rq_requesterId r, rv_requesterName = name,
     rv_requesterPublicKey = rq_requesterPublicKey r, rv_items = rq_items r, rv_reason = rq_reason r,
     rv_status = shown_status r now, rv_createdAt = rq_createdAt r, rv_expiresAt = rq_expiresAt r,
     rv_decidedBy = rq_decidedBy r,
     rv_release = (if forRequester \<and> release_live r now then rq_release r else None)\<rparr>"

definition new_request :: "id \<Rightarrow> key_holder \<Rightarrow> id \<Rightarrow> string \<Rightarrow> id list \<Rightarrow> string \<Rightarrow> time \<Rightarrow> request_row" where
  "new_request newId h i publicKey items reason now = \<lparr>rq_id = newId, rq_environmentId = i, rq_requesterType = kh_type h,
     rq_requesterId = kh_id h, rq_requesterPublicKey = publicKey, rq_items = items, rq_reason = reason,
     rq_status = Pending, rq_expiresAt = now + requestTtlSeconds * 1000, rq_decidedBy = None, rq_decidedAt = None,
     rq_release = None, rq_releaseExpiresAt = None, rq_createdAt = now\<rparr>"

text \<open>\<open>newId\<close> is the id the database draws.\<close>

definition createRequest :: "key_holder \<Rightarrow> id \<Rightarrow> id list \<Rightarrow> string \<Rightarrow> time \<Rightarrow> id \<Rightarrow> team_db \<Rightarrow> access_request_view team_outcome" where
  "createRequest h i items reason now newId db = and_then (environment i now db) (\<lambda>env db.
     and_then (if kh_type h = AccountP then and_then (org_member (ea_orgId (fst env)) (kh_id h) True db) (\<lambda>_ db. ret () db)
               else ret () db) (\<lambda>_ db.
     let level = levelOf env h now db in
     if level \<noteq> NeedsApproval
     then throw (Forbidden (if holdsKey level then ''You already have access; no approval needed''
            else ''No access to this environment'')) db
     else case map_of (org_keys (ea_orgId (fst env)) db) (holderKey (kh_type h) (kh_id h)) of
         None \<Rightarrow> throw (DbError ''requester_public_key'') db
       | Some publicKey \<Rightarrow>
          (let r = new_request newId h i publicKey items reason now
           in case insert_new rq_id r (tb_requests db) of
                None \<Rightarrow> throw (DbError ''access_requests'') db
              | Some t \<Rightarrow>
                  let db' = record_activity now [\<lparr>ar_projectId = ea_projectId (fst env), ar_action = ''request.created'',
                    ar_actorType = kh_type h, ar_actorId = kh_id h, ar_environmentId = Some i, ar_targetId = Some newId,
                    ar_detail = ItemsDetail (length items)\<rparr>] (db\<lparr>tb_requests := t\<rparr>)
                  in ret (request_view r (shown_name db' (kh_type h) (kh_id h)) True now) db')))"

definition listRequests :: "id \<Rightarrow> id \<Rightarrow> time \<Rightarrow> team_db \<Rightarrow> access_request_view list team_outcome" where
  "listRequests accountId i now db = and_then (env_visible accountId i now db) (\<lambda>(env, me) db.
     let manager = levelAtLeast (levelOf env \<lparr>kh_type = AccountP, kh_id = accountId\<rparr> now db) Manage;
         mine = (\<lambda>r. rq_requesterType r = AccountP \<and> rq_requesterId r = accountId);
         rows = sort_key (\<lambda>r. - rq_createdAt r) (filter (\<lambda>r. rq_environmentId r = i \<and>
           (if manager then rq_status r = Pending else mine r)) (tb_requests db))
     in ret (filter (\<lambda>v. \<not> manager \<or> rv_status v = ShownPending)
          (map (\<lambda>r. request_view r (shown_name db (rq_requesterType r) (rq_requesterId r)) (mine r) now) rows)) db)"

definition getRequest :: "key_holder \<Rightarrow> id \<Rightarrow> time \<Rightarrow> team_db \<Rightarrow> access_request_view team_outcome" where
  "getRequest h i now db = (case find (\<lambda>r. rq_id r = i) (tb_requests db) of
     None \<Rightarrow> throw (NotFound '''') db
   | Some r \<Rightarrow>
       let isRequester = (rq_requesterType r = kh_type h \<and> rq_requesterId r = kh_id h);
           answer = (\<lambda>db. ret (request_view r (shown_name db (rq_requesterType r) (rq_requesterId r)) isRequester now) db)
       in if isRequester then answer db
          else if kh_type h \<noteq> AccountP then throw (NotFound '''') db
          else and_then (environment (rq_environmentId r) now db) (\<lambda>env db.
            and_then (org_member (ea_orgId (fst env)) (kh_id h) True db) (\<lambda>_ db.
              if \<not> levelAtLeast (levelOf env h now db) Manage then throw (NotFound '''') db else answer db)))"

definition decidable_request :: "id \<Rightarrow> id \<Rightarrow> time \<Rightarrow> team_db \<Rightarrow> (request_row \<times> env \<times> member_row) team_outcome" where
  "decidable_request accountId i now db = (case find (\<lambda>r. rq_id r = i) (tb_requests db) of
     None \<Rightarrow> throw (NotFound '''') db
   | Some r \<Rightarrow> and_then (env_visible accountId (rq_environmentId r) now db) (\<lambda>(env, me) db.
       if \<not> levelAtLeast (levelOf env \<lparr>kh_type = AccountP, kh_id = accountId\<rparr> now db) Manage
       then throw (Forbidden ''Only managers can decide requests'') db
       else if rq_status r \<noteq> Pending \<or> rq_expiresAt r \<le> now
       then throw (Conflict ''This request was already decided or has expired'') db
       else ret (r, env, me) db))"

definition recordDecision :: "id \<Rightarrow> id \<Rightarrow> request_row \<Rightarrow> string \<Rightarrow> time \<Rightarrow> team_db \<Rightarrow> team_db" where
  "recordDecision accountId p r action now db = record_activity now
     [\<lparr>ar_projectId = p, ar_action = action, ar_actorType = AccountP, ar_actorId = accountId,
       ar_environmentId = Some (rq_environmentId r), ar_targetId = Some (rq_id r),
       ar_detail = PrincipalDetail (rq_requesterType r) (rq_requesterId r)
         (name_of db (rq_requesterType r) (rq_requesterId r)) None (Some (length (rq_items r)))\<rparr>] db"

text \<open>The write of a decision, which only a pending request takes.\<close>

definition decide :: "id \<Rightarrow> (request_row \<Rightarrow> request_row) \<Rightarrow> team_db \<Rightarrow> (request_row option \<times> team_db)" where
  "decide i f db = (let hit = (\<lambda>r. rq_id r = i \<and> rq_status r = Pending)
     in (map_option f (find hit (tb_requests db)), db\<lparr>tb_requests := update_where hit f (tb_requests db)\<rparr>))"

definition approved_by :: "id \<Rightarrow> stored_release \<Rightarrow> time \<Rightarrow> request_row \<Rightarrow> request_row" where
  "approved_by a release now r = r\<lparr>rq_status := ApprovedRequest, rq_decidedBy := Some a, rq_decidedAt := Some now,
     rq_release := Some release, rq_releaseExpiresAt := Some (now + releaseTtlSeconds * 1000)\<rparr>"

definition denied_by :: "id \<Rightarrow> time \<Rightarrow> request_row \<Rightarrow> request_row" where
  "denied_by a now r = r\<lparr>rq_status := DeniedRequest, rq_decidedBy := Some a, rq_decidedAt := Some now\<rparr>"

definition approve_request :: "id \<Rightarrow> id \<Rightarrow> stored_release \<Rightarrow> time \<Rightarrow> team_db \<Rightarrow> access_request_view team_outcome" where
  "approve_request accountId i release now db = and_then (decidable_request accountId i now db) (\<lambda>(r, env, me) db.
     if Some (rl_approverPublicKey release) \<noteq> om_publicKey me
     then throw (Conflict ''Your sharing key does not match the one on file'') db
     else if levelOf env \<lparr>kh_type = rq_requesterType r, kh_id = rq_requesterId r\<rparr> now db \<noteq> NeedsApproval
     then throw (Conflict ''The access of the requester changed; the request no longer applies'') db
     else case decide i (approved_by accountId release now) db of
         (None, db) \<Rightarrow> throw (Conflict ''This request was already decided'') db
       | (Some row, db) \<Rightarrow>
           let db = recordDecision accountId (ea_projectId (fst env)) row ''request.approved'' now db
           in ret (request_view row (shown_name db (rq_requesterType row) (rq_requesterId row)) False now) db)"

definition deny_request :: "id \<Rightarrow> id \<Rightarrow> time \<Rightarrow> team_db \<Rightarrow> access_request_view team_outcome" where
  "deny_request accountId i now db = and_then (decidable_request accountId i now db) (\<lambda>(r, env, me) db.
     case decide i (denied_by accountId now) db of
       (None, db) \<Rightarrow> throw (Conflict ''This request was already decided'') db
     | (Some row, db) \<Rightarrow>
         let db = recordDecision accountId (ea_projectId (fst env)) row ''request.denied'' now db
         in ret (request_view row (shown_name db (rq_requesterType row) (rq_requesterId row)) False now) db)"

definition require_level :: "key_holder \<Rightarrow> id \<Rightarrow> access_level \<Rightarrow> time \<Rightarrow> team_db \<Rightarrow> access_level team_outcome" where
  "require_level h i required now db = and_then (environment i now db) (\<lambda>env db.
     let level = levelOf env h now db in
     if \<not> levelAtLeast level required then throw (Forbidden '''') db else ret level db)"

end
