(* ===== verification/Orgs.thy ===== *)
theory Orgs
  imports Facts
begin

text \<open>
  \<^verbatim>\<open>OrgsService\<close> (\<^verbatim>\<open>apps/api/src/access/orgs.service.ts\<close>): organizations, their members,
  groups and agents. Ids the database draws are arguments; invitations mailed are kept in
  \<open>tb_invites\<close> (address, organization, inviter). \<open>collate\<close> is the order of the database's text.
\<close>

definition groupsPerOrg :: nat where "groupsPerOrg = 100"
definition agentsPerOrg :: nat where "agentsPerOrg = 100"

record org_member_view =
  mv_accountId :: id
  mv_email :: string
  mv_role :: org_role
  mv_active :: bool
  mv_publicKey :: "string option"
  mv_groupIds :: "id list"

record org_group_view =
  gv_id :: id
  gv_name :: string
  gv_memberIds :: "id list"

record org_agent_view =
  ga_id :: id
  ga_name :: string
  ga_ownerId :: id
  ga_publicKey :: string
  ga_createdAt :: time

record org_detail =
  dt_id :: id
  dt_name :: string
  dt_role :: org_role
  dt_members :: "org_member_view list"
  dt_groups :: "org_group_view list"
  dt_agents :: "org_agent_view list"

definition toAgent :: "agent_row \<Rightarrow> org_agent_view" where
  "toAgent a = \<lparr>ga_id = ag_id a, ga_name = ag_name a, ga_ownerId = ag_ownerId a, ga_publicKey = ag_publicKey a,
     ga_createdAt = ag_createdAt a\<rparr>"

definition requireAdmin :: "id \<Rightarrow> id \<Rightarrow> team_db \<Rightarrow> member_row team_outcome" where
  "requireAdmin orgId accountId db = and_then (org_member orgId accountId True db) (\<lambda>me db.
     if om_role me \<notin> set ADMIN_ROLES then throw (Forbidden ''Only owners and admins can do that'') db else ret me db)"

definition member_view :: "string \<Rightarrow> id list \<Rightarrow> member_row \<Rightarrow> org_member_view" where
  "member_view email groupIds m = \<lparr>mv_accountId = om_accountId m, mv_email = email, mv_role = om_role m,
     mv_active = (om_publicKey m \<noteq> None), mv_publicKey = om_publicKey m, mv_groupIds = groupIds\<rparr>"

definition org_members_view :: "(string \<Rightarrow> string) \<Rightarrow> id \<Rightarrow> team_db \<Rightarrow> org_member_view list" where
  "org_members_view collate orgId db = sort_key (\<lambda>v. collate (mv_email v))
     (concat (map (\<lambda>m. case find (\<lambda>a. ac_id a = om_accountId m) (tb_accounts db) of
          None \<Rightarrow> []
        | Some a \<Rightarrow> [member_view (ac_email a)
            (map gm_groupId (filter (\<lambda>g. gm_accountId g = om_accountId m) (org_memberships orgId db))) m])
       (filter (\<lambda>m. om_orgId m = orgId) (tb_members db))))"

definition detail_of_org :: "(string \<Rightarrow> string) \<Rightarrow> id \<Rightarrow> id \<Rightarrow> team_db \<Rightarrow> org_detail team_outcome" where
  "detail_of_org collate orgId accountId db = and_then (org_member orgId accountId True db) (\<lambda>me db.
     case find (\<lambda>x. or_id x = orgId) (tb_orgs db) of
       None \<Rightarrow> throw (DbError ''organizations'') db
     | Some org \<Rightarrow> ret \<lparr>dt_id = or_id org, dt_name = or_name org, dt_role = om_role me,
         dt_members = org_members_view collate orgId db,
         dt_groups = map (\<lambda>g. \<lparr>gv_id = gp_id g, gv_name = gp_name g,
             gv_memberIds = map gm_accountId (filter (\<lambda>m. gm_groupId m = gp_id g) (org_memberships orgId db))\<rparr>)
           (sort_key (\<lambda>g. collate (gp_name g)) (filter (\<lambda>g. gp_orgId g = orgId) (tb_groups db))),
         dt_agents = map toAgent (sort_key (\<lambda>a. collate (ag_name a)) (org_agents orgId db))\<rparr> db)"

definition org_create :: "(string \<Rightarrow> string) \<Rightarrow> id \<Rightarrow> string \<Rightarrow> string \<Rightarrow> id \<Rightarrow> team_db \<Rightarrow> org_detail team_outcome" where
  "org_create collate accountId name publicKey newId db =
     (case insert_new or_id \<lparr>or_id = newId, or_name = name, or_createdBy = accountId\<rparr> (tb_orgs db) of
        None \<Rightarrow> throw (DbError ''organizations'') db
      | Some orgs \<Rightarrow>
          (case insert_new om_key \<lparr>om_orgId = newId, om_accountId = accountId, om_role = OwnerR, om_publicKey = Some publicKey\<rparr>
              (tb_members db) of
             None \<Rightarrow> throw (DbError ''org_members'') db
           | Some members \<Rightarrow> detail_of_org collate newId accountId (db\<lparr>tb_orgs := orgs, tb_members := members\<rparr>)))"

text \<open>(id, name, role, active) of the caller's organizations.\<close>

definition org_list :: "(string \<Rightarrow> string) \<Rightarrow> id \<Rightarrow> team_db \<Rightarrow> (id \<times> string \<times> org_role \<times> bool) list" where
  "org_list collate accountId db = sort_key (\<lambda>(i, name, rest). collate name)
     (concat (map (\<lambda>m. case find (\<lambda>x. or_id x = om_orgId m) (tb_orgs db) of
          None \<Rightarrow> [] | Some x \<Rightarrow> [(or_id x, or_name x, om_role m, om_publicKey m \<noteq> None)])
       (filter (\<lambda>m. om_accountId m = accountId) (tb_members db))))"

definition sendInvite :: "id \<Rightarrow> id \<Rightarrow> string \<Rightarrow> team_db \<Rightarrow> team_db" where
  "sendInvite orgId inviterId to db =
     (case (find (\<lambda>x. or_id x = orgId) (tb_orgs db), find (\<lambda>a. ac_id a = inviterId) (tb_accounts db)) of
        (Some org, Some inviter) \<Rightarrow> db\<lparr>tb_invites := tb_invites db @ [(to, or_name org, ac_email inviter)]\<rparr>
      | _ \<Rightarrow> db)"

text \<open>The role is admin or member: the request cannot ask for an owner.\<close>

definition org_invite :: "id \<Rightarrow> id \<Rightarrow> string \<Rightarrow> bool \<Rightarrow> team_db \<Rightarrow> org_member_view team_outcome" where
  "org_invite orgId accountId email asAdmin db = and_then (requireAdmin orgId accountId db) (\<lambda>me db.
     if asAdmin \<and> om_role me \<noteq> OwnerR then throw (Forbidden ''Only owners can invite admins'') db
     else case find (\<lambda>a. ac_email a = js_lower (js_trim email)) (tb_accounts db) of
         None \<Rightarrow> throw (NotFound ''No Zvault account uses that email yet'') db
       | Some invitee \<Rightarrow>
           let m = \<lparr>om_orgId = orgId, om_accountId = ac_id invitee, om_role = (if asAdmin then AdminR else MemberR),
                    om_publicKey = None\<rparr>
           in case insert_new om_key m (tb_members db) of
                None \<Rightarrow> throw (Conflict ''Already a member or invited'') db
              | Some members \<Rightarrow> ret (member_view (ac_email invitee) [] m)
                  (sendInvite orgId accountId (ac_email invitee) (db\<lparr>tb_members := members\<rparr>)))"

definition update_member :: "id \<Rightarrow> id \<Rightarrow> (member_row \<Rightarrow> member_row) \<Rightarrow> team_db \<Rightarrow> team_db" where
  "update_member orgId accountId f db =
     db\<lparr>tb_members := update_where (\<lambda>m. om_orgId m = orgId \<and> om_accountId m = accountId) f (tb_members db)\<rparr>"

definition org_accept :: "(string \<Rightarrow> string) \<Rightarrow> id \<Rightarrow> id \<Rightarrow> string \<Rightarrow> team_db \<Rightarrow> org_detail team_outcome" where
  "org_accept collate orgId accountId publicKey db = and_then (org_member orgId accountId False db) (\<lambda>me db.
     if om_publicKey me \<noteq> None then throw (Conflict ''Already a member'') db
     else detail_of_org collate orgId accountId
       (update_member orgId accountId (\<lambda>m. m\<lparr>om_publicKey := Some publicKey\<rparr>) db))"

definition ownerCount :: "id \<Rightarrow> team_db \<Rightarrow> nat" where
  "ownerCount orgId db = length (filter (\<lambda>m. om_orgId m = orgId \<and> om_role m = OwnerR) (tb_members db))"

definition org_changeRole :: "id \<Rightarrow> id \<Rightarrow> id \<Rightarrow> org_role \<Rightarrow> team_db \<Rightarrow> unit team_outcome" where
  "org_changeRole orgId accountId targetId role db = and_then (requireAdmin orgId accountId db) (\<lambda>me db.
     and_then (org_member orgId targetId False db) (\<lambda>target db.
       if (role = OwnerR \<or> om_role target = OwnerR \<or> role = AdminR \<or> om_role target = AdminR) \<and> om_role me \<noteq> OwnerR
       then throw (Forbidden ''Only owners can change owners and admins'') db
       else if om_role target = OwnerR \<and> role \<noteq> OwnerR \<and> ownerCount orgId db \<le> 1
       then throw (Conflict ''An organization needs at least one owner'') db
       else ret () (update_member orgId targetId (\<lambda>m. m\<lparr>om_role := role\<rparr>) db)))"

text \<open>The rows that go with a member.\<close>

definition remove_member_rows :: "id \<Rightarrow> id \<Rightarrow> team_db \<Rightarrow> team_db" where
  "remove_member_rows orgId targetId db = db\<lparr>
     tb_groupMembers := delete_where (\<lambda>m. gm_accountId m = targetId \<and>
       gm_groupId m \<in> gp_id ` set (filter (\<lambda>g. gp_orgId g = orgId) (tb_groups db))) (tb_groupMembers db),
     tb_agents := delete_where (\<lambda>a. ag_orgId a = orgId \<and> ag_ownerId a = targetId) (tb_agents db),
     tb_members := delete_where (\<lambda>m. om_orgId m = orgId \<and> om_accountId m = targetId) (tb_members db)\<rparr>"

definition org_remove :: "id \<Rightarrow> id \<Rightarrow> id \<Rightarrow> time \<Rightarrow> team_db \<Rightarrow> unit team_outcome" where
  "org_remove orgId accountId targetId now db =
     (let leaving = (accountId = targetId)
      in and_then (org_member orgId accountId (\<not> leaving) db) (\<lambda>me db.
         and_then (if leaving then ret me db else org_member orgId targetId False db) (\<lambda>target db.
           if \<not> leaving \<and> om_role me \<notin> set ADMIN_ROLES then throw (Forbidden '''') db
           else if \<not> leaving \<and> om_role target \<noteq> MemberR \<and> om_role me \<noteq> OwnerR
           then throw (Forbidden ''Only owners can remove owners and admins'') db
           else if om_role target = OwnerR \<and> ownerCount orgId db \<le> 1
           then throw (Conflict ''An organization needs at least one owner'') db
           else
             let ownedAgents = map ag_id (filter (\<lambda>a. ag_orgId a = orgId \<and> ag_ownerId a = targetId) (tb_agents db))
             in ret () (reconcileOrg orgId now (dropGrantsTo AgentP ownedAgents orgId
                  (dropGrantsTo AccountP [targetId] orgId (remove_member_rows orgId targetId db)))))))"

section \<open>Groups\<close>

text \<open>Group names are unique within an organization.\<close>

definition org_createGroup :: "id \<Rightarrow> id \<Rightarrow> string \<Rightarrow> id \<Rightarrow> team_db \<Rightarrow> org_group_view team_outcome" where
  "org_createGroup orgId accountId name newId db = and_then (requireAdmin orgId accountId db) (\<lambda>_ db.
     if groupsPerOrg \<le> length (filter (\<lambda>g. gp_orgId g = orgId) (tb_groups db))
     then throw (Unprocessable ''Too many groups'') db
     else if \<exists>g \<in> set (tb_groups db). (gp_orgId g = orgId \<and> gp_name g = name) \<or> gp_id g = newId
     then throw (Conflict ''A group with that name exists'') db
     else ret \<lparr>gv_id = newId, gv_name = name, gv_memberIds = []\<rparr>
       (db\<lparr>tb_groups := tb_groups db @ [\<lparr>gp_id = newId, gp_orgId = orgId, gp_name = name\<rparr>]\<rparr>))"

definition org_group :: "id \<Rightarrow> id \<Rightarrow> team_db \<Rightarrow> group_row team_outcome" where
  "org_group orgId groupId db = (case find (\<lambda>g. gp_id g = groupId \<and> gp_orgId g = orgId) (tb_groups db) of
     None \<Rightarrow> throw (NotFound '''') db | Some g \<Rightarrow> ret g db)"

definition org_deleteGroup :: "id \<Rightarrow> id \<Rightarrow> id \<Rightarrow> time \<Rightarrow> team_db \<Rightarrow> unit team_outcome" where
  "org_deleteGroup orgId accountId groupId now db = and_then (requireAdmin orgId accountId db) (\<lambda>_ db.
     and_then (org_group orgId groupId db) (\<lambda>_ db.
       ret () (reconcileOrg orgId now (delete_group groupId (dropGrantsTo GroupP [groupId] orgId db)))))"

definition org_addToGroup :: "id \<Rightarrow> id \<Rightarrow> id \<Rightarrow> id \<Rightarrow> team_db \<Rightarrow> unit team_outcome" where
  "org_addToGroup orgId accountId groupId targetId db = and_then (requireAdmin orgId accountId db) (\<lambda>_ db.
     and_then (org_group orgId groupId db) (\<lambda>_ db.
     and_then (org_member orgId targetId False db) (\<lambda>_ db.
       ret () (db\<lparr>tb_groupMembers := insert_all_new gm_key [\<lparr>gm_groupId = groupId, gm_accountId = targetId\<rparr>]
         (tb_groupMembers db)\<rparr>))))"

definition org_removeFromGroup :: "id \<Rightarrow> id \<Rightarrow> id \<Rightarrow> id \<Rightarrow> time \<Rightarrow> team_db \<Rightarrow> unit team_outcome" where
  "org_removeFromGroup orgId accountId groupId targetId now db = and_then (requireAdmin orgId accountId db) (\<lambda>_ db.
     and_then (org_group orgId groupId db) (\<lambda>_ db.
       let hit = (\<lambda>m. gm_groupId m = groupId \<and> gm_accountId m = targetId)
       in if \<not> list_ex hit (tb_groupMembers db) then throw (NotFound '''') db
          else ret () (reconcileOrg orgId now (db\<lparr>tb_groupMembers := delete_where hit (tb_groupMembers db)\<rparr>))))"

section \<open>Agents\<close>

definition org_registerAgent :: "id \<Rightarrow> id \<Rightarrow> string \<Rightarrow> string \<Rightarrow> time \<Rightarrow> id \<Rightarrow> team_db \<Rightarrow> org_agent_view team_outcome" where
  "org_registerAgent orgId accountId name publicKey now newId db = and_then (org_member orgId accountId True db) (\<lambda>_ db.
     if agentsPerOrg \<le> length (org_agents orgId db) then throw (Unprocessable ''Too many agents'') db
     else let a = \<lparr>ag_id = newId, ag_orgId = orgId, ag_ownerId = accountId, ag_name = name, ag_publicKey = publicKey,
                   ag_createdAt = now\<rparr>
          in case insert_new ag_id a (tb_agents db) of
               None \<Rightarrow> throw (DbError ''agents'') db
             | Some t \<Rightarrow> ret (toAgent a) (db\<lparr>tb_agents := t\<rparr>))"

definition org_removeAgent :: "id \<Rightarrow> id \<Rightarrow> id \<Rightarrow> time \<Rightarrow> team_db \<Rightarrow> unit team_outcome" where
  "org_removeAgent orgId accountId agentId now db = and_then (org_member orgId accountId True db) (\<lambda>me db.
     case find (\<lambda>a. ag_id a = agentId \<and> ag_orgId a = orgId) (tb_agents db) of
       None \<Rightarrow> throw (NotFound '''') db
     | Some a \<Rightarrow>
         if ag_ownerId a \<noteq> accountId \<and> om_role me \<notin> set ADMIN_ROLES then throw (Forbidden '''') db
         else ret () (reconcileOrg orgId now (dropGrantsTo AgentP [agentId] orgId
           (db\<lparr>tb_agents := delete_where (\<lambda>a. ag_id a = agentId) (tb_agents db)\<rparr>))))"

end
