(* ===== verification/Policy.thy ===== *)
theory Policy
  imports Facts
begin

text \<open>
  \<^verbatim>\<open>ProjectPolicy\<close> (\<^verbatim>\<open>apps/api/src/access/project-policy.ts\<close>): the team rules other modules
  ask about a project, on top of who holds its keys.
\<close>

definition beforeAccess :: "id \<Rightarrow> time \<Rightarrow> team_db \<Rightarrow> team_db" where
  "beforeAccess p now db = reconcileProject p now db"

definition assertStructure :: "id \<Rightarrow> id \<Rightarrow> id \<Rightarrow> team_db \<Rightarrow> bool" where
  "assertStructure p accountId ownerId db \<longleftrightarrow> accountId = ownerId \<or>
     (case linkedProject p db of None \<Rightarrow> False | Some project \<Rightarrow> isAdmin (lp_orgId project) accountId db)"

text \<open>\<^verbatim>\<open>byEnv.get(id)?.get(holderKey('account', accountId)) ?? 'none'\<close>\<close>

definition level_by_env :: "env_level_map \<Rightarrow> id \<Rightarrow> id \<Rightarrow> access_level" where
  "level_by_env byEnv i accountId = (case map_of byEnv i of
     None \<Rightarrow> NoAccess | Some levels \<Rightarrow> level_in levels (holderKey AccountP accountId))"

definition canManageTokens :: "id \<Rightarrow> id \<Rightarrow> id \<Rightarrow> id \<Rightarrow> time \<Rightarrow> team_db \<Rightarrow> bool \<times> team_db" where
  "canManageTokens p accountId ownerId i now db =
     (if accountId = ownerId then (True, db)
      else case linkedProject p db of
          None \<Rightarrow> (False, db)
        | Some project \<Rightarrow> (case projectLevels project now db of ((envs, byEnv), db') \<Rightarrow>
            (levelAtLeast (level_by_env byEnv i accountId) Manage, db')))"

definition assertSecretWrite :: "id \<Rightarrow> id \<Rightarrow> id list \<Rightarrow> time \<Rightarrow> team_db \<Rightarrow> bool \<times> team_db" where
  "assertSecretWrite p accountId ids now db = (case linkedProject p db of
     None \<Rightarrow> (True, db)
   | Some project \<Rightarrow> if lp_ownerId project = accountId then (True, db)
       else (case projectLevels project now db of ((envs, byEnv), db') \<Rightarrow>
         (if ids \<noteq> []
          then \<forall>i \<in> set ids. levelAtLeast (level_by_env byEnv i accountId) Edit
          else \<exists>i \<in> set (map fst byEnv). levelAtLeast (level_by_env byEnv i accountId) Edit, db')))"

definition canSeeActivity :: "id \<Rightarrow> id \<Rightarrow> id \<Rightarrow> time \<Rightarrow> team_db \<Rightarrow> bool \<times> team_db" where
  "canSeeActivity p accountId ownerId now db =
     (if accountId = ownerId then (True, db)
      else case linkedProject p db of
          None \<Rightarrow> (False, db)
        | Some project \<Rightarrow>
            if isAdmin (lp_orgId project) accountId db then (True, db)
            else (case projectLevels project now db of ((envs, byEnv), db') \<Rightarrow>
              (list_ex (\<lambda>(i, levels). levelAtLeast (level_in levels (holderKey AccountP accountId)) Manage) byEnv, db')))"

lemma level_by_env_eq:
  "level_by_env (levels_by_env project envs now db) i a =
     (if i \<in> ea_environmentId ` set envs then env_level project i a now db else NoAccess)"
  by (simp add: level_by_env_def map_of_levels_by_env env_level_def)

lemma assertSecretWrite_iff:
  assumes "linkedProject p db = Some project"
  shows "fst (assertSecretWrite p a is now db) \<longleftrightarrow> a = lp_ownerId project \<or>
    (if is \<noteq> [] then \<forall>i \<in> set is. i \<in> set (environmentIds p db) \<and> Edit \<le> env_level project i a now (snd (register project now db))
     else \<exists>i \<in> set (environmentIds p db). Edit \<le> env_level project i a now (snd (register project now db)))"
proof -
  have ids: "ea_environmentId ` set (fst (register project now db)) = set (environmentIds p db)"
    using env_ids_register [of project now db] linkedProject_ids [OF assms] by simp
  have dom: "set (map fst (levels_by_env project (fst (register project now db)) now (snd (register project now db)))) =
      set (environmentIds p db)"
    unfolding ids [symmetric] by (simp add: levels_by_env_def Let_def image_image)
  have none: "\<not> Edit \<le> NoAccess" by (simp add: less_eq_access_level_def)
  have some: "(\<exists>i \<in> set (map fst (levels_by_env project (fst (register project now db)) now (snd (register project now db)))). P i) \<longleftrightarrow>
      (\<exists>i \<in> set (environmentIds p db). P i)" for P
    unfolding dom ..
  show ?thesis
    unfolding assertSecretWrite_def assms projectLevels_def split_def option.case Let_def
    using none by (auto simp: some level_by_env_eq ids levelAtLeast_le simp del: set_map list.set_map)
qed

lemma snd_policy:
  "snd (assertSecretWrite p a is now db) = db \<or> (\<exists>project. linkedProject p db = Some project \<and>
     snd (assertSecretWrite p a is now db) = snd (register project now db))"
  "snd (canManageTokens p a o' i now db) = db \<or> (\<exists>project. linkedProject p db = Some project \<and>
     snd (canManageTokens p a o' i now db) = snd (register project now db))"
  by (auto simp: assertSecretWrite_def canManageTokens_def split_def split: option.split)

end
