(* ===== verification/Projects.thy ===== *)
theory Projects
  imports ProjectsStore Policy Activity
begin

text \<open>
  \<^verbatim>\<open>ProjectsService\<close> (\<^verbatim>\<open>apps/api/src/projects/projects.service.ts\<close>) over the store, the
  policy and the activity log. A handler reads the clock once. A write that lost the race
  answers with the entry as it is, which is why errors here are a type of their own.
\<close>

definition MAX_PROJECTS_PER_ACCOUNT :: nat where "MAX_PROJECTS_PER_ACCOUNT = 200"
definition MAX_ENVIRONMENTS_PER_PROJECT :: nat where "MAX_ENVIRONMENTS_PER_PROJECT = 20"
definition MAX_FOLDERS_PER_PROJECT :: nat where "MAX_FOLDERS_PER_PROJECT = 500"
definition MAX_SECRETS_PER_PROJECT :: nat where "MAX_SECRETS_PER_PROJECT = 10000"

fun entry_limit :: "entry_type \<Rightarrow> nat" where
  "entry_limit EnvironmentE = MAX_ENVIRONMENTS_PER_PROJECT"
| "entry_limit FolderE = MAX_FOLDERS_PER_PROJECT"
| "entry_limit SecretE = MAX_SECRETS_PER_PROJECT"

record project_record =
  rc_id :: id
  rc_revision :: nat
  rc_encryptedMeta :: blob
  rc_encryptedKey :: blob
  rc_owner :: bool
  rc_seq :: nat
  rc_createdAt :: time
  rc_updatedAt :: time

datatype project_error =
    Http http_error
  | EntryConflict project_entry
  | ProjectConflict project_record

type_synonym 'a project_outcome = "(project_error, 'a, team_db) outcome"

definition project_toRecord :: "id \<Rightarrow> stored_project \<Rightarrow> project_record" where
  "project_toRecord u x = (let row = sp_row x in \<lparr>rc_id = pj_id row, rc_revision = pj_revision row,
     rc_encryptedMeta = pj_encryptedMeta row, rc_encryptedKey = sp_wrappedKey x, rc_owner = (pj_ownerId row = u),
     rc_seq = pj_seq row, rc_createdAt = pj_createdAt row, rc_updatedAt = pj_updatedAt row\<rparr>)"

definition project_access_of :: "id \<Rightarrow> id \<Rightarrow> time \<Rightarrow> team_db \<Rightarrow> project_access_info project_outcome" where
  "project_access_of u p now db = (let db = beforeAccess p now db in
     case getAccess p u db of
       None \<Rightarrow> throw (Http (NotFound '''')) db
     | Some access \<Rightarrow> if \<not> px_member access then throw (Http (NotFound '''')) db else ret access db)"

definition projects_list :: "id \<Rightarrow> time \<Rightarrow> team_db \<Rightarrow> project_record list project_outcome" where
  "projects_list u now db =
     (let db' = fold (\<lambda>x. beforeAccess (pj_id (sp_row x)) now) (listProjects u db) db
      in ret (map (project_toRecord u) (listProjects u db')) db')"

definition projects_get :: "id \<Rightarrow> id \<Rightarrow> time \<Rightarrow> team_db \<Rightarrow> project_record project_outcome" where
  "projects_get u p now db = (let db = beforeAccess p now db in
     case getProject p u db of
       None \<Rightarrow> throw (Http (NotFound '''')) db
     | Some x \<Rightarrow> ret (project_toRecord u x) db)"

definition projects_create :: "id \<Rightarrow> new_project \<Rightarrow> time \<Rightarrow> team_db \<Rightarrow> project_record project_outcome" where
  "projects_create u req now db =
     (let envIds = map ne_id (np_environments req);
          bound = (bl_kid (np_encryptedKey req) = ACCOUNT_KID \<and> bl_kid (np_encryptedMeta req) = np_id req \<and>
            (\<forall>e \<in> set (np_environments req). bl_kid (ne_encryptedKey e) = ACCOUNT_KID \<and> bl_kid (ne_encryptedMeta e) = ne_id e))
      in if \<not> bound then throw (Http (BadRequest ''key_mismatch'')) db
         else if \<not> distinct envIds \<or> np_id req \<in> set envIds then throw (Http (BadRequest ''duplicate_id'')) db
         else if MAX_PROJECTS_PER_ACCOUNT \<le> countOwned u db then throw (Http (BadRequest ''limit_reached'')) db
         else case createProject (req\<lparr>np_ownerId := u, np_now := now\<rparr>) db of
             (False, db') \<Rightarrow> throw (Http (Conflict ''project_exists'')) db'
           | (True, db') \<Rightarrow> projects_get u (np_id req) now db')"

definition owner_only :: "project_access_info \<Rightarrow> id \<Rightarrow> id \<Rightarrow> team_db \<Rightarrow> unit project_outcome" where
  "owner_only access u p db = (if assertStructure p u (px_ownerId access) db then ret () db
     else throw (Http (Forbidden ''owner_only'')) db)"

definition account_event :: "id \<Rightarrow> string \<Rightarrow> id \<Rightarrow> id option \<Rightarrow> id option \<Rightarrow> activity_detail \<Rightarrow> activity_record" where
  "account_event p action u i target detail = \<lparr>ar_projectId = p, ar_action = action, ar_actorType = AccountP,
     ar_actorId = u, ar_environmentId = i, ar_targetId = target, ar_detail = detail\<rparr>"

definition projects_update :: "id \<Rightarrow> id \<Rightarrow> nat \<Rightarrow> blob \<Rightarrow> time \<Rightarrow> team_db \<Rightarrow> project_record project_outcome" where
  "projects_update u p baseRevision encryptedMeta now db = and_then (project_access_of u p now db) (\<lambda>access db.
     and_then (owner_only access u p db) (\<lambda>_ db.
       if bl_kid encryptedMeta \<noteq> p then throw (Http (BadRequest ''key_mismatch'')) db
       else case updateProject p baseRevision encryptedMeta now db of
           (False, db) \<Rightarrow> and_then (projects_get u p now db) (\<lambda>current db. throw (ProjectConflict current) db)
         | (True, db) \<Rightarrow> projects_get u p now
             (record_activity now [account_event p ''project.updated'' u None None NoDetail] db)))"

definition projects_remove :: "id \<Rightarrow> id \<Rightarrow> time \<Rightarrow> team_db \<Rightarrow> unit project_outcome" where
  "projects_remove u p now db = and_then (project_access_of u p now db) (\<lambda>access db.
     if px_ownerId access \<noteq> u then throw (Http (Forbidden ''owner_only'')) db
     else ret () (delete_project p db))"

definition projects_sync :: "id \<Rightarrow> id \<Rightarrow> nat \<Rightarrow> nat \<Rightarrow> time \<Rightarrow> team_db \<Rightarrow> project_entry sync_page project_outcome" where
  "projects_sync u p since limit now db = and_then (project_access_of u p now db) (\<lambda>_ db.
     ret (sync_page_of en_seq since limit (entry_changes p u since (limit + 1) db)) db)"

section \<open>Writes\<close>

fun type_action :: "entry_type \<Rightarrow> string" where
  "type_action EnvironmentE = ''environment''"
| "type_action FolderE = ''folder''"
| "type_action SecretE = ''secret''"

definition writeEvents :: "id \<Rightarrow> entry_write \<Rightarrow> activity_record list" where
  "writeEvents u w =
     (let verb = (if ew_encryptedMeta w = None then ''deleted'' else if ew_baseRevision w = 0 then ''created'' else ''updated'');
          event = (\<lambda>i. account_event (ew_projectId w) (type_action (ew_type w) @ ''.'' @ verb) u i (Some (ew_id w)) NoDetail)
      in if ew_type w = EnvironmentE then [event (Some (ew_id w))]
         else if ew_type w = SecretE \<and> ew_values w \<noteq> [] then map (\<lambda>v. event (Some (fst v))) (ew_values w)
         else [event None])"

definition projects_write :: "id \<Rightarrow> entry_write \<Rightarrow> team_db \<Rightarrow> project_entry project_outcome" where
  "projects_write u w db = (case writeEntry w db of
     (WriteOk entry, db') \<Rightarrow> ret entry (record_activity (ew_now w) (writeEvents u w) db')
   | (WriteConflict current, db') \<Rightarrow> throw (EntryConflict current) db'
   | (WriteNotFound, db') \<Rightarrow> throw (Http (NotFound '''')) db'
   | (WriteTypeMismatch, db') \<Rightarrow> throw (Http (Conflict ''type_mismatch'')) db'
   | (WriteLimit, db') \<Rightarrow> throw (Http (BadRequest ''limit_reached'')) db'
   | (WriteUnknownEnvironment, db') \<Rightarrow> throw (Http (BadRequest ''unknown_environment'')) db')"

definition entry_write_of :: "id \<Rightarrow> id \<Rightarrow> id \<Rightarrow> entry_type \<Rightarrow> nat \<Rightarrow> blob option \<Rightarrow> (id \<times> blob option) list \<Rightarrow>
    (id \<times> blob) option \<Rightarrow> time \<Rightarrow> entry_write" where
  "entry_write_of u p i t baseRevision meta values keyGrant now = \<lparr>ew_projectId = p, ew_id = i, ew_type = t,
     ew_baseRevision = baseRevision, ew_encryptedMeta = meta, ew_values = values, ew_keyGrant = keyGrant,
     ew_limit = entry_limit t, ew_viewer = u, ew_now = now\<rparr>"

definition putEnvironment :: "id \<Rightarrow> id \<Rightarrow> id \<Rightarrow> nat \<Rightarrow> blob \<Rightarrow> blob option \<Rightarrow> time \<Rightarrow> team_db \<Rightarrow> project_entry project_outcome" where
  "putEnvironment u p i baseRevision meta key now db = and_then (project_access_of u p now db) (\<lambda>access db.
     and_then (owner_only access u p db) (\<lambda>_ db.
       if bl_kid meta \<noteq> i \<or> (case key of None \<Rightarrow> False | Some k \<Rightarrow> bl_kid k \<noteq> ACCOUNT_KID)
       then throw (Http (BadRequest ''key_mismatch'')) db
       else if baseRevision = 0 \<and> key = None then throw (Http (BadRequest ''key_required'')) db
       else projects_write u (entry_write_of u p i EnvironmentE baseRevision (Some meta) []
         (if baseRevision = 0 then map_option (Pair u) key else None) now) db))"

definition putFolder :: "id \<Rightarrow> id \<Rightarrow> id \<Rightarrow> nat \<Rightarrow> blob \<Rightarrow> time \<Rightarrow> team_db \<Rightarrow> project_entry project_outcome" where
  "putFolder u p i baseRevision meta now db = and_then (project_access_of u p now db) (\<lambda>access db.
     and_then (owner_only access u p db) (\<lambda>_ db.
       if bl_kid meta \<noteq> i then throw (Http (BadRequest ''key_mismatch'')) db
       else projects_write u (entry_write_of u p i FolderE baseRevision (Some meta) [] None now) db))"

text \<open>The first value that is refused decides the error.\<close>

fun check_values :: "id list \<Rightarrow> (id \<times> blob option) list \<Rightarrow> http_error option" where
  "check_values environments [] = None"
| "check_values environments ((i, v) # vs) =
     (if (case v of None \<Rightarrow> False | Some b \<Rightarrow> bl_kid b \<noteq> i) then Some (BadRequest ''key_mismatch'')
      else if i \<notin> set environments then Some (Forbidden ''no_access'')
      else check_values environments vs)"

definition secret_write_allowed :: "id \<Rightarrow> id \<Rightarrow> id list \<Rightarrow> time \<Rightarrow> team_db \<Rightarrow> unit project_outcome" where
  "secret_write_allowed u p is now db = (case assertSecretWrite p u is now db of
     (ok, db') \<Rightarrow> if ok then ret () db' else throw (Http (Forbidden ''no_access'')) db')"

definition putSecret :: "id \<Rightarrow> id \<Rightarrow> id \<Rightarrow> nat \<Rightarrow> blob \<Rightarrow> (id \<times> blob option) list \<Rightarrow> time \<Rightarrow> team_db \<Rightarrow> project_entry project_outcome" where
  "putSecret u p i baseRevision meta values now db = and_then (project_access_of u p now db) (\<lambda>access db.
     if bl_kid meta \<noteq> i then throw (Http (BadRequest ''key_mismatch'')) db
     else case check_values (px_environments access) values of
         Some e \<Rightarrow> throw (Http e) db
       | None \<Rightarrow> and_then (secret_write_allowed u p (map fst values) now db) (\<lambda>_ db.
           projects_write u (entry_write_of u p i SecretE baseRevision (Some meta) values None now) db))"

definition deleteEntry :: "id \<Rightarrow> id \<Rightarrow> entry_type \<Rightarrow> id \<Rightarrow> nat \<Rightarrow> time \<Rightarrow> team_db \<Rightarrow> project_entry project_outcome" where
  "deleteEntry u p t i baseRevision now db = and_then (project_access_of u p now db) (\<lambda>access db.
     and_then (if t \<noteq> SecretE then owner_only access u p db else secret_write_allowed u p [] now db) (\<lambda>_ db.
       projects_write u (entry_write_of u p i t baseRevision None [] None now) db))"

section \<open>History and trash\<close>

definition secretHistory :: "(id \<Rightarrow> string) \<Rightarrow> id \<Rightarrow> id \<Rightarrow> id \<Rightarrow> time \<Rightarrow> team_db \<Rightarrow> secret_version list project_outcome" where
  "secretHistory collate u p secretId now db = and_then (project_access_of u p now db) (\<lambda>_ db.
     ret (listSecretVersions collate p secretId u db) db)"

text \<open>With each trashed secret, when it will be purged.\<close>

definition projects_trash :: "(id \<Rightarrow> string) \<Rightarrow> id \<Rightarrow> id \<Rightarrow> time \<Rightarrow> team_db \<Rightarrow> (trashed_secret \<times> time) list project_outcome" where
  "projects_trash collate u p now db = and_then (project_access_of u p now db) (\<lambda>_ db.
     ret (map (\<lambda>t. (t, purgeAt (ts_deletedAt t))) (projects_listTrash collate p (trashCutoff now) u db)) db)"

definition projects_purge :: "id \<Rightarrow> id \<Rightarrow> id option \<Rightarrow> time \<Rightarrow> team_db \<Rightarrow> unit project_outcome" where
  "projects_purge u p secretId now db = and_then (project_access_of u p now db) (\<lambda>_ db.
     and_then (secret_write_allowed u p [] now db) (\<lambda>_ db.
       case projects_purgeTrash p secretId now db of (purged, db) \<Rightarrow>
         if secretId \<noteq> None \<and> purged = 0 then throw (Http (NotFound '''')) db
         else ret () (if purged > 0
           then record_activity now [account_event p ''secret.purged'' u None secretId (ItemsDetail purged)] db else db)))"

end
