(* ===== verification/Tokens.thy ===== *)
theory Tokens
  imports Projects EnvKeys
begin

text \<open>
  Access tokens for agents and CI: \<^verbatim>\<open>TokensService\<close>
  (\<^verbatim>\<open>apps/api/src/tokens/tokens.service.ts\<close>) and \<^verbatim>\<open>TokenActivity\<close>. SHA-256 and the
  base64url decoder are the argument \<open>env\<close>; a verifier is its bytes. Requests name at least one
  environment (\<^verbatim>\<open>CreateTokenRequest\<close>), so the first one exists.
\<close>

record token_env =
  tv_sha256 :: "string \<Rightarrow> string"
  tv_decode :: "string \<Rightarrow> string"

record create_token_req =
  cr_id :: id
  cr_name :: string
  cr_verifier :: string
  cr_expiresAt :: time
  cr_encryptedProjectKey :: blob
  cr_environments :: "token_environment list"

record token_view =
  to_id :: id
  to_name :: string
  to_environmentIds :: "id list"
  to_createdBy :: "id \<times> string"
  to_createdAt :: time
  to_expiresAt :: time
  to_lastUsedAt :: "time option"
  to_stale :: bool

record active_token =
  at_row :: token_row
  at_ownerId :: id

record token_session_view =
  tn_id :: id
  tn_name :: string
  tn_expiresAt :: time
  tn_projectId :: id
  tn_encryptedMeta :: blob
  tn_encryptedKey :: blob
  tn_environments :: "token_environment list"

definition MAX_TOKENS_PER_PROJECT :: nat where "MAX_TOKENS_PER_PROJECT = 50"
definition MAX_TOKEN_DAYS :: int where "MAX_TOKEN_DAYS = 365"
definition LAST_USED_GRANULARITY_MS :: int where "LAST_USED_GRANULARITY_MS = 60 * 1000"

section \<open>Events\<close>

datatype token_event_kind = Issued id | Revoked id | Used id | TokenDenied id string

fun token_actor :: "token_event_kind \<Rightarrow> id" where
  "token_actor (Issued a) = a"
| "token_actor (Revoked a) = a"
| "token_actor (Used a) = a"
| "token_actor (TokenDenied a reason) = a"

fun token_action :: "token_event_kind \<Rightarrow> string" where
  "token_action (Issued a) = ''token.issued''"
| "token_action (Revoked a) = ''token.revoked''"
| "token_action (Used a) = ''token.used''"
| "token_action (TokenDenied a reason) = ''token.denied''"

definition token_event :: "token_event_kind \<Rightarrow> id \<Rightarrow> id \<Rightarrow> id \<Rightarrow> string \<Rightarrow> time \<Rightarrow> team_db \<Rightarrow> team_db" where
  "token_event kind tokenId p i name now db = record_activity now
     [\<lparr>ar_projectId = p, ar_action = token_action kind, ar_actorType = AccountP, ar_actorId = token_actor kind,
       ar_environmentId = Some i, ar_targetId = Some tokenId,
       ar_detail = TokenDetail name (case kind of TokenDenied a reason \<Rightarrow> Some reason | _ \<Rightarrow> None)\<rparr>] db"

section \<open>Helpers\<close>

definition memberAccess :: "id \<Rightarrow> id \<Rightarrow> time \<Rightarrow> team_db \<Rightarrow> project_access_info team_outcome" where
  "memberAccess u p now db = (let db = beforeAccess p now db in
     case getAccess p u db of
       None \<Rightarrow> throw (NotFound '''') db
     | Some access \<Rightarrow> if \<not> px_member access then throw (NotFound '''') db else ret access db)"

text \<open>1 for each environment, unless access keeps a version for it.\<close>

definition keyVersions :: "id \<Rightarrow> id list \<Rightarrow> team_db \<Rightarrow> (id \<times> nat) list" where
  "keyVersions p ids db =
     (if ids = [] then []
      else fold (\<lambda>r. AList.update (ea_environmentId r) (ea_keyVersion r))
        (filter (\<lambda>r. ea_projectId r = p \<and> ea_environmentId r \<in> set ids) (tb_envAccess db))
        (map (\<lambda>i. (i, 1)) (js_set ids)))"

definition isStale :: "token_environment list \<Rightarrow> (id \<times> nat) list \<Rightarrow> bool" where
  "isStale envs current \<longleftrightarrow> (\<exists>e \<in> set envs.
     (case map_of current (te_environmentId e) of None \<Rightarrow> 1 | Some v \<Rightarrow> v) \<noteq> te_keyVersion e)"

definition token_env_ids :: "token_row \<Rightarrow> id list" where
  "token_env_ids t = map te_environmentId (tk_environments t)"

definition primary_env :: "token_row \<Rightarrow> id" where
  "primary_env t = te_environmentId (hd (tk_environments t))"

section \<open>Management\<close>

definition to_view :: "(id \<times> nat) list \<Rightarrow> token_row \<Rightarrow> string \<Rightarrow> token_view" where
  "to_view versions t email = \<lparr>to_id = tk_id t, to_name = tk_name t, to_environmentIds = token_env_ids t,
     to_createdBy = (tk_createdBy t, email), to_createdAt = tk_createdAt t, to_expiresAt = tk_expiresAt t,
     to_lastUsedAt = tk_lastUsedAt t, to_stale = isStale (tk_environments t) versions\<rparr>"

text \<open>The loop over the rows, with the answers it has asked for already.\<close>

fun managed_views :: "id \<Rightarrow> id \<Rightarrow> id \<Rightarrow> (id \<times> nat) list \<Rightarrow> time \<Rightarrow> (token_row \<times> string) list \<Rightarrow> (id \<times> bool) list \<Rightarrow>
    team_db \<Rightarrow> token_view list \<times> team_db" where
  "managed_views u p ownerId versions now [] manages db = ([], db)"
| "managed_views u p ownerId versions now ((t, email) # rows) manages db =
     (case (case map_of manages (primary_env t) of
          Some m \<Rightarrow> (m, db)
        | None \<Rightarrow> canManageTokens p u ownerId (primary_env t) now db) of (m, db1) \<Rightarrow>
      (case managed_views u p ownerId versions now rows ((primary_env t, m) # manages) db1 of (views, db2) \<Rightarrow>
        (if m then to_view versions t email # views else views, db2)))"

definition with_email :: "team_db \<Rightarrow> token_row \<Rightarrow> (token_row \<times> string) list" where
  "with_email db t = map (\<lambda>a. (t, ac_email a)) (filter (\<lambda>a. ac_id a = tk_createdBy t) (tb_accounts db))"

definition tokens_list :: "id \<Rightarrow> id \<Rightarrow> time \<Rightarrow> team_db \<Rightarrow> token_view list team_outcome" where
  "tokens_list u p now db = and_then (memberAccess u p now db) (\<lambda>access db0.
     let db = db0\<lparr>tb_tokens := delete_where (\<lambda>t. tk_projectId t = p \<and> tk_expiresAt t < now) (tb_tokens db0)\<rparr>;
         rows = sort_key (\<lambda>r. tk_createdAt (fst r))
           (concat (map (with_email db) (filter (\<lambda>t. tk_projectId t = p) (tb_tokens db))));
         versions = keyVersions p (concat (map (\<lambda>r. token_env_ids (fst r)) rows)) db
     in case managed_views u p (px_ownerId access) versions now rows [] db of (views, db) \<Rightarrow> ret views db)"

definition new_token :: "token_env \<Rightarrow> id \<Rightarrow> id \<Rightarrow> create_token_req \<Rightarrow> time \<Rightarrow> token_row" where
  "new_token env u p req now = \<lparr>tk_id = cr_id req, tk_projectId = p, tk_createdBy = u, tk_name = cr_name req,
     tk_verifier = tv_decode env (cr_verifier req), tk_encryptedProjectKey = cr_encryptedProjectKey req,
     tk_environments = cr_environments req, tk_expiresAt = cr_expiresAt req, tk_lastUsedAt = None, tk_createdAt = now\<rparr>"

definition tokens_create :: "token_env \<Rightarrow> id \<Rightarrow> id \<Rightarrow> create_token_req \<Rightarrow> time \<Rightarrow> team_db \<Rightarrow> token_view team_outcome" where
  "tokens_create env u p req now db = and_then (memberAccess u p now db) (\<lambda>access db.
     let envIds = map te_environmentId (cr_environments req) in
     if \<not> distinct envIds then throw (BadRequest ''duplicate_id'') db
     else if \<not> (\<forall>i \<in> set envIds. i \<in> set (px_environments access)) then throw (Forbidden ''no_access'') db
     else case canManageTokens p u (px_ownerId access) (hd envIds) now db of (may, db) \<Rightarrow>
       if \<not> may then throw (Forbidden ''manage_required'') db
       else if \<exists>e \<in> set (cr_environments req). map_of (keyVersions p envIds db) (te_environmentId e) \<noteq> Some (te_keyVersion e)
       then throw (Conflict ''key_version_changed'') db
       else if cr_expiresAt req \<le> now \<or> cr_expiresAt req - now > MAX_TOKEN_DAYS * DAY_MS + DAY_MS
       then throw (BadRequest ''invalid_expiry'') db
       else if MAX_TOKENS_PER_PROJECT \<le> length (filter (\<lambda>t. tk_projectId t = p) (tb_tokens db))
       then throw (BadRequest ''limit_reached'') db
       else case insert_new tk_id (new_token env u p req now) (tb_tokens db) of
           None \<Rightarrow> throw (Conflict ''token_exists'') db
         | Some t \<Rightarrow>
             and_then (tokens_list u p now (token_event (Issued u) (cr_id req) p (hd envIds) (cr_name req) now
                 (db\<lparr>tb_tokens := t\<rparr>)))
               (\<lambda>views db. case find (\<lambda>v. to_id v = cr_id req) views of
                  None \<Rightarrow> throw (NotFound '''') db | Some v \<Rightarrow> ret v db))"

definition tokens_revoke :: "id \<Rightarrow> id \<Rightarrow> id \<Rightarrow> time \<Rightarrow> team_db \<Rightarrow> unit team_outcome" where
  "tokens_revoke u p tokenId now db = and_then (memberAccess u p now db) (\<lambda>access db.
     case find (\<lambda>t. tk_id t = tokenId \<and> tk_projectId t = p) (tb_tokens db) of
       None \<Rightarrow> throw (NotFound '''') db
     | Some t \<Rightarrow>
         (case (if tk_createdBy t = u then (True, db)
                else canManageTokens p u (px_ownerId access) (primary_env t) now db) of (may, db) \<Rightarrow>
            if \<not> may then throw (NotFound '''') db
            else ret () (token_event (Revoked u) tokenId p (primary_env t) (tk_name t) now
              (db\<lparr>tb_tokens := delete_where (\<lambda>t. tk_id t = tokenId) (tb_tokens db)\<rparr>))))"

section \<open>Use\<close>

definition token_deny :: "token_row \<Rightarrow> string \<Rightarrow> time \<Rightarrow> team_db \<Rightarrow> active_token team_outcome" where
  "token_deny t reason now db = throw
     (if reason = ''stale'' then Conflict ''token_stale'' else Unauthorized (''token_'' @ reason))
     (token_event (TokenDenied (tk_createdBy t) reason) (tk_id t) (tk_projectId t) (primary_env t) (tk_name t) now db)"

definition token_presented :: "token_env \<Rightarrow> string \<Rightarrow> token_row \<Rightarrow> bool" where
  "token_presented env authKey t \<longleftrightarrow> length (tk_verifier t) = 32 \<and> tv_sha256 env (tv_decode env authKey) = tk_verifier t"

text \<open>How many of the token's environments are there.\<close>

definition live_environments :: "token_row \<Rightarrow> team_db \<Rightarrow> nat" where
  "live_environments t db = length (filter (\<lambda>e. pe_projectId e = tk_projectId t \<and> pe_id e \<in> set (token_env_ids t) \<and>
     pe_type e = EnvironmentE \<and> \<not> pe_deleted e) (tb_entries db))"

definition token_touch :: "id \<Rightarrow> time \<Rightarrow> team_db \<Rightarrow> team_db" where
  "token_touch tokenId now db = db\<lparr>tb_tokens := update_where (\<lambda>t. tk_id t = tokenId)
     (\<lambda>t. t\<lparr>tk_lastUsedAt := Some now\<rparr>) (tb_tokens db)\<rparr>"

definition authenticate :: "token_env \<Rightarrow> id \<Rightarrow> string \<Rightarrow> time \<Rightarrow> team_db \<Rightarrow> active_token team_outcome" where
  "authenticate env tokenId authKey now db = (case find (\<lambda>t. tk_id t = tokenId) (tb_tokens db) of
     None \<Rightarrow> throw (Unauthorized ''invalid_token'') db
   | Some row \<Rightarrow>
      if \<not> token_presented env authKey row then throw (Unauthorized ''invalid_token'') db
      else if tk_expiresAt row \<le> now then token_deny row ''expired'' now db
      else if live_environments row db \<noteq> length (token_env_ids row) then token_deny row ''environment_deleted'' now db
      else
        let db = beforeAccess (tk_projectId row) now db in
        case getAccess (tk_projectId row) (tk_createdBy row) db of
          None \<Rightarrow> token_deny row ''creator_lost_access'' now db
        | Some access \<Rightarrow>
            if \<not> px_member access \<or> \<not> (\<forall>i \<in> set (token_env_ids row). i \<in> set (px_environments access))
            then token_deny row ''creator_lost_access'' now db
            else if isStale (tk_environments row) (keyVersions (tk_projectId row) (token_env_ids row) db)
            then token_deny row ''stale'' now db
            else ret \<lparr>at_row = row, at_ownerId = px_ownerId access\<rparr>
              (if (case tk_lastUsedAt row of None \<Rightarrow> True | Some t \<Rightarrow> now - t > LAST_USED_GRANULARITY_MS)
               then token_touch tokenId now db else db))"

definition token_session :: "active_token \<Rightarrow> time \<Rightarrow> team_db \<Rightarrow> token_session_view team_outcome" where
  "token_session a now db = (let row = at_row a in
     case find (\<lambda>x. pj_id x = tk_projectId row) (tb_projects db) of
       None \<Rightarrow> throw (Unauthorized ''invalid_token'') db
     | Some project \<Rightarrow> ret \<lparr>tn_id = tk_id row, tn_name = tk_name row, tn_expiresAt = tk_expiresAt row,
           tn_projectId = tk_projectId row, tn_encryptedMeta = pj_encryptedMeta project,
           tn_encryptedKey = tk_encryptedProjectKey row, tn_environments = tk_environments row\<rparr>
         (token_event (Used (tk_createdBy row)) (tk_id row) (tk_projectId row) (primary_env row) (tk_name row) now db))"

definition token_changes :: "active_token \<Rightarrow> nat \<Rightarrow> nat \<Rightarrow> team_db \<Rightarrow> project_entry sync_page" where
  "token_changes a since limit db = sync_page_of en_seq since limit
     (listChangesForToken (tk_projectId (at_row a)) (token_env_ids (at_row a)) since (limit + 1) db)"

end
