(* ===== verification/TeamSteps.thy ===== *)
theory TeamSteps
  imports Tokens Approvals Orgs
begin

text \<open>
  What one request may do to the database, as a step relation: the writes of the services, each
  with what the handler has checked before it writes. Every handler of the theories below is a
  sequence of steps (the \<open>steps\<close> rules), so what every step keeps holds after every run of
  requests.
\<close>

section \<open>Steps\<close>

definition grant_allowed :: "env_grant \<Rightarrow> bool" where
  "grant_allowed g \<longleftrightarrow> (gf_principalType g = AgentP \<longrightarrow> \<not> holdsKey (gf_level g)) \<and>
     (gf_principalType g = GroupP \<longrightarrow> gf_level g \<noteq> NoAccess)"

text \<open>The values of a rotation are one for each secret with a value in the environment.\<close>

definition resealed :: "env \<Rightarrow> (id \<times> blob) list \<Rightarrow> team_db \<Rightarrow> bool" where
  "resealed env values db \<longleftrightarrow> distinct (map fst values) \<and> fst ` set values = vl_secretId ` {v \<in> set (tb_values db).
     vl_projectId v = ea_projectId (fst env) \<and> vl_environmentId v = ea_environmentId (fst env)}"

definition is_decision :: "(request_row \<Rightarrow> request_row) \<Rightarrow> bool" where
  "is_decision f \<longleftrightarrow> (\<exists>a now. f = denied_by a now \<or> (\<exists>release. f = approved_by a release now))"

definition loses_last_owner :: "id \<Rightarrow> id \<Rightarrow> team_db \<Rightarrow> bool" where
  "loses_last_owner orgId a db \<longleftrightarrow>
     (\<exists>m. find_member orgId a db = Some m \<and> om_role m = OwnerR) \<and> ownerCount orgId db \<le> 1"

inductive team_step :: "(id \<Rightarrow> bool) \<Rightarrow> team_db \<Rightarrow> team_db \<Rightarrow> bool" for new where
  step_drop: "team_step new db (db\<lparr>tb_keyGrants := filter P (tb_keyGrants db),
    tb_envAccess := update_where Q (\<lambda>e. e\<lparr>ea_rotationRequiredAt := Some now\<rparr>) (tb_envAccess db)\<rparr>)"
| step_register: "linkedProject p db = Some project \<Longrightarrow> team_step new db (snd (register project now db))"
| step_log: "team_step new db (record_activity now events db)"
| step_sweep: "team_step new db (activity_sweep now db)"
| step_account: "insert_new ac_id a (tb_accounts db) = Some t \<Longrightarrow> team_step new db (db\<lparr>tb_accounts := t\<rparr>)"
| step_link: "insert_new po_projectId l (tb_projectOrgs db) = Some t \<Longrightarrow> po_projectId l \<in> pj_id ` set (tb_projects db) \<Longrightarrow>
    team_step new db (db\<lparr>tb_projectOrgs := t\<rparr>)"
| step_grant: "grant_allowed g \<Longrightarrow> eg_environmentId g \<in> ea_environmentId ` set (tb_envAccess db) \<Longrightarrow> team_step new db (db\<lparr>tb_envGrants := upsert eg_key g (\<lambda>_. g) (tb_envGrants db)\<rparr>)"
| step_ungrant: "team_step new db (db\<lparr>tb_envGrants := delete_where P (tb_envGrants db)\<rparr>)"
| step_wraps: "\<forall>g \<in> set gs. kg_projectId g \<in> pj_id ` set (tb_projects db) \<union> ea_projectId ` set (tb_envAccess db) \<Longrightarrow>
    team_step new db (db\<lparr>tb_keyGrants := insert_all_new kg_key gs (tb_keyGrants db)\<rparr>)"
| step_rotate: "fst env \<in> set (tb_envAccess db) \<Longrightarrow> distinct (map mw_recipientId wraps) \<Longrightarrow> resealed env values db \<Longrightarrow>
    team_step new db (rotate_writes env a wraps values now db)"
| step_request: "insert_new rq_id r (tb_requests db) = Some t \<Longrightarrow> new (rq_id r) \<Longrightarrow>
    rq_environmentId r \<in> ea_environmentId ` set (tb_envAccess db) \<Longrightarrow> rq_status r = Pending \<Longrightarrow> rq_release r = None \<Longrightarrow>
    team_step new db (db\<lparr>tb_requests := t\<rparr>)"
| step_decide: "is_decision f \<Longrightarrow> team_step new db (snd (decide i f db))"
| step_org: "insert_new or_id x (tb_orgs db) = Some orgs \<Longrightarrow> insert_new om_key m (tb_members db) = Some members \<Longrightarrow>
    om_orgId m = or_id x \<Longrightarrow> om_role m = OwnerR \<Longrightarrow> team_step new db (db\<lparr>tb_orgs := orgs, tb_members := members\<rparr>)"
| step_invite: "insert_new om_key m (tb_members db) = Some members \<Longrightarrow> team_step new db (db\<lparr>tb_members := members\<rparr>)"
| step_mail: "team_step new db (db\<lparr>tb_invites := mail\<rparr>)"
| step_accept: "team_step new db (update_member orgId a (\<lambda>m. m\<lparr>om_publicKey := Some k\<rparr>) db)"
| step_role: "role = OwnerR \<or> \<not> loses_last_owner orgId a db \<Longrightarrow>
    team_step new db (update_member orgId a (\<lambda>m. m\<lparr>om_role := role\<rparr>) db)"
| step_remove: "\<not> loses_last_owner orgId a db \<Longrightarrow> team_step new db (remove_member_rows orgId a db)"
| step_group: "gp_id g \<notin> gp_id ` set (tb_groups db) \<Longrightarrow> team_step new db (db\<lparr>tb_groups := tb_groups db @ [g]\<rparr>)"
| step_delete_group: "team_step new db (delete_group i db)"
| step_join: "team_step new db (db\<lparr>tb_groupMembers := insert_all_new gm_key ms (tb_groupMembers db)\<rparr>)"
| step_leave: "team_step new db (db\<lparr>tb_groupMembers := delete_where P (tb_groupMembers db)\<rparr>)"
| step_agent: "insert_new ag_id x (tb_agents db) = Some t \<Longrightarrow> team_step new db (db\<lparr>tb_agents := t\<rparr>)"
| step_delete_agent: "team_step new db (db\<lparr>tb_agents := delete_where P (tb_agents db)\<rparr>)"
| step_create: "distinct (np_id n # map ne_id (np_environments n)) \<Longrightarrow> team_step new db (snd (createProject n db))"
| step_update: "team_step new db (snd (updateProject p base meta now db))"
| step_delete: "team_step new db (delete_project p db)"
| step_write: "team_step new db (snd (writeEntry w db))"
| step_purge: "team_step new db (snd (projects_purgeTrash p s now db))"
| step_purge_expired: "team_step new db (projects_purgeExpired now db)"
| step_tokens: "unique_by tk_id t \<or> \<not> unique_by tk_id (tb_tokens db) \<Longrightarrow> team_step new db (db\<lparr>tb_tokens := t\<rparr>)"

abbreviation team_steps :: "(id \<Rightarrow> bool) \<Rightarrow> team_db \<Rightarrow> team_db \<Rightarrow> bool" where
  "team_steps new \<equiv> (team_step new)\<^sup>*\<^sup>*"

lemma steps_one: "team_step new db db' \<Longrightarrow> team_steps new db db'"
  by (rule r_into_rtranclp)

lemma steps_trans [trans]: "team_steps new db db1 \<Longrightarrow> team_steps new db1 db2 \<Longrightarrow> team_steps new db db2"
  by (rule rtranclp_trans)

lemmas steps_into = rtranclp.rtrancl_into_rtrancl [where r = "team_step new" for new]

text \<open>Going through the code of a handler.\<close>

lemma steps_and_then:
  assumes "team_steps new db (snd m)" and "\<And>x s. m = (Inr x, s) \<Longrightarrow> team_steps new s (snd (f x s))"
  shows "team_steps new db (snd (and_then m f))"
proof (cases m)
  case (Pair r s)
  with assms show ?thesis
    by (cases r) (auto intro: rtranclp_trans)
qed

lemma steps_if: "(P \<Longrightarrow> team_steps new db (snd x)) \<Longrightarrow> (\<not> P \<Longrightarrow> team_steps new db (snd y)) \<Longrightarrow> team_steps new db (snd (if P then x else y))"
  by simp

named_theorems steps \<open>handlers are sequences of steps\<close>

lemma steps_ret [steps]: "team_steps new db (snd (ret x db))" "team_steps new db (snd (throw e db))"
  by simp_all

lemma steps_reconcile [steps]: "team_steps new db (reconcileProject p now db)"
proof (cases "linkedProject p db")
  case (Some project)
  show ?thesis
    unfolding reconcileProject_eq [OF Some] by (rule steps_into [OF steps_one [OF step_register [OF Some]] step_drop])
qed (simp add: reconcileProject_def)

lemma steps_log [steps]: "team_steps new db (record_activity now events db)"
  by (intro steps_one step_log)



section \<open>Reads and guards\<close>

lemma steps_org_member [steps]: "team_steps new db (snd (org_member o' a act db))"
  by (simp add: org_member_def split: option.split)

lemma org_member_state: "org_member o' a act db = (Inr m, db') \<Longrightarrow> db' = db \<and> find_member o' a db = Some m"
  by (auto simp: org_member_def split: option.splits if_splits)

lemma steps_environment [steps]: "team_steps new db (snd (environment i now db))"
proof -
  have "team_steps new db (snd (register project now db))" if linked: "linkedProject p db = Some project" for p project
    by (rule steps_one, rule step_register [OF linked])
  then show ?thesis
    by (auto simp: environment_def split_def split: option.split)
qed

lemma steps_environment_again: "team_steps new db (snd (environment i now (reconcileProject p now db)))"
  by (rule rtranclp_trans [OF steps_reconcile steps_environment])

lemma steps_env_visible [steps]: "team_steps new db (snd (env_visible a i now db))"
  unfolding env_visible_def
proof (intro steps_and_then steps_environment)
  fix env s me s' assume "org_member (ea_orgId (fst env)) a True s = (Inr me, s')"
  then show "team_steps new s' (snd (environment i now (reconcileProject (ea_projectId (fst env)) now s')))"
    by (intro steps_environment_again)
qed (simp_all add: steps_org_member)

lemma steps_visibleProject [steps]: "team_steps new db (snd (visibleProject a p now db))"
proof (cases "linkedProject p db")
  case (Some project)
  show ?thesis
    unfolding visibleProject_def Some option.case
    by (rule steps_and_then [OF steps_org_member]) (simp add: steps_reconcile)
qed (simp add: visibleProject_def)

lemma visibleProject_linked:
  "visibleProject a p now db = (Inr (project, me), db') \<Longrightarrow> linkedProject p db' = Some project"
  by (auto simp: visibleProject_def and_then_Inr_iff split: option.splits dest!: org_member_state)

lemma steps_registered [steps]: "linkedProject p db = Some project \<Longrightarrow> team_steps new db (snd (register project now db))"
  by (intro steps_one step_register)

lemma register_linked [simp]: "linkedProject p (snd (register project now db)) = linkedProject p db"
  by (rule linkedProject_cong) simp_all

lemma steps_canWrap [steps]:
  "linkedProject p db = Some project \<Longrightarrow> team_steps new db (snd (canWrapProjectKey project a role now db))"
  by (auto simp: canWrapProjectKey_def split_def intro: steps)

lemma snd_canWrap:
  "snd (canWrapProjectKey project a role now db) = db \<or> snd (canWrapProjectKey project a role now db) = snd (register project now db)"
  by (auto simp: canWrapProjectKey_def split_def)

lemma canWrap_linked [simp]: "linkedProject p (snd (canWrapProjectKey project a role now db)) = linkedProject p db"
  using snd_canWrap [of project a role now db] by auto

lemma steps_project_access_of [steps]: "team_steps new db (snd (project_access_of u p now db))"
  by (auto simp: project_access_of_def Let_def beforeAccess_def intro: steps split: option.split)

lemma steps_memberAccess [steps]: "team_steps new db (snd (memberAccess u p now db))"
  by (auto simp: memberAccess_def Let_def beforeAccess_def intro: steps split: option.split)

lemma steps_policy [steps]:
  "team_steps new db (snd (assertSecretWrite p a is now db))" "team_steps new db (snd (canManageTokens p a o' i now db))"
  using snd_policy [where p = p and a = a and now = now and db = db] steps_registered by (metis rtranclp.rtrancl_refl)+

text \<open>An environment that was found has its access row.\<close>

lemma environment_row:
  assumes "environment i now db = (Inr env, db')"
  shows "fst env \<in> set (tb_envAccess db') \<and> ea_environmentId (fst env) = i"
proof -
  obtain entry project e where r: "register project now db = (e, db')" "find (\<lambda>e. ea_environmentId e = i) e = Some (fst env)"
    using assms by (auto simp: environment_def split: option.splits prod.splits)
  then have "fst env \<in> set (fst (register project now db))" "ea_environmentId (fst env) = i"
    by (auto dest!: find_set)
  then have "fst env \<in> set (tb_envAccess (snd (register project now db)))" "ea_environmentId (fst env) = i"
    by (simp_all add: fst_register access_rows_def split: if_splits)
  then show ?thesis using r(1) by simp
qed

lemma env_visible_row:
  assumes "env_visible a i now db = (Inr (env, me), db')"
  shows "fst env \<in> set (tb_envAccess db') \<and> ea_environmentId (fst env) = i \<and> om_accountId me = a \<and> om_publicKey me \<noteq> None"
proof -
  obtain o' p s s' where "org_member o' a True s = (Inr me, s')"
    "environment i now (reconcileProject p now s') = (Inr env, db')"
    using assms by (auto simp: env_visible_def and_then_Inr_iff)
  then show ?thesis
    by (auto simp: org_member_def find_member_def dest!: environment_row find_set split: option.splits if_splits)
qed

section \<open>Team access\<close>

lemma steps_matrix:
  assumes l: "linkedProject p s = Some project"
  shows "team_steps new s (snd (canWrapProjectKey project a r now (snd (register project now s))))"
    "team_steps new s (snd (register project now (snd (canWrapProjectKey project a r now (snd (register project now s))))))"
proof -
  let ?s1 = "snd (register project now s)"
  let ?s2 = "snd (canWrapProjectKey project a r now ?s1)"
  have "team_steps new s ?s1" by (rule steps_registered [OF l])
  also have "team_steps new ?s1 ?s2" by (rule steps_canWrap [where p = p]) (use l in simp)
  finally show s2: "team_steps new s ?s2" .
  also have "team_steps new ?s2 (snd (register project now ?s2))" by (rule steps_registered [where p = p]) (use l in simp)
  finally show "team_steps new s (snd (register project now ?s2))" .
qed

lemma steps_access_project [steps]: "team_steps new db (snd (access_project collate a p now db))"
  unfolding access_project_def
  by (rule steps_and_then [OF steps_visibleProject]) (auto simp: split_def dest!: visibleProject_linked intro: steps_matrix)

lemma steps_linkProject [steps]: "team_steps new db (snd (linkProject collate a p o' now db))"
proof -
  have "team_steps new db (snd (access_project collate a p now (record_activity now events (db\<lparr>tb_projectOrgs := t\<rparr>))))"
    if ins: "insert_new po_projectId l (tb_projectOrgs db) = Some t" "po_projectId l \<in> pj_id ` set (tb_projects db)" for l t events
    by (rule rtranclp_trans [OF steps_into [OF steps_one step_log] steps_access_project]) (rule step_link [OF ins])
  then show ?thesis
    unfolding linkProject_def
    by (auto intro!: steps_and_then steps_org_member split: option.split dest!: org_member_state find_set)
qed

lemma steps_env_detail [steps]: "team_steps new db (snd (env_detail a i now db))"
  unfolding env_detail_def by (auto intro!: steps_and_then steps)

lemma steps_requireGrantManager [steps]: "team_steps new db (snd (requireGrantManager a i now db))"
  unfolding requireGrantManager_def by (auto intro!: steps_and_then steps)

lemma requireGrantManager_row:
  assumes "requireGrantManager a i now db = (Inr env, s)"
  shows "i \<in> ea_environmentId ` set (tb_envAccess s)"
proof -
  obtain me where "env_visible a i now db = (Inr (env, me), s)"
    using assms by (auto simp: requireGrantManager_def and_then_Inr_iff split: if_splits)
  from env_visible_row [OF this] show ?thesis by (metis image_eqI)
qed

lemma steps_putGrant [steps]: "team_steps new db (snd (putGrant a i req now db))"
  unfolding putGrant_def
  by (auto intro!: requireGrantManager_row simp: Let_def recordGrant_def new_grant_def grant_allowed_def
      intro!: steps_and_then steps steps_into [OF rtranclp_trans [OF steps_one [OF step_grant] steps_reconcile] step_log])

lemma steps_deleteGrant [steps]: "team_steps new db (snd (deleteGrant a i t pid now db))"
  unfolding deleteGrant_def
  by (auto simp: Let_def recordGrant_def
      intro!: steps_and_then steps steps_into [OF rtranclp_trans [OF steps_one [OF step_ungrant] steps_reconcile] step_log])


section \<open>Keys\<close>

lemma steps_projectLevels [steps]: "linkedProject p db = Some project \<Longrightarrow> team_steps new db (snd (projectLevels project now db))"
  by (simp add: steps_registered)

lemma steps_myKeys [steps]: "team_steps new db (snd (myKeys a p now db))"
  unfolding myKeys_def
  by (rule steps_and_then [OF steps_visibleProject])
    (auto simp: split_def Let_def dest!: visibleProject_linked intro: steps_registered)

lemma steps_addEnvironmentWraps [steps]: "team_steps new db (snd (addEnvironmentWraps a i v wraps now db))"
  unfolding addEnvironmentWraps_def
  by (rule steps_and_then [OF steps_env_visible])
    (auto simp: wrap_grant_def dest!: env_visible_row intro!: steps_one [OF step_wraps] split: option.split)

lemma steps_holders_write:
  assumes "linkedProject p s = Some project"
  shows "team_steps new s (snd (projectKeyHolders project now (snd (canWrapProjectKey project a r now s))))"
  unfolding snd_projectKeyHolders
  by (rule rtranclp_trans [OF steps_canWrap [OF assms] steps_registered [where p = p]]) (use assms in simp)

lemma steps_addProjectWraps [steps]: "team_steps new db (snd (addProjectWraps a p wraps now db))"
  unfolding addProjectWraps_def
proof (rule steps_and_then [OF steps_visibleProject])
  fix x s assume v: "visibleProject a p now db = (Inr x, s)"
  obtain project me where x: "x = (project, me)" by (cases x)
  have l: "linkedProject p s = Some project" using v x visibleProject_linked by blast
  have "\<exists>x \<in> set (tb_projects s). pj_id x = p" using l by (auto simp: linkedProject_def split: option.splits dest: find_set)
  then have fk: "\<forall>g \<in> set (map (wrap_grant p p None a) wraps). kg_projectId g \<in> pj_id ` set (tb_projects s') \<union> ea_projectId ` set (tb_envAccess s')"
    if "tb_projects s' = tb_projects s" for s' using that by (auto simp: wrap_grant_def)
  have same: "tb_projects (snd (projectKeyHolders project now (snd (canWrapProjectKey project a (om_role me) now s)))) = tb_projects s"
    using snd_canWrap [of project a "om_role me" now s] by auto
  note reads = steps_canWrap [OF l, of new a "om_role me" now] steps_holders_write [OF l, of new now a "om_role me"]
  note wraps = steps_into [OF reads(2) step_wraps [OF fk [OF same]]]
  show "team_steps new s (snd ((\<lambda>(project, me) db.
     case canWrapProjectKey project a (om_role me) now db of (can, db) \<Rightarrow>
       if \<not> can then throw (Forbidden ''You cannot hand out this project key'') db
       else case projectKeyHolders project now db of (holders, db) \<Rightarrow>
         (case checkWraps wraps (om_publicKey me) (org_keys (lp_orgId project) db) (\<lambda>a. a \<in> set holders) [] of
            Some e \<Rightarrow> throw e db
          | None \<Rightarrow> ret () (db\<lparr>tb_keyGrants := insert_all_new kg_key (map (wrap_grant p p None a) wraps)
              (tb_keyGrants db)\<rparr>))) x s))"
    using reads wraps by (auto simp: x split_def split: option.split)
qed

lemma checkWraps_distinct:
  "checkWraps ws k keys allowed seen = None \<Longrightarrow> distinct (map mw_recipientId ws) \<and>
     (\<forall>w \<in> set ws. mw_recipientId w \<notin> set seen \<and> allowed (mw_recipientId w) \<and>
       map_of keys (holderKey AccountP (mw_recipientId w)) = Some (mw_recipientPublicKey w) \<and> Some (mw_wrapperPublicKey w) = k)"
proof (induction ws arbitrary: seen)
  case (Cons w ws)
  then have "checkWraps ws k keys allowed (mw_recipientId w # seen) = None" by (simp split: if_splits)
  from Cons.IH [OF this] Cons.prems show ?case by (auto split: if_splits)
qed simp

lemma resealed_iff:
  assumes "\<not> (length (js_set want) \<noteq> length (js_set (map fst values)) \<or>
    (\<exists>s \<in> set (js_set want). s \<notin> set (js_set (map fst values))) \<or> length (js_set (map fst values)) \<noteq> length values)"
  shows "distinct (map fst values) \<and> fst ` set values = set want"
proof -
  let ?got = "js_set (map fst values)"
  have len: "length (js_set want) = length ?got" "set want \<subseteq> set (map fst values)" "length ?got = length values"
    using assms by auto
  then have "card (set (map fst values)) = length (map fst values)" "card (set want) = card (set (map fst values))"
    by (metis distinct_card distinct_js_set length_map set_js_set)+
  then show ?thesis using card_distinct [of "map fst values"] len(2) card_subset_eq [OF finite_set len(2)] by auto
qed

lemma steps_rotateKey [steps]: "team_steps new db (snd (rotateKey a i v wraps values now db))"
  unfolding rotateKey_def
proof (rule steps_and_then [OF steps_env_visible])
  fix x s assume "env_visible a i now db = (Inr x, s)"
  then have row: "fst (fst x) \<in> set (tb_envAccess s)" "ea_environmentId (fst (fst x)) = i"
    using env_visible_row [of a i now db "fst x" "snd x" s] by simp_all
  let ?want = "map vl_secretId (filter (\<lambda>v. vl_projectId v = ea_projectId (fst (fst x)) \<and> vl_environmentId v = i) (tb_values s))"
  have "resealed (fst x) values s"
    if "\<not> (length (js_set ?want) \<noteq> length (js_set (map fst values)) \<or>
      (\<exists>s \<in> set (js_set ?want). s \<notin> set (js_set (map fst values))) \<or> length (js_set (map fst values)) \<noteq> length values)"
    using resealed_iff [OF that] row(2) by (simp add: resealed_def)
  then show "team_steps new s (snd ((\<lambda>(env, me) db.
     let p = ea_projectId (fst env); holders = key_holders env now db in
     if \<not> levelAtLeast (account_level env a now db) Manage
     then throw (Forbidden ''Only managers can rotate the key'') db
     else if v \<noteq> ea_keyVersion (fst env)
     then throw (Conflict ''Someone else rotated this environment first'') db
     else case checkWraps wraps (om_publicKey me) (org_keys (ea_orgId (fst env)) db) (\<lambda>a. a \<in> set holders) [] of
       Some e \<Rightarrow> throw e db
     | None \<Rightarrow>
        if \<exists>a \<in> set holders. a \<notin> mw_recipientId ` set wraps
        then throw (Unprocessable ''Wrap the new key for everyone with access'') db
        else if \<exists>v \<in> set values. bl_kid (snd v) \<noteq> i
        then throw (Unprocessable ''Values must be sealed with the key of this environment'') db
        else
          let want = js_set (map vl_secretId (filter (\<lambda>v. vl_projectId v = p \<and> vl_environmentId v = i) (tb_values db)));
              got = js_set (map fst values)
          in if length want \<noteq> length got \<or> (\<exists>s \<in> set want. s \<notin> set got) \<or> length got \<noteq> length values
             then throw (Conflict ''Re-seal exactly the current values of the environment; sync and retry'') db
             else if \<not> list_ex (\<lambda>e. ea_environmentId e = i \<and> ea_keyVersion e = ea_keyVersion (fst env)) (tb_envAccess db)
             then throw (Conflict ''Someone else rotated this environment first'') db
             else ret env (rotate_writes env a wraps values now db)) x s))"
    using row by (auto simp: Let_def split_def split: option.split
      intro!: steps_one step_rotate dest: checkWraps_distinct)
qed


lemma steps_rotate_env [steps]: "team_steps new db (snd (rotate_env a i v wraps values now db))"
  unfolding rotate_env_def
  by (intro steps_and_then [OF steps_rotateKey] rtranclp_trans [OF steps_log steps_env_detail])

section \<open>Requests\<close>

lemma steps_guard:
  "team_steps new db (snd (if P then and_then (org_member o' a True db) (\<lambda>_ db. ret () db) else ret () db))"
  by (auto intro!: steps_and_then steps_org_member)

lemma steps_createRequest [steps]: "new newId \<Longrightarrow> team_steps new db (snd (createRequest h i items reason now newId db))"
proof -
  assume "new newId"
  note assms = this
  have req: "team_steps new s (record_activity now events (s\<lparr>tb_requests := t\<rparr>))"
    if ins: "insert_new rq_id (new_request newId h i k items reason now) (tb_requests s) = Some t"
      and row: "i \<in> ea_environmentId ` set (tb_envAccess s)" for s t k events
    by (rule steps_into [OF steps_one step_log], rule step_request [OF ins]) (use row assms in \<open>simp_all add: new_request_def\<close>)
  have guard: "(if P then and_then (org_member o' b True s) (\<lambda>_ db. ret () db) else ret () s) = (Inr x, s') \<Longrightarrow> s' = s" for P o' b s s' x
    by (auto simp: and_then_Inr_iff split: if_splits dest!: org_member_state)
  show ?thesis
    unfolding createRequest_def
  proof (intro steps_and_then steps_environment steps_guard, goal_cases)
    case (1 env s u s')
    then have "s' = s" "i \<in> ea_environmentId ` set (tb_envAccess s)" using guard environment_row by (metis image_eqI)+
    then show ?case by (auto simp: Let_def intro!: req split: option.split)
  qed
qed

lemma steps_listRequests [steps]: "team_steps new db (snd (listRequests a i now db))"
  unfolding listRequests_def by (rule steps_and_then [OF steps_env_visible]) (auto simp: Let_def split_def)

lemma steps_getRequest [steps]: "team_steps new db (snd (getRequest h i now db))"
proof -
  have read: "team_steps new db (snd (and_then (environment j now db) (\<lambda>env db.
      and_then (org_member (ea_orgId (fst env)) k True db) (\<lambda>_ db.
        if \<not> levelAtLeast (levelOf env h now db) Manage then throw (NotFound '''') db else ret (v db) db))))" for j k v
    by (intro steps_and_then steps_environment steps_org_member steps_if steps_ret)
  show ?thesis
    using read by (auto simp: getRequest_def Let_def split: option.split)
qed

lemma steps_decidable [steps]: "team_steps new db (snd (decidable_request a i now db))"
  unfolding decidable_request_def
  by (auto intro!: steps_and_then [OF steps_env_visible] split: option.split)

lemma decisions [simp]: "is_decision (approved_by a release now)" "is_decision (denied_by a now)"
  by (auto simp: is_decision_def)

lemma steps_decided:
  "is_decision f \<Longrightarrow> team_steps new s (snd (decide i f s))"
  "is_decision f \<Longrightarrow> team_steps new s (record_activity now events (snd (decide i f s)))"
  by (intro steps_one step_decide steps_into [OF steps_one step_log]; assumption)+

lemma steps_approve_request [steps]: "team_steps new db (snd (approve_request a i release now db))"
  unfolding approve_request_def
  by (rule steps_and_then [OF steps_decidable])
    (use steps_decided [where f = "approved_by a release now" and new = new] in
      \<open>auto simp: recordDecision_def split_def Let_def intro: rtranclp.rtrancl_refl split: option.split\<close>)

lemma steps_deny_request [steps]: "team_steps new db (snd (deny_request a i now db))"
  unfolding deny_request_def
  by (rule steps_and_then [OF steps_decidable])
    (use steps_decided [where f = "denied_by a now" and new = new] in
      \<open>auto simp: recordDecision_def split_def Let_def intro: rtranclp.rtrancl_refl split: option.split\<close>)

section \<open>Organizations\<close>

lemma steps_requireAdmin [steps]: "team_steps new db (snd (requireAdmin o' a db))"
  unfolding requireAdmin_def by (intro steps_and_then steps_org_member steps_if steps_ret)

lemma requireAdmin_state: "requireAdmin o' a db = (Inr me, db') \<Longrightarrow> db' = db \<and> find_member o' a db = Some me"
  by (auto simp: requireAdmin_def and_then_Inr_iff split: if_splits dest!: org_member_state)

lemma detail_of_org_state: "snd (detail_of_org collate o' a db) = db"
proof (cases "org_member o' a True db")
  case (Pair r s)
  then show ?thesis
    by (cases r) (auto simp: detail_of_org_def org_member_def split: option.splits if_splits)
qed

lemma steps_org_create [steps]: "team_steps new db (snd (org_create collate a name k newId db))"
  by (auto simp: org_create_def detail_of_org_state intro!: steps_one [OF step_org] split: option.split)

lemma steps_sendInvite: "team_steps new db (sendInvite o' a to db)"
  by (auto simp: sendInvite_def intro: steps_one [OF step_mail] split: option.split)

lemma steps_org_invite [steps]: "team_steps new db (snd (org_invite o' a email adm db))"
proof -
  have "team_steps new s (sendInvite o' a to (s\<lparr>tb_members := t\<rparr>))"
    if ins: "insert_new om_key m (tb_members s) = Some t" for s m t to
    by (rule rtranclp_trans [OF steps_one [OF step_invite [OF ins]] steps_sendInvite])
  then show ?thesis
    unfolding org_invite_def
    by (intro steps_and_then [OF steps_requireAdmin]) (auto simp: Let_def split: option.split)
qed

lemma steps_org_accept [steps]: "team_steps new db (snd (org_accept collate o' a k db))"
  unfolding org_accept_def
  by (intro steps_and_then [OF steps_org_member]) (auto simp: detail_of_org_state intro: steps_one [OF step_accept])

lemma steps_org_changeRole [steps]: "team_steps new db (snd (org_changeRole o' a t role db))"
  unfolding org_changeRole_def
  by (intro steps_and_then steps_requireAdmin steps_org_member)
    (auto simp: loses_last_owner_def intro!: steps_one [OF step_role] dest!: org_member_state)

lemma steps_reconcileOrg [steps]: "team_steps new db (reconcileOrg o' now db)"
proof -
  have "team_steps new db (fold (\<lambda>l. reconcileProject (po_projectId l) now) ls db)" for ls
    by (induction ls arbitrary: db) (auto intro: rtranclp_trans [OF steps_reconcile])
  then show ?thesis by (simp add: reconcileOrg_def)
qed

lemma steps_dropGrantsTo [steps]: "team_steps new db (dropGrantsTo t ids o' db)"
  by (auto simp: dropGrantsTo_def intro: steps_one [OF step_ungrant])

lemma steps_org_remove [steps]: "team_steps new db (snd (org_remove o' a t now db))"
proof -
  have rm: "team_steps new s (reconcileOrg o' now (dropGrantsTo AgentP ags o' (dropGrantsTo AccountP [t] o' (remove_member_rows o' t s))))"
    if "\<not> loses_last_owner o' t s" for s ags
    by (intro rtranclp_trans [OF _ steps_reconcileOrg] rtranclp_trans [OF _ steps_dropGrantsTo] steps_one step_remove that)
  show ?thesis
    unfolding org_remove_def Let_def
    by (rule steps_and_then [OF steps_org_member], rule steps_and_then)
      (auto simp: loses_last_owner_def intro!: rm intro: steps_org_member dest!: org_member_state split: if_splits)
qed


lemma org_group_state: "org_group o' g db = (Inr x, db') \<Longrightarrow> db' = db"
  by (auto simp: org_group_def split: option.splits)

lemma steps_org_group [steps]: "team_steps new db (snd (org_group o' g db))"
  by (simp add: org_group_def split: option.split)

lemma steps_org_createGroup [steps]: "team_steps new db (snd (org_createGroup o' a name newId db))"
  unfolding org_createGroup_def
  by (intro steps_and_then steps_requireAdmin) (auto intro!: steps_one [OF step_group])

lemma steps_org_deleteGroup [steps]: "team_steps new db (snd (org_deleteGroup o' a g now db))"
proof -
  have "team_steps new s (reconcileOrg o' now (delete_group g (dropGrantsTo GroupP [g] o' s)))" for s
    by (intro rtranclp_trans [OF _ steps_reconcileOrg] steps_into [OF steps_dropGrantsTo step_delete_group])
  then show ?thesis
    unfolding org_deleteGroup_def by (intro steps_and_then steps_requireAdmin steps_org_group) simp
qed

lemma steps_org_addToGroup [steps]: "team_steps new db (snd (org_addToGroup o' a g t db))"
  unfolding org_addToGroup_def
  by (intro steps_and_then steps_requireAdmin steps_org_group steps_org_member)
    (simp add: steps_one [OF step_join] del: insert_all_new.simps)

lemma steps_org_removeFromGroup [steps]: "team_steps new db (snd (org_removeFromGroup o' a g t now db))"
  unfolding org_removeFromGroup_def Let_def
  by (intro steps_and_then steps_requireAdmin steps_org_group)
    (auto intro!: rtranclp_trans [OF steps_one [OF step_leave] steps_reconcileOrg])

lemma steps_org_registerAgent [steps]: "team_steps new db (snd (org_registerAgent o' a name k now newId db))"
  unfolding org_registerAgent_def Let_def
  by (intro steps_and_then steps_org_member) (auto intro: steps_one [OF step_agent] split: option.split)

lemma steps_org_removeAgent [steps]: "team_steps new db (snd (org_removeAgent o' a i now db))"
proof -
  have "team_steps new s (reconcileOrg o' now (dropGrantsTo AgentP [i] o' (s\<lparr>tb_agents := delete_where P (tb_agents s)\<rparr>)))" for s P
    by (intro rtranclp_trans [OF _ steps_reconcileOrg] rtranclp_trans [OF _ steps_dropGrantsTo] steps_one step_delete_agent)
  then show ?thesis
    unfolding org_removeAgent_def by (intro steps_and_then steps_org_member) (auto split: option.split)
qed

section \<open>Projects\<close>

lemma steps_projects_get [steps]: "team_steps new db (snd (projects_get u p now db))"
  by (auto simp: projects_get_def Let_def beforeAccess_def intro: steps_reconcile split: option.split)

lemma steps_projects_list [steps]: "team_steps new db (snd (projects_list u now db))"
proof -
  have "team_steps new db (fold (\<lambda>x. beforeAccess (pj_id (sp_row x)) now) xs db)" for xs
    by (induction xs arbitrary: db) (auto simp: beforeAccess_def intro: rtranclp_trans [OF steps_reconcile])
  then show ?thesis by (simp add: projects_list_def Let_def)
qed

lemma createProject_taken: "createProject n db = (False, db') \<Longrightarrow> db' = db"
  by (auto simp: createProject_def split: option.splits)

lemma steps_projects_create [steps]: "team_steps new db (snd (projects_create u req now db))"
proof -
  have "team_steps new db (snd (projects_get u p now db'))"
    if "createProject n db = (True, db')" "distinct (np_id n # map ne_id (np_environments n))" for n p db'
  proof -
    have "team_step new db (snd (createProject n db))" by (rule step_create [OF that(2)])
    with that(1) show ?thesis by (auto intro: rtranclp_trans [OF steps_one steps_projects_get])
  qed
  from this [of "req\<lparr>np_ownerId := u, np_now := now\<rparr>"] show ?thesis
    by (auto simp: projects_create_def Let_def split: prod.split bool.split dest!: createProject_taken)
qed

lemma steps_owner_only [steps]: "team_steps new db (snd (owner_only access u p db))"
  by (simp add: owner_only_def)

lemma steps_projects_update [steps]: "team_steps new db (snd (projects_update u p base meta now db))"
proof -
  have step: "team_step new s s'" if "updateProject p base meta now s = (b, s')" for s b s'
    using step_update [of new s p base meta now] that by simp
  have "team_steps new s (snd (case updateProject p base meta now s of
      (False, db) \<Rightarrow> and_then (projects_get u p now db) (\<lambda>current db. throw (ProjectConflict current) db)
    | (True, db) \<Rightarrow> projects_get u p now (record_activity now events db)))" for s events
    by (auto split: prod.split bool.split dest!: step
        intro!: steps_and_then [OF rtranclp_trans [OF steps_one steps_projects_get]]
          rtranclp_trans [OF steps_one rtranclp_trans [OF steps_log steps_projects_get]])
  then show ?thesis
    unfolding projects_update_def
    by (intro steps_and_then steps_project_access_of steps_owner_only steps_if) simp_all
qed

lemma steps_projects_remove [steps]: "team_steps new db (snd (projects_remove u p now db))"
  unfolding projects_remove_def
  by (intro steps_and_then steps_project_access_of) (auto intro: steps_one [OF step_delete])

lemma steps_projects_sync [steps]: "team_steps new db (snd (projects_sync u p since limit now db))"
  unfolding projects_sync_def by (intro steps_and_then steps_project_access_of) simp

lemma steps_projects_write [steps]: "team_steps new db (snd (projects_write u w db))"
proof -
  have "team_steps new db s" "team_steps new db (record_activity now events s)" if "writeEntry w db = (r, s)" for r s now events
    using step_write [of new db w] that by (auto intro: steps_into [OF steps_one step_log])
  then show ?thesis
    by (auto simp: projects_write_def split: prod.split entry_write_result.split)
qed

lemma steps_putEnvironment [steps]: "team_steps new db (snd (putEnvironment u p i base meta key now db))"
  unfolding putEnvironment_def
  by (intro steps_and_then steps_project_access_of steps_owner_only steps_if steps_projects_write steps_ret)

lemma steps_putFolder [steps]: "team_steps new db (snd (putFolder u p i base meta now db))"
  unfolding putFolder_def
  by (intro steps_and_then steps_project_access_of steps_owner_only steps_if steps_projects_write steps_ret)

lemma steps_secret_write_allowed [steps]: "team_steps new db (snd (secret_write_allowed u p is now db))"
  using steps_policy(1) [of new db p u "is" now] by (auto simp: secret_write_allowed_def split: prod.split)

lemma steps_putSecret [steps]: "team_steps new db (snd (putSecret u p i base meta values now db))"
  unfolding putSecret_def
  by (intro steps_and_then [OF steps_project_access_of] steps_if)
    (auto split: option.split intro!: steps_and_then steps_secret_write_allowed steps_projects_write)

lemma steps_deleteEntry [steps]: "team_steps new db (snd (deleteEntry u p t i base now db))"
  unfolding deleteEntry_def
  by (intro steps_and_then steps_project_access_of steps_owner_only steps_secret_write_allowed steps_if steps_projects_write)

lemma steps_history [steps]:
  "team_steps new db (snd (secretHistory collate u p s now db))" "team_steps new db (snd (projects_trash collate u p now db))"
  unfolding secretHistory_def projects_trash_def by (intro steps_and_then steps_project_access_of; simp)+

lemma steps_projects_purge [steps]: "team_steps new db (snd (projects_purge u p s now db))"
proof -
  have "team_steps new s' t" "team_steps new s' (record_activity now events t)" if "projects_purgeTrash p s now s' = (n, t)" for s' t n events
    using step_purge [of new s' p s now] that by (auto intro: steps_into [OF steps_one step_log])
  then show ?thesis
    unfolding projects_purge_def
    by (intro steps_and_then steps_project_access_of steps_secret_write_allowed) (auto split: prod.split)
qed

section \<open>Tokens\<close>

lemma steps_managed_views: "team_steps new db (snd (managed_views u p o' versions now rows manages db))"
proof (induction u p o' versions now rows manages db rule: managed_views.induct)
  case (2 u p o' versions now t email rows manages db)
  define q where "q = (case map_of manages (primary_env t) of Some m \<Rightarrow> (m, db)
    | None \<Rightarrow> canManageTokens p u o' (primary_env t) now db)"
  have "team_steps new db (snd q)" unfolding q_def by (auto simp: steps_policy split: option.split)
  also have "team_steps new (snd q) (snd (managed_views u p o' versions now rows ((primary_env t, fst q) # manages) (snd q)))"
    by (rule "2.IH" [of "fst q" "snd q"]) (simp_all add: q_def)
  finally show ?case unfolding managed_views.simps q_def [symmetric] by (simp add: split_def)
qed simp

lemma steps_tokens_list [steps]: "team_steps new db (snd (tokens_list u p now db))"
proof -
  have "team_steps new s (snd (managed_views u p o' versions now rows manages (s\<lparr>tb_tokens := delete_where P (tb_tokens s)\<rparr>)))"
    for s o' versions rows manages P
    by (rule rtranclp_trans [OF steps_one [OF step_tokens] steps_managed_views]) (auto intro: unique_by_delete_where)
  then show ?thesis
    unfolding tokens_list_def by (intro steps_and_then steps_memberAccess) (simp add: Let_def split_def)
qed

lemma steps_token_event: "team_steps new db (token_event k t p i name now db)"
  by (simp add: token_event_def steps_log)

lemma steps_may: "canManageTokens p u o' i now s = (m, t) \<Longrightarrow> team_steps new t x \<Longrightarrow> team_steps new s x"
  using steps_policy(2) [of new s p u o' i now] by (auto intro: rtranclp_trans)

lemma steps_tokens_create [steps]: "team_steps new db (snd (tokens_create env u p req now db))"
proof -
  have ins: "team_steps new s (snd (and_then (tokens_list u p now (token_event k i q j name now (s\<lparr>tb_tokens := t\<rparr>)))
      (\<lambda>views db. case find P views of None \<Rightarrow> throw e db | Some v \<Rightarrow> ret v db)))"
    if "insert_new tk_id x (tb_tokens s) = Some t" for s x t k i q j name P e
  proof (rule steps_and_then)
    have "team_step new s (s\<lparr>tb_tokens := t\<rparr>)"
      by (rule step_tokens) (use that in \<open>auto simp: insert_new_Some unique_by_snoc\<close>)
    then show "team_steps new s (snd (tokens_list u p now (token_event k i q j name now (s\<lparr>tb_tokens := t\<rparr>))))"
      by (intro rtranclp_trans [OF steps_one rtranclp_trans [OF steps_token_event steps_tokens_list]])
  qed (simp split: option.split)
  show ?thesis
    unfolding tokens_create_def
    by (intro steps_and_then [OF steps_memberAccess])
      (auto simp: Let_def split: prod.split option.split intro: steps_may steps_may [OF _ ins])
qed

lemma steps_tokens_revoke [steps]: "team_steps new db (snd (tokens_revoke u p t now db))"
proof -
  have rm: "team_steps new s (token_event k i q j name now (s\<lparr>tb_tokens := delete_where P (tb_tokens s)\<rparr>))" for s k i q j name P
    by (rule rtranclp_trans [OF steps_one [OF step_tokens] steps_token_event]) (auto intro: unique_by_delete_where)
  show ?thesis
    unfolding tokens_revoke_def
    by (intro steps_and_then [OF steps_memberAccess])
      (auto split: prod.split option.split if_splits intro: rm steps_may steps_may [OF _ rm])
qed

lemma steps_token_deny [steps]: "team_steps new db (snd (token_deny t reason now db))"
  by (simp add: token_deny_def steps_token_event)

lemma unique_token_touch: "unique_by tk_id (tb_tokens (token_touch i now db)) \<longleftrightarrow> unique_by tk_id (tb_tokens db)"
  by (simp add: token_touch_def unique_by_def map_update_where)

lemma steps_authenticate [steps]: "team_steps new db (snd (authenticate env i k now db))"
proof -
  have touch: "team_steps new s (token_touch i now s)" for s
    using steps_one [OF step_tokens, of "tb_tokens (token_touch i now s)" s new] unique_token_touch [of i now s]
    by (auto simp: token_touch_def)
  note after = rtranclp_trans [OF steps_reconcile]
  show ?thesis
    by (auto simp: authenticate_def Let_def beforeAccess_def split: option.split
        intro: steps_token_deny after [OF steps_token_deny] after [OF touch] steps_reconcile)
qed

lemma steps_token_session [steps]: "team_steps new db (snd (token_session a now db))"
  by (auto simp: token_session_def Let_def steps_token_event split: option.split)

end
