(* ===== verification/TeamInv.thy ===== *)
theory TeamInv
  imports TeamSteps
begin

text \<open>
  What holds of the database after any run of requests: primary keys are unique, references lead
  to rows, the change numbers of a project's entries are distinct and none is beyond the
  project's counter, agents and groups have the grants they may have, a pending request
  releases nothing, every organization has an owner.
\<close>

section \<open>Primary keys\<close>

definition keys_ok :: "team_db \<Rightarrow> bool" where
  "keys_ok db \<longleftrightarrow> unique_by pj_id (tb_projects db) \<and> unique_by kg_key (tb_keyGrants db) \<and> unique_by pe_key (tb_entries db) \<and>
     unique_by vl_key (tb_values db) \<and> unique_by or_id (tb_orgs db) \<and> unique_by om_key (tb_members db) \<and>
     unique_by gp_id (tb_groups db) \<and> unique_by gm_key (tb_groupMembers db) \<and> unique_by ag_id (tb_agents db) \<and>
     unique_by po_projectId (tb_projectOrgs db) \<and> unique_by ea_environmentId (tb_envAccess db) \<and>
     unique_by eg_key (tb_envGrants db) \<and> unique_by rq_id (tb_requests db) \<and> unique_by tk_id (tb_tokens db) \<and>
     unique_by ac_id (tb_accounts db)"

section \<open>References\<close>

definition entry_at :: "id \<Rightarrow> id \<Rightarrow> entry_type \<Rightarrow> team_db \<Rightarrow> bool" where
  "entry_at p i t db \<longleftrightarrow> (\<exists>e \<in> set (tb_entries db). pe_projectId e = p \<and> pe_id e = i \<and> pe_type e = t)"

definition refs_ok :: "team_db \<Rightarrow> bool" where
  "refs_ok db \<longleftrightarrow>
     kg_projectId ` set (tb_keyGrants db) \<union> pe_projectId ` set (tb_entries db) \<union> po_projectId ` set (tb_projectOrgs db)
       \<subseteq> pj_id ` set (tb_projects db) \<and>
     (\<forall>v \<in> set (tb_values db). entry_at (vl_projectId v) (vl_secretId v) SecretE db) \<and>
     (\<forall>v \<in> set (tb_versions db). \<exists>e \<in> set (tb_entries db).
        pe_projectId e = ve_projectId v \<and> pe_id e = ve_secretId v \<and> pe_type e = SecretE \<and> ve_revision v < pe_revision e) \<and>
     (\<forall>e \<in> set (tb_envAccess db). entry_at (ea_projectId e) (ea_environmentId e) EnvironmentE db) \<and>
     eg_environmentId ` set (tb_envGrants db) \<union> rq_environmentId ` set (tb_requests db)
       \<subseteq> ea_environmentId ` set (tb_envAccess db)"

section \<open>Change numbers\<close>

definition feed_ok :: "team_db \<Rightarrow> bool" where
  "feed_ok db \<longleftrightarrow> unique_by (\<lambda>e. (pe_projectId e, pe_seq e)) (tb_entries db) \<and>
     (\<forall>e \<in> set (tb_entries db). \<forall>x \<in> set (tb_projects db). pj_id x = pe_projectId e \<longrightarrow> pe_seq e \<le> pj_seq x)"

section \<open>Grants, requests, owners\<close>

definition grants_ok :: "team_db \<Rightarrow> bool" where
  "grants_ok db \<longleftrightarrow> (\<forall>g \<in> set (tb_envGrants db). grant_allowed g)"

text \<open>Only an approved request has a release, and it may be fetched for a while after.\<close>

definition request_ok :: "request_row \<Rightarrow> bool" where
  "request_ok r \<longleftrightarrow> (rq_release r \<noteq> None \<longrightarrow> rq_status r = ApprovedRequest \<and> rq_decidedBy r \<noteq> None \<and>
     (\<exists>t. rq_decidedAt r = Some t \<and> rq_releaseExpiresAt r = Some (t + releaseTtlSeconds * 1000)))"

definition requests_ok :: "team_db \<Rightarrow> bool" where
  "requests_ok db \<longleftrightarrow> (\<forall>r \<in> set (tb_requests db). request_ok r)"

definition owned_orgs :: "team_db \<Rightarrow> bool" where
  "owned_orgs db \<longleftrightarrow> (\<forall>x \<in> set (tb_orgs db). \<exists>m \<in> set (tb_members db). om_orgId m = or_id x \<and> om_role m = OwnerR)"

definition team_ok :: "team_db \<Rightarrow> bool" where
  "team_ok db \<longleftrightarrow> keys_ok db \<and> refs_ok db \<and> feed_ok db \<and> grants_ok db \<and> requests_ok db \<and> owned_orgs db \<and> activity_ok db"

lemma team_ok_empty: "team_ok empty_db"
  by (simp add: team_ok_def keys_ok_def refs_ok_def feed_ok_def grants_ok_def requests_ok_def owned_orgs_def activity_ok_def
      empty_db_def)

section \<open>The writes of an entry\<close>

lemma writeEntry_cases:
  obtains (same) "snd (writeEntry w db) = db"
  | (wrote) project where "find (\<lambda>x. pj_id x = ew_projectId w) (tb_projects db) = Some project"
      "case find_entry (ew_projectId w) (ew_id w) db of None \<Rightarrow> ew_baseRevision w = 0
        | Some c \<Rightarrow> pe_type c = ew_type w \<and> pe_revision c = ew_baseRevision w"
      "snd (writeEntry w db) = apply_write w project (find_entry (ew_projectId w) (ew_id w) db) db"
proof (cases "snd (writeEntry w db) = db")
  case False
  then obtain project where project: "find (\<lambda>x. pj_id x = ew_projectId w) (tb_projects db) = Some project"
    by (auto simp: writeEntry_def Let_def split: option.splits)
  let ?c = "find_entry (ew_projectId w) (ew_id w) db"
  have "\<not> (case ?c of None \<Rightarrow> False | Some c \<Rightarrow> pe_type c \<noteq> ew_type w)"
    "(case ?c of None \<Rightarrow> 0 | Some c \<Rightarrow> pe_revision c) = ew_baseRevision w"
    "snd (writeEntry w db) = apply_write w project ?c db"
    using False project by (auto simp: writeEntry_def Let_def split: if_splits option.splits)
  with project show thesis by (intro wrote) (auto split: option.splits)
qed (rule same)

text \<open>The writes in two parts: the counter, the version kept and the entry; then what hangs on its type.\<close>

definition kept_version :: "entry_write \<Rightarrow> entry_row option \<Rightarrow> team_db \<Rightarrow> team_db" where
  "kept_version w current db = (case current of
     None \<Rightarrow> db
   | Some c \<Rightarrow> (case pe_encryptedMeta c of
       None \<Rightarrow> db
     | Some meta \<Rightarrow> if ew_type w = SecretE \<and> \<not> pe_deleted c then keepSecretVersion c meta db else db))"

definition write_base :: "entry_write \<Rightarrow> project_row \<Rightarrow> team_db \<Rightarrow> team_db" where
  "write_base w x db = db\<lparr>
     tb_projects := update_where (\<lambda>x. pj_id x = ew_projectId w) (\<lambda>r. r\<lparr>pj_seq := pj_seq x + 1\<rparr>) (tb_projects db),
     tb_entries := upsert pe_key (written_entry w (pj_seq x + 1)) (\<lambda>_. written_entry w (pj_seq x + 1)) (tb_entries db)\<rparr>"

lemma apply_write_eq:
  "apply_write w x c db = (let db3 = write_base w x (kept_version w c db) in
     case ew_type w of EnvironmentE \<Rightarrow> write_environment w db3 | FolderE \<Rightarrow> db3 | SecretE \<Rightarrow> write_secret w db3)"
proof -
  let ?P = "update_where (\<lambda>x. pj_id x = ew_projectId w) (\<lambda>r. r\<lparr>pj_seq := pj_seq x + 1\<rparr>) (tb_projects db)"
  let ?row = "written_entry w (pj_seq x + 1)"
  let ?db2 = "(case c of None \<Rightarrow> db\<lparr>tb_projects := ?P\<rparr>
    | Some e \<Rightarrow> (case pe_encryptedMeta e of None \<Rightarrow> db\<lparr>tb_projects := ?P\<rparr>
       | Some meta \<Rightarrow> if ew_type w = SecretE \<and> \<not> pe_deleted e then keepSecretVersion e meta (db\<lparr>tb_projects := ?P\<rparr>)
           else db\<lparr>tb_projects := ?P\<rparr>))"
  have "?db2\<lparr>tb_entries := upsert pe_key ?row (\<lambda>_. ?row) (tb_entries ?db2)\<rparr> = write_base w x (kept_version w c db)"
    by (auto simp: kept_version_def write_base_def keepSecretVersion_def Let_def intro!: team_db.equality split: option.split)
  then show ?thesis unfolding apply_write_def Let_def by (simp only:)
qed

text \<open>A version that is kept is the one of the entry before the write.\<close>

lemma kept_version_cases:
  obtains (same) "kept_version w c db = db"
  | (kept) e row where "c = Some e" "ew_type w = SecretE" "ve_key row = (pe_projectId e, pe_id e, pe_revision e)"
      "kept_version w c db = db\<lparr>tb_versions := delete_where (\<lambda>v. ve_projectId v = pe_projectId e \<and> ve_secretId v = pe_id e \<and>
         int (ve_revision v) \<le> int (pe_revision e) - int MAX_VERSIONS_PER_RECORD) (tb_versions db @ [row])\<rparr>"
proof (cases "kept_version w c db = db")
  case False
  then obtain e meta where e: "c = Some e" "ew_type w = SecretE" "kept_version w c db = keepSecretVersion e meta db"
    by (auto simp: kept_version_def split: option.splits if_splits)
  show thesis
    by (rule kept [OF e(1,2)]) (simp_all add: e(3) keepSecretVersion_def Let_def ve_key_def)
qed (rule same)

text \<open>Values of a secret after a write: the old ones and those of the secret itself.\<close>

lemma write_values:
  "unique_by vl_key t \<Longrightarrow> unique_by vl_key (fold (write_value w) vs t)"
  "set (fold (write_value w) vs t) \<subseteq> set t \<union> {v. vl_projectId v = ew_projectId w \<and> vl_secretId v = ew_id w}"
proof -
  have one: "unique_by vl_key t \<Longrightarrow> unique_by vl_key (write_value w v t)"
    "set (write_value w v t) \<subseteq> set t \<union> {v. vl_projectId v = ew_projectId w \<and> vl_secretId v = ew_id w}" for v t
    by (auto simp: write_value_def Let_def set_upsert_const intro: unique_by_delete_where unique_by_upsert_const split: option.splits)
  show "unique_by vl_key t \<Longrightarrow> unique_by vl_key (fold (write_value w) vs t)"
    using one(1) by (induction vs arbitrary: t) auto
  show "set (fold (write_value w) vs t) \<subseteq> set t \<union> {v. vl_projectId v = ew_projectId w \<and> vl_secretId v = ew_id w}"
  proof (induction vs arbitrary: t)
    case (Cons v vs)
    then show ?case using one(2) [of v t] Cons.IH [of "write_value w v t"] by auto
  qed simp
qed

section \<open>Keys stay unique\<close>

lemma keys_delete_env_access: "keys_ok db \<Longrightarrow> keys_ok (delete_env_access P db)"
  by (simp add: keys_ok_def delete_env_access_def Let_def unique_by_delete_where)

lemma keys_apply_write: "keys_ok db \<Longrightarrow> keys_ok (apply_write w x c db)"
proof -
  assume ok: "keys_ok db"
  have "keys_ok (kept_version w c db)"
    using ok by (cases rule: kept_version_cases [of w c db]) (auto simp: keys_ok_def)
  then have base: "keys_ok (write_base w x (kept_version w c db))"
    by (auto simp: keys_ok_def write_base_def intro: unique_by_upsert_const unique_by_update_where)
  have env: "keys_ok (write_environment w s)" if "keys_ok s" for s
    using that by (auto simp: write_environment_def Let_def own_grant_def kg_key_def dropVersionValues_def keys_ok_def
        intro!: keys_delete_env_access [unfolded keys_ok_def] unique_by_delete_where unique_by_upsert split: option.split)
  have sec: "keys_ok (write_secret w s)" if "keys_ok s" for s
    using that by (auto simp: write_secret_def keys_ok_def intro: unique_by_delete_where write_values(1))
  show ?thesis
    using env sec base by (simp add: apply_write_eq Let_def split: entry_type.split)
qed


lemma keys_register: "keys_ok db \<Longrightarrow> keys_ok (snd (register project now db))"
  by (auto simp: keys_ok_def register_def Let_def intro: unique_by_insert_all_new)

lemma unique_by_append: "unique_by k (xs @ ys) \<longleftrightarrow> unique_by k xs \<and> unique_by k ys \<and> k ` set xs \<inter> k ` set ys = {}"
  by (auto simp: unique_by_def)

lemma unique_by_map: "unique_by k (map f xs) = unique_by (k \<circ> f) xs"
  by (simp add: unique_by_def)

lemma createProject_cases:
  obtains (taken) "snd (createProject n db) = db"
  | (created) x where "np_id n \<notin> pj_id ` set (tb_projects db)" "pj_id x = np_id n" "pj_seq x = length (np_environments n)"
      "snd (createProject n db) = db\<lparr>tb_projects := tb_projects db @ [x],
          tb_keyGrants := tb_keyGrants db @ own_grant (np_id n) (np_id n) (np_ownerId n) (np_encryptedKey n) #
            map (\<lambda>e. own_grant (np_id n) (ne_id e) (np_ownerId n) (ne_encryptedKey e)) (np_environments n),
          tb_entries := tb_entries db @ map (first_environment n) (enumerate 1 (np_environments n))\<rparr>"
proof (cases "np_id n \<in> pj_id ` set (tb_projects db)")
  case True
  then show thesis by (intro taken) (simp add: createProject_def insert_new_def)
next
  case False
  show thesis
    by (rule created [OF False, of "\<lparr>pj_id = np_id n, pj_ownerId = np_ownerId n, pj_encryptedMeta = np_encryptedMeta n,
          pj_revision = 1, pj_seq = length (np_environments n), pj_createdAt = np_now n, pj_updatedAt = np_now n\<rparr>"])
      (use False in \<open>simp_all add: createProject_def insert_new_def\<close>)
qed

lemma map_enumerate_snd: "map (\<lambda>x. f (snd x)) (enumerate k xs) = map f xs"
proof -
  have "map (\<lambda>x. f (snd x)) (enumerate k xs) = map f (map snd (enumerate k xs))" unfolding map_map o_def ..
  then show ?thesis by simp
qed

lemma disjoint_fresh: "A \<subseteq> S \<Longrightarrow> B \<subseteq> {x} \<Longrightarrow> x \<notin> S \<Longrightarrow> A \<inter> B = {}"
  by blast

lemma keys_createProject:
  assumes "keys_ok db" and "distinct (np_id n # map ne_id (np_environments n))"
    and fk: "kg_projectId ` set (tb_keyGrants db) \<union> pe_projectId ` set (tb_entries db) \<subseteq> pj_id ` set (tb_projects db)"
  shows "keys_ok (snd (createProject n db))"
proof (cases rule: createProject_cases [of n db])
  case (created x)
  let ?gs = "own_grant (np_id n) (np_id n) (np_ownerId n) (np_encryptedKey n) #
    map (\<lambda>e. own_grant (np_id n) (ne_id e) (np_ownerId n) (ne_encryptedKey e)) (np_environments n)"
  let ?es = "map (first_environment n) (enumerate 1 (np_environments n))"
  have only: "kg_projectId ` set ?gs \<subseteq> {np_id n}" "pe_projectId ` set ?es \<subseteq> {np_id n}"
    by (auto simp: own_grant_def first_environment_def)
  have "unique_by kg_key ?gs"
    using assms(2) by (auto simp: unique_by_Cons unique_by_map own_grant_def kg_key_def unique_by_def distinct_map inj_on_def)
  moreover have "unique_by pe_key ?es"
  proof -
    have "map pe_key ?es = map (\<lambda>x. (np_id n, ne_id (snd x))) (enumerate 1 (np_environments n))"
      by (simp add: pe_key_def first_environment_def)
    also have "\<dots> = map (Pair (np_id n)) (map ne_id (np_environments n))"
      unfolding map_map o_def by (rule map_enumerate_snd)
    finally show ?thesis
      using assms(2) unfolding unique_by_def by (simp only:) (auto simp: distinct_map inj_on_def)
  qed
  moreover have "kg_key ` set (tb_keyGrants db) \<inter> kg_key ` set ?gs = {}" "pe_key ` set (tb_entries db) \<inter> pe_key ` set ?es = {}"
  proof -
    have kg: "kg_key ` A \<inter> kg_key ` B = {}" if "kg_projectId ` A \<inter> kg_projectId ` B = {}" for A B
      using that by (auto simp: kg_key_def)
    have pe: "pe_key ` A \<inter> pe_key ` B = {}" if "pe_projectId ` A \<inter> pe_projectId ` B = {}" for A B
      using that by (auto simp: pe_key_def)
    have held: "kg_projectId ` set (tb_keyGrants db) \<subseteq> pj_id ` set (tb_projects db)"
      "pe_projectId ` set (tb_entries db) \<subseteq> pj_id ` set (tb_projects db)" using fk by simp_all
    show "kg_key ` set (tb_keyGrants db) \<inter> kg_key ` set ?gs = {}"
      by (rule kg [OF disjoint_fresh [OF held(1) only(1) created(1)]])
    show "pe_key ` set (tb_entries db) \<inter> pe_key ` set ?es = {}"
      by (rule pe [OF disjoint_fresh [OF held(2) only(2) created(1)]])
  qed
  ultimately show ?thesis
    using assms(1) created(1,2) unfolding created(4)
    by (simp add: keys_ok_def unique_by_append unique_by_Cons del: list.map)
qed (use assms in simp)

lemma unique_by_filter: "unique_by k t \<Longrightarrow> unique_by k (filter P t)"
  using unique_by_delete_where [of k t "\<lambda>x. \<not> P x"] by (simp add: delete_where_def)

lemma keys_rotate:
  assumes "keys_ok db" and "distinct (map mw_recipientId wraps)"
  shows "keys_ok (rotate_writes env a wraps values now db)"
proof -
  have touch: "unique_by pe_key t \<Longrightarrow> unique_by pe_key (touch_entry p now x t)" for p x t
    unfolding touch_entry_def by (rule unique_by_update_where) (simp_all add: pe_key_def)
  then have touched: "unique_by pe_key t \<Longrightarrow> unique_by pe_key (fold (touch_entry p now) xs t)" for p xs t
    by (induction xs arbitrary: t) simp_all
  have "unique_by vl_key t \<Longrightarrow> unique_by vl_key (reseal p i now x t)" for p i x t
    unfolding reseal_def by (rule unique_by_update_where) (simp_all add: vl_key_def)
  then have vals: "unique_by vl_key t \<Longrightarrow> unique_by vl_key (fold (reseal p i now) xs t)" for p i xs t
    by (induction xs arbitrary: t) simp_all
  have "unique_by kg_key (delete_where (\<lambda>g. kg_projectId g = p \<and> kg_resourceId g = i) (tb_keyGrants db) @
      map (wrap_grant p i v a) wraps)" for p i v
    using assms by (auto simp: unique_by_append unique_by_map keys_ok_def kg_key_def wrap_grant_def
        unique_by_def distinct_map inj_on_def o_def delete_where_def intro: unique_by_filter)
  then show ?thesis
    using assms(1) by (auto simp: rotate_writes_def Let_def keys_ok_def dropVersionValues_def touched touch vals intro: unique_by_update_where)
qed

theorem keys_step:
  assumes "team_step new db db'" and "keys_ok db" and "refs_ok db"
  shows "keys_ok db'"
  using assms(1)
proof cases
  case (step_drop Q now P)
  then show ?thesis using assms(2) by (auto simp: keys_ok_def intro: unique_by_filter unique_by_update_where)
next
  case (step_register p project now)
  then show ?thesis using assms(2) keys_register by simp
next
  case (step_log now events)
  then show ?thesis using assms(2) by (simp add: keys_ok_def record_activity_def)
next
  case (step_create n)
  then show ?thesis using keys_createProject [OF assms(2)] assms(3) by (auto simp: refs_ok_def)
next
  case (step_write w)
  then show ?thesis using keys_apply_write [OF assms(2)] assms(2) by (cases rule: writeEntry_cases [of w db]) auto
next
  case (step_rotate env wraps vs a now)
  then show ?thesis using keys_rotate [OF assms(2)] by simp
next
  case (step_remove orgId a)
  then show ?thesis using assms(2) by (auto simp: keys_ok_def remove_member_rows_def intro: unique_by_delete_where)
next
  case (step_delete p)
  then show ?thesis using assms(2)
    by (simp add: delete_project_def Let_def keys_ok_def delete_env_access_def unique_by_delete_where)
next
  case (step_tokens t)
  then show ?thesis using assms(2) by (auto simp: keys_ok_def)
next
  case (step_decide f i)
  then have "rq_id (f r) = rq_id r" for r by (auto simp: is_decision_def denied_by_def approved_by_def)
  with step_decide(1) show ?thesis
    using assms(2) by (auto simp: keys_ok_def decide_def Let_def intro: unique_by_update_where)
next
  case (step_purge p s now)
  then show ?thesis using assms(2) by (simp add: keys_ok_def projects_purgeTrash_def Let_def)
qed (use assms(2) in \<open>auto simp: keys_ok_def activity_sweep_def update_member_def delete_group_def updateProject_def Let_def
      projects_purgeExpired_def om_key_def unique_by_snoc
    intro: unique_by_insert_new unique_by_insert_all_new unique_by_upsert_const unique_by_delete_where unique_by_update_where\<close>)


section \<open>References lead to rows\<close>

lemma image_update_where: "(\<And>r. k (f r) = k r) \<Longrightarrow> k ` set (update_where p f t) = k ` set t"
proof -
  assume "\<And>r. k (f r) = k r"
  then have "map k (update_where p f t) = map k t" by (intro map_update_where) simp
  then show ?thesis by (metis set_map)
qed

lemma ball_update_where: "(\<And>r. P (f r) = P r) \<Longrightarrow> (\<forall>r \<in> set (update_where p f t). P r) \<longleftrightarrow> (\<forall>r \<in> set t. P r)"
  by (induction t) auto

text \<open>Entries keep their place, their type and their revisions but for a write's own.\<close>

lemma refs_entries:
  assumes "refs_ok db" and "tb_projects db' = tb_projects db" "tb_keyGrants db' = tb_keyGrants db"
    and "tb_projectOrgs db' = tb_projectOrgs db" "tb_values db' = tb_values db" "tb_versions db' = tb_versions db"
    and "tb_envAccess db' = tb_envAccess db" "tb_envGrants db' = tb_envGrants db" "tb_requests db' = tb_requests db"
    and "pe_projectId ` set (tb_entries db') \<subseteq> pj_id ` set (tb_projects db)"
    and later: "\<And>e. e \<in> set (tb_entries db) \<Longrightarrow> \<exists>e' \<in> set (tb_entries db'). pe_projectId e' = pe_projectId e \<and> pe_id e' = pe_id e \<and>
        pe_type e' = pe_type e \<and> pe_revision e \<le> pe_revision e'"
  shows "refs_ok db'"
proof -
  have "entry_at p i t db \<Longrightarrow> entry_at p i t db'" for p i t
    using later by (fastforce simp: entry_at_def)
  moreover have "\<exists>e' \<in> set (tb_entries db'). pe_projectId e' = p \<and> pe_id e' = i \<and> pe_type e' = SecretE \<and> n < pe_revision e'"
    if "\<exists>e \<in> set (tb_entries db). pe_projectId e = p \<and> pe_id e = i \<and> pe_type e = SecretE \<and> n < pe_revision e" for p i n
    using that later by (metis order_less_le_trans)
  ultimately show ?thesis using assms(1-10) by (simp add: refs_ok_def)
qed

lemma refs_delete_env_access:
  assumes "refs_ok db"
  shows "refs_ok (delete_env_access P db)"
proof -
  let ?gone = "ea_environmentId ` set (filter P (tb_envAccess db))"
  have "ea_environmentId ` set (tb_envAccess db) - ?gone \<subseteq> ea_environmentId ` set (delete_where P (tb_envAccess db))" by auto
  moreover have "eg_environmentId ` set (delete_where (\<lambda>g. eg_environmentId g \<in> ?gone) (tb_envGrants db)) \<union>
      rq_environmentId ` set (delete_where (\<lambda>r. rq_environmentId r \<in> ?gone) (tb_requests db)) \<subseteq>
      ea_environmentId ` set (tb_envAccess db) - ?gone"
    using assms by (auto simp: refs_ok_def)
  ultimately have "eg_environmentId ` set (delete_where (\<lambda>g. eg_environmentId g \<in> ?gone) (tb_envGrants db)) \<union>
      rq_environmentId ` set (delete_where (\<lambda>r. rq_environmentId r \<in> ?gone) (tb_requests db)) \<subseteq>
      ea_environmentId ` set (delete_where P (tb_envAccess db))" by (rule order_trans [rotated])
  then show ?thesis
    using assms unfolding refs_ok_def delete_env_access_def Let_def set_map by (simp add: entry_at_def)
qed

lemma refs_register:
  assumes "refs_ok db"
  shows "refs_ok (snd (register project now db))"
proof (cases "snd (register project now db) = db")
  case False
  let ?p = "lp_projectId project"
  let ?missing = "filter (\<lambda>i. i \<notin> ea_environmentId ` set (tb_envAccess db)) (environmentIds ?p db)"
  let ?holders = "filter (\<lambda>g. kg_projectId g = ?p \<and> kg_resourceId g \<in> set ?missing) (tb_keyGrants db)"
  let ?ea = "insert_all_new ea_environmentId (map (new_access project now) ?missing) (tb_envAccess db)"
  let ?eg = "insert_all_new eg_key (map (manager_grant now) ?holders) (tb_envGrants db)"
  have eq: "snd (register project now db) = db\<lparr>tb_envAccess := ?ea, tb_envGrants := ?eg\<rparr>"
    using False by (simp add: register_def Let_def split: if_splits)
  have ids: "ea_environmentId ` set ?ea = ea_environmentId ` set (tb_envAccess db) \<union> set ?missing"
    unfolding keys_insert_all_new by (simp add: new_access_def image_image)
  have "entry_at (ea_projectId e) (ea_environmentId e) EnvironmentE db" if "e \<in> set ?ea" for e
  proof -
    have "e \<in> set (tb_envAccess db) \<or> e \<in> new_access project now ` set ?missing"
      using that set_insert_all_new_subset by fastforce
    then show ?thesis using assms by (auto simp: refs_ok_def new_access_def environmentIds_def entry_at_def)
  qed
  moreover have "eg_environmentId g \<in> ea_environmentId ` set ?ea" if "g \<in> set ?eg" for g
  proof -
    have "g \<in> set (tb_envGrants db) \<or> g \<in> manager_grant now ` set ?holders"
      using that set_insert_all_new_subset by fastforce
    then show ?thesis using assms unfolding ids by (auto simp: refs_ok_def manager_grant_def)
  qed
  ultimately show ?thesis
    using assms unfolding eq by (auto simp: refs_ok_def entry_at_def ids)
qed (use assms in simp)


lemma find_entry_unique:
  assumes "unique_by pe_key (tb_entries db)" and "e \<in> set (tb_entries db)"
  shows "find_entry (pe_projectId e) (pe_id e) db = Some e"
  using assms find_Some_iff_unique [OF assms(1), of "pe_key e" e] by (simp add: find_entry_def pe_key_def)

text \<open>What a write that passed its checks knows of the entry.\<close>

definition entry_written :: "entry_write \<Rightarrow> project_row \<Rightarrow> team_db \<Rightarrow> bool" where
  "entry_written w x db \<longleftrightarrow> refs_ok db \<and> keys_ok db \<and> find (\<lambda>x. pj_id x = ew_projectId w) (tb_projects db) = Some x \<and>
     (case find_entry (ew_projectId w) (ew_id w) db of None \<Rightarrow> ew_baseRevision w = 0
        | Some c \<Rightarrow> pe_type c = ew_type w \<and> pe_revision c = ew_baseRevision w)"

definition base_written :: "entry_write \<Rightarrow> project_row \<Rightarrow> team_db \<Rightarrow> team_db" where
  "base_written w x db = write_base w x (kept_version w (find_entry (ew_projectId w) (ew_id w) db) db)"

lemma kept_frame [simp]:
  "tb_entries (kept_version w c db) = tb_entries db" "tb_projects (kept_version w c db) = tb_projects db"
  "tb_keyGrants (kept_version w c db) = tb_keyGrants db" "tb_projectOrgs (kept_version w c db) = tb_projectOrgs db"
  "tb_values (kept_version w c db) = tb_values db" "tb_envAccess (kept_version w c db) = tb_envAccess db"
  "tb_envGrants (kept_version w c db) = tb_envGrants db" "tb_requests (kept_version w c db) = tb_requests db"
  by (cases rule: kept_version_cases [of w c db]; simp)+

lemma base_entries: "set (tb_entries (base_written w x db)) = insert (written_entry w (pj_seq x + 1))
    {e \<in> set (tb_entries db). pe_key e \<noteq> (ew_projectId w, ew_id w)}"
  by (simp add: base_written_def write_base_def set_upsert_const pe_key_def written_entry_def)

lemma project_written: "entry_written w x db \<Longrightarrow> ew_projectId w \<in> pj_id ` set (tb_projects db)"
  by (force simp: entry_written_def dest: find_set)

lemma later_written:
  assumes ok: "entry_written w x db" and "e \<in> set (tb_entries db)"
  shows "\<exists>e' \<in> set (tb_entries (base_written w x db)). pe_projectId e' = pe_projectId e \<and> pe_id e' = pe_id e \<and>
    pe_type e' = pe_type e \<and> pe_revision e \<le> pe_revision e' \<and> (pe_key e = (ew_projectId w, ew_id w) \<longrightarrow> pe_revision e < pe_revision e')"
proof (cases "pe_key e = (ew_projectId w, ew_id w)")
  case True
  then have "find_entry (ew_projectId w) (ew_id w) db = Some e"
    using find_entry_unique [OF _ assms(2)] ok by (simp add: entry_written_def keys_ok_def pe_key_def)
  then have "pe_type e = ew_type w" "pe_revision e = ew_baseRevision w" using ok by (simp_all add: entry_written_def)
  then show ?thesis
    using True by (intro bexI [of _ "written_entry w (pj_seq x + 1)"]) (auto simp: base_entries pe_key_def written_entry_def)
next
  case False
  then show ?thesis using assms(2) by (intro bexI [of _ e]) (auto simp: base_entries)
qed

lemma kept_versions:
  assumes "v \<in> set (tb_versions (kept_version w c db))"
  shows "v \<in> set (tb_versions db) \<or> (\<exists>e. c = Some e \<and> ew_type w = SecretE \<and> ve_key v = (pe_projectId e, pe_id e, pe_revision e))"
proof (cases rule: kept_version_cases [of w c db])
  case (kept e r)
  then show ?thesis using assms by auto
qed (use assms in simp)

lemma version_below:
  assumes ok: "entry_written w x db" and v: "v \<in> set (tb_versions (base_written w x db))"
  shows "\<exists>e \<in> set (tb_entries (base_written w x db)). pe_projectId e = ve_projectId v \<and> pe_id e = ve_secretId v \<and>
    pe_type e = SecretE \<and> ve_revision v < pe_revision e"
proof -
  let ?c = "find_entry (ew_projectId w) (ew_id w) db"
  from v have "v \<in> set (tb_versions (kept_version w ?c db))" by (simp add: base_written_def write_base_def)
  then show ?thesis
  proof (rule disjE [OF kept_versions])
    assume "v \<in> set (tb_versions db)"
    then obtain e where "e \<in> set (tb_entries db)" "pe_projectId e = ve_projectId v" "pe_id e = ve_secretId v"
      "pe_type e = SecretE" "ve_revision v < pe_revision e" using ok by (auto simp: entry_written_def refs_ok_def)
    with later_written [OF ok, of e] show ?thesis by fastforce
  next
    assume "\<exists>e. ?c = Some e \<and> ew_type w = SecretE \<and> ve_key v = (pe_projectId e, pe_id e, pe_revision e)"
    then obtain e where e: "?c = Some e" "ew_type w = SecretE" "ve_key v = (pe_projectId e, pe_id e, pe_revision e)" by blast
    then have "pe_projectId e = ew_projectId w" "pe_id e = ew_id w" by (auto simp: find_entry_def dest: find_set)
    moreover have "pe_revision e = ew_baseRevision w" using ok e(1) by (simp add: entry_written_def)
    moreover have "written_entry w (pj_seq x + 1) \<in> set (tb_entries (base_written w x db))" unfolding base_entries by simp
    ultimately show ?thesis
      using e by (intro bexI [of _ "written_entry w (pj_seq x + 1)"]) (auto simp: written_entry_def ve_key_def)
  qed
qed

lemma refs_base:
  assumes ok: "entry_written w x db"
  shows "refs_ok (base_written w x db)"
proof -
  have at: "entry_at p i t db \<Longrightarrow> entry_at p i t (base_written w x db)" for p i t
    using later_written [OF ok] by (fastforce simp: entry_at_def)
  have refs: "refs_ok db" using ok by (simp add: entry_written_def)
  have projects: "pj_id ` set (tb_projects (base_written w x db)) = pj_id ` set (tb_projects db)"
    by (simp add: base_written_def write_base_def image_update_where)
  have "pe_projectId ` set (tb_entries (base_written w x db)) \<subseteq> pj_id ` set (tb_projects db)"
    using refs project_written [OF ok] by (auto simp: base_entries refs_ok_def written_entry_def)
  moreover have "tb_keyGrants (base_written w x db) = tb_keyGrants db" "tb_projectOrgs (base_written w x db) = tb_projectOrgs db"
    "tb_values (base_written w x db) = tb_values db" "tb_envAccess (base_written w x db) = tb_envAccess db"
    "tb_envGrants (base_written w x db) = tb_envGrants db" "tb_requests (base_written w x db) = tb_requests db"
    by (simp_all add: base_written_def write_base_def)
  ultimately show ?thesis
    using refs version_below [OF ok] at unfolding refs_ok_def projects by simp
qed

lemma row_there: "entry_at (ew_projectId w) (ew_id w) (ew_type w) (base_written w x db)"
  unfolding entry_at_def base_entries by (simp add: written_entry_def)

lemma refs_write_environment:
  assumes "refs_ok s" and "ew_projectId w \<in> pj_id ` set (tb_projects s)"
  shows "refs_ok (write_environment w s)"
proof -
  let ?p = "ew_projectId w" let ?i = "ew_id w"
  let ?s = "dropVersionValues ?p ?i (s\<lparr>tb_values := delete_where (\<lambda>v. vl_projectId v = ?p \<and> vl_environmentId v = ?i) (tb_values s),
     tb_keyGrants := delete_where (\<lambda>g. kg_projectId g = ?p \<and> kg_resourceId g = ?i) (tb_keyGrants s)\<rparr>)"
  have "refs_ok ?s"
    using assms(1) by (auto simp: refs_ok_def dropVersionValues_def entry_at_def ball_update_where)
  then have gone: "refs_ok (delete_env_access P ?s)" for P by (rule refs_delete_env_access)
  have "kg_projectId ` set (upsert kg_key g (\<lambda>g. g\<lparr>kg_wrappedKey := k\<rparr>) t) = insert (kg_projectId g) (kg_projectId ` set t)" for g k t
    by (auto simp: upsert_def image_update_where) (metis image_eqI kg_key_def prod.inject)
  then have "refs_ok (s\<lparr>tb_keyGrants := upsert kg_key (own_grant ?p ?i a k) (\<lambda>g. g\<lparr>kg_wrappedKey := k\<rparr>) (tb_keyGrants s)\<rparr>)" for a k
    using assms by (auto simp: refs_ok_def entry_at_def own_grant_def)
  then show ?thesis
    using gone assms(1) by (auto simp: write_environment_def Let_def split: option.split)
qed

lemma refs_apply_write:
  assumes ok: "entry_written w x db"
  shows "refs_ok (apply_write w x (find_entry (ew_projectId w) (ew_id w) db) db)"
proof -
  have "ew_projectId w \<in> pj_id ` set (tb_projects (base_written w x db))"
    using project_written [OF ok] by (simp add: base_written_def write_base_def image_update_where)
  then have env: "refs_ok (write_environment w (base_written w x db))" by (rule refs_write_environment [OF refs_base [OF ok]])
  have sec: "refs_ok (write_secret w s)" if "refs_ok s" "entry_at (ew_projectId w) (ew_id w) SecretE s" for s
    using that write_values(2) [where w = w and vs = "ew_values w" and t = "tb_values s"]
    by (auto simp: refs_ok_def write_secret_def entry_at_def dest!: subsetD)
  show ?thesis
    using env sec [OF refs_base [OF ok]] refs_base [OF ok] row_there [of w x db]
    by (cases "ew_type w") (simp_all add: apply_write_eq Let_def base_written_def)
qed


text \<open>Rotation moves entries to the end of the feed and touches nothing else of them.\<close>

definition touched :: "id \<Rightarrow> time \<Rightarrow> (nat \<times> id) list \<Rightarrow> entry_row list \<Rightarrow> entry_row list" where
  "touched p now ts t = fold (touch_entry p now) ts t"

lemma touched_map:
  "\<exists>f. touched p now ts t = map f t \<and> (\<forall>e. pe_projectId (f e) = pe_projectId e \<and> pe_id (f e) = pe_id e \<and> pe_type (f e) = pe_type e \<and>
      pe_revision (f e) = pe_revision e \<and> pe_deleted (f e) = pe_deleted e \<and> pe_encryptedMeta (f e) = pe_encryptedMeta e \<and>
      (pe_projectId e = p \<and> pe_id e \<in> snd ` set ts \<longrightarrow> (pe_seq (f e), pe_id e) \<in> set ts) \<and>
      (\<not> (pe_projectId e = p \<and> pe_id e \<in> snd ` set ts) \<longrightarrow> f e = e))"
proof (induction ts arbitrary: t)
  case Nil
  then show ?case by (intro exI [of _ "\<lambda>x. x"]) (simp add: touched_def)
next
  case (Cons x ts)
  let ?g = "\<lambda>e. if pe_projectId e = p \<and> pe_id e = snd x then e\<lparr>pe_seq := fst x, pe_updatedAt := now\<rparr> else e"
  have one: "touch_entry p now x t = map ?g t" by (simp add: touch_entry_def update_where_def)
  obtain f where f: "touched p now ts (map ?g t) = map f (map ?g t)"
    "\<forall>e. pe_projectId (f e) = pe_projectId e \<and> pe_id (f e) = pe_id e \<and> pe_type (f e) = pe_type e \<and>
      pe_revision (f e) = pe_revision e \<and> pe_deleted (f e) = pe_deleted e \<and> pe_encryptedMeta (f e) = pe_encryptedMeta e \<and>
      (pe_projectId e = p \<and> pe_id e \<in> snd ` set ts \<longrightarrow> (pe_seq (f e), pe_id e) \<in> set ts) \<and>
      (\<not> (pe_projectId e = p \<and> pe_id e \<in> snd ` set ts) \<longrightarrow> f e = e)"
    using Cons.IH [of "map ?g t"] by blast
  have "touched p now (x # ts) t = map (\<lambda>e. f (?g e)) t"
    using f(1) by (simp add: touched_def one)
  moreover have "pe_projectId (f (?g e)) = pe_projectId e \<and> pe_id (f (?g e)) = pe_id e \<and> pe_type (f (?g e)) = pe_type e \<and>
      pe_revision (f (?g e)) = pe_revision e \<and> pe_deleted (f (?g e)) = pe_deleted e \<and>
      pe_encryptedMeta (f (?g e)) = pe_encryptedMeta e \<and>
      (pe_projectId e = p \<and> pe_id e \<in> snd ` set (x # ts) \<longrightarrow> (pe_seq (f (?g e)), pe_id e) \<in> set (x # ts)) \<and>
      (\<not> (pe_projectId e = p \<and> pe_id e \<in> snd ` set (x # ts)) \<longrightarrow> f (?g e) = e)" for e
  proof -
    define e1 where "e1 = ?g e"
    have same: "pe_projectId e1 = pe_projectId e" "pe_id e1 = pe_id e" "pe_type e1 = pe_type e" "pe_revision e1 = pe_revision e"
      "pe_deleted e1 = pe_deleted e" "pe_encryptedMeta e1 = pe_encryptedMeta e"
      "pe_projectId e = p \<Longrightarrow> pe_id e = snd x \<Longrightarrow> (pe_seq e1, pe_id e) = x"
      "\<not> (pe_projectId e = p \<and> pe_id e = snd x) \<Longrightarrow> e1 = e" by (auto simp: e1_def)
    have "f e1 = e1" if "\<not> (pe_projectId e = p \<and> pe_id e \<in> snd ` set ts)" using f(2) [rule_format, of e1] that same by simp
    then show ?thesis
      unfolding e1_def [symmetric] using f(2) [rule_format, of e1] same by (auto simp del: fst_conv snd_conv)
  qed
  ultimately show ?case by blast
qed

lemma resealed_keys: "map vl_key (fold (reseal p i now) vs t) = map vl_key t"
proof -
  have "map vl_key (reseal p i now v t) = map vl_key t" for v t
    unfolding reseal_def by (rule map_update_where) (simp add: vl_key_def)
  then show ?thesis by (induction vs arbitrary: t) simp_all
qed

lemma rotate_tables:
  fixes env :: env
  defines "p \<equiv> ea_projectId (fst env)" and "i \<equiv> ea_environmentId (fst env)"
  defines "next \<equiv> ea_keyVersion (fst env) + 1"
  shows "tb_keyGrants (rotate_writes env a wraps vs now db) =
      delete_where (\<lambda>g. kg_projectId g = p \<and> kg_resourceId g = i) (tb_keyGrants db) @ map (wrap_grant p i (Some next) a) wraps"
    "tb_envAccess (rotate_writes env a wraps vs now db) =
      update_where (\<lambda>e. ea_environmentId e = i \<and> ea_keyVersion e = ea_keyVersion (fst env))
        (\<lambda>e. e\<lparr>ea_keyVersion := next, ea_rotationRequiredAt := None\<rparr>) (tb_envAccess db)"
    "tb_versions (rotate_writes env a wraps vs now db) =
      update_where (\<lambda>v. ve_projectId v = p) (\<lambda>v. v\<lparr>ve_values := filter (\<lambda>x. fst x \<noteq> i) (ve_values v)\<rparr>) (tb_versions db)"
    "tb_values (rotate_writes env a wraps vs now db) = fold (reseal p i now) vs (tb_values db)"
    "find (\<lambda>x. pj_id x = p) (tb_projects db) = Some project \<Longrightarrow> tb_entries (rotate_writes env a wraps vs now db) =
      touched p now (enumerate (pj_seq project + 1) (i # map fst vs)) (tb_entries db)"
    "find (\<lambda>x. pj_id x = p) (tb_projects db) = Some project \<Longrightarrow> tb_projects (rotate_writes env a wraps vs now db) =
      update_where (\<lambda>x. pj_id x = p) (\<lambda>x. x\<lparr>pj_seq := pj_seq project + 1 + length vs\<rparr>) (tb_projects db)"
  by (simp_all add: rotate_writes_def Let_def dropVersionValues_def p_def i_def next_def touched_def)

lemma rotate_frame [simp]:
  "tb_accounts (rotate_writes env a wraps vs now db) = tb_accounts db"
  "tb_orgs (rotate_writes env a wraps vs now db) = tb_orgs db"
  "tb_members (rotate_writes env a wraps vs now db) = tb_members db"
  "tb_groups (rotate_writes env a wraps vs now db) = tb_groups db"
  "tb_groupMembers (rotate_writes env a wraps vs now db) = tb_groupMembers db"
  "tb_agents (rotate_writes env a wraps vs now db) = tb_agents db"
  "tb_projectOrgs (rotate_writes env a wraps vs now db) = tb_projectOrgs db"
  "tb_envGrants (rotate_writes env a wraps vs now db) = tb_envGrants db"
  "tb_requests (rotate_writes env a wraps vs now db) = tb_requests db"
  "tb_activity (rotate_writes env a wraps vs now db) = tb_activity db"
  "tb_nextSeq (rotate_writes env a wraps vs now db) = tb_nextSeq db"
  "tb_tokens (rotate_writes env a wraps vs now db) = tb_tokens db"
  by (simp_all add: rotate_writes_def Let_def dropVersionValues_def)


lemma project_of_access:
  assumes "refs_ok db" and "e \<in> set (tb_envAccess db)"
  shows "\<exists>x. find (\<lambda>x. pj_id x = ea_projectId e) (tb_projects db) = Some x"
proof -
  obtain e' where "e' \<in> set (tb_entries db)" "pe_projectId e' = ea_projectId e"
    using assms by (auto simp: refs_ok_def entry_at_def)
  moreover have "pe_projectId ` set (tb_entries db) \<subseteq> pj_id ` set (tb_projects db)" using assms(1) by (simp add: refs_ok_def)
  ultimately have "ea_projectId e \<in> pj_id ` set (tb_projects db)" by (metis image_eqI subsetD)
  then show ?thesis using find_None_iff [of "\<lambda>x. pj_id x = ea_projectId e" "tb_projects db"] by auto
qed

lemma refs_rotate:
  assumes "refs_ok db" and row: "fst env \<in> set (tb_envAccess db)"
  shows "refs_ok (rotate_writes env a wraps vs now db)"
proof -
  let ?p = "ea_projectId (fst env)"
  obtain x where x: "find (\<lambda>x. pj_id x = ?p) (tb_projects db) = Some x" using project_of_access [OF assms] by blast
  let ?ts = "enumerate (pj_seq x + 1) (ea_environmentId (fst env) # map fst vs)"
  obtain f where f: "touched ?p now ?ts (tb_entries db) = map f (tb_entries db)"
    "\<And>e. pe_projectId (f e) = pe_projectId e \<and> pe_id (f e) = pe_id e \<and> pe_type (f e) = pe_type e \<and> pe_revision (f e) = pe_revision e"
    using touched_map [of ?p now ?ts "tb_entries db"] by blast
  have at: "entry_at p i t (rotate_writes env a wraps vs now db) \<longleftrightarrow> entry_at p i t db" for p i t
    unfolding entry_at_def rotate_tables(5) [OF x] f(1) by (simp add: f(2))
  have p: "?p \<in> pj_id ` set (tb_projects db)" using x by (force dest: find_set)
  have vals: "\<forall>v \<in> set (fold (reseal q i now) vs t). P (vl_projectId v) (vl_secretId v)"
    if "\<forall>v \<in> set t. P (vl_projectId v) (vl_secretId v)" for P q i t
  proof -
    have "(\<lambda>v. (vl_projectId v, vl_secretId v)) ` set (fold (reseal q i now) vs t) =
        (\<lambda>k. (fst k, fst (snd k))) ` set (map vl_key (fold (reseal q i now) vs t))" by (simp add: image_image vl_key_def)
    also have "\<dots> = (\<lambda>v. (vl_projectId v, vl_secretId v)) ` set t" unfolding resealed_keys by (simp add: image_image vl_key_def)
    finally show ?thesis using that by (auto simp: set_eq_iff image_iff) metis
  qed
  have "\<forall>v \<in> set (tb_versions (rotate_writes env a wraps vs now db)).
      \<exists>e \<in> set (tb_entries (rotate_writes env a wraps vs now db)). pe_projectId e = ve_projectId v \<and> pe_id e = ve_secretId v \<and>
        pe_type e = SecretE \<and> ve_revision v < pe_revision e"
    unfolding rotate_tables(3) rotate_tables(5) [OF x] f(1) using assms(1) by (subst ball_update_where) (simp_all add: refs_ok_def f(2))
  moreover have "\<forall>e \<in> set (tb_envAccess (rotate_writes env a wraps vs now db)). entry_at (ea_projectId e) (ea_environmentId e) EnvironmentE db"
    unfolding rotate_tables(2) using assms(1) by (subst ball_update_where) (simp_all add: refs_ok_def)
  moreover have "ea_environmentId ` set (tb_envAccess (rotate_writes env a wraps vs now db)) = ea_environmentId ` set (tb_envAccess db)"
    unfolding rotate_tables(2) by (rule image_update_where) simp
  moreover have "pj_id ` set (tb_projects (rotate_writes env a wraps vs now db)) = pj_id ` set (tb_projects db)"
    unfolding rotate_tables(6) [OF x] by (rule image_update_where) simp
  moreover have "pe_projectId ` set (tb_entries (rotate_writes env a wraps vs now db)) = pe_projectId ` set (tb_entries db)"
    unfolding rotate_tables(5) [OF x] f(1) by (simp add: image_image f(2))
  moreover have "kg_projectId ` set (tb_keyGrants (rotate_writes env a wraps vs now db)) \<subseteq> pj_id ` set (tb_projects db)"
    unfolding rotate_tables(1) using assms(1) p by (auto simp: refs_ok_def wrap_grant_def)
  moreover have "\<forall>v \<in> set (tb_values (rotate_writes env a wraps vs now db)). entry_at (vl_projectId v) (vl_secretId v) SecretE db"
    unfolding rotate_tables(4) using assms(1) by (intro vals) (simp add: refs_ok_def)
  ultimately show ?thesis using assms(1) unfolding refs_ok_def at by simp
qed

lemma refs_delete_project:
  assumes "refs_ok db"
  shows "refs_ok (delete_project p db)"
proof -
  let ?s = "delete_env_access (\<lambda>e. ea_projectId e = p) db"
  let ?d = "delete_project p db"
  have s: "refs_ok ?s" by (rule refs_delete_env_access [OF assms])
  have tables: "tb_entries ?d = delete_where (\<lambda>e. pe_projectId e = p) (tb_entries ?s)" "tb_envAccess ?d = tb_envAccess ?s"
    "tb_envGrants ?d = tb_envGrants ?s" "tb_requests ?d = tb_requests ?s"
    "tb_projects ?d = delete_where (\<lambda>x. pj_id x = p) (tb_projects ?s)"
    "tb_keyGrants ?d = delete_where (\<lambda>g. kg_projectId g = p) (tb_keyGrants ?s)"
    "tb_values ?d = delete_where (\<lambda>v. vl_projectId v = p) (tb_values ?s)"
    "tb_versions ?d = delete_where (\<lambda>v. ve_projectId v = p) (tb_versions ?s)"
    "tb_projectOrgs ?d = delete_where (\<lambda>l. po_projectId l = p) (tb_projectOrgs ?s)"
    by (simp_all add: delete_project_def Let_def)
  have kept: "f ` set (delete_where (\<lambda>x. f x = p) t) = f ` set t - {p}" for f :: "'z \<Rightarrow> id" and t by auto
  have at: "entry_at q i t ?s \<Longrightarrow> q \<noteq> p \<Longrightarrow> entry_at q i t ?d" for q i t by (auto simp: entry_at_def tables)
  have gone: "e \<in> set (tb_envAccess ?s) \<Longrightarrow> ea_projectId e \<noteq> p" for e by (simp add: delete_env_access_def Let_def)
  have "\<forall>e \<in> set (tb_envAccess ?d). entry_at (ea_projectId e) (ea_environmentId e) EnvironmentE ?d"
    using s gone at by (simp add: refs_ok_def tables(2))
  moreover have "\<forall>v \<in> set (tb_values ?d). entry_at (vl_projectId v) (vl_secretId v) SecretE ?d"
    using s at by (simp add: refs_ok_def tables(7))
  moreover have "\<forall>v \<in> set (tb_versions ?d). \<exists>e \<in> set (tb_entries ?d). pe_projectId e = ve_projectId v \<and>
      pe_id e = ve_secretId v \<and> pe_type e = SecretE \<and> ve_revision v < pe_revision e"
  proof
    fix v assume "v \<in> set (tb_versions ?d)"
    then have v: "v \<in> set (tb_versions ?s)" "ve_projectId v \<noteq> p" by (simp_all add: tables(8))
    then obtain e where "e \<in> set (tb_entries ?s)" "pe_projectId e = ve_projectId v" "pe_id e = ve_secretId v"
      "pe_type e = SecretE" "ve_revision v < pe_revision e" using s by (auto simp: refs_ok_def)
    with v(2) show "\<exists>e \<in> set (tb_entries ?d). pe_projectId e = ve_projectId v \<and>
      pe_id e = ve_secretId v \<and> pe_type e = SecretE \<and> ve_revision v < pe_revision e" by (intro bexI [of _ e]) (simp_all add: tables(1))
  qed
  moreover have "kg_projectId ` set (tb_keyGrants ?d) \<union> pe_projectId ` set (tb_entries ?d) \<union> po_projectId ` set (tb_projectOrgs ?d)
       \<subseteq> pj_id ` set (tb_projects ?d)"
    unfolding tables kept using s by (auto simp: refs_ok_def)
  ultimately show ?thesis using s unfolding refs_ok_def tables(2,3,4) by blast
qed


lemma refs_createProject:
  assumes "refs_ok db"
  shows "refs_ok (snd (createProject n db))"
proof (cases rule: createProject_cases [of n db])
  case (created x)
  let ?d = "snd (createProject n db)"
  have at: "entry_at p i t db \<Longrightarrow> entry_at p i t ?d" for p i t unfolding created(4) by (auto simp: entry_at_def)
  have "\<forall>v \<in> set (tb_versions ?d). \<exists>e \<in> set (tb_entries ?d). pe_projectId e = ve_projectId v \<and>
      pe_id e = ve_secretId v \<and> pe_type e = SecretE \<and> ve_revision v < pe_revision e"
    using assms unfolding created(4) by (auto simp: refs_ok_def)
  moreover have "kg_projectId ` set (tb_keyGrants ?d) \<union> pe_projectId ` set (tb_entries ?d) \<union> po_projectId ` set (tb_projectOrgs ?d)
       \<subseteq> pj_id ` set (tb_projects ?d)"
    using assms created(2) unfolding created(4) by (auto simp: refs_ok_def own_grant_def first_environment_def)
  moreover have "tb_values ?d = tb_values db" "tb_envAccess ?d = tb_envAccess db" "tb_envGrants ?d = tb_envGrants db"
    "tb_requests ?d = tb_requests db" unfolding created(4) by simp_all
  ultimately show ?thesis using assms at unfolding refs_ok_def by simp
qed (use assms in simp)

lemma writeEntry_written:
  assumes "keys_ok db" and "refs_ok db"
  obtains (same) "snd (writeEntry w db) = db"
  | (wrote) x where "entry_written w x db" "snd (writeEntry w db) = apply_write w x (find_entry (ew_projectId w) (ew_id w) db) db"
  by (rule writeEntry_cases [of w db]) (use assms in \<open>auto simp: entry_written_def intro: that\<close>)

theorem refs_step:
  assumes "team_step new db db'" and "keys_ok db" and "refs_ok db"
  shows "refs_ok db'"
  using assms(1)
proof cases
  case (step_drop Q now P)
  have "ea_environmentId ` set (update_where Q (\<lambda>e. e\<lparr>ea_rotationRequiredAt := Some now\<rparr>) t) = ea_environmentId ` set t" for t :: "env_access_row list"
    by (rule image_update_where) simp
  with step_drop assms(3) show ?thesis by (auto simp: refs_ok_def entry_at_def ball_update_where)
next
  case (step_register p project now)
  then show ?thesis using refs_register [OF assms(3)] by simp
next
  case (step_link l t)
  then show ?thesis using assms(3) by (auto simp: refs_ok_def entry_at_def insert_new_Some)
next
  case (step_grant g)
  then show ?thesis using assms(3) by (auto simp: refs_ok_def entry_at_def set_upsert_const)
next
  case (step_wraps gs)
  have "ea_projectId ` set (tb_envAccess db) \<subseteq> pj_id ` set (tb_projects db)"
    using project_of_access [OF assms(3)] by (force dest: find_set)
  then have "kg_projectId ` set gs \<subseteq> pj_id ` set (tb_projects db)" using step_wraps(2) by blast
  moreover have "kg_projectId ` set (insert_all_new kg_key gs t) \<subseteq> kg_projectId ` set t \<union> kg_projectId ` set gs" for t
    using set_insert_all_new_subset [of kg_key gs t] by blast
  moreover have "kg_projectId ` set (tb_keyGrants db) \<subseteq> pj_id ` set (tb_projects db)" using assms(3) by (simp add: refs_ok_def)
  ultimately have "kg_projectId ` set (insert_all_new kg_key gs (tb_keyGrants db)) \<subseteq> pj_id ` set (tb_projects db)"
    by (meson Un_least order_trans)
  with step_wraps(1) assms(3) show ?thesis by (simp add: refs_ok_def entry_at_def)
next
  case (step_rotate env wraps vs a now)
  then show ?thesis using refs_rotate [OF assms(3)] by simp
next
  case (step_request r t)
  then show ?thesis using assms(3) by (auto simp: refs_ok_def entry_at_def insert_new_Some)
next
  case (step_decide f i)
  then have "rq_environmentId (f r) = rq_environmentId r" for r by (auto simp: is_decision_def denied_by_def approved_by_def)
  then have "rq_environmentId ` set (update_where P f t) = rq_environmentId ` set t" for P t by (rule image_update_where)
  with step_decide(1) assms(3) show ?thesis by (simp add: refs_ok_def entry_at_def decide_def Let_def)
next
  case (step_create n)
  then show ?thesis using refs_createProject [OF assms(3)] by simp
next
  case (step_update p base meta now)
  have "pj_id ` set (update_where P (\<lambda>x. x\<lparr>pj_encryptedMeta := m, pj_revision := r, pj_updatedAt := n\<rparr>) t) = pj_id ` set t" for P m r n and t :: "project_row list"
    by (rule image_update_where) simp
  with step_update assms(3) show ?thesis by (simp add: refs_ok_def entry_at_def updateProject_def Let_def)
next
  case (step_delete p)
  then show ?thesis using refs_delete_project [OF assms(3)] by simp
next
  case (step_write w)
  then show ?thesis
    using refs_apply_write assms(3) by (cases rule: writeEntry_written [OF assms(2,3), of w]) auto
next
  case (step_purge p s now)
  then show ?thesis using assms(3) by (auto simp: refs_ok_def entry_at_def projects_purgeTrash_def Let_def)
qed (use assms(3) in \<open>auto simp: refs_ok_def entry_at_def record_activity_def activity_sweep_def update_member_def delete_group_def
      projects_purgeExpired_def remove_member_rows_def\<close>)

end
