(* ===== verification/TeamRuns.thy ===== *)
theory TeamRuns
  imports TeamInv
begin

text \<open>
  Runs of requests: what any sequence of calls of the services keeps and never does.
\<close>

section \<open>Change numbers\<close>

lemma unique_by_replace:
  assumes "unique_by j t" and "unique_by k t" and "j row \<notin> j ` set t"
  shows "unique_by j (update_where (\<lambda>e. k e = x) (\<lambda>_. row) t)"
  using assms
proof (induction t)
  case (Cons e t)
  have "j r \<noteq> j e" if "r \<in> set (update_where (\<lambda>e. k e = x) (\<lambda>_. row) t)" for r
    using that Cons.prems(1,3) by (force simp: set_update_where unique_by_Cons split: if_splits)
  moreover have "update_where (\<lambda>e. k e = x) (\<lambda>_. row) t = t" if "k e = x"
    using Cons.prems(2) that by (intro update_where_id) (auto simp: unique_by_Cons)
  moreover have "j r \<noteq> j row" if "r \<in> set t" for r using Cons.prems(3) that by (metis image_eqI list.set_intros(2))
  ultimately show ?case using Cons.IH Cons.prems by (auto simp: unique_by_Cons)
qed simp

lemma unique_by_pair:
  assumes "distinct (map g t)"
  shows "unique_by (\<lambda>e. (f e, g e)) t"
proof -
  have "distinct (map snd (map (\<lambda>e. (f e, g e)) t))" using assms by (simp add: o_def)
  then show ?thesis unfolding unique_by_def distinct_map [of snd] by simp
qed

lemma feed_base:
  assumes ok: "entry_written w x db" and "feed_ok db"
  shows "feed_ok (base_written w x db)"
proof -
  let ?key = "\<lambda>e. (pe_projectId e, pe_seq e)"
  let ?row = "written_entry w (pj_seq x + 1)"
  let ?es = "tb_entries db"
  have x: "x \<in> set (tb_projects db)" "pj_id x = ew_projectId w" using ok by (auto simp: entry_written_def dest: find_set)
  have keys: "unique_by pj_id (tb_projects db)" "unique_by pe_key ?es" using ok by (simp_all add: entry_written_def keys_ok_def)
  have below: "pe_seq e \<le> pj_seq x" if "e \<in> set ?es" "pe_projectId e = ew_projectId w" for e
    using assms(2) that x by (auto simp: feed_ok_def)
  have fresh: "?key ?row \<notin> ?key ` set ?es" using below by (force simp: written_entry_def)
  have "unique_by ?key (upsert pe_key ?row (\<lambda>_. ?row) ?es)"
  proof (cases "pe_key ?row \<in> pe_key ` set ?es")
    case False
    with assms(2) fresh show ?thesis by (simp add: upsert_def unique_by_snoc feed_ok_def)
  next
    case True
    have "unique_by ?key (update_where (\<lambda>e. pe_key e = pe_key ?row) (\<lambda>_. ?row) ?es)"
      by (rule unique_by_replace [OF _ keys(2) fresh]) (use assms(2) in \<open>simp add: feed_ok_def\<close>)
    with True show ?thesis by (simp add: upsert_def)
  qed
  moreover have "pe_seq e \<le> pj_seq r" if e: "e \<in> set (tb_entries (base_written w x db))"
    and r: "r \<in> set (tb_projects (base_written w x db))" "pj_id r = pe_projectId e" for e r
  proof -
    obtain y where y: "y \<in> set (tb_projects db)" "r = (if pj_id y = ew_projectId w then y\<lparr>pj_seq := pj_seq x + 1\<rparr> else y)"
      using r(1) by (auto simp: base_written_def write_base_def set_update_where)
    show ?thesis
    proof (cases "e = ?row")
      case True
      then show ?thesis using r(2) y by (auto simp: written_entry_def split: if_splits)
    next
      case False
      then have "e \<in> set ?es" using e by (simp add: base_entries)
      then have "pe_seq e \<le> pj_seq y" if "pj_id y = pe_projectId e"
        using assms(2) y(1) that by (simp add: feed_ok_def)
      moreover have "pe_seq e \<le> pj_seq x" if "pe_projectId e = ew_projectId w" using below \<open>e \<in> set ?es\<close> that by blast
      ultimately show ?thesis using y(2) r(2) by (auto split: if_splits)
    qed
  qed
  ultimately show ?thesis
    by (simp add: feed_ok_def) (simp add: base_written_def write_base_def)
qed

lemma feed_cong: "tb_entries db' = tb_entries db \<Longrightarrow> tb_projects db' = tb_projects db \<Longrightarrow> feed_ok db' = feed_ok db"
  by (simp add: feed_ok_def)

lemma feed_apply_write:
  assumes ok: "entry_written w x db" and "feed_ok db"
  shows "feed_ok (apply_write w x (find_entry (ew_projectId w) (ew_id w) db) db)"
proof -
  have env: "tb_entries (write_environment w s) = tb_entries s" "tb_projects (write_environment w s) = tb_projects s"
    "tb_entries (write_secret w s) = tb_entries s" "tb_projects (write_secret w s) = tb_projects s" for s
    by (simp_all add: write_environment_def write_secret_def dropVersionValues_def delete_env_access_def Let_def split: option.split)
  show ?thesis
    using feed_base [OF assms] feed_cong [OF env(1,2)] feed_cong [OF env(3,4)]
    by (cases "ew_type w") (simp_all add: apply_write_eq Let_def base_written_def)
qed

text \<open>The entries a rotation touches are the environment and secrets, all different.\<close>

lemma feed_rotate:
  assumes "feed_ok db" "refs_ok db" "keys_ok db" "fst env \<in> set (tb_envAccess db)" "resealed env vs db"
  shows "feed_ok (rotate_writes env a wraps vs now db)"
proof -
  let ?p = "ea_projectId (fst env)" let ?i = "ea_environmentId (fst env)"
  obtain x where x: "find (\<lambda>x. pj_id x = ?p) (tb_projects db) = Some x" using project_of_access [OF assms(2,4)] by blast
  then have xs: "x \<in> set (tb_projects db)" "pj_id x = ?p" by (auto dest: find_set)
  let ?ids = "?i # map fst vs"
  let ?ts = "enumerate (pj_seq x + 1) ?ids"
  obtain f where f: "touched ?p now ?ts (tb_entries db) = map f (tb_entries db)"
    "\<And>e. pe_projectId (f e) = pe_projectId e \<and> pe_id (f e) = pe_id e"
    "\<And>e. pe_projectId e = ?p \<and> pe_id e \<in> snd ` set ?ts \<Longrightarrow> (pe_seq (f e), pe_id e) \<in> set ?ts"
    "\<And>e. \<not> (pe_projectId e = ?p \<and> pe_id e \<in> snd ` set ?ts) \<Longrightarrow> f e = e"
    using touched_map [of ?p now ?ts "tb_entries db"] by blast
  have range: "pj_seq x < fst t \<and> fst t \<le> pj_seq x + 1 + length vs" if "t \<in> set ?ts" for t
    using that by (auto simp: in_set_enumerate_eq simp del: enumerate_simps)
  have inj: "fst t = fst u \<Longrightarrow> t = u" if "t \<in> set ?ts" "u \<in> set ?ts" for t u
    using that distinct_enumerate [of "pj_seq x + 1" ?ids]
    by (auto simp: in_set_enumerate_eq prod_eq_iff simp del: enumerate_simps)
  have below: "pe_seq e \<le> pj_seq x" if "e \<in> set (tb_entries db)" "pe_projectId e = ?p" for e
    using assms(1) that xs by (auto simp: feed_ok_def)
  have same: "e = e'" if e: "e \<in> set (tb_entries db)" "e' \<in> set (tb_entries db)"
    and eq: "pe_projectId (f e) = pe_projectId (f e')" "pe_seq (f e) = pe_seq (f e')" for e e'
  proof -
    have p: "pe_projectId e = pe_projectId e'" using eq(1) f(2) by metis
    let ?in = "\<lambda>e. pe_projectId e = ?p \<and> pe_id e \<in> snd ` set ?ts"
    have unique: "unique_by (\<lambda>e. (pe_projectId e, pe_seq e)) (tb_entries db)" "unique_by pe_key (tb_entries db)"
      using assms(1,3) by (simp_all add: feed_ok_def keys_ok_def)
    consider "?in e" "?in e'" | "?in e" "\<not> ?in e'" | "\<not> ?in e" "?in e'" | "\<not> ?in e" "\<not> ?in e'" by blast
    then show ?thesis
    proof cases
      case 1
      then have "(pe_seq (f e), pe_id e) = (pe_seq (f e'), pe_id e')" using f(3) inj eq(2) by (metis fst_conv)
      then show ?thesis using unique_byD [OF unique(2) e] p by (simp add: pe_key_def)
    next
      case 2
      then have "pj_seq x < pe_seq (f e)" "pe_seq (f e') \<le> pj_seq x" using f(3,4) range below e p by (metis fst_conv)+
      then show ?thesis using eq(2) by simp
    next
      case 3
      then have "pj_seq x < pe_seq (f e')" "pe_seq (f e) \<le> pj_seq x" using f(3,4) range below e p by (metis fst_conv)+
      then show ?thesis using eq(2) by simp
    next
      case 4
      then show ?thesis using unique_byD [OF unique(1) e] eq p f(4) by simp
    qed
  qed
  have "unique_by (\<lambda>e. (pe_projectId e, pe_seq e)) (map f (tb_entries db))"
    using assms(3) same unfolding unique_by_def keys_ok_def distinct_map by (auto simp: inj_on_def distinct_map)
  moreover have "pe_seq (f e) \<le> pj_seq r" if e: "e \<in> set (tb_entries db)" and r: "r \<in> set (tb_projects (rotate_writes env a wraps vs now db))"
    "pj_id r = pe_projectId (f e)" for e r
  proof -
    obtain y where y: "y \<in> set (tb_projects db)" "r = (if pj_id y = ?p then y\<lparr>pj_seq := pj_seq x + 1 + length vs\<rparr> else y)"
      using r(1) unfolding rotate_tables(6) [OF x] by (auto simp: set_update_where)
    have id: "pj_id y = pe_projectId e" using y(2) r(2) f(2) by (auto split: if_splits)
    have old: "pe_seq e \<le> pj_seq y" using assms(1) y(1) e id by (simp add: feed_ok_def)
    show ?thesis
    proof (cases "pe_projectId e = ?p \<and> pe_id e \<in> snd ` set ?ts")
      case True
      then have "pe_seq (f e) \<le> pj_seq x + 1 + length vs" using f(3) range by (metis fst_conv)
      then show ?thesis using True y(2) id by simp
    next
      case False
      then have "pe_seq (f e) = pe_seq e" using f(4) by simp
      moreover have "pe_seq e \<le> pj_seq x" if "pj_id y = ?p" using below e id that by simp
      ultimately show ?thesis using old y(2) by (cases "pj_id y = ?p") simp_all
    qed
  qed
  ultimately show ?thesis
    unfolding feed_ok_def rotate_tables(5) [OF x] f(1) by simp
qed


lemma feed_create:
  assumes "feed_ok db" and fk: "pe_projectId ` set (tb_entries db) \<subseteq> pj_id ` set (tb_projects db)"
  shows "feed_ok (snd (createProject n db))"
proof (cases rule: createProject_cases [of n db])
  case (created x)
  let ?key = "\<lambda>e. (pe_projectId e, pe_seq e)"
  let ?es = "map (first_environment n) (enumerate 1 (np_environments n))"
  have es: "pe_projectId e = np_id n \<and> pe_seq e \<le> length (np_environments n)" if "e \<in> set ?es" for e
    using that by (auto simp: first_environment_def in_set_enumerate_eq)
  have old: "pe_projectId e \<noteq> np_id n" if "e \<in> set (tb_entries db)" for e
    using fk created(1) that by (metis image_eqI subsetD)
  have "map (\<lambda>e. pe_seq e) ?es = map fst (enumerate 1 (np_environments n))"
    by (auto simp: first_environment_def simp del: map_fst_enumerate)
  then have "distinct (map (\<lambda>e. pe_seq e) ?es)" by (simp only: map_fst_enumerate distinct_upt)
  then have "unique_by ?key ?es" by (rule unique_by_pair)
  moreover have "?key e \<noteq> ?key e'" if "e \<in> set (tb_entries db)" "e' \<in> set ?es" for e e'
    using old [OF that(1)] es [OF that(2)] by simp
  then have "?key ` set (tb_entries db) \<inter> ?key ` set ?es = {}" unfolding disjoint_iff image_iff by metis
  ultimately have "unique_by ?key (tb_entries db @ ?es)"
    using assms(1) by (simp add: unique_by_append feed_ok_def)
  moreover have "pe_seq e \<le> pj_seq r" if e: "e \<in> set (tb_entries db @ ?es)" and r: "r \<in> set (tb_projects db @ [x])"
    "pj_id r = pe_projectId e" for e r
  proof (cases "r = x")
    case True
    have "e \<in> set (tb_entries db) \<or> e \<in> set ?es" using e by (simp only: set_append Un_iff)
    then have "e \<in> set ?es" using True r(2) old [of e] created(2) by metis
    from es [OF this] show ?thesis using True created(3) by simp
  next
    case False
    then have x: "r \<in> set (tb_projects db)" using r(1) by simp
    then have "e \<in> set (tb_entries db)" using e r(2) es [of e] created(1) by (metis Un_iff image_eqI set_append)
    then show ?thesis using assms(1) x r(2) by (simp add: feed_ok_def)
  qed
  ultimately show ?thesis unfolding created(4) feed_ok_def by simp
qed (use assms in simp)

lemma feed_step:
  assumes "team_step new db db'" and "keys_ok db" and "refs_ok db" and "feed_ok db"
  shows "feed_ok db'"
  using assms(1)
proof cases
  case (step_register p project now)
  then show ?thesis using assms(4) by (simp add: feed_ok_def)
next
  case (step_rotate env wraps vs a now)
  then show ?thesis using feed_rotate [OF assms(4,3,2)] by simp
next
  case (step_create n)
  then show ?thesis using feed_create [OF assms(4)] assms(3) by (simp add: refs_ok_def)
next
  case (step_update p base meta now)
  then show ?thesis using assms(4) by (auto simp: feed_ok_def updateProject_def Let_def set_update_where)
next
  case (step_delete p)
  have "tb_entries (delete_project p db) = delete_where (\<lambda>e. pe_projectId e = p) (tb_entries db)"
    "tb_projects (delete_project p db) = delete_where (\<lambda>x. pj_id x = p) (tb_projects db)"
    by (simp_all add: delete_project_def delete_env_access_def Let_def)
  with step_delete assms(4) show ?thesis by (auto simp: feed_ok_def intro: unique_by_delete_where)
next
  case (step_write w)
  then show ?thesis
    using feed_apply_write assms(4) by (cases rule: writeEntry_written [OF assms(2,3), of w]) auto
next
  case (step_purge p s now)
  then show ?thesis using assms(4) by (auto simp: feed_ok_def projects_purgeTrash_def Let_def)
qed (use assms(4) in \<open>auto simp: feed_ok_def record_activity_def activity_sweep_def update_member_def delete_group_def decide_def
      Let_def projects_purgeExpired_def remove_member_rows_def\<close>)

section \<open>Grants\<close>

lemma apply_write_tables:
  "set (tb_envGrants (apply_write w x c db)) \<subseteq> set (tb_envGrants db)"
  "set (tb_requests (apply_write w x c db)) \<subseteq> set (tb_requests db)"
  "tb_members (apply_write w x c db) = tb_members db" "tb_orgs (apply_write w x c db) = tb_orgs db"
  "tb_activity (apply_write w x c db) = tb_activity db" "tb_nextSeq (apply_write w x c db) = tb_nextSeq db"
proof -
  have k: "tb_envGrants (kept_version w c db) = tb_envGrants db" "tb_requests (kept_version w c db) = tb_requests db"
    "tb_members (kept_version w c db) = tb_members db" "tb_orgs (kept_version w c db) = tb_orgs db"
    "tb_activity (kept_version w c db) = tb_activity db" "tb_nextSeq (kept_version w c db) = tb_nextSeq db"
    by (cases rule: kept_version_cases [of w c db]; simp)+
  show "set (tb_envGrants (apply_write w x c db)) \<subseteq> set (tb_envGrants db)"
    "set (tb_requests (apply_write w x c db)) \<subseteq> set (tb_requests db)"
    "tb_members (apply_write w x c db) = tb_members db" "tb_orgs (apply_write w x c db) = tb_orgs db"
    "tb_activity (apply_write w x c db) = tb_activity db" "tb_nextSeq (apply_write w x c db) = tb_nextSeq db"
    using k by (cases "ew_type w"; auto simp: apply_write_eq Let_def write_base_def write_environment_def write_secret_def
        dropVersionValues_def delete_env_access_def split: option.split)+
qed

lemma writeEntry_tables:
  "set (tb_envGrants (snd (writeEntry w db))) \<subseteq> set (tb_envGrants db)"
  "set (tb_requests (snd (writeEntry w db))) \<subseteq> set (tb_requests db)"
  "tb_members (snd (writeEntry w db)) = tb_members db" "tb_orgs (snd (writeEntry w db)) = tb_orgs db"
  "tb_activity (snd (writeEntry w db)) = tb_activity db" "tb_nextSeq (snd (writeEntry w db)) = tb_nextSeq db"
  by (cases rule: writeEntry_cases [of w db]; use apply_write_tables in simp)+

lemma delete_project_tables:
  "set (tb_envGrants (delete_project p db)) \<subseteq> set (tb_envGrants db)"
  "set (tb_requests (delete_project p db)) \<subseteq> set (tb_requests db)"
  by (auto simp: delete_project_def delete_env_access_def Let_def)

lemma createProject_tables [simp]:
  "tb_envGrants (snd (createProject n db)) = tb_envGrants db" "tb_requests (snd (createProject n db)) = tb_requests db"
  "tb_members (snd (createProject n db)) = tb_members db" "tb_orgs (snd (createProject n db)) = tb_orgs db"
  "tb_activity (snd (createProject n db)) = tb_activity db" "tb_nextSeq (snd (createProject n db)) = tb_nextSeq db"
  by (cases rule: createProject_cases [of n db]; simp)+

lemma purge_tables [simp]:
  "tb_envGrants (snd (projects_purgeTrash p s now db)) = tb_envGrants db" "tb_requests (snd (projects_purgeTrash p s now db)) = tb_requests db"
  "tb_members (snd (projects_purgeTrash p s now db)) = tb_members db" "tb_orgs (snd (projects_purgeTrash p s now db)) = tb_orgs db"
  "tb_activity (snd (projects_purgeTrash p s now db)) = tb_activity db" "tb_nextSeq (snd (projects_purgeTrash p s now db)) = tb_nextSeq db"
  by (simp_all add: projects_purgeTrash_def Let_def)

lemma grants_step:
  assumes "team_step new db db'" and "grants_ok db"
  shows "grants_ok db'"
  using assms(1)
proof cases
  case (step_register p project now)
  have "g \<in> set (tb_envGrants db) \<or> (\<exists>h. g = manager_grant now h)"
    if "g \<in> set (tb_envGrants (snd (register project now db)))" for g
    using that set_insert_all_new_subset [of eg_key] by (fastforce simp: register_def Let_def split: if_splits)
  then show ?thesis using assms(2) step_register by (fastforce simp: grants_ok_def grant_allowed_def manager_grant_def)
next
  case (step_grant g)
  then show ?thesis using assms(2) by (auto simp: grants_ok_def set_upsert_const)
next
  case (step_delete p)
  then show ?thesis using assms(2) delete_project_tables by (auto simp: grants_ok_def)
next
  case (step_write w)
  then show ?thesis using assms(2) writeEntry_tables by (auto simp: grants_ok_def)
qed (use assms(2) in \<open>auto simp: grants_ok_def record_activity_def activity_sweep_def update_member_def delete_group_def decide_def
      Let_def projects_purgeExpired_def remove_member_rows_def updateProject_def\<close>)

section \<open>Requests\<close>

lemma request_ok_decided: "is_decision f \<Longrightarrow> request_ok r \<Longrightarrow> rq_status r = Pending \<Longrightarrow> request_ok (f r)"
  by (auto simp: is_decision_def request_ok_def denied_by_def approved_by_def)

lemma requests_step:
  assumes "team_step new db db'" and "requests_ok db"
  shows "requests_ok db'"
  using assms(1)
proof cases
  case (step_request r t)
  then show ?thesis using assms(2) by (auto simp: requests_ok_def request_ok_def insert_new_Some)
next
  case (step_decide f i)
  then show ?thesis using assms(2) request_ok_decided by (auto simp: requests_ok_def decide_def Let_def set_update_where)
next
  case (step_delete p)
  then show ?thesis using assms(2) by (auto simp: requests_ok_def dest: subsetD [OF delete_project_tables(2)])
next
  case (step_write w)
  then show ?thesis using assms(2) by (auto simp: requests_ok_def dest: subsetD [OF writeEntry_tables(2)])
next
  case (step_register p project now)
  then show ?thesis using assms(2) by (simp add: requests_ok_def)
qed (use assms(2) in \<open>auto simp: requests_ok_def record_activity_def activity_sweep_def update_member_def delete_group_def
      Let_def projects_purgeExpired_def remove_member_rows_def updateProject_def\<close>)


text \<open>Who has decided stays, as long as its id is not drawn again.\<close>

definition decided_as :: "request_row \<Rightarrow> team_db \<Rightarrow> bool" where
  "decided_as r db \<longleftrightarrow> (\<forall>r' \<in> set (tb_requests db). rq_id r' = rq_id r \<longrightarrow> r' = r)"

lemma decided_step:
  assumes "team_step new db db'" and "rq_status r \<noteq> Pending" and "\<not> new (rq_id r)" and "decided_as r db"
  shows "decided_as r db'"
  using assms(1)
proof cases
  case (step_request q t)
  then show ?thesis using assms by (auto simp: decided_as_def insert_new_Some)
next
  case (step_decide f i)
  then have "rq_id (f q) = rq_id q" for q by (auto simp: is_decision_def denied_by_def approved_by_def)
  with step_decide assms show ?thesis
    by (auto simp: decided_as_def decide_def Let_def set_update_where split: if_splits)
next
  case (step_delete p)
  then show ?thesis using assms(4) by (auto simp: decided_as_def dest: subsetD [OF delete_project_tables(2)])
next
  case (step_write w)
  then show ?thesis using assms(4) by (auto simp: decided_as_def dest: subsetD [OF writeEntry_tables(2)])
next
  case (step_register p project now)
  then show ?thesis using assms(4) by (simp add: decided_as_def)
qed (use assms(4) in \<open>auto simp: decided_as_def record_activity_def activity_sweep_def update_member_def delete_group_def
      Let_def projects_purgeExpired_def remove_member_rows_def updateProject_def\<close>)

lemma decided_steps:
  assumes "team_steps new db db'" and "rq_status r \<noteq> Pending" and "\<not> new (rq_id r)" and "decided_as r db"
  shows "decided_as r db'"
  using assms(1,4)
proof (induction rule: rtranclp_induct)
  case (step y z)
  show ?case by (rule decided_step [OF step.hyps(2) assms(2,3) step.IH [OF step.prems]])
qed

section \<open>Owners\<close>

lemma mem_update_where: "x \<in> set t \<Longrightarrow> (if P x then f x else x) \<in> set (update_where P f t)"
  by (auto simp: set_update_where)

lemma find_member_unique:
  assumes "unique_by om_key (tb_members db)" and "m \<in> set (tb_members db)"
  shows "find_member (om_orgId m) (om_accountId m) db = Some m"
  using find_Some_iff_unique [OF assms(1), of "om_key m" m] assms(2) by (simp add: find_member_def om_key_def)

text \<open>Unless the last owner goes, an owner other than the one who goes remains.\<close>

lemma another_owner:
  assumes unique: "unique_by om_key (tb_members db)" and "\<not> loses_last_owner orgId a db"
    and m: "m \<in> set (tb_members db)" "om_orgId m = orgId" "om_role m = OwnerR"
  shows "\<exists>m' \<in> set (tb_members db). om_orgId m' = orgId \<and> om_role m' = OwnerR \<and> om_accountId m' \<noteq> a"
proof (cases "om_accountId m = a")
  case True
  let ?owners = "filter (\<lambda>m. om_orgId m = orgId \<and> om_role m = OwnerR) (tb_members db)"
  have "find_member orgId a db = Some m" using find_member_unique [OF unique m(1)] m(2) True by simp
  then have "1 < length ?owners" using assms(2) m(3) by (auto simp: loses_last_owner_def ownerCount_def)
  moreover have "distinct ?owners" using unique by (auto simp: unique_by_def distinct_map)
  ultimately have "1 < card (set ?owners)" by (simp only: distinct_card)
  moreover have "card (set ?owners) \<le> card {m}" if "set ?owners \<subseteq> {m}" by (rule card_mono [OF _ that]) simp
  ultimately have "\<not> set ?owners \<subseteq> {m}" by auto
  then obtain m' where m': "m' \<in> set (tb_members db)" "om_orgId m' = orgId" "om_role m' = OwnerR" "m' \<noteq> m" by auto
  then have "om_accountId m' \<noteq> a"
    using unique_byD [OF unique, of m' m] m True by (auto simp: om_key_def)
  then show ?thesis using m' by auto
qed (use m in blast)

lemma owned_step:
  assumes "team_step new db db'" and "keys_ok db" and "owned_orgs db"
  shows "owned_orgs db'"
proof -
  have unique: "unique_by om_key (tb_members db)" using assms(2) by (simp add: keys_ok_def)
  show ?thesis
    using assms(1)
  proof cases
    case (step_register p project now)
    then show ?thesis using assms(3) by (simp add: owned_orgs_def)
  next
    case (step_org x orgs m members)
    then show ?thesis using assms(3) by (auto simp: owned_orgs_def insert_new_Some)
  next
    case (step_invite m members)
    then show ?thesis using assms(3) by (auto simp: owned_orgs_def insert_new_Some)
  next
    case (step_accept orgId a k)
    have "\<exists>m \<in> set (tb_members db'). om_orgId m = or_id x \<and> om_role m = OwnerR" if x: "x \<in> set (tb_orgs db)" for x
    proof -
      obtain m where m: "m \<in> set (tb_members db)" "om_orgId m = or_id x" "om_role m = OwnerR"
        using assms(3) x by (auto simp: owned_orgs_def)
      then show ?thesis
        using mem_update_where [OF m(1), of "\<lambda>m. om_orgId m = orgId \<and> om_accountId m = a" "om_publicKey_update (\<lambda>_. Some k)"]
        unfolding step_accept(1) update_member_def by (intro bexI) (auto split: if_splits)
    qed
    then show ?thesis unfolding owned_orgs_def step_accept(1) by (simp add: update_member_def)
  next
    case (step_role role orgId a)
    have "\<exists>m \<in> set (tb_members db'). om_orgId m = or_id x \<and> om_role m = OwnerR" if x: "x \<in> set (tb_orgs db)" for x
    proof -
      obtain m where m: "m \<in> set (tb_members db)" "om_orgId m = or_id x" "om_role m = OwnerR"
        using assms(3) x by (auto simp: owned_orgs_def)
      obtain m' where "m' \<in> set (tb_members db)" "om_orgId m' = or_id x" "om_role m' = OwnerR"
        "om_orgId m' = orgId \<and> om_accountId m' = a \<Longrightarrow> role = OwnerR"
        using step_role(2) another_owner [OF unique _ m(1) _ m(3), of orgId a] m by (cases "or_id x = orgId") auto
      then show ?thesis
        using mem_update_where [of m' "tb_members db" "\<lambda>m. om_orgId m = orgId \<and> om_accountId m = a" "om_role_update (\<lambda>_. role)"]
        unfolding step_role(1) update_member_def by (intro bexI) (auto split: if_splits)
    qed
    then show ?thesis unfolding owned_orgs_def step_role(1) by (simp add: update_member_def)
  next
    case (step_remove orgId a)
    have "\<exists>m \<in> set (tb_members db'). om_orgId m = or_id x \<and> om_role m = OwnerR" if x: "x \<in> set (tb_orgs db)" for x
    proof -
      obtain m where m: "m \<in> set (tb_members db)" "om_orgId m = or_id x" "om_role m = OwnerR"
        using assms(3) x by (auto simp: owned_orgs_def)
      show ?thesis
        using another_owner [OF unique step_remove(2) m(1) _ m(3)] m
        by (cases "or_id x = orgId") (auto simp: step_remove(1) remove_member_rows_def)
    qed
    then show ?thesis unfolding owned_orgs_def step_remove(1) by (simp add: remove_member_rows_def)
  next
    case (step_write w)
    then show ?thesis using assms(3) by (simp add: owned_orgs_def writeEntry_tables)
  next
    case (step_delete p)
    then show ?thesis using assms(3) by (simp add: owned_orgs_def delete_project_def delete_env_access_def Let_def)
  qed (use assms(3) in \<open>auto simp: owned_orgs_def record_activity_def activity_sweep_def delete_group_def decide_def
      Let_def projects_purgeExpired_def updateProject_def\<close>)
qed

section \<open>The log\<close>

lemma activity_step:
  assumes "team_step new db db'" and "activity_ok db"
  shows "activity_ok db'"
  using assms(1)
proof cases
  case (step_log now events)
  then show ?thesis using activity_ok_record [OF assms(2)] by simp
next
  case (step_sweep now)
  then show ?thesis using activity_ok_sweep [OF assms(2)] by simp
next
  case (step_register p project now)
  then show ?thesis using assms(2) by (simp add: activity_ok_def)
next
  case (step_delete p)
  then show ?thesis using assms(2)
    by (auto simp: activity_ok_def delete_project_def delete_env_access_def Let_def delete_where_def sorted_wrt_map sorted_wrt_filter)
next
  case (step_write w)
  then show ?thesis using assms(2) by (simp add: activity_ok_def writeEntry_tables)
qed (use assms(2) in \<open>auto simp: activity_ok_def update_member_def delete_group_def decide_def remove_member_rows_def
      Let_def projects_purgeExpired_def updateProject_def\<close>)

section \<open>The invariant of runs\<close>

lemma team_ok_step:
  assumes "team_step new db db'" and "team_ok db"
  shows "team_ok db'"
  using assms(2) keys_step [OF assms(1)] refs_step [OF assms(1)] feed_step [OF assms(1)] grants_step [OF assms(1)]
    requests_step [OF assms(1)] owned_step [OF assms(1)] activity_step [OF assms(1)]
  by (simp add: team_ok_def)

lemma team_ok_steps: "team_steps new db db' \<Longrightarrow> team_ok db \<Longrightarrow> team_ok db'"
  by (induction rule: rtranclp_induct) (blast intro: team_ok_step)+

end
