(* ===== verification/TeamCalls.thy ===== *)
theory TeamCalls
  imports TeamRuns
begin

text \<open>
  The requests of the team half of the server as data, what each does to the database, and what
  holds after any run of them. A run is a list of calls in the order they take effect, from any
  callers, at any times; a call that is refused leaves what its handler leaves.
\<close>

datatype org_call =
    NewAccount account_row
  | CreateOrg id string string id
  | InviteMember id id string bool
  | AcceptInvite id id string
  | ChangeRole id id id org_role
  | RemoveMember id id id time
  | CreateGroup id id string id
  | DeleteGroup id id id time
  | AddToGroup id id id id
  | RemoveFromGroup id id id id time
  | RegisterAgent id id string string time id
  | RemoveAgent id id id time

datatype access_call =
    ViewAccess id id time
  | LinkProject id id id time
  | ViewEnvironment id id time
  | PutGrant id id put_grant_req time
  | DeleteGrant id id principal_type id time
  | ViewKeys id id time
  | WrapEnvironmentKey id id nat "member_wrap list" time
  | WrapProjectKey id id "member_wrap list" time
  | RotateKey id id nat "member_wrap list" "(id \<times> blob) list" time
  | RequestAccess key_holder id "id list" string time id
  | ListRequests id id time
  | ViewRequest key_holder id time
  | ApproveRequest id id stored_release time
  | DenyRequest id id time

datatype project_call =
    ListProjects id time
  | ViewProject id id time
  | CreateProject id new_project time
  | UpdateProject id id nat blob time
  | RemoveProject id id time
  | SyncProject id id nat nat time
  | PutEnvironment id id id nat blob "blob option" time
  | PutFolder id id id nat blob time
  | PutSecret id id id nat blob "(id \<times> blob option) list" time
  | DeleteEntry id id entry_type id nat time
  | SecretHistory id id id time
  | ViewTrash id id time
  | PurgeSecrets id id "id option" time
  | SweepTrash time
  | SweepActivity time

datatype token_call =
    ListTokens id id time
  | CreateToken id id create_token_req time
  | RevokeToken id id id time
  | TokenSession id string time
  | TokenSync id string time

datatype team_call = OnOrg org_call | OnAccess access_call | OnProject project_call | OnToken token_call

text \<open>
  \<open>collate\<close> is the order of text and \<open>env\<close> the hash and decoder of tokens. The two calls a token
  makes authenticate it first.
\<close>

primrec org_serve :: "(string \<Rightarrow> string) \<Rightarrow> org_call \<Rightarrow> team_db \<Rightarrow> team_db" where
  "org_serve collate (NewAccount a) db = (case insert_new ac_id a (tb_accounts db) of
     None \<Rightarrow> db | Some t \<Rightarrow> db\<lparr>tb_accounts := t\<rparr>)"
| "org_serve collate (CreateOrg a name k i) db = snd (org_create collate a name k i db)"
| "org_serve collate (InviteMember o' a email adm) db = snd (org_invite o' a email adm db)"
| "org_serve collate (AcceptInvite o' a k) db = snd (org_accept collate o' a k db)"
| "org_serve collate (ChangeRole o' a t role) db = snd (org_changeRole o' a t role db)"
| "org_serve collate (RemoveMember o' a t now) db = snd (org_remove o' a t now db)"
| "org_serve collate (CreateGroup o' a name i) db = snd (org_createGroup o' a name i db)"
| "org_serve collate (DeleteGroup o' a g now) db = snd (org_deleteGroup o' a g now db)"
| "org_serve collate (AddToGroup o' a g t) db = snd (org_addToGroup o' a g t db)"
| "org_serve collate (RemoveFromGroup o' a g t now) db = snd (org_removeFromGroup o' a g t now db)"
| "org_serve collate (RegisterAgent o' a name k now i) db = snd (org_registerAgent o' a name k now i db)"
| "org_serve collate (RemoveAgent o' a i now) db = snd (org_removeAgent o' a i now db)"

primrec access_serve :: "(string \<Rightarrow> string) \<Rightarrow> access_call \<Rightarrow> team_db \<Rightarrow> team_db" where
  "access_serve collate (ViewAccess a p now) db = snd (access_project collate a p now db)"
| "access_serve collate (LinkProject a p o' now) db = snd (linkProject collate a p o' now db)"
| "access_serve collate (ViewEnvironment a i now) db = snd (env_detail a i now db)"
| "access_serve collate (PutGrant a i req now) db = snd (putGrant a i req now db)"
| "access_serve collate (DeleteGrant a i t pid now) db = snd (deleteGrant a i t pid now db)"
| "access_serve collate (ViewKeys a p now) db = snd (myKeys a p now db)"
| "access_serve collate (WrapEnvironmentKey a i v ws now) db = snd (addEnvironmentWraps a i v ws now db)"
| "access_serve collate (WrapProjectKey a p ws now) db = snd (addProjectWraps a p ws now db)"
| "access_serve collate (RotateKey a i v ws vs now) db = snd (rotate_env a i v ws vs now db)"
| "access_serve collate (RequestAccess h i items reason now r) db = snd (createRequest h i items reason now r db)"
| "access_serve collate (ListRequests a i now) db = snd (listRequests a i now db)"
| "access_serve collate (ViewRequest h i now) db = snd (getRequest h i now db)"
| "access_serve collate (ApproveRequest a i release now) db = snd (approve_request a i release now db)"
| "access_serve collate (DenyRequest a i now) db = snd (deny_request a i now db)"

primrec project_serve :: "(string \<Rightarrow> string) \<Rightarrow> project_call \<Rightarrow> team_db \<Rightarrow> team_db" where
  "project_serve collate (ListProjects u now) db = snd (projects_list u now db)"
| "project_serve collate (ViewProject u p now) db = snd (projects_get u p now db)"
| "project_serve collate (CreateProject u n now) db = snd (projects_create u n now db)"
| "project_serve collate (UpdateProject u p base meta now) db = snd (projects_update u p base meta now db)"
| "project_serve collate (RemoveProject u p now) db = snd (projects_remove u p now db)"
| "project_serve collate (SyncProject u p since limit now) db = snd (projects_sync u p since limit now db)"
| "project_serve collate (PutEnvironment u p i base meta k now) db = snd (putEnvironment u p i base meta k now db)"
| "project_serve collate (PutFolder u p i base meta now) db = snd (putFolder u p i base meta now db)"
| "project_serve collate (PutSecret u p i base meta vs now) db = snd (putSecret u p i base meta vs now db)"
| "project_serve collate (DeleteEntry u p t i base now) db = snd (deleteEntry u p t i base now db)"
| "project_serve collate (SecretHistory u p s now) db = snd (secretHistory collate u p s now db)"
| "project_serve collate (ViewTrash u p now) db = snd (projects_trash collate u p now db)"
| "project_serve collate (PurgeSecrets u p s now) db = snd (projects_purge u p s now db)"
| "project_serve collate (SweepTrash now) db = projects_purgeExpired now db"
| "project_serve collate (SweepActivity now) db = activity_sweep now db"

primrec token_serve :: "token_env \<Rightarrow> token_call \<Rightarrow> team_db \<Rightarrow> team_db" where
  "token_serve env (ListTokens u p now) db = snd (tokens_list u p now db)"
| "token_serve env (CreateToken u p req now) db = snd (tokens_create env u p req now db)"
| "token_serve env (RevokeToken u p t now) db = snd (tokens_revoke u p t now db)"
| "token_serve env (TokenSession t k now) db = snd (and_then (authenticate env t k now db) (\<lambda>a db. token_session a now db))"
| "token_serve env (TokenSync t k now) db = snd (authenticate env t k now db)"

primrec team_serve :: "(string \<Rightarrow> string) \<Rightarrow> token_env \<Rightarrow> team_call \<Rightarrow> team_db \<Rightarrow> team_db" where
  "team_serve collate env (OnOrg c) db = org_serve collate c db"
| "team_serve collate env (OnAccess c) db = access_serve collate c db"
| "team_serve collate env (OnProject c) db = project_serve collate c db"
| "team_serve collate env (OnToken c) db = token_serve env c db"

definition team_run :: "(string \<Rightarrow> string) \<Rightarrow> token_env \<Rightarrow> team_call list \<Rightarrow> team_db \<Rightarrow> team_db" where
  "team_run collate env calls db = fold (team_serve collate env) calls db"

text \<open>The id a call may draw for a request.\<close>

definition drawn_id :: "team_call \<Rightarrow> id option" where
  "drawn_id c = (case c of OnAccess (RequestAccess h i items reason now r) \<Rightarrow> Some r | _ \<Rightarrow> None)"

lemma org_serve_steps: "team_steps new db (org_serve collate c db)"
proof (cases c)
  case (NewAccount a)
  then show ?thesis by (auto intro: steps_one step_account split: option.split)
qed (auto intro: steps)

lemma project_serve_steps: "team_steps new db (project_serve collate c db)"
proof (cases c)
  case (SweepTrash now)
  then show ?thesis by (auto intro: steps_one step_purge_expired)
next
  case (SweepActivity now)
  then show ?thesis by (auto intro: steps_one step_sweep)
qed (auto intro: steps)

lemma token_serve_steps: "team_steps new db (token_serve env c db)"
proof (cases c)
  case (TokenSession t k now)
  then show ?thesis by (auto intro: steps_and_then steps)
qed (auto intro: steps)

lemma access_serve_steps:
  assumes "\<And>r. drawn_id (OnAccess c) = Some r \<Longrightarrow> new r"
  shows "team_steps new db (access_serve collate c db)"
  using assms by (cases c) (auto simp: drawn_id_def intro: steps)

lemma serve_steps:
  assumes "\<And>r. drawn_id c = Some r \<Longrightarrow> new r"
  shows "team_steps new db (team_serve collate env c db)"
  using assms
  by (cases c) (simp_all add: org_serve_steps access_serve_steps project_serve_steps token_serve_steps)

lemma run_steps:
  assumes "\<And>c r. c \<in> set calls \<Longrightarrow> drawn_id c = Some r \<Longrightarrow> new r"
  shows "team_steps new db (team_run collate env calls db)"
  using assms
proof (induction calls arbitrary: db)
  case (Cons c calls)
  have "team_steps new db (team_serve collate env c db)" by (rule serve_steps, rule Cons.prems [of c]) simp_all
  also have "team_steps new (team_serve collate env c db) (team_run collate env calls (team_serve collate env c db))"
    by (rule Cons.IH, rule Cons.prems) simp_all
  finally show ?case by (simp add: team_run_def)
qed (simp add: team_run_def)

lemma run_ok: "team_ok (team_run collate env calls empty_db)"
  using team_ok_steps [OF run_steps [where new = "\<lambda>_. True"] team_ok_empty] by simp

end
