(* ===== verification/RunProps.thy ===== *)
theory RunProps
  imports TeamCalls
begin

text \<open>
  What no run of requests can break: well formed tables, an owner for every organization, decided
  requests, and the window in which a release can be fetched.
\<close>

section \<open>A run to look at\<close>

text \<open>
  Olga founds an organization and invites Bob; she shares a project with it and has Bob ask
  each time. He asks, she approves.
\<close>

definition demo_blob :: "string \<Rightarrow> blob" where "demo_blob kid = \<lparr>bl_kid = kid, bl_nonce = ''n'', bl_ct = ''c''\<rparr>"

definition demo_tokens :: token_env where "demo_tokens = \<lparr>tv_sha256 = (\<lambda>s. s), tv_decode = (\<lambda>s. s)\<rparr>"

definition demo_auth_key :: string where "demo_auth_key = ''abcdefghijklmnopqrstuvwxyz012345''"

definition demo_new_project :: new_project where
  "demo_new_project = \<lparr>np_id = ''p'', np_ownerId = ''olga'', np_encryptedMeta = demo_blob ''p'',
     np_encryptedKey = demo_blob ACCOUNT_KID,
     np_environments = [\<lparr>ne_id = ''e'', ne_encryptedMeta = demo_blob ''e'', ne_encryptedKey = demo_blob ACCOUNT_KID\<rparr>],
     np_now = 0\<rparr>"

definition demo_release :: stored_release where
  "demo_release = \<lparr>rl_approverPublicKey = ''KO'', rl_ephemeralPublicKey = ''E'', rl_blob = demo_blob ''r''\<rparr>"

definition demo_token_req :: create_token_req where
  "demo_token_req = \<lparr>cr_id = ''t'', cr_name = ''ci'', cr_verifier = demo_auth_key, cr_expiresAt = 1000,
     cr_encryptedProjectKey = demo_blob ''t'',
     cr_environments = [\<lparr>te_environmentId = ''e'', te_keyVersion = 1, te_encryptedKey = demo_blob ''t''\<rparr>]\<rparr>"

definition demo_calls :: "team_call list" where
  "demo_calls =
     [OnOrg (NewAccount \<lparr>ac_id = ''olga'', ac_email = ''olga@x''\<rparr>), OnOrg (NewAccount \<lparr>ac_id = ''bob'', ac_email = ''bob@x''\<rparr>),
      OnOrg (CreateOrg ''olga'' ''acme'' ''KO'' ''o''), OnOrg (InviteMember ''o'' ''olga'' ''bob@x'' False),
      OnOrg (AcceptInvite ''o'' ''bob'' ''KB''), OnProject (CreateProject ''olga'' demo_new_project 1),
      OnAccess (LinkProject ''olga'' ''p'' ''o'' 2),
      OnAccess (PutGrant ''olga'' ''e'' \<lparr>gq_type = AccountP, gq_id = ''bob'', gq_level = NeedsApproval, gq_expiresAt = None\<rparr> 3),
      OnAccess (RequestAccess \<lparr>kh_type = AccountP, kh_id = ''bob''\<rparr> ''e'' [''s''] ''deploy'' 4 ''r''),
      OnAccess (ApproveRequest ''olga'' ''r'' demo_release 5),
      OnProject (PutSecret ''olga'' ''p'' ''s'' 0 (demo_blob ''s'') [(''e'', Some (demo_blob ''e''))] 8),
      OnToken (CreateToken ''olga'' ''p'' demo_token_req 9)]"


definition demo_run :: team_db where
  "demo_run = team_run (\<lambda>s. s) demo_tokens demo_calls empty_db"

definition demo_request :: request_row where
  "demo_request = \<lparr>rq_id = ''r'', rq_environmentId = ''e'', rq_requesterType = AccountP, rq_requesterId = ''bob'',
     rq_requesterPublicKey = ''KB'', rq_items = [''s''], rq_reason = ''deploy'', rq_status = ApprovedRequest,
     rq_expiresAt = 3600004, rq_decidedBy = Some ''olga'', rq_decidedAt = Some 5, rq_release = Some demo_release,
     rq_releaseExpiresAt = Some 900005, rq_createdAt = 4\<rparr>"

definition demo_env_row :: env_access_row where
  "demo_env_row = \<lparr>ea_environmentId = ''e'', ea_projectId = ''p'', ea_orgId = ''o'', ea_keyVersion = 1,
     ea_rotationRequiredAt = None, ea_createdAt = 2\<rparr>"

definition demo_token :: token_row where
  "demo_token = \<lparr>tk_id = ''t'', tk_projectId = ''p'', tk_createdBy = ''olga'', tk_name = ''ci'', tk_verifier = demo_auth_key,
     tk_encryptedProjectKey = demo_blob ''t'',
     tk_environments = [\<lparr>te_environmentId = ''e'', te_keyVersion = 1, te_encryptedKey = demo_blob ''t''\<rparr>],
     tk_expiresAt = 1000, tk_lastUsedAt = None, tk_createdAt = 9\<rparr>"

definition demo_event :: "nat \<Rightarrow> time \<Rightarrow> string \<Rightarrow> id \<Rightarrow> id option \<Rightarrow> id option \<Rightarrow> activity_detail \<Rightarrow> activity_row" where
  "demo_event n t action a i target detail = \<lparr>ae_seq = n, ae_projectId = ''p'', ae_at = t, ae_action = action,
     ae_actorType = AccountP, ae_actorId = a, ae_environmentId = i, ae_targetId = target, ae_detail = detail\<rparr>"

text \<open>The database after the run.\<close>

definition demo_db :: team_db where
  "demo_db = empty_db\<lparr>
     tb_accounts := [\<lparr>ac_id = ''olga'', ac_email = ''olga@x''\<rparr>, \<lparr>ac_id = ''bob'', ac_email = ''bob@x''\<rparr>],
     tb_projects := [\<lparr>pj_id = ''p'', pj_ownerId = ''olga'', pj_encryptedMeta = demo_blob ''p'', pj_revision = 1, pj_seq = 2,
       pj_createdAt = 1, pj_updatedAt = 1\<rparr>],
     tb_keyGrants := [own_grant ''p'' ''p'' ''olga'' (demo_blob ACCOUNT_KID), own_grant ''p'' ''e'' ''olga'' (demo_blob ACCOUNT_KID)],
     tb_entries := [\<lparr>pe_projectId = ''p'', pe_id = ''e'', pe_type = EnvironmentE, pe_revision = 1, pe_seq = 1,
         pe_deleted = False, pe_encryptedMeta = Some (demo_blob ''e''), pe_updatedAt = 1\<rparr>,
       \<lparr>pe_projectId = ''p'', pe_id = ''s'', pe_type = SecretE, pe_revision = 1, pe_seq = 2, pe_deleted = False,
         pe_encryptedMeta = Some (demo_blob ''s''), pe_updatedAt = 8\<rparr>],
     tb_values := [\<lparr>vl_projectId = ''p'', vl_secretId = ''s'', vl_environmentId = ''e'', vl_encryptedValue = demo_blob ''e'',
       vl_updatedAt = 8\<rparr>],
     tb_orgs := [\<lparr>or_id = ''o'', or_name = ''acme'', or_createdBy = ''olga''\<rparr>],
     tb_members := [\<lparr>om_orgId = ''o'', om_accountId = ''olga'', om_role = OwnerR, om_publicKey = Some ''KO''\<rparr>,
       \<lparr>om_orgId = ''o'', om_accountId = ''bob'', om_role = MemberR, om_publicKey = Some ''KB''\<rparr>],
     tb_projectOrgs := [\<lparr>po_projectId = ''p'', po_orgId = ''o'', po_linkedBy = ''olga''\<rparr>],
     tb_envAccess := [demo_env_row],
     tb_envGrants := [\<lparr>gf_principalType = AccountP, gf_principalId = ''olga'', gf_level = Manage, gf_expiresAt = None,
         eg_environmentId = ''e'', eg_grantedBy = ''olga'', eg_createdAt = 2\<rparr>,
       \<lparr>gf_principalType = AccountP, gf_principalId = ''bob'', gf_level = NeedsApproval, gf_expiresAt = None,
         eg_environmentId = ''e'', eg_grantedBy = ''olga'', eg_createdAt = 3\<rparr>],
     tb_requests := [demo_request], tb_tokens := [demo_token],
     tb_activity := [demo_event 1 2 ''project.linked'' ''olga'' None None NoDetail,
       demo_event 2 3 ''grant.changed'' ''olga'' (Some ''e'') (Some ''bob'')
         (PrincipalDetail AccountP ''bob'' (Some ''bob@x'') (Some NeedsApproval) None),
       demo_event 3 4 ''request.created'' ''bob'' (Some ''e'') (Some ''r'') (ItemsDetail 1),
       demo_event 4 5 ''request.approved'' ''olga'' (Some ''e'') (Some ''r'')
         (PrincipalDetail AccountP ''bob'' (Some ''bob@x'') None (Some 1)),
       demo_event 5 8 ''secret.created'' ''olga'' (Some ''e'') (Some ''s'') NoDetail,
       demo_event 6 9 ''token.issued'' ''olga'' (Some ''e'') (Some ''t'') (TokenDetail ''ci'' None)],
     tb_nextSeq := 7, tb_invites := [(''bob@x'', ''acme'', ''olga@x'')]\<rparr>"

lemma demo_run_eq: "demo_run = demo_db"
  unfolding demo_run_def by code_simp

lemma demo_run_requests: "tb_requests demo_run = [demo_request]"
  and demo_run_orgs: "tb_orgs demo_run = [\<lparr>or_id = ''o'', or_name = ''acme'', or_createdBy = ''olga''\<rparr>]"
  unfolding demo_run_eq by (simp_all add: demo_db_def)

lemma team_run_append: "team_run collate env (a @ b) db = team_run collate env b (team_run collate env a db)"
  by (simp add: team_run_def)

section \<open>Properties\<close>




text \<open>C20. A decision is final: a request that has been approved or denied stays exactly as it is in
  every later run, as long as its id is not drawn again.\<close>

theorem decision_is_final:
  assumes "r \<in> set (tb_requests (team_run collate env calls empty_db))" and "rq_status r \<noteq> Pending"
    and "Some (rq_id r) \<notin> drawn_id ` set later"
    and "r' \<in> set (tb_requests (team_run collate env (calls @ later) empty_db))" and "rq_id r' = rq_id r"
  shows "r' = r"
proof -
  let ?db = "team_run collate env calls empty_db"
  have "unique_by rq_id (tb_requests ?db)" using run_ok [of collate env calls] by (simp add: team_ok_def keys_ok_def)
  then have now: "decided_as r ?db" using unique_byD assms(1) unfolding decided_as_def by metis
  have "team_steps (\<lambda>i. i \<noteq> rq_id r) ?db (team_run collate env later ?db)"
    by (rule run_steps) (use assms(3) in force)
  then have "decided_as r (team_run collate env later ?db)" using decided_steps [OF _ assms(2) _ now] by simp
  then show ?thesis using assms(4,5) by (simp add: team_run_append decided_as_def)
qed

definition demo_later :: "team_call list" where
  "demo_later = [OnAccess (DenyRequest ''olga'' ''r'' 6), OnAccess (ApproveRequest ''olga'' ''r'' demo_release 7)]"

lemma demo_later_requests: "tb_requests (team_run (\<lambda>s. s) demo_tokens demo_later demo_run) = [demo_request]"
  unfolding demo_run_eq by code_simp

theorem decision_is_final_witness:
  "hd (tb_requests (team_run (\<lambda>s. s) demo_tokens (demo_calls @ demo_later) empty_db)) = demo_request"
  by (rule decision_is_final [where calls = demo_calls and later = demo_later and collate = "\<lambda>s. s" and env = demo_tokens])
    (simp_all add: team_run_append demo_run_def [symmetric] demo_run_requests demo_later_requests,
      simp_all add: demo_request_def demo_later_def drawn_id_def)

text \<open>C21. What was sealed for an approved request is handed to the one who asked and to nobody else,
  and only until fifteen minutes after somebody approved it.\<close>

theorem release_window:
  assumes "getRequest h i now (team_run collate env calls empty_db) = (Inr v, db')" and "rv_release v = Some release"
  shows "\<exists>r a t. r \<in> set (tb_requests (team_run collate env calls empty_db)) \<and> rq_id r = i \<and>
    rq_requesterType r = kh_type h \<and> rq_requesterId r = kh_id h \<and> rq_status r = ApprovedRequest \<and>
    rq_release r = Some release \<and> rq_decidedBy r = Some a \<and> rq_decidedAt r = Some t \<and> now < t + 15 * 60 * 1000"
proof -
  let ?db = "team_run collate env calls empty_db"
  obtain r where r: "find (\<lambda>r. rq_id r = i) (tb_requests ?db) = Some r"
    using assms(1) by (auto simp: getRequest_def split: option.splits)
  then have mem: "r \<in> set (tb_requests ?db)" "rq_id r = i" by (auto dest: find_set)
  let ?own = "rq_requesterType r = kh_type h \<and> rq_requesterId r = kh_id h"
  have "\<exists>name. v = request_view r name ?own now"
    using assms(1) unfolding getRequest_def r by (auto simp: Let_def and_then_Inr_iff split: if_splits)
  then have own: ?own "release_live r now" "rq_release r = Some release"
    using assms(2) by (auto simp: request_view_def split: if_splits)
  have "request_ok r" using run_ok [of collate env calls] mem by (simp add: team_ok_def requests_ok_def)
  then obtain a t where "rq_decidedBy r = Some a" "rq_decidedAt r = Some t"
      "rq_releaseExpiresAt r = Some (t + releaseTtlSeconds * 1000)" "rq_status r = ApprovedRequest"
    using own(3) by (auto simp: request_ok_def)
  then show ?thesis using mem own by (auto simp: release_live_def releaseTtlSeconds_def)
qed

lemma demo_release_view: "rv_release (projr (fst (getRequest \<lparr>kh_type = AccountP, kh_id = ''bob''\<rparr> ''r'' 900004 demo_run))) = Some demo_release"
  "isl (fst (getRequest \<lparr>kh_type = AccountP, kh_id = ''bob''\<rparr> ''r'' 900004 demo_run)) = False"
  unfolding getRequest_def demo_run_requests by (simp_all add: demo_request_def request_view_def release_live_def)

theorem release_window_witness: "demo_request \<in> set (tb_requests demo_run) \<and> rq_decidedAt demo_request = Some 5"
proof -
  obtain v s where "getRequest \<lparr>kh_type = AccountP, kh_id = ''bob''\<rparr> ''r'' 900004 demo_run = (Inr v, s)"
    using demo_release_view(2) by (metis isl_def prod.exhaust_sel sum.exhaust_sel)
  then show ?thesis
    using release_window [of "\<lparr>kh_type = AccountP, kh_id = ''bob''\<rparr>" "''r''" 900004 "\<lambda>s. s" demo_tokens demo_calls v s demo_release]
      demo_release_view(1)
    by (auto simp: demo_run_def [symmetric] demo_run_requests) (simp add: demo_request_def)
qed

end
