(* ===== verification/AccessProps.thy ===== *)
theory AccessProps
  imports RunProps
begin

text \<open>
  What a decision, a rotation and a removal do to who holds which key.
\<close>

lemma team_ok_after:
  assumes "team_steps new (team_run collate env calls empty_db) db"
  shows "team_ok db"
  by (rule team_ok_steps [OF assms run_ok])

section \<open>Rotation\<close>

lemma set_key_holders:
  "a \<in> set (key_holders env now db) \<longleftrightarrow>
     holdsKey (account_level env a now db) \<and> map_of (org_keys (ea_orgId (fst env)) db) (holderKey AccountP a) \<noteq> None"
  (is "_ \<longleftrightarrow> ?holds")
proof
  assume "a \<in> set (key_holders env now db)"
  then obtain key level where e: "(key, level) \<in> set (env_levels env now db)" "is_account_key key" "holdsKey level"
      "map_of (org_keys (ea_orgId (fst env)) db) key \<noteq> None" "a = account_of_key key"
    by (auto simp: key_holders_def)
  have "key \<in> fst ` set (env_levels env now db)" using e(1) by (metis fst_conv image_eqI)
  then obtain j where "key = holderKey AccountP j" using e(2) unfolding env_levels_def keys_allLevels by auto
  with e show ?holds
    by (auto simp: env_levels_def account_level_def levelOf_def allLevels_mem map_of_allLevels split: if_splits)
next
  assume holds: ?holds
  let ?org = "org_of (ea_orgId (fst env)) (Some (snd env)) db"
  have "account_level env a now db \<noteq> NoAccess" using holds by (auto simp: holdsKey_def levelAtLeast_def)
  then have "a \<in> set (level_accounts ?org)"
    using effectiveLevel_outsider [of a ?org] by (auto simp: account_level_def levelOf_def)
  then have "(holderKey AccountP a, account_level env a now db) \<in> set (env_levels env now db)"
    by (simp add: env_levels_def account_level_def levelOf_def allLevels_mem map_of_allLevels)
  with holds have "(holderKey AccountP a, account_level env a now db) \<in>
      set (filter (\<lambda>(key, level). is_account_key key \<and> holdsKey level \<and>
        map_of (org_keys (ea_orgId (fst env)) db) key \<noteq> None) (env_levels env now db))" by simp
  then show "a \<in> set (key_holders env now db)"
    unfolding key_holders_def set_map by (rule rev_image_eqI) simp
qed

text \<open>What has been checked when a rotation succeeds.\<close>

lemma rotateKey_ok:
  assumes "rotateKey a i v wraps values now db = (Inr env, db')"
  obtains me s where "env_visible a i now db = (Inr (env, me), s)" "db' = rotate_writes env a wraps values now s"
    "account_level env a now s = Manage" "ea_keyVersion (fst env) = v"
    "mw_recipientId ` set wraps = set (key_holders env now s)" "resealed env values s"
    "distinct (map mw_recipientId wraps)"
proof -
  let ?p = "ea_projectId (fst env)"
  let ?want = "\<lambda>s. map vl_secretId (filter (\<lambda>v. vl_projectId v = ?p \<and> vl_environmentId v = i) (tb_values s))"
  let ?bad = "\<lambda>s. length (js_set (?want s)) \<noteq> length (js_set (map fst values)) \<or>
    (\<exists>x \<in> set (js_set (?want s)). x \<notin> set (js_set (map fst values))) \<or> length (js_set (map fst values)) \<noteq> length values"
  obtain x s where x: "env_visible a i now db = (Inr x, s)"
    and rest: "(\<lambda>(env, me) db. let p = ea_projectId (fst env); holders = key_holders env now db in
     if \<not> levelAtLeast (account_level env a now db) Manage
     then throw (Forbidden ''Only managers can rotate the key'') db
     else if v \<noteq> ea_keyVersion (fst env)
     then throw (Conflict ''Someone else rotated this environment first'') db
     else case checkWraps wraps (om_publicKey me) (org_keys (ea_orgId (fst env)) db) (\<lambda>a. a \<in> set holders) [] of
       Some e \<Rightarrow> throw e db
     | None \<Rightarrow>
        if \<exists>a \<in> set holders. a \<notin> mw_recipientId ` set wraps
        then throw (Unprocessable ''Wrap the new key for everyone with access'') db
        else if \<exists>v \<in> set values. bl_kid (snd v) \<noteq> i
        then throw (Unprocessable ''Values must be sealed with the key of this environment'') db
        else
          let want = js_set (map vl_secretId (filter (\<lambda>v. vl_projectId v = p \<and> vl_environmentId v = i) (tb_values db)));
              got = js_set (map fst values)
          in if length want \<noteq> length got \<or> (\<exists>s \<in> set want. s \<notin> set got) \<or> length got \<noteq> length values
             then throw (Conflict ''Re-seal exactly the current values of the environment; sync and retry'') db
             else if \<not> list_ex (\<lambda>e. ea_environmentId e = i \<and> ea_keyVersion e = ea_keyVersion (fst env)) (tb_envAccess db)
             then throw (Conflict ''Someone else rotated this environment first'') db
             else ret env (rotate_writes env a wraps values now db)) x s = (Inr env, db')"
    using assms unfolding rotateKey_def and_then_Inr_iff by blast
  obtain env1 me where x2: "x = (env1, me)" by (cases x)
  note rest = rest [unfolded x2 split Let_def]
  have env1: "env1 = env" using rest by (simp split: if_split_asm option.split_asm)
  note rest = rest [unfolded env1]
  have ok: "account_level env a now s = Manage" "ea_keyVersion (fst env) = v" "db' = rotate_writes env a wraps values now s"
    "checkWraps wraps (om_publicKey me) (org_keys (ea_orgId (fst env)) s) (\<lambda>a. a \<in> set (key_holders env now s)) [] = None"
    using rest by (simp_all split: if_split_asm option.split_asm)
  have all: "set (key_holders env now s) \<subseteq> mw_recipientId ` set wraps" using rest ok(4) by (auto split: if_split_asm)
  have same: "\<not> ?bad s"
  proof
    assume "?bad s"
    with rest ok(4) show False unfolding option.case by (simp only: if_True if_False split: if_split_asm) simp_all
  qed
  note vis = x [unfolded x2 env1]
  have "ea_environmentId (fst env) = i" using env_visible_row [OF vis(1)] by simp
  then have "resealed env values s" using resealed_iff [OF same] by (simp add: resealed_def)
  moreover have "mw_recipientId ` set wraps = set (key_holders env now s)" "distinct (map mw_recipientId wraps)"
    using checkWraps_distinct [OF ok(4)] all by auto
  ultimately show thesis using that vis ok(1,2,3) by blast
qed

text \<open>After the loop over the values, each of the environment's is the one given for its secret.\<close>

lemma reseal_mem:
  "v \<in> set (reseal p i now x t) \<Longrightarrow> \<exists>v' \<in> set t. v = (if vl_projectId v' = p \<and> vl_secretId v' = fst x \<and> vl_environmentId v' = i
     then v'\<lparr>vl_encryptedValue := snd x, vl_updatedAt := now\<rparr> else v')"
  by (auto simp: reseal_def set_update_where)

lemma resealed_values:
  assumes "v \<in> set (fold (reseal p i now) vs t)" and "vl_projectId v = p" and "vl_environmentId v = i"
    and "distinct (map fst vs)" and "x \<in> set vs" and "fst x = vl_secretId v"
  shows "vl_encryptedValue v = snd x"
  using assms
proof (induction vs arbitrary: t rule: rev_induct)
  case (snoc y vs)
  have "v \<in> set (reseal p i now y (fold (reseal p i now) vs t))" using snoc.prems(1) by simp
  from bexE [OF reseal_mem [OF this]] obtain v' where v': "v' \<in> set (fold (reseal p i now) vs t)"
    "v = (if vl_projectId v' = p \<and> vl_secretId v' = fst y \<and> vl_environmentId v' = i
          then v'\<lparr>vl_encryptedValue := snd y, vl_updatedAt := now\<rparr> else v')"
    by metis
  show ?case
  proof (cases "x = y")
    case True
    then show ?thesis using v' snoc.prems by (auto split: if_splits)
  next
    case False
    then have x: "x \<in> set vs" using snoc.prems(5) by simp
    have "fst y \<notin> fst ` set vs" "distinct (map fst vs)" using snoc.prems(4) by simp_all
    then have other: "fst x \<noteq> fst y" "distinct (map fst vs)" using imageI [OF x, of fst] by metis+
    have "v = v'" using v'(2) other(1) snoc.prems(6) by (auto split: if_splits)
    then have "v \<in> set (fold (reseal p i now) vs t)" using v'(1) by simp
    from snoc.IH [OF this snoc.prems(2,3) other(2) x snoc.prems(6)] show ?thesis .
  qed
qed simp

lemma reseal_keys: "vl_key ` set (fold (reseal p i now) vs t) = vl_key ` set t"
proof -
  have "map vl_key (fold (reseal p i now) vs t) = map vl_key t"
    by (induction vs arbitrary: t) (simp_all add: reseal_def map_update_where vl_key_def)
  then show ?thesis by (metis list.set_map)
qed

lemma resealed_mem:
  assumes "resealed env values s" and "x \<in> set (fold (reseal (ea_projectId (fst env)) (ea_environmentId (fst env)) now) values (tb_values s))"
    and "vl_projectId x = ea_projectId (fst env)" and "vl_environmentId x = ea_environmentId (fst env)"
  shows "(vl_secretId x, vl_encryptedValue x) \<in> set values"
proof -
  let ?p = "ea_projectId (fst env)" and ?i = "ea_environmentId (fst env)"
  obtain y where "y \<in> set (tb_values s)" "vl_projectId y = ?p" "vl_secretId y = vl_secretId x" "vl_environmentId y = ?i"
    using imageI [OF assms(2), of vl_key] assms(3,4) unfolding reseal_keys by (auto simp: vl_key_def)
  then have "vl_secretId x \<in> fst ` set values" using assms(1) by (auto simp: resealed_def intro!: rev_image_eqI)
  then obtain c where "(vl_secretId x, c) \<in> set values" by auto
  then show ?thesis
    using resealed_values [OF assms(2,3,4) _ \<open>(vl_secretId x, c) \<in> set values\<close>] assms(1) by (simp add: resealed_def)
qed

lemma find_update_where:
  assumes "\<And>r. j (f r) = j r" and "find (\<lambda>r. j r = x) t = Some r"
  shows "find (\<lambda>r. j r = x) (update_where P f t) = Some (if P r then f r else r)"
  using assms(2) by (induction t) (auto simp: assms(1) split: if_splits)

lemma find_unique_row:
  assumes "keys_ok db" and "e \<in> set (tb_envAccess db)"
  shows "find (\<lambda>e'. ea_environmentId e' = ea_environmentId e) (tb_envAccess db) = Some e"
  using assms find_Some_iff_unique [of ea_environmentId "tb_envAccess db"] by (simp add: keys_ok_def)

lemma account_level_cong:
  "tb_members db' = tb_members db \<Longrightarrow> tb_groups db' = tb_groups db \<Longrightarrow> tb_groupMembers db' = tb_groupMembers db \<Longrightarrow>
     tb_agents db' = tb_agents db \<Longrightarrow> tb_envGrants db' = tb_envGrants db \<Longrightarrow> levelOf env h now db' = levelOf env h now db"
  by (simp add: levelOf_def org_of_cong [of db' db] grants_of_cong [of db' db])

text \<open>C2. Rotating the key of an environment takes a manager and the current version. It gives the
  new key to exactly the accounts whose level holds the key and whose sharing key is on file,
  and to no one else; the version goes up by one and the environment is no longer flagged; every
  value in it is the one sealed with the new key, and no old version of a secret of the project
  keeps a value of the environment.\<close>

theorem rotation_rekeys:
  assumes "rotateKey a i v wraps values now (team_run collate tokens calls empty_db) = (Inr env, db')"
  shows "account_level env a now db' = Manage \<and>
    find (\<lambda>e. ea_environmentId e = i) (tb_envAccess db') =
      Some ((fst env)\<lparr>ea_keyVersion := v + 1, ea_rotationRequiredAt := None\<rparr>) \<and>
    kg_accountId ` {g \<in> set (tb_keyGrants db'). kg_projectId g = ea_projectId (fst env) \<and> kg_resourceId g = i} =
      {b. holdsKey (account_level env b now db') \<and>
        map_of (org_keys (ea_orgId (fst env)) db') (holderKey AccountP b) \<noteq> None} \<and>
    (\<forall>x \<in> set (tb_values db'). vl_projectId x = ea_projectId (fst env) \<and> vl_environmentId x = i \<longrightarrow>
      (vl_secretId x, vl_encryptedValue x) \<in> set values) \<and>
    (\<forall>x \<in> set (tb_versions db'). ve_projectId x = ea_projectId (fst env) \<longrightarrow> i \<notin> fst ` set (ve_values x))"
proof -
  let ?p = "ea_projectId (fst env)" and ?db = "team_run collate tokens calls empty_db"
  obtain me s where ok: "env_visible a i now ?db = (Inr (env, me), s)" "db' = rotate_writes env a wraps values now s"
    "account_level env a now s = Manage" "ea_keyVersion (fst env) = v"
    "mw_recipientId ` set wraps = set (key_holders env now s)" "resealed env values s"
    using rotateKey_ok [OF assms] by metis
  have row: "fst env \<in> set (tb_envAccess s)" "ea_environmentId (fst env) = i"
    using env_visible_row [OF ok(1)] by simp_all
  have "team_ok s"
    by (rule team_ok_after [where new = "\<lambda>_. True"]) (use steps_env_visible [where new = "\<lambda>_. True" and a = a and i = i and now = now and db = ?db] ok(1) in simp)
  then have "keys_ok s" by (simp add: team_ok_def)
  note tables = rotate_tables(1,2,3,4) [of env a wraps "values" now s, folded ok(2)]
  have level: "account_level env b now db' = account_level env b now s" for b
    unfolding account_level_def by (rule account_level_cong) (simp_all add: ok(2))
  have keys: "org_keys o' db' = org_keys o' s" for o' by (rule org_keys_cong) (simp_all add: ok(2))
  have "find (\<lambda>e. ea_environmentId e = i) (tb_envAccess s) = Some (fst env)"
    using find_unique_row [OF \<open>keys_ok s\<close> row(1)] row(2) by simp
  then have "find (\<lambda>e. ea_environmentId e = i) (tb_envAccess db') =
      Some (if ea_environmentId (fst env) = i \<and> ea_keyVersion (fst env) = v
        then (fst env)\<lparr>ea_keyVersion := v + 1, ea_rotationRequiredAt := None\<rparr> else fst env)"
    unfolding tables(2) row(2) ok(4) using find_update_where [of ea_environmentId "\<lambda>e. e\<lparr>ea_keyVersion := v + 1, ea_rotationRequiredAt := None\<rparr>" i
        "tb_envAccess s" "fst env" "\<lambda>e. ea_environmentId e = i \<and> ea_keyVersion e = v"] row(2) ok(4) by simp
  then have "find (\<lambda>e. ea_environmentId e = i) (tb_envAccess db') =
      Some ((fst env)\<lparr>ea_keyVersion := v + 1, ea_rotationRequiredAt := None\<rparr>)"
    by (simp only: row(2) ok(4) simp_thms if_True)
  moreover have "kg_accountId ` {g \<in> set (tb_keyGrants db'). kg_projectId g = ?p \<and> kg_resourceId g = i} = mw_recipientId ` set wraps"
  proof -
    have "{g \<in> set (tb_keyGrants db'). kg_projectId g = ?p \<and> kg_resourceId g = i} =
        wrap_grant ?p i (Some (ea_keyVersion (fst env) + 1)) a ` set wraps"
      unfolding tables(1) row(2) by (auto simp: wrap_grant_def)
    then show ?thesis by (simp add: image_image wrap_grant_def)
  qed
  moreover have "\<forall>x \<in> set (tb_values db'). vl_projectId x = ?p \<and> vl_environmentId x = i \<longrightarrow> (vl_secretId x, vl_encryptedValue x) \<in> set values"
    using resealed_mem [OF ok(6)] unfolding tables(4) row(2) by blast
  moreover have "\<forall>x \<in> set (tb_versions db'). ve_projectId x = ?p \<longrightarrow> i \<notin> fst ` set (ve_values x)"
    unfolding tables(3) row(2) by (auto simp: set_update_where)
  ultimately show ?thesis
    using set_key_holders [of _ env now s] ok(3,5) level keys by auto
qed

text \<open>Olga rotates the key of the environment.\<close>

definition demo_wraps :: "member_wrap list" where
  "demo_wraps = [\<lparr>mw_recipientId = ''olga'', mw_recipientPublicKey = ''KO'', mw_wrapperPublicKey = ''KO'',
     mw_ephemeralPublicKey = ''E'', mw_blob = demo_blob ''w''\<rparr>]"

definition demo_fresh :: blob where "demo_fresh = \<lparr>bl_kid = ''e'', bl_nonce = ''n2'', bl_ct = ''c2''\<rparr>"

definition demo_rotation :: "env team_outcome" where
  "demo_rotation = rotateKey ''olga'' ''e'' 1 demo_wraps [(''s'', demo_fresh)] 10 demo_run"

lemma demo_rotation_env: "fst demo_rotation = Inr (demo_env_row, ''olga'')"
  unfolding demo_rotation_def demo_run_eq by code_simp

theorem rotation_rekeys_witness:
  "find (\<lambda>e. ea_environmentId e = ''e'') (tb_envAccess (snd demo_rotation)) = Some (demo_env_row\<lparr>ea_keyVersion := 2\<rparr>)"
proof -
  have "rotateKey ''olga'' ''e'' 1 demo_wraps [(''s'', demo_fresh)] 10 demo_run = (Inr (demo_env_row, ''olga''), snd demo_rotation)"
    unfolding demo_rotation_def [symmetric] by (rule prod_eqI) (simp_all add: demo_rotation_env)
  from rotation_rekeys [OF this [unfolded demo_run_def]] show ?thesis by (simp add: demo_env_row_def)
qed

section \<open>Approval\<close>

lemma record_frame:
  "tb_requests (record_activity now events db) = tb_requests db" "tb_envAccess (record_activity now events db) = tb_envAccess db"
  "tb_members (record_activity now events db) = tb_members db"
  "levelOf env h now' (record_activity now events db) = levelOf env h now' db"
  by (simp_all add: record_activity_def Let_def) (auto intro: account_level_cong)

text \<open>Reading environments keeps the access rows, but for the flag of a rotation.\<close>

definition access_kept :: "team_db \<Rightarrow> team_db \<Rightarrow> bool" where
  "access_kept db db' \<longleftrightarrow> (\<forall>e \<in> set (tb_envAccess db). \<exists>e' \<in> set (tb_envAccess db'). ea_environmentId e' = ea_environmentId e \<and>
     ea_orgId e' = ea_orgId e \<and> ea_projectId e' = ea_projectId e \<and> ea_keyVersion e' = ea_keyVersion e)"

lemma access_kept_trans: "access_kept db db1 \<Longrightarrow> access_kept db1 db2 \<Longrightarrow> access_kept db db2"
  unfolding access_kept_def by metis

lemma access_kept_register: "access_kept db (snd (register project now db))"
  unfolding access_kept_def
  using set_subset_insert_all_new [of "tb_envAccess db" ea_environmentId] by (auto simp: register_def Let_def)

lemma access_kept_reconcile: "access_kept db (reconcileProject p now db)"
proof (cases "linkedProject p db")
  case (Some project)
  have "access_kept db (db\<lparr>tb_keyGrants := t, tb_envAccess := update_where P (\<lambda>e. e\<lparr>ea_rotationRequiredAt := Some now\<rparr>) (tb_envAccess db)\<rparr>)" for db t P
    unfolding access_kept_def
  proof
    fix e assume "e \<in> set (tb_envAccess db)"
    from mem_update_where [OF this, of P "\<lambda>e. e\<lparr>ea_rotationRequiredAt := Some now\<rparr>"]
    show "\<exists>e' \<in> set (tb_envAccess (db\<lparr>tb_keyGrants := t,
        tb_envAccess := update_where P (\<lambda>e. e\<lparr>ea_rotationRequiredAt := Some now\<rparr>) (tb_envAccess db)\<rparr>)).
      ea_environmentId e' = ea_environmentId e \<and> ea_orgId e' = ea_orgId e \<and> ea_projectId e' = ea_projectId e \<and>
      ea_keyVersion e' = ea_keyVersion e" by (intro bexI) auto
  qed
  then show ?thesis
    unfolding reconcileProject_eq [OF Some] by (rule access_kept_trans [OF access_kept_register])
qed (simp add: reconcileProject_def access_kept_def, blast)

lemma snd_environment: "snd (environment i now db) = db \<or> (\<exists>project. snd (environment i now db) = snd (register project now db))"
  by (auto simp: environment_def split_def split: option.split)

lemma environment_kept: "access_kept db (snd (environment i now db))"
  using snd_environment [of i now db] access_kept_register by (auto simp: access_kept_def)

lemma environment_frame:
  "tb_requests (snd (environment i now db)) = tb_requests db" "tb_members (snd (environment i now db)) = tb_members db"
  "tb_tokens (snd (environment i now db)) = tb_tokens db"
  using snd_environment [of i now db] by auto

lemma env_visible_ok:
  assumes "env_visible a i now db = (Inr (env, me), s)" and "keys_ok s"
  shows "find_member (ea_orgId (fst env)) a s = Some me \<and> tb_requests s = tb_requests db \<and> tb_tokens s = tb_tokens db"
proof -
  obtain env0 s0 s1 s2 where e0: "environment i now db = (Inr env0, s0)"
    and m: "org_member (ea_orgId (fst env0)) a True s0 = (Inr me, s1)"
    and e2: "environment i now (reconcileProject (ea_projectId (fst env0)) now s1) = (Inr env, s)"
    using assms(1) by (auto simp: env_visible_def and_then_Inr_iff)
  have s1: "s1 = s0" "find_member (ea_orgId (fst env0)) a s0 = Some me" using org_member_state [OF m] by auto
  let ?s2 = "reconcileProject (ea_projectId (fst env0)) now s0"
  have frames: "tb_requests s0 = tb_requests db" "tb_members s0 = tb_members db" "tb_tokens s0 = tb_tokens db"
    "tb_requests s = tb_requests ?s2" "tb_members s = tb_members ?s2" "tb_tokens s = tb_tokens ?s2"
    using environment_frame [of i now db] environment_frame [of i now ?s2] e0 e2 s1(1) by auto
  have "access_kept s0 s"
    using access_kept_trans [OF access_kept_reconcile environment_kept] e2 s1(1) by (metis snd_conv)
  then obtain e where "e \<in> set (tb_envAccess s)" "ea_environmentId e = i" "ea_orgId e = ea_orgId (fst env0)"
    using environment_row [OF e0] by (auto simp: access_kept_def)
  moreover have "fst env \<in> set (tb_envAccess s)" "ea_environmentId (fst env) = i" using environment_row [OF e2] by auto
  ultimately have "ea_orgId (fst env) = ea_orgId (fst env0)"
    using assms(2) unique_byD [of ea_environmentId "tb_envAccess s" e "fst env"] by (simp add: keys_ok_def)
  then show ?thesis using s1(2) frames find_member_cong [of s s0] by simp
qed

text \<open>C19. A request is approved only while it is pending and unexpired, by an active member whose level
  in the environment is Manage, with the sharing key on file for them, and only if the one who
  asked still needs approval there; nothing else in the table of requests changes.\<close>

theorem approved_by_a_manager:
  assumes "approve_request a i release now (team_run collate tokens calls empty_db) = (Inr v, db')"
  shows "\<exists>r env me. r \<in> set (tb_requests (team_run collate tokens calls empty_db)) \<and> rq_id r = i \<and> rq_status r = Pending \<and> now < rq_expiresAt r \<and>
    fst env \<in> set (tb_envAccess db') \<and> ea_environmentId (fst env) = rq_environmentId r \<and>
    find_member (ea_orgId (fst env)) a db' = Some me \<and> om_publicKey me = Some (rl_approverPublicKey release) \<and>
    levelOf env \<lparr>kh_type = AccountP, kh_id = a\<rparr> now db' = Manage \<and>
    levelOf env \<lparr>kh_type = rq_requesterType r, kh_id = rq_requesterId r\<rparr> now db' = NeedsApproval \<and>
    tb_requests db' = update_where (\<lambda>q. rq_id q = i \<and> rq_status q = Pending) (approved_by a release now)
      (tb_requests (team_run collate tokens calls empty_db))"
proof -
  let ?db = "team_run collate tokens calls empty_db"
  obtain r env me s where d: "decidable_request a i now ?db = (Inr (r, env, me), s)"
    and key: "Some (rl_approverPublicKey release) = om_publicKey me"
    and level: "levelOf env \<lparr>kh_type = rq_requesterType r, kh_id = rq_requesterId r\<rparr> now s = NeedsApproval"
    and after: "\<exists>row. db' = recordDecision a (ea_projectId (fst env)) row ''request.approved'' now (snd (decide i (approved_by a release now) s))"
    using assms by (auto simp: approve_request_def and_then_Inr_iff Let_def split: if_splits option.splits prod.splits)
  have row: "find (\<lambda>r. rq_id r = i) (tb_requests ?db) = Some r"
    and vis: "env_visible a (rq_environmentId r) now ?db = (Inr (env, me), s)"
    and ok: "levelOf env \<lparr>kh_type = AccountP, kh_id = a\<rparr> now s = Manage" "rq_status r = Pending" "now < rq_expiresAt r"
    using d by (auto simp: decidable_request_def and_then_Inr_iff split: if_splits option.splits)
  have mem: "r \<in> set (tb_requests ?db)" "rq_id r = i" using row by (auto dest: find_set)
  have "team_ok s"
    by (rule team_ok_after [where new = "\<lambda>_. True"])
      (use steps_env_visible [where new = "\<lambda>_. True" and a = a and i = "rq_environmentId r" and now = now and db = ?db] vis in simp)
  then have found: "find_member (ea_orgId (fst env)) a s = Some me" "tb_requests s = tb_requests ?db"
    using env_visible_ok [OF vis] by (simp_all add: team_ok_def)
  obtain row where db': "db' = recordDecision a (ea_projectId (fst env)) row ''request.approved'' now
      (s\<lparr>tb_requests := update_where (\<lambda>q. rq_id q = i \<and> rq_status q = Pending) (approved_by a release now) (tb_requests s)\<rparr>)"
    using after by (auto simp: decide_def Let_def)
  have level': "levelOf env h now db' = levelOf env h now s" for h
    unfolding db' recordDecision_def record_frame by (rule account_level_cong) simp_all
  have "fst env \<in> set (tb_envAccess db')" "ea_environmentId (fst env) = rq_environmentId r"
      "find_member (ea_orgId (fst env)) a db' = Some me"
    using env_visible_row [OF vis] found(1) find_member_cong [of db' s] unfolding db' recordDecision_def record_frame by simp_all
  moreover have "tb_requests db' = update_where (\<lambda>q. rq_id q = i \<and> rq_status q = Pending) (approved_by a release now) (tb_requests ?db)"
    unfolding db' recordDecision_def record_frame by (simp add: found(2))
  ultimately show ?thesis
    using mem ok key level level' by (intro exI [of _ r] exI [of _ env] exI [of _ me]) simp
qed

definition demo_pending :: team_db where
  "demo_pending = team_run (\<lambda>s. s) demo_tokens (take 9 demo_calls) empty_db"

lemma demo_approval: "\<not> isl (fst (approve_request ''olga'' ''r'' demo_release 5 demo_pending))"
  unfolding demo_pending_def by code_simp

theorem approved_by_a_manager_witness:
  "\<exists>r \<in> set (tb_requests demo_pending). rq_id r = ''r'' \<and> rq_status r = Pending \<and> 5 < rq_expiresAt r"
proof -
  obtain v s where "approve_request ''olga'' ''r'' demo_release 5 demo_pending = (Inr v, s)"
    using demo_approval by (metis isl_def prod.exhaust_sel sum.exhaust_sel)
  from approved_by_a_manager [OF this [unfolded demo_pending_def]] show ?thesis unfolding demo_pending_def by metis
qed

section \<open>Removal\<close>

lemma reconcile_all:
  fixes now :: time
  defines "f \<equiv> \<lambda>l. reconcileProject (po_projectId l) now"
  shows "linkedProject q (fold f ls db) = linkedProject q db \<and> active_members x (fold f ls db) = active_members x db \<and>
    environmentIds q (fold f ls db) = environmentIds q db"
  by (induction ls arbitrary: db) (simp_all add: active_members_def f_def)

lemma reconcileOrg_members: "tb_members (reconcileOrg o' now db) = tb_members db"
proof -
  have "tb_members (fold (\<lambda>l. reconcileProject (po_projectId l) now) ls db) = tb_members db" for ls
    by (induction ls arbitrary: db) simp_all
  then show ?thesis by (simp add: reconcileOrg_def)
qed

lemma reconcile_all_less:
  fixes now :: time
  defines "f \<equiv> \<lambda>l. reconcileProject (po_projectId l) now"
  shows "set (tb_keyGrants (fold f ls db)) \<subseteq> set (tb_keyGrants db)"
proof (induction ls arbitrary: db)
  case (Cons l ls)
  have "set (tb_keyGrants (f l db)) \<subseteq> set (tb_keyGrants db)"
    by (cases "linkedProject (po_projectId l) db") (simp add: reconcileProject_def f_def, auto simp: reconcile_keyGrants f_def)
  then show ?case using Cons.IH [of "f l db"] by simp
qed simp

text \<open>Somebody who is neither the owner of the project nor an active member holds nothing in it.\<close>

lemma outsider_level:
  assumes "a \<noteq> lp_ownerId project" and "a \<notin> om_accountId ` set (active_members (lp_orgId project) db)"
  shows "env_level project i a now db = NoAccess"
  using assms by (auto simp: env_level_def level_accounts_set org_of_def intro!: effectiveLevel_outsider)

lemma outsider_loses_keys:
  assumes "linkedProject p db = Some project" and "a \<noteq> lp_ownerId project"
    and "a \<notin> om_accountId ` set (active_members (lp_orgId project) db)"
    and "g \<in> set (tb_keyGrants (reconcileProject p now db))" and "kg_projectId g = p" and "kg_accountId g = a"
  shows "kg_resourceId g \<noteq> p \<and> kg_resourceId g \<notin> set (environmentIds p db)"
proof -
  let ?db = "reconcileProject p now db"
  have active: "active_members o' ?db = active_members o' db" for o' by (simp add: active_members_def)
  have level: "env_level project i a now ?db = NoAccess" for i
    by (rule outsider_level) (use assms(2,3) active in simp_all)
  have "org_admins (lp_orgId project) db' = map om_accountId (filter (\<lambda>m. om_role m \<in> set ADMIN_ROLES) (active_members (lp_orgId project) db'))" for db'
    by (simp add: org_admins_def active_members_def conj_ac)
  then have admin: "a \<notin> set (org_admins (lp_orgId project) ?db)" using assms(3) active by auto
  have "snd (register project now ?db) = ?db" by (rule reconcile_registered [OF assms(1)])
  then have "a \<notin> set (fst (projectKeyHolders project now ?db))"
    using admin level assms(2) by (simp add: set_projectKeyHolders levelAtLeast_def)
  moreover have "grant_stands project now ?db g"
    using assms(4,5) unfolding reconcile_keyGrants [OF assms(1)] by simp
  moreover have "\<not> holdsKey NoAccess" by (simp add: holdsKey_def levelAtLeast_def)
  ultimately show ?thesis
    using assms(6) level linkedProject_ids [OF assms(1)] by (auto simp: grant_stands_def split: if_splits)
qed

lemma outsider_loses_keys_org:
  assumes "linkedProject p db = Some project" and "lp_orgId project = o'" and "a \<noteq> lp_ownerId project"
    and "a \<notin> om_accountId ` set (active_members o' db)"
    and "g \<in> set (tb_keyGrants (reconcileOrg o' now db))" and "kg_projectId g = p" and "kg_accountId g = a"
  shows "kg_resourceId g \<noteq> p \<and> kg_resourceId g \<notin> set (environmentIds p db)"
proof -
  let ?f = "\<lambda>l. reconcileProject (po_projectId l) now"
  obtain l where l: "l \<in> set (filter (\<lambda>l. po_orgId l = o') (tb_projectOrgs db))" "po_projectId l = p"
    using assms(1,2) by (auto simp: linkedProject_def dest!: find_set split: option.splits)
  then obtain ls1 ls2 where ls: "filter (\<lambda>l. po_orgId l = o') (tb_projectOrgs db) = ls1 @ l # ls2" by (meson split_list)
  let ?db1 = "fold ?f ls1 db"
  have "g \<in> set (tb_keyGrants (fold ?f ls2 (reconcileProject p now ?db1)))"
    using assms(5) l(2) by (simp add: reconcileOrg_def ls)
  then have "g \<in> set (tb_keyGrants (reconcileProject p now ?db1))" using reconcile_all_less by (rule subsetD [rotated])
  then show ?thesis
    using outsider_loses_keys [of p ?db1 project a g now] reconcile_all [of _ now ls1 db] assms by simp
qed

text \<open>C1. Once a member has been removed from an organization, or has left it, they are no member and
  hold no key of any project linked to it that they do not own: neither the project key nor the
  key of a live environment.\<close>

theorem removed_member_holds_no_key:
  assumes "org_remove orgId a target now db = (Inr (), db')"
    and "linkedProject p db' = Some project" and "lp_orgId project = orgId" and "lp_ownerId project \<noteq> target"
  shows "find_member orgId target db' = None \<and>
    {g \<in> set (tb_keyGrants db'). kg_projectId g = p \<and> kg_accountId g = target \<and>
      kg_resourceId g \<in> insert p (set (environmentIds p db'))} = {}"
proof -
  obtain agents where "db' = reconcileOrg orgId now (dropGrantsTo AgentP agents orgId
      (dropGrantsTo AccountP [target] orgId (remove_member_rows orgId target db)))"
    using assms(1) by (auto simp: org_remove_def Let_def and_then_Inr_iff split: if_splits dest!: org_member_state)
  then obtain x where x: "db' = reconcileOrg orgId now x" "tb_members x = tb_members (remove_member_rows orgId target db)"
    by (simp add: dropGrantsTo_def)
  have gone: "m \<notin> set (tb_members x)" if "om_orgId m = orgId" "om_accountId m = target" for m
    using that by (simp add: x(2) remove_member_rows_def)
  then have "target \<notin> om_accountId ` set (active_members orgId x)" by (auto simp: active_members_def)
  moreover have links: "linkedProject p db' = linkedProject p x" "environmentIds p db' = environmentIds p x"
    using reconcile_all unfolding x(1) reconcileOrg_def by metis+
  ultimately have "kg_resourceId g \<notin> insert p (set (environmentIds p db'))"
    if "g \<in> set (tb_keyGrants db')" "kg_projectId g = p" "kg_accountId g = target" for g
    using outsider_loses_keys_org [of p x project orgId target g now] assms(2,3,4) that unfolding x(1) by auto
  moreover have "find_member orgId target db' = None"
    using gone by (auto simp: find_member_def find_None_iff x(1) reconcileOrg_members)
  ultimately show ?thesis by blast
qed

text \<open>Bob holds the key of the environment when he leaves.\<close>

definition demo_leaver :: team_db where
  "demo_leaver = demo_db\<lparr>tb_keyGrants := tb_keyGrants demo_db @ [own_grant ''p'' ''p'' ''bob'' (demo_blob ''b''),
     own_grant ''p'' ''e'' ''bob'' (demo_blob ''b'')],
     tb_envGrants := [\<lparr>gf_principalType = AccountP, gf_principalId = ''bob'', gf_level = Edit, gf_expiresAt = None,
         eg_environmentId = ''e'', eg_grantedBy = ''olga'', eg_createdAt = 3\<rparr>]\<rparr>"

lemma demo_leaves: "fst (org_remove ''o'' ''bob'' ''bob'' 20 demo_leaver) = Inr ()"
    "linkedProject ''p'' (snd (org_remove ''o'' ''bob'' ''bob'' 20 demo_leaver)) =
       Some \<lparr>lp_projectId = ''p'', lp_orgId = ''o'', lp_ownerId = ''olga''\<rparr>"
  by code_simp+

theorem removed_member_holds_no_key_witness:
  "own_grant ''p'' ''p'' ''bob'' (demo_blob ''b'') \<in> set (tb_keyGrants demo_leaver) \<and>
   own_grant ''p'' ''p'' ''bob'' (demo_blob ''b'') \<notin> set (tb_keyGrants (snd (org_remove ''o'' ''bob'' ''bob'' 20 demo_leaver)))"
proof -
  have "org_remove ''o'' ''bob'' ''bob'' 20 demo_leaver = (Inr (), snd (org_remove ''o'' ''bob'' ''bob'' 20 demo_leaver))"
    by (rule prod_eqI) (simp_all add: demo_leaves)
  from removed_member_holds_no_key [OF this demo_leaves(2)]
  have "kg_resourceId g \<noteq> ''p''" if "g \<in> set (tb_keyGrants (snd (org_remove ''o'' ''bob'' ''bob'' 20 demo_leaver)))"
    "kg_projectId g = ''p''" "kg_accountId g = ''bob''" for g using that by auto
  from this [of "own_grant ''p'' ''p'' ''bob'' (demo_blob ''b'')"]
  have "own_grant ''p'' ''p'' ''bob'' (demo_blob ''b'') \<notin> set (tb_keyGrants (snd (org_remove ''o'' ''bob'' ''bob'' 20 demo_leaver)))"
    by (auto simp: own_grant_def)
  moreover have "own_grant ''p'' ''p'' ''bob'' (demo_blob ''b'') \<in> set (tb_keyGrants demo_leaver)" by (simp add: demo_leaver_def)
  ultimately show ?thesis by blast
qed

end
