(* ===== verification/TokenProps.thy ===== *)
theory TokenProps
  imports AccessProps
begin

text \<open>
  What it takes to use an access token, and what ends it.
\<close>

section \<open>Versions of keys\<close>

lemma map_of_fold_rows:
  "map_of (fold (\<lambda>r. AList.update (j r) (v r)) rs m) i =
     (case find (\<lambda>r. j r = i) (rev rs) of None \<Rightarrow> map_of m i | Some r \<Rightarrow> Some (v r))"
  by (induction rs arbitrary: m rule: rev_induct) (auto simp: update_conv')

text \<open>The version on file for an environment with an access row of the project.\<close>

lemma keyVersions_row:
  assumes "keys_ok db" and "e \<in> set (tb_envAccess db)" and "ea_projectId e = p" and "ea_environmentId e \<in> set ids"
  shows "map_of (keyVersions p ids db) (ea_environmentId e) = Some (ea_keyVersion e)"
proof -
  let ?rs = "filter (\<lambda>r. ea_projectId r = p \<and> ea_environmentId r \<in> set ids) (tb_envAccess db)"
  have "e' = e" if "e' \<in> set (tb_envAccess db)" "ea_environmentId e' = ea_environmentId e" for e'
    using assms(1,2) that unique_byD [of ea_environmentId "tb_envAccess db" e' e] by (simp add: keys_ok_def)
  then have one: "find (\<lambda>r. ea_environmentId r = ea_environmentId e) (rev ?rs) = Some x \<Longrightarrow> x = e" for x
    using find_set [of "\<lambda>r. ea_environmentId r = ea_environmentId e" "rev ?rs" x] by simp
  have "e \<in> set (rev ?rs)" using assms by simp
  then have some: "find (\<lambda>r. ea_environmentId r = ea_environmentId e) (rev ?rs) \<noteq> None"
    unfolding find_None_iff by blast
  have "find (\<lambda>r. ea_environmentId r = ea_environmentId e) (rev ?rs) = Some e"
    by (cases "find (\<lambda>r. ea_environmentId r = ea_environmentId e) (rev ?rs)") (use one some in simp_all)
  moreover have "ids \<noteq> []" using assms(4) by auto
  ultimately show ?thesis by (simp add: keyVersions_def map_of_fold_rows)
qed

section \<open>Using a token\<close>

lemma authenticate_ok:
  assumes "authenticate env tokenId authKey now db = (Inr a, db')"
  defines "t \<equiv> at_row a" and "db1 \<equiv> reconcileProject (tk_projectId (at_row a)) now db"
  shows "find (\<lambda>t. tk_id t = tokenId) (tb_tokens db) = Some t \<and> token_presented env authKey t \<and> now < tk_expiresAt t \<and>
    live_environments t db = length (token_env_ids t) \<and> (db' = db1 \<or> db' = token_touch tokenId now db1) \<and>
    \<not> isStale (tk_environments t) (keyVersions (tk_projectId t) (token_env_ids t) db1) \<and>
    insert (tk_projectId t) (set (token_env_ids t)) \<subseteq> kg_resourceId ` set (grants_held (tk_projectId t) (tk_createdBy t) db1)"
proof -
  obtain row where row: "find (\<lambda>t. tk_id t = tokenId) (tb_tokens db) = Some row" "token_presented env authKey row"
      "\<not> tk_expiresAt row \<le> now" "live_environments row db = length (token_env_ids row)"
    using assms(1) by (auto simp: authenticate_def token_deny_def split: option.splits if_splits)
  let ?db1 = "beforeAccess (tk_projectId row) now db"
  have "case getAccess (tk_projectId row) (tk_createdBy row) ?db1 of
          None \<Rightarrow> False
        | Some access \<Rightarrow> px_member access \<and> set (token_env_ids row) \<subseteq> set (px_environments access) \<and>
            \<not> isStale (tk_environments row) (keyVersions (tk_projectId row) (token_env_ids row) ?db1) \<and>
            at_row a = row \<and> (db' = ?db1 \<or> db' = token_touch tokenId now ?db1)"
    using assms(1) row unfolding authenticate_def by (auto simp: Let_def token_deny_def split: option.splits if_splits)
  then obtain access where access: "getAccess (tk_projectId row) (tk_createdBy row) ?db1 = Some access" "px_member access"
      "set (token_env_ids row) \<subseteq> set (px_environments access)" "at_row a = row" "db' = ?db1 \<or> db' = token_touch tokenId now ?db1"
      "\<not> isStale (tk_environments row) (keyVersions (tk_projectId row) (token_env_ids row) ?db1)"
    by (auto split: option.splits)
  then have "insert (tk_projectId row) (set (token_env_ids row)) \<subseteq> kg_resourceId ` set (grants_held (tk_projectId row) (tk_createdBy row) ?db1)"
    by (auto simp: getAccess_def Let_def)
  with row access show ?thesis by (simp add: t_def db1_def beforeAccess_def)
qed

text \<open>A token counts as many live environments as it names: each of them is live.\<close>

lemma live_environments_all:
  assumes "keys_ok db" and "live_environments t db = length (token_env_ids t)"
  shows "set (token_env_ids t) \<subseteq> set (environmentIds (tk_projectId t) db)"
proof -
  let ?es = "filter (\<lambda>e. pe_projectId e = tk_projectId t \<and> pe_id e \<in> set (token_env_ids t) \<and>
     pe_type e = EnvironmentE \<and> \<not> pe_deleted e) (tb_entries db)"
  have "unique_by pe_key ?es"
    using assms(1) by (simp add: keys_ok_def unique_by_filter)
  then have "distinct (map pe_id ?es)"
    unfolding unique_by_def distinct_map by (auto simp: inj_on_def pe_key_def)
  then have "card (set (map pe_id ?es)) = length ?es" using distinct_card by fastforce
  moreover have "length ?es = length (token_env_ids t)" using assms(2) by (simp add: live_environments_def)
  ultimately have "card (set (token_env_ids t)) \<le> card (set (map pe_id ?es))" using card_length by metis
  moreover have "set (map pe_id ?es) \<subseteq> set (token_env_ids t)" by auto
  ultimately have "set (map pe_id ?es) = set (token_env_ids t)" by (intro card_seteq) simp_all
  then show ?thesis by (auto simp: environmentIds_def)
qed

lemma touch_frame [simp]:
  "tb_keyGrants (token_touch i now db) = tb_keyGrants db" "tb_envAccess (token_touch i now db) = tb_envAccess db"
  "tb_members (token_touch i now db) = tb_members db" "tb_groups (token_touch i now db) = tb_groups db"
  "tb_groupMembers (token_touch i now db) = tb_groupMembers db" "tb_agents (token_touch i now db) = tb_agents db"
  "tb_envGrants (token_touch i now db) = tb_envGrants db"
  by (simp_all add: token_touch_def)

text \<open>C5. A token is let in only with the key its verifier was made from, before it expires, while every
  environment it names is live, under the current version of each of their keys, and while its
  creator still holds the project key and every one of those keys; in a shared project the
  creator's level in each must hold the key at that moment.\<close>

theorem token_let_in:
  assumes "authenticate env tokenId authKey now (team_run collate tokens calls empty_db) = (Inr a, db')"
  shows "at_row a \<in> set (tb_tokens (team_run collate tokens calls empty_db)) \<and> tk_id (at_row a) = tokenId \<and>
    tv_sha256 env (tv_decode env authKey) = tk_verifier (at_row a) \<and> length (tk_verifier (at_row a)) = 32 \<and>
    now < tk_expiresAt (at_row a) \<and>
    set (token_env_ids (at_row a)) \<subseteq> set (environmentIds (tk_projectId (at_row a)) (team_run collate tokens calls empty_db)) \<and>
    \<not> isStale (tk_environments (at_row a)) (keyVersions (tk_projectId (at_row a)) (token_env_ids (at_row a)) db') \<and>
    insert (tk_projectId (at_row a)) (set (token_env_ids (at_row a)))
      \<subseteq> kg_resourceId ` set (grants_held (tk_projectId (at_row a)) (tk_createdBy (at_row a)) db') \<and>
    (\<forall>project. linkedProject (tk_projectId (at_row a)) (team_run collate tokens calls empty_db) = Some project \<longrightarrow>
      (\<forall>i \<in> set (token_env_ids (at_row a)). i \<noteq> tk_projectId (at_row a) \<longrightarrow>
        holdsKey (env_level project i (tk_createdBy (at_row a)) now db')))"
proof -
  let ?db = "team_run collate tokens calls empty_db" and ?t = "at_row a" and ?p = "tk_projectId (at_row a)"
  let ?db1 = "reconcileProject ?p now ?db"
  note ok = authenticate_ok [OF assms]
  have keys: "keys_ok ?db" using run_ok [of collate tokens calls] by (simp add: team_ok_def)
  have live: "set (token_env_ids ?t) \<subseteq> set (environmentIds ?p ?db)" using live_environments_all [OF keys] ok by blast
  have same: "tb_keyGrants db' = tb_keyGrants ?db1" "tb_envAccess db' = tb_envAccess ?db1"
      "env_level project i b now db' = env_level project i b now ?db1" for project i b
    using ok by (auto intro: env_level_cong)
  have "holdsKey (env_level project i (tk_createdBy ?t) now db')"
    if linked: "linkedProject ?p ?db = Some project" and i: "i \<in> set (token_env_ids ?t)" "i \<noteq> ?p" for project i
  proof -
    obtain g where g: "g \<in> set (tb_keyGrants ?db1)" "kg_projectId g = ?p" "kg_accountId g = tk_createdBy ?t" "kg_resourceId g = i"
      using ok i(1) by (auto simp: grants_held_def)
    then have "grant_stands project now ?db1 g" unfolding reconcile_keyGrants [OF linked] by simp
    then show ?thesis
      using g i live linkedProject_ids [OF linked] unfolding same by (auto simp: grant_stands_def)
  qed
  moreover have "?t \<in> set (tb_tokens ?db)" "tk_id ?t = tokenId" using ok by (auto dest: find_set)
  moreover have "keyVersions ?p ids db' = keyVersions ?p ids ?db1" "grants_held ?p b db' = grants_held ?p b ?db1" for ids b
    by (simp_all add: keyVersions_def grants_held_def same)
  ultimately show ?thesis using ok live by (simp add: token_presented_def)
qed

lemma demo_let_in: "fst (authenticate demo_tokens ''t'' demo_auth_key 20 demo_run) = Inr \<lparr>at_row = demo_token, at_ownerId = ''olga''\<rparr>"
  unfolding demo_run_eq by code_simp

theorem token_let_in_witness:
  "set (token_env_ids demo_token) \<subseteq> set (environmentIds ''p'' demo_run) \<and>
   insert ''p'' (set (token_env_ids demo_token)) \<subseteq>
     kg_resourceId ` set (grants_held ''p'' ''olga'' (snd (authenticate demo_tokens ''t'' demo_auth_key 20 demo_run)))"
proof -
  have "authenticate demo_tokens ''t'' demo_auth_key 20 demo_run = (Inr \<lparr>at_row = demo_token, at_ownerId = ''olga''\<rparr>,
      snd (authenticate demo_tokens ''t'' demo_auth_key 20 demo_run))" by (rule prod_eqI) (simp_all add: demo_let_in)
  from token_let_in [OF this [unfolded demo_run_def]] show ?thesis
    unfolding demo_run_def by (simp only: active_token.simps) (simp add: demo_token_def)
qed

section \<open>Rotation and tokens\<close>



end
