(* ===== verification/ProjectProps.thy ===== *)
theory ProjectProps
  imports AccessProps
begin

text \<open>
  What a member of a project is shown and what a write of theirs does.
\<close>

section \<open>What the feed shows\<close>

lemma project_access_ok:
  assumes "project_access_of u p now db = (Inr access, db')"
  shows "db' = reconcileProject p now db \<and> p \<in> kg_resourceId ` set (grants_held p u db') \<and>
    set (px_environments access) = kg_resourceId ` set (grants_held p u db') - {p}"
proof -
  have "db' = reconcileProject p now db" "getAccess p u db' = Some access" "px_member access"
    using assms by (auto simp: project_access_of_def beforeAccess_def Let_def split: option.splits if_splits)
  then show ?thesis by (auto simp: getAccess_def Let_def)
qed

text \<open>Having the key of an environment of a shared project means having the level for it.\<close>

lemma held_level:
  assumes "linkedProject p db = Some project" and "g \<in> set (grants_held p u (reconcileProject p now db))"
    and "kg_resourceId g \<noteq> p" and "kg_resourceId g \<in> set (environmentIds p db)"
  shows "holdsKey (env_level project (kg_resourceId g) u now (reconcileProject p now db))"
proof -
  have "grant_stands project now (reconcileProject p now db) g" "kg_accountId g = u"
    using assms(2) unfolding grants_held_def reconcile_keyGrants [OF assms(1)] by auto
  then show ?thesis
    using assms(3,4) linkedProject_ids [OF assms(1)] by (auto simp: grant_stands_def)
qed

lemma hydrated_values:
  assumes "en \<in> set (hydrate db p viewer rows)" and "en_body en = SecretBody meta vs" and "v \<in> set vs"
  shows "vr_environmentId v \<in> kg_resourceId ` set (grants_held p viewer db) - {p}"
  using assms by (auto simp: hydrate_def hydrateWith_def values_seen_def Let_def split: if_splits option.splits entry_type.splits)

lemma hydrated_key:
  assumes "en \<in> set (hydrate db p viewer rows)" and "en_body en = EnvironmentBody meta (Some k)"
  shows "\<exists>g \<in> set (grants_held p viewer db). kg_resourceId g = en_id en \<and> kg_wrappedKey g = k"
  using assms by (auto simp: hydrate_def hydrateWith_def Let_def split: if_splits option.splits entry_type.splits dest!: map_of_SomeD) blast

section \<open>Change feeds\<close>

text \<open>The feed of a project as one viewer sees it, and as a token sees it.\<close>

definition project_rows :: "id \<Rightarrow> team_db \<Rightarrow> entry_row list" where
  "project_rows p db = sort_key pe_seq (filter (\<lambda>e. pe_projectId e = p) (tb_entries db))"

definition project_feed :: "id \<Rightarrow> id \<Rightarrow> team_db \<Rightarrow> project_entry list" where
  "project_feed p viewer db = hydrate db p viewer (project_rows p db)"

definition token_feed :: "id \<Rightarrow> id list \<Rightarrow> team_db \<Rightarrow> project_entry list" where
  "token_feed p ids db = hydrateWith db p [] ids (project_rows p db)"

lemma changed_entries_eq: "changed_entries p since n db = take n (filter (\<lambda>e. since < pe_seq e) (project_rows p db))"
  by (simp add: changed_entries_def project_rows_def filter_sort_key conj_commute)

lemma hydrateWith_take: "hydrateWith db p k ids (take n rows) = take n (hydrateWith db p k ids rows)"
  by (simp add: hydrateWith_def take_map)

lemma hydrateWith_filter: "hydrateWith db p k ids (filter (\<lambda>e. since < pe_seq e) rows) =
    filter (\<lambda>e. since < en_seq e) (hydrateWith db p k ids rows)"
  by (induction rows) (simp_all add: hydrateWith_def)

lemma en_seq_hydrateWith: "map en_seq (hydrateWith db p k ids rows) = map pe_seq rows"
  by (simp add: hydrateWith_def)

lemma project_rows_sorted:
  assumes "feed_ok db"
  shows "sorted_wrt (<) (map pe_seq (project_rows p db))"
proof -
  let ?es = "filter (\<lambda>e. pe_projectId e = p) (tb_entries db)"
  have u: "unique_by (\<lambda>e. (pe_projectId e, pe_seq e)) ?es" using assms by (simp add: feed_ok_def unique_by_filter)
  then have "distinct ?es" by (simp add: unique_by_def distinct_map)
  moreover have "x = y" if "x \<in> set ?es" "y \<in> set ?es" "pe_seq x = pe_seq y" for x y
    using unique_byD [OF u that(1,2)] that by simp
  ultimately show ?thesis unfolding project_rows_def by (intro sorted_wrt_less_sort_key)
qed

interpretation project_feed: change_feed feed_ok "project_feed p viewer" en_seq "\<lambda>db since n. entry_changes p viewer since n db"
  for p viewer
  by unfold_locales
    (simp_all add: project_feed_def entry_changes_def hydrate_def Let_def en_seq_hydrateWith project_rows_sorted
      changed_entries_eq hydrateWith_take hydrateWith_filter)

interpretation token_feed: change_feed feed_ok "token_feed p ids" en_seq "\<lambda>db since n. listChangesForToken p ids since n db"
  for p ids
  by unfold_locales
    (simp_all add: token_feed_def listChangesForToken_def en_seq_hydrateWith project_rows_sorted
      changed_entries_eq hydrateWith_take hydrateWith_filter)

text \<open>C3. A page of a project's changes is only answered to somebody who holds the project key. It carries
  values only of environments whose key they hold at that moment (and, in a shared project, have
  the level for), and no other wrapped key than their own.\<close>

theorem synced_content_is_held:
  assumes "projects_sync u p since limit now db = (Inr page, db')" and "en \<in> set (pg_items page)"
  shows "p \<in> kg_resourceId ` set (grants_held p u db') \<and>
    (case en_body en of
       Tombstone t \<Rightarrow> True
     | FolderBody meta \<Rightarrow> True
     | EnvironmentBody meta key \<Rightarrow> (case key of None \<Rightarrow> True
         | Some k \<Rightarrow> \<exists>g \<in> set (grants_held p u db'). kg_resourceId g = en_id en \<and> kg_wrappedKey g = k)
     | SecretBody meta vs \<Rightarrow> \<forall>v \<in> set vs. vr_environmentId v \<in> kg_resourceId ` set (grants_held p u db') - {p} \<and>
         (\<forall>project. linkedProject p db = Some project \<and> vr_environmentId v \<in> set (environmentIds p db) \<longrightarrow>
            holdsKey (env_level project (vr_environmentId v) u now db')))"
proof -
  obtain access where ok: "project_access_of u p now db = (Inr access, db')"
    and page: "page = sync_page_of en_seq since limit (entry_changes p u since (limit + 1) db')"
    using assms(1) by (auto simp: projects_sync_def and_then_Inr_iff)
  note access = project_access_ok [OF ok]
  have en: "en \<in> set (hydrate db' p u (changed_entries p since (limit + 1) db'))"
    using assms(2) by (auto simp: page sync_page_of_def Let_def entry_changes_def dest: in_set_takeD)
  have level: "holdsKey (env_level project i u now db')"
    if "linkedProject p db = Some project" "i \<in> set (environmentIds p db)" "i \<in> kg_resourceId ` set (grants_held p u db') - {p}" for project i
    using held_level [OF that(1), of _ u now] that(2,3) access by auto
  show ?thesis
    using access hydrated_values [OF en] hydrated_key [OF en] level by (auto split: entry_body.split option.split)
qed

lemma demo_page: "map en_body (pg_items (projr (fst (projects_sync ''olga'' ''p'' 0 10 20 demo_run)))) =
    [EnvironmentBody (demo_blob ''e'') (Some (demo_blob ACCOUNT_KID)),
     SecretBody (demo_blob ''s'') [\<lparr>vr_environmentId = ''e'', vr_encryptedValue = demo_blob ''e'', vr_updatedAt = 8\<rparr>]]"
    "\<not> isl (fst (projects_sync ''olga'' ''p'' 0 10 20 demo_run))"
  unfolding demo_run_eq by code_simp+

theorem synced_content_is_held_witness:
  "''e'' \<in> kg_resourceId ` set (grants_held ''p'' ''olga'' (snd (projects_sync ''olga'' ''p'' 0 10 20 demo_run)))"
proof -
  let ?s = "projects_sync ''olga'' ''p'' 0 10 20 demo_run"
  obtain page where page: "?s = (Inr page, snd ?s)" using demo_page(2) by (metis isl_def prod.exhaust_sel sum.exhaust_sel)
  then have "map en_body (pg_items page) = [EnvironmentBody (demo_blob ''e'') (Some (demo_blob ACCOUNT_KID)),
     SecretBody (demo_blob ''s'') [\<lparr>vr_environmentId = ''e'', vr_encryptedValue = demo_blob ''e'', vr_updatedAt = 8\<rparr>]]"
    using demo_page(1) by (metis fst_conv sum.sel(2))
  then have "SecretBody (demo_blob ''s'') [\<lparr>vr_environmentId = ''e'', vr_encryptedValue = demo_blob ''e'', vr_updatedAt = 8\<rparr>]
      \<in> en_body ` set (pg_items page)" by (metis list.set_intros(1,2) list.set_map)
  then obtain en where "en \<in> set (pg_items page)"
      "en_body en = SecretBody (demo_blob ''s'') [\<lparr>vr_environmentId = ''e'', vr_encryptedValue = demo_blob ''e'', vr_updatedAt = 8\<rparr>]"
    by (metis imageE)
  with synced_content_is_held [OF page] show ?thesis by fastforce
qed

section \<open>Writing a secret\<close>

text \<open>What is stored for one environment after the values of a write.\<close>

lemma find_vl_update: "find (\<lambda>x. vl_key x = k) (upsert vl_key row (\<lambda>_. row) t) =
    (if vl_key row = k then Some row else find (\<lambda>x. vl_key x = k) t)"
proof -
  have "find (\<lambda>x. vl_key x = k) (update_where (\<lambda>x. vl_key x = vl_key row) (\<lambda>_. row) t) =
      (if vl_key row = k then (if k \<in> vl_key ` set t then Some row else None) else find (\<lambda>x. vl_key x = k) t)"
    by (induction t) auto
  moreover have "find (\<lambda>x. vl_key x = k) (t @ [row]) = (case find (\<lambda>x. vl_key x = k) t of
      None \<Rightarrow> if vl_key row = k then Some row else None | Some x \<Rightarrow> Some x)" by (induction t) auto
  moreover have "find (\<lambda>x. vl_key x = vl_key row) t = None" if "vl_key row \<notin> vl_key ` set t"
    using that unfolding find_None_iff by (metis imageI)
  ultimately show ?thesis by (auto simp: upsert_def split: option.split)
qed

lemma find_vl_delete: "find (\<lambda>x. vl_key x = k) (delete_where (\<lambda>x. vl_key x = k') t) =
    (if k = k' then None else find (\<lambda>x. vl_key x = k) t)"
  by (induction t) auto

lemma find_write_value:
  "find (\<lambda>x. vl_key x = (ew_projectId w, ew_id w, i)) (write_value w v t) =
    (if fst v = i then map_option (\<lambda>b. \<lparr>vl_projectId = ew_projectId w, vl_secretId = ew_id w, vl_environmentId = i,
        vl_encryptedValue = b, vl_updatedAt = ew_now w\<rparr>) (snd v)
     else find (\<lambda>x. vl_key x = (ew_projectId w, ew_id w, i)) t)"
  by (cases "snd v") (auto simp: write_value_def Let_def find_vl_update find_vl_delete, simp_all add: vl_key_def)

lemma find_write_values:
  assumes "distinct (map fst vs)"
  shows "find (\<lambda>x. vl_key x = (ew_projectId w, ew_id w, i)) (fold (write_value w) vs t) =
    (case map_of vs i of
       None \<Rightarrow> find (\<lambda>x. vl_key x = (ew_projectId w, ew_id w, i)) t
     | Some v \<Rightarrow> map_option (\<lambda>b. \<lparr>vl_projectId = ew_projectId w, vl_secretId = ew_id w, vl_environmentId = i,
        vl_encryptedValue = b, vl_updatedAt = ew_now w\<rparr>) v)"
  using assms
proof (induction vs arbitrary: t)
  case (Cons v vs)
  have "map_of vs i = None" if "fst v = i" using Cons.prems that by (auto simp: map_of_eq_None_iff)
  then show ?case using Cons by (auto simp: find_write_value split: option.split)
qed simp

lemma writeEntry_ok:
  assumes "writeEntry w db = (WriteOk e, db')"
  shows "\<exists>x. find (\<lambda>x. pj_id x = ew_projectId w) (tb_projects db) = Some x \<and>
    (case find_entry (ew_projectId w) (ew_id w) db of None \<Rightarrow> ew_baseRevision w = 0
       | Some c \<Rightarrow> pe_type c = ew_type w \<and> pe_revision c = ew_baseRevision w) \<and>
    (ew_values w = [] \<or> length (filter (\<lambda>e. pe_projectId e = ew_projectId w \<and> pe_type e = EnvironmentE \<and> \<not> pe_deleted e \<and>
       pe_id e \<in> fst ` set (ew_values w)) (tb_entries db)) = length (ew_values w)) \<and>
    db' = apply_write w x (find_entry (ew_projectId w) (ew_id w) db) db"
proof -
  obtain x where x: "find (\<lambda>x. pj_id x = ew_projectId w) (tb_projects db) = Some x"
    using assms by (cases "find (\<lambda>x. pj_id x = ew_projectId w) (tb_projects db)") (simp_all add: writeEntry_def Let_def)
  note w = assms [unfolded writeEntry_def Let_def x option.case]
  show ?thesis
    by (rule exI [of _ x], cases "find_entry (ew_projectId w) (ew_id w) db")
      (use w x in \<open>simp_all split: if_split_asm\<close>)
qed

text \<open>A write whose values each name a live environment names each once.\<close>

lemma values_distinct:
  assumes "keys_ok db" and "length (filter (\<lambda>e. pe_projectId e = p \<and> pe_type e = EnvironmentE \<and> \<not> pe_deleted e \<and>
       pe_id e \<in> fst ` set vs) (tb_entries db)) = length vs"
  shows "distinct (map fst vs) \<and> fst ` set vs \<subseteq> set (environmentIds p db)"
proof -
  let ?es = "filter (\<lambda>e. pe_projectId e = p \<and> pe_type e = EnvironmentE \<and> \<not> pe_deleted e \<and> pe_id e \<in> fst ` set vs) (tb_entries db)"
  have "unique_by pe_key ?es" using assms(1) by (simp add: keys_ok_def unique_by_filter)
  then have "distinct (map pe_id ?es)"
    unfolding unique_by_def distinct_map by (auto simp: inj_on_def pe_key_def)
  then have card: "card (set (map pe_id ?es)) = length (map fst vs)" using assms(2) distinct_card by fastforce
  have sub: "set (map pe_id ?es) \<subseteq> set (map fst vs)" by auto
  then have "card (set (map pe_id ?es)) \<le> card (set (map fst vs))" by (intro card_mono) simp_all
  then have "card (set (map fst vs)) = length (map fst vs)" using card card_length [of "map fst vs"] by linarith
  moreover then have "set (map pe_id ?es) = set (map fst vs)" using card by (intro card_subset_eq [OF _ sub]) simp_all
  moreover have "set (map pe_id ?es) \<subseteq> set (environmentIds p db)" by (auto simp: environmentIds_def)
  ultimately show ?thesis using card_distinct [of "map fst vs"] by simp
qed

lemma find_entry_upsert: "find (\<lambda>e. pe_projectId e = p \<and> pe_id e = i) (upsert pe_key row (\<lambda>_. row) t) =
    (if pe_key row = (p, i) then Some row else find (\<lambda>e. pe_projectId e = p \<and> pe_id e = i) t)"
proof -
  have "find (\<lambda>x. pe_projectId x = p \<and> pe_id x = i) (update_where (\<lambda>x. pe_key x = pe_key row) (\<lambda>_. row) t) =
      (if pe_key row = (p, i) then (if (p, i) \<in> pe_key ` set t then Some row else None)
       else find (\<lambda>x. pe_projectId x = p \<and> pe_id x = i) t)"
    by (induction t) (auto simp: pe_key_def)
  moreover have "find (\<lambda>x. pe_projectId x = p \<and> pe_id x = i) (t @ [row]) = (case find (\<lambda>x. pe_projectId x = p \<and> pe_id x = i) t of
      None \<Rightarrow> if pe_key row = (p, i) then Some row else None | Some x \<Rightarrow> Some x)" by (induction t) (auto simp: pe_key_def)
  moreover have "find (\<lambda>x. pe_projectId x = p \<and> pe_id x = i) t = None" if "(p, i) \<notin> pe_key ` set t"
    using that unfolding find_None_iff by (auto simp: pe_key_def)
  ultimately show ?thesis by (auto simp: upsert_def split: option.split)
qed

text \<open>What the write of a secret that stays leaves.\<close>

lemma secret_written:
  assumes "ew_type w = SecretE" and "ew_encryptedMeta w = Some meta"
  shows "find_entry (ew_projectId w) (ew_id w) (apply_write w x c db) = Some (written_entry w (pj_seq x + 1))"
    "tb_values (apply_write w x c db) = fold (write_value w) (ew_values w) (tb_values db)"
    "tb_keyGrants (apply_write w x c db) = tb_keyGrants db" "tb_envGrants (apply_write w x c db) = tb_envGrants db"
    "tb_groups (apply_write w x c db) = tb_groups db" "tb_groupMembers (apply_write w x c db) = tb_groupMembers db"
    "tb_agents (apply_write w x c db) = tb_agents db" "tb_members (apply_write w x c db) = tb_members db"
proof -
  have "tb_entries (kept_version w c db) = tb_entries db \<and> tb_values (kept_version w c db) = tb_values db \<and>
    tb_keyGrants (kept_version w c db) = tb_keyGrants db \<and> tb_envGrants (kept_version w c db) = tb_envGrants db \<and>
    tb_groups (kept_version w c db) = tb_groups db \<and> tb_groupMembers (kept_version w c db) = tb_groupMembers db \<and>
    tb_agents (kept_version w c db) = tb_agents db \<and> tb_members (kept_version w c db) = tb_members db"
    by (cases rule: kept_version_cases [of w c db]) simp_all
  then show "find_entry (ew_projectId w) (ew_id w) (apply_write w x c db) = Some (written_entry w (pj_seq x + 1))"
    "tb_values (apply_write w x c db) = fold (write_value w) (ew_values w) (tb_values db)"
    "tb_keyGrants (apply_write w x c db) = tb_keyGrants db" "tb_envGrants (apply_write w x c db) = tb_envGrants db"
    "tb_groups (apply_write w x c db) = tb_groups db" "tb_groupMembers (apply_write w x c db) = tb_groupMembers db"
    "tb_agents (apply_write w x c db) = tb_agents db" "tb_members (apply_write w x c db) = tb_members db"
    unfolding apply_write_eq
    by (simp_all add: Let_def assms write_base_def write_secret_def find_entry_def find_entry_upsert)
      (simp add: written_entry_def pe_key_def)
qed

lemma check_values_ok: "check_values ids vs = None \<Longrightarrow> fst ` set vs \<subseteq> set ids"
  by (induction ids vs rule: check_values.induct) (auto split: if_splits)

lemma secret_write_allowed_ok:
  assumes "secret_write_allowed u p is now (reconcileProject p now db) = (Inr x, s)"
  shows "s = reconcileProject p now db \<and> (\<forall>project. linkedProject p db = Some project \<and> lp_ownerId project \<noteq> u \<longrightarrow>
    (if is = [] then \<exists>i \<in> set (environmentIds p db). Edit \<le> env_level project i u now s
     else \<forall>i \<in> set is. Edit \<le> env_level project i u now s))"
proof -
  let ?db = "reconcileProject p now db"
  have fst: "fst (assertSecretWrite p u is now ?db)" and s: "s = snd (assertSecretWrite p u is now ?db)"
    using assms by (auto simp: secret_write_allowed_def split: prod.splits if_splits)
  have reg: "snd (register project now ?db) = ?db" if "linkedProject p db = Some project" for project
    by (rule reconcile_registered [OF that])
  then have s: "s = ?db" using snd_policy(1) [of p u "is" now ?db] s by auto
  moreover have "if is = [] then \<exists>i \<in> set (environmentIds p db). Edit \<le> env_level project i u now ?db
     else \<forall>i \<in> set is. Edit \<le> env_level project i u now ?db"
    if "linkedProject p db = Some project" "lp_ownerId project \<noteq> u" for project
    using fst assertSecretWrite_iff [of p ?db project u "is" now] that reg [OF that(1)] by auto
  ultimately show ?thesis by blast
qed

text \<open>C6. A secret is written only by somebody who holds the project key and the key of every
  environment a value is given for, whose level is Edit or more in each of them unless they own
  the project, and only on top of the current revision. The secret then has the next revision
  and the metadata given; each value given is stored (or removed), once, and the values of all
  other environments stay as they are.\<close>

theorem secret_write_accepted:
  assumes "putSecret u p i base meta vs now (team_run collate tokens calls empty_db) = (Inr e, db')"
  shows "insert p (fst ` set vs) \<subseteq> kg_resourceId ` set (grants_held p u db') \<and>
    (\<forall>project. linkedProject p (team_run collate tokens calls empty_db) = Some project \<and> lp_ownerId project \<noteq> u \<longrightarrow>
      (if vs = [] then \<exists>k \<in> set (environmentIds p (team_run collate tokens calls empty_db)). Edit \<le> env_level project k u now db'
       else \<forall>k \<in> fst ` set vs. Edit \<le> env_level project k u now db')) \<and>
    (case find_entry p i (team_run collate tokens calls empty_db) of
       None \<Rightarrow> base = 0 | Some c \<Rightarrow> pe_type c = SecretE \<and> pe_revision c = base) \<and>
    (\<exists>c. find_entry p i db' = Some c \<and> pe_type c = SecretE \<and> pe_revision c = base + 1 \<and> \<not> pe_deleted c \<and>
      pe_encryptedMeta c = Some meta) \<and>
    (\<forall>k. find (\<lambda>x. vl_key x = (p, i, k)) (tb_values db') = (case map_of vs k of
       None \<Rightarrow> find (\<lambda>x. vl_key x = (p, i, k)) (tb_values (team_run collate tokens calls empty_db))
     | Some v \<Rightarrow> map_option (\<lambda>b. \<lparr>vl_projectId = p, vl_secretId = i, vl_environmentId = k, vl_encryptedValue = b,
         vl_updatedAt = now\<rparr>) v))"
proof -
  let ?db = "team_run collate tokens calls empty_db"
  let ?db1 = "reconcileProject p now ?db"
  let ?w = "entry_write_of u p i SecretE base (Some meta) vs None now"
  obtain access s s' x where access: "project_access_of u p now ?db = (Inr access, s)"
    and vals: "check_values (px_environments access) vs = None"
    and allowed: "secret_write_allowed u p (map fst vs) now s = (Inr x, s')"
    and wrote: "projects_write u ?w s' = (Inr e, db')"
    using assms by (auto simp: putSecret_def and_then_Inr_iff split: if_splits option.splits)
  have s: "s = ?db1" and held: "p \<in> kg_resourceId ` set (grants_held p u ?db1)"
      "set (px_environments access) = kg_resourceId ` set (grants_held p u ?db1) - {p}"
    using project_access_ok [OF access] by auto
  note allowed = secret_write_allowed_ok [OF allowed [unfolded s]]
  have s': "s' = ?db1" using allowed by blast
  obtain db2 where db2: "writeEntry ?w ?db1 = (WriteOk e, db2)" "db' = record_activity now (writeEvents u ?w) db2"
    using wrote by (auto simp: projects_write_def s' entry_write_of_def split: prod.splits entry_write_result.splits)
  have w: "ew_type ?w = SecretE" "ew_encryptedMeta ?w = Some meta" "ew_values ?w = vs" "ew_projectId ?w = p" "ew_id ?w = i"
    "ew_baseRevision ?w = base" "ew_now ?w = now" by (simp_all add: entry_write_of_def)
  note ok = writeEntry_ok [OF db2(1), unfolded w]
  then obtain project where ok: "case find_entry p i ?db1 of None \<Rightarrow> base = 0 | Some c \<Rightarrow> pe_type c = SecretE \<and> pe_revision c = base"
      "vs = [] \<or> length (filter (\<lambda>e. pe_projectId e = p \<and> pe_type e = EnvironmentE \<and> \<not> pe_deleted e \<and>
       pe_id e \<in> fst ` set vs) (tb_entries ?db1)) = length vs"
      "db2 = apply_write ?w project (find_entry p i ?db1) ?db1"
    by blast
  note written = secret_written [OF w(1,2), of project "find_entry p i ?db1" ?db1, folded ok(3), unfolded w]
  have "team_ok ?db1" by (rule team_ok_after [where new = "\<lambda>_. True"]) (rule steps_reconcile)
  then have "distinct (map fst vs)" using values_distinct [of ?db1 p vs] ok(2) by (cases "vs = []") (auto simp: team_ok_def)
  then have "find (\<lambda>x. vl_key x = (p, i, k)) (tb_values db2) = (case map_of vs k of
       None \<Rightarrow> find (\<lambda>x. vl_key x = (p, i, k)) (tb_values ?db)
     | Some v \<Rightarrow> map_option (\<lambda>b. \<lparr>vl_projectId = p, vl_secretId = i, vl_environmentId = k, vl_encryptedValue = b,
         vl_updatedAt = now\<rparr>) v)" for k
    using find_write_values [of vs ?w k "tb_values ?db1"] unfolding w written(2) reconcile_frame by simp
  moreover have "grants_held p u db' = grants_held p u ?db1" "tb_values db' = tb_values db2"
      "find_entry p i db' = find_entry p i db2" "find_entry p i ?db1 = find_entry p i ?db"
    unfolding db2(2) by (simp_all add: grants_held_def find_entry_def record_activity_def Let_def written(3))
  moreover have "env_level q k u now db' = env_level q k u now ?db1" for q k
    unfolding db2(2) by (rule env_level_cong) (simp_all add: record_activity_def Let_def written)
  moreover have "fst ` set vs \<subseteq> kg_resourceId ` set (grants_held p u ?db1)" using check_values_ok [OF vals] held(2) by blast
  moreover have "\<exists>c. find_entry p i db2 = Some c \<and> pe_type c = SecretE \<and> pe_revision c = base + 1 \<and> \<not> pe_deleted c \<and>
      pe_encryptedMeta c = Some meta" unfolding written(1) by (simp add: written_entry_def w)
  ultimately show ?thesis using allowed held(1) ok(1) unfolding s' by (auto split: if_splits)
qed

lemma demo_write: "\<not> isl (fst (putSecret ''olga'' ''p'' ''s'' 1 (demo_blob ''s'') [(''e'', Some (demo_blob ''e''\<lparr>bl_ct := ''new''\<rparr>))] 20 demo_run))"
  unfolding demo_run_eq by code_simp

theorem secret_write_accepted_witness:
  "\<exists>v. find (\<lambda>x. vl_key x = (''p'', ''s'', ''e'')) (tb_values (snd (putSecret ''olga'' ''p'' ''s'' 1 (demo_blob ''s'')
       [(''e'', Some (demo_blob ''e''\<lparr>bl_ct := ''new''\<rparr>))] 20 demo_run))) = Some v \<and> bl_ct (vl_encryptedValue v) = ''new''"
proof -
  let ?s = "putSecret ''olga'' ''p'' ''s'' 1 (demo_blob ''s'') [(''e'', Some (demo_blob ''e''\<lparr>bl_ct := ''new''\<rparr>))] 20 demo_run"
  obtain e where "?s = (Inr e, snd ?s)" using demo_write by (metis isl_def prod.exhaust_sel sum.exhaust_sel)
  from secret_write_accepted [OF this [unfolded demo_run_def]] show ?thesis unfolding demo_run_def by simp
qed

end
