(* ===== verification/Paths.thy ===== *)
theory Paths
  imports Prelude
begin

text \<open>
  Slugs and secret paths: the helpers of \<^verbatim>\<open>packages/shared/src/projects.ts\<close> and
  \<^verbatim>\<open>uniqueSlug\<close> of \<^verbatim>\<open>apps/desktop/src/projects/model.ts\<close>. Text here is a list of
  UTF-16 code units. Unicode's normal form and lower case are arguments. A regular expression is
  the automaton that accepts it.
\<close>

type_synonym js_text = "nat list"

definition ascii :: "string \<Rightarrow> js_text" where "ascii s = map of_char s"

abbreviation dash :: nat where "dash \<equiv> 45"
abbreviation slash :: nat where "slash \<equiv> 47"
abbreviation underscore :: nat where "underscore \<equiv> 95"

definition lower_unit :: "nat \<Rightarrow> bool" where "lower_unit c \<longleftrightarrow> 97 \<le> c \<and> c \<le> 122"
definition upper_unit :: "nat \<Rightarrow> bool" where "upper_unit c \<longleftrightarrow> 65 \<le> c \<and> c \<le> 90"
definition digit_unit :: "nat \<Rightarrow> bool" where "digit_unit c \<longleftrightarrow> 48 \<le> c \<and> c \<le> 57"

text \<open>\<^verbatim>\<open>[a-z0-9]\<close>\<close>

definition slug_unit :: "nat \<Rightarrow> bool" where "slug_unit c \<longleftrightarrow> lower_unit c \<or> digit_unit c"

text \<open>\<^verbatim>\<open>[a-z0-9]+(?:-[a-z0-9]+)*\<close>, from a state that has just read a letter or digit or not.\<close>

fun slug_from :: "bool \<Rightarrow> js_text \<Rightarrow> bool" where
  "slug_from word [] \<longleftrightarrow> word"
| "slug_from word (c # cs) \<longleftrightarrow> (if slug_unit c then slug_from True cs else c = dash \<and> word \<and> slug_from False cs)"

definition is_slug :: "js_text \<Rightarrow> bool" where
  "is_slug s \<longleftrightarrow> 1 \<le> length s \<and> length s \<le> 64 \<and> slug_from False s"

text \<open>\<^verbatim>\<open>[A-Za-z_][A-Za-z0-9_]*\<close>\<close>

definition is_key_name :: "js_text \<Rightarrow> bool" where
  "is_key_name s \<longleftrightarrow> 1 \<le> length s \<and> length s \<le> 128 \<and>
     (case s of [] \<Rightarrow> False
      | c # cs \<Rightarrow> (upper_unit c \<or> lower_unit c \<or> c = underscore) \<and>
          list_all (\<lambda>c. upper_unit c \<or> lower_unit c \<or> digit_unit c \<or> c = underscore) cs)"

section \<open>Paths\<close>

record secret_path =
  sl_project :: js_text
  sl_environment :: js_text
  sl_folder :: "js_text option"
  sl_key :: js_text

fun split_slash :: "js_text \<Rightarrow> js_text list" where
  "split_slash [] = [[]]"
| "split_slash (c # cs) = (if c = slash then [] # split_slash cs
     else (case split_slash cs of [] \<Rightarrow> [[c]] | w # ws \<Rightarrow> (c # w) # ws))"

definition path_prefix :: js_text where "path_prefix = ascii ''zv://''"

text \<open>\<^verbatim>\<open>^zv:\/\/([^/]+)\/([^/]+)\/(?:([^/]+)\/)?([^/]+)$\<close>: three or four parts, none of them empty.\<close>

definition match_path :: "js_text \<Rightarrow> secret_path option" where
  "match_path s =
     (if take (length path_prefix) s \<noteq> path_prefix then None
      else case split_slash (drop (length path_prefix) s) of
          [p, e, k] \<Rightarrow> if [] \<in> {p, e, k} then None
            else Some \<lparr>sl_project = p, sl_environment = e, sl_folder = None, sl_key = k\<rparr>
        | [p, e, f, k] \<Rightarrow> if [] \<in> {p, e, f, k} then None
            else Some \<lparr>sl_project = p, sl_environment = e, sl_folder = Some f, sl_key = k\<rparr>
        | _ \<Rightarrow> None)"

definition path_ok :: "secret_path \<Rightarrow> bool" where
  "path_ok p \<longleftrightarrow> is_slug (sl_project p) \<and> is_slug (sl_environment p) \<and>
     (case sl_folder p of None \<Rightarrow> True | Some f \<Rightarrow> is_slug f) \<and> is_key_name (sl_key p)"

definition parseSecretPath :: "js_text \<Rightarrow> secret_path option" where
  "parseSecretPath s = (case match_path s of
     None \<Rightarrow> None
   | Some p \<Rightarrow> if path_ok p then Some p else None)"

text \<open>An empty folder counts as none.\<close>

definition formatSecretPath :: "secret_path \<Rightarrow> js_text" where
  "formatSecretPath p = path_prefix @ sl_project p @ slash # sl_environment p @ slash #
     (case sl_folder p of None \<Rightarrow> [] | Some f \<Rightarrow> if f = [] then [] else f @ [slash]) @ sl_key p"

section \<open>Slugs\<close>

text \<open>\<^verbatim>\<open>.replace(/[^a-z0-9]+/g, '-')\<close>, from a state that is inside such a run or not.\<close>

fun dashed :: "bool \<Rightarrow> js_text \<Rightarrow> js_text" where
  "dashed run [] = []"
| "dashed run (c # cs) = (if slug_unit c then c # dashed False cs
     else if run then dashed True cs else dash # dashed True cs)"

text \<open>\<^verbatim>\<open>.replace(/-+$/, '')\<close>\<close>

definition trim_end :: "js_text \<Rightarrow> js_text" where
  "trim_end s = rev (dropWhile (\<lambda>c. c = dash) (rev s))"

definition slugify :: "(js_text \<Rightarrow> js_text) \<Rightarrow> (js_text \<Rightarrow> js_text) \<Rightarrow> js_text \<Rightarrow> js_text" where
  "slugify nfkd lower name =
     (let bare = filter (\<lambda>c. \<not> (768 \<le> c \<and> c \<le> 879)) (nfkd name);
          s = dashed False (lower bare)
      in trim_end (take 64 (trim_end (dropWhile (\<lambda>c. c = dash) s))))"

fun js_decimal :: "nat \<Rightarrow> js_text" where
  "js_decimal n = (if n < 10 then [48 + n] else js_decimal (n div 10) @ [48 + n mod 10])"

declare js_decimal.simps [simp del]

text \<open>\<^verbatim>\<open>s.slice(0, k)\<close>: a negative \<open>k\<close> counts from the end.\<close>

definition slice_to :: "int \<Rightarrow> 'a list \<Rightarrow> 'a list" where
  "slice_to k s = take (nat (if k < 0 then int (length s) + k else k)) s"

definition numbered_slug :: "js_text \<Rightarrow> nat \<Rightarrow> js_text" where
  "numbered_slug base n = (let suffix = dash # js_decimal n
     in trim_end (slice_to (64 - int (length suffix)) base) @ suffix)"

text \<open>The loop of \<^verbatim>\<open>uniqueSlug\<close>, which has no bound of its own.\<close>

partial_function (option) unique_from :: "js_text \<Rightarrow> js_text list \<Rightarrow> nat \<Rightarrow> js_text option" where
  "unique_from base taken n =
     (if numbered_slug base n \<notin> set taken then Some (numbered_slug base n) else unique_from base taken (n + 1))"

definition uniqueSlug :: "js_text \<Rightarrow> js_text list \<Rightarrow> js_text option" where
  "uniqueSlug base taken = (if base \<notin> set taken then Some base else unique_from base taken 2)"

section \<open>Round trip of paths\<close>

lemma slug_no_slash: "slug_from w s \<Longrightarrow> slash \<notin> set s"
  by (induction w s rule: slug_from.induct) (auto simp: slug_unit_def lower_unit_def digit_unit_def split: if_splits)

lemma is_slug_no_slash: "is_slug s \<Longrightarrow> slash \<notin> set s \<and> s \<noteq> []"
  by (auto simp: is_slug_def slug_no_slash)

lemma is_key_name_no_slash: "is_key_name s \<Longrightarrow> slash \<notin> set s \<and> s \<noteq> []"
  by (auto simp: is_key_name_def list_all_iff upper_unit_def lower_unit_def digit_unit_def split: list.splits)

lemma split_slash_word: "slash \<notin> set w \<Longrightarrow> split_slash w = [w]"
  by (induction w) auto

lemma split_slash_append: "slash \<notin> set w \<Longrightarrow> split_slash (w @ slash # s) = w # split_slash s"
  by (induction w) auto

fun join_slash :: "js_text list \<Rightarrow> js_text" where
  "join_slash [] = []"
| "join_slash [w] = w"
| "join_slash (w # ws) = w @ slash # join_slash ws"

lemma join_split: "join_slash (split_slash s) = s \<and> split_slash s \<noteq> []"
proof (induction s)
  case (Cons c s)
  then show ?case by (cases "split_slash s"; cases "tl (split_slash s)") auto
qed simp

lemma match_format:
  assumes "path_ok p"
  shows "match_path (formatSecretPath p) = Some p"
proof -
  have parts: "slash \<notin> set (sl_project p)" "slash \<notin> set (sl_environment p)" "slash \<notin> set (sl_key p)"
    "sl_project p \<noteq> []" "sl_environment p \<noteq> []" "sl_key p \<noteq> []"
    "\<And>f. sl_folder p = Some f \<Longrightarrow> slash \<notin> set f \<and> f \<noteq> []"
    using assms is_slug_no_slash is_key_name_no_slash by (auto simp: path_ok_def)
  show ?thesis
    using parts by (cases p; cases "sl_folder p")
      (auto simp: match_path_def formatSecretPath_def split_slash_append split_slash_word)
qed

lemma format_match:
  assumes "match_path s = Some p"
  shows "formatSecretPath p = s"
proof -
  let ?rest = "drop (length path_prefix) s"
  have s: "s = path_prefix @ ?rest" using assms by (auto simp: match_path_def split: if_splits) (metis append_take_drop_id)
  consider (three) a e k where "split_slash ?rest = [a, e, k]" "p = \<lparr>sl_project = a, sl_environment = e, sl_folder = None, sl_key = k\<rparr>"
    | (four) a e f k where "split_slash ?rest = [a, e, f, k]" "f \<noteq> []"
        "p = \<lparr>sl_project = a, sl_environment = e, sl_folder = Some f, sl_key = k\<rparr>"
    using assms by (auto simp: match_path_def split: if_splits list.splits)
  then show ?thesis
  proof cases
    case three
    then have "?rest = a @ slash # e @ slash # k" using join_split [of ?rest] by simp
    then show ?thesis using s three(2) by (simp add: formatSecretPath_def)
  next
    case four
    then have "?rest = a @ slash # e @ slash # f @ slash # k" using join_split [of ?rest] by simp
    then show ?thesis using s four(2,3) by (simp add: formatSecretPath_def)
  qed
qed

text \<open>C34. Parsing inverts formatting: a text parses to a path exactly when the path's parts are valid slugs
  and a valid variable name and the text is that path written out.\<close>

theorem secret_path_roundtrip:
  "parseSecretPath s = Some p \<longleftrightarrow> path_ok p \<and> s = formatSecretPath p"
  using match_format [of p] format_match [of s] by (auto simp: parseSecretPath_def split: option.splits if_splits)

section \<open>Slugs\<close>

text \<open>Letters, digits and dashes, no two dashes together.\<close>

fun single_dashed :: "js_text \<Rightarrow> bool" where
  "single_dashed [] = True"
| "single_dashed [c] \<longleftrightarrow> slug_unit c \<or> c = dash"
| "single_dashed (c # d # cs) \<longleftrightarrow> (slug_unit c \<or> c = dash) \<and> \<not> (c = dash \<and> d = dash) \<and> single_dashed (d # cs)"

lemma dash_unit [simp]: "\<not> slug_unit dash"
  by (simp add: slug_unit_def lower_unit_def digit_unit_def)

lemma slug_from_iff:
  "slug_from True s \<longleftrightarrow> s = [] \<or> single_dashed s \<and> last s \<noteq> dash"
  "slug_from False s \<longleftrightarrow> s \<noteq> [] \<and> hd s \<noteq> dash \<and> single_dashed s \<and> last s \<noteq> dash"
proof (induction s)
  case (Cons c s)
  have 1: "slug_from True (c # s) \<longleftrightarrow> single_dashed (c # s) \<and> last (c # s) \<noteq> dash"
    using Cons.IH by (cases s) auto
  moreover have "slug_from False (c # s) \<longleftrightarrow> c \<noteq> dash \<and> slug_from True (c # s)" by auto
  ultimately show "slug_from True (c # s) \<longleftrightarrow> c # s = [] \<or> single_dashed (c # s) \<and> last (c # s) \<noteq> dash"
    "slug_from False (c # s) \<longleftrightarrow> c # s \<noteq> [] \<and> hd (c # s) \<noteq> dash \<and> single_dashed (c # s) \<and> last (c # s) \<noteq> dash"
    by simp_all
qed simp_all

lemma single_dashed_append: "single_dashed (s @ t) \<longleftrightarrow> single_dashed s \<and> single_dashed t \<and> \<not> (s \<noteq> [] \<and> t \<noteq> [] \<and> last s = dash \<and> hd t = dash)"
proof (induction s rule: single_dashed.induct)
  case (2 c)
  then show ?case by (cases t) auto
qed auto

lemma single_dashed_word: "list_all slug_unit s \<Longrightarrow> single_dashed s"
  by (induction s rule: single_dashed.induct) auto

lemma single_dashed_prefix: "single_dashed (s @ t) \<Longrightarrow> single_dashed s" "single_dashed (s @ t) \<Longrightarrow> single_dashed t"
  by (simp_all add: single_dashed_append)

lemma single_dashed_dashed: "single_dashed (dashed run s) \<and> (run \<longrightarrow> dashed run s = [] \<or> hd (dashed run s) \<noteq> dash)"
proof (induction run s rule: dashed.induct)
  case (2 run c cs)
  then show ?case by (cases "dashed False cs"; cases "dashed True cs") auto
qed simp

lemma trim_end_append: "\<exists>t. s = trim_end s @ t \<and> set t \<subseteq> {dash}"
proof -
  have "rev s = takeWhile (\<lambda>c. c = dash) (rev s) @ dropWhile (\<lambda>c. c = dash) (rev s)" by simp
  then have "s = trim_end s @ rev (takeWhile (\<lambda>c. c = dash) (rev s))"
    unfolding trim_end_def by (metis rev_append rev_rev_ident)
  moreover have "set (rev (takeWhile (\<lambda>c. c = dash) (rev s))) \<subseteq> {dash}" by (auto dest: set_takeWhileD)
  ultimately show ?thesis by blast
qed

lemma trim_end_last: "trim_end s \<noteq> [] \<Longrightarrow> last (trim_end s) \<noteq> dash"
  using hd_dropWhile [of "\<lambda>c. c = dash" "rev s"] by (auto simp: trim_end_def last_rev simp del: dropWhile_eq_Nil_conv)

lemma trim_end_single: "single_dashed s \<Longrightarrow> single_dashed (trim_end s)"
  using trim_end_append [of s] single_dashed_prefix(1) by metis

lemma trim_end_hd:
  assumes "s \<noteq> []" and "hd s \<noteq> dash"
  shows "trim_end s \<noteq> [] \<and> hd (trim_end s) = hd s"
proof -
  obtain t where t: "s = trim_end s @ t" "set t \<subseteq> {dash}" using trim_end_append by blast
  have "trim_end s \<noteq> []"
  proof
    assume "trim_end s = []"
    then have "s = t" using t(1) by simp
    then have "hd s \<in> {dash}" using assms(1) t(2) hd_in_set by blast
    then show False using assms(2) by simp
  qed
  then show ?thesis using t(1) by (metis hd_append2)
qed

lemma length_trim_end: "length (trim_end s) \<le> length s"
  using trim_end_append [of s] by (metis length_append le_add1)

text \<open>Whatever Unicode makes of a name, its slug is empty or a valid slug.\<close>

theorem slugify_valid: "slugify nfkd lower name = [] \<or> is_slug (slugify nfkd lower name)"
proof (cases "slugify nfkd lower name = []")
  case False
  let ?s = "dashed False (lower (filter (\<lambda>c. \<not> (768 \<le> c \<and> c \<le> 879)) (nfkd name)))"
  let ?d = "dropWhile (\<lambda>c. c = dash) ?s"
  let ?t = "take 64 (trim_end ?d)"
  from False have ne: "trim_end ?t \<noteq> []" by (simp add: slugify_def Let_def)
  have nil: "trim_end [] = []" by (simp add: trim_end_def)
  then have ne2: "?t \<noteq> []" using ne by metis
  then have "trim_end ?d \<noteq> []" by (metis take_Nil)
  then have ne3: "?d \<noteq> []" using nil by metis
  have "single_dashed ?s" using single_dashed_dashed by blast
  then have "single_dashed ?d" by (metis single_dashed_prefix(2) takeWhile_dropWhile_id)
  then have "single_dashed (trim_end ?d)" by (rule trim_end_single)
  then have "single_dashed ?t" by (metis append_take_drop_id single_dashed_prefix(1))
  then have "single_dashed (trim_end ?t)" by (rule trim_end_single)
  moreover have "hd ?d \<noteq> dash" using hd_dropWhile [OF ne3] by simp
  then have "hd (trim_end ?d) \<noteq> dash" using trim_end_hd [OF ne3] by simp
  then have "hd ?t \<noteq> dash" using ne2 by (cases "trim_end ?d") simp_all
  then have "hd (trim_end ?t) \<noteq> dash" using trim_end_hd [OF ne2] by simp
  moreover have "length (trim_end ?t) \<le> 64" using length_trim_end [of ?t] by simp
  moreover have "1 \<le> length (trim_end ?t)" using ne by (cases "trim_end ?t") auto
  ultimately show ?thesis
    using ne trim_end_last [OF ne] by (simp add: is_slug_def slug_from_iff slugify_def Let_def)
qed simp

section \<open>Unique slugs\<close>

lemma decimal_ne [simp]: "js_decimal n \<noteq> []"
  by (subst js_decimal.simps) simp

lemma js_decimal_digits: "c \<in> set (js_decimal n) \<Longrightarrow> digit_unit c"
proof (induction n rule: js_decimal.induct)
  case (1 n)
  show ?case
  proof (cases "n < 10")
    case True
    then show ?thesis using "1.prems" by (simp add: js_decimal.simps [of n] digit_unit_def)
  next
    case False
    then show ?thesis using "1.prems" "1.IH" by (auto simp: js_decimal.simps [of n] digit_unit_def)
  qed
qed

definition decimal_value :: "js_text \<Rightarrow> nat" where
  "decimal_value s = foldl (\<lambda>a c. 10 * a + (c - 48)) 0 s"

lemma decimal_value: "decimal_value (js_decimal n) = n"
proof (induction n rule: js_decimal.induct)
  case (1 n)
  then show ?case by (subst js_decimal.simps) (simp add: decimal_value_def)
qed

lemma decimal_length: "n < 10 ^ k \<Longrightarrow> 0 < k \<Longrightarrow> length (js_decimal n) \<le> k"
proof (induction n arbitrary: k rule: js_decimal.induct)
  case (1 n)
  show ?case
  proof (cases "n < 10")
    case True
    then show ?thesis using "1.prems" by (simp add: js_decimal.simps [of n])
  next
    case False
    with "1.prems" obtain j where j: "k = Suc j" "0 < j" by (cases k; cases "k - 1") auto
    then have "n div 10 < 10 ^ j" using "1.prems"(1) by (simp add: less_mult_imp_div_less mult.commute)
    then show ?thesis using "1.IH" [OF False _ j(2)] False j(1) by (simp add: js_decimal.simps [of n])
  qed
qed

lemma numbered_slug_inject: "numbered_slug base m = numbered_slug base n \<Longrightarrow> m = n"
proof -
  assume eq: "numbered_slug base m = numbered_slug base n"
  have tail: "takeWhile (\<lambda>c. c \<noteq> dash) (rev (numbered_slug base n)) = rev (js_decimal n)" for n
  proof -
    have "c \<noteq> dash" if "c \<in> set (js_decimal n)" for c using js_decimal_digits [OF that] by (auto simp: digit_unit_def)
    then show ?thesis by (simp add: numbered_slug_def Let_def takeWhile_append2 takeWhile_append)
  qed
  have "js_decimal m = js_decimal n" using tail [of m] tail [of n] eq by simp
  then show "m = n" using decimal_value by metis
qed

text \<open>One of the first numbers is free, and the loop stops at the first that is.\<close>

lemma free_number: "\<exists>m. n \<le> m \<and> m \<le> n + length taken \<and> numbered_slug base m \<notin> set taken"
proof (rule ccontr)
  assume "\<not> ?thesis"
  then have "numbered_slug base ` {n..n + length taken} \<subseteq> set taken" by auto
  then have "card (numbered_slug base ` {n..n + length taken}) \<le> length taken"
    by (meson card_length card_mono finite_set order_trans)
  moreover have "inj_on (numbered_slug base) {n..n + length taken}" using numbered_slug_inject by (auto intro: inj_onI)
  ultimately show False by (simp add: card_image)
qed

lemma unique_from_finds:
  assumes "n \<le> m" and "numbered_slug base m \<notin> set taken" and "\<And>k. n \<le> k \<Longrightarrow> k < m \<Longrightarrow> numbered_slug base k \<in> set taken"
  shows "unique_from base taken n = Some (numbered_slug base m)"
  using assms
proof (induction "m - n" arbitrary: n)
  case 0
  then show ?case by (subst unique_from.simps) simp
next
  case (Suc d)
  then have "unique_from base taken (n + 1) = Some (numbered_slug base m)" by (intro Suc.hyps(1)) auto
  moreover have "numbered_slug base n \<in> set taken" using Suc by auto
  ultimately show ?case by (subst unique_from.simps) simp
qed

lemma numbered_slug_valid:
  assumes "is_slug base" and "n < 10 ^ 20"
  shows "is_slug (numbered_slug base n)"
proof -
  let ?suffix = "dash # js_decimal n"
  have len: "length ?suffix \<le> 21" using decimal_length [OF assms(2)] by simp
  let ?k = "64 - length ?suffix"
  let ?q = "trim_end (take ?k base)"
  have slice: "numbered_slug base n = ?q @ ?suffix"
    using len by (simp add: numbered_slug_def Let_def slice_to_def nat_diff_distrib)
  have base: "base \<noteq> []" "hd base \<noteq> dash" "single_dashed base"
    using assms(1) by (auto simp: is_slug_def slug_from_iff)
  then have "take ?k base \<noteq> []" "hd (take ?k base) \<noteq> dash" using len by (cases base; simp)+
  then have q: "?q \<noteq> []" "hd ?q \<noteq> dash" using trim_end_hd by auto
  have "single_dashed (take ?k base)" using base(3) by (metis append_take_drop_id single_dashed_prefix(1))
  then have "single_dashed ?q" by (rule trim_end_single)
  moreover have digits: "slug_unit c" if "c \<in> set (js_decimal n)" for c
    using js_decimal_digits [OF that] by (simp add: slug_unit_def)
  then have "list_all slug_unit (js_decimal n)" by (simp add: list_all_iff)
  then have "single_dashed (js_decimal n)" by (rule single_dashed_word)
  moreover have "hd (js_decimal n) \<noteq> dash" using digits [of "hd (js_decimal n)"] by auto
  ultimately have "single_dashed ?suffix" by (cases "js_decimal n") auto
  then have "single_dashed (?q @ ?suffix)" using \<open>single_dashed ?q\<close> trim_end_last [OF q(1)] by (simp add: single_dashed_append)
  moreover have "last (?q @ ?suffix) \<noteq> dash" using digits [of "last (js_decimal n)"] by auto
  moreover have "length (?q @ ?suffix) \<le> 64" using length_trim_end [of "take ?k base"] len by simp linarith
  ultimately show ?thesis using q unfolding slice is_slug_def slug_from_iff by simp
qed

text \<open>Looking for a free slug ends, whatever is taken: after at most one try more than there are taken
  slugs it has the base itself or the first numbered one that is free, which is a valid slug when
  the base is.\<close>

theorem unique_slug_ends:
  "\<exists>s. uniqueSlug base taken = Some s \<and> s \<notin> set taken \<and> (base \<notin> set taken \<longrightarrow> s = base) \<and>
    (base \<in> set taken \<longrightarrow> (\<exists>n. n \<le> 2 + length taken \<and> s = numbered_slug base n \<and>
      (\<forall>k. 2 \<le> k \<and> k < n \<longrightarrow> numbered_slug base k \<in> set taken))) \<and>
    (is_slug base \<and> length taken < 2 ^ 32 \<longrightarrow> is_slug s)"
proof (cases "base \<in> set taken")
  case True
  let ?P = "\<lambda>m. 2 \<le> m \<and> numbered_slug base m \<notin> set taken"
  obtain m where m: "2 \<le> m" "m \<le> 2 + length taken" "numbered_slug base m \<notin> set taken" using free_number by blast
  define n where "n = (LEAST m. ?P m)"
  have P: "?P m" using m by simp
  have n: "?P n" unfolding n_def by (rule LeastI [of ?P, OF P])
  have le: "n \<le> m" unfolding n_def by (rule Least_le [of ?P, OF P])
  have before: "numbered_slug base k \<in> set taken" if "2 \<le> k" "k < n" for k
    using not_less_Least [of k ?P] that unfolding n_def by blast
  have "unique_from base taken 2 = Some (numbered_slug base n)"
    by (rule unique_from_finds) (use n before in auto)
  moreover have "is_slug (numbered_slug base n)" if "is_slug base" "length taken < 2 ^ 32"
    using numbered_slug_valid [OF that(1), of n] that(2) le m(2) by simp
  moreover have "n \<le> 2 + length taken \<and> numbered_slug base n = numbered_slug base n \<and>
      (\<forall>k. 2 \<le> k \<and> k < n \<longrightarrow> numbered_slug base k \<in> set taken)"
    using before le m(2) by simp
  ultimately show ?thesis using True n unfolding uniqueSlug_def by (intro exI [of _ "numbered_slug base n"]) auto
qed (simp add: uniqueSlug_def)

theorem unique_slug_ends_witness:
  "uniqueSlug (ascii ''prod'') [ascii ''prod'', ascii ''prod-2''] = Some (ascii ''prod-3'')"
proof -
  have "unique_from (ascii ''prod'') [ascii ''prod'', ascii ''prod-2''] 2 = Some (ascii ''prod-3'')"
    by (subst unique_from.simps, subst unique_from.simps) (simp add: ascii_def numbered_slug_def Let_def slice_to_def trim_end_def js_decimal.simps)
  then show ?thesis
    using unique_slug_ends [of "ascii ''prod''" "[ascii ''prod'', ascii ''prod-2'']"] by (simp add: uniqueSlug_def)
qed

end
