(* ===== verification/ProjectModel.thy ===== *)
theory ProjectModel
  imports Paths Schema "HOL-Library.Word"
begin

text \<open>
  The desktop's model of projects: \<^verbatim>\<open>apps/desktop/src/projects/model.ts\<close>. A JavaScript
  \<^verbatim>\<open>Map\<close> is an association list in insertion order. \<open>collate\<close> is the order of
  \<^verbatim>\<open>localeCompare\<close>.
\<close>

section \<open>Metadata\<close>

datatype environment_kind = Development | Staging | Production | Custom

datatype sync_target =
    GithubTarget id js_text "js_text option" "bool option"
  | AwsTarget id js_text js_text "bool option"

record project_meta =
  jm_name :: js_text
  jm_slug :: js_text
  jm_description :: "js_text option"
  jm_color :: "string option"

record environment_meta =
  em_name :: js_text
  em_slug :: js_text
  em_kind :: environment_kind
  em_position :: nat
  em_color :: "string option"
  em_inheritsFrom :: "id option"
  em_sync :: "sync_target list option"

record folder_meta =
  fm_name :: js_text
  fm_slug :: js_text

record secret_meta =
  sm_name :: js_text
  sm_key :: js_text
  sm_folderId :: "id option"
  sm_tags :: "js_text list"
  sm_note :: "js_text option"

section \<open>State\<close>

record environment_state =
  vs_revision :: nat
  vs_meta :: environment_meta
  vs_unlocked :: bool

record folder_state =
  fs_revision :: nat
  fs_meta :: folder_meta

record secret_state =
  ss_revision :: nat
  ss_meta :: secret_meta
  ss_values :: "(id \<times> blob) list"

record project_state =
  st_id :: id
  st_revision :: nat
  st_owner :: bool
  st_meta :: project_meta
  st_environments :: "(id \<times> environment_state) list"
  st_folders :: "(id \<times> folder_state) list"
  st_secrets :: "(id \<times> secret_state) list"

section \<open>Views\<close>

record environment_view =
  ei_id :: id
  ei_revision :: nat
  ei_name :: js_text
  ei_slug :: js_text
  ei_short :: js_text
  ei_kind :: environment_kind
  ei_color :: string
  ei_position :: nat
  ei_inheritsFrom :: "id option"
  ei_locked :: bool
  ei_sync :: "sync_target list"

record folder_view =
  fv_id :: id
  fv_revision :: nat
  fv_name :: js_text
  fv_slug :: js_text

record tile =
  ti_bg :: string
  ti_fg :: string

record project_view =
  pw_id :: id
  pw_slug :: js_text
  pw_name :: js_text
  pw_description :: "js_text option"
  pw_owner :: bool
  pw_tile :: tile
  pw_environments :: "environment_view list"
  pw_folders :: "folder_view list"

record secret_view =
  sv_id :: id
  sv_projectId :: id
  sv_revision :: nat
  sv_name :: js_text
  sv_key :: js_text
  sv_folder :: "folder_view option"
  sv_tags :: "js_text list"
  sv_note :: "js_text option"
  sv_values :: "(id \<times> blob) list"

fun env_color :: "environment_kind \<Rightarrow> string" where
  "env_color Development = ''var(--secure)''"
| "env_color Staging = ''var(--attn)''"
| "env_color Production = ''var(--danger)''"
| "env_color Custom = ''var(--violet)''"

fun env_short :: "environment_kind \<Rightarrow> js_text option" where
  "env_short Development = Some (ascii ''Dev'')"
| "env_short Production = Some (ascii ''Prod'')"
| "env_short _ = None"

text \<open>\<^verbatim>\<open>\s\<close>\<close>

definition space_unit :: "nat \<Rightarrow> bool" where
  "space_unit c \<longleftrightarrow> 9 \<le> c \<and> c \<le> 13 \<or> c \<in> {32, 160, 5760, 8232, 8233, 8239, 8287, 12288, 65279} \<or> 8192 \<le> c \<and> c \<le> 8202"

definition shortName :: "js_text \<Rightarrow> environment_kind \<Rightarrow> js_text" where
  "shortName name kind = (case env_short kind of
     Some s \<Rightarrow> s
   | None \<Rightarrow> if 8 < length name then takeWhile (\<lambda>c. \<not> space_unit c) name else name)"

definition tile_ink :: "string \<Rightarrow> tile" where "tile_ink bg = \<lparr>ti_bg = bg, ti_fg = ''var(--tile-ink)''\<rparr>"

definition TILES :: "tile list" where
  "TILES = map tile_ink [''var(--tile-navy)'', ''var(--tile-denim)'', ''var(--tile-green)'', ''var(--tile-coral)'']"

text \<open>An unsigned 32-bit hash of the id; an empty colour counts as none.\<close>

definition tile_hash :: "id \<Rightarrow> 32 word" where
  "tile_hash i = fold (\<lambda>c h. h * 31 + of_nat (of_char c)) i 0"

definition tileFor :: "id \<Rightarrow> string option \<Rightarrow> tile" where
  "tileFor i color = (case color of
     Some (c # cs) \<Rightarrow> tile_ink (c # cs)
   | _ \<Rightarrow> TILES ! (unat (tile_hash i) mod length TILES))"

definition environment_view_of :: "id \<times> environment_state \<Rightarrow> environment_view" where
  "environment_view_of x = (case x of (i, e) \<Rightarrow> (let m = vs_meta e in
     \<lparr>ei_id = i, ei_revision = vs_revision e, ei_name = em_name m, ei_slug = em_slug m,
      ei_short = shortName (em_name m) (em_kind m), ei_kind = em_kind m,
      ei_color = (case em_color m of None \<Rightarrow> env_color (em_kind m) | Some c \<Rightarrow> c), ei_position = em_position m,
      ei_inheritsFrom = em_inheritsFrom m, ei_locked = (\<not> vs_unlocked e),
      ei_sync = (case em_sync m of None \<Rightarrow> [] | Some ts \<Rightarrow> ts)\<rparr>))"

definition folder_view_of :: "id \<times> folder_state \<Rightarrow> folder_view" where
  "folder_view_of x = (case x of (i, f) \<Rightarrow>
     \<lparr>fv_id = i, fv_revision = fs_revision f, fv_name = fm_name (fs_meta f), fv_slug = fm_slug (fs_meta f)\<rparr>)"

definition environments_shown :: "(js_text \<Rightarrow> nat) \<Rightarrow> project_state \<Rightarrow> environment_view list" where
  "environments_shown collate s =
     sort_key ei_position (sort_key (\<lambda>e. collate (ei_name e)) (map environment_view_of (st_environments s)))"

definition folders_shown :: "(js_text \<Rightarrow> nat) \<Rightarrow> project_state \<Rightarrow> folder_view list" where
  "folders_shown collate s = sort_key (\<lambda>f. collate (fv_name f)) (map folder_view_of (st_folders s))"

text \<open>An empty description or note is left out.\<close>

definition unless_empty :: "js_text option \<Rightarrow> js_text option" where
  "unless_empty t = (if t = Some [] then None else t)"

definition project_view_of :: "(js_text \<Rightarrow> nat) \<Rightarrow> project_state \<Rightarrow> project_view" where
  "project_view_of collate s = \<lparr>pw_id = st_id s, pw_slug = jm_slug (st_meta s), pw_name = jm_name (st_meta s),
     pw_description = unless_empty (jm_description (st_meta s)), pw_owner = st_owner s,
     pw_tile = tileFor (st_id s) (jm_color (st_meta s)), pw_environments = environments_shown collate s,
     pw_folders = folders_shown collate s\<rparr>"

definition secret_view_of :: "id \<Rightarrow> folder_view list \<Rightarrow> id \<times> secret_state \<Rightarrow> secret_view" where
  "secret_view_of p folders x = (case x of (i, sec) \<Rightarrow> (let m = ss_meta sec in
     \<lparr>sv_id = i, sv_projectId = p, sv_revision = ss_revision sec, sv_name = sm_name m, sv_key = sm_key m,
      sv_folder = find (\<lambda>f. Some (fv_id f) = sm_folderId m) folders, sv_tags = sm_tags m,
      sv_note = unless_empty (sm_note m), sv_values = ss_values sec\<rparr>))"

definition toView :: "(js_text \<Rightarrow> nat) \<Rightarrow> project_state list \<Rightarrow> project_view list \<times> secret_view list" where
  "toView collate states =
     (sort_key (\<lambda>p. collate (pw_name p)) (map (project_view_of collate) states),
      sort_key (\<lambda>s. collate (sv_name s))
        (concat (map (\<lambda>s. map (secret_view_of (st_id s) (folders_shown collate s)) (st_secrets s)) states)))"

section \<open>Which value applies\<close>

definition inherits :: "project_view \<Rightarrow> id \<Rightarrow> id option" where
  "inherits p i = (case find (\<lambda>e. ei_id e = i) (pw_environments p) of None \<Rightarrow> None | Some e \<Rightarrow> ei_inheritsFrom e)"

text \<open>Environments not seen yet; after an id that is no environment the loop ends.\<close>

definition unseen :: "project_view \<Rightarrow> id list \<Rightarrow> nat" where
  "unseen p seen = length (filter (\<lambda>e. ei_id e \<notin> set seen) (pw_environments p))"

lemma unseen_less:
  assumes "i \<notin> set seen" and "inherits p i = Some j"
  shows "unseen p (i # seen) < unseen p seen"
proof -
  obtain e where e: "e \<in> set (pw_environments p)" "ei_id e = i"
    using assms(2) by (auto simp: inherits_def dest: find_set split: option.splits)
  have "filter (\<lambda>e. ei_id e \<notin> set (i # seen)) es = filter (\<lambda>e. ei_id e \<noteq> i) (filter (\<lambda>e. ei_id e \<notin> set seen) es)" for es
    by (induction es) auto
  moreover have "e \<in> set (filter (\<lambda>e. ei_id e \<notin> set seen) (pw_environments p))" using e assms(1) by simp
  then have "length (filter (\<lambda>e. ei_id e \<noteq> i) (filter (\<lambda>e. ei_id e \<notin> set seen) (pw_environments p)))
      < length (filter (\<lambda>e. ei_id e \<notin> set seen) (pw_environments p))"
    using e(2) by (intro length_filter_less) auto
  ultimately show ?thesis unfolding unseen_def by metis
qed

text \<open>The loop of \<^verbatim>\<open>valueSource\<close>; the empty id ends it like \<open>None\<close>.\<close>

function source_from :: "project_view \<Rightarrow> secret_view \<Rightarrow> id list \<Rightarrow> id option \<Rightarrow> id option" where
  "source_from p s seen None = None"
| "source_from p s seen (Some i) =
     (if i = '''' \<or> i \<in> set seen then None
      else if map_of (sv_values s) i \<noteq> None then Some i
      else source_from p s (i # seen) (inherits p i))"
  by pat_completeness auto

termination
proof (relation "measure (\<lambda>(p, s, seen, i). unseen p seen + (case i of None \<Rightarrow> 0 | Some _ \<Rightarrow> 1))", simp)
  fix p s seen and i :: id
  assume "\<not> (i = '''' \<or> i \<in> set seen)"
  then show "((p, s, i # seen, inherits p i), p, s, seen, Some i) \<in>
      measure (\<lambda>(p, s, seen, i). unseen p seen + (case i of None \<Rightarrow> 0 | Some _ \<Rightarrow> 1))"
  proof (cases "inherits p i")
    case None
    have "unseen p (i # seen) \<le> unseen p seen"
      unfolding unseen_def by (induction "pw_environments p") (auto simp: length_filter_conv_card intro: card_mono)
    with None show ?thesis by simp
  next
    case (Some j)
    with unseen_less [of i seen p j] \<open>\<not> (i = '''' \<or> i \<in> set seen)\<close> show ?thesis by simp
  qed
qed

definition valueSource :: "project_view \<Rightarrow> secret_view \<Rightarrow> id \<Rightarrow> id option" where
  "valueSource p s envId = source_from p s [] (Some envId)"

definition secretRef :: "project_view \<Rightarrow> environment_view \<Rightarrow> secret_view \<Rightarrow> js_text" where
  "secretRef p e s = formatSecretPath \<lparr>sl_project = pw_slug p, sl_environment = ei_slug e,
     sl_folder = map_option fv_slug (sv_folder s), sl_key = sv_key s\<rparr>"

section \<open>The fallback chain\<close>

text \<open>From an environment without a value of its own to the one it falls back to.\<close>

definition falls_back :: "project_view \<Rightarrow> secret_view \<Rightarrow> id \<Rightarrow> id \<Rightarrow> bool" where
  "falls_back p s i j \<longleftrightarrow> map_of (sv_values s) i = None \<and> inherits p i = Some j \<and> j \<noteq> ''''"

lemma falls_back_value: "(falls_back p s)\<^sup>*\<^sup>* i j \<Longrightarrow> map_of (sv_values s) i \<noteq> None \<Longrightarrow> j = i"
  by (erule converse_rtranclpE) (auto simp: falls_back_def)

lemma source_from_iff:
  assumes "j \<noteq> ''''" and "\<forall>x \<in> set seen. map_of (sv_values s) x = None \<and> (\<forall>y. falls_back p s x y \<longrightarrow> y \<in> insert j (set seen))"
  shows "source_from p s seen (Some j) = Some i \<longleftrightarrow> (falls_back p s)\<^sup>*\<^sup>* j i \<and> map_of (sv_values s) i \<noteq> None"
  using assms
proof (induction "unseen p seen" arbitrary: seen j rule: less_induct)
  case less
  consider (again) "j \<in> set seen" | (own) "j \<notin> set seen" "map_of (sv_values s) j \<noteq> None"
    | (stop) "j \<notin> set seen" "map_of (sv_values s) j = None" "inherits p j \<in> {None, Some ''''}"
    | (go) y where "j \<notin> set seen" "map_of (sv_values s) j = None" "inherits p j = Some y" "y \<noteq> ''''"
    by (cases "inherits p j") auto
  then show ?case
  proof cases
    case again
    have "x \<in> set seen" if "(falls_back p s)\<^sup>*\<^sup>* j x" for x
      using that again less.prems(2) by (induction rule: rtranclp_induct) auto
    with again less.prems(2) show ?thesis by auto
  next
    case own
    with less.prems(1) show ?thesis using falls_back_value [of p s j i] by auto
  next
    case stop
    then have "\<not> falls_back p s j x" for x by (auto simp: falls_back_def)
    then have "(falls_back p s)\<^sup>*\<^sup>* j i \<longleftrightarrow> i = j" by (auto elim: converse_rtranclpE)
    moreover have "source_from p s (j # seen) (inherits p j) = None" using stop(3) by auto
    ultimately show ?thesis using stop(1,2) less.prems(1) by simp
  next
    case go
    have next': "falls_back p s j x \<longleftrightarrow> x = y" for x using go by (auto simp: falls_back_def)
    have "source_from p s (j # seen) (Some y) = Some i \<longleftrightarrow> (falls_back p s)\<^sup>*\<^sup>* y i \<and> map_of (sv_values s) i \<noteq> None"
      by (rule less.hyps [OF unseen_less [OF go(1,3)] go(4)]) (use less.prems(2) go(2) next' in auto)
    moreover have "(falls_back p s)\<^sup>*\<^sup>* j i \<longleftrightarrow> i = j \<or> (falls_back p s)\<^sup>*\<^sup>* y i"
      using next' by (metis converse_rtranclpE converse_rtranclp_into_rtranclp rtranclp.rtrancl_refl)
    ultimately show ?thesis using go less.prems(1) by auto
  qed
qed

text \<open>C35. The value that applies in an environment is the first one on its chain of fallbacks: the search
  ends on every chain, cyclic ones included, with the environment that is reached over
  environments without a value and has one, and with none only when there is no such
  environment.\<close>

theorem value_source_is_first:
  assumes "envId \<noteq> ''''"
  shows "valueSource p s envId = Some i \<longleftrightarrow> (falls_back p s)\<^sup>*\<^sup>* envId i \<and> map_of (sv_values s) i \<noteq> None"
  unfolding valueSource_def by (rule source_from_iff [OF assms]) simp

text \<open>Staging and Development fall back to each other; only Production has a value.\<close>

definition demo_env_view :: "id \<Rightarrow> id option \<Rightarrow> environment_view" where
  "demo_env_view i from' = environment_view_of (i, \<lparr>vs_revision = 1, vs_meta = \<lparr>em_name = ascii i, em_slug = ascii i, em_kind = Custom,
     em_position = 0, em_color = None, em_inheritsFrom = from', em_sync = None\<rparr>, vs_unlocked = True\<rparr>)"

definition demo_view :: project_view where
  "demo_view = \<lparr>pw_id = ''p'', pw_slug = ascii ''pay'', pw_name = ascii ''Pay'', pw_description = None, pw_owner = True,
     pw_tile = tile_ink ''x'', pw_environments = [demo_env_view ''dev'' (Some ''stage''), demo_env_view ''stage'' (Some ''dev''),
       demo_env_view ''qa'' (Some ''prod''), demo_env_view ''prod'' None], pw_folders = []\<rparr>"

definition demo_secret :: secret_view where
  "demo_secret = \<lparr>sv_id = ''s'', sv_projectId = ''p'', sv_revision = 1, sv_name = ascii ''Key'', sv_key = ascii ''KEY'',
     sv_folder = None, sv_tags = [], sv_note = None, sv_values = [(''prod'', \<lparr>bl_kid = ''prod'', bl_nonce = ''n'', bl_ct = ''c''\<rparr>)]\<rparr>"

theorem value_source_is_first_witness:
  "valueSource demo_view demo_secret ''qa'' = Some ''prod'' \<and> valueSource demo_view demo_secret ''dev'' = None"
proof -
  have step: "falls_back demo_view demo_secret ''qa'' ''prod''"
    by (simp add: falls_back_def demo_view_def demo_secret_def inherits_def demo_env_view_def environment_view_of_def Let_def)
  then have "valueSource demo_view demo_secret ''qa'' = Some ''prod''"
    using value_source_is_first [of "''qa''" demo_view demo_secret "''prod''"] by (auto simp: demo_secret_def)
  moreover have "valueSource demo_view demo_secret ''dev'' = None"
    by (simp add: valueSource_def demo_view_def demo_secret_def inherits_def demo_env_view_def environment_view_of_def Let_def)
  ultimately show ?thesis by simp
qed

end
