(* ===== verification/ProjectSync.thy ===== *)
theory ProjectSync
  imports ProjectModel ProjectProps
begin

text \<open>
  The desktop's local view of the projects an account can open:
  \<^verbatim>\<open>ProjectsSync\<close> (\<^verbatim>\<open>apps/desktop/src/projects/sync.ts\<close>). The Rust core and the
  schemas its answers go through are the argument \<open>core\<close> (\<open>None\<close> when it throws); what
  the API answers is an argument of each operation (\<open>None\<close> or \<open>SendFailed\<close> when the
  request fails). A loop over pages has fuel, and is \<open>None\<close> when it runs out.
\<close>

definition MEMBER_KEY_WRAP_KID :: string where "MEMBER_KEY_WRAP_KID = ''member-key-wrap''"

type_synonym my_keys = "stored_wrap option \<times> my_environment_key list"

record project_core =
  pc_openProject :: "project_record \<Rightarrow> stored_wrap option \<Rightarrow> project_meta option"
  pc_openEnvironment :: "id \<Rightarrow> project_entry \<Rightarrow> stored_wrap option \<Rightarrow> (environment_meta \<times> bool) option"
  pc_openFolder :: "id \<Rightarrow> id \<Rightarrow> blob \<Rightarrow> folder_meta option"
  pc_openSecret :: "id \<Rightarrow> id \<Rightarrow> blob \<Rightarrow> secret_meta option"

record tracked_project = project_state +
  tr_cursor :: nat
  tr_wraps :: "my_keys option"

datatype sync_status = SyncLoading | SyncReady | SyncFailed

record projects_store =
  sy_projects :: "(id \<times> tracked_project) list"
  sy_unreadable :: nat
  sy_status :: sync_status

fun body_type :: "entry_body \<Rightarrow> entry_type" where
  "body_type (Tombstone t) = t"
| "body_type (EnvironmentBody meta k) = EnvironmentE"
| "body_type (FolderBody meta) = FolderE"
| "body_type (SecretBody meta vs) = SecretE"

section \<open>Applying an entry\<close>

definition known_revision :: "'a project_state_scheme \<Rightarrow> entry_type \<Rightarrow> id \<Rightarrow> nat option" where
  "known_revision x t i = (case t of
     EnvironmentE \<Rightarrow> map_option vs_revision (map_of (st_environments x) i)
   | FolderE \<Rightarrow> map_option fs_revision (map_of (st_folders x) i)
   | SecretE \<Rightarrow> map_option ss_revision (map_of (st_secrets x) i))"

text \<open>A rotation re-sends the environment and its values at the same revision.\<close>

definition rekeyed :: "'a project_state_scheme \<Rightarrow> project_entry \<Rightarrow> bool" where
  "rekeyed x entry \<longleftrightarrow> (case en_body entry of
     Tombstone t \<Rightarrow> False
   | EnvironmentBody meta k \<Rightarrow> True
   | FolderBody meta \<Rightarrow> False
   | SecretBody meta vs \<Rightarrow> (\<exists>v \<in> set vs. (case map_of (st_secrets x) (en_id entry) of
         None \<Rightarrow> None
       | Some s \<Rightarrow> map_option bl_ct (map_of (ss_values s) (vr_environmentId v))) \<noteq> Some (bl_ct (vr_encryptedValue v))))"

definition forget_entry :: "entry_type \<Rightarrow> id \<Rightarrow> tracked_project \<Rightarrow> tracked_project" where
  "forget_entry t i x = (case t of
     EnvironmentE \<Rightarrow> x\<lparr>st_environments := AList.delete i (st_environments x),
       st_secrets := map (\<lambda>(j, s). (j, s\<lparr>ss_values := AList.delete i (ss_values s)\<rparr>)) (st_secrets x)\<rparr>
   | FolderE \<Rightarrow> x\<lparr>st_folders := AList.delete i (st_folders x)\<rparr>
   | SecretE \<Rightarrow> x\<lparr>st_secrets := AList.delete i (st_secrets x)\<rparr>)"

text \<open>The wrap of an environment's key that a manager left for this account.\<close>

definition wrap_of :: "id \<Rightarrow> my_keys option \<Rightarrow> stored_wrap option" where
  "wrap_of i wraps = (case wraps of
     None \<Rightarrow> None
   | Some (p, envs) \<Rightarrow> (case find (\<lambda>k. mk_environmentId k = i) envs of None \<Rightarrow> None | Some k \<Rightarrow> mk_wrap k))"

text \<open>\<open>keys\<close> is what \<^verbatim>\<open>api.myKeys\<close> answers at this moment.\<close>

definition current_wraps :: "(id \<Rightarrow> my_keys option) \<Rightarrow> project_entry \<Rightarrow> blob option \<Rightarrow> tracked_project \<Rightarrow> my_keys option" where
  "current_wraps keys entry k x =
     (if map_option bl_kid k = Some MEMBER_KEY_WRAP_KID \<and>
         (wrap_of (en_id entry) (tr_wraps x) = None \<or> known_revision x EnvironmentE (en_id entry) = Some (en_revision entry))
      then (case keys (st_id x) of None \<Rightarrow> tr_wraps x | Some w \<Rightarrow> Some w) else tr_wraps x)"

text \<open>Entries that cannot be opened are counted.\<close>

definition store_entry :: "project_core \<Rightarrow> (id \<Rightarrow> my_keys option) \<Rightarrow> project_entry \<Rightarrow>
    tracked_project \<times> nat \<Rightarrow> tracked_project \<times> nat" where
  "store_entry core keys entry xn = (case xn of (x, unreadable) \<Rightarrow> (case en_body entry of
     Tombstone t \<Rightarrow> (x, unreadable)
   | EnvironmentBody meta k \<Rightarrow>
       (let wraps = current_wraps keys entry k x; x1 = x\<lparr>tr_wraps := wraps\<rparr>
        in case pc_openEnvironment core (st_id x) entry (wrap_of (en_id entry) wraps) of
            None \<Rightarrow> (x1, unreadable + 1)
          | Some (m, unlocked) \<Rightarrow> (x1\<lparr>st_environments := AList.update (en_id entry)
              \<lparr>vs_revision = en_revision entry, vs_meta = m, vs_unlocked = unlocked\<rparr> (st_environments x1)\<rparr>, unreadable))
   | FolderBody meta \<Rightarrow> (case pc_openFolder core (st_id x) (en_id entry) meta of
         None \<Rightarrow> (x, unreadable + 1)
       | Some m \<Rightarrow> (x\<lparr>st_folders := AList.update (en_id entry) \<lparr>fs_revision = en_revision entry, fs_meta = m\<rparr>
             (st_folders x)\<rparr>, unreadable))
   | SecretBody meta vs \<Rightarrow> (case pc_openSecret core (st_id x) (en_id entry) meta of
         None \<Rightarrow> (x, unreadable + 1)
       | Some m \<Rightarrow> (x\<lparr>st_secrets := AList.update (en_id entry) \<lparr>ss_revision = en_revision entry, ss_meta = m,
             ss_values = fold (\<lambda>v. AList.update (vr_environmentId v) (vr_encryptedValue v)) vs []\<rparr> (st_secrets x)\<rparr>,
           unreadable))))"

definition apply_entry :: "project_core \<Rightarrow> (id \<Rightarrow> my_keys option) \<Rightarrow> project_entry \<Rightarrow>
    tracked_project \<times> nat \<Rightarrow> tracked_project \<times> nat" where
  "apply_entry core keys entry xn = (case xn of (x, unreadable) \<Rightarrow>
     (let t = body_type (en_body entry); known = known_revision x t (en_id entry) in
      if (case known of None \<Rightarrow> False | Some r \<Rightarrow> en_revision entry < r) then xn
      else if known = Some (en_revision entry) \<and> \<not> rekeyed x entry then xn
      else (case en_body entry of
          Tombstone t \<Rightarrow> (forget_entry t (en_id entry) x, unreadable)
        | _ \<Rightarrow> store_entry core keys entry xn)))"

section \<open>Pulling\<close>

text \<open>\<open>ask k cursor\<close> is the answer to the \<open>k\<close>-th request, or \<open>None\<close> when it fails.\<close>

fun pull_pages :: "project_core \<Rightarrow> (id \<Rightarrow> my_keys option) \<Rightarrow> (nat \<Rightarrow> nat \<Rightarrow> project_entry sync_page option) \<Rightarrow> nat \<Rightarrow> nat \<Rightarrow>
    tracked_project \<times> nat \<Rightarrow> (bool \<times> tracked_project \<times> nat) option" where
  "pull_pages core keys ask 0 k xn = None"
| "pull_pages core keys ask (Suc fuel) k xn = (case ask k (tr_cursor (fst xn)) of
     None \<Rightarrow> Some (False, xn)
   | Some page \<Rightarrow>
       (case fold (apply_entry core keys) (pg_items page) xn of (x, unreadable) \<Rightarrow>
         (let xn' = (x\<lparr>tr_cursor := pg_cursor page\<rparr>, unreadable)
          in if pg_hasMore page then pull_pages core keys ask fuel (k + 1) xn' else Some (True, xn'))))"

definition set_project :: "id \<Rightarrow> tracked_project \<times> nat \<Rightarrow> projects_store \<Rightarrow> projects_store" where
  "set_project p xn store = store\<lparr>sy_projects := AList.update p (fst xn) (sy_projects store), sy_unreadable := snd xn\<rparr>"

text \<open>Whether it succeeded, and the store it left.\<close>

definition pull_project :: "project_core \<Rightarrow> (id \<Rightarrow> my_keys option) \<Rightarrow> (nat \<Rightarrow> nat \<Rightarrow> project_entry sync_page option) \<Rightarrow> nat \<Rightarrow> id \<Rightarrow>
    projects_store \<Rightarrow> (bool \<times> projects_store) option" where
  "pull_project core keys ask fuel p store = (case map_of (sy_projects store) p of
     None \<Rightarrow> Some (False, store)
   | Some x \<Rightarrow> map_option (\<lambda>(ok, xn). (ok, set_project p xn store)) (pull_pages core keys ask fuel 0 (x, sy_unreadable store)))"

definition blank_project :: "project_record \<Rightarrow> project_meta \<Rightarrow> tracked_project" where
  "blank_project r meta = \<lparr>st_id = rc_id r, st_revision = rc_revision r, st_owner = rc_owner r, st_meta = meta,
     st_environments = [], st_folders = [], st_secrets = [], tr_cursor = 0, tr_wraps = None\<rparr>"

definition drop_project :: "id \<Rightarrow> projects_store \<Rightarrow> projects_store" where
  "drop_project p store = store\<lparr>sy_projects := AList.delete p (sy_projects store), sy_unreadable := sy_unreadable store + 1\<rparr>"

definition open_project :: "project_core \<Rightarrow> (id \<Rightarrow> my_keys option) \<Rightarrow> project_record \<Rightarrow> projects_store \<Rightarrow> bool \<times> projects_store" where
  "open_project core keys r store =
     (let wrapped = (bl_kid (rc_encryptedKey r) = MEMBER_KEY_WRAP_KID); p = rc_id r
      in if wrapped \<and> keys p = None then (False, drop_project p store)
         else
           let wraps = (if wrapped then keys p else None)
           in case pc_openProject core r (case wraps of None \<Rightarrow> None | Some w \<Rightarrow> fst w) of
                None \<Rightarrow> (False, drop_project p store)
              | Some meta \<Rightarrow>
                  (let x = (case map_of (sy_projects store) p of
                       Some known \<Rightarrow> known\<lparr>st_meta := meta, st_revision := rc_revision r, st_owner := rc_owner r, tr_wraps := wraps\<rparr>
                     | None \<Rightarrow> (blank_project r meta)\<lparr>tr_wraps := wraps\<rparr>)
                   in (True, store\<lparr>sy_projects := AList.update p x (sy_projects store)\<rparr>)))"

text \<open>The loop of \<^verbatim>\<open>load\<close> over the account's projects; it ends at the first request that fails.\<close>

fun load_projects :: "project_core \<Rightarrow> (id \<Rightarrow> my_keys option) \<Rightarrow> (id \<Rightarrow> nat \<Rightarrow> nat \<Rightarrow> project_entry sync_page option) \<Rightarrow> nat \<Rightarrow>
    project_record list \<Rightarrow> projects_store \<Rightarrow> projects_store option" where
  "load_projects core keys ask fuel [] store = Some (store\<lparr>sy_status := SyncReady\<rparr>)"
| "load_projects core keys ask fuel (r # rs) store = (case open_project core keys r store of (opened, store) \<Rightarrow>
     if \<not> opened then load_projects core keys ask fuel rs store
     else (case pull_project core keys (ask (rc_id r)) fuel (rc_id r) store of
         None \<Rightarrow> None
       | Some (ok, store) \<Rightarrow> if ok then load_projects core keys ask fuel rs store
           else Some (store\<lparr>sy_status := SyncFailed\<rparr>)))"

definition load_all :: "project_core \<Rightarrow> (id \<Rightarrow> my_keys option) \<Rightarrow> (id \<Rightarrow> nat \<Rightarrow> nat \<Rightarrow> project_entry sync_page option) \<Rightarrow> nat \<Rightarrow>
    project_record list option \<Rightarrow> projects_store \<Rightarrow> projects_store option" where
  "load_all core keys ask fuel records store = (case records of
     None \<Rightarrow> Some (store\<lparr>sy_status := SyncFailed\<rparr>)
   | Some rs \<Rightarrow> load_projects core keys ask fuel rs
       (store\<lparr>sy_projects := filter (\<lambda>(i, x). i \<in> rc_id ` set rs) (sy_projects store)\<rparr>))"

end
