(* ===== verification/PullProps.thy ===== *)
theory PullProps
  imports ProjectSync
begin

text \<open>
  The desktop's pull against the API's feed: it ends, and what it leaves is the feed.
\<close>

section \<open>Applying entries\<close>

definition is_tombstone :: "project_entry \<Rightarrow> bool" where
  "is_tombstone e = (case en_body e of Tombstone t \<Rightarrow> True | _ \<Rightarrow> False)"

abbreviation entry_kind :: "project_entry \<Rightarrow> entry_type" where "entry_kind e \<equiv> body_type (en_body e)"

text \<open>The revision a client that is up to date holds of an entry.\<close>

definition live_revision :: "project_entry \<Rightarrow> nat option" where
  "live_revision e = (if is_tombstone e then None else Some (en_revision e))"

lemma map_of_delete_list: "map_of (AList.delete i xs) j = (if i = j then None else map_of xs j)"
  by (simp add: AList.delete_conv')

lemma map_of_update_list: "map_of (AList.update i v xs) j = (if i = j then Some v else map_of xs j)"
  by (simp add: AList.update_conv')

lemma known_forget: "known_revision (forget_entry t i x) t' i' =
    (if t = t' \<and> i = i' then None else known_revision x t' i')"
  by (cases t; cases t') (auto simp: known_revision_def forget_entry_def map_of_delete_list map_of_map option.map_comp comp_def)

lemma known_wraps [simp]: "known_revision (x\<lparr>tr_wraps := w\<rparr>) t i = known_revision x t i"
  "known_revision (x\<lparr>tr_cursor := c\<rparr>) t i = known_revision x t i"
  by (cases t; simp add: known_revision_def)+

text \<open>An entry that is stored is held at its revision; one that cannot be opened is counted and changes no revision.\<close>

lemma known_store:
  assumes "\<not> is_tombstone e"
  shows "(\<forall>t i. known_revision (fst (store_entry core keys e (x, n))) t i =
        (if t = entry_kind e \<and> i = en_id e then Some (en_revision e) else known_revision x t i)) \<and>
      snd (store_entry core keys e (x, n)) = n \<or>
    (\<forall>t i. known_revision (fst (store_entry core keys e (x, n))) t i = known_revision x t i) \<and>
      snd (store_entry core keys e (x, n)) = n + 1"
proof (cases "en_body e")
  case (Tombstone k)
  then show ?thesis using assms by (simp add: is_tombstone_def)
next
  case (EnvironmentBody meta k)
  show ?thesis
  proof (cases "pc_openEnvironment core (st_id x) e (wrap_of (en_id e) (current_wraps keys e k x))")
    case None
    then show ?thesis using EnvironmentBody by (simp add: store_entry_def Let_def)
  next
    case (Some r)
    obtain m u where "r = (m, u)" by (cases r)
    then have "known_revision (fst (store_entry core keys e (x, n))) t i =
        (if t = entry_kind e \<and> i = en_id e then Some (en_revision e) else known_revision x t i) \<and>
      snd (store_entry core keys e (x, n)) = n" for t i
      using EnvironmentBody Some
      by (cases t) (simp_all add: store_entry_def Let_def known_revision_def map_of_update_list)
    then show ?thesis by blast
  qed
next
  case (FolderBody meta)
  show ?thesis
  proof (cases "pc_openFolder core (st_id x) (en_id e) meta")
    case (Some m)
    then have "known_revision (fst (store_entry core keys e (x, n))) t i =
        (if t = entry_kind e \<and> i = en_id e then Some (en_revision e) else known_revision x t i) \<and>
      snd (store_entry core keys e (x, n)) = n" for t i
      using FolderBody by (cases t) (simp_all add: store_entry_def known_revision_def map_of_update_list)
    then show ?thesis by blast
  qed (simp add: FolderBody store_entry_def)
next
  case (SecretBody meta vs)
  show ?thesis
  proof (cases "pc_openSecret core (st_id x) (en_id e) meta")
    case (Some m)
    then have "known_revision (fst (store_entry core keys e (x, n))) t i =
        (if t = entry_kind e \<and> i = en_id e then Some (en_revision e) else known_revision x t i) \<and>
      snd (store_entry core keys e (x, n)) = n" for t i
      using SecretBody by (cases t) (simp_all add: store_entry_def known_revision_def map_of_update_list)
    then show ?thesis by blast
  qed (simp add: SecretBody store_entry_def)
qed

lemma apply_entry_eq: "apply_entry core keys e (x, n) =
    (if (\<exists>r. known_revision x (entry_kind e) (en_id e) = Some r \<and> en_revision e < r) \<or>
        known_revision x (entry_kind e) (en_id e) = Some (en_revision e) \<and> \<not> rekeyed x e then (x, n)
     else if is_tombstone e then (forget_entry (entry_kind e) (en_id e) x, n)
     else store_entry core keys e (x, n))"
  by (cases "en_body e") (auto simp: apply_entry_def Let_def is_tombstone_def split: option.split)

lemma known_apply:
  assumes "\<And>r. known_revision x (entry_kind e) (en_id e) = Some r \<Longrightarrow>
    r \<le> en_revision e \<and> (is_tombstone e \<longrightarrow> r < en_revision e)"
  shows "(\<forall>t i. known_revision (fst (apply_entry core keys e (x, n))) t i =
        (if t = entry_kind e \<and> i = en_id e then live_revision e else known_revision x t i)) \<and>
      snd (apply_entry core keys e (x, n)) = n \<or>
    \<not> is_tombstone e \<and> (\<forall>t i. known_revision (fst (apply_entry core keys e (x, n))) t i = known_revision x t i) \<and>
      snd (apply_entry core keys e (x, n)) = n + 1"
proof -
  consider (same) "known_revision x (entry_kind e) (en_id e) = Some (en_revision e)" "\<not> rekeyed x e"
    | (older) "known_revision x (entry_kind e) (en_id e) \<noteq> Some (en_revision e) \<or> rekeyed x e" by blast
  then show ?thesis
  proof cases
    case same
    then show ?thesis using assms by (auto simp: apply_entry_eq live_revision_def)
  next
    case older
    then have step: "apply_entry core keys e (x, n) = (if is_tombstone e then (forget_entry (entry_kind e) (en_id e) x, n)
        else store_entry core keys e (x, n))"
      using assms by (force simp: apply_entry_eq)
    show ?thesis
    proof (cases "is_tombstone e")
      case True
      then show ?thesis by (simp add: step known_forget live_revision_def)
    next
      case False
      then show ?thesis using known_store [of e core keys x n] by (simp only: step if_False live_revision_def simp_thms)
    qed
  qed
qed

section \<open>Following a feed\<close>

text \<open>What the client holds is not ahead of the feed: nothing that is not in it, no later revision, and no entry
  whose deletion it has read.\<close>

definition not_ahead :: "project_entry list \<Rightarrow> project_entry list \<Rightarrow> tracked_project \<Rightarrow> bool" where
  "not_ahead seen unread x \<longleftrightarrow>
     (\<forall>e \<in> set seen. is_tombstone e \<longrightarrow> known_revision x (entry_kind e) (en_id e) = None) \<and>
     (\<forall>e \<in> set seen \<union> set unread. \<forall>r. known_revision x (entry_kind e) (en_id e) = Some r \<longrightarrow>
        r \<le> en_revision e \<and> (is_tombstone e \<longrightarrow> r < en_revision e)) \<and>
     (\<forall>t i. known_revision x t i \<noteq> None \<longrightarrow> (\<exists>e \<in> set seen \<union> set unread. entry_kind e = t \<and> en_id e = i))"

text \<open>The entries it does not hold as they are.\<close>

definition behind :: "tracked_project \<Rightarrow> project_entry list \<Rightarrow> project_entry list" where
  "behind x es = filter (\<lambda>e. known_revision x (entry_kind e) (en_id e) \<noteq> live_revision e) es"

lemma not_ahead_blank: "not_ahead [] feed (blank_project r meta)"
  by (auto simp: not_ahead_def known_revision_def blank_project_def split: entry_type.splits)

lemma not_ahead_cursor [simp]: "not_ahead seen unread (x\<lparr>tr_cursor := c\<rparr>) = not_ahead seen unread x"
  by (simp add: not_ahead_def)

lemma behind_cursor [simp]: "behind (x\<lparr>tr_cursor := c\<rparr>) es = behind x es" by (simp add: behind_def)

text \<open>What a stretch of the feed did: what was not brought to its state was left as it was, and counted.\<close>

definition took :: "project_entry list \<Rightarrow> project_entry list \<Rightarrow> tracked_project \<Rightarrow> nat \<Rightarrow> tracked_project \<Rightarrow> nat \<Rightarrow> bool" where
  "took seen es x n y m \<longleftrightarrow> n \<le> m \<and> m \<le> n + length es \<and> n + length (behind y (seen @ es)) \<le> m + length (behind x seen) \<and>
     (\<forall>t i. known_revision y t i = known_revision x t i \<or>
       (\<exists>e \<in> set es. entry_kind e = t \<and> en_id e = i \<and> known_revision y t i = live_revision e))"

lemma took_cursor [simp]: "took seen es x n (y\<lparr>tr_cursor := c\<rparr>) m = took seen es x n y m"
  "took seen es (x\<lparr>tr_cursor := c\<rparr>) n y m = took seen es x n y m"
  by (simp_all add: took_def)

lemma took_none: "took seen [] x n x n" by (simp add: took_def)

lemma took_then:
  assumes "took seen es x n y m" and "took (seen @ es) fs y m z k"
  shows "took seen (es @ fs) x n z k"
proof -
  have "known_revision z t i = known_revision x t i \<or>
      (\<exists>e \<in> set (es @ fs). entry_kind e = t \<and> en_id e = i \<and> known_revision z t i = live_revision e)" for t i
    using assms unfolding took_def by (metis UnCI set_append)
  then show ?thesis using assms by (simp add: took_def)
qed

lemma took_one:
  assumes "distinct (map en_id (seen @ e # unread))" and "not_ahead seen (e # unread) x"
  shows "not_ahead (seen @ [e]) unread (fst (apply_entry core keys e (x, n))) \<and>
    took seen [e] x n (fst (apply_entry core keys e (x, n))) (snd (apply_entry core keys e (x, n)))"
proof -
  let ?y = "fst (apply_entry core keys e (x, n))" and ?m = "snd (apply_entry core keys e (x, n))"
  have old: "known_revision x (entry_kind e) (en_id e) = Some r \<Longrightarrow>
      r \<le> en_revision e \<and> (is_tombstone e \<longrightarrow> r < en_revision e)" for r
    using assms(2) unfolding not_ahead_def by (meson UnI2 list.set_intros(1))
  have other: "en_id e' \<noteq> en_id e" if "e' \<in> set seen \<union> set unread" for e'
    using assms(1) that by (metis UnE distinct.simps(2) distinct_append image_eqI list.set_map list.simps(9)
        map_append not_distinct_conv_prefix)
  consider (held) "\<And>t i. known_revision ?y t i = (if t = entry_kind e \<and> i = en_id e then live_revision e else known_revision x t i)"
      "?m = n"
    | (kept) "\<not> is_tombstone e" "\<And>t i. known_revision ?y t i = known_revision x t i" "?m = n + 1"
    using known_apply [OF old, where core = core and keys = keys and n = n] by blast
  then show ?thesis
  proof cases
    case held
    have "behind ?y seen = behind x seen" unfolding behind_def held(1) by (rule filter_cong) (use other in auto)
    moreover have "behind ?y [e] = []" by (simp add: behind_def held(1))
    ultimately have "took seen [e] x n ?y ?m" by (auto simp: took_def held behind_def)
    moreover have "not_ahead (seen @ [e]) unread ?y"
      using assms(2) other unfolding not_ahead_def held(1) by (auto simp: live_revision_def split: if_splits)
    ultimately show ?thesis by blast
  next
    case kept
    have "behind ?y es = behind x es" for es by (simp add: behind_def kept(2))
    moreover have "length (behind x (seen @ [e])) \<le> 1 + length (behind x seen)" by (simp add: behind_def)
    ultimately have "took seen [e] x n ?y ?m" by (simp add: took_def kept(2,3))
    moreover have "not_ahead (seen @ [e]) unread ?y"
      using assms(2) kept(1) unfolding not_ahead_def kept(2) by auto
    ultimately show ?thesis by blast
  qed
qed

lemma took_fold:
  "distinct (map en_id (seen @ es @ unread)) \<Longrightarrow> not_ahead seen (es @ unread) x \<Longrightarrow>
    fold (apply_entry core keys) es (x, n) = (y, m) \<Longrightarrow> not_ahead (seen @ es) unread y \<and> took seen es x n y m"
proof (induction es arbitrary: seen x n)
  case Nil
  then show ?case by (simp add: took_none)
next
  case (Cons e es)
  obtain x1 n1 where one: "apply_entry core keys e (x, n) = (x1, n1)" by fastforce
  then have first: "not_ahead (seen @ [e]) (es @ unread) x1" "took seen [e] x n x1 n1"
    using took_one [of seen e "es @ unread" x core keys n] Cons.prems(1,2) by auto
  then show ?case
    using Cons.IH [of "seen @ [e]" x1 n1] Cons.prems(1,3) one took_then [OF first(2), of es y m] by simp
qed

section \<open>Pulling to the end of the feed\<close>

text \<open>What the API answers to each request for changes while nobody writes.\<close>

definition served :: "id \<Rightarrow> id \<Rightarrow> nat \<Rightarrow> time \<Rightarrow> team_db \<Rightarrow> nat \<Rightarrow> nat \<Rightarrow> project_entry sync_page option" where
  "served u p limit now db k cursor = (case fst (projects_sync u p cursor limit now db) of
     Inl e \<Rightarrow> None
   | Inr page \<Rightarrow> Some page)"

definition live_in :: "project_entry list \<Rightarrow> entry_type \<Rightarrow> id \<Rightarrow> nat option" where
  "live_in feed t i = map_option en_revision (find (\<lambda>e. en_id e = i \<and> entry_kind e = t \<and> \<not> is_tombstone e) feed)"

lemma live_in_feed:
  assumes "distinct (map en_id feed)" and "e \<in> set feed"
  shows "live_in feed (entry_kind e) (en_id e) = live_revision e"
proof (cases "find (\<lambda>a. en_id a = en_id e \<and> entry_kind a = entry_kind e \<and> \<not> is_tombstone a) feed")
  case None
  then show ?thesis using assms(2) by (auto simp: live_in_def live_revision_def find_None_iff)
next
  case (Some a)
  then have "a \<in> set feed" "en_id a = en_id e" "\<not> is_tombstone a" by (auto simp: find_Some_iff)
  moreover from this have "a = e" using assms by (simp add: distinct_map inj_on_def)
  ultimately show ?thesis using Some by (simp add: live_in_def live_revision_def)
qed

lemma took_all:
  assumes "distinct (map en_id feed)" and "not_ahead seen [] y" and "set seen = set feed" and "took old es x n y m"
    and "set es \<subseteq> set feed"
  shows "known_revision y t i = live_in feed t i \<or> live_in feed t i \<noteq> None \<and> known_revision y t i = known_revision x t i"
proof (cases "\<exists>e \<in> set es. entry_kind e = t \<and> en_id e = i \<and> known_revision y t i = live_revision e")
  case True
  then show ?thesis using live_in_feed [OF assms(1)] assms(5) by (metis subsetD)
next
  case False
  then have same: "known_revision y t i = known_revision x t i" using assms(4) unfolding took_def by blast
  show ?thesis
  proof (cases "live_in feed t i")
    case None
    have "known_revision y t i = None"
    proof (rule ccontr)
      assume "known_revision y t i \<noteq> None"
      moreover from this obtain e where e: "e \<in> set feed" "entry_kind e = t" "en_id e = i"
        using assms(2,3) unfolding not_ahead_def by (metis empty_set sup_bot_right)
      moreover have "is_tombstone e" using live_in_feed [OF assms(1) e(1)] None e by (auto simp: live_revision_def split: if_splits)
      ultimately show False using assms(2,3) unfolding not_ahead_def by auto
    qed
    then show ?thesis using None by simp
  qed (simp add: same)
qed

lemma pull_takes:
  assumes ok: "feed_ok db" and limit: "0 < limit"
    and ask: "\<And>k c. ask k c = Some (sync_page_of en_seq c limit (entry_changes p u c (limit + 1) db))"
  defines "feed \<equiv> project_feed p u db"
  shows "distinct (map en_id (seen @ filter (\<lambda>e. tr_cursor x < en_seq e) feed)) \<Longrightarrow>
    not_ahead seen (filter (\<lambda>e. tr_cursor x < en_seq e) feed) x \<Longrightarrow>
    length (filter (\<lambda>e. tr_cursor x < en_seq e) feed) < fuel \<Longrightarrow>
    \<exists>y m. pull_pages core keys ask fuel k (x, n) = Some (True, y, m) \<and>
      not_ahead (seen @ filter (\<lambda>e. tr_cursor x < en_seq e) feed) [] y \<and>
      took seen (filter (\<lambda>e. tr_cursor x < en_seq e) feed) x n y m"
proof (induction fuel arbitrary: seen k x n)
  case 0
  then show ?case by simp
next
  case (Suc fuel)
  let ?rest = "filter (\<lambda>e. tr_cursor x < en_seq e) feed"
  obtain page where page: "ask k (tr_cursor x) = Some page" "pg_items page = take limit ?rest"
      "pg_hasMore page \<longleftrightarrow> limit < length ?rest" "filter (\<lambda>e. pg_cursor page < en_seq e) feed = drop limit ?rest"
    unfolding feed_def using ask project_feed.page_items [OF ok] project_feed.page_hasMore [OF ok]
      project_feed.page_rest [OF ok limit] by blast
  obtain y m where fold: "fold (apply_entry core keys) (take limit ?rest) (x, n) = (y, m)" by fastforce
  then have y: "not_ahead (seen @ take limit ?rest) (drop limit ?rest) y" "took seen (take limit ?rest) x n y m"
    using took_fold [of seen "take limit ?rest" "drop limit ?rest" x core keys n y m] Suc.prems(1,2)
    by (simp_all only: append_take_drop_id)
  let ?y = "y\<lparr>tr_cursor := pg_cursor page\<rparr>"
  show ?case
  proof (cases "limit < length ?rest")
    case True
    have "distinct (map en_id ((seen @ take limit ?rest) @ drop limit ?rest))" using Suc.prems(1) by simp
    moreover have "length (drop limit ?rest) < fuel" using Suc.prems(3) True limit by simp
    ultimately obtain z l where z: "pull_pages core keys ask fuel (k + 1) (?y, m) = Some (True, z, l)"
        "not_ahead ((seen @ take limit ?rest) @ drop limit ?rest) [] z"
        "took (seen @ take limit ?rest) (drop limit ?rest) y m z l"
      using Suc.IH [of "seen @ take limit ?rest" ?y "k + 1" m] y by (auto simp: page)
    moreover have "took seen ?rest x n z l" using took_then [OF y(2) z(3)] by simp
    ultimately show ?thesis using True fold by (simp add: page)
  next
    case False
    then show ?thesis using y fold by (simp add: page)
  qed
qed

lemma distinct_split:
  assumes "distinct (map f xs)" and "\<And>x. P x \<Longrightarrow> \<not> Q x"
  shows "distinct (map f (filter P xs @ filter Q xs))"
  using assms by (induction xs) (auto simp: image_iff)

lemma project_feed_ids:
  assumes "unique_by pe_key (tb_entries db)"
  shows "distinct (map en_id (project_feed p u db))"
proof -
  have "map en_id (hydrateWith db p k ids rows) = map pe_id rows" for k ids rows by (simp add: hydrateWith_def)
  then have "distinct (map en_id (project_feed p u db)) = distinct (map pe_id (project_rows p db))"
    by (simp add: project_feed_def hydrate_def Let_def)
  moreover have "distinct (tb_entries db)" using assms by (simp add: unique_by_def distinct_map)
  moreover have "x = y" if "x \<in> set (project_rows p db)" "y \<in> set (project_rows p db)" "pe_id x = pe_id y" for x y
    using unique_byD [OF assms, of x y] that by (simp add: project_rows_def pe_key_def)
  ultimately show ?thesis
    by (auto simp: distinct_map inj_on_def project_rows_def)
qed


section \<open>An example\<close>

definition demo_project_core :: project_core where
  "demo_project_core = \<lparr>pc_openProject = \<lambda>r w. Some \<lparr>jm_name = [], jm_slug = [], jm_description = None, jm_color = None\<rparr>,
     pc_openEnvironment = \<lambda>p e w. Some (\<lparr>em_name = [], em_slug = [], em_kind = Custom, em_position = 0, em_color = None,
       em_inheritsFrom = None, em_sync = None\<rparr>, True),
     pc_openFolder = \<lambda>p i b. Some \<lparr>fm_name = [], fm_slug = []\<rparr>,
     pc_openSecret = \<lambda>p i b. Some \<lparr>sm_name = [], sm_key = [], sm_folderId = None, sm_tags = [], sm_note = None\<rparr>\<rparr>"

definition demo_tracked :: tracked_project where
  "demo_tracked = blank_project (project_toRecord ''olga'' (hd (listProjects ''olga'' demo_run)))
     \<lparr>jm_name = [], jm_slug = [], jm_description = None, jm_color = None\<rparr>"

lemma demo_feed:
  "\<not> isl (fst (project_access_of ''olga'' ''p'' 20 demo_run))"
  "map en_seq (project_feed ''p'' ''olga'' (snd (project_access_of ''olga'' ''p'' 20 demo_run))) = [1, 2]"
  "live_in (project_feed ''p'' ''olga'' (snd (project_access_of ''olga'' ''p'' 20 demo_run))) SecretE ''s'' = Some 1"
  unfolding demo_run_eq by code_simp+


end
