(* ===== verification/Metadata.thy ===== *)
theory Metadata
  imports ProjectModel
begin

text \<open>
  What the schemas of \<^verbatim>\<open>packages/shared/src/projects.ts\<close> accept as metadata of projects,
  environments, folders and secrets. \<open>uuid\<close> is the test of \<^verbatim>\<open>z.uuid()\<close>. The length of a text is
  its number of UTF-16 code units.
\<close>

text \<open>\<^verbatim>\<open>[a-z0-9][a-z0-9_-]*\<close>\<close>

definition is_tag :: "js_text \<Rightarrow> bool" where
  "is_tag s \<longleftrightarrow> 1 \<le> length s \<and> length s \<le> 48 \<and>
     (case s of [] \<Rightarrow> False | c # cs \<Rightarrow> slug_unit c \<and> list_all (\<lambda>c. slug_unit c \<or> c = underscore \<or> c = dash) cs)"

definition hex_digit :: "char \<Rightarrow> bool" where
  "hex_digit ch \<longleftrightarrow> (let n = of_char ch in digit_unit n \<or> 65 \<le> n \<and> n \<le> 70 \<or> 97 \<le> n \<and> n \<le> 102)"

text \<open>\<^verbatim>\<open>#[0-9A-Fa-f]{6}\<close>\<close>

definition is_hex_color :: "string \<Rightarrow> bool" where
  "is_hex_color s \<longleftrightarrow> (case s of [] \<Rightarrow> False | c # cs \<Rightarrow> c = CHR ''#'' \<and> length cs = 6 \<and> list_all hex_digit cs)"

section \<open>Sync targets\<close>

definition alnum_unit :: "nat \<Rightarrow> bool" where
  "alnum_unit c \<longleftrightarrow> upper_unit c \<or> lower_unit c \<or> digit_unit c"

text \<open>\<^verbatim>\<open>[A-Za-z0-9_.-]+/[A-Za-z0-9_.-]+\<close>\<close>

definition is_repo :: "js_text \<Rightarrow> bool" where
  "is_repo s \<longleftrightarrow> (case split_slash s of
     [a, b] \<Rightarrow> a \<noteq> [] \<and> b \<noteq> [] \<and>
       list_all (\<lambda>c. alnum_unit c \<or> c \<in> set (ascii ''_.-'')) a \<and> list_all (\<lambda>c. alnum_unit c \<or> c \<in> set (ascii ''_.-'')) b
   | _ \<Rightarrow> False)"

text \<open>\<^verbatim>\<open>[a-z0-9]+(?:-[a-z0-9]+){2,}\<close>\<close>

definition is_region :: "js_text \<Rightarrow> bool" where
  "is_region s \<longleftrightarrow> slug_from False s \<and> 2 \<le> length (filter (\<lambda>c. c = dash) s)"

definition is_secret_name :: "js_text \<Rightarrow> bool" where
  "is_secret_name s \<longleftrightarrow> 1 \<le> length s \<and> length s \<le> 512 \<and>
     list_all (\<lambda>c. alnum_unit c \<or> c \<in> set (ascii ''/_+=.@-'')) s"

fun target_ok :: "sync_target \<Rightarrow> bool" where
  "target_ok (GithubTarget i repo env auto) \<longleftrightarrow> 1 \<le> length i \<and> length i \<le> 64 \<and> length repo \<le> 201 \<and> is_repo repo \<and>
     (case env of None \<Rightarrow> True | Some e \<Rightarrow> 1 \<le> length e \<and> length e \<le> 255)"
| "target_ok (AwsTarget i region name auto) \<longleftrightarrow> 1 \<le> length i \<and> length i \<le> 64 \<and> is_region region \<and> is_secret_name name"

definition MAX_SYNC_TARGETS_PER_ENVIRONMENT :: nat where "MAX_SYNC_TARGETS_PER_ENVIRONMENT = 10"

section \<open>Metadata\<close>

abbreviation opt_ok :: "('a \<Rightarrow> bool) \<Rightarrow> 'a option \<Rightarrow> bool" where
  "opt_ok P x \<equiv> (case x of None \<Rightarrow> True | Some y \<Rightarrow> P y)"

definition name_ok :: "nat \<Rightarrow> js_text \<Rightarrow> bool" where
  "name_ok limit name \<longleftrightarrow> 1 \<le> length name \<and> length name \<le> limit"

definition project_meta_ok :: "project_meta \<Rightarrow> bool" where
  "project_meta_ok m \<longleftrightarrow> name_ok 100 (jm_name m) \<and> is_slug (jm_slug m) \<and>
     opt_ok (\<lambda>d. length d \<le> 1000) (jm_description m) \<and> opt_ok is_hex_color (jm_color m)"

definition environment_meta_ok :: "(id \<Rightarrow> bool) \<Rightarrow> environment_meta \<Rightarrow> bool" where
  "environment_meta_ok uuid m \<longleftrightarrow> name_ok 64 (em_name m) \<and> is_slug (em_slug m) \<and> em_position m \<le> 1000 \<and>
     opt_ok is_hex_color (em_color m) \<and> opt_ok uuid (em_inheritsFrom m) \<and>
     opt_ok (\<lambda>ts. length ts \<le> MAX_SYNC_TARGETS_PER_ENVIRONMENT \<and> list_all target_ok ts) (em_sync m)"

definition folder_meta_ok :: "folder_meta \<Rightarrow> bool" where
  "folder_meta_ok m \<longleftrightarrow> name_ok 64 (fm_name m) \<and> is_slug (fm_slug m)"

definition secret_meta_ok :: "(id \<Rightarrow> bool) \<Rightarrow> secret_meta \<Rightarrow> bool" where
  "secret_meta_ok uuid m \<longleftrightarrow> name_ok 200 (sm_name m) \<and> is_key_name (sm_key m) \<and> opt_ok uuid (sm_folderId m) \<and>
     length (sm_tags m) \<le> 32 \<and> list_all is_tag (sm_tags m) \<and> opt_ok (\<lambda>n. length n \<le> 4000) (sm_note m)"

text \<open>\<^verbatim>\<open>String.prototype.trim\<close> removes what \<^verbatim>\<open>\s\<close> matches.\<close>

definition trim_text :: "js_text \<Rightarrow> js_text" where
  "trim_text s = rev (dropWhile space_unit (rev (dropWhile space_unit s)))"

end
