(* ===== verification/ProjectWrites.thy ===== *)
theory ProjectWrites
  imports ProjectSync Metadata
begin

text \<open>
  The writes of the desktop's \<^verbatim>\<open>ProjectsSync\<close> (\<^verbatim>\<open>apps/desktop/src/projects/sync.ts\<close>). An
  operation answers an error or a value and leaves the local store and the outside world, whose
  type \<open>'w\<close> is a parameter: what the API answers may depend on it and change it. Sealing in the Rust core
  is \<open>None\<close> when it throws. A pull out of fuel is the error \<open>Unfinished\<close>.
\<close>

datatype project_sync_error =
    Unavailable
  | InvalidSlug
  | SlugInUse
  | FallbackLoop
  | FolderInUse nat
  | NoOwnValue
  | Malformed
  | CoreFailed
  | RequestFailed
  | Overtaken project_entry
  | Unfinished

datatype api_write =
    SendEnvironment id id nat blob "blob option"
  | SendFolder id id nat blob
  | SendSecret id id nat blob "(id \<times> blob option) list"
  | SendDelete id entry_type id nat

datatype send_result = Sent project_entry | ConflictWith project_entry | SendFailed

record seal_core =
  sc_createProject :: "project_meta \<Rightarrow> environment_meta list \<Rightarrow> new_project option"
  sc_sealProject :: "id \<Rightarrow> project_meta \<Rightarrow> blob option"
  sc_sealEnvironment :: "id \<Rightarrow> id option \<Rightarrow> environment_meta \<Rightarrow> (id \<times> blob \<times> blob option) option"
  sc_sealFolder :: "id \<Rightarrow> id option \<Rightarrow> folder_meta \<Rightarrow> (id \<times> blob) option"
  sc_sealSecret :: "id \<Rightarrow> id option \<Rightarrow> secret_meta \<Rightarrow> (id \<times> blob) option"
  sc_sealValue :: "id \<Rightarrow> id \<Rightarrow> id \<Rightarrow> js_text \<Rightarrow> blob option"
  sc_openValue :: "id \<Rightarrow> id \<Rightarrow> id \<Rightarrow> blob \<Rightarrow> js_text option"

record 'w project_io =
  io_core :: project_core
  io_seal :: seal_core
  io_keys :: "'w \<Rightarrow> id \<Rightarrow> my_keys option"
  io_page :: "'w \<Rightarrow> id \<Rightarrow> nat \<Rightarrow> nat \<Rightarrow> project_entry sync_page option"
  io_fuel :: nat
  io_send :: "'w \<Rightarrow> api_write \<Rightarrow> send_result \<times> 'w"
  io_create :: "'w \<Rightarrow> new_project \<Rightarrow> project_record option \<times> 'w"
  io_update :: "'w \<Rightarrow> id \<Rightarrow> nat \<Rightarrow> blob \<Rightarrow> project_record option \<times> 'w"
  io_delete :: "'w \<Rightarrow> id \<Rightarrow> bool \<times> 'w"
  io_history :: "'w \<Rightarrow> id \<Rightarrow> id \<Rightarrow> secret_version list option"
  io_trash :: "'w \<Rightarrow> id \<Rightarrow> trashed_secret list option"
  io_uuid :: "id \<Rightarrow> bool"
  io_nfkd :: "js_text \<Rightarrow> js_text"
  io_lower :: "js_text \<Rightarrow> js_text"

type_synonym ('a, 'w) write_outcome = "(project_sync_error, 'a, projects_store \<times> 'w) outcome"

section \<open>Sending a write\<close>

text \<open>\<^verbatim>\<open>this.apply(project, entry)\<close> on a project of the store.\<close>

definition apply_in :: "'w project_io \<Rightarrow> id \<Rightarrow> project_entry \<Rightarrow> projects_store \<times> 'w \<Rightarrow> projects_store \<times> 'w" where
  "apply_in io p entry st = (case st of (s, w) \<Rightarrow> (case map_of (sy_projects s) p of
     None \<Rightarrow> (s, w)
   | Some x \<Rightarrow> (set_project p (apply_entry (io_core io) (io_keys io w) entry (x, sy_unreadable s)) s, w)))"

definition send_write :: "'w project_io \<Rightarrow> id \<Rightarrow> api_write \<Rightarrow> projects_store \<times> 'w \<Rightarrow> (project_entry, 'w) write_outcome" where
  "send_write io p req st = (case st of (s, w) \<Rightarrow> (case io_send io w req of (answer, w') \<Rightarrow> (case answer of
     Sent entry \<Rightarrow> ret entry (apply_in io p entry (s, w'))
   | ConflictWith current \<Rightarrow> throw (Overtaken current) (apply_in io p current (s, w'))
   | SendFailed \<Rightarrow> throw RequestFailed (s, w'))))"

definition with_project :: "id \<Rightarrow> projects_store \<times> 'w \<Rightarrow> (tracked_project \<Rightarrow> ('a, 'w) write_outcome) \<Rightarrow> ('a, 'w) write_outcome" where
  "with_project p st f = (case map_of (sy_projects (fst st)) p of None \<Rightarrow> throw Unavailable st | Some x \<Rightarrow> f x)"

definition sealed :: "'b option \<Rightarrow> projects_store \<times> 'w \<Rightarrow> ('b \<Rightarrow> ('a, 'w) write_outcome) \<Rightarrow> ('a, 'w) write_outcome" where
  "sealed b st f = (case b of None \<Rightarrow> throw CoreFailed st | Some x \<Rightarrow> f x)"

text \<open>\<^verbatim>\<open>await this.pull(projectId)\<close>\<close>

definition pulled :: "'w project_io \<Rightarrow> id \<Rightarrow> projects_store \<times> 'w \<Rightarrow> (unit, 'w) write_outcome" where
  "pulled io p st = (case st of (s, w) \<Rightarrow> with_project p st (\<lambda>_.
     (case pull_project (io_core io) (io_keys io w) (io_page io w p) (io_fuel io) p s of
        None \<Rightarrow> throw Unfinished (s, w)
      | Some (ok, s') \<Rightarrow> if ok then ret () (s', w) else throw RequestFailed (s', w))))"

section \<open>Projects\<close>

record environment_draft =
  dr_name :: js_text
  dr_slug :: "js_text option"
  dr_kind :: "environment_kind option"
  dr_inheritsFrom :: "id option option"

text \<open>\<^verbatim>\<open>slug ?? uniqueSlug(slugify(name) || fallback, taken)\<close>\<close>

definition slug_or_unique :: "'w project_io \<Rightarrow> js_text option \<Rightarrow> js_text \<Rightarrow> string \<Rightarrow> js_text list \<Rightarrow> js_text option" where
  "slug_or_unique io slug name other taken = (case slug of
     Some s \<Rightarrow> Some s
   | None \<Rightarrow> (let base = slugify (io_nfkd io) (io_lower io) name in uniqueSlug (if base = [] then ascii other else base) taken))"

definition slug_error :: "js_text option \<Rightarrow> js_text list \<Rightarrow> project_sync_error option" where
  "slug_error slug taken = (case slug of
     None \<Rightarrow> None
   | Some s \<Rightarrow> if \<not> is_slug s then Some InvalidSlug else if s \<in> set taken then Some SlugInUse else None)"

text \<open>An empty slug counts as none.\<close>

definition environmentMeta :: "'w project_io \<Rightarrow> environment_draft \<Rightarrow> environment_meta list \<Rightarrow> nat \<Rightarrow> project_sync_error + environment_meta" where
  "environmentMeta io draft existing position =
     (let taken = map em_slug existing;
          slug = (case map_option trim_text (dr_slug draft) of None \<Rightarrow> None | Some s \<Rightarrow> if s = [] then None else Some s)
      in case slug_error slug taken of
           Some e \<Rightarrow> Inl e
         | None \<Rightarrow> (case slug_or_unique io slug (dr_name draft) ''environment'' taken of
             None \<Rightarrow> Inl Unfinished
           | Some s \<Rightarrow>
              (let meta = \<lparr>em_name = trim_text (dr_name draft), em_slug = s,
                     em_kind = (case dr_kind draft of None \<Rightarrow> Custom | Some k \<Rightarrow> k), em_position = position, em_color = None,
                     em_inheritsFrom = (case dr_inheritsFrom draft of None \<Rightarrow> None | Some i \<Rightarrow> i), em_sync = None\<rparr>
               in if environment_meta_ok (io_uuid io) meta then Inr meta else Inl Malformed)))"

fun environment_metas :: "'w project_io \<Rightarrow> environment_draft list \<Rightarrow> environment_meta list \<Rightarrow> project_sync_error + environment_meta list" where
  "environment_metas io [] envs = Inr envs"
| "environment_metas io (d # ds) envs = (case environmentMeta io d envs (length envs) of
     Inl e \<Rightarrow> Inl e
   | Inr m \<Rightarrow> environment_metas io ds (envs @ [m]))"

definition project_slugs :: "projects_store \<Rightarrow> js_text list" where
  "project_slugs s = map (\<lambda>(i, x). jm_slug (st_meta x)) (sy_projects s)"

definition sync_createProject :: "'w project_io \<Rightarrow> js_text \<Rightarrow> environment_draft list \<Rightarrow> js_text option \<Rightarrow>
    projects_store \<times> 'w \<Rightarrow> (id, 'w) write_outcome" where
  "sync_createProject io name drafts slug st = (case st of (s, w) \<Rightarrow>
     (let taken = project_slugs s in case slug_error slug taken of
        Some e \<Rightarrow> throw e st
      | None \<Rightarrow> (case slug_or_unique io slug name ''project'' taken of
          None \<Rightarrow> throw Unfinished st
        | Some sl \<Rightarrow>
           (let meta = \<lparr>jm_name = trim_text name, jm_slug = sl, jm_description = None, jm_color = None\<rparr>
            in if \<not> project_meta_ok meta then throw Malformed st
               else case environment_metas io drafts [] of
                  Inl e \<Rightarrow> throw e st
                | Inr envs \<Rightarrow> sealed (sc_createProject (io_seal io) meta envs) st (\<lambda>request.
                    (case io_create io w request of
                       (None, w') \<Rightarrow> throw RequestFailed (s, w')
                     | (Some r, w') \<Rightarrow> and_then
                         (pulled io (rc_id r) (s\<lparr>sy_projects := AList.update (rc_id r) (blank_project r meta) (sy_projects s)\<rparr>, w'))
                         (\<lambda>_. ret (rc_id r))))))))"

definition sync_updateProject :: "'w project_io \<Rightarrow> id \<Rightarrow> js_text option \<Rightarrow> js_text option \<Rightarrow>
    projects_store \<times> 'w \<Rightarrow> (unit, 'w) write_outcome" where
  "sync_updateProject io p name slug st = (case st of (s, w) \<Rightarrow> with_project p st (\<lambda>x.
     (let sl = (case map_option trim_text slug of None \<Rightarrow> jm_slug (st_meta x) | Some sl \<Rightarrow> sl)
      in case slug_error (Some sl) (project_slugs (s\<lparr>sy_projects := filter (\<lambda>(i, x). i \<noteq> p) (sy_projects s)\<rparr>)) of
           Some e \<Rightarrow> throw e st
         | None \<Rightarrow>
            (let meta = (st_meta x)\<lparr>jm_name := (case map_option trim_text name of None \<Rightarrow> jm_name (st_meta x) | Some n \<Rightarrow> n),
                   jm_slug := sl\<rparr>
             in if \<not> project_meta_ok meta then throw Malformed st
                else sealed (sc_sealProject (io_seal io) p meta) st (\<lambda>b.
                  (case io_update io w p (st_revision x) b of
                     (None, w') \<Rightarrow> throw RequestFailed (s, w')
                   | (Some r, w') \<Rightarrow> ret () (s\<lparr>sy_projects := AList.update p
                       (x\<lparr>st_meta := meta, st_revision := rc_revision r\<rparr>) (sy_projects s)\<rparr>, w')))))))"

definition sync_deleteProject :: "'w project_io \<Rightarrow> id \<Rightarrow> projects_store \<times> 'w \<Rightarrow> (unit, 'w) write_outcome" where
  "sync_deleteProject io p st = (case st of (s, w) \<Rightarrow> with_project p st (\<lambda>x. (case io_delete io w p of
     (ok, w') \<Rightarrow> if ok then ret () (s\<lparr>sy_projects := AList.delete p (sy_projects s)\<rparr>, w') else throw RequestFailed (s, w'))))"

section \<open>Environments\<close>

definition save_environment :: "'w project_io \<Rightarrow> id \<Rightarrow> id \<Rightarrow> nat \<Rightarrow> environment_meta \<Rightarrow>
    projects_store \<times> 'w \<Rightarrow> (unit, 'w) write_outcome" where
  "save_environment io p i revision meta st = sealed (sc_sealEnvironment (io_seal io) p (Some i) meta) st (\<lambda>(j, b, k).
     and_then (send_write io p (SendEnvironment p i revision b None) st) (\<lambda>_. ret ()))"

definition createEnvironment :: "'w project_io \<Rightarrow> id \<Rightarrow> environment_draft \<Rightarrow> projects_store \<times> 'w \<Rightarrow> (id, 'w) write_outcome" where
  "createEnvironment io p draft st = with_project p st (\<lambda>x.
     let envs = map (\<lambda>(i, e). vs_meta e) (st_environments x);
         position = min 1000 (fold (\<lambda>e m. max m (em_position e + 1)) envs 0)
     in case environmentMeta io draft envs position of
          Inl e \<Rightarrow> throw e st
        | Inr meta \<Rightarrow>
           if (case em_inheritsFrom meta of None \<Rightarrow> False | Some i \<Rightarrow> i \<noteq> '''' \<and> map_of (st_environments x) i = None)
           then throw Unavailable st
           else sealed (sc_sealEnvironment (io_seal io) p None meta) st (\<lambda>(i, b, k).
             and_then (send_write io p (SendEnvironment p i 0 b k) st) (\<lambda>entry. ret (en_id entry))))"

definition setSyncTargets :: "'w project_io \<Rightarrow> id \<Rightarrow> id \<Rightarrow> sync_target list \<Rightarrow> projects_store \<times> 'w \<Rightarrow> (unit, 'w) write_outcome" where
  "setSyncTargets io p i targets st = with_project p st (\<lambda>x. case map_of (st_environments x) i of
     None \<Rightarrow> throw Unavailable st
   | Some current \<Rightarrow>
      (let meta = (vs_meta current)\<lparr>em_sync := Some targets\<rparr>
       in if \<not> environment_meta_ok (io_uuid io) meta then throw Malformed st
          else save_environment io p i (vs_revision current)
            (if targets = [] then meta\<lparr>em_sync := None\<rparr> else meta) st))"

definition inherits_from :: "'a project_state_scheme \<Rightarrow> id \<Rightarrow> id option" where
  "inherits_from x i = (case map_of (st_environments x) i of None \<Rightarrow> None | Some e \<Rightarrow> em_inheritsFrom (vs_meta e))"

text \<open>Environments not seen yet.\<close>

definition unseen_in :: "'a project_state_scheme \<Rightarrow> id list \<Rightarrow> nat" where
  "unseen_in x seen = card (fst ` set (st_environments x) - set seen)"

lemma unseen_in_less: "i \<notin> set seen \<Longrightarrow> inherits_from x i = Some j \<Longrightarrow> unseen_in x (i # seen) < unseen_in x seen"
proof -
  assume i: "i \<notin> set seen" "inherits_from x i = Some j"
  then have "i \<in> fst ` set (st_environments x)"
    by (cases "map_of (st_environments x) i") (auto simp: inherits_from_def dest: map_of_SomeD intro: rev_image_eqI)
  with i(1) have "fst ` set (st_environments x) - set (i # seen) \<subset> fst ` set (st_environments x) - set seen" by auto
  then show ?thesis unfolding unseen_in_def by (intro psubset_card_mono) auto
qed

lemma unseen_in_le: "unseen_in x (i # seen) \<le> unseen_in x seen"
  unfolding unseen_in_def by (intro card_mono) auto

text \<open>Whether following the fall-backs from \<open>id\<close> reaches \<open>envId\<close> or loops.\<close>

function fallback_loops :: "'a project_state_scheme \<Rightarrow> id \<Rightarrow> id list \<Rightarrow> id option \<Rightarrow> bool" where
  "fallback_loops x envId seen None = False"
| "fallback_loops x envId seen (Some i) =
     (if i = '''' then False
      else if i = envId \<or> i \<in> set seen then True
      else fallback_loops x envId (i # seen) (inherits_from x i))"
  by pat_completeness auto

termination
proof (relation "measure (\<lambda>(x, envId, seen, i). unseen_in x seen + (case i of None \<Rightarrow> 0 | Some _ \<Rightarrow> 1))", simp)
  fix x :: "'a project_state_scheme" and envId seen and i :: id
  assume "\<not> (i = envId \<or> i \<in> set seen)"
  then show "((x, envId, i # seen, inherits_from x i), x, envId, seen, Some i) \<in>
      measure (\<lambda>(x, envId, seen, i). unseen_in x seen + (case i of None \<Rightarrow> 0 | Some _ \<Rightarrow> 1))"
    using unseen_in_less [of i seen x] unseen_in_le [of x i seen] by (cases "inherits_from x i") auto
qed

definition updateEnvironment :: "'w project_io \<Rightarrow> id \<Rightarrow> id \<Rightarrow> environment_draft \<Rightarrow> projects_store \<times> 'w \<Rightarrow> (unit, 'w) write_outcome" where
  "updateEnvironment io p i changes st = with_project p st (\<lambda>x. case map_of (st_environments x) i of
     None \<Rightarrow> throw Unavailable st
   | Some current \<Rightarrow>
      (let others = filter (\<lambda>(j, e). j \<noteq> i) (st_environments x);
           slug = trim_text (case dr_slug changes of None \<Rightarrow> [] | Some s \<Rightarrow> s);
           source = (case dr_inheritsFrom changes of None \<Rightarrow> em_inheritsFrom (vs_meta current) | Some j \<Rightarrow> j);
           given = (case source of None \<Rightarrow> False | Some j \<Rightarrow> j \<noteq> '''')
       in case slug_error (Some slug) (map (\<lambda>(j, e). em_slug (vs_meta e)) others) of
            Some e \<Rightarrow> throw e st
          | None \<Rightarrow>
             if given \<and> fallback_loops x i [] source then throw FallbackLoop st
             else if given \<and> map_of (st_environments x) (the source) = None then throw Unavailable st
             else
               let meta = (vs_meta current)\<lparr>em_name := trim_text (dr_name changes), em_slug := slug,
                     em_kind := (case dr_kind changes of None \<Rightarrow> em_kind (vs_meta current) | Some k \<Rightarrow> k), em_inheritsFrom := source\<rparr>
               in if \<not> environment_meta_ok (io_uuid io) meta then throw Malformed st
                  else save_environment io p i (vs_revision current) meta st))"

text \<open>A blob is never falsy, so having a value is having an entry.\<close>

definition orphanedBy :: "'a project_state_scheme \<Rightarrow> id \<Rightarrow> id list" where
  "orphanedBy x envId =
     (let others = filter (\<lambda>(i, e). i \<noteq> envId) (st_environments x)
      in if \<exists>(i, e) \<in> set others. \<not> vs_unlocked e then []
         else map fst (filter (\<lambda>(j, s). map_of (ss_values s) envId \<noteq> None \<and>
            (\<forall>(i, e) \<in> set others. map_of (ss_values s) i = None)) (st_secrets x)))"

definition secretsOnlyIn :: "id \<Rightarrow> id \<Rightarrow> projects_store \<Rightarrow> id list" where
  "secretsOnlyIn p envId s = (case map_of (sy_projects s) p of None \<Rightarrow> [] | Some x \<Rightarrow> orphanedBy x envId)"

text \<open>
  The loop over the environments, which are those the project had when it began; one that has gone
  since is not visited.
\<close>

fun move_fallbacks :: "'w project_io \<Rightarrow> id \<Rightarrow> id \<Rightarrow> id option \<Rightarrow> id list \<Rightarrow> projects_store \<times> 'w \<Rightarrow> (unit, 'w) write_outcome" where
  "move_fallbacks io p envId source [] st = ret () st"
| "move_fallbacks io p envId source (i # is) st = with_project p st (\<lambda>x. case map_of (st_environments x) i of
     None \<Rightarrow> move_fallbacks io p envId source is st
   | Some other \<Rightarrow>
       if em_inheritsFrom (vs_meta other) \<noteq> Some envId then move_fallbacks io p envId source is st
       else and_then (save_environment io p i (vs_revision other)
             ((vs_meta other)\<lparr>em_inheritsFrom := (if source = Some i then None else source)\<rparr>) st)
           (\<lambda>_. move_fallbacks io p envId source is))"

fun delete_secrets :: "'w project_io \<Rightarrow> id \<Rightarrow> id list \<Rightarrow> projects_store \<times> 'w \<Rightarrow> (unit, 'w) write_outcome" where
  "delete_secrets io p [] st = ret () st"
| "delete_secrets io p (i # is) st = with_project p st (\<lambda>x. case map_of (st_secrets x) i of
     None \<Rightarrow> delete_secrets io p is st
   | Some secret \<Rightarrow> and_then (send_write io p (SendDelete p SecretE i (ss_revision secret)) st) (\<lambda>_. delete_secrets io p is))"

definition deleteEnvironment :: "'w project_io \<Rightarrow> id \<Rightarrow> id \<Rightarrow> projects_store \<times> 'w \<Rightarrow> (unit, 'w) write_outcome" where
  "deleteEnvironment io p envId st = with_project p st (\<lambda>x. case map_of (st_environments x) envId of
     None \<Rightarrow> ret () st
   | Some env \<Rightarrow> and_then (move_fallbacks io p envId (em_inheritsFrom (vs_meta env)) (map fst (st_environments x)) st) (\<lambda>_ st.
       and_then (send_write io p (SendDelete p EnvironmentE envId (vs_revision env)) st) (\<lambda>_.
         delete_secrets io p (orphanedBy x envId))))"

section \<open>Folders\<close>

definition createFolder :: "'w project_io \<Rightarrow> id \<Rightarrow> js_text \<Rightarrow> js_text option \<Rightarrow> projects_store \<times> 'w \<Rightarrow> (id, 'w) write_outcome" where
  "createFolder io p name slug st = with_project p st (\<lambda>x.
     let taken = map (\<lambda>(i, f). fm_slug (fs_meta f)) (st_folders x) in case slug_error slug taken of
       Some e \<Rightarrow> throw e st
     | None \<Rightarrow> (case slug_or_unique io slug name ''folder'' taken of
         None \<Rightarrow> throw Unfinished st
       | Some sl \<Rightarrow>
          (let meta = \<lparr>fm_name = trim_text name, fm_slug = sl\<rparr>
           in if \<not> folder_meta_ok meta then throw Malformed st
              else sealed (sc_sealFolder (io_seal io) p None meta) st (\<lambda>(i, b).
                and_then (send_write io p (SendFolder p i 0 b) st) (\<lambda>entry. ret (en_id entry))))))"

definition updateFolder :: "'w project_io \<Rightarrow> id \<Rightarrow> id \<Rightarrow> js_text option \<Rightarrow> js_text option \<Rightarrow> projects_store \<times> 'w \<Rightarrow> (unit, 'w) write_outcome" where
  "updateFolder io p i name slug st = with_project p st (\<lambda>x. case map_of (st_folders x) i of
     None \<Rightarrow> throw Unavailable st
   | Some folder \<Rightarrow>
      (let sl = (case map_option trim_text slug of None \<Rightarrow> fm_slug (fs_meta folder) | Some sl \<Rightarrow> sl)
       in case slug_error (Some sl) (map (\<lambda>(j, f). fm_slug (fs_meta f)) (filter (\<lambda>(j, f). j \<noteq> i) (st_folders x))) of
            Some e \<Rightarrow> throw e st
          | None \<Rightarrow>
             (let meta = \<lparr>fm_name = (case map_option trim_text name of None \<Rightarrow> fm_name (fs_meta folder) | Some n \<Rightarrow> n), fm_slug = sl\<rparr>
              in if \<not> folder_meta_ok meta then throw Malformed st
                 else sealed (sc_sealFolder (io_seal io) p (Some i) meta) st (\<lambda>(j, b).
                   and_then (send_write io p (SendFolder p i (fs_revision folder) b) st) (\<lambda>_. ret ())))))"

definition deleteFolder :: "'w project_io \<Rightarrow> id \<Rightarrow> id \<Rightarrow> projects_store \<times> 'w \<Rightarrow> (unit, 'w) write_outcome" where
  "deleteFolder io p i st = with_project p st (\<lambda>x. case map_of (st_folders x) i of
     None \<Rightarrow> ret () st
   | Some folder \<Rightarrow>
      (let inside = filter (\<lambda>(j, s). sm_folderId (ss_meta s) = Some i) (st_secrets x)
       in if inside \<noteq> [] then throw (FolderInUse (length inside)) st
          else and_then (send_write io p (SendDelete p FolderE i (fs_revision folder)) st) (\<lambda>_. ret ())))"

section \<open>Secrets\<close>

definition deleteSecret :: "'w project_io \<Rightarrow> id \<Rightarrow> id \<Rightarrow> projects_store \<times> 'w \<Rightarrow> (unit, 'w) write_outcome" where
  "deleteSecret io p i st = with_project p st (\<lambda>x. case map_of (st_secrets x) i of
     None \<Rightarrow> ret () st
   | Some secret \<Rightarrow> and_then (send_write io p (SendDelete p SecretE i (ss_revision secret)) st) (\<lambda>_. ret ()))"

definition removeValue :: "'w project_io \<Rightarrow> id \<Rightarrow> id \<Rightarrow> id \<Rightarrow> projects_store \<times> 'w \<Rightarrow> (unit, 'w) write_outcome" where
  "removeValue io p i envId st = and_then (pulled io p st) (\<lambda>_ st. with_project p st (\<lambda>x. case map_of (st_secrets x) i of
     None \<Rightarrow> throw Unavailable st
   | Some secret \<Rightarrow>
       if map_of (ss_values secret) envId = None then throw NoOwnValue st
       else if filter (\<lambda>(j, v). j \<noteq> envId) (ss_values secret) = [] \<and> (\<forall>(j, e) \<in> set (st_environments x). vs_unlocked e)
       then deleteSecret io p i st
       else sealed (sc_sealSecret (io_seal io) p (Some i) (ss_meta secret)) st (\<lambda>(j, b).
         and_then (send_write io p (SendSecret p i (ss_revision secret) b [(envId, None)]) st) (\<lambda>_. ret ()))))"

record new_secret =
  nw_name :: js_text
  nw_key :: js_text
  nw_folderId :: "id option"
  nw_tags :: "js_text list"
  nw_note :: "js_text option"
  nw_values :: "(id \<times> js_text) list"

text \<open>The values sealed one by one; \<open>None\<close> when the core throws at one.\<close>

fun seal_values :: "seal_core \<Rightarrow> id \<Rightarrow> id \<Rightarrow> (id \<times> js_text) list \<Rightarrow> (id \<times> blob option) list option" where
  "seal_values core p i [] = Some []"
| "seal_values core p i ((envId, text) # vs) = (case sc_sealValue core p i envId text of
     None \<Rightarrow> None
   | Some b \<Rightarrow> map_option (Cons (envId, Some b)) (seal_values core p i vs))"

definition createSecret :: "'w project_io \<Rightarrow> id \<Rightarrow> new_secret \<Rightarrow> projects_store \<times> 'w \<Rightarrow> (id, 'w) write_outcome" where
  "createSecret io p secret st = with_project p st (\<lambda>x.
     let meta = \<lparr>sm_name = trim_text (nw_name secret), sm_key = nw_key secret, sm_folderId = nw_folderId secret,
           sm_tags = nw_tags secret, sm_note = unless_empty (nw_note secret)\<rparr>
     in if \<not> secret_meta_ok (io_uuid io) meta then throw Malformed st
        else sealed (sc_sealSecret (io_seal io) p None meta) st (\<lambda>(i, b).
          sealed (seal_values (io_seal io) p i (nw_values secret)) st (\<lambda>vs.
            and_then (send_write io p (SendSecret p i 0 b vs) st) (\<lambda>entry. ret (en_id entry)))))"

definition putSealedValue :: "'w project_io \<Rightarrow> id \<Rightarrow> id \<Rightarrow> id \<Rightarrow> blob \<Rightarrow> blob option \<Rightarrow> projects_store \<times> 'w \<Rightarrow> (unit, 'w) write_outcome" where
  "putSealedValue io p i envId sealedValue sealedMeta st = and_then (pulled io p st) (\<lambda>_ st. with_project p st (\<lambda>x.
     let existing = map_of (st_secrets x) i;
         send = (\<lambda>b. and_then (send_write io p (SendSecret p i (case existing of None \<Rightarrow> 0 | Some s \<Rightarrow> ss_revision s) b
           [(envId, Some sealedValue)]) st) (\<lambda>_. ret ()))
     in case sealedMeta of
          Some b \<Rightarrow> send b
        | None \<Rightarrow> (case existing of
            None \<Rightarrow> throw Unavailable st
          | Some s \<Rightarrow> sealed (sc_sealSecret (io_seal io) p (Some i) (ss_meta s)) st (\<lambda>(j, b). send b))))"

section \<open>History and trash\<close>

definition sync_secretHistory :: "'w project_io \<Rightarrow> id \<Rightarrow> id \<Rightarrow> projects_store \<times> 'w \<Rightarrow> ((secret_meta \<times> secret_version) list, 'w) write_outcome" where
  "sync_secretHistory io p i st = (case io_history io (snd st) p i of
     None \<Rightarrow> throw RequestFailed st
   | Some vs \<Rightarrow> ret (List.map_filter (\<lambda>v. map_option (\<lambda>m. (m, v)) (pc_openSecret (io_core io) p i (sn_encryptedMeta v))) vs) st)"

definition openHistoricValue :: "'w project_io \<Rightarrow> id \<Rightarrow> id \<Rightarrow> secret_version \<Rightarrow> id \<Rightarrow> project_sync_error + js_text" where
  "openHistoricValue io p i version envId = (case map_of (sn_values version) envId of
     None \<Rightarrow> Inl Unavailable
   | Some b \<Rightarrow> (case sc_openValue (io_seal io) p i envId b of None \<Rightarrow> Inl CoreFailed | Some v \<Rightarrow> Inr v))"

definition sync_openValue :: "'w project_io \<Rightarrow> id \<Rightarrow> id \<Rightarrow> id \<Rightarrow> projects_store \<Rightarrow> project_sync_error + js_text" where
  "sync_openValue io p i envId s =
     (case (case map_of (sy_projects s) p of None \<Rightarrow> None
       | Some x \<Rightarrow> (case map_of (st_secrets x) i of None \<Rightarrow> None | Some secret \<Rightarrow> map_of (ss_values secret) envId)) of
        None \<Rightarrow> Inl Unavailable
      | Some b \<Rightarrow> (case sc_openValue (io_seal io) p i envId b of None \<Rightarrow> Inl CoreFailed | Some v \<Rightarrow> Inr v))"

text \<open>The values that make a version current: of each environment that can be read, its own or a clearing.\<close>

definition restored_values :: "'a project_state_scheme \<Rightarrow> secret_state \<Rightarrow> secret_version \<Rightarrow> (id \<times> blob option) list" where
  "restored_values x current version = List.map_filter (\<lambda>(i, e).
     if \<not> vs_unlocked e then None
     else case map_of (sn_values version) i of
         Some old \<Rightarrow> Some (i, Some old)
       | None \<Rightarrow> if map_of (ss_values current) i \<noteq> None then Some (i, None) else None) (st_environments x)"

definition restoreSecretVersion :: "'w project_io \<Rightarrow> id \<Rightarrow> id \<Rightarrow> secret_version \<Rightarrow> projects_store \<times> 'w \<Rightarrow> (unit, 'w) write_outcome" where
  "restoreSecretVersion io p i version st = and_then (pulled io p st) (\<lambda>_ st. with_project p st (\<lambda>x. case map_of (st_secrets x) i of
     None \<Rightarrow> throw Unavailable st
   | Some current \<Rightarrow> and_then (send_write io p (SendSecret p i (ss_revision current) (sn_encryptedMeta version)
         (restored_values x current version)) st) (\<lambda>_. ret ())))"

record trashed_view =
  tw_id :: id
  tw_projectId :: id
  tw_deletedAt :: time
  tw_meta :: secret_meta
  tw_trashed :: trashed_secret

text \<open>What cannot be opened is counted, also when a later request fails.\<close>

fun project_trash_views :: "'w project_io \<Rightarrow> id list \<Rightarrow> trashed_view list \<Rightarrow> projects_store \<times> 'w \<Rightarrow> (trashed_view list, 'w) write_outcome" where
  "project_trash_views io [] views st = ret views st"
| "project_trash_views io (p # ps) views st = (case st of (s, w) \<Rightarrow> (case io_trash io w p of
     None \<Rightarrow> throw RequestFailed st
   | Some ts \<Rightarrow>
      (let opened = map (\<lambda>t. map_option (\<lambda>m. \<lparr>tw_id = ts_id t, tw_projectId = p, tw_deletedAt = ts_deletedAt t, tw_meta = m,
             tw_trashed = t\<rparr>) (pc_openSecret (io_core io) p (ts_id t) (sn_encryptedMeta (ts_lastVersion t)))) ts
       in project_trash_views io ps (views @ List.map_filter id opened)
            (s\<lparr>sy_unreadable := sy_unreadable s + length (filter (\<lambda>v. v = None) opened)\<rparr>, w))))"

definition project_trash_all :: "'w project_io \<Rightarrow> projects_store \<times> 'w \<Rightarrow> (trashed_view list, 'w) write_outcome" where
  "project_trash_all io st = and_then (project_trash_views io (map fst (sy_projects (fst st))) [] st)
     (\<lambda>views. ret (sort_key (\<lambda>v. - tw_deletedAt v) views))"

definition restoreFromTrash :: "'w project_io \<Rightarrow> id \<Rightarrow> trashed_secret \<Rightarrow> projects_store \<times> 'w \<Rightarrow> (unit, 'w) write_outcome" where
  "restoreFromTrash io p t st = and_then (pulled io p st) (\<lambda>_ st. with_project p st (\<lambda>x.
     let vs = filter (\<lambda>(i, b). case map_of (st_environments x) i of None \<Rightarrow> False | Some e \<Rightarrow> vs_unlocked e) (sn_values (ts_lastVersion t))
     in and_then (send_write io p (SendSecret p (ts_id t) (ts_revision t) (sn_encryptedMeta (ts_lastVersion t))
          (map (\<lambda>(i, b). (i, Some b)) vs)) st) (\<lambda>_. ret ())))"

section \<open>What the screens see\<close>

definition sync_snapshot :: "(js_text \<Rightarrow> nat) \<Rightarrow> projects_store \<Rightarrow> sync_status \<times> nat \<times> project_view list \<times> secret_view list" where
  "sync_snapshot collate s = (sy_status s, sy_unreadable s, toView collate (map (\<lambda>(i, x). project_state.truncate x) (sy_projects s)))"

end
