(* ===== verification/WriteProps.thy ===== *)
theory WriteProps
  imports ProjectWrites PullProps
begin

text \<open>
  What the writes of the desktop's \<^verbatim>\<open>ProjectsSync\<close> do to the local view and when they are refused.
\<close>

section \<open>Fall-backs\<close>

text \<open>One environment falls back to the other. The empty id is no environment.\<close>

definition falls_to :: "'a project_state_scheme \<Rightarrow> (id \<times> id) set" where
  "falls_to x = {(i, j). i \<noteq> '''' \<and> j \<noteq> '''' \<and> inherits_from x i = Some j}"

definition with_fallback :: "id \<Rightarrow> id option \<Rightarrow> 'a project_state_scheme \<Rightarrow> 'a project_state_scheme" where
  "with_fallback i source x = x\<lparr>st_environments := map (\<lambda>(j, e).
     (j, if j = i then e\<lparr>vs_meta := (vs_meta e)\<lparr>em_inheritsFrom := source\<rparr>\<rparr> else e)) (st_environments x)\<rparr>"

lemma falls_to_start:
  assumes "(a, k) \<in> (falls_to x)\<^sup>*" and "a \<noteq> k"
  shows "\<exists>b. inherits_from x a = Some b \<and> b \<noteq> '''' \<and> (b, k) \<in> (falls_to x)\<^sup>*"
proof -
  obtain b where "(a, b) \<in> falls_to x" "(b, k) \<in> (falls_to x)\<^sup>*"
    using assms by (meson converse_rtranclE)
  then show ?thesis by (intro exI [of _ b]) (simp add: falls_to_def)
qed

lemma fallback_loops_iff:
  "acyclic (falls_to x) \<Longrightarrow> '''' \<notin> insert envId (set seen) \<Longrightarrow> fallback_loops x envId seen source \<longleftrightarrow>
    (\<exists>j. source = Some j \<and> j \<noteq> '''' \<and> (\<exists>k \<in> insert envId (set seen). (j, k) \<in> (falls_to x)\<^sup>*))"
proof (induction x envId seen source rule: fallback_loops.induct [case_names None Some])
  case (Some x envId seen i)
  show ?case
  proof (cases "i = '''' \<or> i = envId \<or> i \<in> set seen")
    case True
    then show ?thesis using Some.prems(2) by auto
  next
    case False
    have IH: "fallback_loops x envId (i # seen) (inherits_from x i) \<longleftrightarrow>
        (\<exists>b. inherits_from x i = Some b \<and> b \<noteq> '''' \<and> (\<exists>k \<in> insert envId (set (i # seen)). (b, k) \<in> (falls_to x)\<^sup>*))"
      using False Some.prems by (intro Some.IH) auto
    have "(\<exists>b. inherits_from x i = Some b \<and> b \<noteq> '''' \<and> (\<exists>k \<in> insert envId (set (i # seen)). (b, k) \<in> (falls_to x)\<^sup>*)) \<longleftrightarrow>
        (\<exists>k \<in> insert envId (set seen). (i, k) \<in> (falls_to x)\<^sup>*)" (is "?l \<longleftrightarrow> ?r")
    proof
      assume ?l
      then obtain b k where b: "inherits_from x i = Some b" "b \<noteq> ''''" "k \<in> insert envId (set (i # seen))"
          "(b, k) \<in> (falls_to x)\<^sup>*" by blast
      then have step: "(i, b) \<in> falls_to x" using False by (simp add: falls_to_def)
      then have "(i, k) \<in> (falls_to x)\<^sup>+" using b(4) by (rule rtrancl_into_trancl2)
      moreover from this have "k \<noteq> i" using Some.prems(1) by (auto simp: acyclic_def)
      ultimately show ?r using b(3) by (intro bexI [of _ k]) auto
    next
      assume ?r
      then obtain k where k: "k \<in> insert envId (set seen)" "(i, k) \<in> (falls_to x)\<^sup>*" by blast
      moreover have "i \<noteq> k" using k(1) False by blast
      ultimately obtain b where "inherits_from x i = Some b" "b \<noteq> ''''" "(b, k) \<in> (falls_to x)\<^sup>*"
        using falls_to_start by blast
      then show ?l using k(1) by (intro exI [of _ b]) auto
    qed
    then show ?thesis using False IH by simp
  qed
qed simp

lemma inherits_with_fallback:
  assumes "map_of (st_environments x) i \<noteq> None"
  shows "inherits_from (with_fallback i source x) j = (if j = i then source else inherits_from x j)"
proof -
  have step: "map_of (map (\<lambda>(j, e). (j, if j = i then f e else e)) es) j = (if j = i then map_option f (map_of es i) else map_of es j)" for f es
    by (induction es) auto
  have envs: "st_environments (with_fallback i source x) = map (\<lambda>(j, e).
      (j, if j = i then e\<lparr>vs_meta := (vs_meta e)\<lparr>em_inheritsFrom := source\<rparr>\<rparr> else e)) (st_environments x)"
    by (simp add: with_fallback_def)
  show ?thesis
    using assms unfolding inherits_from_def envs step by (auto split: option.split)
qed

text \<open>The new fall-back closes a cycle just when its chain comes back to the environment.\<close>

lemma acyclic_with_fallback:
  assumes "acyclic (falls_to x)" and "map_of (st_environments x) i \<noteq> None" and "i \<noteq> ''''" and "j \<noteq> ''''"
  shows "acyclic (falls_to (with_fallback i (Some j) x)) \<longleftrightarrow> (j, i) \<notin> (falls_to x)\<^sup>*"
proof
  let ?y = "with_fallback i (Some j) x"
  have y: "falls_to ?y = {(a, b). if a = i then b = j else (a, b) \<in> falls_to x}"
    using assms(3,4) by (auto simp: falls_to_def inherits_with_fallback [OF assms(2)] split: if_splits)
  show "(j, i) \<notin> (falls_to x)\<^sup>* \<Longrightarrow> acyclic (falls_to ?y)"
    by (rule acyclic_subset [of "insert (i, j) (falls_to x)"]) (use assms(1) in \<open>auto simp: acyclic_insert y split: if_splits\<close>)
  show "(j, i) \<notin> (falls_to x)\<^sup>*" if acyclic: "acyclic (falls_to ?y)"
  proof
    assume returns: "(j, i) \<in> (falls_to x)\<^sup>*"
    have "(k, i) \<in> (falls_to x)\<^sup>* \<Longrightarrow> (k, i) \<in> (falls_to ?y)\<^sup>*" for k
    proof (induction rule: converse_rtrancl_induct)
      case (step a b)
      show ?case
      proof (cases "a = i")
        case False
        then have "(a, b) \<in> falls_to ?y" using step(1) by (simp add: y)
        then show ?thesis using step(3) by (rule converse_rtrancl_into_rtrancl)
      qed simp
    qed simp
    from this [OF returns] have "(j, i) \<in> (falls_to ?y)\<^sup>*" .
    moreover have "(i, j) \<in> falls_to ?y" by (simp add: y)
    ultimately have "(i, i) \<in> (falls_to ?y)\<^sup>+" by (meson rtrancl_into_trancl2)
    then show False using acyclic by (simp add: acyclic_def)
  qed
qed

lemma save_environment_errors: "fst (save_environment io p i r meta st) \<noteq> Inl FallbackLoop"
  by (auto simp: save_environment_def sealed_def send_write_def and_then_def throw_def ret_def
      split: option.split prod.split send_result.split sum.split)

text \<open>C38. Changing where an environment falls back to is refused as a loop exactly when it would make the
  environments of a project that has no loop fall back to each other.\<close>

theorem fallback_check_exact:
  assumes "map_of (sy_projects s) p = Some x" and "map_of (st_environments x) i = Some current"
    and "acyclic (falls_to x)" and "i \<noteq> ''''"
    and "dr_inheritsFrom changes = Some (Some j)" and "j \<noteq> ''''" and "dr_slug changes = Some slug"
    and "slug_error (Some (trim_text slug)) (map (\<lambda>(k, e). em_slug (vs_meta e)) (filter (\<lambda>(k, e). k \<noteq> i) (st_environments x))) = None"
  shows "fst (updateEnvironment io p i changes (s, w)) = Inl FallbackLoop \<longleftrightarrow>
    \<not> acyclic (falls_to (with_fallback i (Some j) x))"
proof -
  have "fst (updateEnvironment io p i changes (s, w)) = Inl FallbackLoop \<longleftrightarrow> fallback_loops x i [] (Some j)"
    using assms by (simp add: updateEnvironment_def with_project_def Let_def save_environment_errors throw_def)
  also have "\<dots> \<longleftrightarrow> (j, i) \<in> (falls_to x)\<^sup>*" using fallback_loops_iff [OF assms(3), of i "[]" "Some j"] assms(4,6) by simp
  finally show ?thesis using acyclic_with_fallback [OF assms(3) _ assms(4,6)] assms(2) by simp
qed

section \<open>A write that was overtaken\<close>

lemma apply_in_world: "apply_in io p e (s, w) = (s', w') \<Longrightarrow> w' = w"
  by (auto simp: apply_in_def split: option.splits)


section \<open>Deleting an environment\<close>

text \<open>An API that answers an accepted write with the entry it made, and a core that opens what it sealed.\<close>

fun answers :: "api_write \<Rightarrow> project_entry \<Rightarrow> bool" where
  "answers (SendEnvironment p i base b k) e \<longleftrightarrow> en_id e = i \<and> en_revision e = base + 1 \<and> (\<exists>k. en_body e = EnvironmentBody b k)"
| "answers (SendFolder p i base b) e \<longleftrightarrow> en_id e = i \<and> en_revision e = base + 1 \<and> en_body e = FolderBody b"
| "answers (SendSecret p i base b vs) e \<longleftrightarrow> en_id e = i \<and> en_revision e = base + 1 \<and> (\<exists>vs. en_body e = SecretBody b vs)"
| "answers (SendDelete p t i base) e \<longleftrightarrow> en_id e = i \<and> en_revision e = base + 1 \<and> en_body e = Tombstone t"

definition answers_writes :: "'w project_io \<Rightarrow> bool" where
  "answers_writes io \<longleftrightarrow> (\<forall>w req e w'. io_send io w req = (Sent e, w') \<longrightarrow> answers req e)"

definition opens_sealed :: "'w project_io \<Rightarrow> bool" where
  "opens_sealed io \<longleftrightarrow> (\<forall>p i m j b k e body. sc_sealEnvironment (io_seal io) p (Some i) m = Some (j, b, k) \<longrightarrow>
     en_id e = i \<longrightarrow> en_body e = EnvironmentBody b body \<longrightarrow>
     (\<forall>wrap. \<exists>u. pc_openEnvironment (io_core io) p e wrap = Some (m, u)))"

lemma send_write_ok:
  assumes "send_write io p req (s, w) = (Inr e, st')" and "answers_writes io" and "map_of (sy_projects s) p = Some x"
  shows "answers req e \<and> (\<exists>w'. st' = (set_project p (apply_entry (io_core io) (io_keys io w') e (x, sy_unreadable s)) s, w'))"
  using assms
  by (auto simp: send_write_def throw_def ret_def answers_writes_def apply_in_def split: prod.splits send_result.splits)

lemma st_id_apply [simp]: "st_id (fst (apply_entry core keys e (x, n))) = st_id x"
  by (auto simp: apply_entry_eq forget_entry_def store_entry_def Let_def split: entry_type.splits entry_body.splits option.splits)

lemma apply_environment:
  assumes "answers (SendEnvironment p i base b k) e" and "map_of (st_environments x) i = Some old" and "vs_revision old = base"
    and "\<And>wrap. \<exists>u. pc_openEnvironment core (st_id x) e wrap = Some (m, u)"
  shows "\<exists>e'. vs_meta e' = m \<and> st_environments (fst (apply_entry core keys e (x, n))) = AList.update i e' (st_environments x)"
proof -
  obtain k' where e: "en_id e = i" "en_revision e = base + 1" "en_body e = EnvironmentBody b k'" using assms(1) by auto
  let ?wraps = "current_wraps keys e k' x"
  obtain u where u: "pc_openEnvironment core (st_id x) e (wrap_of i ?wraps) = Some (m, u)" using assms(4) by blast
  show ?thesis
    using u assms(2,3)
    by (intro exI [of _ "\<lparr>vs_revision = base + 1, vs_meta = m, vs_unlocked = u\<rparr>"]) (simp add: apply_entry_eq known_revision_def is_tombstone_def store_entry_def Let_def e)
qed

lemma apply_gone:
  assumes "answers (SendDelete p t i base) e" and "known_revision x t i = Some base"
  shows "fst (apply_entry core keys e (x, n)) = forget_entry t i x"
  using assms by (simp add: apply_entry_eq is_tombstone_def)

text \<open>What a write leaves of the other environments.\<close>

lemma save_environment_ok:
  assumes "save_environment io p i r m st = (Inr u, st')" and "answers_writes io" and "opens_sealed io"
    and "map_of (sy_projects (fst st)) p = Some x" and "st_id x = p"
    and "map_of (st_environments x) i = Some old" and "vs_revision old = r"
  shows "\<exists>y e'. map_of (sy_projects (fst st')) p = Some y \<and> st_id y = p \<and> vs_meta e' = m \<and>
    map_of (st_environments y) = (map_of (st_environments x))(i \<mapsto> e')"
proof -
  obtain s w where st: "st = (s, w)" by (cases st)
  obtain j b k where sealing: "sc_sealEnvironment (io_seal io) p (Some i) m = Some (j, b, k)"
    using assms(1) by (auto simp: save_environment_def sealed_def throw_def split: option.splits)
  obtain e where sent: "send_write io p (SendEnvironment p i r b None) (s, w) = (Inr e, st')"
    using assms(1) by (auto simp: save_environment_def sealed_def sealing and_then_Inr_iff ret_def st)
  have "map_of (sy_projects s) p = Some x" using assms(4) st by simp
  from send_write_ok [OF sent assms(2) this] obtain w' where e: "answers (SendEnvironment p i r b None) e"
    and st': "st' = (set_project p (apply_entry (io_core io) (io_keys io w') e (x, sy_unreadable s)) s, w')" by blast
  have "\<exists>u. pc_openEnvironment (io_core io) (st_id x) e wrap = Some (m, u)" for wrap
    using assms(3) sealing e unfolding opens_sealed_def assms(5) by (metis answers.simps(1))
  from apply_environment [OF e assms(6,7) this] obtain e' where "vs_meta e' = m"
    "st_environments (fst (apply_entry (io_core io) (io_keys io w') e (x, sy_unreadable s))) = AList.update i e' (st_environments x)"
    by blast
  moreover have "map_of (sy_projects (fst st')) p = Some (fst (apply_entry (io_core io) (io_keys io w') e (x, sy_unreadable s)))"
    using st' by (simp add: set_project_def map_of_update_list)
  ultimately show ?thesis using assms(5)
    by (intro exI [of _ "fst (apply_entry (io_core io) (io_keys io w') e (x, sy_unreadable s))"] exI [of _ e'])
      (simp add: update_conv')
qed

text \<open>The environments that fall back to one.\<close>

definition falling :: "id \<Rightarrow> 'a project_state_scheme \<Rightarrow> (id \<times> environment_state) set" where
  "falling envId x = {(i, e). map_of (st_environments x) i = Some e \<and> em_inheritsFrom (vs_meta e) = Some envId}"

lemma move_fallbacks_ok:
  assumes "answers_writes io" and "opens_sealed io" and "source \<noteq> Some envId"
  shows "move_fallbacks io p envId source is st = (Inr u, st') \<Longrightarrow> map_of (sy_projects (fst st)) p = Some x \<Longrightarrow> st_id x = p \<Longrightarrow>
    map_of (st_environments x) envId = Some env \<Longrightarrow> em_inheritsFrom (vs_meta env) \<noteq> Some envId \<Longrightarrow>
    \<exists>y. map_of (sy_projects (fst st')) p = Some y \<and> st_id y = p \<and> map_of (st_environments y) envId = Some env \<and>
      falling envId y \<subseteq> falling envId x \<and> (\<forall>i \<in> set is. i \<notin> fst ` falling envId y)"
proof (induction "is" arbitrary: st x)
  case Nil
  then show ?case by (auto simp: ret_def)
next
  case (Cons i "is")
  show ?case
  proof (cases "\<exists>old. map_of (st_environments x) i = Some old \<and> em_inheritsFrom (vs_meta old) = Some envId")
    case True
    then obtain old where old: "map_of (st_environments x) i = Some old" "em_inheritsFrom (vs_meta old) = Some envId" by blast
    let ?m = "(vs_meta old)\<lparr>em_inheritsFrom := (if source = Some i then None else source)\<rparr>"
    have "and_then (save_environment io p i (vs_revision old) ?m st) (\<lambda>_. move_fallbacks io p envId source is) = (Inr u, st')"
      using Cons.prems(1,2) old by (simp add: with_project_def)
    then obtain u1 st1 where one: "save_environment io p i (vs_revision old) ?m st = (Inr u1, st1)"
        and rest: "move_fallbacks io p envId source is st1 = (Inr u, st')"
      by (auto simp: and_then_Inr_iff)
    obtain x1 e' where x1: "map_of (sy_projects (fst st1)) p = Some x1" "st_id x1 = p" "vs_meta e' = ?m"
        "map_of (st_environments x1) = (map_of (st_environments x))(i \<mapsto> e')"
      using save_environment_ok [OF one assms(1,2) Cons.prems(2,3) old(1)] by blast
    have "i \<noteq> envId" using old Cons.prems(4,5) by auto
    then have env: "map_of (st_environments x1) envId = Some env" using x1(4) Cons.prems(4) by simp
    have less: "falling envId x1 \<subseteq> falling envId x - {i} \<times> UNIV"
      using assms(3) by (auto simp: falling_def x1(3,4) split: if_splits)
    obtain y where "map_of (sy_projects (fst st')) p = Some y" "st_id y = p" "map_of (st_environments y) envId = Some env"
        "falling envId y \<subseteq> falling envId x1" "\<forall>i \<in> set is. i \<notin> fst ` falling envId y"
      using Cons.IH [OF rest x1(1,2) env Cons.prems(5)] by blast
    moreover from less this(4) have "falling envId y \<subseteq> falling envId x - {i} \<times> UNIV" by blast
    ultimately show ?thesis by (intro exI [of _ y]) auto
  next
    case False
    then have "move_fallbacks io p envId source is st = (Inr u, st')"
      using Cons.prems(1,2) by (auto simp: with_project_def split: option.splits)
    from Cons.IH [OF this Cons.prems(2-5)] obtain y where y: "map_of (sy_projects (fst st')) p = Some y" "st_id y = p"
        "map_of (st_environments y) envId = Some env" "falling envId y \<subseteq> falling envId x"
        "\<forall>i \<in> set is. i \<notin> fst ` falling envId y" by blast
    moreover have "i \<notin> fst ` falling envId x" using False by (auto simp: falling_def)
    ultimately show ?thesis by (intro exI [of _ y]) auto
  qed
qed

lemma delete_secrets_environments:
  assumes "answers_writes io"
  shows "delete_secrets io p is st = (Inr u, st') \<Longrightarrow> map_of (sy_projects (fst st)) p = Some x \<Longrightarrow>
    \<exists>y. map_of (sy_projects (fst st')) p = Some y \<and> st_environments y = st_environments x"
proof (induction "is" arbitrary: st x)
  case Nil
  then show ?case by (auto simp: ret_def)
next
  case (Cons i "is")
  obtain s w where st: "st = (s, w)" by (cases st)
  show ?case
  proof (cases "map_of (st_secrets x) i")
    case None
    then show ?thesis using Cons by (simp add: with_project_def)
  next
    case (Some secret)
    have "and_then (send_write io p (SendDelete p SecretE i (ss_revision secret)) st) (\<lambda>_. delete_secrets io p is) = (Inr u, st')"
      using Cons.prems Some by (simp add: with_project_def)
    then obtain e st1 where one: "send_write io p (SendDelete p SecretE i (ss_revision secret)) (s, w) = (Inr e, st1)"
        and rest: "delete_secrets io p is st1 = (Inr u, st')"
      by (auto simp: and_then_Inr_iff st)
    obtain w' where e: "answers (SendDelete p SecretE i (ss_revision secret)) e"
        and st1: "st1 = (set_project p (apply_entry (io_core io) (io_keys io w') e (x, sy_unreadable s)) s, w')"
      using send_write_ok [OF one assms] Cons.prems(2) st by auto
    have "fst (apply_entry (io_core io) (io_keys io w') e (x, sy_unreadable s)) = forget_entry SecretE i x"
      by (rule apply_gone [OF e]) (simp add: known_revision_def Some)
    then have "map_of (sy_projects (fst st1)) p = Some (forget_entry SecretE i x)"
      using st1 by (simp add: set_project_def map_of_update_list)
    from Cons.IH [OF rest this] show ?thesis by (simp add: forget_entry_def)
  qed
qed

text \<open>C37. When the deletion of an environment succeeds, the environment is gone from the local view and no other
  falls back to it: those that did have been moved to what it fell back to. This relies on the API
  answering an accepted write with the entry it made and on the core opening what it sealed.\<close>

theorem deleted_environment_unused:
  assumes "deleteEnvironment io p envId (s, w) = (Inr u, st')" and "answers_writes io" and "opens_sealed io"
    and "map_of (sy_projects s) p = Some x" and "st_id x = p"
    and "map_of (st_environments x) envId = Some env" and "em_inheritsFrom (vs_meta env) \<noteq> Some envId"
  shows "\<exists>y. map_of (sy_projects (fst st')) p = Some y \<and> map_of (st_environments y) envId = None \<and> falling envId y = {}"
proof -
  let ?source = "em_inheritsFrom (vs_meta env)"
  obtain u1 st1 where moved: "move_fallbacks io p envId ?source (map fst (st_environments x)) (s, w) = (Inr u1, st1)"
    and rest: "and_then (send_write io p (SendDelete p EnvironmentE envId (vs_revision env)) st1)
      (\<lambda>_. delete_secrets io p (orphanedBy x envId)) = (Inr u, st')"
    using assms(1,4,6) by (auto simp: deleteEnvironment_def with_project_def and_then_Inr_iff)
  have "map_of (sy_projects (fst (s, w))) p = Some x" using assms(4) by simp
  from move_fallbacks_ok [OF assms(2,3,7) moved this assms(5,6,7)] obtain y where y: "map_of (sy_projects (fst st1)) p = Some y"
      "map_of (st_environments y) envId = Some env" "falling envId y \<subseteq> falling envId x"
      "\<forall>i \<in> set (map fst (st_environments x)). i \<notin> fst ` falling envId y" by blast
  have "i \<in> set (map fst (st_environments x))" if "(i, e) \<in> falling envId x" for i e
    using that by (auto simp: falling_def dest!: map_of_SomeD intro: rev_image_eqI)
  then have none: "falling envId y = {}" using y(3,4) by force
  obtain s1 w1 where st1: "st1 = (s1, w1)" by (cases st1)
  obtain e st2 where gone: "send_write io p (SendDelete p EnvironmentE envId (vs_revision env)) (s1, w1) = (Inr e, st2)"
    and secrets: "delete_secrets io p (orphanedBy x envId) st2 = (Inr u, st')"
    using rest by (auto simp: and_then_Inr_iff st1)
  obtain w2 where e: "answers (SendDelete p EnvironmentE envId (vs_revision env)) e"
    and st2: "st2 = (set_project p (apply_entry (io_core io) (io_keys io w2) e (y, sy_unreadable s1)) s1, w2)"
    using send_write_ok [OF gone assms(2)] y(1) st1 by auto
  have "fst (apply_entry (io_core io) (io_keys io w2) e (y, sy_unreadable s1)) = forget_entry EnvironmentE envId y"
    by (rule apply_gone [OF e]) (simp add: known_revision_def y(2))
  then have "map_of (sy_projects (fst st2)) p = Some (forget_entry EnvironmentE envId y)"
    using st2 by (simp add: set_project_def map_of_update_list)
  from delete_secrets_environments [OF assms(2) secrets this] obtain z where z: "map_of (sy_projects (fst st')) p = Some z"
      "st_environments z = AList.delete envId (st_environments y)" by (auto simp: forget_entry_def)
  moreover have "falling envId z = {}"
    using none by (auto simp: falling_def z(2) map_of_delete_list split: if_splits)
  ultimately show ?thesis by (intro exI [of _ z]) (simp add: map_of_delete_list)
qed

section \<open>Examples\<close>

definition demo_meta :: "string \<Rightarrow> id option \<Rightarrow> environment_meta" where
  "demo_meta name source = \<lparr>em_name = ascii name, em_slug = ascii name, em_kind = Custom, em_position = 0, em_color = None,
     em_inheritsFrom = source, em_sync = None\<rparr>"

definition demo_environment :: "string \<Rightarrow> id option \<Rightarrow> environment_state" where
  "demo_environment name source = \<lparr>vs_revision = 1, vs_meta = demo_meta name source, vs_unlocked = True\<rparr>"

definition demo_local :: tracked_project where
  "demo_local = \<lparr>st_id = ''p'', st_revision = 1, st_owner = True,
     st_meta = \<lparr>jm_name = ascii ''p'', jm_slug = ascii ''p'', jm_description = None, jm_color = None\<rparr>,
     st_environments = [(''a'', demo_environment ''a'' None), (''b'', demo_environment ''b'' (Some ''a''))],
     st_folders = [], st_secrets = [], tr_cursor = 0, tr_wraps = None\<rparr>"

definition demo_store :: projects_store where
  "demo_store = \<lparr>sy_projects = [(''p'', demo_local)], sy_unreadable = 0, sy_status = SyncReady\<rparr>"

fun demo_answer :: "api_write \<Rightarrow> send_result" where
  "demo_answer (SendEnvironment p i base b k) = Sent \<lparr>en_id = i, en_projectId = p, en_revision = base + 1, en_seq = 9, en_updatedAt = 9,
     en_body = EnvironmentBody b None\<rparr>"
| "demo_answer (SendDelete p t i base) = Sent \<lparr>en_id = i, en_projectId = p, en_revision = base + 1, en_seq = 9, en_updatedAt = 9,
     en_body = Tombstone t\<rparr>"
| "demo_answer (SendFolder p i base b) = ConflictWith \<lparr>en_id = i, en_projectId = p, en_revision = base + 3, en_seq = 9, en_updatedAt = 9,
     en_body = FolderBody b\<rparr>"
| "demo_answer (SendSecret p i base b vs) = SendFailed"

text \<open>A core that seals and opens one metadata.\<close>

definition demo_io :: "unit project_io" where
  "demo_io = \<lparr>io_core = demo_project_core\<lparr>pc_openEnvironment := \<lambda>p e w. Some (demo_meta ''b'' None, True)\<rparr>,
     io_seal = \<lparr>sc_createProject = \<lambda>m es. None, sc_sealProject = \<lambda>p m. None,
       sc_sealEnvironment = \<lambda>p i m. if m = demo_meta ''b'' None then Some (''b'', demo_blob ''b'', None) else None,
       sc_sealFolder = \<lambda>p i m. None, sc_sealSecret = \<lambda>p i m. None, sc_sealValue = \<lambda>p i e v. None, sc_openValue = \<lambda>p i e b. None\<rparr>,
     io_keys = \<lambda>w p. None, io_page = \<lambda>w p k c. None, io_fuel = 0, io_send = \<lambda>w req. (demo_answer req, w),
     io_create = \<lambda>w n. (None, w), io_update = \<lambda>w p r b. (None, w), io_delete = \<lambda>w p. (False, w),
     io_history = \<lambda>w p i. None, io_trash = \<lambda>w p. None, io_uuid = \<lambda>i. True, io_nfkd = id, io_lower = id\<rparr>"

lemma demo_local_in: "map_of (sy_projects demo_store) ''p'' = Some demo_local" "st_id demo_local = ''p''"
  "map_of (st_environments demo_local) ''a'' = Some (demo_environment ''a'' None)"
  by (simp_all add: demo_store_def demo_local_def)

theorem fallback_check_exact_witness:
  "fst (updateEnvironment demo_io ''p'' ''a'' \<lparr>dr_name = ascii ''a'', dr_slug = Some (ascii ''a''), dr_kind = None,
     dr_inheritsFrom = Some (Some ''b'')\<rparr> (demo_store, ())) = Inl FallbackLoop"
proof -
  let ?changes = "\<lparr>dr_name = ascii ''a'', dr_slug = Some (ascii ''a''), dr_kind = None, dr_inheritsFrom = Some (Some ''b'')\<rparr>"
  have inherits: "inherits_from demo_local i = (if i = ''b'' then Some ''a'' else None)" for i
    by (simp add: inherits_from_def demo_local_def demo_environment_def demo_meta_def)
  then have "falls_to demo_local = {(''b'', ''a'')}" by (auto simp: falls_to_def split: if_splits)
  then have acyclic: "acyclic (falls_to demo_local)" by (simp add: acyclic_insert) (simp add: acyclic_def)
  let ?r = "falls_to (with_fallback ''a'' (Some ''b'') demo_local)"
  have "(''a'', ''b'') \<in> falls_to (with_fallback ''a'' (Some ''b'') demo_local)"
      "(''b'', ''a'') \<in> falls_to (with_fallback ''a'' (Some ''b'') demo_local)"
    by (simp_all add: falls_to_def inherits_with_fallback demo_local_in inherits)
  then have "(''a'', ''a'') \<in> ?r\<^sup>+" by (rule trancl_into_trancl [OF r_into_trancl])
  then have loop: "\<not> acyclic ?r" unfolding acyclic_def by blast
  have slug: "slug_error (Some (trim_text (ascii ''a''))) (map (\<lambda>(k, e). em_slug (vs_meta e))
      (filter (\<lambda>(k, e). k \<noteq> ''a'') (st_environments demo_local))) = None"
    by (simp add: demo_local_def demo_environment_def demo_meta_def slug_error_def trim_text_def ascii_def space_unit_def
      is_slug_def slug_unit_def lower_unit_def)
  from fallback_check_exact [OF demo_local_in(1,3) acyclic, of ?changes "''b''" "ascii ''a''" demo_io "()"] loop slug
  show ?thesis by simp
qed


theorem deleted_environment_unused_witness:
  "\<exists>y. map_of (sy_projects (fst (snd (deleteEnvironment demo_io ''p'' ''a'' (demo_store, ()))))) ''p'' = Some y \<and>
     map_of (st_environments y) ''a'' = None \<and> falling ''a'' y = {}"
proof -
  let ?s = "deleteEnvironment demo_io ''p'' ''a'' (demo_store, ())"
  have "\<not> isl (fst ?s)" by code_simp
  then obtain u where ok: "?s = (Inr u, snd ?s)" by (metis isl_def prod.exhaust_sel sum.exhaust_sel)
  have "answers req e" if "demo_answer req = Sent e" for req e using that by (cases req) auto
  then have answers: "answers_writes demo_io" by (simp add: answers_writes_def demo_io_def)
  have opens: "opens_sealed demo_io" by (auto simp: opens_sealed_def demo_io_def)
  have env: "em_inheritsFrom (vs_meta (demo_environment ''a'' None)) \<noteq> Some ''a''" by (simp add: demo_environment_def demo_meta_def)
  show ?thesis by (rule deleted_environment_unused [OF ok answers opens demo_local_in env])
qed

end
