(* ===== verification/Srp.thy ===== *)
theory Srp
  imports AuthTokens
begin

text \<open>
  SRP-6a: the server of \<^verbatim>\<open>apps/api/src/auth/srp.ts\<close> and the client it answers,
  \<^verbatim>\<open>crates/zvault-crypto/src/srp.rs\<close>. Bytes are characters, \<open>sha\<close> is SHA-256.
\<close>

section \<open>Numbers and bytes\<close>

definition N :: nat where
  "N = 0xFFFFFFFFFFFFFFFFC90FDAA22168C234C4C6628B80DC1CD129024E088A67CC74020BBEA63B139B22514A08798E3404DDEF9519B3CD3A431B302B0A6DF25F14374FE1356D6D51C245E485B576625E7EC6F44C42E9A637ED6B0BFF5CB6F406B7EDEE386BFB5A899FA5AE9F24117C4B1FE649286651ECE45B3DC2007CB8A163BF0598DA48361C55D39A69163FA8FD24CF5F83655D23DCA3AD961C62F356208552BB9ED529077096966D670C354E4ABC9804F1746C08CA18217C32905E462E36CE3BE39E772C180E86039B2783A2EC07A28FB5C55DF06F4C52C9DE2BCBF6955817183995497CEA956AE515D2261898FA051015728E5A8AAAC42DAD33170D04507A33A85521ABDF1CBA64ECFB850458DBEF0A8AEA71575D060C7DB3970F85A6E1E4C7ABF5AE8CDB0933D71E8C94E04A25619DCEE3D2261AD2EE6BF12FFA06D98A0864D87602733EC86A64521F2B18177B200CBBE117577A615D6C770988C0BAD946E208E24FA074E5AB3143DB5BFCE0FD108E4B82D120A93AD2CAFFFFFFFFFFFFFFFF"

definition G :: nat where "G = 5"

definition SRP_GROUP_BYTES :: nat where "SRP_GROUP_BYTES = 384"

definition toInt :: "string \<Rightarrow> nat" where
  "toInt bytes = fold (\<lambda>c n. 256 * n + of_char c) bytes 0"

text \<open>The last \<open>k\<close> bytes of a number, the highest first.\<close>

fun be_bytes :: "nat \<Rightarrow> nat \<Rightarrow> string" where
  "be_bytes 0 n = []"
| "be_bytes (Suc k) n = be_bytes k (n div 256) @ [char_of (n mod 256)]"

text \<open>Throws when the number does not fit.\<close>

definition pad :: "nat \<Rightarrow> string option" where
  "pad n = (if 256 ^ SRP_GROUP_BYTES \<le> n then None else Some (be_bytes SRP_GROUP_BYTES n))"

text \<open>The loop of \<^verbatim>\<open>modPow\<close>.\<close>

function mod_pow_loop :: "nat \<Rightarrow> nat \<Rightarrow> nat \<Rightarrow> nat \<Rightarrow> nat" where
  "mod_pow_loop m result base e =
     (if e = 0 then result
      else mod_pow_loop m (if e mod 2 = 1 then (result * base) mod m else result) ((base * base) mod m) (e div 2))"
  by pat_completeness auto

termination by (relation "measure (\<lambda>(m, result, base, e). e)") auto

declare mod_pow_loop.simps [simp del]

definition modPow :: "nat \<Rightarrow> nat \<Rightarrow> nat \<Rightarrow> nat" where
  "modPow base e m = mod_pow_loop m 1 (base mod m) e"

lemma mod_pow_loop_eq: "result < m \<Longrightarrow> mod_pow_loop m result base e = (result * base ^ e) mod m"
proof (induction m result base e rule: mod_pow_loop.induct)
  case (1 m result base e)
  show ?case
  proof (cases "e = 0")
    case True
    then show ?thesis using 1(2) by (simp add: mod_pow_loop.simps)
  next
    case False
    let ?r = "if e mod 2 = 1 then (result * base) mod m else result"
    have "base ^ e = (if e mod 2 = 1 then base else 1) * (base * base) ^ (e div 2)"
    proof -
      have "base ^ e = base ^ (2 * (e div 2) + e mod 2)" by simp
      also have "\<dots> = (base * base) ^ (e div 2) * base ^ (e mod 2)"
        by (simp only: power_add power_mult power2_eq_square)
      finally show ?thesis by (cases "e mod 2 = 1") (auto simp: mult.commute)
    qed
    moreover have "?r < m" using 1(2) by (auto intro: mod_less_divisor)
    then have "mod_pow_loop m ?r ((base * base) mod m) (e div 2) = (?r * ((base * base) mod m) ^ (e div 2)) mod m"
      using 1(1) [OF False] by simp
    moreover have "(?r * ((base * base) mod m) ^ (e div 2)) mod m = (?r * (base * base) ^ (e div 2)) mod m"
      by (metis mod_mult_right_eq power_mod)
    ultimately show ?thesis
      using False by (subst mod_pow_loop.simps) (auto simp: mod_mult_left_eq mult.assoc)
  qed
qed

lemma modPow_eq: "1 < m \<Longrightarrow> modPow base e m = base ^ e mod m"
  by (simp add: modPow_def mod_pow_loop_eq power_mod)

lemma length_be_bytes [simp]: "length (be_bytes k n) = k"
  by (induction k n rule: be_bytes.induct) simp_all

lemma toInt_snoc: "toInt (s @ [c]) = 256 * toInt s + of_char c"
  by (simp add: toInt_def)

lemma toInt_be_bytes: "n < 256 ^ k \<Longrightarrow> toInt (be_bytes k n) = n"
proof (induction k n rule: be_bytes.induct)
  case (2 k n)
  then have "n div 256 < 256 ^ k" by (simp add: less_mult_imp_div_less mult.commute)
  then show ?case using 2(1) by (simp add: toInt_snoc)
qed (simp add: toInt_def)

lemma pad_SomeD: "pad n = Some s \<Longrightarrow> length s = SRP_GROUP_BYTES \<and> toInt s = n"
  by (auto simp: pad_def toInt_be_bytes split: if_splits)

lemma N_fits: "N < 256 ^ SRP_GROUP_BYTES" unfolding N_def SRP_GROUP_BYTES_def by simp
lemma N_gt: "1 < N" unfolding N_def by simp

lemma pad_mod_N: "\<exists>s. pad (n mod N) = Some s \<and> length s = SRP_GROUP_BYTES \<and> toInt s = n mod N"
proof -
  have "n mod N < N" using N_gt by simp
  then have "n mod N < 256 ^ SRP_GROUP_BYTES" using N_fits by simp
  then show ?thesis by (simp add: pad_def toInt_be_bytes)
qed

section \<open>The server\<close>

unbundle bit_operations_syntax

type_synonym sha256 = "string \<Rightarrow> string"

definition srp_hash :: "sha256 \<Rightarrow> string list \<Rightarrow> string" where
  "srp_hash sha parts = sha (concat parts)"

definition srp_K :: "sha256 \<Rightarrow> nat" where
  "srp_K sha = toInt (srp_hash sha [the (pad N), the (pad G)])"

definition xor_bytes :: "string \<Rightarrow> string \<Rightarrow> string" where
  "xor_bytes s t = map (\<lambda>(a, b). char_of ((of_char a :: nat) XOR of_char b)) (zip s t)"

definition H_N_XOR_H_G :: "sha256 \<Rightarrow> string" where
  "H_N_XOR_H_G sha = xor_bytes (srp_hash sha [the (pad N)]) (srp_hash sha [[char_of G]])"

definition isValidVerifier :: "string \<Rightarrow> bool" where
  "isValidVerifier v \<longleftrightarrow> (let n = toInt v in length v = SRP_GROUP_BYTES \<and> 1 < n \<and> n < N)"

definition verifierFor :: "string \<Rightarrow> string option" where
  "verifierFor x = pad (modPow G (toInt x) N)"

text \<open>\<open>secretB\<close> is drawn at random; the public half may throw like \<^verbatim>\<open>pad\<close>.\<close>

definition createChallenge :: "sha256 \<Rightarrow> string \<Rightarrow> string \<Rightarrow> (string \<times> string) option" where
  "createChallenge sha verifier secretB =
     map_option (Pair secretB) (pad ((srp_K sha * toInt verifier + modPow G (toInt secretB) N) mod N))"

record verified_login =
  vd_serverProof :: string
  vd_sessionKey :: string

definition srp_proof :: "sha256 \<Rightarrow> string \<Rightarrow> string \<Rightarrow> string \<Rightarrow> string \<Rightarrow> string \<Rightarrow> string" where
  "srp_proof sha identity salt publicA publicB sessionKey =
     srp_hash sha [H_N_XOR_H_G sha, srp_hash sha [utf8 identity], salt, publicA, publicB, sessionKey]"

definition verifyClient :: "sha256 \<Rightarrow> string \<Rightarrow> string \<Rightarrow> string \<Rightarrow> string \<times> string \<Rightarrow> string \<Rightarrow> string \<Rightarrow> verified_login option" where
  "verifyClient sha identity salt verifier challenge publicA clientProof = (case challenge of (secretB, publicB) \<Rightarrow>
     if length publicA \<noteq> SRP_GROUP_BYTES then None
     else let a = toInt publicA in
     if a mod N = 0 then None
     else let u = toInt (srp_hash sha [publicA, publicB]) in
     if u = 0 then None
     else case pad (modPow ((a * modPow (toInt verifier) u N) mod N) (toInt secretB) N) of
         None \<Rightarrow> None
       | Some s \<Rightarrow>
          (let sessionKey = srp_hash sha [s]; expected = srp_proof sha identity salt publicA publicB sessionKey
           in if clientProof \<noteq> expected then None
              else Some \<lparr>vd_serverProof = srp_hash sha [publicA, expected, sessionKey], vd_sessionKey = sessionKey\<rparr>))"

section \<open>The client\<close>

record client_session =
  cl_publicA :: string
  cl_m1 :: string
  cl_m2 :: string
  cl_key :: string

text \<open>\<^verbatim>\<open>ClientSession::with_secret\<close>; \<open>a\<close> is drawn at random, \<open>x\<close> derived from the master password.\<close>

definition client_session :: "sha256 \<Rightarrow> nat \<Rightarrow> string \<Rightarrow> string \<Rightarrow> string \<Rightarrow> string \<Rightarrow> client_session option" where
  "client_session sha a identity salt x publicB =
     (if length publicB \<noteq> SRP_GROUP_BYTES then None
      else if toInt publicB mod N = 0 then None
      else case pad (G ^ a mod N) of None \<Rightarrow> None | Some publicA \<Rightarrow>
        (let u = toInt (srp_hash sha [publicA, publicB]) in
         if u = 0 then None
         else let kv = (srp_K sha * (G ^ toInt x mod N)) mod N;
                  base = (toInt publicB mod N + N - kv) mod N
              in case pad (base ^ (a + u * toInt x) mod N) of None \<Rightarrow> None | Some s \<Rightarrow>
                (let key = srp_hash sha [s]; m1 = srp_proof sha identity salt publicA publicB key
                 in Some \<lparr>cl_publicA = publicA, cl_m1 = m1, cl_m2 = srp_hash sha [publicA, m1, key], cl_key = key\<rparr>)))"

section \<open>Agreement\<close>

lemma mod_sub_add: "0 < n \<Longrightarrow> ((p + q) mod n + n - p mod n) mod n = q mod (n :: nat)"
proof -
  assume n: "0 < n"
  then have "p mod n \<le> (p + q) mod n + n" by (simp add: order.trans [OF mod_le_divisor])
  then have "int (((p + q) mod n + n - p mod n) mod n) = ((int p + int q) mod int n + int n - int p mod int n) mod int n"
    by (simp add: of_nat_diff zmod_int)
  also have "\<dots> = ((int p + int q) mod int n + (int n - int p)) mod int n" by (simp only: mod_diff_right_eq add_diff_eq)
  also have "\<dots> = int (q mod n)" by (simp add: mod_add_left_eq zmod_int)
  finally show ?thesis by simp
qed

lemma N_mod_5: "N = 5 * 0x333333333333333328365EED39E1C070F427AD4F19C59F5D0833A934E87B28E40068BFBAD89D856D437534E51C70CDC5FCB76B8A5C3EDA38A33BCEE2CA13040B0FF9D77C49105A0DFA81244AE0794C8E30DC0D61EE0B2F7BCF33128AFD9AF195FC71AF32454EB98789530736B2756CC7A83B47A9FC2DABD926CCE5BE86AD8C9AB82BA80AD27790B87B6AD98832A0F6464D7AAC3A5F53EF846C13CA446CE776F252F76E9B1684847C47CF3DDC7558EB34304A7C01C204D37F3D5012DAD60AF60BFA52E4A26B361ACD856E4D86FC0186E98AC112C9AFDC108EC608C2648444D16B3EB77518FBB77BC76AC3A1381E9867699DE3B6121BBBC0D5EF709E35CDA9B20A54DDD388C638F2142F658100DE9263021BC87D11790135B2BD849CB454939427EF3122E8F89B70C49FB5B7600ED446B92960C3A13890961596A332015EB534E0F8179A170C8E7BADAA063BD19E4BD335BF2D04AB1879DF7C17CEB4F35891DAFA01C6DCB9B0FABBD6A72BDF329365D01C75809039BB722A289999999999999999 + 2"
  unfolding N_def by simp

lemma coprime_5: "coprime 5 (5 * q + 2 :: nat)"
proof -
  have "gcd (5 * q + 2) 5 = gcd 5 ((5 * q + 2) mod 5)" by (rule gcd_red_nat)
  also have "(5 * q + 2) mod 5 = 2" by presburger
  also have "gcd 5 (2 :: nat) = 1" by (simp add: gcd_nat.simps)
  finally show ?thesis by (simp add: coprime_iff_gcd_eq_1 gcd.commute)
qed

lemma coprime_N: "coprime G N"
  unfolding G_def N_mod_5 by (rule coprime_5)

lemma G_pow_mod: "G ^ a mod N \<noteq> 0"
proof
  assume "G ^ a mod N = 0"
  then have "N dvd G ^ a" by (simp add: dvd_eq_mod_eq_0)
  moreover have "coprime (G ^ a) N" using coprime_N by simp
  ultimately have "N dvd 1" by (metis coprime_absorb_right coprime_commute)
  then show False using N_gt by simp
qed

lemma shared_secret:
  assumes "v = G ^ x mod N" and "A = G ^ a mod N"
  shows "(A * (v ^ u mod N) mod N) ^ b mod N = (G ^ b mod N) ^ (a + u * x) mod N"
proof -
  have "(A * (v ^ u mod N) mod N) ^ b mod N = (G ^ a * (G ^ x) ^ u) ^ b mod N"
    unfolding assms by (metis mod_mult_eq power_mod)
  also have "(G ^ a * (G ^ x) ^ u) ^ b = (G ^ b) ^ (a + u * x)"
  proof -
    have "(G ^ a * (G ^ x) ^ u) ^ b = G ^ ((a + x * u) * b)" by (simp only: power_mult power_add)
    also have "(a + x * u) * b = b * (a + u * x)" by (simp add: algebra_simps)
    finally show ?thesis by (simp only: power_mult)
  qed
  finally show ?thesis by (simp add: power_mod)
qed

lemma verifierFor_SomeD: "verifierFor x = Some v \<Longrightarrow> toInt v = G ^ toInt x mod N"
  by (auto simp: verifierFor_def modPow_eq [OF N_gt] dest: pad_SomeD)

lemma createChallenge_SomeD:
  assumes "createChallenge sha v secretB = Some (b, B)"
  shows "b = secretB \<and> length B = SRP_GROUP_BYTES \<and>
    toInt B = (srp_K sha * toInt v + G ^ toInt secretB mod N) mod N"
  using assms by (auto simp: createChallenge_def modPow_eq [OF N_gt] dest: pad_SomeD)

text \<open>Server and client of a login agree: a client that knows the \<open>x\<close> a verifier was made from and answers
  the server's challenge is accepted, both hold the same session key, and the proof the server
  returns is the one the client expects.\<close>

theorem srp_agreement:
  assumes "verifierFor x = Some v" and "createChallenge sha v secretB = Some (b, B)"
    and "client_session sha a identity salt x B = Some c"
  shows "verifyClient sha identity salt v (b, B) (cl_publicA c) (cl_m1 c) =
    Some \<lparr>vd_serverProof = cl_m2 c, vd_sessionKey = cl_key c\<rparr>"
proof -
  note v = verifierFor_SomeD [OF assms(1)]
  note B = createChallenge_SomeD [OF assms(2)]
  obtain A where A: "pad (G ^ a mod N) = Some A" "length A = SRP_GROUP_BYTES" "toInt A = G ^ a mod N"
    using pad_mod_N [of "G ^ a"] by blast
  let ?u = "toInt (srp_hash sha [A, B])"
  let ?kv = "(srp_K sha * (G ^ toInt x mod N)) mod N"
  have base: "(toInt B mod N + N - ?kv) mod N = G ^ toInt secretB mod N"
    using mod_sub_add [of N "srp_K sha * (G ^ toInt x mod N)" "G ^ toInt secretB mod N"] N_gt B v by simp
  obtain s where s: "pad ((G ^ toInt secretB mod N) ^ (a + ?u * toInt x) mod N) = Some s"
    using pad_mod_N by blast
  have secret: "(toInt A * (toInt v ^ ?u mod N) mod N) ^ toInt secretB mod N =
      (G ^ toInt secretB mod N) ^ (a + ?u * toInt x) mod N"
    by (rule shared_secret [OF v A(3)])
  let ?key = "srp_hash sha [s]" and ?m1 = "srp_proof sha identity salt A B (srp_hash sha [s])"
  have c: "?u \<noteq> 0" "c = \<lparr>cl_publicA = A, cl_m1 = ?m1, cl_m2 = srp_hash sha [A, ?m1, ?key], cl_key = ?key\<rparr>"
    using assms(3) A(1) s unfolding client_session_def by (auto simp: Let_def base split: if_splits)
  show ?thesis
    using c A(2,3) B G_pow_mod [of a] s by (simp add: verifyClient_def Let_def modPow_eq [OF N_gt] secret [unfolded A(3)])
qed

lemma client_session_answers:
  assumes "length B = SRP_GROUP_BYTES" and "toInt B mod N \<noteq> 0" and "\<And>A. toInt (srp_hash sha [A, B]) \<noteq> 0"
  shows "\<exists>c. client_session sha a identity salt x B = Some c"
proof -
  obtain A where A: "pad (G ^ a mod N) = Some A" using pad_mod_N by blast
  let ?n = "((toInt B mod N + N - (srp_K sha * (G ^ toInt x mod N)) mod N) mod N) ^ (a + toInt (srp_hash sha [A, B]) * toInt x)"
  obtain s where s: "pad (?n mod N) = Some s" using pad_mod_N by blast
  show ?thesis using assms by (simp add: client_session_def A Let_def s)
qed

lemma toInt_one: "toInt [CHR 0x01] = 1" by (simp add: toInt_def)

text \<open>What a concrete login is made of.\<close>

lemma verifierFor_total: "\<exists>v. verifierFor x = Some v"
  using pad_mod_N [of "G ^ toInt x"] by (auto simp: verifierFor_def modPow_eq [OF N_gt])

lemma createChallenge_total: "\<exists>B. createChallenge sha v secretB = Some (secretB, B)"
  using pad_mod_N [of "srp_K sha * toInt v + modPow G (toInt secretB) N"] by (auto simp: createChallenge_def)

definition one_hash :: sha256 where "one_hash s = [CHR 0x01]"

lemma small_powers: "G ^ 2 + G ^ 3 < N" "G ^ 2 mod N = G ^ 2" "G ^ 3 mod N = G ^ 3" "1 < G ^ 2" "G ^ 2 < N"
  unfolding G_def N_def by simp_all

lemma toInt_small: "toInt [CHR 0x02] = 2" "toInt [CHR 0x03] = 3" by (simp_all add: toInt_def)

lemma demo_verifier:
  assumes "verifierFor [CHR 0x02] = Some v"
  shows "isValidVerifier v"
proof -
  have "toInt v = G ^ 2" using verifierFor_SomeD [OF assms] small_powers(2) by (simp add: toInt_small)
  moreover have "length v = SRP_GROUP_BYTES" using assms by (auto simp: verifierFor_def dest: pad_SomeD)
  ultimately show ?thesis using small_powers by (simp add: isValidVerifier_def)
qed

lemma demo_client:
  assumes "verifierFor [CHR 0x02] = Some v" and "createChallenge one_hash v [CHR 0x03] = Some ([CHR 0x03], B)"
  shows "\<exists>c. client_session one_hash a identity salt [CHR 0x02] B = Some c"
proof -
  have "srp_K one_hash = 1" by (simp add: srp_K_def srp_hash_def one_hash_def toInt_one)
  then have "toInt B = G ^ 2 + G ^ 3"
    using createChallenge_SomeD [OF assms(2)] verifierFor_SomeD [OF assms(1)] small_powers by (simp add: toInt_small)
  then have "toInt B mod N \<noteq> 0" using small_powers(1) by (simp add: G_def)
  moreover have "length B = SRP_GROUP_BYTES" using createChallenge_SomeD [OF assms(2)] by blast
  moreover have "toInt (srp_hash one_hash [A, B]) \<noteq> 0" for A by (simp add: srp_hash_def one_hash_def toInt_one)
  ultimately show ?thesis by (intro client_session_answers)
qed

end
