(* ===== verification/Signup.thy ===== *)
theory Signup
  imports Srp Sessions TwoFactor Schema
begin

text \<open>
  The tables behind accounts (\<^verbatim>\<open>accounts\<close> and the rows of codes, challenges and pending logins in
  \<^verbatim>\<open>apps/api/src/db/schema.ts\<close>) and the sign-up of \<^verbatim>\<open>auth/signup.service.ts\<close>. A database default
  of \<^verbatim>\<open>now()\<close> is the \<open>now\<close> of its handler. Fresh ids, codes, tokens and random bytes are arguments,
  and \<open>sent\<close> says whether the mailer took the message. An exception no handler expects is \<open>DbError\<close>.
\<close>

section \<open>Tables\<close>

record stored_kdf =
  kd_memoryKib :: nat
  kd_iterations :: nat
  kd_parallelism :: nat
  kd_salt :: string

record login_account =
  la_id :: id
  la_email :: string
  la_secretKeyId :: string
  la_kdf :: stored_kdf
  la_srpVerifier :: string
  la_encryptedKeyset :: blob
  la_recoveryKeyset :: "blob option"
  la_recoveryVerifier :: "string option"
  la_recoveryUpdatedAt :: "time option"
  la_updatedAt :: time

text \<open>A row of \<^verbatim>\<open>email_verifications\<close>; \<^verbatim>\<open>account_recoveries\<close> has an account besides.\<close>

record mail_code =
  co_id :: id
  co_email :: string
  co_codeHash :: string
  co_attempts :: nat
  co_expiresAt :: time
  co_verifiedAt :: "time option"
  co_closedAt :: "time option"
  co_tokenHash :: "string option"
  co_tokenExpiresAt :: "time option"
  co_tokenUsedAt :: "time option"
  co_createdAt :: time

record recovery_row = mail_code +
  rr_accountId :: "id option"

record srp_challenge =
  srpc_id :: id
  srpc_accountId :: "id option"
  srpc_email :: string
  srpc_secretB :: string
  srpc_publicB :: string
  srpc_expiresAt :: time

record pending_login =
  pl_id :: id
  pl_accountId :: id
  pl_tokenHash :: string
  pl_device :: device_info
  pl_attempts :: nat
  pl_expiresAt :: time

datatype account_mail =
    VerificationCode string string
  | AlreadyRegistered string
  | RecoveryCode string string
  | RecoveryUnavailable string
  | RecoveryCodeSet string bool
  | PasswordChanged string
  | AccountRecovered string

record account_db =
  ad_accounts :: "login_account list"
  ad_verifications :: "mail_code list"
  ad_recoveries :: "recovery_row list"
  ad_challenges :: "srp_challenge list"
  ad_pending :: "pending_login list"
  ad_sessions :: "session_row list"
  ad_twoFactor :: "tf_row list"
  ad_outbox :: "account_mail list"

record account_env =
  ae_sha :: sha256
  ae_mac :: mac
  ae_secret :: string
  ae_crypto :: tf_crypto
  ae_decode :: "string \<Rightarrow> string"
  ae_encode :: "string \<Rightarrow> string"
  ae_hkdf :: "string \<Rightarrow> string \<Rightarrow> nat \<Rightarrow> string"

type_synonym 'a account_outcome = "(http_error, 'a, account_db) outcome"

definition account_by :: "string \<Rightarrow> account_db \<Rightarrow> login_account option" where
  "account_by email db = find (\<lambda>a. la_email a = email) (ad_accounts db)"

definition account_of :: "id \<Rightarrow> account_db \<Rightarrow> login_account option" where
  "account_of u db = find (\<lambda>a. la_id a = u) (ad_accounts db)"

section \<open>Codes\<close>

definition CODE_TTL_MINUTES :: int where "CODE_TTL_MINUTES = 15"
definition SIGNUP_TOKEN_TTL_MINUTES :: int where "SIGNUP_TOKEN_TTL_MINUTES = 30"
definition MAX_CODE_ATTEMPTS :: nat where "MAX_CODE_ATTEMPTS = 5"
definition RESEND_COOLDOWN_MS :: int where "RESEND_COOLDOWN_MS = 60000"
definition MAX_CODES_PER_HOUR :: nat where "MAX_CODES_PER_HOUR = 5"

text \<open>Whether the limits on codes for an email keep a new one from being issued.\<close>

definition code_refused :: "nat \<Rightarrow> int \<Rightarrow> string \<Rightarrow> time \<Rightarrow> 'a mail_code_scheme list \<Rightarrow> bool" where
  "code_refused perHour cooldown email now t =
     (let recent = map co_createdAt (filter (\<lambda>r. co_email r = email \<and> now - 3600000 < co_createdAt r) t)
      in perHour \<le> length recent \<or> (recent \<noteq> [] \<and> now - Max (set recent) < cooldown))"

definition code_open :: "'a mail_code_scheme \<Rightarrow> bool" where
  "code_open r \<longleftrightarrow> co_verifiedAt r = None \<and> co_closedAt r = None"

definition close_codes :: "string \<Rightarrow> time \<Rightarrow> 'a mail_code_scheme list \<Rightarrow> 'a mail_code_scheme list" where
  "close_codes email now = update_where (\<lambda>r. co_email r = email \<and> code_open r) (\<lambda>r. r\<lparr>co_closedAt := Some now\<rparr>)"

definition new_code :: "id \<Rightarrow> string \<Rightarrow> string \<Rightarrow> time \<Rightarrow> time option \<Rightarrow> time \<Rightarrow> 'a \<Rightarrow> 'a mail_code_scheme" where
  "new_code i email codeHash expiresAt closedAt now rest = \<lparr>co_id = i, co_email = email, co_codeHash = codeHash, co_attempts = 0,
     co_expiresAt = expiresAt, co_verifiedAt = None, co_closedAt = closedAt, co_tokenHash = None,
     co_tokenExpiresAt = None, co_tokenUsedAt = None, co_createdAt = now, \<dots> = rest\<rparr>"

text \<open>The open code of an email that was made last.\<close>

definition latest_code :: "string \<Rightarrow> time \<Rightarrow> 'a mail_code_scheme list \<Rightarrow> 'a mail_code_scheme option" where
  "latest_code email now t =
     (case sort_key (\<lambda>r. - co_createdAt r) (filter (\<lambda>r. co_email r = email \<and> code_open r \<and> now < co_expiresAt r) t) of
        [] \<Rightarrow> None
      | r # rs \<Rightarrow> Some r)"

definition count_attempt :: "nat \<Rightarrow> id \<Rightarrow> time \<Rightarrow> 'a mail_code_scheme list \<Rightarrow> 'a mail_code_scheme list" where
  "count_attempt limit i now = update_where (\<lambda>r. co_id r = i) (\<lambda>r. r\<lparr>co_attempts := co_attempts r + 1,
     co_closedAt := (if limit \<le> co_attempts r + 1 then Some now else co_closedAt r)\<rparr>)"

text \<open>Turns an open code into a token; \<open>None\<close> when it is no longer open.\<close>

definition verify_code :: "id \<Rightarrow> string \<Rightarrow> time \<Rightarrow> time \<Rightarrow> 'a mail_code_scheme list \<Rightarrow> 'a mail_code_scheme list option" where
  "verify_code i tokenHash expiresAt now t =
     (let hit = (\<lambda>r. co_id r = i \<and> code_open r)
      in if filter hit t = [] then None
         else Some (update_where hit (\<lambda>r. r\<lparr>co_verifiedAt := Some now, co_tokenHash := Some tokenHash, co_tokenExpiresAt := Some expiresAt\<rparr>) t))"

text \<open>Rows whose token is this one, not spent and not expired.\<close>

definition token_live :: "string \<Rightarrow> time \<Rightarrow> 'a mail_code_scheme \<Rightarrow> bool" where
  "token_live h now r \<longleftrightarrow> co_tokenHash r = Some h \<and> co_tokenUsedAt r = None \<and>
     (case co_tokenExpiresAt r of None \<Rightarrow> False | Some e \<Rightarrow> now < e)"

definition claim_token :: "string \<Rightarrow> time \<Rightarrow> 'a mail_code_scheme list \<Rightarrow> 'a mail_code_scheme option \<times> 'a mail_code_scheme list" where
  "claim_token h now t = (find (token_live h now) t, update_where (token_live h now) (\<lambda>r. r\<lparr>co_tokenUsedAt := Some now\<rparr>) t)"

section \<open>Sign-up\<close>

definition signup_codeHash :: "account_env \<Rightarrow> string \<Rightarrow> string \<Rightarrow> string" where
  "signup_codeHash env email code = hmac (ae_mac env) (ae_secret env) [''signup-code'', email, code]"

text \<open>\<^verbatim>\<open>hashToken\<close>: the SHA-256 of the text of a token.\<close>

definition hashToken :: "account_env \<Rightarrow> string \<Rightarrow> string" where
  "hashToken env token = ae_sha env token"

definition send_mail :: "bool \<Rightarrow> account_mail \<Rightarrow> account_db \<Rightarrow> unit account_outcome" where
  "send_mail sent m db = (if sent then ret () (db\<lparr>ad_outbox := ad_outbox db @ [m]\<rparr>)
     else throw (ServiceUnavailable ''Could not send the email. Try again shortly.'') db)"

definition signup_start :: "account_env \<Rightarrow> string \<Rightarrow> string \<Rightarrow> string \<Rightarrow> id \<Rightarrow> bool \<Rightarrow> time \<Rightarrow> account_db \<Rightarrow> unit account_outcome" where
  "signup_start env email code junk i sent now db =
     (let existing = account_by email db \<noteq> None
      in if code_refused MAX_CODES_PER_HOUR RESEND_COOLDOWN_MS email now (ad_verifications db) then ret () db
         else
           let row = new_code i email (if existing then junk else signup_codeHash env email code)
                 (minutesFromNow CODE_TTL_MINUTES now) (if existing then Some now else None) now ()
           in case insert_new co_id row (close_codes email now (ad_verifications db)) of
                None \<Rightarrow> throw (DbError ''email_verifications'') db
              | Some t \<Rightarrow> send_mail sent (if existing then AlreadyRegistered email else VerificationCode email code)
                  (db\<lparr>ad_verifications := t\<rparr>))"

definition INVALID_CODE :: string where
  "INVALID_CODE = ''That code is incorrect or has expired. Request a new one and try again.''"

text \<open>\<^verbatim>\<open>verify\<close> after the open code was read: parallel requests may get between the two.\<close>

definition signup_settle :: "account_env \<Rightarrow> string \<Rightarrow> string \<Rightarrow> string \<Rightarrow> mail_code \<Rightarrow> time \<Rightarrow> account_db \<Rightarrow>
    (string \<times> time) account_outcome" where
  "signup_settle env email code token pending now db =
     (if co_codeHash pending \<noteq> signup_codeHash env email code
      then throw (BadRequest INVALID_CODE)
        (db\<lparr>ad_verifications := count_attempt MAX_CODE_ATTEMPTS (co_id pending) now (ad_verifications db)\<rparr>)
      else let expiresAt = minutesFromNow SIGNUP_TOKEN_TTL_MINUTES now in
        case verify_code (co_id pending) (hashToken env token) expiresAt now (ad_verifications db) of
          None \<Rightarrow> throw (BadRequest INVALID_CODE) db
        | Some t \<Rightarrow>
            if Some (hashToken env token) \<in> co_tokenHash ` set (ad_verifications db) then throw (DbError ''token_hash'') db
            else ret (token, expiresAt) (db\<lparr>ad_verifications := t\<rparr>))"

definition signup_verify :: "account_env \<Rightarrow> string \<Rightarrow> string \<Rightarrow> string \<Rightarrow> time \<Rightarrow> account_db \<Rightarrow> (string \<times> time) account_outcome" where
  "signup_verify env email code token now db = (case latest_code email now (ad_verifications db) of
     None \<Rightarrow> throw (BadRequest INVALID_CODE) db
   | Some pending \<Rightarrow> signup_settle env email code token pending now db)"

record signup_complete_req =
  sq_signupToken :: string
  sq_secretKeyId :: string
  sq_kdf :: stored_kdf
  sq_srpVerifier :: string
  sq_encryptedKeyset :: blob

definition signup_complete :: "account_env \<Rightarrow> signup_complete_req \<Rightarrow> id \<Rightarrow> time \<Rightarrow> account_db \<Rightarrow> id account_outcome" where
  "signup_complete env req newId now db =
     (let verifier = ae_decode env (sq_srpVerifier req)
      in if \<not> isValidVerifier verifier then throw (BadRequest ''Invalid SRP verifier'') db
         else transact db (case claim_token (hashToken env (sq_signupToken req)) now (ad_verifications db) of
             (None, t) \<Rightarrow> throw (BadRequest ''This sign-up has expired. Verify your email again.'') db
           | (Some claim, t) \<Rightarrow>
               let db = db\<lparr>ad_verifications := t\<rparr>;
                   a = \<lparr>la_id = newId, la_email = co_email claim, la_secretKeyId = sq_secretKeyId req, la_kdf = sq_kdf req,
                     la_srpVerifier = verifier, la_encryptedKeyset = sq_encryptedKeyset req, la_recoveryKeyset = None,
                     la_recoveryVerifier = None, la_recoveryUpdatedAt = None, la_updatedAt = now\<rparr>
               in if account_by (co_email claim) db \<noteq> None
                  then throw (Conflict ''An account with this email already exists.'') db
                  else if account_of newId db \<noteq> None then throw (DbError ''accounts_pkey'') db
                  else ret newId (db\<lparr>ad_accounts := ad_accounts db @ [a]\<rparr>)))"

end
