(* ===== verification/Login.thy ===== *)
theory Login
  imports Signup
begin

text \<open>
  Login by SRP (\<^verbatim>\<open>apps/api/src/auth/login.service.ts\<close>): a challenge, the client's proof, and the
  second factor's code for accounts that have one. \<open>secretB\<close>, ids and tokens are the random values
  a request draws; one request uses one of the two pairs of id and token it could draw.
\<close>

definition CHALLENGE_TTL_MINUTES :: int where "CHALLENGE_TTL_MINUTES = 2"
definition TWO_FACTOR_CHALLENGE_TTL_MINUTES :: int where "TWO_FACTOR_CHALLENGE_TTL_MINUTES = 5"
definition TWO_FACTOR_CHALLENGE_MAX_ATTEMPTS :: nat where "TWO_FACTOR_CHALLENGE_MAX_ATTEMPTS = 5"
definition TWO_FACTOR_EXPIRED :: string where "TWO_FACTOR_EXPIRED = ''Your sign-in expired. Sign in again.''"
definition LOGIN_FAILED :: string where "LOGIN_FAILED = ''Incorrect email, master password or Secret Key.''"
definition WRONG_PASSWORD :: string where "WRONG_PASSWORD = ''Incorrect master password.''"

section \<open>Challenges\<close>

text \<open>\<open>KDF_DEFAULTS\<close> with a salt.\<close>

definition kdf_defaults :: "string \<Rightarrow> stored_kdf" where
  "kdf_defaults salt = \<lparr>kd_memoryKib = 256 * 1024, kd_iterations = 3, kd_parallelism = 4, kd_salt = salt\<rparr>"

definition decoy :: "account_env \<Rightarrow> string \<Rightarrow> (stored_kdf \<times> string) option" where
  "decoy env email =
     (let key = hmac (ae_mac env) (ae_secret env) [''login-decoy'', email];
          salt = ae_hkdf env key ''salt'' 16;
          v = ae_hkdf env key ''verifier'' SRP_GROUP_BYTES
      in map_option (Pair (kdf_defaults (ae_encode env salt))) (pad (toInt v div 256)))"

text \<open>The KDF parameters and verifier a challenge is made for.\<close>

definition kdf_and_verifier :: "account_env \<Rightarrow> login_account option \<Rightarrow> string \<Rightarrow> (stored_kdf \<times> string) option" where
  "kdf_and_verifier env account email = (case account of
     Some a \<Rightarrow> Some (la_kdf a, la_srpVerifier a)
   | None \<Rightarrow> decoy env email)"

record login_start_response =
  lr_loginId :: id
  lr_kdf :: stored_kdf
  lr_srpB :: string

definition login_start :: "account_env \<Rightarrow> string \<Rightarrow> string \<Rightarrow> id \<Rightarrow> time \<Rightarrow> account_db \<Rightarrow> login_start_response account_outcome" where
  "login_start env email secretB newId now db =
     (let db = db\<lparr>ad_challenges := delete_where (\<lambda>c. srpc_expiresAt c < now) (ad_challenges db)\<rparr>;
          account = account_by email db
      in case kdf_and_verifier env account email of
           None \<Rightarrow> throw (DbError ''pad'') db
         | Some (kdf, verifier) \<Rightarrow> (case createChallenge (ae_sha env) verifier secretB of
             None \<Rightarrow> throw (DbError ''pad'') db
           | Some (b, B) \<Rightarrow>
               let row = \<lparr>srpc_id = newId, srpc_accountId = map_option la_id account, srpc_email = email, srpc_secretB = b,
                     srpc_publicB = B, srpc_expiresAt = minutesFromNow CHALLENGE_TTL_MINUTES now\<rparr>
               in case insert_new srpc_id row (ad_challenges db) of
                    None \<Rightarrow> throw (DbError ''srp_challenges_pkey'') db
                  | Some t \<Rightarrow> ret \<lparr>lr_loginId = newId, lr_kdf = kdf, lr_srpB = ae_encode env B\<rparr> (db\<lparr>ad_challenges := t\<rparr>)))"

text \<open>\<^verbatim>\<open>delete .. where id = loginId .. returning\<close>: each challenge can be tried once.\<close>

definition take_challenge :: "id \<Rightarrow> account_db \<Rightarrow> srp_challenge option \<times> account_db" where
  "take_challenge i db = (find (\<lambda>c. srpc_id c = i) (ad_challenges db),
     db\<lparr>ad_challenges := delete_where (\<lambda>c. srpc_id c = i) (ad_challenges db)\<rparr>)"

text \<open>\<^verbatim>\<open>verifyClient\<close> on a request's base64url values.\<close>

definition verify_proof :: "account_env \<Rightarrow> srp_challenge \<Rightarrow> stored_kdf \<Rightarrow> string \<Rightarrow> string \<Rightarrow> string \<Rightarrow> verified_login option" where
  "verify_proof env c kdf verifier srpA srpM1 =
     verifyClient (ae_sha env) (srpc_email c) (ae_decode env (kd_salt kdf)) verifier (srpc_secretB c, srpc_publicB c)
       (ae_decode env srpA) (ae_decode env srpM1)"

section \<open>Sessions and the second factor\<close>

record opened_session =
  os_sessionToken :: string
  os_expiresAt :: time
  os_accountId :: id
  os_encryptedKeyset :: blob

definition issue_session :: "account_env \<Rightarrow> id \<Rightarrow> device_info \<Rightarrow> id \<Rightarrow> string \<Rightarrow> time \<Rightarrow> account_db \<Rightarrow> session account_outcome" where
  "issue_session env accountId device newId token now db =
     (case ds_issue (ae_sha env) accountId device now newId token (ad_sessions db) of
        (None, t) \<Rightarrow> throw (DbError ''sessions'') db
      | (Some s, t) \<Rightarrow> ret s (db\<lparr>ad_sessions := t\<rparr>))"

definition openSession :: "account_env \<Rightarrow> login_account \<Rightarrow> device_info \<Rightarrow> id \<Rightarrow> string \<Rightarrow> time \<Rightarrow> account_db \<Rightarrow>
    opened_session account_outcome" where
  "openSession env account device newId token now db =
     and_then (issue_session env (la_id account) device newId token now db) (\<lambda>s. ret
       \<lparr>os_sessionToken = token, os_expiresAt = se_expiresAt s, os_accountId = la_id account,
        os_encryptedKeyset = la_encryptedKeyset account\<rparr>)"

definition second_factor_on :: "id \<Rightarrow> time \<Rightarrow> account_db \<Rightarrow> bool" where
  "second_factor_on u now db = tf_isEnabled (drizzle_repository now) u (ad_twoFactor db)"

definition check_second_factor :: "account_env \<Rightarrow> id \<Rightarrow> tf_proof \<Rightarrow> time \<Rightarrow> account_db \<Rightarrow> unit account_outcome" where
  "check_second_factor env u proof now db =
     (case tf_verify (drizzle_repository now) (ae_crypto env) u now proof (ad_twoFactor db) of
        (r, t) \<Rightarrow> (r, db\<lparr>ad_twoFactor := t\<rparr>))"

section \<open>Finishing a login\<close>

record login_finish_req =
  fq_loginId :: id
  fq_srpA :: string
  fq_srpM1 :: string
  fq_device :: device_info

datatype login_finish_response =
    SessionOpened string opened_session
  | TwoFactorRequired string string time

definition park_login :: "account_env \<Rightarrow> id \<Rightarrow> device_info \<Rightarrow> id \<Rightarrow> string \<Rightarrow> time \<Rightarrow> account_db \<Rightarrow> time account_outcome" where
  "park_login env accountId device newId token now db =
     (let t = delete_where (\<lambda>p. pl_expiresAt p < now) (ad_pending db);
          expiresAt = minutesFromNow TWO_FACTOR_CHALLENGE_TTL_MINUTES now;
          row = \<lparr>pl_id = newId, pl_accountId = accountId, pl_tokenHash = hashToken env token, pl_device = device,
            pl_attempts = 0, pl_expiresAt = expiresAt\<rparr>
      in if pl_tokenHash row \<in> pl_tokenHash ` set t \<or> newId \<in> pl_id ` set t
         then throw (DbError ''login_two_factor_challenges'') (db\<lparr>ad_pending := t\<rparr>)
         else ret expiresAt (db\<lparr>ad_pending := t @ [row]\<rparr>))"

definition login_finish :: "account_env \<Rightarrow> login_finish_req \<Rightarrow> id \<Rightarrow> string \<Rightarrow> time \<Rightarrow> account_db \<Rightarrow>
    login_finish_response account_outcome" where
  "login_finish env req newId token now db = (case take_challenge (fq_loginId req) db of
     (None, db) \<Rightarrow> throw (Unauthorized LOGIN_FAILED) db
   | (Some c, db) \<Rightarrow>
       if srpc_expiresAt c \<le> now then throw (Unauthorized LOGIN_FAILED) db
       else let account = Option.bind (srpc_accountId c) (\<lambda>u. account_of u db) in
         case kdf_and_verifier env account (srpc_email c) of
           None \<Rightarrow> throw (DbError ''pad'') db
         | Some (kdf, verifier) \<Rightarrow>
             (case (verify_proof env c kdf verifier (fq_srpA req) (fq_srpM1 req), account) of
                (Some verified, Some a) \<Rightarrow>
                  let srpM2 = ae_encode env (vd_serverProof verified)
                  in if second_factor_on (la_id a) now db
                     then and_then (park_login env (la_id a) (fq_device req) newId token now db)
                       (\<lambda>expiresAt. ret (TwoFactorRequired srpM2 token expiresAt))
                     else and_then (openSession env a (fq_device req) newId token now db)
                       (\<lambda>s. ret (SessionOpened srpM2 s))
              | _ \<Rightarrow> throw (Unauthorized LOGIN_FAILED) db))"

text \<open>A fresh proof of the master password from a signed-in account.\<close>

record reauthentication =
  ra_loginId :: id
  ra_srpA :: string
  ra_srpM1 :: string

definition reauthenticate :: "account_env \<Rightarrow> id \<Rightarrow> reauthentication \<Rightarrow> time \<Rightarrow> account_db \<Rightarrow> string account_outcome" where
  "reauthenticate env accountId req now db = (case take_challenge (ra_loginId req) db of
     (None, db) \<Rightarrow> throw (Forbidden WRONG_PASSWORD) db
   | (Some c, db) \<Rightarrow>
       if srpc_expiresAt c \<le> now \<or> srpc_accountId c \<noteq> Some accountId then throw (Forbidden WRONG_PASSWORD) db
       else (case account_of accountId db of
           None \<Rightarrow> throw (Forbidden WRONG_PASSWORD) db
         | Some a \<Rightarrow> (case verify_proof env c (la_kdf a) (la_srpVerifier a) (ra_srpA req) (ra_srpM1 req) of
             None \<Rightarrow> throw (Forbidden WRONG_PASSWORD) db
           | Some verified \<Rightarrow> ret (ae_encode env (vd_serverProof verified)) db)))"

text \<open>\<^verbatim>\<open>update .. set attempts = attempts + 1 .. returning\<close>: the attempt counts before its code is checked.\<close>

definition attempt_open :: "string \<Rightarrow> time \<Rightarrow> pending_login \<Rightarrow> bool" where
  "attempt_open h now p \<longleftrightarrow> pl_tokenHash p = h \<and> now < pl_expiresAt p \<and> pl_attempts p < TWO_FACTOR_CHALLENGE_MAX_ATTEMPTS"

definition take_attempt :: "string \<Rightarrow> time \<Rightarrow> account_db \<Rightarrow> pending_login option \<times> account_db" where
  "take_attempt h now db = (let tick = (\<lambda>p. p\<lparr>pl_attempts := pl_attempts p + 1\<rparr>)
     in (map_option tick (find (attempt_open h now) (ad_pending db)),
         db\<lparr>ad_pending := update_where (attempt_open h now) tick (ad_pending db)\<rparr>))"

definition finishTwoFactor :: "account_env \<Rightarrow> string \<Rightarrow> tf_proof \<Rightarrow> id \<Rightarrow> string \<Rightarrow> time \<Rightarrow> account_db \<Rightarrow>
    opened_session account_outcome" where
  "finishTwoFactor env loginToken proof newId token now db = (case take_attempt (hashToken env loginToken) now db of
     (None, db) \<Rightarrow> throw (Unauthorized TWO_FACTOR_EXPIRED) db
   | (Some c, db) \<Rightarrow> and_then (check_second_factor env (pl_accountId c) proof now db) (\<lambda>_ db.
       let spent = find (\<lambda>p. pl_id p = pl_id c) (ad_pending db);
           db = db\<lparr>ad_pending := delete_where (\<lambda>p. pl_id p = pl_id c) (ad_pending db)\<rparr>
       in case Option.bind spent (\<lambda>_. account_of (pl_accountId c) db) of
            None \<Rightarrow> throw (Unauthorized TWO_FACTOR_EXPIRED) db
          | Some a \<Rightarrow> openSession env a (pl_device c) newId token now db))"

section \<open>Requests of a signed-in account\<close>

text \<open>\<^verbatim>\<open>/^Bearer ([A-Za-z0-9_-]{43})$/\<close>\<close>

definition bearer_char :: "char \<Rightarrow> bool" where
  "bearer_char ch \<longleftrightarrow> (CHR ''A'' \<le> ch \<and> ch \<le> CHR ''Z'') \<or> (CHR ''a'' \<le> ch \<and> ch \<le> CHR ''z'') \<or>
     (CHR ''0'' \<le> ch \<and> ch \<le> CHR ''9'') \<or> ch = CHR ''_'' \<or> ch = CHR ''-''"

definition bearer_token :: "string \<Rightarrow> string option" where
  "bearer_token header = (let token = drop 7 header in
     if take 7 header = ''Bearer '' \<and> length token = 43 \<and> list_all bearer_char token then Some token else None)"

text \<open>The header is the empty string when the request has none.\<close>

definition resolve_user :: "account_env \<Rightarrow> string \<Rightarrow> time \<Rightarrow> account_db \<Rightarrow> (id \<times> string) option \<times> account_db" where
  "resolve_user env header now db = (case bearer_token header of
     None \<Rightarrow> (None, db)
   | Some token \<Rightarrow> (case ds_authenticate (ae_sha env) token now (ad_sessions db) of
       (None, t) \<Rightarrow> (None, db\<lparr>ad_sessions := t\<rparr>)
     | (Some s, t) \<Rightarrow> (map_option (\<lambda>a. (se_userId s, la_email a)) (account_of (se_userId s) db), db\<lparr>ad_sessions := t\<rparr>)))"

definition session_response :: "session \<Rightarrow> account_db \<Rightarrow> (id \<times> string \<times> time) account_outcome" where
  "session_response s db = (case account_of (se_userId s) db of
     None \<Rightarrow> throw (Unauthorized ''Unauthorized'') db
   | Some a \<Rightarrow> ret (se_userId s, la_email a, se_expiresAt s) db)"

definition auth_logout :: "session \<Rightarrow> time \<Rightarrow> account_db \<Rightarrow> unit account_outcome" where
  "auth_logout s now db = ret () (db\<lparr>ad_sessions := snd (ds_revoke (se_userId s) (se_id s) now (ad_sessions db))\<rparr>)"

end
