(* ===== verification/Recovery.thy ===== *)
theory Recovery
  imports Login
begin

text \<open>
  Master password change and account recovery (\<^verbatim>\<open>apps/api/src/auth/recovery.service.ts\<close>). A
  notice that cannot be sent is dropped: \<open>sent\<close> says whether the mailer took it.
\<close>

definition RECOVERY_CODE_TTL_MINUTES :: int where "RECOVERY_CODE_TTL_MINUTES = 15"
definition RECOVERY_TOKEN_TTL_MINUTES :: int where "RECOVERY_TOKEN_TTL_MINUTES = 15"
definition MAX_RECOVERY_ATTEMPTS :: nat where "MAX_RECOVERY_ATTEMPTS = 5"
definition RECOVERY_RESEND_COOLDOWN_MS :: int where "RECOVERY_RESEND_COOLDOWN_MS = 60000"
definition MAX_RECOVERY_CODES_PER_HOUR :: nat where "MAX_RECOVERY_CODES_PER_HOUR = 5"

definition RECOVERY_FAILED :: string where
  "RECOVERY_FAILED = ''That email code or recovery code is incorrect, or the code has expired. Request a new email code and try again.''"
definition RECOVERY_EXPIRED :: string where "RECOVERY_EXPIRED = ''This recovery has expired. Start again.''"

definition recovery_codeHash :: "account_env \<Rightarrow> string \<Rightarrow> string \<Rightarrow> string" where
  "recovery_codeHash env email code = hmac (ae_mac env) (ae_secret env) [''recovery-code'', email, code]"

definition notify :: "bool \<Rightarrow> account_mail \<Rightarrow> account_db \<Rightarrow> account_db" where
  "notify sent m db = (if sent then db\<lparr>ad_outbox := ad_outbox db @ [m]\<rparr> else db)"

text \<open>Logins that already passed the old master password must not finish.\<close>

definition dropPendingLogins :: "id \<Rightarrow> account_db \<Rightarrow> account_db" where
  "dropPendingLogins u db = db\<lparr>ad_challenges := delete_where (\<lambda>c. srpc_accountId c = Some u) (ad_challenges db),
     ad_pending := delete_where (\<lambda>p. pl_accountId p = u) (ad_pending db)\<rparr>"

definition update_account :: "id \<Rightarrow> (login_account \<Rightarrow> login_account) \<Rightarrow> account_db \<Rightarrow> account_db" where
  "update_account u f db = db\<lparr>ad_accounts := update_where (\<lambda>a. la_id a = u) f (ad_accounts db)\<rparr>"

definition revoke_others :: "id \<Rightarrow> id \<Rightarrow> time \<Rightarrow> account_db \<Rightarrow> account_db" where
  "revoke_others u keep now db = db\<lparr>ad_sessions := snd (ds_revokeAllExcept u keep now (ad_sessions db))\<rparr>"

section \<open>Master password change\<close>

record password_change_req = reauthentication +
  pw_kdf :: stored_kdf
  pw_srpVerifier :: string
  pw_encryptedKeyset :: blob

definition changePassword :: "account_env \<Rightarrow> id \<Rightarrow> id \<Rightarrow> password_change_req \<Rightarrow> bool \<Rightarrow> time \<Rightarrow> account_db \<Rightarrow>
    string account_outcome" where
  "changePassword env accountId keepSessionId req sent now db =
     (let verifier = ae_decode env (pw_srpVerifier req)
      in if \<not> isValidVerifier verifier then throw (BadRequest ''Invalid SRP verifier'') db
         else and_then (reauthenticate env accountId (reauthentication.truncate req) now db) (\<lambda>srpM2 db.
           let email = map_option la_email (account_of accountId db);
               db = dropPendingLogins accountId (update_account accountId (\<lambda>a. a\<lparr>la_kdf := pw_kdf req,
                 la_srpVerifier := verifier, la_encryptedKeyset := pw_encryptedKeyset req, la_updatedAt := now\<rparr>) db)
           in case email of
                None \<Rightarrow> throw (Unauthorized ''Unauthorized'') db
              | Some e \<Rightarrow> ret srpM2 (notify sent (PasswordChanged e) (revoke_others accountId keepSessionId now db))))"

section \<open>The recovery code\<close>

definition recovery_status :: "id \<Rightarrow> account_db \<Rightarrow> (bool \<times> time option) account_outcome" where
  "recovery_status accountId db = (case account_of accountId db of
     None \<Rightarrow> throw (Unauthorized ''Unauthorized'') db
   | Some a \<Rightarrow> ret (la_recoveryVerifier a \<noteq> None, if la_recoveryVerifier a \<noteq> None then la_recoveryUpdatedAt a else None) db)"

record recovery_setup_req = reauthentication +
  rs_recoveryKeyset :: blob
  rs_recoveryVerifier :: string

definition recovery_setUp :: "account_env \<Rightarrow> id \<Rightarrow> recovery_setup_req \<Rightarrow> bool \<Rightarrow> time \<Rightarrow> account_db \<Rightarrow> string account_outcome" where
  "recovery_setUp env accountId req sent now db =
     and_then (reauthenticate env accountId (reauthentication.truncate req) now db) (\<lambda>srpM2 db.
       case account_of accountId db of
         None \<Rightarrow> throw (Unauthorized ''Unauthorized'') db
       | Some before \<Rightarrow> ret srpM2 (notify sent (RecoveryCodeSet (la_email before) (la_recoveryVerifier before \<noteq> None))
           (update_account accountId (\<lambda>a. a\<lparr>la_recoveryKeyset := Some (rs_recoveryKeyset req),
              la_recoveryVerifier := Some (ae_decode env (rs_recoveryVerifier req)), la_recoveryUpdatedAt := Some now\<rparr>) db)))"

section \<open>Recovery\<close>

definition recovery_start :: "account_env \<Rightarrow> string \<Rightarrow> string \<Rightarrow> string \<Rightarrow> id \<Rightarrow> bool \<Rightarrow> time \<Rightarrow> account_db \<Rightarrow> unit account_outcome" where
  "recovery_start env email code junk i sent now db =
     (let account = account_by email db;
          recoverable = Option.bind account la_recoveryVerifier \<noteq> None
      in if code_refused MAX_RECOVERY_CODES_PER_HOUR RECOVERY_RESEND_COOLDOWN_MS email now (ad_recoveries db) then ret () db
         else
           let row = new_code i email (if recoverable then recovery_codeHash env email code else junk)
                 (minutesFromNow RECOVERY_CODE_TTL_MINUTES now) (if recoverable then None else Some now) now
                 \<lparr>rr_accountId = map_option la_id account\<rparr>
           in case insert_new co_id row (close_codes email now (ad_recoveries db)) of
                None \<Rightarrow> throw (DbError ''account_recoveries'') db
              | Some t \<Rightarrow>
                  let db = db\<lparr>ad_recoveries := t\<rparr>
                  in if account = None then ret () db
                     else send_mail sent (if recoverable then RecoveryCode email code else RecoveryUnavailable email) db)"

record recover_verify_response =
  rvr_recoveryToken :: string
  rvr_expiresAt :: time
  rvr_recoveryKeyset :: blob
  rvr_twoFactorRequired :: bool

text \<open>\<^verbatim>\<open>verify\<close> after the open attempt was read: parallel requests may get between the two.\<close>

definition recovery_settle :: "account_env \<Rightarrow> string \<Rightarrow> string \<Rightarrow> string \<Rightarrow> string \<Rightarrow> recovery_row \<Rightarrow> id \<Rightarrow> time \<Rightarrow> account_db \<Rightarrow>
    recover_verify_response account_outcome" where
  "recovery_settle env email code recoveryAuth token pending accountId now db =
     (let account = account_of accountId db;
          codeOk = (co_codeHash pending = recovery_codeHash env email code);
          authOk = (Option.bind account la_recoveryVerifier = Some (ae_sha env (ae_decode env recoveryAuth)))
      in case (codeOk \<and> authOk, Option.bind account la_recoveryKeyset) of
           (True, Some keyset) \<Rightarrow>
             let expiresAt = minutesFromNow RECOVERY_TOKEN_TTL_MINUTES now in
             (case verify_code (co_id pending) (hashToken env token) expiresAt now (ad_recoveries db) of
                None \<Rightarrow> throw (BadRequest RECOVERY_FAILED) db
              | Some t \<Rightarrow>
                  if Some (hashToken env token) \<in> co_tokenHash ` set (ad_recoveries db) then throw (DbError ''token_hash'') db
                  else ret \<lparr>rvr_recoveryToken = token, rvr_expiresAt = expiresAt, rvr_recoveryKeyset = keyset,
                      rvr_twoFactorRequired = second_factor_on accountId now db\<rparr> (db\<lparr>ad_recoveries := t\<rparr>))
         | _ \<Rightarrow> throw (BadRequest RECOVERY_FAILED)
             (db\<lparr>ad_recoveries := count_attempt MAX_RECOVERY_ATTEMPTS (co_id pending) now (ad_recoveries db)\<rparr>))"

definition recovery_verify :: "account_env \<Rightarrow> string \<Rightarrow> string \<Rightarrow> string \<Rightarrow> string \<Rightarrow> time \<Rightarrow> account_db \<Rightarrow>
    recover_verify_response account_outcome" where
  "recovery_verify env email code recoveryAuth token now db = (case latest_code email now (ad_recoveries db) of
     None \<Rightarrow> throw (BadRequest RECOVERY_FAILED) db
   | Some pending \<Rightarrow> (case rr_accountId pending of
       None \<Rightarrow> throw (BadRequest RECOVERY_FAILED) db
     | Some accountId \<Rightarrow> recovery_settle env email code recoveryAuth token pending accountId now db))"

record recover_complete_req =
  rc_recoveryToken :: string
  rc_secretKeyId :: string
  rc_kdf :: stored_kdf
  rc_srpVerifier :: string
  rc_encryptedKeyset :: blob
  rc_recoveryKeyset :: blob
  rc_recoveryVerifier :: string
  rc_twoFactor :: "tf_proof option"
  rc_device :: device_info

definition recovery_second_factor :: "account_env \<Rightarrow> id \<Rightarrow> tf_proof option \<Rightarrow> time \<Rightarrow> account_db \<Rightarrow> unit account_outcome" where
  "recovery_second_factor env accountId proof now db =
     (if second_factor_on accountId now db then (case proof of
          None \<Rightarrow> throw (Unauthorized ''two_factor_required'') db
        | Some p \<Rightarrow> check_second_factor env accountId p now db)
      else ret () db)"

text \<open>The transaction of \<^verbatim>\<open>complete\<close>: spends the token and replaces the account's material.\<close>

definition recovery_replace :: "account_env \<Rightarrow> recover_complete_req \<Rightarrow> id \<Rightarrow> time \<Rightarrow> account_db \<Rightarrow> string option account_outcome" where
  "recovery_replace env req accountId now db =
     (case claim_token (hashToken env (rc_recoveryToken req)) now (ad_recoveries db) of (claim, t) \<Rightarrow>
        if Option.bind claim rr_accountId \<noteq> Some accountId then throw (Conflict RECOVERY_EXPIRED) db
        else let db = db\<lparr>ad_recoveries := t\<rparr> in
          ret (map_option la_email (account_of accountId db))
            (dropPendingLogins accountId (update_account accountId (\<lambda>a. a\<lparr>la_secretKeyId := rc_secretKeyId req,
               la_kdf := rc_kdf req, la_srpVerifier := ae_decode env (rc_srpVerifier req),
               la_encryptedKeyset := rc_encryptedKeyset req, la_recoveryKeyset := Some (rc_recoveryKeyset req),
               la_recoveryVerifier := Some (ae_decode env (rc_recoveryVerifier req)),
               la_recoveryUpdatedAt := Some now, la_updatedAt := now\<rparr>) db)))"

definition recovery_complete :: "account_env \<Rightarrow> recover_complete_req \<Rightarrow> id \<Rightarrow> string \<Rightarrow> bool \<Rightarrow> time \<Rightarrow> account_db \<Rightarrow>
    (string \<times> time \<times> id) account_outcome" where
  "recovery_complete env req newId token sent now db =
     (if \<not> isValidVerifier (ae_decode env (rc_srpVerifier req)) then throw (BadRequest ''Invalid SRP verifier'') db
      else case Option.bind (find (token_live (hashToken env (rc_recoveryToken req)) now) (ad_recoveries db)) rr_accountId of
        None \<Rightarrow> throw (BadRequest RECOVERY_EXPIRED) db
      | Some accountId \<Rightarrow>
          and_then (recovery_second_factor env accountId (rc_twoFactor req) now db) (\<lambda>_ db.
            and_then (transact db (recovery_replace env req accountId now db)) (\<lambda>email db. case email of
              None \<Rightarrow> throw (BadRequest RECOVERY_EXPIRED) db
            | Some e \<Rightarrow> and_then (issue_session env accountId (rc_device req) newId token now db) (\<lambda>s db.
                ret (token, se_expiresAt s, accountId)
                  (notify sent (AccountRecovered e) (revoke_others accountId (se_id s) now db))))))"

end
