(* ===== verification/AccountProps.thy ===== *)
theory AccountProps
  imports Recovery
begin

text \<open>
  Runs of sign-up, login and recovery requests, with the checks of sign-up codes interleaved, and
  what they keep: accounts have proved their address, and a code stands five wrong tries.
\<close>

section \<open>Runs\<close>

datatype auth_call =
    SignupStart string string string id bool
  | SignupVerify string string string
  | SignupComplete signup_complete_req id
  | LoginStart string string id
  | LoginFinish login_finish_req id string
  | FinishTwoFactor string tf_proof id string
  | ChangePassword id id password_change_req bool
  | SetUpRecovery id recovery_setup_req bool
  | RecoveryStart string string string id bool
  | RecoveryVerify string string string string
  | RecoveryComplete recover_complete_req id string bool
  | ResolveUser string
  | Logout session

text \<open>The database a request leaves, whatever it answers.\<close>

fun auth_call_db :: "account_env \<Rightarrow> auth_call \<Rightarrow> time \<Rightarrow> account_db \<Rightarrow> account_db" where
  "auth_call_db env (SignupStart email code junk i sent) now db = snd (signup_start env email code junk i sent now db)"
| "auth_call_db env (SignupVerify email code token) now db = snd (signup_verify env email code token now db)"
| "auth_call_db env (SignupComplete req newId) now db = snd (signup_complete env req newId now db)"
| "auth_call_db env (LoginStart email secretB newId) now db = snd (login_start env email secretB newId now db)"
| "auth_call_db env (LoginFinish req newId token) now db = snd (login_finish env req newId token now db)"
| "auth_call_db env (FinishTwoFactor t proof newId token) now db = snd (finishTwoFactor env t proof newId token now db)"
| "auth_call_db env (ChangePassword u keep req sent) now db = snd (changePassword env u keep req sent now db)"
| "auth_call_db env (SetUpRecovery u req sent) now db = snd (recovery_setUp env u req sent now db)"
| "auth_call_db env (RecoveryStart email code junk i sent) now db = snd (recovery_start env email code junk i sent now db)"
| "auth_call_db env (RecoveryVerify email code auth token) now db = snd (recovery_verify env email code auth token now db)"
| "auth_call_db env (RecoveryComplete req newId token sent) now db = snd (recovery_complete env req newId token sent now db)"
| "auth_call_db env (ResolveUser header) now db = snd (resolve_user env header now db)"
| "auth_call_db env (Logout s) now db = snd (auth_logout s now db)"

text \<open>
  A sign-up code is read by one statement and settled by another: other requests get between them.
  The second component holds the codes that requests under way have read.
\<close>

inductive auth_step :: "account_env \<Rightarrow> account_db \<times> mail_code set \<Rightarrow> account_db \<times> mail_code set \<Rightarrow> bool" for env where
  call: "auth_step env (db, held) (auth_call_db env c now db, held)"
| read_code: "latest_code email now (ad_verifications db) = Some p \<Longrightarrow> auth_step env (db, held) (db, insert p held)"
| settle: "p \<in> held \<Longrightarrow> auth_step env (db, held) (snd (signup_settle env email code token p now db), held)"

definition no_accounts :: account_db where
  "no_accounts = \<lparr>ad_accounts = [], ad_verifications = [], ad_recoveries = [], ad_challenges = [], ad_pending = [],
     ad_sessions = [], ad_twoFactor = [], ad_outbox = []\<rparr>"

section \<open>What requests leave alone\<close>

definition faces :: "account_db \<Rightarrow> (id \<times> string) list" where
  "faces db = map (\<lambda>a. (la_id a, la_email a)) (ad_accounts db)"

definition same_faces :: "account_db \<Rightarrow> account_db \<Rightarrow> bool" where
  "same_faces db db' \<longleftrightarrow> faces db' = faces db \<and> ad_verifications db' = ad_verifications db \<and>
     set (ad_outbox db) \<subseteq> set (ad_outbox db')"

lemma same_faces_refl [simp]: "same_faces db db"
  by (simp add: same_faces_def)

lemma same_faces_trans: "same_faces a b \<Longrightarrow> same_faces b c \<Longrightarrow> same_faces a c"
  by (auto simp: same_faces_def)

lemma same_faces_update [simp]:
  "same_faces db (d\<lparr>ad_challenges := t1\<rparr>) \<longleftrightarrow> same_faces db d"
  "same_faces db (d\<lparr>ad_pending := t2\<rparr>) \<longleftrightarrow> same_faces db d"
  "same_faces db (d\<lparr>ad_sessions := t3\<rparr>) \<longleftrightarrow> same_faces db d"
  "same_faces db (d\<lparr>ad_twoFactor := t4\<rparr>) \<longleftrightarrow> same_faces db d"
  "same_faces db (d\<lparr>ad_recoveries := t5\<rparr>) \<longleftrightarrow> same_faces db d"
  "same_faces db d \<Longrightarrow> same_faces db (d\<lparr>ad_outbox := ad_outbox d @ [m]\<rparr>)"
  by (auto simp: same_faces_def faces_def)

lemma same_faces_account [simp]:
  assumes "\<And>a. la_id (f a) = la_id a" "\<And>a. la_email (f a) = la_email a"
  shows "same_faces db (update_account u f d) \<longleftrightarrow> same_faces db d"
proof -
  have "faces (update_account u f d) = faces d"
    using assms by (simp add: faces_def update_account_def update_where_def)
  then show ?thesis by (simp add: same_faces_def update_account_def)
qed

lemma same_faces_more [simp]:
  "same_faces db (dropPendingLogins u d) \<longleftrightarrow> same_faces db d"
  "same_faces db (revoke_others u keep now d) \<longleftrightarrow> same_faces db d"
  "same_faces db d \<Longrightarrow> same_faces db (notify sent m d)"
  "same_faces db (snd (take_challenge i d)) \<longleftrightarrow> same_faces db d"
  "same_faces db (snd (take_attempt h now d)) \<longleftrightarrow> same_faces db d"
  "same_faces db d \<Longrightarrow> same_faces db (snd (send_mail sent m d))"
  "same_faces db (snd (issue_session env u dev i token now d)) \<longleftrightarrow> same_faces db d"
  "same_faces db (snd (park_login env u dev i token now d)) \<longleftrightarrow> same_faces db d"
  "same_faces db (snd (check_second_factor env u proof now d)) \<longleftrightarrow> same_faces db d"
  by (simp_all add: dropPendingLogins_def revoke_others_def notify_def take_challenge_def take_attempt_def
      send_mail_def issue_session_def park_login_def check_second_factor_def Let_def split: prod.splits option.splits)

text \<open>A chain of requests leaves alone what its parts do.\<close>

lemma same_faces_and_then:
  assumes "same_faces db (snd m)" and "\<And>x d. same_faces db d \<Longrightarrow> same_faces db (snd (f x d))"
  shows "same_faces db (snd (and_then m f))"
  using assms by (cases m; cases "fst m") (auto simp: and_then_def)

lemma same_faces_open [simp]: "same_faces db (snd (openSession env a dev i token now d)) \<longleftrightarrow> same_faces db d"
  by (simp add: openSession_def issue_session_def split: prod.splits option.splits)

lemma take_challenge_cases:
  obtains c d where "take_challenge i db = (c, d)" "same_faces db d"
  by (cases "take_challenge i db") (metis same_faces_more(4) same_faces_refl snd_conv)

lemma take_attempt_cases:
  obtains c d where "take_attempt h now db = (c, d)" "same_faces db d"
  by (cases "take_attempt h now db") (metis same_faces_more(5) same_faces_refl snd_conv)

lemma same_faces_login_start: "same_faces db (snd (login_start env email secretB i now db))"
  by (simp add: login_start_def Let_def split: option.split)

lemma same_faces_login_finish: "same_faces db (snd (login_finish env req i token now db))"
proof -
  obtain c d where t: "take_challenge (fq_loginId req) db = (c, d)" "same_faces db d" by (rule take_challenge_cases)
  show ?thesis
    using t(2) by (auto simp: login_finish_def t(1) Let_def split: option.split intro!: same_faces_and_then)
qed

lemma same_faces_reauthenticate: "same_faces db (snd (reauthenticate env u req now db))"
proof -
  obtain c d where t: "take_challenge (ra_loginId req) db = (c, d)" "same_faces db d" by (rule take_challenge_cases)
  show ?thesis using t(2) by (auto simp: reauthenticate_def t(1) split: option.split)
qed

lemma same_faces_finishTwoFactor: "same_faces db (snd (finishTwoFactor env h proof i token now db))"
proof -
  obtain c d where t: "take_attempt (hashToken env h) now db = (c, d)" "same_faces db d" by (rule take_attempt_cases)
  show ?thesis
    using t(2) by (auto simp: finishTwoFactor_def t(1) Let_def split: option.split intro!: same_faces_and_then)
qed

lemma same_faces_changePassword: "same_faces db (snd (changePassword env u keep req sent now db))"
  by (auto simp: changePassword_def Let_def same_faces_reauthenticate split: option.split intro!: same_faces_and_then)

lemma same_faces_setUp: "same_faces db (snd (recovery_setUp env u req sent now db))"
  by (auto simp: recovery_setUp_def same_faces_reauthenticate split: option.split intro!: same_faces_and_then)

lemma same_faces_recovery_start: "same_faces db (snd (recovery_start env email code junk i sent now db))"
  by (simp add: recovery_start_def Let_def split: option.split)

lemma same_faces_recovery_verify: "same_faces db (snd (recovery_verify env email code auth token now db))"
  by (simp add: recovery_verify_def recovery_settle_def Let_def split: option.split bool.split)

lemma same_faces_replace: "same_faces db (snd (transact d (recovery_replace env req u now d)))" if "same_faces db d"
  using that by (auto simp: recovery_replace_def Let_def split: prod.split)

lemma same_faces_recovery_complete: "same_faces db (snd (recovery_complete env req i token sent now db))"
  by (auto simp: recovery_complete_def recovery_second_factor_def same_faces_replace split: option.split
      intro!: same_faces_and_then)

lemma same_faces_resolve: "same_faces db (snd (resolve_user env header now db))"
  by (simp add: resolve_user_def split: option.split prod.split)

lemma same_faces_logout: "same_faces db (snd (auth_logout s now db))"
  by (simp add: auth_logout_def)

lemmas same_faces_calls = same_faces_login_start same_faces_login_finish same_faces_finishTwoFactor
  same_faces_changePassword same_faces_setUp same_faces_recovery_start same_faces_recovery_verify
  same_faces_recovery_complete same_faces_resolve same_faces_logout

section \<open>The invariant\<close>

definition proved_email :: "string \<Rightarrow> mail_code list \<Rightarrow> bool" where
  "proved_email email t \<longleftrightarrow> (\<exists>r \<in> set t. co_email r = email \<and> co_verifiedAt r \<noteq> None \<and> co_tokenUsedAt r \<noteq> None)"

definition code_ok :: "mail_code \<Rightarrow> bool" where
  "code_ok r \<longleftrightarrow> (co_tokenHash r \<noteq> None \<longrightarrow> co_verifiedAt r \<noteq> None) \<and> (code_open r \<longrightarrow> co_attempts r < MAX_CODE_ATTEMPTS)"

definition accounts_inv :: "(id \<times> string) list \<Rightarrow> mail_code list \<Rightarrow> bool" where
  "accounts_inv fs t \<longleftrightarrow> unique_by fst fs \<and> unique_by snd fs \<and> unique_by co_id t \<and> list_all code_ok t \<and>
     list_all (\<lambda>f. proved_email (snd f) t) fs"

text \<open>An update of codes that forgets no proof.\<close>

lemma proved_email_update:
  assumes "proved_email email t" and "\<And>r. co_email (f r) = co_email r"
    and "\<And>r. co_verifiedAt r \<noteq> None \<Longrightarrow> co_verifiedAt (f r) \<noteq> None"
    and "\<And>r. co_tokenUsedAt r \<noteq> None \<Longrightarrow> co_tokenUsedAt (f r) \<noteq> None"
  shows "proved_email email (update_where p f t)"
proof -
  obtain r where "r \<in> set t" "co_email r = email" "co_verifiedAt r \<noteq> None" "co_tokenUsedAt r \<noteq> None"
    using assms(1) by (auto simp: proved_email_def)
  then show ?thesis
    using assms(2-4) unfolding proved_email_def set_update_where by (intro bexI [of _ "if p r then f r else r"]) auto
qed

lemma accounts_inv_update:
  assumes "accounts_inv fs t" and "\<And>r. co_id (f r) = co_id r" "\<And>r. co_email (f r) = co_email r"
    and "\<And>r. co_verifiedAt r \<noteq> None \<Longrightarrow> co_verifiedAt (f r) \<noteq> None"
    and "\<And>r. co_tokenUsedAt r \<noteq> None \<Longrightarrow> co_tokenUsedAt (f r) \<noteq> None"
    and "\<And>r. r \<in> set t \<Longrightarrow> p r \<Longrightarrow> code_ok r \<Longrightarrow> code_ok (f r)"
  shows "accounts_inv fs (update_where p f t)"
  using assms(1,2,6) proved_email_update [OF _ assms(3-5)]
  by (auto simp: accounts_inv_def unique_by_update_where list_all_iff set_update_where)

lemma latest_code_mem: "latest_code email now t = Some p \<Longrightarrow> p \<in> set t \<and> co_email p = email"
proof -
  assume "latest_code email now t = Some p"
  then obtain rs where "sort_key (\<lambda>r. - co_createdAt r) (filter (\<lambda>r. co_email r = email \<and> code_open r \<and> now < co_expiresAt r) t) = p # rs"
    by (auto simp: latest_code_def split: list.splits)
  then have "p \<in> set (sort_key (\<lambda>r. - co_createdAt r) (filter (\<lambda>r. co_email r = email \<and> code_open r \<and> now < co_expiresAt r) t))"
    by (metis list.set_intros(1))
  then show ?thesis by simp
qed

lemma accounts_inv_close: "accounts_inv fs t \<Longrightarrow> accounts_inv fs (close_codes email now t)"
  unfolding close_codes_def by (rule accounts_inv_update) (auto simp: code_ok_def code_open_def)

lemma accounts_inv_count: "accounts_inv fs t \<Longrightarrow> accounts_inv fs (count_attempt MAX_CODE_ATTEMPTS i now t)"
  unfolding count_attempt_def by (rule accounts_inv_update) (auto simp: code_ok_def code_open_def)

lemma accounts_inv_verify: "verify_code i h e now t = Some t' \<Longrightarrow> accounts_inv fs t \<Longrightarrow> accounts_inv fs t'"
  by (auto simp: verify_code_def Let_def code_ok_def code_open_def split: if_splits intro!: accounts_inv_update)

lemma accounts_inv_claim: "claim_token h now t = (c, t') \<Longrightarrow> accounts_inv fs t \<Longrightarrow> accounts_inv fs t'"
  by (auto simp: claim_token_def code_ok_def code_open_def intro!: accounts_inv_update)

lemma accounts_inv_insert:
  assumes "insert_new co_id r t = Some t'" and "accounts_inv fs t" and "code_ok r"
  shows "accounts_inv fs t'"
  using assms by (auto simp: accounts_inv_def insert_new_Some unique_by_snoc list_all_iff proved_email_def)

lemma claim_proves:
  assumes "claim_token h now t = (Some c, t')" and "accounts_inv fs t"
  shows "proved_email (co_email c) t'"
proof -
  have c: "c \<in> set t" "token_live h now c" using assms(1) find_set by (fastforce simp: claim_token_def)+
  then have "co_verifiedAt c \<noteq> None" using assms(2) by (auto simp: accounts_inv_def list_all_iff code_ok_def token_live_def)
  moreover have "c\<lparr>co_tokenUsedAt := Some now\<rparr> \<in> set t'"
    using assms(1) c by (auto simp: claim_token_def set_update_where)
  ultimately show ?thesis unfolding proved_email_def by (intro bexI [of _ "c\<lparr>co_tokenUsedAt := Some now\<rparr>"]) auto
qed

lemma inv_signup_start:
  assumes "accounts_inv (faces db) (ad_verifications db)"
  shows "accounts_inv (faces (snd (signup_start env email code junk i sent now db)))
    (ad_verifications (snd (signup_start env email code junk i sent now db)))"
proof -
  have ok: "code_ok (new_code i email h e c now ())" for h e c
    by (simp add: new_code_def code_ok_def MAX_CODE_ATTEMPTS_def)
  show ?thesis
    using assms accounts_inv_insert [OF _ accounts_inv_close [OF assms] ok]
    by (auto simp: signup_start_def Let_def send_mail_def faces_def split: option.split)
qed

lemma inv_signup_settle:
  assumes "accounts_inv (faces db) (ad_verifications db)"
  shows "accounts_inv (faces (snd (signup_settle env email code token p now db)))
    (ad_verifications (snd (signup_settle env email code token p now db)))"
  using assms accounts_inv_count [OF assms] accounts_inv_verify [OF _ assms]
  by (auto simp: signup_settle_def Let_def faces_def split: option.split)

lemma inv_signup_verify:
  assumes "accounts_inv (faces db) (ad_verifications db)"
  shows "accounts_inv (faces (snd (signup_verify env email code token now db)))
    (ad_verifications (snd (signup_verify env email code token now db)))"
  using assms inv_signup_settle [OF assms] by (auto simp: signup_verify_def split: option.split)

lemma account_by_None: "account_by email db = None \<longleftrightarrow> email \<notin> snd ` set (faces db)"
  by (simp add: account_by_def faces_def find_None_iff image_image) (auto simp: image_iff)

lemma account_of_None: "account_of u db = None \<longleftrightarrow> u \<notin> fst ` set (faces db)"
  by (simp add: account_of_def faces_def find_None_iff image_image) (auto simp: image_iff)

lemma inv_signup_complete:
  assumes "accounts_inv (faces db) (ad_verifications db)"
  shows "accounts_inv (faces (snd (signup_complete env req newId now db)))
    (ad_verifications (snd (signup_complete env req newId now db)))"
proof -
  obtain c t where ct: "claim_token (hashToken env (sq_signupToken req)) now (ad_verifications db) = (c, t)" by fastforce
  have inv: "accounts_inv (faces db) t" by (rule accounts_inv_claim [OF ct assms])
  let ?d = "db\<lparr>ad_verifications := t\<rparr>"
  have fs: "faces ?d = faces db" by (simp add: faces_def)
  show ?thesis
  proof (cases "\<exists>claim. c = Some claim \<and> account_by (co_email claim) ?d = None \<and> account_of newId ?d = None")
    case True
    then obtain claim where claim: "c = Some claim" "co_email claim \<notin> snd ` set (faces db)" "newId \<notin> fst ` set (faces db)"
      by (auto simp: account_by_None account_of_None fs)
    have "accounts_inv (faces db @ [(newId, co_email claim)]) t"
      using inv claim(2,3) claim_proves [OF ct [unfolded claim(1)] assms] by (auto simp: accounts_inv_def unique_by_snoc)
    then show ?thesis
      using assms True claim(1) by (auto simp: signup_complete_def ct Let_def faces_def account_by_None account_of_None)
  next
    case False
    then show ?thesis
      using assms by (cases c) (auto simp: signup_complete_def ct Let_def)
  qed
qed

lemma inv_call:
  assumes "accounts_inv (faces db) (ad_verifications db)"
  shows "accounts_inv (faces (auth_call_db env c now db)) (ad_verifications (auth_call_db env c now db))"
proof -
  have "?thesis" if "same_faces db (auth_call_db env c now db)"
    using assms that by (simp add: same_faces_def)
  then show ?thesis
    using assms by (cases c) (auto simp: same_faces_calls inv_signup_start inv_signup_verify inv_signup_complete)
qed

lemma inv_reachable:
  assumes "(auth_step env)\<^sup>*\<^sup>* (no_accounts, {}) (db, held)"
  shows "accounts_inv (faces db) (ad_verifications db)"
  using assms
proof (induction "(db, held)" arbitrary: db held rule: rtranclp_induct)
  case base
  then show ?case by (simp add: no_accounts_def faces_def accounts_inv_def)
next
  case (step y)
  then show ?case by (auto elim!: auth_step.cases simp: inv_call inv_signup_settle)
qed

section \<open>Where accounts come from\<close>

text \<open>
  A run with what arrived: requests, and entries of a code whose row was read before (\<open>Entered\<close>: the address, the
  code and the token that would be given for it). An entry is settled against the row its own request read.
\<close>

datatype auth_event = Served auth_call | Entered string string string

inductive auth_trace :: "account_env \<Rightarrow> auth_event list \<Rightarrow> account_db \<Rightarrow> mail_code set \<Rightarrow> bool" for env where
  start: "auth_trace env [] no_accounts {}"
| served: "auth_trace env es db held \<Longrightarrow> auth_trace env (es @ [Served c]) (auth_call_db env c now db) held"
| reads: "auth_trace env es db held \<Longrightarrow> latest_code email now (ad_verifications db) = Some p \<Longrightarrow> auth_trace env es db (insert p held)"
| settles: "auth_trace env es db held \<Longrightarrow> p \<in> held \<Longrightarrow> co_email p = email \<Longrightarrow>
    auth_trace env (es @ [Entered email code token]) (snd (signup_settle env email code token p now db)) held"

lemma auth_trace_steps: "auth_trace env es db held \<Longrightarrow> (auth_step env)\<^sup>*\<^sup>* (no_accounts, {}) (db, held)"
  by (induction rule: auth_trace.induct)
    (blast intro: rtranclp.rtrancl_refl rtranclp.rtrancl_into_rtrancl auth_step.intros)+

text \<open>The code of a row was drawn for a sign-up of its address, and mailed there if mail went out at all.\<close>

definition code_issued :: "account_env \<Rightarrow> auth_event set \<Rightarrow> account_mail set \<Rightarrow> mail_code \<Rightarrow> bool" where
  "code_issued env es box r \<longleftrightarrow> (\<exists>code junk sent. Served (SignupStart (co_email r) code junk (co_id r) sent) \<in> es \<and>
     co_codeHash r = signup_codeHash env (co_email r) code \<and> (sent \<longrightarrow> VerificationCode (co_email r) code \<in> box))"

text \<open>Someone entered it, with the address, and the token of the row was given for that.\<close>

definition code_entered :: "account_env \<Rightarrow> auth_event set \<Rightarrow> mail_code \<Rightarrow> bool" where
  "code_entered env es r \<longleftrightarrow> (\<exists>code token.
     (Served (SignupVerify (co_email r) code token) \<in> es \<or> Entered (co_email r) code token \<in> es) \<and>
     co_codeHash r = signup_codeHash env (co_email r) code \<and> co_tokenHash r = Some (hashToken env token))"

text \<open>A request to complete the sign-up under this id showed that token.\<close>

definition token_shown :: "account_env \<Rightarrow> auth_event set \<Rightarrow> id \<Rightarrow> mail_code \<Rightarrow> bool" where
  "token_shown env es i r \<longleftrightarrow> (\<exists>req. Served (SignupComplete req i) \<in> es \<and>
     co_tokenHash r = Some (hashToken env (sq_signupToken req)))"

definition row_traced :: "account_env \<Rightarrow> auth_event set \<Rightarrow> account_mail set \<Rightarrow> mail_code \<Rightarrow> bool" where
  "row_traced env es box r \<longleftrightarrow> (code_open r \<or> co_verifiedAt r \<noteq> None \<longrightarrow> code_issued env es box r) \<and>
     (co_verifiedAt r \<noteq> None \<longrightarrow> code_entered env es r)"

definition same_code :: "mail_code \<Rightarrow> mail_code \<Rightarrow> bool" where
  "same_code p r \<longleftrightarrow> co_id r = co_id p \<and> co_email r = co_email p \<and> co_codeHash r = co_codeHash p"

definition account_traced :: "account_env \<Rightarrow> auth_event set \<Rightarrow> mail_code list \<Rightarrow> id \<times> string \<Rightarrow> bool" where
  "account_traced env es t f \<longleftrightarrow> (\<exists>r \<in> set t. co_email r = snd f \<and> co_verifiedAt r \<noteq> None \<and> co_tokenUsedAt r \<noteq> None \<and>
     token_shown env es (fst f) r)"

definition traced :: "account_env \<Rightarrow> auth_event set \<Rightarrow> account_mail set \<Rightarrow> (id \<times> string) list \<Rightarrow> mail_code list \<Rightarrow> mail_code set \<Rightarrow> bool" where
  "traced env es box fs t held \<longleftrightarrow> (\<forall>r \<in> set t. row_traced env es box r) \<and> (\<forall>f \<in> set fs. account_traced env es t f) \<and>
     (\<forall>p \<in> held. \<exists>r \<in> set t. same_code p r)"

lemma row_traced_mono: "row_traced env es box r \<Longrightarrow> es \<subseteq> es' \<Longrightarrow> box \<subseteq> box' \<Longrightarrow> row_traced env es' box' r"
  unfolding row_traced_def code_issued_def code_entered_def by blast

lemma traced_mono: "traced env es box fs t held \<Longrightarrow> es \<subseteq> es' \<Longrightarrow> box \<subseteq> box' \<Longrightarrow> traced env es' box' fs t held"
  unfolding traced_def account_traced_def token_shown_def by (meson row_traced_mono subsetD)

text \<open>An update that keeps what a row says of its code and opens none.\<close>

lemma traced_update:
  assumes "traced env es box fs t held" and "\<And>r. same_code r (f r) \<and> co_verifiedAt (f r) = co_verifiedAt r \<and>
      co_tokenHash (f r) = co_tokenHash r \<and> (co_tokenUsedAt r \<noteq> None \<longrightarrow> co_tokenUsedAt (f r) \<noteq> None) \<and> (code_open (f r) \<longrightarrow> code_open r)"
  shows "traced env es box fs (update_where q f t) held"
proof -
  let ?g = "\<lambda>r. if q r then f r else r"
  have g: "same_code r (?g r)" "co_verifiedAt (?g r) = co_verifiedAt r" "co_tokenHash (?g r) = co_tokenHash r"
    "co_tokenUsedAt r \<noteq> None \<longrightarrow> co_tokenUsedAt (?g r) \<noteq> None" "code_open (?g r) \<longrightarrow> code_open r" for r
    using assms(2) [of r] by (simp_all add: same_code_def)
  have "row_traced env es box (?g r)" if "row_traced env es box r" for r
    using that g [of r] by (simp only: row_traced_def code_issued_def code_entered_def same_code_def) blast
  moreover have "account_traced env es (update_where q f t) x" if x: "account_traced env es t x" for x
  proof -
    obtain r where "r \<in> set t" "co_email r = snd x" "co_verifiedAt r \<noteq> None" "co_tokenUsedAt r \<noteq> None" "token_shown env es (fst x) r"
      using x unfolding account_traced_def by blast
    then show ?thesis using g [of r] unfolding account_traced_def set_update_where same_code_def token_shown_def
      by (intro bexI [of _ "?g r"]) (simp_all only: mem_Collect_eq, blast+)
  qed
  moreover have "\<exists>r \<in> set (update_where q f t). same_code p r" if p: "\<exists>r \<in> set t. same_code p r" for p
  proof -
    obtain r where "r \<in> set t" "same_code p r" using p by blast
    then show ?thesis using g(1) [of r] unfolding set_update_where same_code_def
      by (intro bexI [of _ "?g r"]) (simp_all only: mem_Collect_eq, blast)
  qed
  ultimately show ?thesis using assms(1) unfolding traced_def set_update_where by blast
qed

lemma traced_insert:
  assumes "insert_new co_id r t = Some t'" and "traced env es box fs t held" and "row_traced env es box r"
  shows "traced env es box fs t' held"
  using assms by (auto simp: traced_def insert_new_Some account_traced_def)

lemma traced_start:
  fixes now sent i junk code email
  assumes "traced env es (set (ad_outbox db)) (faces db) (ad_verifications db) held"
  defines "db' \<equiv> snd (signup_start env email code junk i sent now db)"
  shows "traced env (insert (Served (SignupStart email code junk i sent)) es) (set (ad_outbox db')) (faces db') (ad_verifications db') held"
proof -
  let ?es = "insert (Served (SignupStart email code junk i sent)) es"
  let ?existing = "account_by email db \<noteq> None"
  let ?row = "new_code i email (if ?existing then junk else signup_codeHash env email code)
    (minutesFromNow CODE_TTL_MINUTES now) (if ?existing then Some now else None) now ()"
  let ?t = "close_codes email now (ad_verifications db)"
  show ?thesis
  proof (cases "code_refused MAX_CODES_PER_HOUR RESEND_COOLDOWN_MS email now (ad_verifications db) \<or> insert_new co_id ?row ?t = None")
    case True
    then have "db' = db" by (auto simp: db'_def signup_start_def Let_def)
    then show ?thesis using traced_mono [OF assms(1)] by blast
  next
    case False
    then obtain t where t: "insert_new co_id ?row ?t = Some t" by blast
    have fields: "set (ad_outbox db') = (if sent then insert (if ?existing then AlreadyRegistered email else VerificationCode email code)
        (set (ad_outbox db)) else set (ad_outbox db))" "faces db' = faces db" "ad_verifications db' = t"
      using False t by (auto simp: db'_def signup_start_def Let_def send_mail_def faces_def)
    have "traced env es (set (ad_outbox db)) (faces db) ?t held"
      unfolding close_codes_def by (rule traced_update [OF assms(1)]) (simp add: same_code_def code_open_def)
    then have "traced env ?es (set (ad_outbox db')) (faces db) ?t held"
      by (rule traced_mono) (auto simp: fields(1))
    moreover have "row_traced env ?es (set (ad_outbox db')) ?row"
    proof (cases ?existing)
      case False
      have "code_issued env ?es (set (ad_outbox db')) ?row"
        unfolding code_issued_def
        by (intro exI [of _ code] exI [of _ junk] exI [of _ sent]) (use False in \<open>simp add: new_code_def fields(1)\<close>)
      then show ?thesis by (simp add: row_traced_def new_code_def)
    qed (simp add: row_traced_def new_code_def code_open_def)
    ultimately show ?thesis unfolding fields(2,3) by (rule traced_insert [OF t])
  qed
qed

lemma traced_settle:
  fixes now code token email
  assumes "traced env es (set (ad_outbox db)) (faces db) (ad_verifications db) held" and "unique_by co_id (ad_verifications db)"
    and "r \<in> set (ad_verifications db)" and "same_code p r" and "co_email p = email"
    and "e = Served (SignupVerify email code token) \<or> e = Entered email code token"
  defines "db' \<equiv> snd (signup_settle env email code token p now db)"
  shows "traced env (insert e es) (set (ad_outbox db')) (faces db') (ad_verifications db') held"
proof -
  have more: "traced env (insert e es) (set (ad_outbox db)) (faces db) (ad_verifications db) held"
    by (rule traced_mono [OF assms(1)]) auto
  have same: "ad_outbox db' = ad_outbox db" "faces db' = faces db"
    by (auto simp: db'_def signup_settle_def Let_def faces_def split: option.split)
  consider (wrong) "ad_verifications db' = count_attempt MAX_CODE_ATTEMPTS (co_id p) now (ad_verifications db)"
    | (none) "ad_verifications db' = ad_verifications db"
    | (right) t where "co_codeHash p = signup_codeHash env email code" "ad_verifications db' = t"
        "verify_code (co_id p) (hashToken env token) (minutesFromNow SIGNUP_TOKEN_TTL_MINUTES now) now (ad_verifications db) = Some t"
    by (cases "co_codeHash p = signup_codeHash env email code";
        cases "verify_code (co_id p) (hashToken env token) (minutesFromNow SIGNUP_TOKEN_TTL_MINUTES now) now (ad_verifications db)";
        cases "Some (hashToken env token) \<in> co_tokenHash ` set (ad_verifications db)")
      (auto simp: db'_def signup_settle_def Let_def)
  then show ?thesis
  proof cases
    case wrong
    show ?thesis unfolding same wrong count_attempt_def
      by (rule traced_update [OF more]) (simp add: same_code_def code_open_def)
  next
    case none
    then show ?thesis using more by (simp add: same)
  next
    case right
    let ?hit = "\<lambda>r. co_id r = co_id p \<and> code_open r"
    let ?f = "\<lambda>r. r\<lparr>co_verifiedAt := Some now, co_tokenHash := Some (hashToken env token),
      co_tokenExpiresAt := Some (minutesFromNow SIGNUP_TOKEN_TTL_MINUTES now)\<rparr>"
    have t: "t = update_where ?hit ?f (ad_verifications db)"
      using right(3) by (simp add: verify_code_def Let_def split: if_split_asm)
    have one: "x = r" if "x \<in> set (ad_verifications db)" "co_id x = co_id p" for x
      using unique_byD [OF assms(2), of x r] that assms(3,4) by (simp add: same_code_def)
    have "row_traced env (insert e es) (set (ad_outbox db)) (if ?hit x then ?f x else x)" if "x \<in> set (ad_verifications db)" for x
    proof (cases "?hit x")
      case True
      have old: "row_traced env (insert e es) (set (ad_outbox db)) x" using more that by (simp add: traced_def)
      then have "code_issued env (insert e es) (set (ad_outbox db)) (?f x)" using True by (simp add: row_traced_def code_issued_def)
      moreover have "code_entered env (insert e es) (?f x)"
        unfolding code_entered_def using one [OF that] True assms(4,5,6) right(1)
        by (intro exI [of _ code] exI [of _ token]) (auto simp: same_code_def)
      ultimately show ?thesis using True by (simp add: row_traced_def)
    next
      case False
      then show ?thesis using more that by (simp only: traced_def if_False)
    qed
    moreover have "account_traced env (insert e es) t f" if f: "account_traced env (insert e es) (ad_verifications db) f" for f
    proof -
      obtain x where x: "x \<in> set (ad_verifications db)" "co_email x = snd f" "co_verifiedAt x \<noteq> None" "co_tokenUsedAt x \<noteq> None"
        "token_shown env (insert e es) (fst f) x" using f by (auto simp: account_traced_def)
      moreover have "x \<in> set t"
        unfolding t set_update_where using x(1,3) by (intro CollectI exI [of _ x]) (auto simp: code_open_def)
      ultimately show ?thesis by (auto simp: account_traced_def)
    qed
    moreover have "\<exists>x \<in> set t. same_code q x" if "y \<in> set (ad_verifications db)" "same_code q y" for q y
    proof -
      have "(if ?hit y then ?f y else y) \<in> set t" unfolding t set_update_where using that(1) by blast
      moreover have "same_code q (if ?hit y then ?f y else y)" using that(2) by (simp add: same_code_def)
      ultimately show ?thesis by blast
    qed
    moreover have "row_traced env (insert e es) (set (ad_outbox db)) x" if "x \<in> set t" for x
      using that calculation(1) unfolding t set_update_where by blast
    ultimately show ?thesis using more unfolding same right(2) traced_def by meson
  qed
qed

lemma traced_complete:
  fixes now newId req
  assumes "traced env es (set (ad_outbox db)) (faces db) (ad_verifications db) held" and "list_all code_ok (ad_verifications db)"
  defines "db' \<equiv> snd (signup_complete env req newId now db)"
  shows "traced env (insert (Served (SignupComplete req newId)) es) (set (ad_outbox db')) (faces db') (ad_verifications db') held"
proof -
  let ?es = "insert (Served (SignupComplete req newId)) es" and ?h = "hashToken env (sq_signupToken req)"
  have more: "traced env ?es (set (ad_outbox db)) (faces db) (ad_verifications db) held"
    by (rule traced_mono [OF assms(1)]) auto
  obtain c t where ct: "claim_token ?h now (ad_verifications db) = (c, t)" by fastforce
  let ?d = "db\<lparr>ad_verifications := t\<rparr>"
  let ?made = "isValidVerifier (ae_decode env (sq_srpVerifier req)) \<and>
    (\<exists>claim. c = Some claim \<and> account_by (co_email claim) ?d = None \<and> account_of newId ?d = None)"
  consider (no) "db' = db" | (yes) claim where "c = Some claim" "set (ad_outbox db') = set (ad_outbox db)"
      "faces db' = faces db @ [(newId, co_email claim)]" "ad_verifications db' = t"
  proof (cases ?made)
    case True
    then obtain claim where "isValidVerifier (ae_decode env (sq_srpVerifier req))" "c = Some claim"
      "account_by (co_email claim) ?d = None" "account_of newId ?d = None" by blast
    then have "set (ad_outbox db') = set (ad_outbox db)" "faces db' = faces db @ [(newId, co_email claim)]" "ad_verifications db' = t"
      by (simp_all add: db'_def signup_complete_def ct Let_def faces_def)
    then show ?thesis using that(2) \<open>c = Some claim\<close> by blast
  next
    case False
    then have "db' = db" by (cases c) (auto simp: db'_def signup_complete_def ct Let_def)
    then show ?thesis by (rule that(1))
  qed
  then show ?thesis
  proof cases
    case no
    then show ?thesis using more by simp
  next
    case yes
    have t: "t = update_where (token_live ?h now) (\<lambda>r. r\<lparr>co_tokenUsedAt := Some now\<rparr>) (ad_verifications db)"
      using ct by (simp add: claim_token_def)
    have c: "claim \<in> set (ad_verifications db)" "token_live ?h now claim"
      using ct yes(1) find_set by (fastforce simp: claim_token_def)+
    have "traced env ?es (set (ad_outbox db)) (faces db) t held"
      unfolding t by (rule traced_update [OF more]) (simp add: same_code_def code_open_def)
    moreover have "account_traced env ?es t (newId, co_email claim)"
    proof -
      have "co_verifiedAt claim \<noteq> None" using assms(2) c by (auto simp: list_all_iff code_ok_def token_live_def)
      moreover have "token_shown env ?es newId claim" using c(2) by (auto simp: token_shown_def token_live_def)
      ultimately show ?thesis using c unfolding account_traced_def
        by (intro bexI [of _ "claim\<lparr>co_tokenUsedAt := Some now\<rparr>"]) (auto simp: t set_update_where token_shown_def)
    qed
    ultimately show ?thesis by (simp add: traced_def yes(2-4))
  qed
qed

lemma traced_reachable:
  "auth_trace env es db held \<Longrightarrow> traced env (set es) (set (ad_outbox db)) (faces db) (ad_verifications db) held"
proof (induction rule: auth_trace.induct)
  case start
  then show ?case by (simp add: traced_def no_accounts_def faces_def)
next
  case (served es db held c now)
  have inv: "accounts_inv (faces db) (ad_verifications db)" by (rule inv_reachable [OF auth_trace_steps [OF served.hyps]])
  show ?case
  proof (cases "same_faces db (auth_call_db env c now db)")
    case True
    then show ?thesis using traced_mono [OF served.IH, of "set (es @ [Served c])"] by (simp add: same_faces_def subset_insertI)
  next
    case False
    then show ?thesis
    proof (cases c)
      case (SignupVerify email code token)
      show ?thesis
      proof (cases "latest_code email now (ad_verifications db)")
        case None
        then show ?thesis using False by (simp add: SignupVerify signup_verify_def)
      next
        case (Some p)
        then have "p \<in> set (ad_verifications db)" "co_email p = email" by (auto dest: latest_code_mem)
        then show ?thesis using traced_settle [OF served.IH _ _ _ _ disjI1 [OF refl], of p p email code token now] inv Some
          by (simp add: SignupVerify signup_verify_def accounts_inv_def same_code_def)
      qed
    next
      case (SignupStart email code junk i sent)
      then show ?thesis using traced_start [OF served.IH] by simp
    next
      case (SignupComplete req i)
      then show ?thesis using traced_complete [OF served.IH] inv by (simp add: accounts_inv_def)
    qed (simp_all add: same_faces_calls)
  qed
next
  case (reads es db held email now p)
  then have "p \<in> set (ad_verifications db)" by (auto dest: latest_code_mem)
  then show ?case using reads.IH by (auto simp: traced_def same_code_def)
next
  case (settles es db held p email code token now)
  have "accounts_inv (faces db) (ad_verifications db)" by (rule inv_reachable [OF auth_trace_steps [OF settles.hyps(1)]])
  moreover obtain r where "r \<in> set (ad_verifications db)" "same_code p r" using settles.IH settles.hyps(2) by (auto simp: traced_def)
  ultimately show ?case
    using traced_settle [OF settles.IH _ _ _ settles.hyps(3) disjI2 [OF refl], of r code token now] by (simp add: accounts_inv_def)
qed

section \<open>Sign-up\<close>

text \<open>C13. Whatever requests arrive and however the checks of codes interleave, behind every account there is a
  code that was drawn for a sign-up of its address and mailed there if that mail went out; someone
  entered a code for that address with the same keyed hash; and the request that made the account showed the token
  that was given for that entry, which is spent.\<close>

theorem accounts_verified:
  assumes "auth_trace env es db held" and "a \<in> set (ad_accounts db)"
  shows "\<exists>r \<in> set (ad_verifications db). co_email r = la_email a \<and> co_verifiedAt r \<noteq> None \<and> co_tokenUsedAt r \<noteq> None \<and>
    (\<exists>code junk sent. Served (SignupStart (la_email a) code junk (co_id r) sent) \<in> set es \<and>
       co_codeHash r = signup_codeHash env (la_email a) code \<and> (sent \<longrightarrow> VerificationCode (la_email a) code \<in> set (ad_outbox db))) \<and>
    (\<exists>code token. (Served (SignupVerify (la_email a) code token) \<in> set es \<or> Entered (la_email a) code token \<in> set es) \<and>
       co_codeHash r = signup_codeHash env (la_email a) code \<and> co_tokenHash r = Some (hashToken env token)) \<and>
    (\<exists>req. Served (SignupComplete req (la_id a)) \<in> set es \<and> co_tokenHash r = Some (hashToken env (sq_signupToken req)))"
proof -
  note run = traced_reachable [OF assms(1)]
  have "(la_id a, la_email a) \<in> set (faces db)" using assms(2) by (auto simp: faces_def)
  then obtain r where r: "r \<in> set (ad_verifications db)" "co_email r = la_email a" "co_verifiedAt r \<noteq> None" "co_tokenUsedAt r \<noteq> None"
    "token_shown env (set es) (la_id a) r" using run by (fastforce simp: traced_def account_traced_def)
  then have "code_issued env (set es) (set (ad_outbox db)) r" "code_entered env (set es) r"
    using run by (auto simp: traced_def row_traced_def)
  then show ?thesis using r unfolding code_issued_def code_entered_def token_shown_def by (intro bexI [of _ r]) simp_all
qed

text \<open>C14. Requests that read a code before it was closed gain nothing by racing: a token is only given out
  for a code that fewer than five wrong tries have been counted against.\<close>

theorem code_guess_limit:
  assumes "(auth_step env)\<^sup>*\<^sup>* (no_accounts, {}) (db, held)" and "p \<in> held"
    and "signup_settle env email code token p now db = (Inr x, db')"
  shows "\<exists>r \<in> set (ad_verifications db). co_id r = co_id p \<and> co_attempts r < MAX_CODE_ATTEMPTS"
proof -
  have "\<exists>r \<in> set (ad_verifications db). co_id r = co_id p \<and> code_open r"
    using assms(3) by (auto simp: signup_settle_def verify_code_def Let_def filter_empty_conv split: if_splits)
  with inv_reachable [OF assms(1)] show ?thesis by (auto simp: accounts_inv_def list_all_iff code_ok_def)
qed

section \<open>Shutting out\<close>

text \<open>Everything that lets someone act as an account, or is about to: unrevoked sessions, challenges, parked logins.\<close>

datatype way_in = BySession id | ByChallenge id | ByParkedLogin id

definition ways_in :: "id \<Rightarrow> account_db \<Rightarrow> way_in set" where
  "ways_in u db = (BySession \<circ> sr_id) ` set (filter (\<lambda>r. sr_accountId r = u \<and> sr_revokedAt r = None) (ad_sessions db)) \<union>
     (ByChallenge \<circ> srpc_id) ` set (filter (\<lambda>c. srpc_accountId c = Some u) (ad_challenges db)) \<union>
     (ByParkedLogin \<circ> pl_id) ` set (filter (\<lambda>p. pl_accountId p = u) (ad_pending db))"

lemma revoked_others:
  assumes "r \<in> set (snd (ds_revokeAllExcept u keep now t))" and "sr_accountId r = u" and "sr_revokedAt r = None"
  shows "sr_id r = keep"
proof -
  let ?hit = "\<lambda>r. sr_accountId r = u \<and> sr_id r \<noteq> keep \<and> sr_revokedAt r = None"
  obtain y where y: "y \<in> set t" "r = (if ?hit y then y\<lparr>sr_revokedAt := Some now\<rparr> else y)"
    using assms(1) by (auto simp: ds_revokeAllExcept_def Let_def set_update_where simp del: split_paired_Ex)
  show ?thesis
  proof (cases "?hit y")
    case True
    then have "r = y\<lparr>sr_revokedAt := Some now\<rparr>" using y(2) by simp
    then show ?thesis using assms(3) by simp
  next
    case False
    then have "r = y" using y(2) by (simp only: if_False)
    then show ?thesis using False assms(2,3) by blast
  qed
qed

lemma ways_in_after:
  assumes "\<And>c. c \<in> set (ad_challenges d) \<Longrightarrow> srpc_accountId c \<noteq> Some u"
    and "\<And>p. p \<in> set (ad_pending d) \<Longrightarrow> pl_accountId p \<noteq> u"
  shows "ways_in u (notify sent m (revoke_others u keep now d)) \<subseteq> {BySession keep}"
proof -
  let ?d = "notify sent m (revoke_others u keep now d)"
  have "ad_challenges ?d = ad_challenges d" "ad_pending ?d = ad_pending d"
    "ad_sessions ?d = snd (ds_revokeAllExcept u keep now (ad_sessions d))"
    by (simp_all add: notify_def revoke_others_def)
  then show ?thesis using assms revoked_others [of _ u keep now "ad_sessions d"] by (auto simp: ways_in_def)
qed

lemma dropPendingLogins_none:
  "c \<in> set (ad_challenges (dropPendingLogins u d)) \<Longrightarrow> srpc_accountId c \<noteq> Some u"
  "p \<in> set (ad_pending (dropPendingLogins u d)) \<Longrightarrow> pl_accountId p \<noteq> u"
  by (auto simp: dropPendingLogins_def)

lemma changePassword_Inr:
  assumes "changePassword env u keep req sent now db = (Inr m2, db')"
  obtains d e where "db' = notify sent (PasswordChanged e) (revoke_others u keep now (dropPendingLogins u d))"
proof -
  let ?m = "reauthenticate env u (reauthentication.truncate req) now db"
  have "isValidVerifier (ae_decode env (pw_srpVerifier req))" using assms by (simp add: changePassword_def Let_def split: if_splits)
  with assms obtain x d where "?m = (Inr x, d)" by (cases ?m; cases "fst ?m") (auto simp: changePassword_def Let_def)
  with assms that show thesis by (auto simp: changePassword_def Let_def split: if_splits option.splits)
qed

lemma issue_session_Inr:
  assumes "issue_session env u dev i token now d = (Inr s, d')"
  shows "se_id s = i \<and> ad_challenges d' = ad_challenges d \<and> ad_pending d' = ad_pending d"
  using assms by (auto simp: issue_session_def ds_issue_def Let_def toSession_def split: if_splits)

lemma recovery_replace_Inr:
  "recovery_replace env req u now d = (Inr e, d') \<Longrightarrow> \<exists>d0. d' = dropPendingLogins u d0"
  by (auto simp: recovery_replace_def Let_def split: prod.splits if_splits)

lemma recovery_complete_Inr:
  assumes "recovery_complete env req keep token sent now db = (Inr (token', e, u), db')"
  obtains d m where "db' = notify sent m (revoke_others u keep now d)"
    "\<And>c. c \<in> set (ad_challenges d) \<Longrightarrow> srpc_accountId c \<noteq> Some u" "\<And>p. p \<in> set (ad_pending d) \<Longrightarrow> pl_accountId p \<noteq> u"
proof -
  obtain v d1 email d2 s d3 where run: "recovery_replace env req u now d1 = (Inr (Some email), d2)"
      "issue_session env u (rc_device req) keep token now d2 = (Inr s, d3)"
      "db' = notify sent (AccountRecovered email) (revoke_others u (se_id s) now d3)"
    using assms by (auto simp: recovery_complete_def outcome_iffs split: if_splits option.splits)
  note i = issue_session_Inr [OF run(2)]
  obtain d0 where "d2 = dropPendingLogins u d0" using recovery_replace_Inr [OF run(1)] by blast
  with i run(3) that [of "AccountRecovered email" d3] show thesis by (auto dest: dropPendingLogins_none)
qed

text \<open>A master password replaced by its owner or by a recovery; \<open>kept\<close> is the session that remains.\<close>

definition password_replaced :: "account_env \<Rightarrow> id \<Rightarrow> id \<Rightarrow> time \<Rightarrow> account_db \<Rightarrow> account_db \<Rightarrow> bool" where
  "password_replaced env u kept now db db' \<longleftrightarrow>
     (\<exists>req sent m2. changePassword env u kept req sent now db = (Inr m2, db')) \<or>
     (\<exists>req token sent e. recovery_complete env req kept token sent now db = (Inr (token, e, u), db'))"

text \<open>C8. Once a master password is replaced, by a change or by a recovery, nothing else lets anyone in: of the
  account's sessions only the one that made the change is left, and no login that passed the old password,
  waiting for its proof or for a second factor's code, remains.\<close>

theorem new_password_shuts_out:
  assumes "password_replaced env u kept now db db'"
  shows "ways_in u db' \<subseteq> {BySession kept}"
  using assms unfolding password_replaced_def
proof (elim disjE exE)
  fix req sent m2 assume "changePassword env u kept req sent now db = (Inr m2, db')"
  then show ?thesis
    by (elim changePassword_Inr) (simp only:, rule ways_in_after, auto dest: dropPendingLogins_none)
next
  fix req token sent e assume "recovery_complete env req kept token sent now db = (Inr (token, e, u), db')"
  then show ?thesis
    by (elim recovery_complete_Inr) (simp only:, rule ways_in_after)
qed

section \<open>Login\<close>

lemma verify_proof_agrees:
  assumes "verifierFor x = Some v" and "createChallenge (ae_sha env) v b = Some (b', B)"
    and "client_session (ae_sha env) a email (ae_decode env (kd_salt kdf)) x B = Some c"
    and "\<And>s. ae_decode env (ae_encode env s) = s"
    and "srpc_email ch = email" "srpc_secretB ch = b'" "srpc_publicB ch = B"
  shows "verify_proof env ch kdf v (ae_encode env (cl_publicA c)) (ae_encode env (cl_m1 c)) =
    Some \<lparr>vd_serverProof = cl_m2 c, vd_sessionKey = cl_key c\<rparr>"
  using srp_agreement [OF assms(1-3)] assms(4-7) by (simp add: verify_proof_def)

lemma no_key:
  assumes "x \<notin> k ` set t"
  shows "find (\<lambda>r. k r = x) t = None" "find (\<lambda>r. k r = x \<and> P r) t = None" "delete_where (\<lambda>r. k r = x) t = t"
  using assms by (auto simp: find_None_iff) (induction t, auto)

lemma login_start_Inr:
  assumes "login_start env email b i now db = (Inr r, db1)" and "account_by email db = Some a"
  obtains b' B where "createChallenge (ae_sha env) (la_srpVerifier a) b = Some (b', B)"
    "r = \<lparr>lr_loginId = i, lr_kdf = la_kdf a, lr_srpB = ae_encode env B\<rparr>"
    "take_challenge i db1 = (Some \<lparr>srpc_id = i, srpc_accountId = Some (la_id a), srpc_email = email, srpc_secretB = b',
        srpc_publicB = B, srpc_expiresAt = minutesFromNow CHALLENGE_TTL_MINUTES now\<rparr>,
      db\<lparr>ad_challenges := delete_where (\<lambda>c. srpc_expiresAt c < now) (ad_challenges db)\<rparr>)"
proof -
  let ?t = "delete_where (\<lambda>c. srpc_expiresAt c < now) (ad_challenges db)"
  have acc: "account_by email (db\<lparr>ad_challenges := ?t\<rparr>) = Some a" using assms(2) by (simp add: account_by_def)
  then obtain b' B where B: "createChallenge (ae_sha env) (la_srpVerifier a) b = Some (b', B)"
    using assms(1) by (auto simp: login_start_def Let_def kdf_and_verifier_def split: option.splits)
  let ?row = "\<lparr>srpc_id = i, srpc_accountId = Some (la_id a), srpc_email = email, srpc_secretB = b',
        srpc_publicB = B, srpc_expiresAt = minutesFromNow CHALLENGE_TTL_MINUTES now\<rparr>"
  have new: "i \<notin> srpc_id ` set ?t" and r: "r = \<lparr>lr_loginId = i, lr_kdf = la_kdf a, lr_srpB = ae_encode env B\<rparr>"
    and db1: "db1 = db\<lparr>ad_challenges := ?t @ [?row]\<rparr>"
    using assms(1) acc B by (auto simp: login_start_def Let_def kdf_and_verifier_def insert_new_def split: if_splits)
  have "find (\<lambda>c. srpc_id c = i) ?t = None" "delete_where (\<lambda>c. srpc_id c = i) ?t = ?t"
    by (rule no_key [OF new])+
  then have "take_challenge i db1 = (Some ?row, db\<lparr>ad_challenges := ?t\<rparr>)"
    by (simp add: take_challenge_def db1 find_append) (simp add: delete_where_def)
  with B r that show thesis by blast
qed

lemma issue_session_new:
  assumes "i \<notin> sr_id ` set (ad_sessions d)" and "ae_sha env token \<notin> sr_tokenHash ` set (ad_sessions d)"
  shows "\<exists>t. issue_session env u dev i token now d = (Inr (new_session (ae_sha env) u dev now i token), d\<lparr>ad_sessions := t\<rparr>) \<and>
    fst (ds_authenticate (ae_sha env) token now t) = Some (new_session (ae_sha env) u dev now i token)"
proof -
  let ?r = "\<lparr>sr_id = i, sr_accountId = u, sr_tokenHash = ae_sha env token, sr_device = dev,
    sr_expiresAt = now + SESSION_ABSOLUTE_TTL_MS, sr_revokedAt = None, sr_lastSeenAt = now, sr_createdAt = now\<rparr>"
  have s: "toSession ?r = new_session (ae_sha env) u dev now i token" by (simp add: toSession_def new_session_def)
  have "find (\<lambda>r. sr_tokenHash r = ae_sha env token \<and> live_row now r) (ad_sessions d) = None"
    by (rule no_key(2) [OF assms(2)])
  moreover have "live_row now ?r" by (simp add: live_row_def SESSION_ABSOLUTE_TTL_MS_def SESSION_IDLE_TTL_MS_def)
  ultimately have "fst (ds_authenticate (ae_sha env) token now (ad_sessions d @ [?r])) = Some (toSession ?r)"
    by (simp add: ds_authenticate_def find_append TOUCH_GRANULARITY_MS_def)
  moreover have "issue_session env u dev i token now d = (Inr (toSession ?r), d\<lparr>ad_sessions := ad_sessions d @ [?r]\<rparr>)"
    using assms by (simp add: issue_session_def ds_issue_def Let_def ret_def)
  ultimately show ?thesis unfolding s by blast
qed

lemma parked_login_opens:
  assumes "park_login env (la_id a) dev i token now d = (Inr expiry, db)" and "at < expiry"
    and "fst (tf_verify (drizzle_repository at) (ae_crypto env) (la_id a) at code (ad_twoFactor d)) = Inr ()"
    and "account_of (la_id a) d = Some a" and "sid \<notin> sr_id ` set (ad_sessions d)" and "ae_sha env bearer \<notin> sr_tokenHash ` set (ad_sessions d)"
  shows "\<exists>db2. finishTwoFactor env token code sid bearer at db = (Inr \<lparr>os_sessionToken = bearer,
      os_expiresAt = at + SESSION_ABSOLUTE_TTL_MS, os_accountId = la_id a, os_encryptedKeyset = la_encryptedKeyset a\<rparr>, db2) \<and>
    fst (ds_authenticate (ae_sha env) bearer at (ad_sessions db2)) = Some (new_session (ae_sha env) (la_id a) dev at sid bearer)"
proof -
  let ?t = "delete_where (\<lambda>p. pl_expiresAt p < now) (ad_pending d)"
  let ?row = "\<lparr>pl_id = i, pl_accountId = la_id a, pl_tokenHash = hashToken env token, pl_device = dev, pl_attempts = 0, pl_expiresAt = expiry\<rparr>"
  let ?tick = "?row\<lparr>pl_attempts := 1\<rparr>"
  have db: "db = d\<lparr>ad_pending := ?t @ [?row]\<rparr>" and fresh: "hashToken env token \<notin> pl_tokenHash ` set ?t" "i \<notin> pl_id ` set ?t"
    using assms(1) by (auto simp: park_login_def Let_def throw_def ret_def split: if_splits)
  have others: "find (attempt_open (hashToken env token) at) ?t = None" "find (\<lambda>p. pl_id p = i) ?t = None"
    using fresh by (simp_all only: find_None_iff attempt_open_def) (metis image_eqI)+
  have kept: "update_where (attempt_open (hashToken env token) at) f ?t = ?t" for f
    by (rule update_where_id) (use fresh in \<open>metis attempt_open_def image_eqI\<close>)
  have open_row: "attempt_open (hashToken env token) at ?row"
    using assms(2) by (simp add: attempt_open_def TWO_FACTOR_CHALLENGE_MAX_ATTEMPTS_def)
  have "update_where (attempt_open (hashToken env token) at) f (?t @ [?row]) = ?t @ [f ?row]" for f
    using kept open_row by (simp add: update_where_def)
  then have taken: "take_attempt (hashToken env token) at db = (Some ?tick, d\<lparr>ad_pending := ?t @ [?tick]\<rparr>)"
    using others(1) open_row by (simp add: take_attempt_def db find_append)
  obtain tf where check: "tf_verify (drizzle_repository at) (ae_crypto env) (la_id a) at code (ad_twoFactor d) = (Inr (), tf)"
    using assms(3) by (metis prod.exhaust_sel)
  let ?d = "d\<lparr>ad_twoFactor := tf, ad_pending := delete_where (\<lambda>p. pl_id p = i) (?t @ [?tick])\<rparr>"
  obtain t where issued: "issue_session env (la_id a) dev sid bearer at ?d =
      (Inr (new_session (ae_sha env) (la_id a) dev at sid bearer), ?d\<lparr>ad_sessions := t\<rparr>)"
    "fst (ds_authenticate (ae_sha env) bearer at t) = Some (new_session (ae_sha env) (la_id a) dev at sid bearer)"
    using issue_session_new [of sid ?d env bearer "la_id a" dev at] assms(5,6) by auto
  have "account_of (la_id a) ?d = Some a" using assms(4) by (simp add: account_of_def)
  moreover have "se_expiresAt (new_session (ae_sha env) (la_id a) dev at sid bearer) = at + SESSION_ABSOLUTE_TTL_MS"
    by (simp add: new_session_def)
  ultimately show ?thesis
    using issued others(2) by (simp add: finishTwoFactor_def taken check_second_factor_def check and_then_def find_append openSession_def
        ret_def Let_def)
qed


section \<open>Concrete runs\<close>

definition demo_auth_env :: account_env where
  "demo_auth_env = \<lparr>ae_sha = one_hash, ae_mac = (\<lambda>k m. m), ae_secret = '''', ae_crypto = demo_tf_crypto,
     ae_decode = (\<lambda>s. s), ae_encode = (\<lambda>s. s), ae_hkdf = (\<lambda>k i n. '''')\<rparr>"

lemma demo_auth_env_simps [simp]:
  "ae_sha demo_auth_env = one_hash" "ae_decode demo_auth_env s = s" "ae_encode demo_auth_env s = s"
  by (simp_all add: demo_auth_env_def)

definition demo_sealed :: blob where "demo_sealed = \<lparr>bl_kid = '''', bl_nonce = '''', bl_ct = ''''\<rparr>"

definition demo_account :: "string \<Rightarrow> login_account" where
  "demo_account v = \<lparr>la_id = ''u'', la_email = ''a'', la_secretKeyId = ''k'', la_kdf = kdf_defaults ''s'', la_srpVerifier = v,
     la_encryptedKeyset = demo_sealed, la_recoveryKeyset = None, la_recoveryVerifier = None, la_recoveryUpdatedAt = None,
     la_updatedAt = 0\<rparr>"

definition demo_accounts :: "string \<Rightarrow> account_db" where
  "demo_accounts v = no_accounts\<lparr>ad_accounts := [demo_account v]\<rparr>"

text \<open>An open code, and the same code once its token is spent.\<close>

definition demo_code :: mail_code where
  "demo_code = new_code ''i'' ''a'' (signup_codeHash demo_auth_env ''a'' ''1'') (minutesFromNow CODE_TTL_MINUTES 0) None 0 ()"

definition demo_code_sent :: account_db where
  "demo_code_sent = no_accounts\<lparr>ad_verifications := [demo_code], ad_outbox := [VerificationCode ''a'' ''1'']\<rparr>"

lemma demo_start: "auth_call_db demo_auth_env (SignupStart ''a'' ''1'' '''' ''i'' True) 0 no_accounts = demo_code_sent"
  by (simp add: signup_start_def no_accounts_def account_by_def code_refused_def close_codes_def insert_new_def
      MAX_CODES_PER_HOUR_def send_mail_def demo_code_sent_def demo_code_def Let_def)

lemma demo_latest: "latest_code ''a'' 0 (ad_verifications demo_code_sent) = Some demo_code"
  by (simp add: latest_code_def demo_code_sent_def demo_code_def new_code_def code_open_def minutesFromNow_def CODE_TTL_MINUTES_def)

definition demo_proved :: account_db where
  "demo_proved = demo_code_sent\<lparr>ad_verifications := [demo_code\<lparr>co_verifiedAt := Some 0, co_tokenHash := Some [CHR 0x01],
     co_tokenExpiresAt := Some (minutesFromNow SIGNUP_TOKEN_TTL_MINUTES 0)\<rparr>]\<rparr>"

lemma demo_settle:
  "signup_settle demo_auth_env ''a'' ''1'' ''t'' demo_code 0 demo_code_sent =
     (Inr (''t'', minutesFromNow SIGNUP_TOKEN_TTL_MINUTES 0), demo_proved)"
  by (simp add: signup_settle_def demo_proved_def demo_code_sent_def demo_code_def new_code_def verify_code_def code_open_def
      hashToken_def one_hash_def Let_def ret_def)

lemma demo_verify: "auth_call_db demo_auth_env (SignupVerify ''a'' ''1'' ''t'') 0 demo_code_sent = demo_proved"
  by (simp add: signup_verify_def demo_latest demo_settle)

definition demo_signup :: "string \<Rightarrow> signup_complete_req" where
  "demo_signup v = \<lparr>sq_signupToken = ''t'', sq_secretKeyId = ''k'', sq_kdf = kdf_defaults ''s'', sq_srpVerifier = v,
     sq_encryptedKeyset = demo_sealed\<rparr>"

definition demo_signed_up :: "string \<Rightarrow> account_db" where
  "demo_signed_up v = demo_proved\<lparr>ad_verifications := map (co_tokenUsedAt_update (\<lambda>_. Some 0)) (ad_verifications demo_proved),
     ad_accounts := [demo_account v]\<rparr>"

lemma demo_complete:
  "isValidVerifier v \<Longrightarrow> auth_call_db demo_auth_env (SignupComplete (demo_signup v) ''u'') 0 demo_proved = demo_signed_up v"
  by (simp add: signup_complete_def demo_signup_def demo_signed_up_def demo_proved_def demo_code_sent_def demo_code_def new_code_def
      claim_token_def token_live_def hashToken_def one_hash_def minutesFromNow_def SIGNUP_TOKEN_TTL_MINUTES_def no_accounts_def
      account_by_def account_of_def demo_account_def Let_def)

theorem accounts_verified_witness:
  "\<exists>db :: account_db. la_email ` set (ad_accounts db) = {''a''} \<and>
     (\<exists>r \<in> set (ad_verifications db). co_email r = ''a'' \<and> co_verifiedAt r \<noteq> None \<and> co_tokenUsedAt r \<noteq> None \<and>
       co_codeHash r = signup_codeHash demo_auth_env ''a'' ''1'')"
proof -
  obtain v where v: "isValidVerifier v" using verifierFor_total [of "[CHR 0x02]"] demo_verifier by blast
  let ?start = "SignupStart ''a'' ''1'' [] ''i'' True" and ?verify = "SignupVerify ''a'' ''1'' ''t''"
  let ?complete = "SignupComplete (demo_signup v) ''u''"
  have "auth_trace demo_auth_env ([] @ [Served ?start]) demo_code_sent {}"
    using auth_trace.served [OF auth_trace.start, of demo_auth_env ?start 0] by (simp only: demo_start)
  from auth_trace.served [OF this, of ?verify 0] have "auth_trace demo_auth_env (([] @ [Served ?start]) @ [Served ?verify]) demo_proved {}"
    by (simp only: demo_verify)
  from auth_trace.served [OF this, of ?complete 0]
  have run: "auth_trace demo_auth_env ((([] @ [Served ?start]) @ [Served ?verify]) @ [Served ?complete]) (demo_signed_up v) {}"
    by (simp only: demo_complete [OF v])
  have "ad_accounts (demo_signed_up v) = [demo_account v]" by (simp add: demo_signed_up_def)
  with accounts_verified [OF run, of "demo_account v"] show ?thesis
    by (intro exI [of _ "demo_signed_up v"]) (auto simp: demo_account_def)
qed

theorem code_guess_limit_witness:
  "\<exists>r \<in> set (ad_verifications demo_code_sent). co_id r = ''i'' \<and> co_attempts r < MAX_CODE_ATTEMPTS"
proof -
  let ?step = "auth_step demo_auth_env"
  have "?step (no_accounts, {}) (demo_code_sent, {})" using auth_step.call [of demo_auth_env] demo_start by metis
  moreover have "?step (demo_code_sent, {}) (demo_code_sent, {demo_code})" by (rule auth_step.read_code [OF demo_latest])
  ultimately have "?step\<^sup>*\<^sup>* (no_accounts, {}) (demo_code_sent, {demo_code})"
    by (blast intro: rtranclp.rtrancl_refl rtranclp.rtrancl_into_rtrancl)
  from code_guess_limit [OF this _ demo_settle] show ?thesis by (simp add: demo_code_def new_code_def)
qed

text \<open>A challenge for the demo account, and its answer.\<close>

lemma demo_login:
  obtains v B and c :: client_session and db1 where "verifierFor [CHR 0x02] = Some v"
    "login_start demo_auth_env ''a'' [CHR 0x03] ''i'' 0 (demo_accounts v) =
      (Inr \<lparr>lr_loginId = ''i'', lr_kdf = kdf_defaults ''s'', lr_srpB = B\<rparr>, db1)"
    "client_session one_hash 1 ''a'' ''s'' [CHR 0x02] B = Some c"
proof -
  obtain v where v: "verifierFor [CHR 0x02] = Some v" using verifierFor_total by blast
  obtain B where B: "createChallenge one_hash v [CHR 0x03] = Some ([CHR 0x03], B)" using createChallenge_total by blast
  obtain c where c: "client_session one_hash 1 ''a'' ''s'' [CHR 0x02] B = Some (c :: client_session)"
    using demo_client [OF v B, of 1 "''a''" "''s''"] by blast
  have "\<exists>db1. login_start demo_auth_env ''a'' [CHR 0x03] ''i'' 0 (demo_accounts v) =
      (Inr \<lparr>lr_loginId = ''i'', lr_kdf = kdf_defaults ''s'', lr_srpB = B\<rparr>, db1)"
    by (simp add: login_start_def demo_accounts_def no_accounts_def account_by_def kdf_and_verifier_def demo_account_def B
        insert_new_def Let_def ret_def)
  with v c that show thesis by blast
qed

lemma demo_accounts_facts:
  "account_by ''a'' (demo_accounts v) = Some (demo_account v)" "la_srpVerifier (demo_account v) = v"
  "la_kdf (demo_account v) = kdf_defaults ''s''" "la_id (demo_account v) = ''u''"
  "unique_by la_id (ad_accounts (demo_accounts v))" "\<not> second_factor_on ''u'' t (demo_accounts v)"
  "ad_sessions (demo_accounts v) = []" "kd_salt (kdf_defaults s) = s" "ae_decode demo_auth_env (ae_encode demo_auth_env s) = s"
  by (simp_all add: demo_accounts_def demo_account_def account_by_def no_accounts_def unique_by_def second_factor_on_def
      tf_isEnabled_def drizzle_repository_def drizzle_find_def kdf_defaults_def)

lemma no_pending: "ad_pending (demo_accounts v) = []" by (simp add: demo_accounts_def no_accounts_def)


lemma challenge_way_in:
  assumes "take_challenge i db = (Some c, d)" and "srpc_accountId c = Some u"
  shows "ByChallenge i \<in> ways_in u db"
proof -
  have "c \<in> set (ad_challenges db) \<and> srpc_id c = i" using assms(1) find_set by (fastforce simp: take_challenge_def)
  then show ?thesis using assms(2) by (auto simp: ways_in_def)
qed

lemma demo_reauthenticated:
  assumes "verifierFor [CHR 0x02] = Some v"
    and "login_start demo_auth_env ''a'' [CHR 0x03] ''i'' 0 (demo_accounts v) =
      (Inr \<lparr>lr_loginId = ''i'', lr_kdf = kdf_defaults ''s'', lr_srpB = B\<rparr>, db1)"
    and "client_session one_hash 1 ''a'' ''s'' [CHR 0x02] B = Some c"
  shows "\<exists>db2. reauthenticate demo_auth_env ''u'' \<lparr>ra_loginId = ''i'', ra_srpA = cl_publicA c, ra_srpM1 = cl_m1 c\<rparr> 0 db1 =
    (Inr (cl_m2 c), db2) \<and> account_of ''u'' db2 \<noteq> None"
proof -
  obtain b' B' where B: "createChallenge (ae_sha demo_auth_env) (la_srpVerifier (demo_account v)) [CHR 0x03] = Some (b', B')" "B' = B"
    and take: "take_challenge ''i'' db1 = (Some \<lparr>srpc_id = ''i'', srpc_accountId = Some (la_id (demo_account v)), srpc_email = ''a'',
        srpc_secretB = b', srpc_publicB = B', srpc_expiresAt = minutesFromNow CHALLENGE_TTL_MINUTES 0\<rparr>,
      demo_accounts v\<lparr>ad_challenges := delete_where (\<lambda>c. srpc_expiresAt c < 0) (ad_challenges (demo_accounts v))\<rparr>)"
    using login_start_Inr [OF assms(2) demo_accounts_facts(1)] by (metis demo_auth_env_simps(3) login_start_response.ext_inject)
  have "client_session (ae_sha demo_auth_env) 1 ''a'' (ae_decode demo_auth_env (kd_salt (kdf_defaults ''s''))) [CHR 0x02] B' = Some c"
    using assms(3) B(2) by (simp add: demo_accounts_facts)
  note checked = verify_proof_agrees [OF assms(1) B(1) [unfolded demo_accounts_facts(2)] this demo_accounts_facts(9)]
  show ?thesis
    using checked by (simp add: reauthenticate_def take demo_accounts_facts account_of_def)
      (simp add: demo_accounts_def demo_account_def minutesFromNow_def CHALLENGE_TTL_MINUTES_def)
qed

theorem new_password_shuts_out_witness:
  "\<exists>db1 db2. ByChallenge ''i'' \<in> ways_in ''u'' db1 \<and> ways_in ''u'' db2 \<subseteq> {BySession ''keep''}"
proof -
  obtain v B c db1 where d: "verifierFor [CHR 0x02] = Some v"
    "login_start demo_auth_env ''a'' [CHR 0x03] ''i'' 0 (demo_accounts v) =
      (Inr \<lparr>lr_loginId = ''i'', lr_kdf = kdf_defaults ''s'', lr_srpB = B\<rparr>, db1)"
    "client_session one_hash 1 ''a'' ''s'' [CHR 0x02] B = Some (c :: client_session)"
    by (rule demo_login)
  let ?req = "\<lparr>ra_loginId = ''i'', ra_srpA = cl_publicA c, ra_srpM1 = cl_m1 c, pw_kdf = kdf_defaults ''s'', pw_srpVerifier = v,
    pw_encryptedKeyset = demo_sealed\<rparr>"
  obtain db2 where "reauthenticate demo_auth_env ''u'' (reauthentication.truncate ?req) 0 db1 = (Inr (cl_m2 c), db2)"
    "account_of ''u'' db2 \<noteq> None"
    using demo_reauthenticated [OF d] by (auto simp: reauthentication.truncate_def)
  then obtain m2 db3 where "changePassword demo_auth_env ''u'' ''keep'' ?req True 0 db1 = (Inr m2, db3)"
    using demo_verifier [OF d(1)] by (auto simp: changePassword_def Let_def ret_def)
  then have "password_replaced demo_auth_env ''u'' ''keep'' 0 db1 db3" unfolding password_replaced_def by blast
  then have "ways_in ''u'' db3 \<subseteq> {BySession ''keep''}" by (rule new_password_shuts_out)
  moreover have "ByChallenge ''i'' \<in> ways_in ''u'' db1"
    by (rule login_start_Inr [OF d(2) demo_accounts_facts(1)]) (auto intro: challenge_way_in simp: demo_accounts_facts)
  ultimately show ?thesis by blast
qed

end
