(* ===== verification/TeamModel.thy ===== *)
theory TeamModel
  imports Orgs EnvKeys Approvals ProjectModel Totp
begin

text \<open>
  What the desktop derives from the answers of the team API, without I/O
  (\<^verbatim>\<open>apps/desktop/src/projects/teamModel.ts\<close>). The answers are the server's own records. \<open>collate\<close> is
  the order of \<^verbatim>\<open>localeCompare\<close>, \<open>day\<close> the localised date; \<open>envs\<close> maps environments to their details,
  \<open>None\<close> where they could not be loaded.
\<close>

type_synonym env_details = "(id \<times> environment_detail option) list"

definition env_at :: "env_details \<Rightarrow> id \<Rightarrow> environment_detail option" where
  "env_at envs i = Option.bind (map_of envs i) (\<lambda>d. d)"

section \<open>Levels and names\<close>

fun level_label :: "access_level \<Rightarrow> string" where
  "level_label Manage = ''Manage''"
| "level_label Edit = ''Edit''"
| "level_label Use = ''Use''"
| "level_label NeedsApproval = ''Needs approval''"
| "level_label NoAccess = ''No access''"

fun role_label :: "org_role \<Rightarrow> string" where
  "role_label OwnerR = ''Owner''"
| "role_label AdminR = ''Admin''"
| "role_label MemberR = ''Member''"

fun levelAttr :: "access_level \<Rightarrow> string" where
  "levelAttr Manage = ''manage''"
| "levelAttr Edit = ''edit''"
| "levelAttr Use = ''use''"
| "levelAttr NeedsApproval = ''approval''"
| "levelAttr NoAccess = ''none''"

fun levelChoices :: "principal_type \<Rightarrow> access_level list" where
  "levelChoices AgentP = [NeedsApproval, NoAccess]"
| "levelChoices GroupP = [Manage, Edit, Use, NeedsApproval]"
| "levelChoices AccountP = [Manage, Edit, Use, NeedsApproval, NoAccess]"

definition member_of :: "org_detail \<Rightarrow> id \<Rightarrow> org_member_view option" where
  "member_of org i = find (\<lambda>m. mv_accountId m = i) (dt_members org)"

definition group_of :: "org_detail \<Rightarrow> id \<Rightarrow> org_group_view option" where
  "group_of org i = find (\<lambda>g. gv_id g = i) (dt_groups org)"

text \<open>A principal's display name from the organization.\<close>

fun nameOf :: "principal_type \<Rightarrow> id \<Rightarrow> org_detail option \<Rightarrow> string" where
  "nameOf GroupP i org = (case Option.bind org (\<lambda>x. group_of x i) of None \<Rightarrow> ''Removed group'' | Some g \<Rightarrow> gv_name g)"
| "nameOf AgentP i org = (case Option.bind org (\<lambda>x. find (\<lambda>a. ga_id a = i) (dt_agents x)) of
     None \<Rightarrow> ''Removed agent'' | Some a \<Rightarrow> ga_name a)"
| "nameOf AccountP i org = (case Option.bind org (\<lambda>x. member_of x i) of None \<Rightarrow> ''Removed member'' | Some m \<Rightarrow> mv_email m)"

section \<open>The matrix\<close>

record matrix_cell =
  mc_environmentId :: id
  mc_level :: access_level
  mc_granted :: bool
  mc_expiresAt :: "time option"

record matrix_row =
  mr_key :: string
  mr_type :: principal_type
  mr_id :: id
  mr_name :: string
  mr_detail :: string
  mr_you :: bool
  mr_cells :: "matrix_cell list"

text \<open>\<^verbatim>\<open>parts.join(' \<cdot> ')\<close>, with the middle dot.\<close>

definition dot :: string where "dot = [CHR '' '', CHR 0xB7, CHR '' '']"

fun join_dots :: "string list \<Rightarrow> string" where
  "join_dots [] = ''''"
| "join_dots [p] = p"
| "join_dots (p # ps) = p @ dot @ join_dots ps"

fun detailOf :: "(time \<Rightarrow> string) \<Rightarrow> principal_type \<Rightarrow> id \<Rightarrow> org_detail option \<Rightarrow> matrix_cell list \<Rightarrow> string" where
  "detailOf day GroupP i org cells = (case map_option (\<lambda>g. length (gv_memberIds g)) (Option.bind org (\<lambda>x. group_of x i)) of
     None \<Rightarrow> ''Group''
   | Some n \<Rightarrow> ''Group'' @ dot @ decimal n @ '' teammate'' @ (if n = 1 then '''' else ''s''))"
| "detailOf day AgentP i org cells = ''Agent'' @ dot @ ''asks each time''"
| "detailOf day AccountP i org cells =
     (let m = Option.bind org (\<lambda>x. member_of x i)
      in if org \<noteq> None \<and> m = None then ''No longer in the organization''
         else join_dots
           ([case m of None \<Rightarrow> ''Person'' | Some m \<Rightarrow> role_label (mv_role m)] @
            (case m of None \<Rightarrow> [] | Some m \<Rightarrow> if mv_active m then [] else [''invited'']) @
            (case sort (concat (map (\<lambda>c. case mc_expiresAt c of None \<Rightarrow> [] | Some t \<Rightarrow> [t]) cells)) of
               [] \<Rightarrow> [] | t # ts \<Rightarrow> [''until '' @ day t])))"

text \<open>\<^verbatim>\<open>principals\<close>: those with a row, then those with a grant in some environment; under their key.\<close>

definition matrix_principals :: "project_access \<Rightarrow> env_details \<Rightarrow> (string \<times> (principal_type \<times> id) \<times> string option) list" where
  "matrix_principals access envs =
     (let rows = fold (\<lambda>r. AList.update (holderKey (row_type r) (row_id r)) ((row_type r, row_id r), Some (row_name r))) (pa_rows access) [];
          grants = concat (map (\<lambda>(i, d). case d of None \<Rightarrow> [] | Some d \<Rightarrow> ed_grants d) envs)
      in fold (\<lambda>g m. let key = holderKey (gw_type g) (gw_id g) in
           if map_of m key = None then AList.update key ((gw_type g, gw_id g), None) m else m) grants rows)"

definition matrix_cell_of :: "env_details \<Rightarrow> string \<Rightarrow> access_row option \<Rightarrow> id \<Rightarrow> matrix_cell" where
  "matrix_cell_of envs key row i =
     (let cell = Option.bind row (\<lambda>r. find (\<lambda>c. cell_environmentId c = i) (row_cells r));
          level = (case cell of None \<Rightarrow> NoAccess | Some c \<Rightarrow> cell_level c)
      in \<lparr>mc_environmentId = i, mc_level = level,
          mc_granted = (case env_at envs i of
              None \<Rightarrow> level \<noteq> NoAccess
            | Some d \<Rightarrow> list_ex (\<lambda>g. holderKey (gw_type g) (gw_id g) = key) (ed_grants d)),
          mc_expiresAt = Option.bind cell cell_expiresAt\<rparr>)"

definition buildMatrix :: "(string \<Rightarrow> string) \<Rightarrow> (time \<Rightarrow> string) \<Rightarrow> project_access \<Rightarrow> env_details \<Rightarrow> org_detail option \<Rightarrow> string \<Rightarrow>
    matrix_row list" where
  "buildMatrix collate day access envs org meEmail =
     (let me = Option.bind org (\<lambda>x. find (\<lambda>m. js_lower (mv_email m) = js_lower meEmail) (dt_members x));
          rows = map (\<lambda>(key, (t, i), name).
            let row = find (\<lambda>r. holderKey (row_type r) (row_id r) = key) (pa_rows access);
                cells = map (\<lambda>(e, v, rot). matrix_cell_of envs key row e) (pa_environments access)
            in \<lparr>mr_key = key, mr_type = t, mr_id = i, mr_name = (case name of None \<Rightarrow> nameOf t i org | Some n \<Rightarrow> n),
                mr_detail = detailOf day t i org cells,
                mr_you = (t = AccountP \<and> Some i = map_option mv_accountId me), mr_cells = cells\<rparr>)
            (matrix_principals access envs)
      in sort_key (\<lambda>r. (principal_order (mr_type r), if mr_you r then 0 else 1 :: nat, collate (mr_name r))) rows)"

record candidate =
  cd_type :: principal_type
  cd_id :: id
  cd_name :: string

definition candidates :: "org_detail \<Rightarrow> matrix_row list \<Rightarrow> candidate list" where
  "candidates org rows = filter (\<lambda>c. holderKey (cd_type c) (cd_id c) \<notin> mr_key ` set rows)
     (map (\<lambda>g. \<lparr>cd_type = GroupP, cd_id = gv_id g, cd_name = gv_name g\<rparr>) (dt_groups org) @
      map (\<lambda>m. \<lparr>cd_type = AccountP, cd_id = mv_accountId m, cd_name = mv_email m\<rparr>) (dt_members org) @
      map (\<lambda>a. \<lparr>cd_type = AgentP, cd_id = ga_id a, cd_name = ga_name a\<rparr>) (dt_agents org))"

section \<open>Keys still to be handed over\<close>

record key_hand_off =
  kf_accountId :: id
  kf_name :: string
  kf_waitingFor :: "string list"

definition add_hand_off :: "org_detail option \<Rightarrow> id \<times> string \<Rightarrow> (id \<times> key_hand_off) list \<Rightarrow> (id \<times> key_hand_off) list" where
  "add_hand_off org w out =
     (let entry = (case map_of out (fst w) of Some e \<Rightarrow> e
        | None \<Rightarrow> \<lparr>kf_accountId = fst w, kf_name = nameOf AccountP (fst w) org, kf_waitingFor = []\<rparr>)
      in AList.update (fst w) (if snd w \<in> set (kf_waitingFor entry) then entry
           else entry\<lparr>kf_waitingFor := kf_waitingFor entry @ [snd w]\<rparr>) out)"

definition pendingHandOffs :: "(string \<Rightarrow> string) \<Rightarrow> project_access \<Rightarrow> env_details \<Rightarrow> org_detail option \<Rightarrow> (id \<Rightarrow> string) \<Rightarrow>
    key_hand_off list" where
  "pendingHandOffs collate access envs org envName =
     (let waiting = map (\<lambda>w. (pw_accountId w, ''project names'')) (pa_pendingProjectWraps access) @
            concat (map (\<lambda>(e, v, rot). case env_at envs e of None \<Rightarrow> []
              | Some d \<Rightarrow> map (\<lambda>w. (pw_accountId w, envName e)) (ed_pendingWraps d)) (pa_environments access))
      in sort_key (\<lambda>h. collate (kf_name h)) (map snd (fold (add_hand_off org) waiting [])))"

definition rotationNeeded :: "project_access \<Rightarrow> id list" where
  "rotationNeeded access = map fst (filter (\<lambda>(i, v, rotate). rotate) (pa_environments access))"

section \<open>Who can use what\<close>

definition level_order :: "access_level \<Rightarrow> nat" where
  "level_order l = (case l of Manage \<Rightarrow> 0 | Edit \<Rightarrow> 1 | Use \<Rightarrow> 2 | NeedsApproval \<Rightarrow> 3 | NoAccess \<Rightarrow> 4)"

record env_user =
  eu_key :: string
  eu_type :: principal_type
  eu_name :: string
  eu_level :: access_level
  eu_you :: bool

definition level_here :: "matrix_row \<Rightarrow> id \<Rightarrow> access_level" where
  "level_here r i = (case find (\<lambda>c. mc_environmentId c = i) (mr_cells r) of None \<Rightarrow> NoAccess | Some c \<Rightarrow> mc_level c)"

definition whoCanUse :: "(string \<Rightarrow> string) \<Rightarrow> matrix_row list \<Rightarrow> id \<Rightarrow> env_user list" where
  "whoCanUse collate rows envId = sort_key (\<lambda>u. (level_order (eu_level u), collate (eu_name u)))
     (map (\<lambda>r. \<lparr>eu_key = mr_key r, eu_type = mr_type r, eu_name = mr_name r, eu_level = level_here r envId, eu_you = mr_you r\<rparr>)
       (filter (\<lambda>r. level_here r envId \<noteq> NoAccess) rows))"

record secret_user = env_user +
  su_detail :: string
  su_envIds :: "id list"

definition secretAccess :: "(string \<Rightarrow> string) \<Rightarrow> matrix_row list \<Rightarrow> id \<Rightarrow> secret_user list" where
  "secretAccess collate rows envId =
     sort_key (\<lambda>u. (level_order (eu_level u), if eu_you u then 0 else 1 :: nat, collate (eu_name u)))
       (concat (map (\<lambda>r. let envIds = map mc_environmentId (filter (\<lambda>c. mc_level c \<noteq> NoAccess) (mr_cells r)) in
          if envIds = [] then [] else [\<lparr>eu_key = mr_key r, eu_type = mr_type r, eu_name = mr_name r,
            eu_level = level_here r envId, eu_you = mr_you r, su_detail = mr_detail r, su_envIds = envIds\<rparr>]) rows))"

definition isOrgAdmin :: "org_detail option \<Rightarrow> bool" where
  "isOrgAdmin org = (case org of None \<Rightarrow> False | Some x \<Rightarrow> dt_role x \<in> set ADMIN_ROLES)"

definition canManageEnv :: "org_detail option \<Rightarrow> environment_detail option \<Rightarrow> bool" where
  "canManageEnv org env \<longleftrightarrow> isOrgAdmin org \<or> map_option ed_myLevel env = Some Manage"

datatype team_status = TeamLoading | TeamReady | TeamUnshared | TeamFailed

definition canEditEnv :: "bool \<Rightarrow> (team_status \<times> env_details) option \<Rightarrow> id \<Rightarrow> bool" where
  "canEditEnv owner team envId =
     (if owner then True
      else case team of
        Some (TeamReady, envs) \<Rightarrow> (case env_at envs envId of None \<Rightarrow> True | Some d \<Rightarrow> levelAtLeast (ed_myLevel d) Edit)
      | _ \<Rightarrow> True)"

section \<open>Rotation\<close>

definition live_view :: "time \<Rightarrow> grant_view \<Rightarrow> bool" where
  "live_view now g \<longleftrightarrow> (case gw_expiresAt g of None \<Rightarrow> True | Some t \<Rightarrow> now < t)"

definition member_level_in :: "grant_view list \<Rightarrow> org_member_view \<Rightarrow> access_level" where
  "member_level_in live m =
     (case find (\<lambda>g. gw_type g = AccountP \<and> gw_id g = mv_accountId m) live of
        Some g \<Rightarrow> gw_level g
      | None \<Rightarrow> fold (\<lambda>g best. strongerLevel best (gw_level g))
          (filter (\<lambda>g. gw_type g = GroupP \<and> gw_id g \<in> set (mv_groupIds m)) live) NoAccess)"

definition keyHolders :: "environment_detail \<Rightarrow> org_detail \<Rightarrow> id list \<Rightarrow> time \<Rightarrow> pending_wrap list" where
  "keyHolders env org always now =
     (let live = filter (live_view now) (ed_grants env)
      in concat (map (\<lambda>m. case mv_publicKey m of
           None \<Rightarrow> []
         | Some k \<Rightarrow>
             if mv_accountId m \<in> set always \<or> (mv_active m \<and> holdsKey (member_level_in live m))
             then [\<lparr>pw_accountId = mv_accountId m, pw_publicKey = k\<rparr>] else []) (dt_members org)))"

text \<open>The ids in an error message: \<^verbatim>\<open>message.match(UUID)\<close>, without regard to case.\<close>

definition hex_char :: "char \<Rightarrow> bool" where
  "hex_char ch \<longleftrightarrow> (CHR ''0'' \<le> ch \<and> ch \<le> CHR ''9'') \<or> (CHR ''a'' \<le> ch \<and> ch \<le> CHR ''f'') \<or> (CHR ''A'' \<le> ch \<and> ch \<le> CHR ''F'')"

definition uuid_here :: "string \<Rightarrow> bool" where
  "uuid_here s \<longleftrightarrow> 36 \<le> length s \<and>
     list_all (\<lambda>(n, ch). if n \<in> {8, 13, 18, 23} then ch = CHR ''-'' else hex_char ch) (enumerate 0 (take 36 s))"

fun uuids_in :: "string \<Rightarrow> string list" where
  "uuids_in [] = []"
| "uuids_in (ch # s) = (if uuid_here (ch # s) then take 36 (ch # s) # uuids_in (drop 35 s) else uuids_in s)"

definition missingRecipients :: "string \<Rightarrow> id list" where
  "missingRecipients message = js_set (map js_lower (uuids_in message))"

definition recipient_of :: "org_detail \<Rightarrow> id \<Rightarrow> pending_wrap option" where
  "recipient_of org i = map_option (\<lambda>k. \<lparr>pw_accountId = i, pw_publicKey = k\<rparr>) (Option.bind (member_of org i) mv_publicKey)"

definition recipientsFor :: "org_detail \<Rightarrow> id list \<Rightarrow> pending_wrap list option" where
  "recipientsFor org ids = (let found = map (recipient_of org) ids in if None \<in> set found then None else Some (map the found))"

definition environmentValues :: "secret_view list \<Rightarrow> id \<Rightarrow> id \<Rightarrow> (id \<times> blob) list" where
  "environmentValues secrets projectId envId = concat (map (\<lambda>s. if sv_projectId s \<noteq> projectId then [] else
     (case map_of (sv_values s) envId of None \<Rightarrow> [] | Some b \<Rightarrow> [(sv_id s, b)])) secrets)"

section \<open>Releases\<close>

record release_item =
  ri_item :: js_text
  ri_secretId :: id
  ri_environmentId :: id
  ri_encryptedValue :: blob

definition release_item_of :: "project_view \<Rightarrow> secret_view list \<Rightarrow> id \<Rightarrow> js_text \<Rightarrow> release_item option" where
  "release_item_of project secrets envId item =
     (case (find (\<lambda>e. ei_id e = envId) (pw_environments project), parseSecretPath item) of
        (Some env, Some path) \<Rightarrow>
          if sl_project path = pw_slug project \<and> sl_environment path = ei_slug env
          then Option.bind (find (\<lambda>s. sv_projectId s = pw_id project \<and> sv_key s = sl_key path \<and>
                 map_option fv_slug (sv_folder s) = sl_folder path) secrets) (\<lambda>s.
               Option.bind (valueSource project s envId) (\<lambda>source.
               map_option (\<lambda>b. \<lparr>ri_item = item, ri_secretId = sv_id s, ri_environmentId = source, ri_encryptedValue = b\<rparr>)
                 (map_of (sv_values s) source)))
          else None
      | _ \<Rightarrow> None)"

definition releaseItems :: "project_view \<Rightarrow> secret_view list \<Rightarrow> id \<Rightarrow> js_text list \<Rightarrow> release_item list \<times> js_text list" where
  "releaseItems project secrets envId items =
     (concat (map (\<lambda>item. case release_item_of project secrets envId item of None \<Rightarrow> [] | Some r \<Rightarrow> [r]) items),
      filter (\<lambda>item. release_item_of project secrets envId item = None) items)"

end
