(* ===== verification/TeamClient.thy ===== *)
theory TeamClient
  imports TeamModel
begin

text \<open>
  The desktop's store of team access (\<^verbatim>\<open>apps/desktop/src/projects/team.ts\<close>) over the error texts of
  \<^verbatim>\<open>teamApi.ts\<close>. Requests of one \<^verbatim>\<open>Promise.all\<close> run in the order they are listed. The API, the Rust
  core and the projects source are fields of \<open>team_io\<close> over a world that they may change. Messages that
  quote names are kept without them, those with typographic quotes in plain words.
\<close>

text \<open>\<open>TeamHttp\<close> is a \<^verbatim>\<open>TeamError\<close> with its status, \<open>OtherFailure\<close> any other \<^verbatim>\<open>Error\<close>, with its message.\<close>

datatype team_failure = TeamHttp nat string | OtherFailure string

definition MANAGERS_ONLY :: string where "MANAGERS_ONLY = ''Only managers/owners can change this.''"

fun teamError :: "team_failure \<Rightarrow> string" where
  "teamError (TeamHttp status message) =
     (if status = 403 then MANAGERS_ONLY
      else if status = 429 then ''Too many changes at once. Wait a minute and try again.'' else message)"
| "teamError (OtherFailure message) = message"

section \<open>The outside\<close>

type_synonym ('a, 'w) team_reply = "(team_failure, 'a, 'w) outcome"

record org_summary =
  oy_id :: id
  oy_name :: string
  oy_role :: org_role
  oy_active :: bool

datatype team_write =
    AskJoinOrg id string
  | AskInviteMember id string bool
  | AskChangeRole id id org_role
  | AskRemoveMember id id
  | AskCreateGroup id string
  | AskDeleteGroup id id
  | AskAddToGroup id id id
  | AskRemoveFromGroup id id id
  | AskRemoveAgent id id
  | AskLinkProject id id
  | AskPutGrant id put_grant_req
  | AskDeleteGrant id principal_type id
  | AskAddProjectWraps id "member_wrap list"
  | AskAddEnvironmentWraps id nat "member_wrap list"
  | AskRotateEnvironment id nat "member_wrap list" "(id \<times> blob) list"
  | AskApproveRequest id stored_release
  | AskDenyRequest id

record 'w team_io =
  ti_listOrgs :: "'w \<Rightarrow> (org_summary list, 'w) team_reply"
  ti_org :: "id \<Rightarrow> 'w \<Rightarrow> (org_detail, 'w) team_reply"
  ti_createOrg :: "string \<Rightarrow> string \<Rightarrow> 'w \<Rightarrow> (org_detail, 'w) team_reply"
  ti_projectAccess :: "id \<Rightarrow> 'w \<Rightarrow> (project_access, 'w) team_reply"
  ti_environment :: "id \<Rightarrow> 'w \<Rightarrow> (environment_detail, 'w) team_reply"
  ti_listRequests :: "id \<Rightarrow> 'w \<Rightarrow> (access_request_view list, 'w) team_reply"
  ti_write :: "team_write \<Rightarrow> 'w \<Rightarrow> (unit, 'w) team_reply"
  ti_publicKey :: "'w \<Rightarrow> (string, 'w) team_reply"
  ti_projects :: "'w \<Rightarrow> project_view list \<times> secret_view list"
  ti_pull :: "id \<Rightarrow> 'w \<Rightarrow> (unit, 'w) team_reply"
  ti_wrapProjectKey :: "id \<Rightarrow> pending_wrap list \<Rightarrow> 'w \<Rightarrow> (member_wrap list, 'w) team_reply"
  ti_wrapEnvironmentKey :: "id \<Rightarrow> id \<Rightarrow> nat \<Rightarrow> pending_wrap list \<Rightarrow> 'w \<Rightarrow> (nat \<times> member_wrap list, 'w) team_reply"
  ti_rotateKey :: "id \<Rightarrow> id \<Rightarrow> nat \<Rightarrow> pending_wrap list \<Rightarrow> (id \<times> blob) list \<Rightarrow> 'w \<Rightarrow>
    (nat \<times> member_wrap list \<times> (id \<times> blob) list, 'w) team_reply"
  ti_commitRotation :: "id \<Rightarrow> id \<Rightarrow> 'w \<Rightarrow> (bool, 'w) team_reply"
  ti_sealRelease :: "id \<Rightarrow> id \<Rightarrow> string \<Rightarrow> release_item list \<Rightarrow> 'w \<Rightarrow> (stored_release, 'w) team_reply"
  ti_openRelease :: "id \<Rightarrow> stored_release \<Rightarrow> 'w \<Rightarrow> ((js_text \<times> js_text) list, 'w) team_reply"

section \<open>The snapshot\<close>

record project_team =
  pt_status :: team_status
  pt_error :: "string option"
  pt_access :: "project_access option"
  pt_envs :: env_details
  pt_requests :: "(id \<times> access_request_view list option) list"
  pt_org :: "org_detail option"

record key_hand_over =
  kv_step :: "js_text option"
  kv_error :: "string option"
  kv_skipped :: "js_text list"

datatype orgs_status = OrgsIdle | OrgsLoading | OrgsReady | OrgsFailed

record team_snapshot =
  tn_orgsStatus :: orgs_status
  tn_orgsError :: "string option"
  tn_orgs :: "org_summary list"
  tn_projects :: "(id \<times> project_team) list"
  tn_handOvers :: "(id \<times> key_hand_over) list"

definition initial_team :: team_snapshot where
  "initial_team = \<lparr>tn_orgsStatus = OrgsIdle, tn_orgsError = None, tn_orgs = [], tn_projects = [], tn_handOvers = []\<rparr>"

definition LOADING :: project_team where
  "LOADING = \<lparr>pt_status = TeamLoading, pt_error = None, pt_access = None, pt_envs = [], pt_requests = [], pt_org = None\<rparr>"

type_synonym ('a, 'w) team_op = "(team_failure, 'a, team_snapshot \<times> 'w) outcome"

definition call_team :: "('w \<Rightarrow> ('a, 'w) team_reply) \<Rightarrow> team_snapshot \<times> 'w \<Rightarrow> ('a, 'w) team_op" where
  "call_team f st = (case f (snd st) of (r, w) \<Rightarrow> (r, (fst st, w)))"

definition setProject :: "id \<Rightarrow> project_team \<Rightarrow> team_snapshot \<times> 'w \<Rightarrow> team_snapshot \<times> 'w" where
  "setProject p x st = ((fst st)\<lparr>tn_projects := AList.update p x (tn_projects (fst st))\<rparr>, snd st)"

definition setHandOver :: "id \<Rightarrow> key_hand_over \<Rightarrow> team_snapshot \<times> 'w \<Rightarrow> team_snapshot \<times> 'w" where
  "setHandOver p x st = ((fst st)\<lparr>tn_handOvers := AList.update p x (tn_handOvers (fst st))\<rparr>, snd st)"

definition loadOrgs :: "'w team_io \<Rightarrow> team_snapshot \<times> 'w \<Rightarrow> team_snapshot \<times> 'w" where
  "loadOrgs io st =
     (let st = ((fst st)\<lparr>tn_orgsStatus := OrgsLoading, tn_orgsError := None\<rparr>, snd st)
      in case call_team (ti_listOrgs io) st of
           (Inr orgs, (n, w)) \<Rightarrow> (n\<lparr>tn_orgs := orgs, tn_orgsStatus := OrgsReady\<rparr>, w)
         | (Inl e, (n, w)) \<Rightarrow> (n\<lparr>tn_orgsStatus := OrgsFailed, tn_orgsError := Some (teamError e)\<rparr>, w))"

text \<open>\<^verbatim>\<open>Promise.all(ids.map(\<dots>.catch(() => undefined)))\<close>\<close>

fun call_each :: "(id \<Rightarrow> 'w \<Rightarrow> ('a, 'w) team_reply) \<Rightarrow> id list \<Rightarrow> 'w \<Rightarrow> (id \<times> 'a option) list \<times> 'w" where
  "call_each f [] w = ([], w)"
| "call_each f (i # is) w = (case f i w of (r, w1) \<Rightarrow> (case call_each f is w1 of (rest, w2) \<Rightarrow>
     ((i, case r of Inl e \<Rightarrow> None | Inr x \<Rightarrow> Some x) # rest, w2)))"

text \<open>What is loaded for a project: the access matrix, the organization, and per environment its details and requests.\<close>

definition fetch_project :: "'w team_io \<Rightarrow> id \<Rightarrow> 'w \<Rightarrow> (project_team, 'w) team_reply" where
  "fetch_project io p w = and_then (ti_projectAccess io p w) (\<lambda>access w.
     let ids = map fst (pa_environments access) in
     case ti_org io (pa_orgId access) w of (org, w) \<Rightarrow>
     case call_each (ti_environment io) ids w of (envs, w) \<Rightarrow>
     case call_each (ti_listRequests io) ids w of (requests, w) \<Rightarrow>
     (case org of
        Inl e \<Rightarrow> throw e w
      | Inr x \<Rightarrow> ret \<lparr>pt_status = TeamReady, pt_error = None, pt_access = Some access, pt_envs = envs,
          pt_requests = requests, pt_org = Some x\<rparr> w))"

definition loadProject :: "'w team_io \<Rightarrow> id \<Rightarrow> team_snapshot \<times> 'w \<Rightarrow> team_snapshot \<times> 'w" where
  "loadProject io p st =
     (let known = map_of (tn_projects (fst st)) p;
          st = (if known = None \<or> map_option pt_status known = Some TeamFailed then setProject p LOADING st else st)
      in case call_team (fetch_project io p) st of
           (Inr team, st) \<Rightarrow> setProject p team st
         | (Inl e, st) \<Rightarrow>
             (if \<exists>m. e = TeamHttp 404 m
              then let st = setProject p (LOADING\<lparr>pt_status := TeamUnshared\<rparr>) st
                   in if tn_orgsStatus (fst st) = OrgsIdle then loadOrgs io st else st
              else setProject p ((case known of None \<Rightarrow> LOADING | Some x \<Rightarrow> x)
                \<lparr>pt_status := TeamFailed, pt_error := Some (teamError e)\<rparr>) st))"

text \<open>\<^verbatim>\<open>try .. finally { await this.loadProject(projectId) }\<close>\<close>

definition reloading :: "'w team_io \<Rightarrow> id \<Rightarrow> ('a, 'w) team_op \<Rightarrow> ('a, 'w) team_op" where
  "reloading io p m = (case m of (r, st) \<Rightarrow> (r, loadProject io p st))"

section \<open>Organizations\<close>

definition createOrg :: "'w team_io \<Rightarrow> string \<Rightarrow> team_snapshot \<times> 'w \<Rightarrow> (org_detail, 'w) team_op" where
  "createOrg io name st = and_then (call_team (ti_publicKey io) st) (\<lambda>key st.
     and_then (call_team (ti_createOrg io (js_trim name) key) st) (\<lambda>org st. ret org (loadOrgs io st)))"

definition acceptInvite :: "'w team_io \<Rightarrow> id \<Rightarrow> team_snapshot \<times> 'w \<Rightarrow> (unit, 'w) team_op" where
  "acceptInvite io orgId st = and_then (call_team (ti_publicKey io) st) (\<lambda>key st.
     and_then (call_team (ti_write io (AskJoinOrg orgId key)) st) (\<lambda>_ st. ret () (loadOrgs io st)))"

definition link_project :: "'w team_io \<Rightarrow> id \<Rightarrow> id \<Rightarrow> team_snapshot \<times> 'w \<Rightarrow> (unit, 'w) team_op" where
  "link_project io p orgId st = and_then (call_team (ti_write io (AskLinkProject p orgId)) st)
     (\<lambda>_ st. ret () (loadProject io p st))"

text \<open>\<^verbatim>\<open>orgWrite\<close>, for inviting, roles, removing, groups and agents; group names are trimmed.\<close>

definition orgWrite :: "'w team_io \<Rightarrow> id \<Rightarrow> team_write \<Rightarrow> team_snapshot \<times> 'w \<Rightarrow> (unit, 'w) team_op" where
  "orgWrite io p req st = reloading io p (call_team (ti_write io req) st)"

definition create_group :: "'w team_io \<Rightarrow> id \<Rightarrow> id \<Rightarrow> string \<Rightarrow> team_snapshot \<times> 'w \<Rightarrow> (unit, 'w) team_op" where
  "create_group io p orgId name st = orgWrite io p (AskCreateGroup orgId (js_trim name)) st"

section \<open>Handing over keys\<close>

definition UNREADABLE_ENV :: js_text where
  "UNREADABLE_ENV = ascii ''an environment you can'' @ [8217] @ ascii ''t read''"

definition hand_over_step :: "id \<Rightarrow> js_text \<Rightarrow> js_text list \<Rightarrow> team_snapshot \<times> 'w \<Rightarrow> team_snapshot \<times> 'w" where
  "hand_over_step p name skipped = setHandOver p \<lparr>kv_step = Some name, kv_error = None, kv_skipped = skipped\<rparr>"

text \<open>The loop over environments: what was skipped, and the failure that ended it.\<close>

fun hand_over_envs :: "'w team_io \<Rightarrow> project_view \<Rightarrow> environment_detail list \<Rightarrow> js_text list \<Rightarrow> team_snapshot \<times> 'w \<Rightarrow>
    (js_text list \<times> team_failure option) \<times> team_snapshot \<times> 'w" where
  "hand_over_envs io project [] skipped st = ((skipped, None), st)"
| "hand_over_envs io project (env # envs) skipped st =
     (case find (\<lambda>e. ei_id e = ed_environmentId env) (pw_environments project) of
        None \<Rightarrow> hand_over_envs io project envs (skipped @ [UNREADABLE_ENV]) st
      | Some e \<Rightarrow>
          if ei_locked e then hand_over_envs io project envs (skipped @ [ei_name e]) st
          else
            let st = hand_over_step (pw_id project) (ei_name e) skipped st
            in case and_then (call_team (ti_wrapEnvironmentKey io (pw_id project) (ed_environmentId env) (ed_keyVersion env)
                   (ed_pendingWraps env)) st)
                 (\<lambda>(version, wraps). call_team (ti_write io (AskAddEnvironmentWraps (ed_environmentId env) version wraps))) of
                 (Inl failure, st) \<Rightarrow> ((skipped, Some failure), st)
               | (Inr _, st) \<Rightarrow> hand_over_envs io project envs skipped st)"

definition hand_over_project :: "'w team_io \<Rightarrow> id \<Rightarrow> pending_wrap list \<Rightarrow> team_snapshot \<times> 'w \<Rightarrow> (unit, 'w) team_op" where
  "hand_over_project io p waiting st =
     (if waiting = [] then ret () st
      else and_then (call_team (ti_wrapProjectKey io p waiting) (hand_over_step p (ascii ''project names'') [] st))
        (\<lambda>wraps. call_team (ti_write io (AskAddProjectWraps p wraps))))"

definition waiting_envs :: "project_team \<Rightarrow> project_access \<Rightarrow> environment_detail list" where
  "waiting_envs team access = concat (map (\<lambda>(i, v, rot). case env_at (pt_envs team) i of
     None \<Rightarrow> [] | Some d \<Rightarrow> if ed_pendingWraps d = [] then [] else [d]) (pa_environments access))"

definition handOverKeys :: "'w team_io \<Rightarrow> id \<Rightarrow> team_snapshot \<times> 'w \<Rightarrow> bool \<times> team_snapshot \<times> 'w" where
  "handOverKeys io p st =
     (let team = map_of (tn_projects (fst st)) p;
          project = find (\<lambda>x. pw_id x = p) (fst (ti_projects io (snd st)))
      in case (Option.bind team pt_access, project) of
           (Some access, Some project) \<Rightarrow>
             if Option.bind (map_of (tn_handOvers (fst st)) p) kv_step \<noteq> None then (False, st)
             else let toEnvs = waiting_envs (the team) access in
               if pa_pendingProjectWraps access = [] \<and> toEnvs = [] then (True, st)
               else (case hand_over_project io p (pa_pendingProjectWraps access) st of
                   (Inl e, st) \<Rightarrow> (False, loadProject io p (setHandOver p
                     \<lparr>kv_step = None, kv_error = Some (teamError e), kv_skipped = []\<rparr> st))
                 | (Inr _, st) \<Rightarrow> (case hand_over_envs io project toEnvs [] st of ((skipped, failed), st) \<Rightarrow>
                     (failed = None \<and> skipped = [], loadProject io p (setHandOver p
                       \<lparr>kv_step = None, kv_error = map_option teamError failed, kv_skipped = skipped\<rparr> st))))
         | _ \<Rightarrow> (False, st))"

section \<open>Grants\<close>

fun write_each :: "'w team_io \<Rightarrow> (id \<Rightarrow> team_write) \<Rightarrow> (team_failure \<Rightarrow> bool) \<Rightarrow> id list \<Rightarrow> team_snapshot \<times> 'w \<Rightarrow> (unit, 'w) team_op" where
  "write_each io req ignored [] st = ret () st"
| "write_each io req ignored (i # is) st = (case call_team (ti_write io (req i)) st of
     (Inl e, st) \<Rightarrow> if ignored e then write_each io req ignored is st else throw e st
   | (Inr _, st) \<Rightarrow> write_each io req ignored is st)"

definition team_grant :: "'w team_io \<Rightarrow> id \<Rightarrow> put_grant_req \<Rightarrow> id list \<Rightarrow> team_snapshot \<times> 'w \<Rightarrow> (unit, 'w) team_op" where
  "team_grant io p req envIds st =
     and_then (reloading io p (write_each io (\<lambda>i. AskPutGrant i req) (\<lambda>e. False) envIds st))
       (\<lambda>_ st. ret () (snd (handOverKeys io p st)))"

text \<open>A grant that is gone already is what was wanted.\<close>

definition already_gone :: "team_failure \<Rightarrow> bool" where
  "already_gone e = (case e of TeamHttp status m \<Rightarrow> status = 404 | OtherFailure m \<Rightarrow> False)"

definition team_revoke :: "'w team_io \<Rightarrow> id \<Rightarrow> principal_type \<Rightarrow> id \<Rightarrow> id list \<Rightarrow> team_snapshot \<times> 'w \<Rightarrow> (unit, 'w) team_op" where
  "team_revoke io p t i envIds st = reloading io p (write_each io (\<lambda>e. AskDeleteGrant e t i) already_gone envIds st)"

section \<open>Rotation\<close>

definition send_rotation :: "'w team_io \<Rightarrow> id \<Rightarrow> environment_detail \<Rightarrow> (id \<times> blob) list \<Rightarrow> pending_wrap list \<Rightarrow> team_snapshot \<times> 'w \<Rightarrow>
    (unit, 'w) team_op" where
  "send_rotation io p detail held recipients st =
     and_then (call_team (ti_rotateKey io p (ed_environmentId detail) (ed_keyVersion detail) recipients held) st)
       (\<lambda>(version, wraps, resealed). call_team (ti_write io (AskRotateEnvironment (ed_environmentId detail) version wraps resealed)))"

text \<open>The members a 422 names, to be added once; \<open>None\<close> when there is nobody to add.\<close>

definition extra_recipients :: "org_detail \<Rightarrow> pending_wrap list \<Rightarrow> team_failure \<Rightarrow> pending_wrap list option" where
  "extra_recipients org recipients e = (case e of
     TeamHttp status message \<Rightarrow>
       if status \<noteq> 422 then None
       else (case recipientsFor org (filter (\<lambda>i. i \<notin> pw_accountId ` set recipients) (missingRecipients message)) of
           None \<Rightarrow> None
         | Some extra \<Rightarrow> if extra = [] then None else Some extra)
   | OtherFailure m \<Rightarrow> None)"

definition send_rotation_twice :: "'w team_io \<Rightarrow> id \<Rightarrow> org_detail \<Rightarrow> environment_detail \<Rightarrow> (id \<times> blob) list \<Rightarrow> pending_wrap list \<Rightarrow>
    team_snapshot \<times> 'w \<Rightarrow> (unit, 'w) team_op" where
  "send_rotation_twice io p org detail held recipients st = (case send_rotation io p detail held recipients st of
     (Inr _, st) \<Rightarrow> ret () st
   | (Inl e, st) \<Rightarrow> (case extra_recipients org recipients e of
       None \<Rightarrow> throw e st
     | Some extra \<Rightarrow> send_rotation io p detail held (recipients @ extra) st))"

definition team_rotate :: "'w team_io \<Rightarrow> id \<Rightarrow> id \<Rightarrow> id option \<Rightarrow> time \<Rightarrow> team_snapshot \<times> 'w \<Rightarrow> (unit, 'w) team_op" where
  "team_rotate io p envId me now st = (case Option.bind (map_of (tn_projects (fst st)) p) pt_org of
     None \<Rightarrow> throw (OtherFailure ''The organization is still loading. Try again in a moment.'') st
   | Some org \<Rightarrow> and_then (call_team (ti_pull io p) st) (\<lambda>_ st.
       case ti_projects io (snd st) of (projects, secrets) \<Rightarrow>
       (case Option.bind (find (\<lambda>x. pw_id x = p) projects) (\<lambda>x. find (\<lambda>e. ei_id e = envId) (pw_environments x)) of
          None \<Rightarrow> throw (OtherFailure ''This device does not hold the key of this environment'') st
        | Some env \<Rightarrow>
            if ei_locked env then throw (OtherFailure ''This device does not hold the key of this environment'') st
            else and_then (call_team (ti_environment io envId) st) (\<lambda>detail st.
              reloading io p
                (and_then (send_rotation_twice io p org detail (environmentValues secrets p envId)
                    (keyHolders detail org (case me of None \<Rightarrow> [] | Some i \<Rightarrow> if i = '''' then [] else [i]) now) st) (\<lambda>_ st.
                 and_then (call_team (ti_commitRotation io p envId) st) (\<lambda>_ st. call_team (ti_pull io p) st)))))))"

section \<open>Requests\<close>

definition team_approve :: "'w team_io \<Rightarrow> id \<Rightarrow> access_request_view \<Rightarrow> team_snapshot \<times> 'w \<Rightarrow> (unit, 'w) team_op" where
  "team_approve io p request st = reloading io p (and_then (call_team (ti_pull io p) st) (\<lambda>_ st.
     case ti_projects io (snd st) of (projects, secrets) \<Rightarrow>
     (case find (\<lambda>x. pw_id x = p) projects of
        None \<Rightarrow> throw (OtherFailure ''This project is no longer available.'') st
      | Some project \<Rightarrow>
          (case releaseItems project secrets (rv_environmentId request) (map ascii (rv_items request)) of (items, missing) \<Rightarrow>
             if missing \<noteq> [] then throw (OtherFailure ''No value to release. Deny it instead.'') st
             else and_then (call_team (ti_sealRelease io p (rv_id request) (rv_requesterPublicKey request) items) st)
               (\<lambda>release. call_team (ti_write io (AskApproveRequest (rv_id request) release)))))))"

definition team_deny :: "'w team_io \<Rightarrow> id \<Rightarrow> id \<Rightarrow> team_snapshot \<times> 'w \<Rightarrow> (unit, 'w) team_op" where
  "team_deny io p requestId st = reloading io p (call_team (ti_write io (AskDenyRequest requestId)) st)"

definition releasedValue :: "'w team_io \<Rightarrow> access_request_view \<Rightarrow> js_text \<Rightarrow> 'w \<Rightarrow> (js_text, 'w) team_reply" where
  "releasedValue io request item w = (case rv_release request of
     None \<Rightarrow> throw (OtherFailure ''This release has expired.'') w
   | Some release \<Rightarrow> and_then (ti_openRelease io (rv_id request) release w) (\<lambda>opened w.
       case find (\<lambda>v. fst v = item) opened of
         None \<Rightarrow> throw (OtherFailure ''This value was not released.'') w
       | Some v \<Rightarrow> ret (snd v) w))"

end
