(* ===== verification/TeamModelProps.thy ===== *)
theory TeamModelProps
  imports TeamClient AccessProps
begin

text \<open>
  What the desktop computes about a team agrees with what the server computes: who keeps the key of
  a rotated environment, and which values an approved request asks for.
\<close>

section \<open>Levels seen by the client\<close>

lemma find_map: "find P (map f xs) = map_option f (find (\<lambda>x. P (f x)) xs)"
  by (induction xs) auto

lemma set_groups_fold:
  "set (case map_of (fold add_group ms acc) a of None \<Rightarrow> [] | Some gs \<Rightarrow> gs) =
     set (case map_of acc a of None \<Rightarrow> [] | Some gs \<Rightarrow> gs) \<union> gm_groupId ` {m \<in> set ms. gm_accountId m = a}"
proof (induction ms arbitrary: acc)
  case (Cons m ms)
  show ?case
    unfolding fold_simps o_apply Cons.IH
    by (cases "gm_accountId m = a") (auto simp: add_group_def update_conv' split: option.splits)
qed simp

lemma set_groups_of:
  "set (groups_of (org_of orgId owner db) a) = gm_groupId ` {m \<in> set (org_memberships orgId db). gm_accountId m = a}"
  using set_groups_fold [of "org_memberships orgId db" "[]" a] by (simp add: groups_of_def org_of_def)

lemma live_view_toGrant: "live_view now (toGrant g) = live_grant now g"
  by (simp add: live_view_def live_grant_def toGrant_def)

lemma toGrant_simps [simp]:
  "gw_type (toGrant g) = gf_principalType g" "gw_id (toGrant g) = gf_principalId g" "gw_level (toGrant g) = gf_level g"
  by (simp_all add: toGrant_def)

lemma fold_levels_map:
  "fold (\<lambda>g best. strongerLevel best (gw_level g)) (map toGrant gs) l = fold (\<lambda>g best. strongerLevel best (gf_level g)) gs l"
  by (induction gs arbitrary: l) simp_all

text \<open>The level the client derives for a member is the server's, the project owner apart.\<close>

lemma member_level_client:
  assumes "a \<in> set (of_activeMembers org)" and "of_projectOwnerId org \<noteq> Some a"
    and "mv_accountId m = a" and "set (mv_groupIds m) = set (groups_of org a)"
  shows "member_level_in (filter (live_view now) (map toGrant gs)) m = effectiveLevel \<lparr>kh_type = AccountP, kh_id = a\<rparr> gs org now"
proof -
  have "filter (live_view now) (map toGrant gs) = map toGrant (filter (live_grant now) gs)"
    by (simp add: filter_map live_view_toGrant comp_def)
  then show ?thesis
    using assms by (auto simp: member_level_in_def effectiveLevel_def find_map filter_map comp_def fold_levels_map Let_def
        split: option.splits)
qed

section \<open>Who keeps the key\<close>

lemma account_keys:
  assumes "unique_by om_key (tb_members db)"
  shows "map_of (org_keys orgId db) (holderKey AccountP a) = Some k \<longleftrightarrow>
    (\<exists>r \<in> set (tb_members db). om_orgId r = orgId \<and> om_accountId r = a \<and> om_publicKey r = Some k)"
proof -
  have other: "holderKey AccountP a \<notin> holderKey AgentP ` A" for A by auto
  have agents: "map_of (fold (\<lambda>x. AList.update (holderKey AgentP (ag_id x)) (ag_publicKey x)) xs m) (holderKey AccountP a) =
      map_of m (holderKey AccountP a)" for xs m
    by (induction xs arbitrary: m) (simp_all add: update_conv')
  have members: "map_of (fold (\<lambda>x. AList.update (holderKey AccountP (om_accountId x)) (the (om_publicKey x))) ms m) (holderKey AccountP a) =
      Some k \<longleftrightarrow> (\<exists>r \<in> set ms. om_accountId r = a \<and> the (om_publicKey r) = k) \<or>
        (a \<notin> om_accountId ` set ms \<and> map_of m (holderKey AccountP a) = Some k)"
    if "distinct (map om_accountId ms)" for ms m
    using that by (induction ms arbitrary: m) (auto simp: update_conv')
  have "distinct (map om_accountId (active_members orgId db))"
    using assms unfolding unique_by_def active_members_def
    by (auto simp: distinct_map om_key_def inj_on_def intro: distinct_filter)
  from members [OF this] show ?thesis
    by (auto simp: org_keys_def agents active_members_def)
qed

lemma org_members_view_mem:
  "m \<in> set (org_members_view collate orgId db) \<longleftrightarrow>
     (\<exists>r x. r \<in> set (tb_members db) \<and> om_orgId r = orgId \<and> find (\<lambda>a. ac_id a = om_accountId r) (tb_accounts db) = Some x \<and>
        m = member_view (ac_email x) (map gm_groupId (filter (\<lambda>g. gm_accountId g = om_accountId r) (org_memberships orgId db))) r)"
  by (auto simp: org_members_view_def split: option.splits) metis+

lemma keyHolders_mem:
  "x \<in> set (keyHolders env org always now) \<longleftrightarrow>
     (\<exists>m k. m \<in> set (dt_members org) \<and> mv_publicKey m = Some k \<and> x = \<lparr>pw_accountId = mv_accountId m, pw_publicKey = k\<rparr> \<and>
        (mv_accountId m \<in> set always \<or> mv_active m \<and> holdsKey (member_level_in (filter (live_view now) (ed_grants env)) m)))"
  by (auto simp: keyHolders_def split: option.splits if_splits) metis+

lemma client_keeps:
  assumes "r \<in> set (tb_members db)" and "om_orgId r = ea_orgId (fst env)" and "om_publicKey r = Some k" and "om_accountId r \<noteq> snd env"
    and "m = member_view email (map gm_groupId (filter (\<lambda>g. gm_accountId g = om_accountId r) (org_memberships (ea_orgId (fst env)) db))) r"
  shows "member_level_in (filter (live_view now) (map toGrant (grants_of (ea_environmentId (fst env)) db))) m =
    account_level env (om_accountId r) now db"
  unfolding account_level_def levelOf_def
proof (rule member_level_client)
  show "om_accountId r \<in> set (of_activeMembers (org_of (ea_orgId (fst env)) (Some (snd env)) db))"
    using assms(1-3) by (auto simp: org_of_def active_members_def)
  show "of_projectOwnerId (org_of (ea_orgId (fst env)) (Some (snd env)) db) \<noteq> Some (om_accountId r)"
    using assms(4) by (simp add: org_of_def)
  show "mv_accountId m = om_accountId r" using assms(5) by (simp add: member_view_def)
  show "set (mv_groupIds m) = set (groups_of (org_of (ea_orgId (fst env)) (Some (snd env)) db) (om_accountId r))"
    using assms(5) by (auto simp: set_groups_of member_view_def)
qed

lemma recipients_agree:
  assumes keys: "unique_by om_key (tb_members db)" and accounts: "om_accountId ` set (tb_members db) \<subseteq> ac_id ` set (tb_accounts db)"
    and org: "dt_members org = org_members_view collate (ea_orgId (fst env)) db"
    and always: "\<And>a. a \<in> set always \<Longrightarrow> holdsKey (account_level env a now db)"
    and owner: "snd env \<in> set always \<or> map_of (org_keys (ea_orgId (fst env)) db) (holderKey AccountP (snd env)) = None"
  shows "x \<in> set (keyHolders (env_detail_of me env now db) org always now) \<longleftrightarrow>
    pw_accountId x \<in> set (key_holders env now db) \<and>
    map_of (org_keys (ea_orgId (fst env)) db) (holderKey AccountP (pw_accountId x)) = Some (pw_publicKey x)"
proof
  assume "x \<in> set (keyHolders (env_detail_of me env now db) org always now)"
  then obtain m k where m: "m \<in> set (org_members_view collate (ea_orgId (fst env)) db)" "mv_publicKey m = Some k"
      "x = \<lparr>pw_accountId = mv_accountId m, pw_publicKey = k\<rparr>"
    and level: "mv_accountId m \<in> set always \<or>
      holdsKey (member_level_in (filter (live_view now) (map toGrant (grants_of (ea_environmentId (fst env)) db))) m)"
    unfolding keyHolders_mem org env_detail_of_def Let_def by auto
  from m(1) obtain r and y :: account_row where r0: "r \<in> set (tb_members db)" "om_orgId r = ea_orgId (fst env)"
    and view: "m = member_view (ac_email y) (map gm_groupId (filter (\<lambda>g. gm_accountId g = om_accountId r)
      (org_memberships (ea_orgId (fst env)) db))) r"
    unfolding org_members_view_mem by blast
  have r: "r \<in> set (tb_members db)" "om_orgId r = ea_orgId (fst env)" "om_publicKey r = Some k"
      "x = \<lparr>pw_accountId = om_accountId r, pw_publicKey = k\<rparr>" "mv_accountId m = om_accountId r"
    using r0 m(2,3) by (simp_all add: view member_view_def)
  have key: "map_of (org_keys (ea_orgId (fst env)) db) (holderKey AccountP (om_accountId r)) = Some k"
    using r(1-3) account_keys [OF keys] by blast
  have "holdsKey (account_level env (om_accountId r) now db)"
  proof (cases "om_accountId r \<in> set always")
    case False
    with owner key have "om_accountId r \<noteq> snd env" by auto
    with level False r(5) show ?thesis using client_keeps [OF r(1-3) _ view] by simp
  qed (rule always)
  with key r(4) show "pw_accountId x \<in> set (key_holders env now db) \<and>
      map_of (org_keys (ea_orgId (fst env)) db) (holderKey AccountP (pw_accountId x)) = Some (pw_publicKey x)"
    by (simp add: set_key_holders)
next
  assume x: "pw_accountId x \<in> set (key_holders env now db) \<and>
      map_of (org_keys (ea_orgId (fst env)) db) (holderKey AccountP (pw_accountId x)) = Some (pw_publicKey x)"
  then obtain r where r: "r \<in> set (tb_members db)" "om_orgId r = ea_orgId (fst env)" "om_publicKey r = Some (pw_publicKey x)"
      "om_accountId r = pw_accountId x"
    using account_keys [OF keys] by blast
  obtain y where y: "find (\<lambda>a. ac_id a = om_accountId r) (tb_accounts db) = Some y"
  proof (cases "find (\<lambda>a. ac_id a = om_accountId r) (tb_accounts db)")
    case None
    then have "om_accountId r \<notin> ac_id ` set (tb_accounts db)" by (auto simp: find_None_iff)
    with accounts r(1) show thesis by blast
  qed blast
  let ?m = "member_view (ac_email y) (map gm_groupId (filter (\<lambda>g. gm_accountId g = om_accountId r) (org_memberships (ea_orgId (fst env)) db))) r"
  have "?m \<in> set (dt_members org)" unfolding org org_members_view_mem using r y by blast
  moreover have "om_accountId r \<in> set always \<or>
      holdsKey (member_level_in (filter (live_view now) (map toGrant (grants_of (ea_environmentId (fst env)) db))) ?m)"
  proof (cases "om_accountId r = snd env")
    case True
    then show ?thesis using owner x r(4) by auto
  next
    case False
    then show ?thesis using client_keeps [OF r(1-3) False refl] x r(4) by (simp add: set_key_holders)
  qed
  moreover have "mv_publicKey ?m = Some (pw_publicKey x)" "mv_accountId ?m = pw_accountId x" "mv_active ?m"
    using r by (simp_all add: member_view_def)
  ultimately show "x \<in> set (keyHolders (env_detail_of me env now db) org always now)"
    using r(4) unfolding keyHolders_mem by (intro exI [of _ ?m] exI [of _ "pw_publicKey x"]) (auto simp: env_detail_of_def Let_def)
qed

section \<open>A rotation the server accepts\<close>

lemma distinct_recipients:
  assumes "unique_by om_key (tb_members db)" and "dt_members org = org_members_view collate orgId db"
  shows "distinct (map pw_accountId (keyHolders env org always now))"
proof -
  let ?view = "\<lambda>m. case find (\<lambda>a. ac_id a = om_accountId m) (tb_accounts db) of None \<Rightarrow> []
    | Some a \<Rightarrow> [member_view (ac_email a) (map gm_groupId (filter (\<lambda>g. gm_accountId g = om_accountId m) (org_memberships orgId db))) m]"
  have views: "distinct (map mv_accountId (concat (map ?view ms)))" if "distinct (map om_accountId ms)" for ms
    using that by (induction ms) (auto simp: member_view_def split: option.splits)
  have "distinct (map om_accountId (filter (\<lambda>m. om_orgId m = orgId) (tb_members db)))"
    using assms(1) unfolding unique_by_def by (auto simp: distinct_map om_key_def inj_on_def intro: distinct_filter)
  from views [OF this] have members: "distinct (map mv_accountId (dt_members org))"
    unfolding assms(2) org_members_view_def distinct_map distinct_sort set_sort .
  have kept: "distinct (map pw_accountId (concat (map (\<lambda>m. case mv_publicKey m of None \<Rightarrow> []
      | Some k \<Rightarrow> if P m then [\<lparr>pw_accountId = mv_accountId m, pw_publicKey = k\<rparr>] else []) ms)) :: id list)"
    if "distinct (map mv_accountId ms)" for ms and P :: "org_member_view \<Rightarrow> bool"
    using that by (induction ms) (auto split: option.splits if_splits)
  show ?thesis unfolding keyHolders_def Let_def by (rule kept [OF members])
qed

lemma checkWraps_None:
  assumes "distinct (map mw_recipientId ws)" and "\<And>w. w \<in> set ws \<Longrightarrow> mw_recipientId w \<notin> set seen"
    and "\<And>w. w \<in> set ws \<Longrightarrow> allowed (mw_recipientId w)"
    and "\<And>w. w \<in> set ws \<Longrightarrow> map_of keys (holderKey AccountP (mw_recipientId w)) = Some (mw_recipientPublicKey w)"
    and "\<And>w. w \<in> set ws \<Longrightarrow> Some (mw_wrapperPublicKey w) = k"
  shows "checkWraps ws k keys allowed seen = None"
  using assms
proof (induction ws arbitrary: seen)
  case (Cons w ws)
  have "checkWraps ws k keys allowed (mw_recipientId w # seen) = None"
  proof (rule Cons.IH)
    fix x assume x: "x \<in> set ws"
    then have "mw_recipientId x \<noteq> mw_recipientId w" using Cons.prems(1) by (auto intro: rev_image_eqI)
    then show "mw_recipientId x \<notin> set (mw_recipientId w # seen)" using Cons.prems(2) [of x] x by simp
  qed (use Cons.prems in auto)
  with Cons.prems(2-5) [of w] show ?case by simp
qed simp

lemma js_set_length: "set xs = set ys \<Longrightarrow> length (js_set xs) = length (js_set ys)"
  by (metis distinct_card distinct_js_set set_js_set)

lemma js_set_distinct: "distinct xs \<Longrightarrow> length (js_set xs) = length xs"
  by (simp add: js_set_def distinct_remdups_id)

text \<open>The recipient a wrap is for.\<close>

definition wrapped_to :: "member_wrap \<Rightarrow> pending_wrap" where
  "wrapped_to w = \<lparr>pw_accountId = mw_recipientId w, pw_publicKey = mw_recipientPublicKey w\<rparr>"


section \<open>Releasing what was asked for\<close>

lemma parse_format: "path_ok p \<Longrightarrow> parseSecretPath (formatSecretPath p) = Some p"
  by (simp add: parseSecretPath_def match_format)

lemma find_by_key:
  assumes "unique_by k xs" and "x \<in> set xs" and "P x" and "\<And>y. y \<in> set xs \<Longrightarrow> P y \<Longrightarrow> k y = k x"
  shows "find P xs = Some x"
proof (cases "find P xs")
  case None
  then show ?thesis using assms(2,3) by (auto simp: find_None_iff)
next
  case (Some y)
  then have "y \<in> set xs" "P y" using find_set by fastforce+
  then show ?thesis using Some unique_byD [OF assms(1)] assms(2,4) by metis
qed

lemma source_from_value: "source_from p s seen i = Some j \<Longrightarrow> map_of (sv_values s) j \<noteq> None"
  by (induction p s seen i rule: source_from.induct) (auto split: if_splits)

text \<open>What identifies a secret in a path.\<close>

definition path_key :: "secret_view \<Rightarrow> id \<times> js_text \<times> js_text option" where
  "path_key s = (sv_projectId s, sv_key s, map_option fv_slug (sv_folder s))"

definition released :: "project_view \<Rightarrow> environment_view \<Rightarrow> secret_view \<Rightarrow> release_item" where
  "released project env s = (let source = the (valueSource project s (ei_id env)) in \<lparr>ri_item = secretRef project env s,
     ri_secretId = sv_id s, ri_environmentId = source, ri_encryptedValue = the (map_of (sv_values s) source)\<rparr>)"

definition referable :: "project_view \<Rightarrow> environment_view \<Rightarrow> secret_view list \<Rightarrow> secret_view \<Rightarrow> bool" where
  "referable project env secrets s \<longleftrightarrow> s \<in> set secrets \<and> sv_projectId s = pw_id project \<and>
     path_ok \<lparr>sl_project = pw_slug project, sl_environment = ei_slug env, sl_folder = map_option fv_slug (sv_folder s), sl_key = sv_key s\<rparr> \<and>
     valueSource project s (ei_id env) \<noteq> None"

lemma release_item_referable:
  assumes "env \<in> set (pw_environments project)" and "unique_by ei_id (pw_environments project)"
    and "unique_by path_key secrets" and "referable project env secrets s"
  shows "release_item_of project secrets (ei_id env) (secretRef project env s) = Some (released project env s)"
proof -
  let ?path = "\<lparr>sl_project = pw_slug project, sl_environment = ei_slug env, sl_folder = map_option fv_slug (sv_folder s), sl_key = sv_key s\<rparr>"
  have s: "s \<in> set secrets" "sv_projectId s = pw_id project" "path_ok ?path" using assms(4) by (auto simp: referable_def)
  obtain source where source: "valueSource project s (ei_id env) = Some source" using assms(4) by (auto simp: referable_def)
  then obtain b where b: "map_of (sv_values s) source = Some b"
    unfolding valueSource_def by (blast dest: source_from_value)
  have "find (\<lambda>e. ei_id e = ei_id env) (pw_environments project) = Some env"
    using find_Some_iff_unique [OF assms(2)] assms(1) by blast
  moreover have "parseSecretPath (secretRef project env s) = Some ?path"
    unfolding secretRef_def by (rule parse_format [OF s(3)])
  moreover have "find (\<lambda>x. sv_projectId x = pw_id project \<and> sv_key x = sv_key s \<and>
      map_option fv_slug (sv_folder x) = map_option fv_slug (sv_folder s)) secrets = Some s"
    by (rule find_by_key [OF assms(3) s(1)]) (auto simp: path_key_def s(2))
  ultimately show ?thesis by (simp add: release_item_of_def released_def Let_def source b)
qed

text \<open>C32. Approving a request for secrets by their references releases exactly those: every reference the desktop
  shows for a secret with a value, its own or one it falls back to, is found again, and none is reported missing.\<close>

theorem requested_secrets_released:
  assumes "env \<in> set (pw_environments project)" and "unique_by ei_id (pw_environments project)"
    and "unique_by path_key secrets" and "\<forall>s \<in> set ss. referable project env secrets s"
  shows "releaseItems project secrets (ei_id env) (map (secretRef project env) ss) = (map (released project env) ss, [])"
proof -
  have found: "release_item_of project secrets (ei_id env) (secretRef project env s) = Some (released project env s)"
    if "s \<in> set ss" for s
    by (rule release_item_referable [OF assms(1-3)]) (use assms(4) that in blast)
  have "concat (map (\<lambda>item. case release_item_of project secrets (ei_id env) item of None \<Rightarrow> [] | Some r \<Rightarrow> [r])
      (map (secretRef project env) xs)) = map (released project env) xs" if "set xs \<subseteq> set ss" for xs
    using that found by (induction xs) auto
  moreover have "filter (\<lambda>item. release_item_of project secrets (ei_id env) item = None) (map (secretRef project env) ss) = []"
    using found by (auto simp: filter_empty_conv)
  ultimately show ?thesis by (simp add: releaseItems_def)
qed

section \<open>Concrete runs\<close>

lemma demo_visible:
  "fst (env_visible ''olga'' ''e'' 10 demo_run) = Inr ((demo_env_row, ''olga''),
     \<lparr>om_orgId = ''o'', om_accountId = ''olga'', om_role = OwnerR, om_publicKey = Some ''KO''\<rparr>)"
  "om_accountId ` set (tb_members (snd (env_visible ''olga'' ''e'' 10 demo_run))) \<subseteq>
     ac_id ` set (tb_accounts (snd (env_visible ''olga'' ''e'' 10 demo_run)))"
  "account_level (demo_env_row, ''olga'') ''olga'' 10 (snd (env_visible ''olga'' ''e'' 10 demo_run)) = Manage"
  "resealed (demo_env_row, ''olga'') [(''s'', demo_fresh)] (snd (env_visible ''olga'' ''e'' 10 demo_run))"
  unfolding demo_run_eq by code_simp+

definition demo_org_detail :: org_detail where
  "demo_org_detail = \<lparr>dt_id = ''o'', dt_name = ''acme'', dt_role = OwnerR,
     dt_members = org_members_view (\<lambda>s. s) ''o'' (snd (env_visible ''olga'' ''e'' 10 demo_run)), dt_groups = [], dt_agents = []\<rparr>"

lemma demo_recipients:
  "map wrapped_to demo_wraps = keyHolders (env_detail_of ''olga'' (demo_env_row, ''olga'') 10 (snd (env_visible ''olga'' ''e'' 10 demo_run)))
     demo_org_detail [''olga''] 10"
  unfolding demo_org_detail_def demo_run_eq by code_simp


theorem requested_secrets_released_witness:
  "releaseItems demo_view [demo_secret] ''qa'' [ascii ''zv://pay/qa/KEY''] =
     ([\<lparr>ri_item = ascii ''zv://pay/qa/KEY'', ri_secretId = ''s'', ri_environmentId = ''prod'',
        ri_encryptedValue = \<lparr>bl_kid = ''prod'', bl_nonce = ''n'', bl_ct = ''c''\<rparr>\<rparr>], [])"
proof -
  let ?env = "demo_env_view ''qa'' (Some ''prod'')"
  have source: "valueSource demo_view demo_secret ''qa'' = Some ''prod''"
    by (simp add: valueSource_def demo_view_def demo_secret_def inherits_def demo_env_view_def environment_view_of_def Let_def)
  have ref: "secretRef demo_view ?env demo_secret = ascii ''zv://pay/qa/KEY''" by code_simp
  have "path_ok \<lparr>sl_project = pw_slug demo_view, sl_environment = ei_slug ?env, sl_folder = map_option fv_slug (sv_folder demo_secret),
      sl_key = sv_key demo_secret\<rparr>" by code_simp
  then have "\<forall>s \<in> set [demo_secret]. referable demo_view ?env [demo_secret] s"
    using source by (simp add: referable_def) (simp add: demo_view_def demo_secret_def demo_env_view_def environment_view_of_def Let_def)
  moreover have "?env \<in> set (pw_environments demo_view)" "unique_by ei_id (pw_environments demo_view)" "ei_id ?env = ''qa''"
    "unique_by path_key [demo_secret]" by (simp_all add: demo_view_def demo_env_view_def environment_view_of_def unique_by_def Let_def)
  ultimately show ?thesis
    using requested_secrets_released [of ?env demo_view "[demo_secret]" "[demo_secret]"] ref source
    by (simp add: released_def Let_def) (simp add: demo_secret_def)
qed

end
