(* ===== verification/SecretSync.thy ===== *)
theory SecretSync
  imports ProjectSync
begin

text \<open>
  Pushing an environment's secrets to GitHub or AWS from this device
  (\<^verbatim>\<open>apps/desktop/src/projects/secretSync.ts\<close>). The core that signs in and pushes, with the providers behind
  it, is a parameter over a world it changes; what the projects sync holds is an argument of each operation. The
  code starts no second push of a target while one is running, so the pushes of one batch are made once per target
  and the model runs them one after the other.
\<close>

unbundle bit_operations_syntax

datatype provider = GitHub | AWS

definition provider_name :: "provider \<Rightarrow> js_text" where
  "provider_name p = (case p of GitHub \<Rightarrow> ascii ''GitHub'' | AWS \<Rightarrow> ascii ''AWS'')"

fun target_id :: "sync_target \<Rightarrow> id" where
  "target_id (GithubTarget i repo env auto) = i"
| "target_id (AwsTarget i region name auto) = i"

fun target_provider :: "sync_target \<Rightarrow> provider" where
  "target_provider (GithubTarget i repo env auto) = GitHub"
| "target_provider (AwsTarget i region name auto) = AWS"

fun target_auto :: "sync_target \<Rightarrow> bool option" where
  "target_auto (GithubTarget i repo env auto) = auto"
| "target_auto (AwsTarget i region name auto) = auto"

datatype credential =
    GithubCredential js_text
  | AwsCredential js_text js_text "js_text option"

record connections =
  cn_github :: "js_text option"
  cn_aws :: "js_text option"

text \<open>\<^verbatim>\<open>connections[provider]\<close> as a condition: \<^verbatim>\<open>null\<close> and the empty name are false.\<close>

definition connected :: "connections \<Rightarrow> provider \<Rightarrow> bool" where
  "connected c p \<longleftrightarrow> (case (case p of GitHub \<Rightarrow> cn_github c | AWS \<Rightarrow> cn_aws c) of None \<Rightarrow> False | Some who \<Rightarrow> who \<noteq> [])"

record sync_item =
  yi_name :: js_text
  yi_secretId :: id
  yi_environmentId :: id
  yi_encryptedValue :: blob

record sync_report =
  yr_pushed :: "js_text list"
  yr_removed :: "js_text list"
  yr_failed :: "(js_text \<times> js_text) list"

text \<open>The core, and whether the browser's storage takes writes. A rejection is known by its text, empty when it has none.\<close>

record 'w sync_core =
  yc_connections :: "'w \<Rightarrow> (js_text, connections, 'w) outcome"
  yc_connect :: "credential \<Rightarrow> 'w \<Rightarrow> (js_text, js_text, 'w) outcome"
  yc_disconnect :: "provider \<Rightarrow> 'w \<Rightarrow> (js_text, unit, 'w) outcome"
  yc_push :: "id \<Rightarrow> sync_target \<Rightarrow> sync_item list \<Rightarrow> js_text list \<Rightarrow> 'w \<Rightarrow> (js_text, sync_report, 'w) outcome"
  yc_stores :: bool

datatype push_state = Syncing | Synced | PartlySynced | SyncFailure

record target_status =
  yt_state :: push_state
  yt_at :: time
  yt_message :: js_text
  yt_fingerprint :: js_text
  yt_names :: "js_text list"
  yt_needs :: "provider option"

text \<open>\<^verbatim>\<open>class SecretSyncer\<close>: the snapshot and what \<^verbatim>\<open>localStorage\<close> holds, \<open>None\<close> when it is empty or damaged.\<close>

record secret_syncer =
  yy_connections :: "connections option"
  yy_status :: "(id \<times> target_status) list"
  yy_stored :: "(id \<times> target_status) list option"

section \<open>What a target gets\<close>

definition sync_item_of :: "project_view \<Rightarrow> environment_view \<Rightarrow> secret_view \<Rightarrow> sync_item option" where
  "sync_item_of project env s =
     (if sv_projectId s \<noteq> pw_id project then None
      else Option.bind (valueSource project s (ei_id env)) (\<lambda>source.
        map_option (\<lambda>b. \<lparr>yi_name = sv_key s, yi_secretId = sv_id s, yi_environmentId = source, yi_encryptedValue = b\<rparr>)
          (map_of (sv_values s) source)))"

definition itemsFor :: "(js_text \<Rightarrow> nat) \<Rightarrow> secret_view list \<Rightarrow> project_view \<Rightarrow> environment_view \<Rightarrow> sync_item list" where
  "itemsFor collate secrets project env = sort_key (\<lambda>i. collate (yi_name i))
     (concat (map (\<lambda>s. case sync_item_of project env s of None \<Rightarrow> [] | Some i \<Rightarrow> [i]) secrets))"

text \<open>\<^verbatim>\<open>JSON.stringify\<close> of what is compared. A surrogate without its other half is written as an escape.\<close>

definition hex_unit :: "nat \<Rightarrow> nat" where "hex_unit d = (if d < 10 then 48 + d else 87 + d)"

text \<open>The last \<open>k\<close> hexadecimal digits.\<close>

fun hex_digits :: "nat \<Rightarrow> nat \<Rightarrow> js_text" where
  "hex_digits 0 n = []"
| "hex_digits (Suc k) n = hex_digits k (n div 16) @ [hex_unit (n mod 16)]"

definition json_unit :: "nat \<Rightarrow> js_text" where
  "json_unit u =
     (if u = 34 then [92, 34] else if u = 92 then [92, 92] else if u = 8 then [92, 98] else if u = 9 then [92, 116]
      else if u = 10 then [92, 110] else if u = 12 then [92, 102] else if u = 13 then [92, 114]
      else if u < 32 \<or> (0xD800 \<le> u \<and> u \<le> 0xDFFF) then [92, 117] @ hex_digits 4 u else [u])"

fun json_units :: "js_text \<Rightarrow> js_text" where
  "json_units [] = []"
| "json_units [u] = json_unit u"
| "json_units (u # v # us) =
     (if 0xD800 \<le> u \<and> u < 0xDC00 \<and> 0xDC00 \<le> v \<and> v < 0xE000 then u # v # json_units us
      else json_unit u @ json_units (v # us))"

definition json_text :: "js_text \<Rightarrow> js_text" where "json_text s = [34] @ json_units s @ [34]"

fun json_join :: "js_text list \<Rightarrow> js_text" where
  "json_join [] = []"
| "json_join [x] = x"
| "json_join (x # xs) = x @ [44] @ json_join xs"

definition json_array :: "js_text list \<Rightarrow> js_text" where "json_array xs = [91] @ json_join xs @ [93]"

definition json_object :: "(string \<times> js_text option) list \<Rightarrow> js_text" where
  "json_object entries = [123] @ json_join (concat (map (\<lambda>(k, v). case v of None \<Rightarrow> []
     | Some x \<Rightarrow> [json_text (ascii k) @ [58] @ x]) entries)) @ [125]"

definition json_bool :: "bool \<Rightarrow> js_text" where "json_bool b = ascii (if b then ''true'' else ''false'')"

fun json_target :: "sync_target \<Rightarrow> js_text" where
  "json_target (GithubTarget i repo env auto) = json_object [(''provider'', Some (json_text (ascii ''github''))),
     (''id'', Some (json_text (ascii i))), (''repo'', Some (json_text repo)), (''environment'', map_option json_text env),
     (''auto'', map_option json_bool auto)]"
| "json_target (AwsTarget i region name auto) = json_object [(''provider'', Some (json_text (ascii ''aws''))),
     (''id'', Some (json_text (ascii i))), (''region'', Some (json_text region)), (''secretName'', Some (json_text name)),
     (''auto'', map_option json_bool auto)]"

definition json_item :: "sync_item \<Rightarrow> js_text" where
  "json_item i = json_array [json_text (yi_name i), json_text (ascii (yi_secretId i)), json_text (ascii (yi_environmentId i)),
     json_text (ascii (bl_nonce (yi_encryptedValue i)))]"

text \<open>FNV-1a on 32-bit words, twice.\<close>

definition fnv_step :: "32 word \<Rightarrow> nat \<Rightarrow> 32 word \<Rightarrow> 32 word" where
  "fnv_step prime c h = (h XOR of_nat c) * prime"

definition fingerprint :: "sync_target \<Rightarrow> sync_item list \<Rightarrow> js_text" where
  "fingerprint target items =
     (let text = json_array [json_target target, json_array (map json_item items)];
          a = fold (fnv_step 0x01000193) text 0x811c9dc5;
          b = fold (fnv_step 0x811c9dc5) text 0x01000193
      in hex_digits 8 (unat a) @ hex_digits 8 (unat b))"

fun describeTarget :: "sync_target \<Rightarrow> js_text" where
  "describeTarget (GithubTarget i repo env auto) = (case env of None \<Rightarrow> repo
     | Some e \<Rightarrow> if e = [] then repo else repo @ [32, 183, 32] @ e @ ascii '' environment'')"
| "describeTarget (AwsTarget i region name auto) = name @ [32, 183, 32] @ region"

section \<open>What is said of a push\<close>

fun comma_join :: "js_text list \<Rightarrow> js_text" where
  "comma_join [] = []"
| "comma_join [x] = x"
| "comma_join (x # xs) = x @ ascii '', '' @ comma_join xs"

definition summarize_report :: "sync_report \<Rightarrow> push_state \<times> js_text" where
  "summarize_report r =
     (let n = length (yr_pushed r);
          parts = [if n = 1 then ascii ''1 secret pushed'' else js_decimal n @ ascii '' secrets pushed''] @
            (if yr_removed r = [] then [] else [js_decimal (length (yr_removed r)) @ ascii '' removed''])
      in case yr_failed r of
           [] \<Rightarrow> (Synced, comma_join parts)
         | (name, reason) # others \<Rightarrow> (PartlySynced, comma_join (parts @ [js_decimal (length (yr_failed r)) @
             ascii '' not synced ('' @ name @ ascii '': '' @ reason @ (if others = [] then [] else ascii '', '' @ [8230]) @ ascii '')''])))"

definition errorText :: "(nat \<Rightarrow> js_text) \<Rightarrow> js_text \<Rightarrow> js_text" where
  "errorText upper text = (case text of
     [] \<Rightarrow> ascii ''The sync failed.''
   | u # us \<Rightarrow> upper u @ (if us \<noteq> [] \<and> last us = 46 then us else us @ [46]))"

section \<open>Pushing\<close>

definition setStatus :: "'w sync_core \<Rightarrow> id \<Rightarrow> target_status \<Rightarrow> secret_syncer \<Rightarrow> secret_syncer" where
  "setStatus core t x s =
     (let all_status = AList.update t x (yy_status s)
      in s\<lparr>yy_status := all_status, yy_stored := if yc_stores core then Some all_status else yy_stored s\<rparr>)"

definition sync_connections :: "'w sync_core \<Rightarrow> bool \<Rightarrow> secret_syncer \<times> 'w \<Rightarrow> (js_text, connections, secret_syncer \<times> 'w) outcome" where
  "sync_connections core refresh st = (case yy_connections (fst st) of
     Some c \<Rightarrow> if refresh then (case yc_connections core (snd st) of
         (Inl e, w) \<Rightarrow> throw e (fst st, w) | (Inr c, w) \<Rightarrow> ret c ((fst st)\<lparr>yy_connections := Some c\<rparr>, w)) else ret c st
   | None \<Rightarrow> (case yc_connections core (snd st) of
         (Inl e, w) \<Rightarrow> throw e (fst st, w) | (Inr c, w) \<Rightarrow> ret c ((fst st)\<lparr>yy_connections := Some c\<rparr>, w)))"

definition sync_connect :: "'w sync_core \<Rightarrow> credential \<Rightarrow> secret_syncer \<times> 'w \<Rightarrow> (js_text, js_text, secret_syncer \<times> 'w) outcome" where
  "sync_connect core c st = (case yc_connect core c (snd st) of
     (Inl e, w) \<Rightarrow> throw e (fst st, w)
   | (Inr who, w) \<Rightarrow> and_then (sync_connections core True (fst st, w)) (\<lambda>_ st. ret who st))"

definition sync_disconnect :: "'w sync_core \<Rightarrow> provider \<Rightarrow> secret_syncer \<times> 'w \<Rightarrow> (js_text, unit, secret_syncer \<times> 'w) outcome" where
  "sync_disconnect core p st = (case yc_disconnect core p (snd st) of
     (Inl e, w) \<Rightarrow> throw e (fst st, w)
   | (Inr _, w) \<Rightarrow> and_then (sync_connections core True (fst st, w)) (\<lambda>_ st. ret () st))"

type_synonym projects_seen = "project_view list \<times> secret_view list"

definition find_environment :: "projects_seen \<Rightarrow> id \<Rightarrow> id \<Rightarrow> (project_view \<times> environment_view) option" where
  "find_environment view p e = Option.bind (find (\<lambda>x. pw_id x = p) (fst view)) (\<lambda>project.
     map_option (\<lambda>env. (project, env)) (find (\<lambda>x. ei_id x = e) (pw_environments project)))"

definition find_target :: "projects_seen \<Rightarrow> id \<Rightarrow> id \<Rightarrow> id \<Rightarrow> (project_view \<times> environment_view \<times> sync_target) option" where
  "find_target view p e t = Option.bind (find_environment view p e) (\<lambda>(project, env).
     map_option (\<lambda>target. (project, env, target)) (find (\<lambda>x. target_id x = t) (ei_sync env)))"

definition TARGET_GONE :: js_text where "TARGET_GONE = ascii ''This sync target is no longer available.''"

definition NO_ACCESS :: js_text where
  "NO_ACCESS = ascii ''This account has no access to the environment'' @ [8217] @ ascii ''s values.''"

text \<open>\<open>start\<close> and \<open>finish\<close> are the readings of the clock.\<close>

definition finish_push :: "'w sync_core \<Rightarrow> id \<Rightarrow> time \<Rightarrow> js_text \<Rightarrow> push_state \<times> js_text \<Rightarrow> js_text list \<Rightarrow> provider option \<Rightarrow>
    secret_syncer \<times> 'w \<Rightarrow> (js_text, target_status, secret_syncer \<times> 'w) outcome" where
  "finish_push core t at print said names needs st =
     (let done_status = \<lparr>yt_state = fst said, yt_at = at, yt_message = snd said, yt_fingerprint = print, yt_names = names, yt_needs = needs\<rparr>
      in ret done_status (setStatus core t done_status (fst st), snd st))"

definition push_target :: "'w sync_core \<Rightarrow> (js_text \<Rightarrow> nat) \<Rightarrow> (nat \<Rightarrow> js_text) \<Rightarrow> projects_seen \<Rightarrow> id \<times> id \<times> id \<Rightarrow> time \<Rightarrow> time \<Rightarrow>
    secret_syncer \<times> 'w \<Rightarrow> (js_text, target_status, secret_syncer \<times> 'w) outcome" where
  "push_target core collate upper view at start finish st = (case at of (p, e, t) \<Rightarrow>
     (case find_target view p e t of
        None \<Rightarrow> throw TARGET_GONE st
      | Some (project, env, target) \<Rightarrow>
          let previous = map_of (yy_status (fst st)) t;
              names = (case previous of None \<Rightarrow> [] | Some x \<Rightarrow> yt_names x);
              items = itemsFor collate (snd view) project env;
              print = fingerprint target items
          in if ei_locked env then finish_push core t finish print (SyncFailure, NO_ACCESS) names None st
             else (case sync_connections core False st of (c, st) \<Rightarrow>
               if \<exists>x. c = Inr x \<and> \<not> connected x (target_provider target)
               then finish_push core t finish print (SyncFailure, ascii ''Connect '' @ provider_name (target_provider target) @
                   ascii '' on this Mac to sync.'') names (Some (target_provider target)) st
               else
                 let st = (setStatus core t \<lparr>yt_state = Syncing, yt_at = start, yt_message = ascii ''Syncing'' @ [8230],
                       yt_fingerprint = (case previous of None \<Rightarrow> [] | Some x \<Rightarrow> yt_fingerprint x), yt_names = names, yt_needs = None\<rparr> (fst st), snd st)
                 in case yc_push core (pw_id project) target items names (snd st) of
                      (Inr report, w) \<Rightarrow> finish_push core t finish print (summarize_report report)
                        (yr_pushed report @ filter (\<lambda>n. n \<in> fst ` set (yr_failed report)) names) None (fst st, w)
                    | (Inl text, w) \<Rightarrow> finish_push core t finish print (SyncFailure, errorText upper text) names None (fst st, w))))"

text \<open>The pushes of one \<^verbatim>\<open>Promise.all\<close>; a target that comes up again joins the push that is running.\<close>

definition once_per_target :: "(id \<times> id \<times> id) list \<Rightarrow> (id \<times> id \<times> id) list" where
  "once_per_target due = rev (fold (\<lambda>(p, e, t) out. if t \<in> (snd \<circ> snd) ` set out then out else (p, e, t) # out) due [])"

fun push_each :: "'w sync_core \<Rightarrow> (js_text \<Rightarrow> nat) \<Rightarrow> (nat \<Rightarrow> js_text) \<Rightarrow> projects_seen \<Rightarrow> time \<Rightarrow> (id \<times> id \<times> id) list \<Rightarrow>
    secret_syncer \<times> 'w \<Rightarrow> (js_text + target_status) list \<times> secret_syncer \<times> 'w" where
  "push_each core collate upper view now [] st = ([], st)"
| "push_each core collate upper view now (d # due) st = (case push_target core collate upper view d now now st of
     (r, st) \<Rightarrow> (case push_each core collate upper view now due st of (rs, st) \<Rightarrow> (r # rs, st)))"

definition syncEnvironment :: "'w sync_core \<Rightarrow> (js_text \<Rightarrow> nat) \<Rightarrow> (nat \<Rightarrow> js_text) \<Rightarrow> projects_seen \<Rightarrow> id \<Rightarrow> id \<Rightarrow> time \<Rightarrow>
    secret_syncer \<times> 'w \<Rightarrow> (js_text, (js_text + target_status) list, secret_syncer \<times> 'w) outcome" where
  "syncEnvironment core collate upper view p e now st = (case find_environment view p e of
     None \<Rightarrow> throw (ascii ''This environment is no longer available.'') st
   | Some (project, env) \<Rightarrow>
       if ei_sync env = [] then throw (ascii ''This environment has nowhere to sync to yet.'') st
       else (let due = once_per_target (map (\<lambda>x. (p, e, target_id x)) (ei_sync env)) in
         case push_each core collate upper view now due st of (rs, st) \<Rightarrow>
           ret (map (\<lambda>x. the (map_of (zip (map (snd \<circ> snd) due) rs) (target_id x))) (ei_sync env)) st))"

section \<open>Syncing what changed\<close>

definition target_due :: "(js_text \<Rightarrow> nat) \<Rightarrow> projects_seen \<Rightarrow> secret_syncer \<Rightarrow> project_view \<Rightarrow> environment_view \<Rightarrow> sync_target \<Rightarrow> bool" where
  "target_due collate view s project env target \<longleftrightarrow> target_auto target \<noteq> Some False \<and>
     map_option yt_fingerprint (map_of (yy_status s) (target_id target)) \<noteq>
       Some (fingerprint target (itemsFor collate (snd view) project env))"

definition due_changed :: "(js_text \<Rightarrow> nat) \<Rightarrow> projects_seen \<Rightarrow> secret_syncer \<Rightarrow> (id \<times> id \<times> id) list" where
  "due_changed collate view s = concat (map (\<lambda>project. concat (map (\<lambda>env. if ei_locked env then []
     else map (\<lambda>x. (pw_id project, ei_id env, target_id x)) (filter (target_due collate view s project env) (ei_sync env)))
     (pw_environments project))) (fst view))"

text \<open>Targets that failed for want of credentials that this device now has.\<close>

definition due_waiting :: "projects_seen \<Rightarrow> secret_syncer \<Rightarrow> connections \<Rightarrow> (id \<times> id \<times> id) list \<Rightarrow> (id \<times> id \<times> id) list" where
  "due_waiting view s c due = fold (\<lambda>(p, e, t) due.
       (case Option.bind (map_of (yy_status s) t) yt_needs of
          None \<Rightarrow> due
        | Some needs \<Rightarrow> if connected c needs \<and> t \<notin> (snd \<circ> snd) ` set due then due @ [(p, e, t)] else due))
     (concat (map (\<lambda>project. concat (map (\<lambda>env. map (\<lambda>x. (pw_id project, ei_id env, target_id x)) (ei_sync env))
       (pw_environments project))) (fst view))) due"

definition syncChanged :: "'w sync_core \<Rightarrow> (js_text \<Rightarrow> nat) \<Rightarrow> (nat \<Rightarrow> js_text) \<Rightarrow> sync_status \<Rightarrow> projects_seen \<Rightarrow> time \<Rightarrow>
    secret_syncer \<times> 'w \<Rightarrow> secret_syncer \<times> 'w" where
  "syncChanged core collate upper status view now st =
     (if status \<noteq> SyncReady then st
      else let due = due_changed collate view (fst st) in
        case sync_connections core False st of
          (Inl e, st) \<Rightarrow> st
        | (Inr c, st) \<Rightarrow> snd (push_each core collate upper view now (once_per_target (due_waiting view (fst st) c due)) st))"

text \<open>The constructor: what is stored, with pushes cut short by a quit counted as failed.\<close>

definition start_syncer :: "(id \<times> target_status) list option \<Rightarrow> secret_syncer" where
  "start_syncer stored = \<lparr>yy_connections = None, yy_status = map (\<lambda>(i, x). (i, if yt_state x = Syncing
     then x\<lparr>yt_state := SyncFailure, yt_message := ascii ''Interrupted.''\<rparr> else x)) (case stored of None \<Rightarrow> [] | Some m \<Rightarrow> m),
     yy_stored = stored\<rparr>"

end
