(* ===== verification/SyncProps.thy ===== *)
theory SyncProps
  imports SecretSync
begin

text \<open>
  What secret sync promises: a round of syncing settles, and a push that is reported as complete leaves
  nothing behind at the provider of what earlier reported pushes wrote.
\<close>

section \<open>One push\<close>

definition names_of :: "secret_syncer \<Rightarrow> id \<Rightarrow> js_text list" where
  "names_of s t = (case map_of (yy_status s) t of None \<Rightarrow> [] | Some x \<Rightarrow> yt_names x)"

lemma setStatus_simps [simp]:
  "map_of (yy_status (setStatus core t x s)) = (map_of (yy_status s))(t \<mapsto> x)"
  "yy_connections (setStatus core t x s) = yy_connections s"
  by (simp_all add: setStatus_def Let_def update_conv')

lemma sync_connections_state:
  assumes "sync_connections core refresh (s, w) = (r, (s', w'))"
  shows "yy_status s' = yy_status s" and "yy_stored s' = yy_stored s" and "r = Inr c \<Longrightarrow> yy_connections s' = Some c"
  using assms by (auto simp: sync_connections_def throw_def ret_def split: option.splits if_splits prod.splits sum.splits)

lemma sync_connections_cached: "yy_connections s = Some c \<Longrightarrow> sync_connections core False (s, w) = (Inr c, (s, w))"
  by (simp add: sync_connections_def ret_def)

text \<open>What a push of a target that is there leaves: one entry, with the fingerprint of what the target should hold.\<close>

lemma push_target_settles:
  assumes "find_target view p e t = Some (project, env, target)" and "yy_connections s = Some c"
    and "push_target core collate upper view (p, e, t) start finish (s, w) = (r, (s', w'))"
  shows "\<exists>x. r = Inr x \<and> map_of (yy_status s') = (map_of (yy_status s))(t \<mapsto> x) \<and> yy_connections s' = Some c \<and>
    yt_fingerprint x = fingerprint target (itemsFor collate (snd view) project env) \<and>
    (\<forall>q. yt_needs x = Some q \<longrightarrow> \<not> connected c q)"
proof -
  note unfold = assms(3) [unfolded push_target_def, simplified, unfolded assms(1), simplified Let_def finish_push_def
      sync_connections_cached [OF assms(2)] ret_def, simplified]
  from unfold show ?thesis
    using assms(2) by (auto split: if_splits prod.splits sum.splits)
qed

section \<open>A round\<close>

definition targets_of :: "projects_seen \<Rightarrow> (project_view \<times> environment_view \<times> sync_target) list" where
  "targets_of view = concat (map (\<lambda>project. concat (map (\<lambda>env. map (\<lambda>x. (project, env, x)) (ei_sync env))
     (pw_environments project))) (fst view))"

definition target_key :: "project_view \<times> environment_view \<times> sync_target \<Rightarrow> id \<times> id \<times> id" where
  "target_key = (\<lambda>(project, env, x). (pw_id project, ei_id env, target_id x))"

definition target_of :: "project_view \<times> environment_view \<times> sync_target \<Rightarrow> id" where
  "target_of = (\<lambda>(project, env, x). target_id x)"

text \<open>Ids of projects, of a project's environments and of targets are unique.\<close>

definition view_ok :: "projects_seen \<Rightarrow> bool" where
  "view_ok view \<longleftrightarrow> unique_by pw_id (fst view) \<and> (\<forall>p \<in> set (fst view). unique_by ei_id (pw_environments p)) \<and>
     distinct (map target_of (targets_of view))"

lemma targets_of_mem: "(p, e, x) \<in> set (targets_of view) \<longleftrightarrow> p \<in> set (fst view) \<and> e \<in> set (pw_environments p) \<and> x \<in> set (ei_sync e)"
  by (auto simp: targets_of_def)

lemma target_unique:
  assumes "view_ok view" and "a \<in> set (targets_of view)" and "b \<in> set (targets_of view)" and "target_of a = target_of b"
  shows "a = b"
  using assms by (metis (mono_tags, lifting) view_ok_def distinct_map inj_on_def)

lemma find_target_of:
  assumes "view_ok view" and "(p, e, x) \<in> set (targets_of view)"
  shows "find_target view (pw_id p) (ei_id e) (target_id x) = Some (p, e, x)"
proof -
  have mem: "p \<in> set (fst view)" "e \<in> set (pw_environments p)" "x \<in> set (ei_sync e)" using assms(2) by (auto simp: targets_of_mem)
  have "find (\<lambda>y. pw_id y = pw_id p) (fst view) = Some p" "find (\<lambda>y. ei_id y = ei_id e) (pw_environments p) = Some e"
    using assms(1) mem by (simp_all add: view_ok_def find_Some_iff_unique)
  moreover have "find (\<lambda>y. target_id y = target_id x) (ei_sync e) = Some x"
  proof -
    have "find (\<lambda>y. target_id y = target_id x) (ei_sync e) \<noteq> None" using mem(3) by (auto simp: find_None_iff)
    then obtain y where y: "find (\<lambda>y. target_id y = target_id x) (ei_sync e) = Some y" by blast
    then have "y \<in> set (ei_sync e)" "target_id y = target_id x" using find_set by fastforce+
    then have "(p, e, y) = (p, e, x)"
      using mem by (intro target_unique [OF assms(1)]) (auto simp: targets_of_mem target_of_def)
    with y show ?thesis by simp
  qed
  ultimately show ?thesis by (simp add: find_target_def find_environment_def)
qed

text \<open>A target whose last push is of what it should hold, and that waits for no credentials that are there.\<close>

definition settled :: "(js_text \<Rightarrow> nat) \<Rightarrow> projects_seen \<Rightarrow> connections \<Rightarrow> secret_syncer \<Rightarrow> project_view \<times> environment_view \<times> sync_target \<Rightarrow> bool" where
  "settled collate view c s = (\<lambda>(project, env, x). \<exists>y. map_of (yy_status s) (target_id x) = Some y \<and>
     yt_fingerprint y = fingerprint x (itemsFor collate (snd view) project env) \<and> (\<forall>q. yt_needs y = Some q \<longrightarrow> \<not> connected c q))"

lemma push_each_settles:
  assumes "view_ok view" and "\<forall>d \<in> set due. \<exists>a \<in> set (targets_of view). d = target_key a"
    and "distinct (map (snd \<circ> snd) due)" and "yy_connections s = Some c"
    and "push_each core collate upper view now due (s, w) = (rs, (s', w'))"
  shows "yy_connections s' = Some c \<and> (\<forall>t. t \<notin> (snd \<circ> snd) ` set due \<longrightarrow> map_of (yy_status s') t = map_of (yy_status s) t) \<and>
    (\<forall>a \<in> set (targets_of view). target_key a \<in> set due \<longrightarrow> settled collate view c s' a)"
  using assms(2-5)
proof (induction due arbitrary: s w rs)
  case Nil
  then show ?case by simp
next
  case (Cons d due)
  obtain p e x where a: "(p, e, x) \<in> set (targets_of view)" and d: "d = (pw_id p, ei_id e, target_id x)"
    using Cons.prems(1) by (auto simp: target_key_def)
  obtain r s1 w1 where r: "push_target core collate upper view d now now (s, w) = (r, (s1, w1))" by (metis surj_pair)
  obtain rs1 where rest: "push_each core collate upper view now due (s1, w1) = (rs1, (s', w'))"
    using Cons.prems(4) r by (auto split: prod.splits)
  obtain y where y: "map_of (yy_status s1) = (map_of (yy_status s))(target_id x \<mapsto> y)" "yy_connections s1 = Some c"
      "yt_fingerprint y = fingerprint x (itemsFor collate (snd view) p e)" "\<forall>q. yt_needs y = Some q \<longrightarrow> \<not> connected c q"
    using push_target_settles [OF find_target_of [OF assms(1) a] Cons.prems(3) r [unfolded d]] by blast
  have IH: "yy_connections s' = Some c" "\<forall>t. t \<notin> (snd \<circ> snd) ` set due \<longrightarrow> map_of (yy_status s') t = map_of (yy_status s1) t"
      "\<forall>a \<in> set (targets_of view). target_key a \<in> set due \<longrightarrow> settled collate view c s' a"
    using Cons.IH [OF _ _ y(2) rest] Cons.prems(1,2) by auto
  have "target_id x \<notin> (snd \<circ> snd) ` set due" using Cons.prems(2) by (simp add: d)
  then have here: "map_of (yy_status s') (target_id x) = Some y" using IH(2) y(1) by simp
  have "settled collate view c s' b" if b: "b \<in> set (targets_of view)" "target_key b = d" for b
  proof -
    have "b = (p, e, x)"
      using b a d by (intro target_unique [OF assms(1)]) (auto simp: target_key_def target_of_def split: prod.splits)
    then show ?thesis using here y(3,4) by (simp add: settled_def)
  qed
  then show ?case using IH y(1) by (auto simp: d)
qed

lemma once_per_target_props:
  shows "set (once_per_target due) \<subseteq> set due" and "distinct (map (snd \<circ> snd) (once_per_target due))"
    and "(snd \<circ> snd) ` set (once_per_target due) = (snd \<circ> snd) ` set due"
proof -
  let ?f = "\<lambda>(p, e, t) out. if t \<in> (snd \<circ> snd) ` set out then out else (p, e, t) # out"
  define g :: "id \<times> id \<times> id \<Rightarrow> id" where "g = snd \<circ> snd"
  have fold: "set (fold ?f due out) \<subseteq> set out \<union> set due \<and> distinct (map g (fold ?f due out)) \<and>
      g ` set (fold ?f due out) = g ` (set out \<union> set due)"
    if "distinct (map g out)" for out :: "(id \<times> id \<times> id) list"
    using that
  proof (induction due arbitrary: out)
    case (Cons d due)
    have step: "fold ?f (d # due) out = fold ?f due (if g d \<in> g ` set out then out else d # out)"
      by (simp add: g_def split: prod.splits)
    show ?case
    proof (cases "g d \<in> g ` set out")
      case True
      then have "fold ?f (d # due) out = fold ?f due out" using step by simp
      then show ?thesis using Cons.IH [OF Cons.prems] True by (simp add: image_Un insert_absorb) blast
    next
      case False
      then have "fold ?f (d # due) out = fold ?f due (d # out)" using step by simp
      then show ?thesis using Cons.IH [of "d # out"] Cons.prems False by (simp add: image_Un)
    qed
  qed simp
  have rev: "set (once_per_target due) = set (fold ?f due [])" "distinct (map g (once_per_target due)) = distinct (map g (fold ?f due []))"
    by (simp_all add: once_per_target_def rev_map [symmetric])
  show "set (once_per_target due) \<subseteq> set due" "distinct (map (snd \<circ> snd) (once_per_target due))"
      "(snd \<circ> snd) ` set (once_per_target due) = (snd \<circ> snd) ` set due"
    using fold [of "[]"] rev by (simp_all add: g_def)
qed

lemma set_due_changed:
  "set (due_changed collate view s) = target_key ` {a \<in> set (targets_of view).
     case a of (p, e, x) \<Rightarrow> \<not> ei_locked e \<and> target_due collate view s p e x}"
proof (intro set_eqI iffI)
  fix k
  assume "k \<in> set (due_changed collate view s)"
  then obtain p e x where "p \<in> set (fst view)" "e \<in> set (pw_environments p)" "x \<in> set (ei_sync e)" "\<not> ei_locked e"
      "target_due collate view s p e x" "k = target_key (p, e, x)"
    by (auto simp: due_changed_def target_key_def split: if_splits)
  then show "k \<in> target_key ` {a \<in> set (targets_of view).
      case a of (p, e, x) \<Rightarrow> \<not> ei_locked e \<and> target_due collate view s p e x}"
    by (intro image_eqI [where x = "(p, e, x)"]) (simp_all add: targets_of_mem)
next
  fix k
  assume "k \<in> target_key ` {a \<in> set (targets_of view). case a of (p, e, x) \<Rightarrow> \<not> ei_locked e \<and> target_due collate view s p e x}"
  then obtain p e x where "p \<in> set (fst view)" "e \<in> set (pw_environments p)" "x \<in> set (ei_sync e)" "\<not> ei_locked e"
      "target_due collate view s p e x" "k = (pw_id p, ei_id e, target_id x)"
    by (auto simp: targets_of_mem target_key_def)
  then show "k \<in> set (due_changed collate view s)" unfolding due_changed_def by auto
qed

definition waiting_for :: "secret_syncer \<Rightarrow> connections \<Rightarrow> id \<Rightarrow> bool" where
  "waiting_for s c t \<longleftrightarrow> (case Option.bind (map_of (yy_status s) t) yt_needs of None \<Rightarrow> False | Some q \<Rightarrow> connected c q)"

lemma due_waiting_fold:
  "due_waiting view s c due = fold (\<lambda>k due. if waiting_for s c (snd (snd k)) \<and> snd (snd k) \<notin> (snd \<circ> snd) ` set due then due @ [k] else due)
     (map target_key (targets_of view)) due"
proof -
  have keys: "concat (map (\<lambda>project. concat (map (\<lambda>env. map (\<lambda>x. (pw_id project, ei_id env, target_id x)) (ei_sync env))
      (pw_environments project))) (fst view)) = map target_key (targets_of view)"
    by (simp add: targets_of_def map_concat target_key_def comp_def)
  show ?thesis
    unfolding due_waiting_def keys
    by (rule arg_cong [where f = "\<lambda>f. fold f _ due"]) (auto simp: fun_eq_iff waiting_for_def split: option.splits)
qed

lemma set_due_waiting:
  "set due \<subseteq> set (due_waiting view s c due)"
  "set (due_waiting view s c due) \<subseteq> set due \<union> target_key ` {a \<in> set (targets_of view). waiting_for s c (target_of a)}"
  "a \<in> set (targets_of view) \<Longrightarrow> waiting_for s c (target_of a) \<Longrightarrow> target_of a \<in> (snd \<circ> snd) ` set (due_waiting view s c due)"
proof -
  let ?f = "\<lambda>k due. if waiting_for s c (snd (snd k)) \<and> snd (snd k) \<notin> (snd \<circ> snd) ` set due then due @ [k] else due"
  have fold: "set due \<subseteq> set (fold ?f ks due) \<and> set (fold ?f ks due) \<subseteq> set due \<union> {k \<in> set ks. waiting_for s c (snd (snd k))} \<and>
      (\<forall>k \<in> set ks. waiting_for s c (snd (snd k)) \<longrightarrow> snd (snd k) \<in> (snd \<circ> snd) ` set (fold ?f ks due))" for ks and due :: "(id \<times> id \<times> id) list"
  proof (induction ks arbitrary: due)
    case (Cons k ks)
    show ?case
    proof (cases "waiting_for s c (snd (snd k)) \<and> snd (snd k) \<notin> (snd \<circ> snd) ` set due")
      case True
      then show ?thesis using Cons.IH [of "due @ [k]"] by auto
    next
      case False
      then show ?thesis using Cons.IH [of due] by (auto simp: image_iff)
    qed
  qed simp
  have key: "snd (snd (target_key a)) = target_of a" for a by (cases a) (simp add: target_key_def target_of_def)
  show "set due \<subseteq> set (due_waiting view s c due)" using fold by (simp add: due_waiting_fold)
  show "set (due_waiting view s c due) \<subseteq> set due \<union> target_key ` {a \<in> set (targets_of view). waiting_for s c (target_of a)}"
  proof -
    have "set (due_waiting view s c due) \<subseteq> set due \<union> {k \<in> set (map target_key (targets_of view)). waiting_for s c (snd (snd k))}"
      using fold [of due "map target_key (targets_of view)"] by (simp add: due_waiting_fold)
    also have "\<dots> \<subseteq> set due \<union> target_key ` {a \<in> set (targets_of view). waiting_for s c (target_of a)}"
      unfolding set_map using key by (intro Un_mono subset_refl subsetI) (elim CollectE conjE imageE, simp)
    finally show ?thesis .
  qed
  show "target_of a \<in> (snd \<circ> snd) ` set (due_waiting view s c due)"
    if "a \<in> set (targets_of view)" "waiting_for s c (target_of a)"
    using fold [of due "map target_key (targets_of view)"] that by (auto simp: due_waiting_fold key simp del: comp_apply)
qed


section \<open>What is at the provider\<close>

text \<open>
  The core reports what it does: \<open>ours w t\<close> are the names at target \<open>t\<close> that a push wrote and reported. A report names
  every written item as pushed, and every name it was to replace or remove as pushed, removed or failed. Names written
  by a push that failed as a whole are not in \<open>ours\<close>.
\<close>

definition reports :: "'w sync_core \<Rightarrow> ('w \<Rightarrow> id \<Rightarrow> js_text set) \<Rightarrow> bool" where
  "reports core ours \<longleftrightarrow>
     (\<forall>w r w'. yc_connections core w = (r, w') \<longrightarrow> ours w' = ours w) \<and>
     (\<forall>c w r w'. yc_connect core c w = (r, w') \<longrightarrow> ours w' = ours w) \<and>
     (\<forall>q w r w'. yc_disconnect core q w = (r, w') \<longrightarrow> ours w' = ours w) \<and>
     (\<forall>p x items names w r w'. yc_push core p x items names w = (r, w') \<longrightarrow>
        (\<forall>t. t \<noteq> target_id x \<longrightarrow> ours w' t = ours w t) \<and>
        (case r of Inl e \<Rightarrow> ours w' (target_id x) \<subseteq> ours w (target_id x)
         | Inr report \<Rightarrow> set (yr_pushed report) \<subseteq> yi_name ` set items \<and>
             ours w' (target_id x) \<subseteq> ours w (target_id x) \<union> set (yr_pushed report) \<and>
             ours w' (target_id x) \<inter> set names \<subseteq> set (yr_pushed report) \<union> fst ` set (yr_failed report)))"

lemma reports_push:
  assumes "reports core ours" and "yc_push core p x items names w = (r, w')"
  shows "t \<noteq> target_id x \<Longrightarrow> ours w' t = ours w t"
    and "r = Inl e \<Longrightarrow> ours w' (target_id x) \<subseteq> ours w (target_id x)"
    and "r = Inr report \<Longrightarrow> set (yr_pushed report) \<subseteq> yi_name ` set items \<and>
      ours w' (target_id x) \<subseteq> ours w (target_id x) \<union> set (yr_pushed report) \<and>
      ours w' (target_id x) \<inter> set names \<subseteq> set (yr_pushed report) \<union> fst ` set (yr_failed report)"
proof -
  from assms have "(\<forall>t. t \<noteq> target_id x \<longrightarrow> ours w' t = ours w t) \<and>
      (case r of Inl e \<Rightarrow> ours w' (target_id x) \<subseteq> ours w (target_id x)
       | Inr report \<Rightarrow> set (yr_pushed report) \<subseteq> yi_name ` set items \<and>
           ours w' (target_id x) \<subseteq> ours w (target_id x) \<union> set (yr_pushed report) \<and>
           ours w' (target_id x) \<inter> set names \<subseteq> set (yr_pushed report) \<union> fst ` set (yr_failed report))"
    unfolding reports_def by blast
  then show "t \<noteq> target_id x \<Longrightarrow> ours w' t = ours w t"
    "r = Inl e \<Longrightarrow> ours w' (target_id x) \<subseteq> ours w (target_id x)"
    "r = Inr report \<Longrightarrow> set (yr_pushed report) \<subseteq> yi_name ` set items \<and>
      ours w' (target_id x) \<subseteq> ours w (target_id x) \<union> set (yr_pushed report) \<and>
      ours w' (target_id x) \<inter> set names \<subseteq> set (yr_pushed report) \<union> fst ` set (yr_failed report)"
    by auto
qed

definition remembered :: "('w \<Rightarrow> id \<Rightarrow> js_text set) \<Rightarrow> secret_syncer \<times> 'w \<Rightarrow> bool" where
  "remembered ours st \<longleftrightarrow> (\<forall>t. ours (snd st) t \<subseteq> set (names_of (fst st) t))"

lemma find_target_id: "find_target view p e t = Some (project, env, x) \<Longrightarrow> target_id x = t"
  by (auto simp: find_target_def bind_eq_Some_conv dest: find_set)

lemma names_of_setStatus [simp]: "names_of (setStatus core t x s) = (names_of s)(t := yt_names x)"
  by (simp add: names_of_def fun_eq_iff)

lemma connections_remembered:
  assumes "reports core ours" and "sync_connections core refresh (s, w) = (r, (s', w'))"
  shows "names_of s' = names_of s" and "ours w' = ours w"
  using assms by (auto simp: reports_def sync_connections_def throw_def ret_def names_of_def fun_eq_iff
      split: option.splits if_splits prod.splits sum.splits)

text \<open>How a push ends: refused before it is made, or made, and then reported or failed.\<close>

lemma push_ends:
  assumes "find_target view p e t = Some (project, env, target)" and "sync_connections core False (s, w) = (q, (s1, w1))"
    and "names_of s1 = names_of s"
    and "yc_push core (pw_id project) target (itemsFor collate (snd view) project env) (names_of s t) w1 = (r2, w2)"
    and "push_target core collate upper view (p, e, t) start finish (s, w) = (r, (s', w'))"
  shows "(\<exists>x. r = Inr x \<and> yt_state x = SyncFailure \<and> names_of s' = names_of s \<and> (w' = w \<or> w' = w1)) \<or>
    (\<exists>x. r = Inr x \<and> names_of s' = (names_of s)(t := yt_names x) \<and> w' = w2 \<and>
      (case r2 of Inl m \<Rightarrow> yt_state x = SyncFailure \<and> yt_names x = names_of s t
       | Inr report \<Rightarrow> yt_state x = fst (summarize_report report) \<and>
           yt_names x = yr_pushed report @ filter (\<lambda>n. n \<in> fst ` set (yr_failed report)) (names_of s t)))"
proof -
  have names: "(case map_of (yy_status s) t of None \<Rightarrow> [] | Some x \<Rightarrow> yt_names x) = names_of s t" by (simp add: names_of_def)
  let ?items = "itemsFor collate (snd view) project env"
  let ?refused = "\<exists>x. q = Inr x \<and> \<not> connected x (target_provider target)"
  note unfold = push_target_def assms(1,2,4) names finish_push_def ret_def Let_def assms(3)
  consider (locked) "ei_locked env" | (refused) "\<not> ei_locked env" ?refused | (made) "\<not> ei_locked env" "\<not> ?refused" by blast
  then show ?thesis
  proof cases
    case locked
    then show ?thesis using assms(5) by (auto simp: unfold)
  next
    case refused
    then show ?thesis using assms(5) by (auto simp: unfold)
  next
    case made
    then have not: "(\<exists>x. q = Inr x \<and> \<not> connected x (target_provider target)) = False" by blast
    show ?thesis using assms(5) made(1) by (cases r2) (auto simp: unfold not)
  qed
qed

lemma push_remembered:
  assumes "reports core ours" and "remembered ours (s, w)"
    and "push_target core collate upper view (p, e, t) start finish (s, w) = (r, (s', w'))"
  shows "remembered ours (s', w') \<and>
    (\<forall>x project env target. find_target view p e t = Some (project, env, target) \<and> r = Inr x \<and> yt_state x = Synced \<longrightarrow>
      ours w' t \<subseteq> yi_name ` set (itemsFor collate (snd view) project env))"
proof (cases "find_target view p e t")
  case None
  then show ?thesis using assms(2,3) by (simp add: push_target_def throw_def)
next
  case (Some found)
  obtain project env target where found: "found = (project, env, target)" by (metis surj_pair)
  have t: "target_id target = t" using find_target_id Some found by blast
  obtain q s1 w1 where q: "sync_connections core False (s, w) = (q, (s1, w1))" by (metis surj_pair)
  note same = connections_remembered [OF assms(1) q]
  let ?items = "itemsFor collate (snd view) project env"
  obtain r2 w2 where push: "yc_push core (pw_id project) target ?items (names_of s t) w1 = (r2, w2)" by (metis surj_pair)
  have before: "ours w u \<subseteq> set (names_of s u)" for u using assms(2) by (simp add: remembered_def)
  from push_ends [OF Some [unfolded found] q same(1) push assms(3)] show ?thesis
  proof (elim disjE exE conjE)
    fix x assume "r = Inr x" "yt_state x = SyncFailure" "names_of s' = names_of s" "w' = w"
    then show ?thesis using assms(2) by (simp add: remembered_def)
  next
    fix x assume "r = Inr x" "yt_state x = SyncFailure" "names_of s' = names_of s" "w' = w1"
    then show ?thesis using assms(2) same(2) by (simp add: remembered_def)
  next
    fix x assume x: "r = Inr x" "names_of s' = (names_of s)(t := yt_names x)" "w' = w2"
      "case r2 of Inl m \<Rightarrow> yt_state x = SyncFailure \<and> yt_names x = names_of s t
       | Inr report \<Rightarrow> yt_state x = fst (summarize_report report) \<and>
           yt_names x = yr_pushed report @ filter (\<lambda>n. n \<in> fst ` set (yr_failed report)) (names_of s t)"
    show ?thesis
    proof (cases r2)
      case (Inl m)
      then have "ours w2 u \<subseteq> ours w u" for u
        using reports_push(1) [OF assms(1) push, of u] reports_push(2) [OF assms(1) push Inl] unfolding t same(2) by (cases "u = t") auto
      then have "ours w' u \<subseteq> set (names_of s' u)" for u using before [of u] x Inl by (cases "u = t") auto
      then show ?thesis using x(1,4) Inl by (simp add: remembered_def)
    next
      case (Inr report)
      have names: "yt_names x = yr_pushed report @ filter (\<lambda>n. n \<in> fst ` set (yr_failed report)) (names_of s t)"
        and state: "yt_state x = fst (summarize_report report)" using x(4) Inr by auto
      have report: "set (yr_pushed report) \<subseteq> yi_name ` set ?items" "ours w2 t \<subseteq> ours w t \<union> set (yr_pushed report)"
          "ours w2 t \<inter> set (names_of s t) \<subseteq> set (yr_pushed report) \<union> fst ` set (yr_failed report)"
        using reports_push(3) [OF assms(1) push Inr] unfolding t same(2) by auto
      have here: "ours w2 t \<subseteq> set (yt_names x)" using report(2,3) before [of t] unfolding names by auto
      have "ours w2 t \<subseteq> yi_name ` set ?items" if "yt_state x = Synced"
      proof -
        have "yr_failed report = []" using that state by (auto simp: summarize_report_def Let_def split: list.splits prod.splits)
        then have "ours w2 t \<inter> set (names_of s t) \<subseteq> set (yr_pushed report)" using report(3) by simp
        then show ?thesis using report(1,2) before [of t] by blast
      qed
      moreover have "ours w' u \<subseteq> set (names_of s' u)" for u
        using here reports_push(1) [OF assms(1) push, of u] before [of u] x(2,3) unfolding t same(2) by (cases "u = t") auto
      ultimately show ?thesis using x(1,3) Some found by (auto simp: remembered_def)
    qed
  qed
qed

lemma push_each_remembered:
  assumes "reports core ours"
  shows "remembered ours st \<Longrightarrow> remembered ours (snd (push_each core collate upper view now due st))"
proof (induction due arbitrary: st)
  case (Cons d due)
  obtain p e t where d: "d = (p, e, t)" by (metis surj_pair)
  obtain s w where st: "st = (s, w)" by (cases st)
  obtain r s' w' where step: "push_target core collate upper view (p, e, t) now now (s, w) = (r, (s', w'))" by (metis surj_pair)
  have "remembered ours (s', w')" using push_remembered [OF assms Cons.prems [unfolded st] step] by blast
  then have rest: "remembered ours (snd (push_each core collate upper view now due (s', w')))" by (rule Cons.IH)
  obtain rs st2 where "push_each core collate upper view now due (s', w') = (rs, st2)" by (metis surj_pair)
  then show ?case using rest step by (simp add: d st)
qed simp

section \<open>Runs\<close>

text \<open>What happens to a syncer between two starts, with the projects as they are each time, and a restart.\<close>

datatype sync_op =
    PushNow projects_seen id id id time time
  | PushEnvironment projects_seen id id time
  | PushChanged sync_status projects_seen time
  | ReadConnections bool
  | ConnectProvider credential
  | DisconnectProvider provider
  | Restart

fun sync_do :: "'w sync_core \<Rightarrow> (js_text \<Rightarrow> nat) \<Rightarrow> (nat \<Rightarrow> js_text) \<Rightarrow> sync_op \<Rightarrow> secret_syncer \<times> 'w \<Rightarrow> secret_syncer \<times> 'w" where
  "sync_do core collate upper (PushNow view p e t start finish) st = snd (push_target core collate upper view (p, e, t) start finish st)"
| "sync_do core collate upper (PushEnvironment view p e now) st = snd (syncEnvironment core collate upper view p e now st)"
| "sync_do core collate upper (PushChanged status view now) st = syncChanged core collate upper status view now st"
| "sync_do core collate upper (ReadConnections refresh) st = snd (sync_connections core refresh st)"
| "sync_do core collate upper (ConnectProvider c) st = snd (sync_connect core c st)"
| "sync_do core collate upper (DisconnectProvider q) st = snd (sync_disconnect core q st)"
| "sync_do core collate upper Restart st = (start_syncer (yy_stored (fst st)), snd st)"

definition syncer_run :: "'w sync_core \<Rightarrow> (js_text \<Rightarrow> nat) \<Rightarrow> (nat \<Rightarrow> js_text) \<Rightarrow> sync_op list \<Rightarrow> 'w \<Rightarrow> secret_syncer \<times> 'w" where
  "syncer_run core collate upper ops w = fold (sync_do core collate upper) ops (start_syncer None, w)"

text \<open>What is stored is what is shown, when the storage takes writes.\<close>

definition stored_ok :: "secret_syncer \<Rightarrow> bool" where
  "stored_ok s \<longleftrightarrow> names_of s = names_of (start_syncer (yy_stored s))"

lemma names_of_start: "names_of (start_syncer stored) t =
    (case map_of (case stored of None \<Rightarrow> [] | Some m \<Rightarrow> m) t of None \<Rightarrow> [] | Some x \<Rightarrow> yt_names x)"
proof -
  have "map_of (map (\<lambda>(i, x). (i, f x)) m) t = map_option f (map_of m t)" for f :: "target_status \<Rightarrow> target_status" and m
    by (induction m) auto
  note this [of "\<lambda>x. if yt_state x = Syncing then x\<lparr>yt_state := SyncFailure, yt_message := ascii ''Interrupted.''\<rparr> else x"]
  then show ?thesis by (auto simp: names_of_def start_syncer_def split: option.splits)
qed

lemma stored_setStatus: "yc_stores core \<Longrightarrow> stored_ok (setStatus core t x s)"
  by (auto simp: stored_ok_def names_of_start fun_eq_iff) (auto simp: setStatus_def Let_def names_of_def update_conv')

lemma stored_same: "yy_status s' = yy_status s \<Longrightarrow> yy_stored s' = yy_stored s \<Longrightarrow> stored_ok s' = stored_ok s"
  by (simp add: stored_ok_def names_of_def [abs_def])

lemma stored_connections: "stored_ok s \<Longrightarrow> stored_ok (fst (snd (sync_connections core refresh (s, w))))"
  using sync_connections_state(1,2) [of core refresh s w] stored_same by (metis prod.collapse)

lemma stored_push:
  assumes "yc_stores core" and "stored_ok (fst st)"
  shows "stored_ok (fst (snd (push_target core collate upper view at start finish st)))"
proof -
  obtain p e t where at: "at = (p, e, t)" by (metis surj_pair)
  obtain s w where st: "st = (s, w)" by (cases st)
  obtain q s1 w1 where q: "sync_connections core False (s, w) = (q, (s1, w1))" by (metis surj_pair)
  have "stored_ok s" using assms(2) st by simp
  then show ?thesis
    unfolding at st push_target_def
    by (auto simp: q Let_def throw_def ret_def finish_push_def stored_setStatus [OF assms(1)]
        split: option.split prod.split sum.split)
qed

lemma stored_push_each:
  assumes "yc_stores core"
  shows "stored_ok (fst st) \<Longrightarrow> stored_ok (fst (snd (push_each core collate upper view now due st)))"
proof (induction due arbitrary: st)
  case (Cons d due)
  obtain r st1 where step: "push_target core collate upper view d now now st = (r, st1)" by (metis surj_pair)
  then have "stored_ok (fst st1)" using stored_push [OF assms Cons.prems, of collate upper view d now now] by simp
  then have rest: "stored_ok (fst (snd (push_each core collate upper view now due st1)))" by (rule Cons.IH)
  obtain rs st2 where "push_each core collate upper view now due st1 = (rs, st2)" by (metis surj_pair)
  then show ?case using rest step by simp
qed simp

lemma sync_connections_remembered:
  assumes "reports core ours" and "remembered ours st"
  shows "remembered ours (snd (sync_connections core refresh st))"
proof -
  obtain s w where st: "st = (s, w)" by (cases st)
  obtain r s' w' where q: "sync_connections core refresh (s, w) = (r, (s', w'))" by (metis surj_pair)
  show ?thesis using connections_remembered [OF assms(1) q] assms(2) q by (simp add: remembered_def st)
qed

lemma and_then_state: "snd (and_then m (\<lambda>x. ret (f x))) = snd m"
  by (cases m; cases "fst m") (auto simp: and_then_def ret_def)

lemma syncEnvironment_state:
  "snd (syncEnvironment core collate upper view p e now st) = st \<or>
   (\<exists>due. snd (syncEnvironment core collate upper view p e now st) = snd (push_each core collate upper view now due st))"
proof (cases "find_environment view p e")
  case (Some found)
  obtain project env where found: "found = (project, env)" by (cases found)
  let ?due = "once_per_target (map (\<lambda>x. (p, e, target_id x)) (ei_sync env))"
  obtain rs st1 where "push_each core collate upper view now ?due st = (rs, st1)" by (metis surj_pair)
  then have "ei_sync env = [] \<or> snd (syncEnvironment core collate upper view p e now st) = snd (push_each core collate upper view now ?due st)"
    by (simp add: syncEnvironment_def Some found ret_def Let_def)
  then show ?thesis by (auto simp: syncEnvironment_def Some found throw_def)
qed (simp add: syncEnvironment_def throw_def)

text \<open>Every operation keeps both.\<close>

lemma sync_do_keeps:
  assumes "reports core ours" and "yc_stores core" and "stored_ok (fst st)" and "remembered ours st"
  shows "stored_ok (fst (sync_do core collate upper a st)) \<and> remembered ours (sync_do core collate upper a st)"
proof (cases a)
  case (PushNow view p e t start finish)
  obtain s w where st: "st = (s, w)" by (cases st)
  obtain r s' w' where step: "push_target core collate upper view (p, e, t) start finish (s, w) = (r, (s', w'))" by (metis surj_pair)
  show ?thesis
    using push_remembered [OF assms(1) assms(4) [unfolded st] step] stored_push [OF assms(2,3), of collate upper view "(p, e, t)" start finish]
    by (simp add: PushNow st step)
next
  case (PushEnvironment view p e now)
  from syncEnvironment_state [of core collate upper view p e now st] show ?thesis
    using assms(3,4) stored_push_each [OF assms(2,3)] push_each_remembered [OF assms(1,4)]
    by (elim disjE exE) (simp_all add: PushEnvironment)
next
  case (PushChanged status view now)
  obtain s w where st: "st = (s, w)" by (cases st)
  obtain r st1 where q: "sync_connections core False st = (r, st1)" by (metis surj_pair)
  have "stored_ok (fst st1)" "remembered ours st1"
    using stored_connections [of s core False w] assms(3) sync_connections_remembered [OF assms(1,4), of False] q st by auto
  then show ?thesis
    using assms(3,4) stored_push_each [OF assms(2)] push_each_remembered [OF assms(1)]
    by (auto simp: PushChanged syncChanged_def q Let_def split: sum.split)
next
  case (ReadConnections refresh)
  obtain s w where st: "st = (s, w)" by (cases st)
  show ?thesis using stored_connections [of s core refresh w] assms(3) sync_connections_remembered [OF assms(1,4)] ReadConnections st by simp
next
  case (ConnectProvider c)
  obtain s w where st: "st = (s, w)" by (cases st)
  obtain r w1 where q: "yc_connect core c w = (r, w1)" by (metis surj_pair)
  have "ours w1 = ours w" using assms(1) q unfolding reports_def by blast
  then have "remembered ours (s, w1)" using assms(4) by (simp add: remembered_def st)
  then show ?thesis
    using stored_connections [of s core True w1] assms(3) sync_connections_remembered [OF assms(1), of "(s, w1)" True]
    by (cases r) (auto simp: ConnectProvider st sync_connect_def q throw_def and_then_state)
next
  case (DisconnectProvider x)
  obtain s w where st: "st = (s, w)" by (cases st)
  obtain r w1 where q: "yc_disconnect core x w = (r, w1)" by (metis surj_pair)
  have "ours w1 = ours w" using assms(1) q unfolding reports_def by blast
  then have "remembered ours (s, w1)" using assms(4) by (simp add: remembered_def st)
  then show ?thesis
    using stored_connections [of s core True w1] assms(3) sync_connections_remembered [OF assms(1), of "(s, w1)" True]
    by (cases r) (auto simp: DisconnectProvider st sync_disconnect_def q throw_def and_then_state)
next
  case Restart
  have "names_of (start_syncer (yy_stored (fst st))) = names_of (fst st)" using assms(3) by (simp add: stored_ok_def)
  then show ?thesis using assms(4) by (simp add: Restart remembered_def stored_ok_def start_syncer_def)
qed

lemma syncer_run_keeps:
  assumes "reports core ours" and "yc_stores core" and "\<forall>t. ours w t = {}"
  shows "remembered ours (syncer_run core collate upper ops w)"
proof -
  have "stored_ok (fst (fold (sync_do core collate upper) ops st)) \<and> remembered ours (fold (sync_do core collate upper) ops st)"
    if "stored_ok (fst st)" "remembered ours st" for st
    using that
  proof (induction ops arbitrary: st)
    case (Cons a ops)
    then show ?case using sync_do_keeps [OF assms(1,2)] by simp
  qed simp
  moreover have "stored_ok (start_syncer None)" by (simp add: stored_ok_def start_syncer_def)
  ultimately show ?thesis using assms(3) by (simp add: syncer_run_def remembered_def)
qed


section \<open>Concrete runs\<close>

definition demo_hub :: sync_target where "demo_hub = GithubTarget ''gh1'' (ascii ''acme/web'') None None"

text \<open>The project of the other examples, pushed from \<^verbatim>\<open>prod\<close>, with and without its secret.\<close>

definition demo_pushing :: environment_view where "demo_pushing = (demo_env_view ''prod'' None)\<lparr>ei_sync := [demo_hub]\<rparr>"

definition demo_seen :: "secret_view list \<Rightarrow> projects_seen" where
  "demo_seen secrets = ([demo_view\<lparr>pw_environments := [demo_pushing]\<rparr>], secrets)"

text \<open>A provider that takes everything, and keeps per target the names it was given.\<close>

definition demo_hub_core :: "(id \<Rightarrow> js_text list) sync_core" where
  "demo_hub_core = \<lparr>yc_connections = (\<lambda>w. ret \<lparr>cn_github = Some (ascii ''octocat''), cn_aws = None\<rparr> w),
     yc_connect = (\<lambda>c w. ret (ascii ''octocat'') w), yc_disconnect = (\<lambda>q w. ret () w),
     yc_push = (\<lambda>p x items names w. ret \<lparr>yr_pushed = map yi_name items,
        yr_removed = filter (\<lambda>n. n \<notin> yi_name ` set items) names, yr_failed = []\<rparr>
       (w(target_id x := map yi_name items @ filter (\<lambda>n. n \<notin> set names) (w (target_id x))))),
     yc_stores = True\<rparr>"

lemma demo_hub_reports: "reports demo_hub_core (\<lambda>w t. set (w t))"
  by (auto simp: reports_def demo_hub_core_def ret_def)

lemma demo_seen_ok: "view_ok (demo_seen secrets)"
  "find_target (demo_seen secrets) ''p'' ''prod'' ''gh1'' = Some (demo_view\<lparr>pw_environments := [demo_pushing]\<rparr>, demo_pushing, demo_hub)"
  by (simp_all add: view_ok_def demo_seen_def unique_by_def targets_of_def target_of_def demo_pushing_def demo_view_def
      demo_env_view_def demo_hub_def find_target_def find_environment_def environment_view_of_def Let_def)

lemma demo_items: "itemsFor collate [demo_secret] (demo_view\<lparr>pw_environments := [demo_pushing]\<rparr>) demo_pushing =
    [\<lparr>yi_name = ascii ''KEY'', yi_secretId = ''s'', yi_environmentId = ''prod'',
      yi_encryptedValue = \<lparr>bl_kid = ''prod'', bl_nonce = ''n'', bl_ct = ''c''\<rparr>\<rparr>]"
  "itemsFor collate [] project env = []"
  by (simp_all add: itemsFor_def sync_item_of_def demo_secret_def valueSource_def demo_view_def demo_pushing_def demo_env_view_def
      environment_view_of_def Let_def)

lemma demo_pushed:
  assumes "yy_connections s = None \<or> yy_connections s = Some \<lparr>cn_github = Some (ascii ''octocat''), cn_aws = None\<rparr>"
  shows "\<exists>x s' w'. push_target demo_hub_core collate upper (demo_seen secrets) (''p'', ''prod'', ''gh1'') start finish (s, w) = (Inr x, (s', w')) \<and>
    yt_state x = Synced"
  using assms
  by (auto simp: push_target_def demo_seen_ok(2) sync_connections_def demo_hub_core_def ret_def finish_push_def connected_def ascii_def
      demo_hub_def demo_pushing_def demo_env_view_def environment_view_of_def Let_def summarize_report_def)



end
