(* ===== verification/Extension.thy ===== *)
theory Extension
  imports Metadata
begin

text \<open>
  The service worker of the browser extension (\<^verbatim>\<open>apps/extension/src/background.ts\<close>): it alone talks to
  \<^verbatim>\<open>zv\<close>, and decides what a page's content script and the popup may ask. The browser, the native host and what
  \<^verbatim>\<open>new URL\<close> says of an address are a parameter over a world they change. A message is handled to its end before
  the next one; the events of a running pairing are steps of their own. The native host's answer to a request has the
  shape of that request's answers.
\<close>

datatype error_code = NotInstalled | NotRunning | NotPaired | LockedCode | PausedCode | DeniedCode | TimeoutCode
  | NotFoundCode | WrongSite | Busy | BadRequest | NoForm | ErrorCode

type_synonym 'a result = "(error_code \<times> string) + 'a"

record saved_login =
  lg_id :: string
  lg_title :: js_text
  lg_username :: js_text
  lg_url :: js_text
  lg_hasTotp :: bool

record form_fill =
  fl_username :: js_text
  fl_password :: js_text
  fl_otp :: "js_text option"
  fl_otpRemaining :: "nat option"

record app_status =
  ap_running :: bool
  ap_locked :: bool
  ap_paired :: bool
  ap_name :: "js_text option"
  ap_paused :: "bool option"

record save_offer =
  so_host :: js_text
  so_username :: js_text
  so_update :: "js_text option"

datatype save_check = CheckNew | CheckUpdate string js_text | CheckSaved

datatype ext_request =
    GetStatus
  | Pair
  | Unpair
  | Unlock
  | GetLogins
  | FillFrame string bool
  | LastFilled
  | TabLogins nat
  | TabFill nat string bool
  | TabCode nat string
  | Typed "js_text option" "js_text option"
  | TypedUsername "js_text option"
  | GetSaveOffer
  | SaveTyped
  | DismissSave

datatype tab_message = OfferSave save_offer | FillNow js_text form_fill bool

text \<open>What goes to the native host, and its answers.\<close>

datatype host_request =
    HostStatus
  | HostPair js_text
  | HostUnpair
  | HostUnlock
  | HostLogins js_text "js_text option"
  | HostFill string js_text "js_text option" bool
  | HostSaveCheck js_text "js_text option" js_text js_text
  | HostSave js_text "js_text option" js_text js_text "string option"

datatype host_value =
    StatusIs app_status
  | LoginsAre "saved_login list"
  | FillIs form_fill
  | CheckIs save_check
  | MessageIs js_text
  | Plain

definition logins_in :: "host_value \<Rightarrow> saved_login list" where
  "logins_in v = (case v of LoginsAre l \<Rightarrow> l | _ \<Rightarrow> [])"

definition fill_in :: "host_value \<Rightarrow> form_fill" where
  "fill_in v = (case v of FillIs f \<Rightarrow> f | _ \<Rightarrow> \<lparr>fl_username = [], fl_password = [], fl_otp = None, fl_otpRemaining = None\<rparr>)"

definition check_in :: "host_value \<Rightarrow> save_check" where
  "check_in v = (case v of CheckIs c \<Rightarrow> c | _ \<Rightarrow> CheckNew)"

datatype reply =
    Done
  | StatusReply host_value "js_text option"
  | HostReply host_value
  | LoginsReply "saved_login list"
  | FillReply form_fill
  | FilledReply "string option"
  | TabLoginsReply js_text "saved_login list"
  | CodeReply "js_text option" "nat option"
  | OfferReply "save_offer option"
  | SavedReply host_value

record sender =
  sd_url :: "js_text option"
  sd_frameId :: "nat option"
  sd_tabId :: "nat option"
  sd_tabUrl :: "js_text option"

record 'w browser =
  br_home :: js_text
  br_brands :: "js_text list"
  br_origin :: "js_text \<Rightarrow> js_text"
  br_hostname :: "js_text \<Rightarrow> js_text"
  br_stores :: bool
  br_tabUrl :: "nat \<Rightarrow> 'w \<Rightarrow> js_text option"
  br_tell :: "nat \<Rightarrow> tab_message \<Rightarrow> 'w \<Rightarrow> bool \<times> 'w"
  br_openPopup :: "'w \<Rightarrow> 'w"
  br_host :: "host_request \<Rightarrow> 'w \<Rightarrow> host_value result \<times> 'w"

record pending_save =
  pn_url :: js_text
  pn_topUrl :: "js_text option"
  pn_username :: js_text
  pn_password :: js_text
  pn_item :: "string option"
  pn_offer :: save_offer
  pn_at :: time

text \<open>Session storage, by tab, and the pairing code shown.\<close>

record extension =
  xt_filled :: "(nat \<times> (string \<times> time)) list"
  xt_save :: "(nat \<times> pending_save) list"
  xt_user :: "(nat \<times> (js_text \<times> js_text \<times> time)) list"
  xt_pairingCode :: "js_text option"

definition fresh_extension :: extension where
  "fresh_extension = \<lparr>xt_filled = [], xt_save = [], xt_user = [], xt_pairingCode = None\<rparr>"

definition LAST_FILLED_MS :: int where "LAST_FILLED_MS = 10 * 60 * 1000"
definition PENDING_MS :: int where "PENDING_MS = 2 * 60 * 1000"
definition USERNAME_MS :: int where "USERNAME_MS = 10 * 60 * 1000"

section \<open>Addresses\<close>

definition is_web :: "js_text \<Rightarrow> bool" where
  "is_web url \<longleftrightarrow> take 5 url = ascii ''http:'' \<or> take 6 url = ascii ''https:''"

definition pageOf :: "sender \<Rightarrow> (js_text \<times> js_text option) option" where
  "pageOf s = (case sd_url s of
     None \<Rightarrow> None
   | Some url \<Rightarrow> if is_web url then Some (url, if sd_frameId s = Some 0 then Some url else sd_tabUrl s) else None)"

definition tabUrl :: "'w browser \<Rightarrow> nat \<Rightarrow> 'w \<Rightarrow> js_text option" where
  "tabUrl b t w = (case br_tabUrl b t w of None \<Rightarrow> None | Some url \<Rightarrow> if is_web url then Some url else None)"

definition strip_www :: "js_text \<Rightarrow> js_text" where
  "strip_www h = (if take 4 h = ascii ''www.'' then drop 4 h else h)"

section \<open>Session storage\<close>

definition stored :: "'w browser \<Rightarrow> (nat \<times> 'a) list \<Rightarrow> nat \<Rightarrow> 'a option" where
  "stored b m t = (if br_stores b then map_of m t else None)"

definition remember :: "'w browser \<Rightarrow> nat option \<Rightarrow> string \<Rightarrow> time \<Rightarrow> extension \<Rightarrow> extension" where
  "remember b t item now x = (case t of None \<Rightarrow> x
     | Some t \<Rightarrow> if br_stores b then x\<lparr>xt_filled := AList.update t (item, now) (xt_filled x)\<rparr> else x)"

definition lastFilled :: "'w browser \<Rightarrow> nat option \<Rightarrow> time \<Rightarrow> extension \<Rightarrow> string option" where
  "lastFilled b t now x = Option.bind t (\<lambda>t. case stored b (xt_filled x) t of None \<Rightarrow> None
     | Some (item, at) \<Rightarrow> if now - at < LAST_FILLED_MS then Some item else None)"

definition pending :: "'w browser \<Rightarrow> nat \<Rightarrow> time \<Rightarrow> extension \<Rightarrow> pending_save option" where
  "pending b t now x = (case stored b (xt_save x) t of None \<Rightarrow> None
     | Some p \<Rightarrow> if now - pn_at p < PENDING_MS then Some p else None)"

definition dropPending :: "'w browser \<Rightarrow> nat \<Rightarrow> extension \<Rightarrow> extension" where
  "dropPending b t x = (if br_stores b then x\<lparr>xt_save := AList.delete t (xt_save x)\<rparr> else x)"

section \<open>Requests to the host\<close>

type_synonym ('a, 'w) ext_step = "extension \<times> 'w \<Rightarrow> 'a result \<times> extension \<times> 'w"

definition fail :: "error_code \<Rightarrow> string \<Rightarrow> ('a, 'w) ext_step" where
  "fail code message st = (Inl (code, message), st)"

definition ask :: "'w browser \<Rightarrow> host_request \<Rightarrow> (host_value, 'w) ext_step" where
  "ask b r st = (case br_host b r (snd st) of (a, w) \<Rightarrow> (a, (fst st, w)))"

definition and_also :: "('a, 'w) ext_step \<Rightarrow> ('a \<Rightarrow> ('b, 'w) ext_step) \<Rightarrow> ('b, 'w) ext_step" where
  "and_also m f st = (case m st of (Inl e, st) \<Rightarrow> (Inl e, st) | (Inr a, st) \<Rightarrow> f a st)"

definition answer :: "'a \<Rightarrow> ('a, 'w) ext_step" where "answer a st = (Inr a, st)"

definition typed :: "'w browser \<Rightarrow> sender \<Rightarrow> time \<Rightarrow> js_text \<Rightarrow> js_text \<Rightarrow> (reply, 'w) ext_step" where
  "typed b s now username password st = (case (pageOf s, sd_tabId s) of
     (Some (url, topUrl), Some t) \<Rightarrow>
       let site = br_origin b url;
           username = (if username \<noteq> [] then username
             else case stored b (xt_user (fst st)) t of
               Some (u, earlier, at) \<Rightarrow> if earlier = site \<and> now - at < USERNAME_MS then u else []
             | None \<Rightarrow> [])
       in (case ask b (HostSaveCheck url topUrl username password) st of
         (Inl e, st) \<Rightarrow> (Inr Done, st)
       | (Inr v, (x, w)) \<Rightarrow>
           (if check_in v = CheckSaved then (Inr Done, (x, w))
            else let offer = \<lparr>so_host = strip_www (br_hostname b url), so_username = username,
                      so_update = (case check_in v of CheckUpdate item title \<Rightarrow> Some title | _ \<Rightarrow> None)\<rparr>;
                   entry = \<lparr>pn_url = url, pn_topUrl = topUrl, pn_username = username, pn_password = password,
                      pn_item = (case check_in v of CheckUpdate item title \<Rightarrow> Some item | _ \<Rightarrow> None),
                      pn_offer = offer, pn_at = now\<rparr>
              in (Inr Done, (if br_stores b then x\<lparr>xt_save := AList.update t entry (xt_save x)\<rparr> else x,
                   snd (br_tell b t (OfferSave offer) w)))))
   | _ \<Rightarrow> fail BadRequest ''This page cannot be saved.'' st)"

definition save_typed :: "'w browser \<Rightarrow> nat \<Rightarrow> time \<Rightarrow> (reply, 'w) ext_step" where
  "save_typed b t now st = (case pending b t now (fst st) of
     None \<Rightarrow> fail BadRequest ''That login is no longer waiting to be saved.'' st
   | Some p \<Rightarrow> (case ask b (HostSave (pn_url p) (pn_topUrl p) (pn_username p) (pn_password p) (pn_item p)) st of
       (Inl (code, message), (x, w)) \<Rightarrow>
         (Inl (code, message), (if code = DeniedCode \<or> code = WrongSite then dropPending b t x else x, w))
     | (Inr v, (x, w)) \<Rightarrow> (Inr (SavedReply v), (dropPending b t x, w))))"

section \<open>Messages\<close>

fun popup_only :: "ext_request \<Rightarrow> bool" where
  "popup_only Pair = True" | "popup_only Unpair = True" | "popup_only (TabLogins t) = True"
| "popup_only (TabFill t item otp) = True" | "popup_only (TabCode t item) = True" | "popup_only _ = False"

fun top_only :: "ext_request \<Rightarrow> bool" where
  "top_only GetSaveOffer = True" | "top_only SaveTyped = True" | "top_only DismissSave = True" | "top_only _ = False"

fun page_only :: "ext_request \<Rightarrow> bool" where
  "page_only GetLogins = True" | "page_only (FillFrame item otp) = True" | "page_only LastFilled = True"
| "page_only (Typed u p) = True" | "page_only (TypedUsername u) = True" | "page_only m = top_only m"

definition fromPage :: "'w browser \<Rightarrow> sender \<Rightarrow> bool" where
  "fromPage b s \<longleftrightarrow> (case sd_url s of None \<Rightarrow> True | Some url \<Rightarrow> take (length (br_home b)) url \<noteq> br_home b)"

text \<open>\<^verbatim>\<open>browserName\<close>: the first brand that is neither Chromium nor a placeholder. Case is ignored, and \<^verbatim>\<open>.\<close> is any unit but a line end.\<close>

definition lower_ascii :: "nat \<Rightarrow> nat" where "lower_ascii u = (if 65 \<le> u \<and> u \<le> 90 then u + 32 else u)"

definition begins :: "string \<Rightarrow> js_text \<Rightarrow> bool" where
  "begins p s \<longleftrightarrow> map lower_ascii (take (length p) s) = ascii p"

definition perhaps_any :: "(js_text \<Rightarrow> bool) \<Rightarrow> js_text \<Rightarrow> bool" where
  "perhaps_any rest s \<longleftrightarrow> rest s \<or> (case s of [] \<Rightarrow> False | u # us \<Rightarrow> u \<notin> {10, 13, 0x2028, 0x2029} \<and> rest us)"

fun somewhere :: "(js_text \<Rightarrow> bool) \<Rightarrow> js_text \<Rightarrow> bool" where
  "somewhere P [] = P []"
| "somewhere P (u # us) = (P (u # us) \<or> somewhere P us)"

definition placeholder_brand :: "js_text \<Rightarrow> bool" where
  "placeholder_brand s \<longleftrightarrow> somewhere (begins ''chromium'') s \<or>
     somewhere (\<lambda>s. begins ''not'' s \<and> perhaps_any (\<lambda>s. begins ''a'' s \<and> perhaps_any (begins ''brand'') (drop 1 s)) (drop 3 s)) s"

definition browserName :: "js_text list \<Rightarrow> js_text" where
  "browserName brands = ascii ''Zvault for '' @ (case find (\<lambda>b. \<not> placeholder_brand b) brands of
     None \<Rightarrow> ascii ''Chrome''
   | Some b \<Rightarrow> if take 7 b = ascii ''Google '' then drop 7 b else b)"

definition handle :: "'w browser \<Rightarrow> time \<Rightarrow> ext_request \<Rightarrow> sender \<Rightarrow> (reply, 'w) ext_step" where
  "handle b now msg s st =
     (if (fromPage b s \<and> popup_only msg) \<or> (\<not> fromPage b s \<and> page_only msg) then fail BadRequest ''Not allowed from here.'' st
      else if top_only msg \<and> sd_frameId s \<noteq> Some 0 then fail BadRequest ''Not allowed from here.'' st
      else case msg of
        GetStatus \<Rightarrow> and_also (ask b HostStatus) (\<lambda>v st. (Inr (StatusReply v (xt_pairingCode (fst st))), st)) st
      | Pair \<Rightarrow> (case ask b (HostPair (browserName (br_brands b))) st of (r, (x, w)) \<Rightarrow>
          (map_sum id HostReply r, (x\<lparr>xt_pairingCode := None\<rparr>, w)))
      | Unpair \<Rightarrow> and_also (ask b HostUnpair) (\<lambda>v. answer (HostReply v)) st
      | Unlock \<Rightarrow> and_also (ask b HostUnlock) (\<lambda>v. answer (HostReply v)) st
      | GetLogins \<Rightarrow> (case pageOf s of
          None \<Rightarrow> fail BadRequest ''This page cannot be filled.'' st
        | Some (url, topUrl) \<Rightarrow> and_also (ask b (HostLogins url topUrl)) (\<lambda>v. answer (LoginsReply (logins_in v))) st)
      | FillFrame item otpOnly \<Rightarrow> (case pageOf s of
          None \<Rightarrow> fail BadRequest ''This page cannot be filled.'' st
        | Some (url, topUrl) \<Rightarrow> and_also (ask b (HostFill item url topUrl otpOnly)) (\<lambda>v (x, w).
            (Inr (FillReply (fill_in v)),
             (if \<not> otpOnly \<and> fl_otp (fill_in v) \<notin> {None, Some []} then remember b (sd_tabId s) item now x else x, w))) st)
      | LastFilled \<Rightarrow> (Inr (FilledReply (lastFilled b (sd_tabId s) now (fst st))), st)
      | TabLogins t \<Rightarrow> (case tabUrl b t (snd st) of
          None \<Rightarrow> fail NoForm ''Zvault fills logins on websites.'' st
        | Some url \<Rightarrow> and_also (ask b (HostLogins url None)) (\<lambda>v. answer (TabLoginsReply url (logins_in v))) st)
      | TabFill t item otpOnly \<Rightarrow> (case tabUrl b t (snd st) of
          None \<Rightarrow> fail NoForm ''Zvault fills logins on websites.'' st
        | Some url \<Rightarrow> and_also (ask b (HostFill item url None otpOnly)) (\<lambda>v (x, w).
            (case br_tell b t (FillNow (br_origin b url) (fill_in v) otpOnly) w of (filled, w) \<Rightarrow>
              if \<not> filled then fail NoForm ''No login form on this page. Click into it and try again.'' (x, w)
              else (Inr Done, (if \<not> otpOnly \<and> fl_otp (fill_in v) \<notin> {None, Some []} then remember b (Some t) item now x else x, w)))) st)
      | TabCode t item \<Rightarrow> (case tabUrl b t (snd st) of
          None \<Rightarrow> fail NoForm ''Zvault fills logins on websites.'' st
        | Some url \<Rightarrow> and_also (ask b (HostFill item url None True))
            (\<lambda>v. answer (CodeReply (fl_otp (fill_in v)) (fl_otpRemaining (fill_in v)))) st)
      | Typed username password \<Rightarrow> (case (username, password) of
          (Some u, Some p) \<Rightarrow> if p = [] then fail BadRequest ''Nothing to save.'' st else typed b s now (trim_text u) p st
        | _ \<Rightarrow> fail BadRequest ''Nothing to save.'' st)
      | TypedUsername username \<Rightarrow>
          let u = (case username of None \<Rightarrow> [] | Some u \<Rightarrow> trim_text u)
          in (case (pageOf s, sd_tabId s) of
            (Some (url, topUrl), Some t) \<Rightarrow>
              if u = [] \<or> length u > 512 then fail BadRequest ''Nothing to remember.'' st
              else (Inr Done, (if br_stores b then (fst st)\<lparr>xt_user := AList.update t (u, br_origin b url, now) (xt_user (fst st))\<rparr> else fst st, snd st))
          | _ \<Rightarrow> fail BadRequest ''Nothing to remember.'' st)
      | GetSaveOffer \<Rightarrow> (case sd_tabId s of None \<Rightarrow> (Inr (OfferReply None), st)
          | Some t \<Rightarrow> (Inr (OfferReply (map_option pn_offer (pending b t now (fst st)))), st))
      | SaveTyped \<Rightarrow> (case sd_tabId s of None \<Rightarrow> fail BadRequest ''Not allowed from here.'' st | Some t \<Rightarrow> save_typed b t now st)
      | DismissSave \<Rightarrow> (Inr Done, (case sd_tabId s of None \<Rightarrow> fst st | Some t \<Rightarrow> dropPending b t (fst st), snd st)))"

section \<open>Events\<close>

datatype ext_event =
    Message ext_request sender
  | PairingCode js_text
  | FillCommand nat
  | TabClosed nat

text \<open>Command-Shift-L: the only login saved for the page is filled as the popup would; otherwise the popup opens.\<close>

definition own_page :: "'w browser \<Rightarrow> sender" where
  "own_page b = \<lparr>sd_url = Some (br_home b), sd_frameId = None, sd_tabId = None, sd_tabUrl = None\<rparr>"

definition fill_command :: "'w browser \<Rightarrow> time \<Rightarrow> nat \<Rightarrow> extension \<times> 'w \<Rightarrow> extension \<times> 'w" where
  "fill_command b now t st = (case tabUrl b t (snd st) of
     None \<Rightarrow> st
   | Some url \<Rightarrow> (case ask b (HostLogins url None) st of
       (Inr v, st) \<Rightarrow> (case logins_in v of
           [l] \<Rightarrow> snd (handle b now (TabFill t (lg_id l) False) (own_page b) st)
         | _ \<Rightarrow> (fst st, br_openPopup b (snd st)))
     | (Inl e, st) \<Rightarrow> (fst st, br_openPopup b (snd st))))"

definition close_tab :: "'w browser \<Rightarrow> nat \<Rightarrow> extension \<Rightarrow> extension" where
  "close_tab b t x = (if br_stores b then x\<lparr>xt_filled := AList.delete t (xt_filled x), xt_save := AList.delete t (xt_save x),
     xt_user := AList.delete t (xt_user x)\<rparr> else x)"

fun on_event :: "'w browser \<Rightarrow> time \<Rightarrow> ext_event \<Rightarrow> extension \<times> 'w \<Rightarrow> extension \<times> 'w" where
  "on_event b now (Message m s) st = snd (handle b now m s st)"
| "on_event b now (PairingCode c) st = ((fst st)\<lparr>xt_pairingCode := Some c\<rparr>, snd st)"
| "on_event b now (FillCommand t) st = fill_command b now t st"
| "on_event b now (TabClosed t) st = (close_tab b t (fst st), snd st)"

end
