(* ===== verification/ExtensionProps.thy ===== *)
theory ExtensionProps
  imports Extension
begin

text \<open>
  What the extension's service worker asks of Zvault: on whose behalf, and which typed passwords it passes on.
\<close>

section \<open>Requests sent\<close>

text \<open>The browser with a log of what goes to the native host.\<close>

definition log_browser :: "'w browser \<Rightarrow> ('w \<times> host_request list) browser" where
  "log_browser b = \<lparr>br_home = br_home b, br_brands = br_brands b, br_origin = br_origin b, br_hostname = br_hostname b,
     br_stores = br_stores b, br_tabUrl = (\<lambda>t (w, l). br_tabUrl b t w),
     br_tell = (\<lambda>t m (w, l). case br_tell b t m w of (ok, w) \<Rightarrow> (ok, (w, l))),
     br_openPopup = (\<lambda>(w, l). (br_openPopup b w, l)),
     br_host = (\<lambda>r (w, l). case br_host b r w of (a, w) \<Rightarrow> (a, (w, l @ [r])))\<rparr>"

definition sent :: "'w browser \<Rightarrow> time \<Rightarrow> ext_event \<Rightarrow> extension \<times> 'w \<Rightarrow> host_request list" where
  "sent b now e st = snd (snd (on_event (log_browser b) now e (fst st, (snd st, []))))"

lemma log_simps [simp]:
  "ask (log_browser b) r (x, (w, l)) = (fst (br_host b r w), (x, (snd (br_host b r w), l @ [r])))"
  "br_stores (log_browser b) = br_stores b" "br_home (log_browser b) = br_home b"
  "br_origin (log_browser b) = br_origin b" "br_hostname (log_browser b) = br_hostname b" "br_brands (log_browser b) = br_brands b"
  "fromPage (log_browser b) s = fromPage b s" "tabUrl (log_browser b) t (w, l) = tabUrl b t w"
  "br_tell (log_browser b) t m (w, l) = (fst (br_tell b t m w), (snd (br_tell b t m w), l))"
  "stored (log_browser b) tab_map t = stored b tab_map t" "pending (log_browser b) t now x = pending b t now x"
  "dropPending (log_browser b) t x = dropPending b t x" "br_openPopup (log_browser b) (w, l) = (br_openPopup b w, l)"
  by (auto simp: ask_def log_browser_def fromPage_def tabUrl_def stored_def [abs_def] pending_def dropPending_def
      split: prod.splits option.splits)

fun address :: "host_request \<Rightarrow> (js_text \<times> js_text option) option" where
  "address (HostLogins url top_url) = Some (url, top_url)"
| "address (HostFill item url top_url otp) = Some (url, top_url)"
| "address (HostSaveCheck url top_url u p) = Some (url, top_url)"
| "address (HostSave url top_url u p item) = Some (url, top_url)"
| "address r = None"

text \<open>The tab a message from the extension's own page is about.\<close>

fun tab_asked :: "ext_request \<Rightarrow> nat option" where
  "tab_asked (TabLogins t) = Some t"
| "tab_asked (TabFill t item otp) = Some t"
| "tab_asked (TabCode t item) = Some t"
| "tab_asked m = None"

lemma sent_message:
  "sent b now (Message m s) (x, w) = snd (snd (snd (handle (log_browser b) now m s (x, (w, [])))))"
  by (simp add: sent_def)

text \<open>The address the browser reports for a sender: of its frame, and of its tab where the frame is not the tab's page.\<close>

definition reported :: "sender \<Rightarrow> js_text \<Rightarrow> js_text option \<Rightarrow> bool" where
  "reported s url top_url \<longleftrightarrow> sd_url s = Some url \<and> is_web url \<and> top_url = (if sd_frameId s = Some 0 then Some url else sd_tabUrl s)"

lemma pageOf_reported: "pageOf s = Some (url, top_url) \<longleftrightarrow> reported s url top_url"
  by (auto simp: pageOf_def reported_def split: option.splits)

text \<open>What a save sends, with the login it is for.\<close>

lemma sent_save:
  "HostSave url top_url u p item \<in> set (sent b now (Message m s) (x, w)) \<longleftrightarrow>
     m = SaveTyped \<and> fromPage b s \<and> sd_frameId s = Some 0 \<and> (\<exists>t e. sd_tabId s = Some t \<and> pending b t now x = Some e \<and>
       url = pn_url e \<and> top_url = pn_topUrl e \<and> u = pn_username e \<and> p = pn_password e \<and> item = pn_item e)"
  by (cases m)
    (auto simp: sent_message handle_def fail_def and_also_def answer_def typed_def save_typed_def Let_def
      split: option.splits sum.splits prod.splits)

lemma message_address:
  assumes "r \<in> set (sent b now (Message m s) (x, w))"
  shows "(fromPage b s \<longrightarrow> (\<forall>name. r \<noteq> HostPair name) \<and> r \<noteq> HostUnpair) \<and>
    (\<forall>url top_url. address r = Some (url, top_url) \<longrightarrow> m \<noteq> SaveTyped \<longrightarrow>
       (if fromPage b s then reported s url top_url
        else top_url = None \<and> (\<exists>t. tab_asked m = Some t \<and> tabUrl b t w = Some url)))"
  using assms unfolding pageOf_reported [symmetric]
  by (cases m)
    (auto simp: sent_message handle_def fail_def and_also_def answer_def typed_def save_typed_def Let_def
      split: option.splits sum.splits prod.splits if_splits)

lemma save_sends:
  assumes "r \<in> set (sent b now (Message SaveTyped s) (x, w))" and "address r = Some (url, top_url)"
  shows "\<exists>u p item. r = HostSave url top_url u p item"
  using assms
  by (auto simp: sent_message handle_def fail_def save_typed_def split: option.splits sum.splits prod.splits if_splits)

section \<open>Typed logins\<close>

definition ext_run :: "'w browser \<Rightarrow> (time \<times> ext_event) list \<Rightarrow> 'w \<Rightarrow> extension \<times> 'w" where
  "ext_run b es w = fold (\<lambda>(now, e). on_event b now e) es (fresh_extension, w)"

text \<open>Events that drop what waits to be saved in a tab.\<close>

definition drops :: "'w browser \<Rightarrow> nat \<Rightarrow> ext_event \<Rightarrow> bool" where
  "drops b t e \<longleftrightarrow> e = TabClosed t \<or>
     (\<exists>s. e = Message DismissSave s \<and> sd_tabId s = Some t \<and> sd_frameId s = Some 0 \<and> fromPage b s)"

text \<open>The entry of a tab comes from a login typed in that tab, and nothing has dropped it since.\<close>

definition typed_earlier :: "'w browser \<Rightarrow> (time \<times> ext_event) list \<Rightarrow> nat \<Rightarrow> pending_save \<Rightarrow> bool" where
  "typed_earlier b es t p \<longleftrightarrow> (\<exists>es1 es2 s u. es = es1 @ (pn_at p, Message (Typed (Some u) (Some (pn_password p))) s) # es2 \<and>
     fromPage b s \<and> sd_tabId s = Some t \<and> pageOf s = Some (pn_url p, pn_topUrl p) \<and> (\<forall>(now, e) \<in> set es2. \<not> drops b t e))"

lemma typed_earlier_snoc: "typed_earlier b es t p \<Longrightarrow> \<not> drops b t e \<Longrightarrow> typed_earlier b (es @ [(now, e)]) t p"
  unfolding typed_earlier_def by fastforce

text \<open>How one event changes what waits to be saved.\<close>

lemma ask_state: "ask b r st = (a, st') \<Longrightarrow> fst st' = fst st"
  by (auto simp: ask_def split: prod.splits)

definition takes_save :: "'w browser \<Rightarrow> time \<Rightarrow> ext_request \<Rightarrow> sender \<Rightarrow> extension \<Rightarrow> extension \<Rightarrow> bool" where
  "takes_save b now m s x x' \<longleftrightarrow> xt_save x' = xt_save x \<or>
     (\<exists>t. sd_tabId s = Some t \<and> xt_save x' = AList.delete t (xt_save x)) \<or>
     (\<exists>t u p e. m = Typed (Some u) (Some p) \<and> fromPage b s \<and> sd_tabId s = Some t \<and> pageOf s = Some (pn_url e, pn_topUrl e) \<and>
        xt_save x' = AList.update t e (xt_save x) \<and> pn_password e = p \<and> pn_at e = now)"

lemma takes_update:
  "fromPage b s \<Longrightarrow> sd_tabId s = Some t \<Longrightarrow> pageOf s = Some (pn_url e, pn_topUrl e) \<Longrightarrow> pn_password e = p \<Longrightarrow> pn_at e = now \<Longrightarrow>
     takes_save b now (Typed (Some v) (Some p)) s x (x\<lparr>xt_save := AList.update t e (xt_save x)\<rparr>)"
  by (auto simp: takes_save_def)

lemma takes_same: "takes_save b now m s x x"
  by (simp add: takes_save_def)

lemma typed_save: "fromPage b s \<Longrightarrow> typed b s now u p (x, w) = (r, (x', w')) \<Longrightarrow> takes_save b now (Typed (Some v) (Some p)) s x x'"
  unfolding typed_def
  by (auto simp: fail_def ask_def Let_def intro!: takes_update takes_same split: option.splits sum.splits prod.splits if_splits)

lemma save_typed_save: "save_typed b t now (x, w) = (r, (x', w')) \<Longrightarrow> sd_tabId s = Some t \<Longrightarrow> takes_save b now m s x x'"
  unfolding save_typed_def takes_save_def
  by (auto simp: fail_def ask_def dropPending_def split: option.splits sum.splits prod.splits if_splits)

lemma handle_save: "handle b now m s (x, w) = (r, (x', w')) \<Longrightarrow> takes_save b now m s x x'"
proof (cases m)
  case (Typed u p)
  then show "handle b now m s (x, w) = (r, (x', w')) \<Longrightarrow> takes_save b now m s x x'"
    by (auto simp: handle_def fail_def takes_save_def split: option.splits if_splits)
      (auto dest!: typed_save simp: takes_save_def)
qed (auto simp: handle_def fail_def and_also_def answer_def ask_def remember_def dropPending_def Let_def takes_save_def
    split: option.splits sum.splits prod.splits if_splits dest!: save_typed_save [unfolded takes_save_def])
lemma dismiss_save:
  assumes "br_stores b" and "drops b t (Message m s)" and "handle b now m s (x, w) = (r, (x', w'))"
  shows "xt_save x' = AList.delete t (xt_save x)"
  using assms by (auto simp: drops_def handle_def dropPending_def)

lemma fill_command_save:
  assumes "fill_command b now t (x, w) = (x', w')"
  shows "xt_save x' = xt_save x"
proof -
  have "xt_save (fst (snd (handle b now (TabFill t item False) (own_page b) (y, v)))) = xt_save y" for item y v
    using handle_save [of b now "TabFill t item False" "own_page b" y v] by (metis takes_save_def own_page_def sender.select_convs(3) option.distinct(1) ext_request.distinct prod.collapse)
  then show ?thesis using assms by (auto simp: fill_command_def ask_def split: option.splits sum.splits prod.splits list.splits) (metis fst_conv snd_conv)
qed

lemma event_save:
  assumes "br_stores b" and "on_event b now e (x, w) = (x', w')" and "map_of (xt_save x') t = Some p"
  shows "map_of (xt_save x) t = Some p \<and> \<not> drops b t e \<or>
    (\<exists>s u. e = Message (Typed (Some u) (Some (pn_password p))) s \<and> fromPage b s \<and> sd_tabId s = Some t \<and>
       pageOf s = Some (pn_url p, pn_topUrl p) \<and> pn_at p = now)"
proof (cases e)
  case (Message m s)
  obtain r where step: "handle b now m s (x, w) = (r, (x', w'))" using assms(2) Message by (cases "handle b now m s (x, w)") auto
  show ?thesis
  proof (cases "drops b t e")
    case True
    then have "map_of (xt_save x') t = None" using dismiss_save [OF assms(1) _ step] Message by (simp add: delete_conv')
    then show ?thesis using assms(3) by simp
  next
    case False
    from handle_save [OF step] consider "xt_save x' = xt_save x" | u where "xt_save x' = AList.delete u (xt_save x)"
      | u v q y where "m = Typed (Some v) (Some q)" "fromPage b s" "sd_tabId s = Some u" "pageOf s = Some (pn_url y, pn_topUrl y)"
          "xt_save x' = AList.update u y (xt_save x)" "pn_password y = q" "pn_at y = now"
      unfolding takes_save_def by blast
    then show ?thesis
    proof cases
      case 1
      then show ?thesis using assms(3) False by simp
    next
      case (2 u)
      then show ?thesis using assms(3) False by (auto simp: delete_conv' split: if_splits)
    next
      case (3 u v q y)
      then show ?thesis using assms(3) False Message by (cases "u = t") (auto simp: update_conv')
    qed
  qed
next
  case (PairingCode c)
  then show ?thesis using assms by (auto simp: drops_def)
next
  case (FillCommand u)
  then have "xt_save x' = xt_save x" using assms(2) fill_command_save by simp
  then show ?thesis using assms(3) FillCommand by (simp add: drops_def)
next
  case (TabClosed u)
  then show ?thesis using assms by (auto simp: drops_def close_tab_def delete_conv' split: if_splits)
qed

lemma ext_run_save:
  assumes "br_stores b" and "map_of (xt_save (fst (ext_run b es w))) t = Some p"
  shows "typed_earlier b es t p"
  using assms(2)
proof (induction es arbitrary: p rule: rev_induct)
  case Nil
  then show ?case by (simp add: ext_run_def fresh_extension_def)
next
  case (snoc d es)
  obtain now e where d: "d = (now, e)" by (cases d)
  obtain x v where before: "ext_run b es w = (x, v)" by (metis surj_pair)
  obtain x' v' where step: "on_event b now e (x, v) = (x', v')" by (metis surj_pair)
  have "ext_run b (es @ [d]) w = (x', v')" using before step by (simp add: ext_run_def d)
  with snoc.prems have "map_of (xt_save x') t = Some p" by simp
  from event_save [OF assms(1) step this] consider
      "map_of (xt_save x) t = Some p" "\<not> drops b t e"
    | s u where "e = Message (Typed (Some u) (Some (pn_password p))) s" "fromPage b s" "sd_tabId s = Some t"
        "pageOf s = Some (pn_url p, pn_topUrl p)" "pn_at p = now"
    by blast
  then show ?case
  proof cases
    case 1
    then show ?thesis using snoc.IH [of p] typed_earlier_snoc before d by simp
  next
    case (2 s u)
    then show ?thesis unfolding typed_earlier_def d
      by (intro exI [of _ es] exI [of _ "[]"] exI [of _ s] exI [of _ u]) simp
  qed
qed

text \<open>C11. A typed password leaves the browser only for the page it was typed on: whatever messages, tabs and answers
  came before, a password is sent to Zvault to be saved only at the request of a tab's top frame, as it was typed
  in that tab less than two minutes ago, with the address of the frame it was typed in, and neither dismissed nor
  left by closing the tab since.\<close>

theorem saved_login_was_typed:
  assumes "HostSave url top_url username password item \<in> set (sent b now e (ext_run b es w))"
  shows "\<exists>s s' t at u es1 es2. e = Message SaveTyped s \<and> fromPage b s \<and> sd_frameId s = Some 0 \<and> sd_tabId s = Some t \<and>
    es = es1 @ (at, Message (Typed (Some u) (Some password)) s') # es2 \<and> now - at < PENDING_MS \<and>
    fromPage b s' \<and> sd_tabId s' = Some t \<and> reported s' url top_url \<and> list_all (\<lambda>(_, d). \<not> drops b t d) es2"
proof -
  obtain x v where run: "ext_run b es w = (x, v)" by (metis surj_pair)
  obtain m s where e: "e = Message m s"
  proof (cases e)
    case (FillCommand t)
    have "r \<notin> set (snd (snd (fill_command (log_browser b) now t (x, (v, []))))) " if r: "r = HostSave url top_url username password item" for r
      using r by (auto simp: fill_command_def handle_def own_page_def fromPage_def fail_def and_also_def log_simps
          split: option.splits sum.splits prod.splits list.splits if_splits)
    then show ?thesis using assms run FillCommand by (simp add: sent_def)
  qed (use assms in \<open>auto simp: sent_def\<close>)
  then obtain t p where m: "m = SaveTyped" "fromPage b s" "sd_frameId s = Some 0" "sd_tabId s = Some t" "pending b t now x = Some p"
      "url = pn_url p" "top_url = pn_topUrl p" "password = pn_password p"
    using assms unfolding e run sent_save by blast
  then have p: "br_stores b" "map_of (xt_save x) t = Some p" "now - pn_at p < PENDING_MS"
    by (auto simp: pending_def stored_def split: option.splits if_splits)
  from ext_run_save [OF p(1), of es w] p(2) run have "typed_earlier b es t p" by simp
  then show ?thesis unfolding typed_earlier_def pageOf_reported using m p(3) e by (fastforce simp: list_all_iff)
qed


section \<open>Concrete runs\<close>

definition demo_site :: js_text where "demo_site = ascii ''https://bank.example/''"

definition demo_frame :: sender where
  "demo_frame = \<lparr>sd_url = Some demo_site, sd_frameId = Some 0, sd_tabId = Some 7, sd_tabUrl = Some demo_site\<rparr>"

definition demo_browser :: "unit browser" where
  "demo_browser = \<lparr>br_home = ascii ''chrome-extension://abc/'', br_brands = [], br_origin = id, br_hostname = id, br_stores = True,
     br_tabUrl = (\<lambda>t w. Some demo_site), br_tell = (\<lambda>t m w. (True, w)), br_openPopup = id,
     br_host = (\<lambda>r w. (Inr (case r of HostSaveCheck url t u p \<Rightarrow> CheckIs CheckNew | _ \<Rightarrow> Plain), w))\<rparr>"

definition demo_typed :: "(time \<times> ext_event) list" where
  "demo_typed = [(1000, Message (Typed (Some (ascii ''ana'')) (Some (ascii ''secret''))) demo_frame)]"

lemma demo_frame_facts:
  "pageOf demo_frame = Some (demo_site, Some demo_site)" "fromPage demo_browser demo_frame" "sd_tabId demo_frame = Some 7"
  "sd_frameId demo_frame = Some 0" "br_stores demo_browser" "trim_text (ascii ''ana'') = ascii ''ana''" "ascii ''ana'' \<noteq> []"
  "ascii ''secret'' \<noteq> []"
  by (simp_all add: pageOf_def fromPage_def demo_frame_def demo_browser_def demo_site_def is_web_def ascii_def trim_text_def space_unit_def)

lemma demo_sends:
  "HostSave demo_site (Some demo_site) (ascii ''ana'') (ascii ''secret'') None \<in>
     set (sent demo_browser 2000 (Message SaveTyped demo_frame) (ext_run demo_browser demo_typed ()))"
  "HostLogins demo_site (Some demo_site) \<in> set (sent demo_browser 2000 (Message GetLogins demo_frame) (fresh_extension, ()))"
proof -
  have asked: "ask demo_browser (HostSaveCheck u t n p) (x, ()) = (Inr (CheckIs CheckNew), (x, ()))" for u t n p x
    by (simp add: ask_def demo_browser_def)
  obtain x where x: "ext_run demo_browser demo_typed () = (x, ())" by (metis surj_pair unit.exhaust)
  then have "\<exists>p. map_of (xt_save x) 7 = Some p \<and> pn_url p = demo_site \<and> pn_topUrl p = Some demo_site \<and> pn_username p = ascii ''ana'' \<and>
      pn_password p = ascii ''secret'' \<and> pn_item p = None \<and> pn_at p = 1000"
    by (auto simp: ext_run_def demo_typed_def handle_def typed_def demo_frame_facts asked check_in_def Let_def fresh_extension_def)
  then show "HostSave demo_site (Some demo_site) (ascii ''ana'') (ascii ''secret'') None \<in>
      set (sent demo_browser 2000 (Message SaveTyped demo_frame) (ext_run demo_browser demo_typed ()))"
    unfolding x sent_save by (auto simp: demo_frame_facts pending_def stored_def PENDING_MS_def)
  show "HostLogins demo_site (Some demo_site) \<in> set (sent demo_browser 2000 (Message GetLogins demo_frame) (fresh_extension, ()))"
    by (simp add: sent_message handle_def demo_frame_facts and_also_def answer_def split: sum.split)
qed

theorem saved_login_was_typed_witness:
  "\<exists>s at u. (at, Message (Typed (Some u) (Some (ascii ''secret''))) s) \<in> set demo_typed \<and> 2000 - at < PENDING_MS \<and>
     reported s demo_site (Some demo_site)"
  using saved_login_was_typed [OF demo_sends(1)] by (elim exE conjE) (metis in_set_conv_decomp)


end
