(* ===== verification/NativeHost.thy ===== *)
theory NativeHost
  imports Extension
begin

text \<open>
  The extension's connection to \<^verbatim>\<open>zv\<close> (\<^verbatim>\<open>apps/extension/src/host.ts\<close>): requests carry an id that the reply repeats, so
  several can be under way. What the browser does (connecting, posting, messages, a lost port, a timer) are the steps.
  Each step gives the answers it hands out, by the id of the request.
\<close>

text \<open>What \<open>zv\<close> sends, as far as it is read; \<open>None\<close> where a field is missing or of another type.\<close>

record native_message =
  nm_id :: "int option"
  nm_event :: "js_text option"
  nm_ok :: bool
  nm_code :: "error_code option"
  nm_message :: "js_text option"

type_synonym host_answer = "(error_code \<times> js_text) + native_message"

text \<open>\<^verbatim>\<open>class Host\<close>: the open port, the next id, and the ids that wait, oldest first.\<close>

record native_host =
  nh_port :: "nat option"
  nh_next :: nat
  nh_pending :: "nat list"

definition new_host :: native_host where
  "new_host = \<lparr>nh_port = None, nh_next = 1, nh_pending = []\<rparr>"

type_synonym answers = "(nat \<times> host_answer) list"

definition host_finish :: "nat \<Rightarrow> host_answer \<Rightarrow> native_host \<Rightarrow> native_host \<times> answers" where
  "host_finish i a h = (if i \<in> set (nh_pending h) then (h\<lparr>nh_pending := removeAll i (nh_pending h)\<rparr>, [(i, a)]) else (h, []))"

text \<open>\<open>opened\<close> is the port that connecting gives, \<open>None\<close> when it throws; \<open>posted\<close> is false when posting throws.\<close>

definition host_send :: "nat option \<Rightarrow> bool \<Rightarrow> native_host \<Rightarrow> native_host \<times> answers" where
  "host_send opened posted h =
     (let i = nh_next h;
          h = h\<lparr>nh_next := i + 1, nh_pending := nh_pending h @ [i]\<rparr>;
          port = (case nh_port h of Some p \<Rightarrow> Some p | None \<Rightarrow> opened);
          h = h\<lparr>nh_port := port\<rparr>
      in if port = None \<or> \<not> posted then host_finish i (Inl (NotInstalled, ascii ''Zvault is not installed.'')) h else (h, []))"

definition NOT_FOUND_TEXTS :: "string list" where
  "NOT_FOUND_TEXTS = [''not found'', ''forbidden'', ''not allowed'']"

definition lost_code :: "js_text \<Rightarrow> error_code" where
  "lost_code why = (if list_ex (\<lambda>p. somewhere (begins p) why) NOT_FOUND_TEXTS then NotInstalled else ErrorCode)"

definition lost_answer :: "js_text \<Rightarrow> host_answer" where
  "lost_answer why = Inl (lost_code why, if why = [] then ascii ''Lost the connection to Zvault.'' else why)"

definition host_disconnect :: "nat \<Rightarrow> js_text \<Rightarrow> native_host \<Rightarrow> native_host \<times> answers" where
  "host_disconnect port why h =
     (let h = (if nh_port h = Some port then h\<lparr>nh_port := None\<rparr> else h)
      in fold (\<lambda>i (h, out). case host_finish i (lost_answer why) h of (h, a) \<Rightarrow> (h, out @ a)) (nh_pending h) (h, []))"

definition failure_of :: "native_message \<Rightarrow> error_code \<times> js_text" where
  "failure_of m = ((case nm_code m of None \<Rightarrow> ErrorCode | Some c \<Rightarrow> c),
     (case nm_message m of None \<Rightarrow> ascii ''Zvault could not do that.'' | Some t \<Rightarrow> t))"

text \<open>A message for no request, or one with an event, answers nothing.\<close>

definition host_receive :: "native_message \<Rightarrow> native_host \<Rightarrow> native_host \<times> answers" where
  "host_receive m h = (case nm_id m of
     None \<Rightarrow> (h, [])
   | Some i \<Rightarrow>
       if i < 0 \<or> nat i \<notin> set (nh_pending h) \<or> nm_event m \<noteq> None then (h, [])
       else host_finish (nat i) (if nm_ok m then Inr m else Inl (failure_of m)) h)"

datatype host_step =
    SendRequest "nat option" bool
  | Receive native_message
  | Disconnect nat js_text
  | ReplyTimeout nat

fun host_do :: "host_step \<Rightarrow> native_host \<Rightarrow> native_host \<times> answers" where
  "host_do (SendRequest opened posted) h = host_send opened posted h"
| "host_do (Receive m) h = host_receive m h"
| "host_do (Disconnect port why) h = host_disconnect port why h"
| "host_do (ReplyTimeout i) h = host_finish i (Inl (TimeoutCode, ascii ''Zvault did not answer.'')) h"

fun host_run :: "host_step list \<Rightarrow> native_host \<times> answers \<Rightarrow> native_host \<times> answers" where
  "host_run [] st = st"
| "host_run (s # ss) st = (case host_do s (fst st) of (h, a) \<Rightarrow> host_run ss (h, snd st @ a))"

section \<open>Each request has one answer\<close>

text \<open>Every id given out waits or has been answered, not both, and never twice; a reply goes to the request it names.\<close>

definition answered_once :: "native_host \<times> answers \<Rightarrow> bool" where
  "answered_once st \<longleftrightarrow> distinct (nh_pending (fst st) @ map fst (snd st)) \<and>
     set (nh_pending (fst st) @ map fst (snd st)) = {1..<nh_next (fst st)} \<and> 1 \<le> nh_next (fst st) \<and>
     (\<forall>(i, a) \<in> set (snd st). \<forall>m. a = Inr m \<longrightarrow> nm_id m = Some (int i) \<and> nm_ok m)"

lemma move_answered:
  assumes "distinct (ps @ is)" and "i \<in> set ps"
  shows "distinct (removeAll i ps @ is @ [i])" and "set (removeAll i ps @ is @ [i]) = set (ps @ is)"
  using assms by (auto simp: distinct_removeAll)

lemma finish_answered:
  assumes "answered_once (h, out)" and "\<And>m. a = Inr m \<Longrightarrow> nm_id m = Some (int i) \<and> nm_ok m"
    and "host_finish i a h = (h', new)"
  shows "answered_once (h', out @ new)" and "nh_pending h' = removeAll i (nh_pending h)"
proof -
  have "answered_once (h', out @ new) \<and> nh_pending h' = removeAll i (nh_pending h)"
  proof (cases "i \<in> set (nh_pending h)")
    case True
    then have h': "h' = h\<lparr>nh_pending := removeAll i (nh_pending h)\<rparr>" "new = [(i, a)]" using assms(3) by (auto simp: host_finish_def)
    have "distinct (nh_pending h @ map fst out)" "set (nh_pending h @ map fst out) = {1..<nh_next h}" using assms(1) by (simp_all add: answered_once_def)
    note moved = move_answered [OF this(1) True, unfolded this(2)]
    then show ?thesis using assms(1,2) by (simp add: answered_once_def h' del: distinct_append set_append) auto
  next
    case False
    then show ?thesis using assms(1,3) by (simp add: host_finish_def)
  qed
  then show "answered_once (h', out @ new)" and "nh_pending h' = removeAll i (nh_pending h)" by auto
qed

lemma disconnect_answered:
  assumes "fold (\<lambda>i (h, out). case host_finish i (lost_answer why) h of (h, a) \<Rightarrow> (h, out @ a)) is (h, new) = (h', new')"
    and "answered_once (h, out @ new)"
  shows "answered_once (h', out @ new') \<and> set (nh_pending h') = set (nh_pending h) - set is"
  using assms
proof (induction "is" arbitrary: h new)
  case (Cons i "is")
  obtain h1 a where step: "host_finish i (lost_answer why) h = (h1, a)" by (metis surj_pair)
  note one = finish_answered [OF Cons.prems(2) _ step]
  have "answered_once (h1, out @ new @ a)" "nh_pending h1 = removeAll i (nh_pending h)"
    using one by (simp_all add: lost_answer_def)
  then show ?case using Cons.IH [of h1 "new @ a"] Cons.prems(1) step by auto
qed simp

lemma host_do_answered:
  assumes "answered_once (h, out)" and "host_do s h = (h', new)"
  shows "answered_once (h', out @ new) \<and> (\<forall>port why. s = Disconnect port why \<longrightarrow> nh_pending h' = [])"
proof (cases s)
  case (SendRequest opened posted)
  let ?port = "case nh_port h of Some p \<Rightarrow> Some p | None \<Rightarrow> opened"
  let ?h = "h\<lparr>nh_next := nh_next h + 1, nh_pending := nh_pending h @ [nh_next h], nh_port := ?port\<rparr>"
  have sent: "answered_once (?h, out)" using assms(1) by (auto simp: answered_once_def)
  show ?thesis
  proof (cases "?port = None \<or> \<not> posted")
    case True
    then have "host_finish (nh_next h) (Inl (NotInstalled, ascii ''Zvault is not installed.'')) ?h = (h', new)"
      using assms(2) by (simp add: SendRequest host_send_def Let_def)
    then show ?thesis using finish_answered(1) [OF sent] SendRequest by blast
  next
    case False
    then show ?thesis using assms(2) sent by (auto simp: SendRequest host_send_def Let_def)
  qed
next
  case (Receive m)
  show ?thesis
  proof (cases "new = [] \<and> h' = h")
    case False
    then obtain i where i: "nm_id m = Some i" "0 \<le> i" "host_finish (nat i) (if nm_ok m then Inr m else Inl (failure_of m)) h = (h', new)"
      using assms(2) by (auto simp: Receive host_receive_def split: option.splits if_splits)
    then show ?thesis using finish_answered(1) [OF assms(1) _ i(3)] Receive by (auto split: if_splits)
  qed (use assms(1) Receive in simp)
next
  case (Disconnect port why)
  let ?h = "if nh_port h = Some port then h\<lparr>nh_port := None\<rparr> else h"
  have "answered_once (?h, out @ [])" using assms(1) by (simp add: answered_once_def)
  with disconnect_answered [of why "nh_pending ?h" ?h "[]" h' new out] assms(2)
  show ?thesis by (auto simp: Disconnect host_disconnect_def Let_def split: if_splits)
next
  case (ReplyTimeout i)
  then show ?thesis using finish_answered(1) [OF assms(1)] assms(2) by auto
qed

text \<open>C40. Every request to the native host has exactly one answer: over any run of requests, replies, stray messages,
  timeouts and lost connections, each id given out either waits or was answered, once; a reply answers the request
  whose id it carries, and nothing waits on a connection that is gone.\<close>

theorem requests_answered_once:
  "answered_once (host_run ss (new_host, [])) \<and>
   nh_pending (fst (host_do (Disconnect port why) (fst (host_run ss (new_host, []))))) = []"
proof -
  have run: "answered_once (host_run ss st)" if "answered_once st" for st
    using that
  proof (induction ss arbitrary: st)
    case (Cons s ss)
    obtain h out where st: "st = (h, out)" by (cases st)
    obtain h' new where step: "host_do s h = (h', new)" by (metis surj_pair)
    have "answered_once (h', out @ new)" using host_do_answered [OF _ step] Cons.prems st by blast
    then show ?case using Cons.IH step by (simp add: st)
  qed simp
  have start: "answered_once (new_host, [])" by (auto simp: answered_once_def new_host_def)
  obtain h out where now: "host_run ss (new_host, []) = (h, out)" by (metis surj_pair)
  obtain h' new where lost: "host_do (Disconnect port why) h = (h', new)" by (metis surj_pair)
  have "answered_once (h, out)" using run [OF start] now by simp
  with host_do_answered [OF this lost] lost now show ?thesis by (simp del: host_do.simps)
qed

end
